(* ===== verification/Prelude.thy ===== *)
theory Prelude
  imports Complex_Main "HOL-Library.Product_Lexorder" "HOL-Library.List_Lexorder"
    "HOL-Library.Char_ord"
begin

text \<open>
  What the component theories share: JSON values, the text of numbers, tables as lists of rows
  with the SQL operations the program uses on them, and database transactions as functions from a
  state to an exception or a value with the new state.

  A table is the list of its rows in insertion order. \<open>update_where\<close> is UPDATE ... WHERE,
  \<open>filter\<close> is WHERE, \<open>sort_key\<close> followed by \<open>limit1\<close> is ORDER BY ... LIMIT 1 (rows that tie under
  the ORDER BY keep the table's order, where SQL leaves the choice open).
\<close>

section \<open>JSON values and text\<close>

text \<open>
  The values of a JSON column and of a Python dict. \<open>JId\<close> is the text of a UUID (\<open>str(id)\<close>),
  kept symbolic.
\<close>

datatype json =
    JNull
  | JBool bool
  | JInt int
  | JNum rat
  | JStr string
  | JId nat
  | JList "json list"
  | JObj "(string \<times> json) list"

text \<open>\<open>d.get(k)\<close> on a dict: None when the key is absent.\<close>

fun jget :: "string \<Rightarrow> json \<Rightarrow> json" where
  "jget k (JObj kvs) = (case map_of kvs k of None \<Rightarrow> JNull | Some v \<Rightarrow> v)"
| "jget k _ = JNull"

text \<open>\<open>d.get(k, v)\<close>: the default only when the key is absent.\<close>

fun jget_or :: "json \<Rightarrow> string \<Rightarrow> json \<Rightarrow> json" where
  "jget_or v k (JObj kvs) = (case map_of kvs k of None \<Rightarrow> v | Some w \<Rightarrow> w)"
| "jget_or v k _ = v"

text \<open>\<open>bool(v)\<close>: Python's truth value.\<close>

fun truthy :: "json \<Rightarrow> bool" where
  "truthy JNull = False"
| "truthy (JBool b) = b"
| "truthy (JInt i) = (i \<noteq> 0)"
| "truthy (JNum r) = (r \<noteq> 0)"
| "truthy (JStr s) = (s \<noteq> [])"
| "truthy (JId _) = True"
| "truthy (JList xs) = (xs \<noteq> [])"
| "truthy (JObj kvs) = (kvs \<noteq> [])"

text \<open>\<open>{**a, **b}\<close>: the keys of the second dict win.\<close>

fun jmerge :: "json \<Rightarrow> json \<Rightarrow> json" where
  "jmerge (JObj a) (JObj b) = JObj (b @ filter (\<lambda>(k, _). k \<notin> fst ` set b) a)"
| "jmerge a b = b"

text \<open>Values of nullable columns as JSON.\<close>

definition jstr :: "string option \<Rightarrow> json" where
  "jstr v = (case v of None \<Rightarrow> JNull | Some s \<Rightarrow> JStr s)"

definition jint :: "int option \<Rightarrow> json" where
  "jint v = (case v of None \<Rightarrow> JNull | Some i \<Rightarrow> JInt i)"

definition jid :: "nat option \<Rightarrow> json" where
  "jid v = (case v of None \<Rightarrow> JNull | Some i \<Rightarrow> JId i)"

text \<open>JSON values as nullable columns of a SQL type.\<close>

fun num_col :: "json \<Rightarrow> rat option" where
  "num_col (JInt i) = Some (of_int i)"
| "num_col (JNum r) = Some r"
| "num_col _ = None"

fun int_col :: "json \<Rightarrow> int option" where
  "int_col (JInt i) = Some i"
| "int_col _ = None"

fun bool_col :: "json \<Rightarrow> bool option" where
  "bool_col (JBool b) = Some b"
| "bool_col _ = None"

fun text_col :: "json \<Rightarrow> string option" where
  "text_col (JStr s) = Some s"
| "text_col _ = None"

text \<open>The decimal text of a number, Python's \<open>str(n)\<close>.\<close>

definition digit_char :: "nat \<Rightarrow> char" where
  "digit_char d = char_of (48 + d)"

fun show_nat :: "nat \<Rightarrow> string" where
  "show_nat n = (if n < 10 then [digit_char n] else show_nat (n div 10) @ [digit_char (n mod 10)])"

declare show_nat.simps [simp del]

definition show_int :: "int \<Rightarrow> string" where
  "show_int i = (if i < 0 then ''-'' @ show_nat (nat (- i)) else show_nat (nat i))"

text \<open>The number a run of decimal digits denotes, Python's \<open>int(s)\<close> on such a run.\<close>

definition digit_val :: "char \<Rightarrow> nat" where
  "digit_val c = of_char c - 48"

definition is_digit :: "char \<Rightarrow> bool" where
  "is_digit c \<longleftrightarrow> (48::nat) \<le> of_char c \<and> of_char c \<le> (57::nat)"

definition read_nat :: "string \<Rightarrow> nat" where
  "read_nat s = foldl (\<lambda>n c. 10 * n + digit_val c) 0 s"

lemma digit_char_val: "d < 10 \<Longrightarrow> digit_val (digit_char d) = d"
  by (simp add: digit_val_def digit_char_def)

lemma digit_char_digit: "d < 10 \<Longrightarrow> is_digit (digit_char d)"
  by (simp add: is_digit_def digit_char_def)

lemma read_nat_snoc: "read_nat (s @ [c]) = 10 * read_nat s + digit_val c"
  by (simp add: read_nat_def)

lemma read_show_nat: "read_nat (show_nat n) = n"
proof (induction n rule: show_nat.induct)
  case (1 n)
  show ?case
  proof (cases "n < 10")
    case True
    then show ?thesis by (simp add: show_nat.simps [of n] read_nat_def digit_char_val)
  next
    case False
    with "1" show ?thesis
      by (simp add: show_nat.simps [of n] read_nat_snoc digit_char_val)
  qed
qed

lemma show_nat_digits: "c \<in> set (show_nat n) \<Longrightarrow> is_digit c"
proof (induction n rule: show_nat.induct)
  case (1 n)
  then show ?case
    by (cases "n < 10") (auto simp: show_nat.simps [of n] digit_char_digit)
qed

lemma show_nat_nonempty: "show_nat n \<noteq> []"
  by (subst show_nat.simps) simp

lemma show_nat_inj: "show_nat m = show_nat n \<longleftrightarrow> m = n"
  by (metis read_show_nat)

text \<open>String methods: \<open>startswith\<close>, \<open>in\<close>, \<open>removeprefix\<close>, \<open>partition\<close>, \<open>rpartition\<close> on one character,
  \<open>lower\<close> and \<open>upper\<close> on ASCII letters (ILIKE compares lowered texts).\<close>

definition starts_with :: "string \<Rightarrow> string \<Rightarrow> bool" where
  "starts_with p s \<longleftrightarrow> take (length p) s = p"

fun str_contains :: "string \<Rightarrow> string \<Rightarrow> bool" where
  "str_contains p [] = (p = [])"
| "str_contains p (c # s) = (starts_with p (c # s) \<or> str_contains p s)"

definition removeprefix :: "string \<Rightarrow> string \<Rightarrow> string" where
  "removeprefix p s = (if starts_with p s then drop (length p) s else s)"

definition before_first :: "char \<Rightarrow> string \<Rightarrow> string" where
  "before_first c s = takeWhile (\<lambda>x. x \<noteq> c) s"

definition after_first :: "char \<Rightarrow> string \<Rightarrow> string" where
  "after_first c s = drop 1 (dropWhile (\<lambda>x. x \<noteq> c) s)"

definition after_last :: "char \<Rightarrow> string \<Rightarrow> string" where
  "after_last c s = rev (takeWhile (\<lambda>x. x \<noteq> c) (rev s))"

text \<open>\<open>s.split(c)\<close>.\<close>

fun split_on :: "char \<Rightarrow> string \<Rightarrow> string list" where
  "split_on c [] = [[]]"
| "split_on c (x # s) = (if x = c then [] # split_on c s
     else case split_on c s of [] \<Rightarrow> [[x]] | y # ys \<Rightarrow> (x # y) # ys)"

lemma split_on_nonempty [simp]: "split_on c s \<noteq> []"
  by (cases s) (auto split: list.splits)

definition lower_char :: "char \<Rightarrow> char" where
  "lower_char c = (if (65::nat) \<le> of_char c \<and> of_char c \<le> (90::nat)
     then char_of (of_char c + 32 :: nat) else c)"

definition lower :: "string \<Rightarrow> string" where
  "lower s = map lower_char s"

definition upper_char :: "char \<Rightarrow> char" where
  "upper_char c = (let n = (of_char c :: nat) in if 97 \<le> n \<and> n \<le> 122 then char_of (n - 32) else c)"

definition upper :: "string \<Rightarrow> string" where
  "upper s = map upper_char s"

definition word_char :: "char \<Rightarrow> bool" where
  "word_char c \<longleftrightarrow> (let n = (of_char c :: nat) in
     (48 \<le> n \<and> n \<le> 57) \<or> (65 \<le> n \<and> n \<le> 90) \<or> (97 \<le> n \<and> n \<le> 122) \<or> n = 95)"

definition hex_char :: "char \<Rightarrow> bool" where
  "hex_char c \<longleftrightarrow> is_digit c \<or> ((97::nat) \<le> of_char c \<and> of_char c \<le> (102::nat))"

definition hex_text :: "nat \<Rightarrow> string \<Rightarrow> bool" where
  "hex_text n s \<longleftrightarrow> length s = n \<and> list_all hex_char s"

text \<open>\<open>str.strip\<close>, and the non-blank stripped lines of a text.\<close>

definition is_space :: "char \<Rightarrow> bool" where
  "is_space c \<longleftrightarrow> (let n = (of_char c :: nat) in n = 32 \<or> (9 \<le> n \<and> n \<le> 13) \<or> (28 \<le> n \<and> n \<le> 31) \<or> n = 133 \<or> n = 160)"

definition strip :: "string \<Rightarrow> string" where
  "strip s = rev (dropWhile is_space (rev (dropWhile is_space s)))"

definition line_break :: "char \<Rightarrow> bool" where
  "line_break c \<longleftrightarrow> (let n = (of_char c :: nat) in (10 \<le> n \<and> n \<le> 13) \<or> (28 \<le> n \<and> n \<le> 30))"

fun split_lines :: "string \<Rightarrow> string list" where
  "split_lines [] = [[]]"
| "split_lines (c # s) =
     (if line_break c then [] # split_lines s
      else case split_lines s of [] \<Rightarrow> [[c]] | l # ls \<Rightarrow> (c # l) # ls)"

definition text_lines :: "string \<Rightarrow> string list" where
  "text_lines s = filter (\<lambda>l. l \<noteq> []) (map strip (split_lines s))"

text \<open>\<open>str(v)\<close> of the scalar values (the others do not occur where the models use it).\<close>

fun py_str :: "json \<Rightarrow> string" where
  "py_str JNull = ''None''"
| "py_str (JBool b) = (if b then ''True'' else ''False'')"
| "py_str (JInt i) = show_int i"
| "py_str (JStr s) = s"
| "py_str (JId i) = ''uuid:'' @ show_nat i"
| "py_str _ = []"

text \<open>\<open>re.match\<close> with a final \<open>$\<close>, which also matches before one last line feed.\<close>

definition dollar :: "(string \<Rightarrow> bool) \<Rightarrow> string \<Rightarrow> bool" where
  "dollar p s \<longleftrightarrow> p s \<or> (s \<noteq> [] \<and> last s = CHR 0x0A \<and> p (butlast s))"

text \<open>\<open>a or b\<close> on a nullable text: the empty string is false.\<close>

definition or_text :: "string option \<Rightarrow> string option \<Rightarrow> string option" where
  "or_text a b = (case a of None \<Rightarrow> b | Some s \<Rightarrow> if s = [] then b else Some s)"

definition coalesce :: "'a option \<Rightarrow> 'a option \<Rightarrow> 'a option" where
  "coalesce a b = (case a of None \<Rightarrow> b | Some _ \<Rightarrow> a)"

text \<open>The dash of the messages, U+2014, as its UTF-8 bytes.\<close>

definition dash :: string where
  "dash = [CHR '' '', CHR 0xE2, CHR 0x80, CHR 0x94, CHR '' '']"

lemma coalesce_simps [simp]:
  "coalesce None b = b" "coalesce (Some x) b = Some x"
  by (simp_all add: coalesce_def)

lemma starts_with_append [simp]: "starts_with p (p @ s)"
  by (simp add: starts_with_def)

lemma removeprefix_append [simp]: "removeprefix p (p @ s) = s"
  by (simp add: removeprefix_def)

section \<open>Tables\<close>

definition update_where :: "('r \<Rightarrow> bool) \<Rightarrow> ('r \<Rightarrow> 'r) \<Rightarrow> 'r list \<Rightarrow> 'r list" where
  "update_where p f rows = map (\<lambda>r. if p r then f r else r) rows"

definition limit1 :: "'r list \<Rightarrow> 'r option" where
  "limit1 rows = (case rows of [] \<Rightarrow> None | r # _ \<Rightarrow> Some r)"

text \<open>COALESCE(MAX(n), 0) + 1.\<close>

definition next_number :: "nat list \<Rightarrow> nat" where
  "next_number ns = Suc (foldr max ns 0)"

text \<open>
  A unique index: no two rows have the same key. Rows whose key is None are outside a partial
  index, or have NULL in the key.
\<close>

definition unique_by :: "('r \<Rightarrow> 'k option) \<Rightarrow> 'r list \<Rightarrow> bool" where
  "unique_by key rows \<longleftrightarrow> sorted_wrt (\<lambda>r s. key r = None \<or> key r \<noteq> key s) rows"

named_theorems tbl \<open>facts about tables, for simp\<close>

lemma update_where_Nil [tbl, simp]: "update_where p f [] = []"
  by (simp add: update_where_def)

lemma update_where_Cons [tbl]:
  "update_where p f (r # rs) = (if p r then f r else r) # update_where p f rs"
  by (simp add: update_where_def)

lemma update_where_append [tbl]:
  "update_where p f (rs @ ss) = update_where p f rs @ update_where p f ss"
  by (simp add: update_where_def)

lemma length_update_where [simp]: "length (update_where p f rs) = length rs"
  by (simp add: update_where_def)

lemma in_map_filter: "y \<in> set (List.map_filter f xs) \<longleftrightarrow> (\<exists>x \<in> set xs. f x = Some y)"
  by (force simp: List.map_filter_def)

lemma in_update_where:
  "s \<in> set (update_where p f rs) \<longleftrightarrow>
     (\<exists>r \<in> set rs. s = (if p r then f r else r))"
  by (auto simp: update_where_def)

lemma update_where_id: "(\<And>r. r \<in> set rs \<Longrightarrow> \<not> p r) \<Longrightarrow> update_where p f rs = rs"
  by (simp add: update_where_def map_idI)

lemma update_whereE:
  assumes "s \<in> set (update_where p f rs)"
  obtains (hit) r where "r \<in> set rs" "p r" "s = f r" | (miss) "s \<in> set rs" "\<not> p s"
  using assms by (auto simp: update_where_def split: if_splits)

lemma update_where_hit: "r \<in> set rs \<Longrightarrow> (if p r then f r else r) \<in> set (update_where p f rs)"
  by (auto simp: update_where_def)

lemma update_where_none [simp]: "update_where (\<lambda>s. False) g xs = xs"
  by (simp add: update_where_id)

lemma map_update_where:
  "(\<And>r. r \<in> set rs \<Longrightarrow> p r \<Longrightarrow> key (f r) = key r) \<Longrightarrow> map key (update_where p f rs) = map key rs"
  by (simp add: update_where_def)

lemma limit1_Some: "limit1 rs = Some r \<Longrightarrow> r \<in> set rs"
  by (auto simp: limit1_def split: list.splits)

lemma limit1_None [simp]: "limit1 rs = None \<longleftrightarrow> rs = []"
  by (auto simp: limit1_def split: list.splits)

lemma limit1_Nil [simp]: "limit1 [] = None"
  by simp

lemma limit1_Cons [simp]: "limit1 (r # rs) = Some r"
  by (simp add: limit1_def)

lemma limit1_sort_key_least:
  assumes "limit1 (sort_key key rs) = Some r" and "s \<in> set rs"
  shows "key r \<le> key s"
proof -
  obtain ts where ts: "sort_key key rs = r # ts"
    using assms(1) by (auto simp: limit1_def split: list.splits)
  have "sorted (map key (r # ts))"
    using sorted_sort_key [of key rs] by (simp add: ts)
  moreover have "s \<in> set (r # ts)"
    using assms(2) by (metis set_sort ts)
  ultimately show ?thesis by auto
qed

lemma foldr_max_ge: "n \<in> set ns \<Longrightarrow> n \<le> foldr max ns (0::nat)"
  by (induction ns) auto

lemma next_number_fresh: "next_number ns \<notin> set ns"
proof
  assume "next_number ns \<in> set ns"
  then have "next_number ns \<le> foldr max ns 0" by (rule foldr_max_ge)
  then show False by (simp add: next_number_def)
qed

lemma next_number_gt: "n \<in> set ns \<Longrightarrow> n < next_number ns"
  using foldr_max_ge [of n ns] by (simp add: next_number_def)

lemma update_where_twice:
  "(\<And>r. p (f r) = p r) \<Longrightarrow> update_where p g (update_where p f rs) = update_where p (\<lambda>r. g (f r)) rs"
  by (simp add: update_where_def)

lemma unique_by_Nil [simp]: "unique_by key []"
  by (simp add: unique_by_def)

lemma unique_by_snoc:
  "unique_by key (rs @ [r]) \<longleftrightarrow>
     unique_by key rs \<and> (\<forall>s \<in> set rs. key s = None \<or> key s \<noteq> key r)"
  by (simp add: unique_by_def sorted_wrt_append)

lemma unique_by_append:
  "unique_by key (rs @ ss) \<longleftrightarrow> unique_by key rs \<and> unique_by key ss \<and>
     (\<forall>r \<in> set rs. \<forall>s \<in> set ss. key r = None \<or> key r \<noteq> key s)"
  by (simp add: unique_by_def sorted_wrt_append)

lemma unique_by_distinct: "unique_by (\<lambda>r. Some (key r)) rs \<longleftrightarrow> distinct (map key rs)"
  by (induction rs) (auto simp: unique_by_def)

lemma unique_by_filter: "unique_by key rs \<Longrightarrow> unique_by key (filter p rs)"
  by (simp add: unique_by_def sorted_wrt_filter)

lemma unique_by_Cons:
  "unique_by key (r # rs) \<longleftrightarrow>
     (\<forall>s \<in> set rs. key r = None \<or> key r \<noteq> key s) \<and> unique_by key rs"
  by (simp add: unique_by_def)

lemma unique_by_map:
  assumes "unique_by key rs"
    and "\<And>r. r \<in> set rs \<Longrightarrow> key (g r) = key r \<or> key (g r) = None"
  shows "unique_by key (map g rs)"
  using assms
proof (induction rs)
  case Nil
  then show ?case by simp
next
  case (Cons r rs)
  have apart: "key (g r) = None \<or> key (g r) \<noteq> key (g s)" if "s \<in> set rs" for s
    using Cons.prems(2) [of r] Cons.prems(2) [of s] that Cons.prems(1)
    by (auto simp: unique_by_Cons)
  have rest: "unique_by key (map g rs)"
    using Cons by (simp add: unique_by_Cons)
  show ?case
    unfolding list.map unique_by_Cons
  proof (intro conjI ballI)
    fix t assume "t \<in> set (map g rs)"
    then obtain s where s: "s \<in> set rs" "t = g s" by auto
    from apart [OF s(1)] show "key (g r) = None \<or> key (g r) \<noteq> key t"
      unfolding s(2) .
  qed (rule rest)
qed

lemma unique_by_update:
  assumes "unique_by key rs"
    and "\<And>r. r \<in> set rs \<Longrightarrow> p r \<Longrightarrow> key (f r) = key r \<or> key (f r) = None"
  shows "unique_by key (update_where p f rs)"
  unfolding update_where_def by (rule unique_by_map [OF assms(1)]) (simp add: assms(2))

lemma unique_by_same:
  assumes "unique_by key rs" and "r \<in> set rs" and "s \<in> set rs"
    and "key r = key s" and "key r \<noteq> None"
  shows "r = s"
  using assms by (induction rs) (auto simp: unique_by_Cons)

section \<open>Transactions\<close>

text \<open>
  The exceptions a transaction can raise: a unique index or a CHECK constraint of the schema, a
  RuntimeError or a ValueError of the Python code.
\<close>

datatype db_error =
    UniqueViolation string
  | CheckViolation string
  | RuntimeErr string
  | ValueErr string

type_synonym ('s, 'a) tx = "'s \<Rightarrow> db_error + 'a \<times> 's"

definition tx_return :: "'a \<Rightarrow> ('s, 'a) tx" where
  "tx_return x s = Inr (x, s)"

definition tx_raise :: "db_error \<Rightarrow> ('s, 'a) tx" where
  "tx_raise e s = Inl e"

definition tx_bind :: "('s, 'a) tx \<Rightarrow> ('a \<Rightarrow> ('s, 'b) tx) \<Rightarrow> ('s, 'b) tx" where
  "tx_bind m f s = (case m s of Inl e \<Rightarrow> Inl e | Inr (x, t) \<Rightarrow> f x t)"

definition tx_then :: "('s, 'a) tx \<Rightarrow> ('s, 'b) tx \<Rightarrow> ('s, 'b) tx" where
  "tx_then m n = tx_bind m (\<lambda>_. n)"

definition tx_gets :: "('s \<Rightarrow> 'a) \<Rightarrow> ('s, 'a) tx" where
  "tx_gets f s = Inr (f s, s)"

definition tx_modify :: "('s \<Rightarrow> 's) \<Rightarrow> ('s, unit) tx" where
  "tx_modify f s = Inr ((), f s)"

definition tx_when :: "bool \<Rightarrow> ('s, unit) tx \<Rightarrow> ('s, unit) tx" where
  "tx_when b m = (if b then m else tx_return ())"

text \<open>
  A statement that writes: its effect, then the check of the table's constraint, which raises the
  given error (PostgreSQL checks unique indexes at the end of each statement).
\<close>

definition tx_stmt :: "db_error \<Rightarrow> ('s \<Rightarrow> bool) \<Rightarrow> ('s \<Rightarrow> 's) \<Rightarrow> ('s, unit) tx" where
  "tx_stmt e ok f s = (if ok (f s) then Inr ((), f s) else Inl e)"

text \<open>A sequence of statements, and \<open>for row in rows\<close>.\<close>

primrec tx_seq :: "('s, unit) tx list \<Rightarrow> ('s, unit) tx" where
  "tx_seq [] = tx_return ()"
| "tx_seq (m # ms) = tx_then m (tx_seq ms)"

primrec tx_for :: "'r list \<Rightarrow> ('r \<Rightarrow> ('s, unit) tx) \<Rightarrow> ('s, unit) tx" where
  "tx_for [] f = tx_return ()"
| "tx_for (r # rs) f = tx_then (f r) (tx_for rs f)"

text \<open>
  \<open>with conn.transaction()\<close>: an exception rolls the state back and is passed on, a normal or early
  return commits.
\<close>

definition run_tx :: "('s, 'a) tx \<Rightarrow> 's \<Rightarrow> (db_error + 'a) \<times> 's" where
  "run_tx m s = (case m s of Inl e \<Rightarrow> (Inl e, s) | Inr (x, t) \<Rightarrow> (Inr x, t))"

named_theorems tx \<open>the outcome of transaction steps, for simp\<close>

lemma tx_return_simps [tx]:
  "tx_return x s = Inr r \<longleftrightarrow> r = (x, s)"
  "tx_return x s \<noteq> Inl e"
  by (auto simp: tx_return_def)

lemma tx_raise_simps [tx]:
  "tx_raise e s \<noteq> Inr r"
  "tx_raise e s = Inl e' \<longleftrightarrow> e' = e"
  by (auto simp: tx_raise_def)

lemma tx_bind_simps [tx]:
  "tx_bind m f s = Inr r \<longleftrightarrow> (\<exists>x t. m s = Inr (x, t) \<and> f x t = Inr r)"
  "tx_bind m f s = Inl e \<longleftrightarrow> m s = Inl e \<or> (\<exists>x t. m s = Inr (x, t) \<and> f x t = Inl e)"
  by (auto simp: tx_bind_def split: sum.splits)

lemma tx_then_simps [tx]:
  "tx_then m n s = Inr r \<longleftrightarrow> (\<exists>x t. m s = Inr (x, t) \<and> n t = Inr r)"
  "tx_then m n s = Inl e \<longleftrightarrow> m s = Inl e \<or> (\<exists>x t. m s = Inr (x, t) \<and> n t = Inl e)"
  by (auto simp: tx_then_def tx)

lemma tx_gets_simps [tx]:
  "tx_gets f s = Inr r \<longleftrightarrow> r = (f s, s)"
  "tx_gets f s \<noteq> Inl e"
  by (auto simp: tx_gets_def)

lemma tx_modify_simps [tx]:
  "tx_modify f s = Inr r \<longleftrightarrow> r = ((), f s)"
  "tx_modify f s \<noteq> Inl e"
  by (auto simp: tx_modify_def)

lemma tx_stmt_simps [tx]:
  "tx_stmt e ok f s = Inr r \<longleftrightarrow> ok (f s) \<and> r = ((), f s)"
  "tx_stmt e ok f s = Inl e' \<longleftrightarrow> \<not> ok (f s) \<and> e' = e"
  by (auto simp: tx_stmt_def)

text \<open>Running the first part of a sequence whose outcome is known.\<close>

lemma tx_run:
  "m s = Inr (x, t) \<Longrightarrow> tx_bind m f s = f x t"
  "m s = Inr (x, t) \<Longrightarrow> tx_then m n s = n t"
  by (simp_all add: tx_bind_def tx_then_def)

lemma tx_when_simps [tx]:
  "tx_when b m s = Inr r \<longleftrightarrow> (if b then m s = Inr r else r = ((), s))"
  "tx_when b m s = Inl e \<longleftrightarrow> b \<and> m s = Inl e"
  by (auto simp: tx_when_def tx)

text \<open>
  Partial correctness of a transaction: from a state with \<open>P\<close>, a run that commits with value \<open>x\<close>
  ends in a state with \<open>Q x\<close>. And a relation every committed run keeps between its first and last
  state: what the frame lemmas of the components state.
\<close>

definition valid :: "('s \<Rightarrow> bool) \<Rightarrow> ('s, 'a) tx \<Rightarrow> ('a \<Rightarrow> 's \<Rightarrow> bool) \<Rightarrow> bool" where
  "valid P m Q \<longleftrightarrow> (\<forall>s x t. P s \<longrightarrow> m s = Inr (x, t) \<longrightarrow> Q x t)"

definition keeps :: "('s \<Rightarrow> 's \<Rightarrow> bool) \<Rightarrow> ('s, 'a) tx \<Rightarrow> bool" where
  "keeps R m \<longleftrightarrow> (\<forall>s x t. m s = Inr (x, t) \<longrightarrow> R s t)"

lemma validI: "(\<And>s x t. P s \<Longrightarrow> m s = Inr (x, t) \<Longrightarrow> Q x t) \<Longrightarrow> valid P m Q"
  by (auto simp: valid_def)

lemma validD: "valid P m Q \<Longrightarrow> m s = Inr (x, t) \<Longrightarrow> P s \<Longrightarrow> Q x t"
  by (auto simp: valid_def)

lemma valid_bind:
  "valid P m R \<Longrightarrow> (\<And>x. valid (R x) (f x) Q) \<Longrightarrow> valid P (tx_bind m f) Q"
  by (fastforce simp: valid_def tx)

lemma valid_then: "valid P m (\<lambda>_. R) \<Longrightarrow> valid R n Q \<Longrightarrow> valid P (tx_then m n) Q"
  by (fastforce simp: valid_def tx)

lemma valid_for:
  "(\<And>r. r \<in> set rs \<Longrightarrow> valid I (f r) (\<lambda>_. I)) \<Longrightarrow> valid I (tx_for rs f) (\<lambda>_. I)"
proof (induction rs)
  case Nil
  then show ?case by (simp add: valid_def tx)
next
  case (Cons r rs)
  then show ?case by (auto intro: valid_then)
qed

lemma for_invariant:
  "tx_for rs f s = Inr (x, t) \<Longrightarrow> I s \<Longrightarrow>
     (\<And>r. r \<in> set rs \<Longrightarrow> valid I (f r) (\<lambda>_. I)) \<Longrightarrow> I t"
  using validD [OF valid_for, of rs I f s x t] by blast

locale state_preorder =
  fixes R :: "'s \<Rightarrow> 's \<Rightarrow> bool"
  assumes refl_R: "R s s"
    and trans_R: "R s t \<Longrightarrow> R t u \<Longrightarrow> R s u"
begin

lemma keeps_return: "keeps R (tx_return x)"
  by (simp add: keeps_def tx refl_R)

lemma keeps_raise: "keeps R (tx_raise e)"
  by (simp add: keeps_def tx)

lemma keeps_gets: "keeps R (tx_gets f)"
  by (simp add: keeps_def tx refl_R)

lemma keeps_bind: "keeps R m \<Longrightarrow> (\<And>x. keeps R (f x)) \<Longrightarrow> keeps R (tx_bind m f)"
  unfolding keeps_def tx by (blast intro: trans_R)

lemma keeps_then: "keeps R m \<Longrightarrow> keeps R n \<Longrightarrow> keeps R (tx_then m n)"
  unfolding keeps_def tx by (blast intro: trans_R)

lemma keeps_when: "keeps R m \<Longrightarrow> keeps R (tx_when b m)"
  by (simp add: keeps_def tx refl_R)

lemma keeps_for: "(\<And>r. r \<in> set rs \<Longrightarrow> keeps R (f r)) \<Longrightarrow> keeps R (tx_for rs f)"
  by (induction rs) (auto intro: keeps_return keeps_then)

lemma keeps_seq: "(\<And>m. m \<in> set ms \<Longrightarrow> keeps R m) \<Longrightarrow> keeps R (tx_seq ms)"
  by (induction ms) (auto intro: keeps_return keeps_then)

lemmas keeps_rules = keeps_return keeps_raise keeps_gets keeps_bind keeps_then keeps_when keeps_for

end

section \<open>Exceptions of pure code\<close>

text \<open>
  Code that raises gives a value of a sum type, \<open>Inl\<close> the exception: a check that raises unless a
  condition holds, and the value of a call passed on to the code after it.
\<close>

definition ensure :: "bool \<Rightarrow> 'e \<Rightarrow> 'e + unit" where
  "ensure b e = (if b then Inr () else Inl e)"

fun and_then :: "'e + 'a \<Rightarrow> ('a \<Rightarrow> 'e + 'b) \<Rightarrow> 'e + 'b" where
  "and_then (Inl e) f = Inl e"
| "and_then (Inr x) f = f x"

lemma and_then_Inr [simp]: "and_then m f = Inr y \<longleftrightarrow> (\<exists>x. m = Inr x \<and> f x = Inr y)"
  by (cases m) auto

lemma ensure_Inr [simp]: "ensure b e = Inr x \<longleftrightarrow> b"
  by (simp add: ensure_def)

lemma ensure_and_then: "and_then (ensure b e) f = (if b then f () else Inl e)"
  by (simp add: ensure_def)

text \<open>An exception caught and raised again as another.\<close>

definition retell :: "('e \<Rightarrow> 'f) \<Rightarrow> 'e + 'a \<Rightarrow> 'f + 'a" where
  "retell f m = (case m of Inl e \<Rightarrow> Inl (f e) | Inr x \<Rightarrow> Inr x)"

lemma retell_Inr [simp]: "retell f m = Inr x \<longleftrightarrow> m = Inr x"
  by (simp add: retell_def split: sum.splits)

text \<open>The exceptions the pure code raises, with their message where the code gives one.\<close>

datatype py_error =
    ValueError string
  | KeyError string
  | TypeError string
  | RuntimeError string
  | AttributeError string

text \<open>\<open>isdigit\<close>, on Latin-1: the superscripts are digits that \<open>int\<close> does not read.\<close>

definition superscript :: "char \<Rightarrow> bool" where
  "superscript c \<longleftrightarrow> (of_char c :: nat) \<in> {178, 179, 185}"

definition number_text :: "string \<Rightarrow> bool" where
  "number_text s \<longleftrightarrow> s \<noteq> [] \<and> list_all (\<lambda>c. is_digit c \<or> superscript c) s"

text \<open>\<open>int\<close> of a text that \<open>isdigit\<close> accepts: Python reads at most 4300 digits.\<close>

definition int_max_str_digits :: nat where
  "int_max_str_digits = 4300"

definition int_of_text :: "string \<Rightarrow> py_error + nat" where
  "int_of_text s =
     (if int_max_str_digits < length (takeWhile is_digit s)
      then Inl (ValueError (''Exceeds the limit ('' @ show_nat int_max_str_digits @
        '' digits) for integer string conversion: value has '' @ show_nat (length (takeWhile is_digit s)) @
        '' digits; use sys.set_int_max_str_digits() to increase the limit''))
      else if \<not> list_all is_digit s
      then Inl (ValueError (''invalid literal for int() with base 10: '' @ [CHR 0x27] @ s @ [CHR 0x27]))
      else Inr (read_nat s))"

text \<open>\<open>a or b\<close>; \<open>int(v)\<close> (a text is read when it is a sign and at most 4300 ASCII digits, spaces around); \<open>v == n\<close>.\<close>

definition jor :: "json \<Rightarrow> json \<Rightarrow> json" where
  "jor a b = (if truthy a then a else b)"

definition read_int :: "string \<Rightarrow> int option" where
  "read_int s = (let t = strip s; neg = starts_with ''-'' t;
       d = (if neg \<or> starts_with ''+'' t then drop 1 t else t)
     in if d \<noteq> [] \<and> list_all is_digit d \<and> length d \<le> int_max_str_digits
       then Some (if neg then - int (read_nat d) else int (read_nat d)) else None)"

fun py_int :: "json \<Rightarrow> py_error + int" where
  "py_int (JInt i) = Inr i"
| "py_int (JBool b) = Inr (if b then 1 else 0)"
| "py_int (JNum r) = Inr (if 0 \<le> r then \<lfloor>r\<rfloor> else - \<lfloor>- r\<rfloor>)"
| "py_int (JStr s) = (case read_int s of Some i \<Rightarrow> Inr i | None \<Rightarrow> Inl (ValueError ''invalid literal for int()''))"
| "py_int _ = Inl (TypeError ''int()'')"

fun equals_int :: "json \<Rightarrow> int \<Rightarrow> bool" where
  "equals_int (JInt i) n = (i = n)"
| "equals_int (JBool b) n = ((if b then 1 else 0) = n)"
| "equals_int (JNum r) n = (r = of_int n)"
| "equals_int _ n = False"

text \<open>\<open>d[k] = v\<close> on a dict, which keeps the place of a key it has; the dict of a list of pairs.\<close>

fun dict_put :: "'k \<Rightarrow> 'v \<Rightarrow> ('k \<times> 'v) list \<Rightarrow> ('k \<times> 'v) list" where
  "dict_put k v [] = [(k, v)]"
| "dict_put k v ((j, u) # d) = (if j = k then (j, v) # d else (j, u) # dict_put k v d)"

definition dict_of :: "('k \<times> 'v) list \<Rightarrow> ('k \<times> 'v) list" where
  "dict_of kvs = foldl (\<lambda>d (k, v). dict_put k v d) [] kvs"

lemma dict_put_new: "k \<notin> fst ` set d \<Longrightarrow> dict_put k v d = d @ [(k, v)]"
  by (induction k v d rule: dict_put.induct) auto

lemma map_of_dict_put: "map_of (dict_put k v d) = (map_of d)(k \<mapsto> v)"
  by (induction k v d rule: dict_put.induct) auto

lemma keys_dict_put: "fst ` set (dict_put k v d) = insert k (fst ` set d)"
  by (induction k v d rule: dict_put.induct) auto

lemma distinct_dict_put: "distinct (map fst d) \<Longrightarrow> distinct (map fst (dict_put k v d))"
  by (induction k v d rule: dict_put.induct) (auto simp: keys_dict_put)

lemma dict_of_distinct: "distinct (map fst kvs) \<Longrightarrow> dict_of kvs = kvs"
proof -
  have "foldl (\<lambda>d (k, v). dict_put k v d) d kvs = d @ kvs" if "distinct (map fst (d @ kvs))" for d
    using that
  proof (induction kvs arbitrary: d)
    case (Cons x kvs)
    then have "dict_put (fst x) (snd x) d = d @ [x]"
      using dict_put_new [of "fst x" d "snd x"] by auto
    then show ?case using Cons.IH [of "d @ [x]"] Cons.prems by (simp add: case_prod_beta)
  qed simp
  then show "distinct (map fst kvs) \<Longrightarrow> dict_of kvs = kvs" by (simp add: dict_of_def)
qed

lemma keys_dict_of: "fst ` set (dict_of kvs) = fst ` set kvs"
proof -
  have "fst ` set (foldl (\<lambda>d (k, v). dict_put k v d) d kvs) = fst ` set d \<union> fst ` set kvs" for d
    by (induction kvs arbitrary: d) (simp_all add: keys_dict_put case_prod_beta)
  then show ?thesis by (simp add: dict_of_def)
qed

section \<open>Dicts of JSON values\<close>

text \<open>\<open>d.get(k)\<close>; the items \<open>for x in v or []\<close> runs over; \<open>d[k]\<close>.\<close>

type_synonym jdict = "(string \<times> json) list"

definition dget :: "string \<Rightarrow> jdict \<Rightarrow> json" where
  "dget k d = jget k (JObj d)"

definition items_of :: "json \<Rightarrow> py_error + json list" where
  "items_of v = (if \<not> truthy v then Inr [] else case v of
     JList xs \<Rightarrow> Inr xs
   | JObj kvs \<Rightarrow> Inr (map (\<lambda>(k, _). JStr k) kvs)
   | JStr s \<Rightarrow> Inr (map (\<lambda>c. JStr [c]) s)
   | _ \<Rightarrow> Inl (TypeError ''object is not iterable''))"

fun as_jdict :: "json \<Rightarrow> py_error + jdict" where
  "as_jdict (JObj d) = Inr d"
| "as_jdict _ = Inl (AttributeError ''get'')"

primrec all_of :: "('a \<Rightarrow> 'e + 'b) \<Rightarrow> 'a list \<Rightarrow> 'e + 'b list" where
  "all_of f [] = Inr []"
| "all_of f (x # xs) = and_then (f x) (\<lambda>y. and_then (all_of f xs) (\<lambda>ys. Inr (y # ys)))"

lemma dget_put: "dget k (dict_put j v d) = (if k = j then v else dget k d)"
  by (simp add: dget_def map_of_dict_put)

lemma all_of_Inr: "all_of f xs = Inr ys \<Longrightarrow> length ys = length xs \<and> (\<forall>i < length xs. f (xs ! i) = Inr (ys ! i))"
proof (induction xs arbitrary: ys)
  case (Cons x xs)
  then obtain y zs where "f x = Inr y" "all_of f xs = Inr zs" "ys = y # zs" by auto
  with Cons.IH [of zs] show ?case by (auto simp: nth_Cons split: nat.split)
qed simp

end
