(* ===== verification/Schema.thy ===== *)
theory Schema
  imports Prelude
begin

text \<open>
  The PostgreSQL database every service shares (src/schema.sql): one record per table row, one
  record field per table, the unique indexes and CHECK constraints as executable predicates, and
  the statements on a table as transactions that raise when the table's constraint fails.

  TEXT columns with a CHECK on a fixed list of values are datatypes. TIMESTAMPTZ is \<open>int\<close>, in
  seconds. UUID and BIGSERIAL primary keys are naturals drawn from one counter, which stands for
  \<open>uuid4()\<close>, \<open>gen_random_uuid()\<close> and the sequences: a fresh key is one never used before.
  NULL is None. NUMERIC and Python's Decimal and float are \<open>rat\<close>. Columns no modelled statement
  reads or writes (architecture, parameter_count, tunnel_name, last_health, judge counters of the
  schema's defaults) and foreign keys are left out; NOT NULL is in the types of the fields.
\<close>

section \<open>Enumerated columns\<close>

datatype sub_state =
    SUBMITTED | HIPPIUS_RUNNING | HIPPIUS_RETRYABLE | HIPPIUS_VALIDATED
  | PRE_EVAL_QUEUED | PRE_EVAL_RUNNING | PRE_EVAL_RETRYABLE | PRE_EVAL_PASSED
  | EVAL_QUEUED | EVAL_RUNNING | EVAL_RETRYABLE | EVAL_WIN
  | SET_REIGN_RUNNING | SET_REIGN_RETRYABLE | REIGN_SET
  | WEIGHT_SET_RUNNING | WEIGHT_SET_RETRYABLE
  | COMPLETE_LOSS | COMPLETE_CORONATED | TERMINAL_INVALID | TERMINAL_INFRA_FAILED

datatype fault_class =
    MINER_FAULT | INFRA_FAULT | REMOTE_EVAL_FAULT | CHAIN_FAULT | PROVIDER_FAULT | UNKNOWN_FAULT

datatype stage = HIPPIUS | PRE_EVAL | EVAL | SET_REIGN | WEIGHT_SET

datatype attempt_state =
    SA_PENDING | SA_CLAIMED | SA_RUNNING | SA_SUCCEEDED | SA_FAILED_RETRYABLE
  | SA_FAILED_TERMINAL | SA_ABANDONED

datatype run_state =
    ER_QUEUED | ER_DISPATCHED | ER_GENERATING | ER_SCORING | ER_VERDICT_READY
  | ER_SUCCEEDED | ER_FAILED_RETRYABLE | ER_FAILED_TERMINAL

datatype host_state = HOST_READY | HOST_DEGRADED | HOST_DRAINING | HOST_OFFLINE

datatype reign_state = RG_ACTIVE | RG_SUPERSEDED | RG_REPAIRING

datatype reason = CORONATION | SERVICE_REPLAY | GENESIS | PERIODIC_REFRESH

datatype epoch_state =
    WE_PENDING | WE_RUNNING | WE_SUBMITTED | WE_SUCCESS | WE_FAILED_RETRYABLE | WE_FAILED_TERMINAL

datatype wtx_state =
    WT_CREATED | WT_SUBMITTED | WT_SUCCESS | WT_FAILED_RETRYABLE | WT_FAILED_TERMINAL

datatype severity = DEBUG | INFO | WARN | ERROR

datatype reg_state = ACTIVATED | CREDENTIALED | READY | REVOKED | REG_SUBMITTED | FAILED | REAPED

section \<open>Rows\<close>

record miner =
  mi_id :: nat
  mi_hotkey :: string
  mi_coldkey :: "string option"
  mi_uid :: "int option"
  mi_netuid :: "int option"
  mi_registration_block :: "int option"
  mi_updated_at :: int

record chain_commit =
  cc_id :: nat
  cc_netuid :: int
  cc_block_number :: int
  cc_block_hash :: "string option"
  cc_extrinsic_hash :: "string option"
  cc_uid :: int
  cc_hotkey :: string
  cc_payload :: json
  cc_model_uri :: string
  cc_payload_hash :: string
  cc_submission_id :: "nat option"

record used_hotkey =
  uh_hotkey :: string
  uh_netuid :: "int option"
  uh_block_number :: "int option"
  uh_submission_id :: "nat option"
  uh_raw_payload :: json
  uh_source :: string

record submission =
  ms_id :: nat
  ms_miner_id :: "nat option"
  ms_chain_commit_id :: nat
  ms_netuid :: int
  ms_uid :: int
  ms_hotkey :: string
  ms_model_uri :: string
  ms_commit_hash :: "string option"
  ms_model_hash :: "string option"
  ms_state :: sub_state
  ms_fault_class :: "fault_class option"
  ms_fault_code :: "string option"
  ms_fault_message :: "string option"
  ms_retry_count :: nat
  ms_priority :: int
  ms_idempotency_key :: string
  ms_created_at :: int
  ms_updated_at :: int
  ms_finished_at :: "int option"

record attempt =
  sa_id :: nat
  sa_submission_id :: nat
  sa_stage :: stage
  sa_number :: nat
  sa_state :: attempt_state
  sa_worker_id :: "string option"
  sa_lease_expires_at :: "int option"
  sa_started_at :: "int option"
  sa_finished_at :: "int option"
  sa_input_snapshot :: json
  sa_result_summary :: json
  sa_fault_class :: "fault_class option"
  sa_fault_code :: "string option"
  sa_fault_message :: "string option"

record artifact =
  ar_id :: nat
  ar_submission_id :: "nat option"
  ar_attempt_id :: "nat option"
  ar_type :: string
  ar_backend :: string
  ar_uri :: string
  ar_bucket :: "string option"
  ar_object_key :: "string option"
  ar_sha256 :: "string option"
  ar_size_bytes :: "int option"
  ar_content_type :: "string option"
  ar_created_at :: int

record host =
  rh_id :: string
  rh_key :: nat
  rh_role :: stage
  rh_base_url :: string
  rh_state :: host_state
  rh_gpu_count :: int
  rh_free_gpu_count :: int
  rh_last_heartbeat_at :: "int option"

record eval_dataset =
  ds_version :: string
  ds_manifest_hash :: string
  ds_sample_seed :: string
  ds_sample_ids :: "string list"
  ds_sampling_algo :: string
  ds_judge_config_hash :: string
  ds_judge_count :: int

record eval_run =
  er_id :: nat
  er_submission_id :: nat
  er_attempt_id :: nat
  er_king_submission_id :: "nat option"
  er_king_model_hash :: string
  er_challenger_model_hash :: string
  er_host_id :: "string option"
  er_remote_run_id :: "string option"
  er_state :: run_state
  er_gpu_ids :: "string list option"
  er_gpu_topology :: json
  er_dataset :: eval_dataset
  er_sample_count :: "int option"
  er_generated :: int
  er_scored :: int
  er_score_challenger :: "rat option"
  er_score_king :: "rat option"
  er_win_margin :: "rat option"
  er_challenger_won :: "bool option"
  er_turns :: "int option \<times> int option"
  er_errors :: "int option \<times> int option \<times> int option"
  er_fault_class :: "fault_class option"
  er_fault_code :: "string option"
  er_fault_message :: "string option"
  er_started_at :: "int option"
  er_finished_at :: "int option"

record king_version =
  kv_id :: nat
  kv_submission_id :: nat
  kv_model_hash :: string
  kv_artifact_id :: nat
  kv_eval_run_id :: "nat option"
  kv_version :: nat
  kv_entered_reign_id :: "nat option"
  kv_entered_slot :: nat
  kv_retired_at :: "int option"
  kv_retire_reason :: "string option"
  kv_activated_by :: string

record reign =
  rg_id :: nat
  rg_version :: nat
  rg_reason :: reason
  rg_trigger_eval_run_id :: "nat option"
  rg_trigger_submission_id :: "nat option"
  rg_previous_reign_id :: "nat option"
  rg_state :: reign_state
  rg_activated_at :: "int option"

record reign_row =
  rm_id :: nat
  rm_reign_id :: nat
  rm_slot :: nat
  rm_king_version_id :: nat
  rm_submission_id :: nat
  rm_hotkey :: string
  rm_uid :: int
  rm_model_hash :: string
  rm_weight_bps :: nat

record weight_epoch =
  we_id :: nat
  we_netuid :: int
  we_reason :: reason
  we_reign_id :: "nat option"
  we_state :: epoch_state
  we_uids :: "int list"
  we_weights :: "rat list"
  we_policy :: json
  we_hash :: string
  we_attempt_count :: nat
  we_last_fault_class :: "fault_class option"
  we_last_fault_code :: "string option"
  we_created_at :: int
  we_updated_at :: int
  we_succeeded_at :: "int option"

record weight_tx =
  wt_id :: nat
  wt_epoch_id :: nat
  wt_attempt_id :: "nat option"
  wt_wallet_hotkey :: string
  wt_subtensor_url :: string
  wt_state :: wtx_state
  wt_extrinsic_hash :: "string option"
  wt_block_number :: "int option"
  wt_fault_class :: "fault_class option"
  wt_fault_code :: "string option"
  wt_fault_message :: "string option"
  wt_updated_at :: int

record event =
  ev_submission_id :: "nat option"
  ev_attempt_id :: "nat option"
  ev_type :: string
  ev_severity :: severity
  ev_message :: string
  ev_data :: json

record sanity_result =
  sr_repo :: string
  sr_digest :: string
  sr_passed :: bool
  sr_reason :: string
  sr_responses :: json
  sr_timing :: json
  sr_checked_at :: int

record registration =
  pr_id :: nat
  pr_netuid :: int
  pr_uid :: "int option"
  pr_hotkey :: string
  pr_coldkey :: "string option"
  pr_registration_id :: string
  pr_state :: reg_state
  pr_activation_block :: int
  pr_submission_pubkey :: string
  pr_ready_block :: "int option"
  pr_ready_block_hash :: "string option"
  pr_manifest_sha256 :: "string option"
  pr_model_digest :: "string option"
  pr_parent_token_id :: "string option"
  pr_credential_expires_at :: "int option"
  pr_fault_message :: "string option"
  pr_attempt_count :: nat
  pr_extra_attempts :: nat
  pr_model_prefix :: "string option"
  pr_submission_id :: "nat option"
  pr_updated_at :: int

section \<open>The database\<close>

record db =
  next_id :: nat
  miners :: "miner list"
  commits :: "chain_commit list"
  used_hotkeys :: "used_hotkey list"
  submissions :: "submission list"
  attempts :: "attempt list"
  artifacts :: "artifact list"
  hosts :: "host list"
  eval_runs :: "eval_run list"
  king_versions :: "king_version list"
  reigns :: "reign list"
  reign_members :: "reign_row list"
  weight_epochs :: "weight_epoch list"
  weight_txs :: "weight_tx list"
  events :: "event list"
  sanity_results :: "sanity_result list"
  registrations :: "registration list"

definition empty_db :: db where
  "empty_db = \<lparr>next_id = 0, miners = [], commits = [], used_hotkeys = [], submissions = [],
     attempts = [], artifacts = [], hosts = [], eval_runs = [], king_versions = [], reigns = [],
     reign_members = [], weight_epochs = [], weight_txs = [], events = [], sanity_results = [],
     registrations = []\<rparr>"

text \<open>
  What a transaction sees of its surroundings: the database clock \<open>now()\<close>, the Python clock, whether
  \<open>pg_try_advisory_xact_lock\<close> gives the lock, and the rows no other transaction has locked
  (FOR UPDATE SKIP LOCKED passes over the others).
\<close>

record sess =
  se_now :: int
  se_clock :: int
  se_lock :: bool
  se_free :: "nat \<Rightarrow> bool"

section \<open>Constraints\<close>

definition miners_ok :: "miner list \<Rightarrow> bool" where
  "miners_ok rs \<longleftrightarrow> unique_by (Some \<circ> mi_hotkey) rs"

definition commits_ok :: "chain_commit list \<Rightarrow> bool" where
  "commits_ok rs \<longleftrightarrow>
     unique_by (\<lambda>r. case cc_extrinsic_hash r of None \<Rightarrow> None | Some h \<Rightarrow> Some (cc_netuid r, h)) rs \<and>
     unique_by (\<lambda>r. Some (cc_netuid r, cc_hotkey r, cc_payload_hash r)) rs"

definition used_ok :: "used_hotkey list \<Rightarrow> bool" where
  "used_ok rs \<longleftrightarrow> unique_by (Some \<circ> uh_hotkey) rs"

definition subs_ok :: "submission list \<Rightarrow> bool" where
  "subs_ok rs \<longleftrightarrow> unique_by (Some \<circ> ms_idempotency_key) rs \<and> unique_by ms_model_hash rs \<and>
     unique_by (Some \<circ> ms_chain_commit_id) rs"

text \<open>The states of an attempt that the partial index \<open>stage_attempts_one_active_per_stage_uidx\<close> covers.\<close>

definition open_attempt :: "attempt_state \<Rightarrow> bool" where
  "open_attempt s \<longleftrightarrow> s = SA_CLAIMED \<or> s = SA_RUNNING"

definition open_key :: "attempt \<Rightarrow> (nat \<times> stage) option" where
  "open_key a = (if open_attempt (sa_state a) then Some (sa_submission_id a, sa_stage a) else None)"

definition number_key :: "attempt \<Rightarrow> (nat \<times> stage \<times> nat) option" where
  "number_key a = Some (sa_submission_id a, sa_stage a, sa_number a)"

definition attempts_ok :: "attempt list \<Rightarrow> bool" where
  "attempts_ok rs \<longleftrightarrow> unique_by number_key rs \<and> unique_by open_key rs"

text \<open>The states of an eval run that \<open>eval_runs_one_active_uidx\<close> covers: one row at most.\<close>

definition active_run :: "run_state \<Rightarrow> bool" where
  "active_run s \<longleftrightarrow> s \<in> {ER_QUEUED, ER_DISPATCHED, ER_GENERATING, ER_SCORING, ER_VERDICT_READY}"

definition active_key :: "eval_run \<Rightarrow> unit option" where
  "active_key r = (if active_run (er_state r) then Some () else None)"

definition eval_runs_ok :: "eval_run list \<Rightarrow> bool" where
  "eval_runs_ok rs \<longleftrightarrow> unique_by active_key rs"

definition kings_ok :: "king_version list \<Rightarrow> bool" where
  "kings_ok rs \<longleftrightarrow> unique_by (Some \<circ> kv_version) rs \<and>
     list_all (\<lambda>r. 1 \<le> kv_entered_slot r \<and> kv_entered_slot r \<le> 5) rs"

definition reign_key :: "reign \<Rightarrow> unit option" where
  "reign_key r = (if rg_state r = RG_ACTIVE then Some () else None)"

definition reigns_ok :: "reign list \<Rightarrow> bool" where
  "reigns_ok rs \<longleftrightarrow> unique_by (Some \<circ> rg_version) rs \<and> unique_by reign_key rs"

definition members_ok :: "reign_row list \<Rightarrow> bool" where
  "members_ok rs \<longleftrightarrow> unique_by (\<lambda>r. Some (rm_reign_id r, rm_slot r)) rs \<and>
     unique_by (\<lambda>r. Some (rm_reign_id r, rm_king_version_id r)) rs \<and>
     list_all (\<lambda>r. 1 \<le> rm_slot r \<and> rm_slot r \<le> 5) rs"

definition epochs_ok :: "weight_epoch list \<Rightarrow> bool" where
  "epochs_ok rs \<longleftrightarrow> unique_by (\<lambda>r. Some (we_netuid r, we_hash r)) rs \<and>
     list_all (\<lambda>r. length (we_uids r) = length (we_weights r)) rs"

definition sanity_ok :: "sanity_result list \<Rightarrow> bool" where
  "sanity_ok rs \<longleftrightarrow> unique_by (Some \<circ> sr_digest) rs"

definition regs_ok :: "registration list \<Rightarrow> bool" where
  "regs_ok rs \<longleftrightarrow> unique_by (Some \<circ> pr_registration_id) rs \<and>
     unique_by (\<lambda>r. Some (pr_netuid r, pr_hotkey r)) rs"

section \<open>Statements\<close>

definition tx_fresh :: "(db, nat) tx" where
  "tx_fresh d = Inr (next_id d, d\<lparr>next_id := Suc (next_id d)\<rparr>)"

definition stmt_miners :: "(miner list \<Rightarrow> miner list) \<Rightarrow> (db, unit) tx" where
  "stmt_miners f = tx_stmt (UniqueViolation ''miners'') (\<lambda>d. miners_ok (miners d))
     (\<lambda>d. d\<lparr>miners := f (miners d)\<rparr>)"

definition stmt_commits :: "(chain_commit list \<Rightarrow> chain_commit list) \<Rightarrow> (db, unit) tx" where
  "stmt_commits f = tx_stmt (UniqueViolation ''chain_commits'') (\<lambda>d. commits_ok (commits d))
     (\<lambda>d. d\<lparr>commits := f (commits d)\<rparr>)"

definition stmt_used :: "(used_hotkey list \<Rightarrow> used_hotkey list) \<Rightarrow> (db, unit) tx" where
  "stmt_used f = tx_stmt (UniqueViolation ''used_hotkeys'') (\<lambda>d. used_ok (used_hotkeys d))
     (\<lambda>d. d\<lparr>used_hotkeys := f (used_hotkeys d)\<rparr>)"

definition stmt_subs :: "(submission list \<Rightarrow> submission list) \<Rightarrow> (db, unit) tx" where
  "stmt_subs f = tx_stmt (UniqueViolation ''model_submissions'') (\<lambda>d. subs_ok (submissions d))
     (\<lambda>d. d\<lparr>submissions := f (submissions d)\<rparr>)"

definition stmt_attempts :: "(attempt list \<Rightarrow> attempt list) \<Rightarrow> (db, unit) tx" where
  "stmt_attempts f = tx_stmt (UniqueViolation ''stage_attempts'') (\<lambda>d. attempts_ok (attempts d))
     (\<lambda>d. d\<lparr>attempts := f (attempts d)\<rparr>)"

definition stmt_runs :: "(eval_run list \<Rightarrow> eval_run list) \<Rightarrow> (db, unit) tx" where
  "stmt_runs f = tx_stmt (UniqueViolation ''eval_runs'') (\<lambda>d. eval_runs_ok (eval_runs d))
     (\<lambda>d. d\<lparr>eval_runs := f (eval_runs d)\<rparr>)"

definition stmt_kings :: "(king_version list \<Rightarrow> king_version list) \<Rightarrow> (db, unit) tx" where
  "stmt_kings f = tx_stmt (UniqueViolation ''king_versions'') (\<lambda>d. kings_ok (king_versions d))
     (\<lambda>d. d\<lparr>king_versions := f (king_versions d)\<rparr>)"

definition stmt_reigns :: "(reign list \<Rightarrow> reign list) \<Rightarrow> (db, unit) tx" where
  "stmt_reigns f = tx_stmt (UniqueViolation ''reigns'') (\<lambda>d. reigns_ok (reigns d))
     (\<lambda>d. d\<lparr>reigns := f (reigns d)\<rparr>)"

definition stmt_members :: "(reign_row list \<Rightarrow> reign_row list) \<Rightarrow> (db, unit) tx" where
  "stmt_members f = tx_stmt (UniqueViolation ''reign_members'') (\<lambda>d. members_ok (reign_members d))
     (\<lambda>d. d\<lparr>reign_members := f (reign_members d)\<rparr>)"

definition stmt_epochs :: "(weight_epoch list \<Rightarrow> weight_epoch list) \<Rightarrow> (db, unit) tx" where
  "stmt_epochs f = tx_stmt (UniqueViolation ''weight_epochs'') (\<lambda>d. epochs_ok (weight_epochs d))
     (\<lambda>d. d\<lparr>weight_epochs := f (weight_epochs d)\<rparr>)"

definition stmt_wtxs :: "(weight_tx list \<Rightarrow> weight_tx list) \<Rightarrow> (db, unit) tx" where
  "stmt_wtxs f = tx_modify (\<lambda>d. d\<lparr>weight_txs := f (weight_txs d)\<rparr>)"

definition stmt_sanity :: "(sanity_result list \<Rightarrow> sanity_result list) \<Rightarrow> (db, unit) tx" where
  "stmt_sanity f = tx_stmt (UniqueViolation ''sanity_results'') (\<lambda>d. sanity_ok (sanity_results d))
     (\<lambda>d. d\<lparr>sanity_results := f (sanity_results d)\<rparr>)"

definition stmt_regs :: "(registration list \<Rightarrow> registration list) \<Rightarrow> (db, unit) tx" where
  "stmt_regs f = tx_stmt (UniqueViolation ''private_registrations'')
     (\<lambda>d. regs_ok (registrations d)) (\<lambda>d. d\<lparr>registrations := f (registrations d)\<rparr>)"

definition ins_artifact :: "artifact \<Rightarrow> (db, unit) tx" where
  "ins_artifact r = tx_modify (\<lambda>d. d\<lparr>artifacts := artifacts d @ [r]\<rparr>)"

definition ins_event ::
  "nat option \<Rightarrow> nat option \<Rightarrow> string \<Rightarrow> severity \<Rightarrow> string \<Rightarrow> json \<Rightarrow> (db, unit) tx" where
  "ins_event sub att ty sev msg data = tx_modify (\<lambda>d. d\<lparr>events := events d @
     [\<lparr>ev_submission_id = sub, ev_attempt_id = att, ev_type = ty, ev_severity = sev,
       ev_message = msg, ev_data = data\<rparr>]\<rparr>)"

text \<open>UPDATE ... WHERE id = i on the two tables every stage writes.\<close>

definition upd_sub :: "nat \<Rightarrow> (submission \<Rightarrow> submission) \<Rightarrow> (db, unit) tx" where
  "upd_sub i f = stmt_subs (update_where (\<lambda>r. ms_id r = i) f)"

definition upd_attempt :: "nat \<Rightarrow> (attempt \<Rightarrow> attempt) \<Rightarrow> (db, unit) tx" where
  "upd_attempt i f = stmt_attempts (update_where (\<lambda>r. sa_id r = i) f)"

definition upd_run :: "nat \<Rightarrow> (eval_run \<Rightarrow> eval_run) \<Rightarrow> (db, unit) tx" where
  "upd_run i f = stmt_runs (update_where (\<lambda>r. er_id r = i) f)"

definition ins_attempt :: "attempt \<Rightarrow> (db, unit) tx" where
  "ins_attempt a = stmt_attempts (\<lambda>rs. rs @ [a])"

text \<open>The three fault columns of a submission set to NULL.\<close>

definition clear_fault :: "submission \<Rightarrow> submission" where
  "clear_fault r = r\<lparr>ms_fault_class := None, ms_fault_code := None, ms_fault_message := None\<rparr>"

definition set_fault :: "fault_class \<Rightarrow> string \<Rightarrow> string \<Rightarrow> submission \<Rightarrow> submission" where
  "set_fault cls code msg r =
     r\<lparr>ms_fault_class := Some cls, ms_fault_code := Some code, ms_fault_message := Some msg\<rparr>"

text \<open>The next attempt number of a submission at a stage.\<close>

definition attempt_numbers :: "nat \<Rightarrow> stage \<Rightarrow> attempt list \<Rightarrow> nat list" where
  "attempt_numbers i st rs =
     map sa_number (filter (\<lambda>a. sa_submission_id a = i \<and> sa_stage a = st) rs)"

definition next_attempt_number :: "nat \<Rightarrow> stage \<Rightarrow> db \<Rightarrow> nat" where
  "next_attempt_number i st d = next_number (attempt_numbers i st (attempts d))"

text \<open>A new RUNNING attempt row, with the columns every claim fills.\<close>

definition new_attempt ::
  "nat \<Rightarrow> nat \<Rightarrow> stage \<Rightarrow> nat \<Rightarrow> string \<Rightarrow> int option \<Rightarrow> int \<Rightarrow> json \<Rightarrow> attempt" where
  "new_attempt i sub st n worker lease t snapshot =
     \<lparr>sa_id = i, sa_submission_id = sub, sa_stage = st, sa_number = n, sa_state = SA_RUNNING,
      sa_worker_id = Some worker, sa_lease_expires_at = lease, sa_started_at = Some t,
      sa_finished_at = None, sa_input_snapshot = snapshot, sa_result_summary = JObj [],
      sa_fault_class = None, sa_fault_code = None, sa_fault_message = None\<rparr>"

definition find_sub :: "nat \<Rightarrow> db \<Rightarrow> submission option" where
  "find_sub i d = find (\<lambda>r. ms_id r = i) (submissions d)"

definition find_attempt :: "nat \<Rightarrow> db \<Rightarrow> attempt option" where
  "find_attempt i d = find (\<lambda>r. sa_id r = i) (attempts d)"

definition find_commit :: "nat \<Rightarrow> db \<Rightarrow> chain_commit option" where
  "find_commit i d = find (\<lambda>r. cc_id r = i) (commits d)"

definition find_miner :: "string \<Rightarrow> db \<Rightarrow> miner option" where
  "find_miner hk d = find (\<lambda>r. mi_hotkey r = hk) (miners d)"

section \<open>The outcome of statements\<close>

lemma tx_fresh_simps [tx]:
  "tx_fresh d = Inr r \<longleftrightarrow> r = (next_id d, d\<lparr>next_id := Suc (next_id d)\<rparr>)"
  "tx_fresh d \<noteq> Inl e"
  by (auto simp: tx_fresh_def)

lemma stmt_miners_simps [tx]:
  "stmt_miners f d = Inr r \<longleftrightarrow> miners_ok (f (miners d)) \<and> r = ((), d\<lparr>miners := f (miners d)\<rparr>)"
  "stmt_miners f d = Inl e \<longleftrightarrow> \<not> miners_ok (f (miners d)) \<and> e = UniqueViolation ''miners''"
  by (auto simp: stmt_miners_def tx)

lemma stmt_commits_simps [tx]:
  "stmt_commits f d = Inr r \<longleftrightarrow>
     commits_ok (f (commits d)) \<and> r = ((), d\<lparr>commits := f (commits d)\<rparr>)"
  "stmt_commits f d = Inl e \<longleftrightarrow>
     \<not> commits_ok (f (commits d)) \<and> e = UniqueViolation ''chain_commits''"
  by (auto simp: stmt_commits_def tx)

lemma stmt_used_simps [tx]:
  "stmt_used f d = Inr r \<longleftrightarrow>
     used_ok (f (used_hotkeys d)) \<and> r = ((), d\<lparr>used_hotkeys := f (used_hotkeys d)\<rparr>)"
  "stmt_used f d = Inl e \<longleftrightarrow>
     \<not> used_ok (f (used_hotkeys d)) \<and> e = UniqueViolation ''used_hotkeys''"
  by (auto simp: stmt_used_def tx)

lemma stmt_subs_simps [tx]:
  "stmt_subs f d = Inr r \<longleftrightarrow>
     subs_ok (f (submissions d)) \<and> r = ((), d\<lparr>submissions := f (submissions d)\<rparr>)"
  "stmt_subs f d = Inl e \<longleftrightarrow>
     \<not> subs_ok (f (submissions d)) \<and> e = UniqueViolation ''model_submissions''"
  by (auto simp: stmt_subs_def tx)

lemma stmt_attempts_simps [tx]:
  "stmt_attempts f d = Inr r \<longleftrightarrow>
     attempts_ok (f (attempts d)) \<and> r = ((), d\<lparr>attempts := f (attempts d)\<rparr>)"
  "stmt_attempts f d = Inl e \<longleftrightarrow>
     \<not> attempts_ok (f (attempts d)) \<and> e = UniqueViolation ''stage_attempts''"
  by (auto simp: stmt_attempts_def tx)

lemma stmt_runs_simps [tx]:
  "stmt_runs f d = Inr r \<longleftrightarrow>
     eval_runs_ok (f (eval_runs d)) \<and> r = ((), d\<lparr>eval_runs := f (eval_runs d)\<rparr>)"
  "stmt_runs f d = Inl e \<longleftrightarrow>
     \<not> eval_runs_ok (f (eval_runs d)) \<and> e = UniqueViolation ''eval_runs''"
  by (auto simp: stmt_runs_def tx)

lemma stmt_kings_simps [tx]:
  "stmt_kings f d = Inr r \<longleftrightarrow>
     kings_ok (f (king_versions d)) \<and> r = ((), d\<lparr>king_versions := f (king_versions d)\<rparr>)"
  "stmt_kings f d = Inl e \<longleftrightarrow>
     \<not> kings_ok (f (king_versions d)) \<and> e = UniqueViolation ''king_versions''"
  by (auto simp: stmt_kings_def tx)

lemma stmt_reigns_simps [tx]:
  "stmt_reigns f d = Inr r \<longleftrightarrow>
     reigns_ok (f (reigns d)) \<and> r = ((), d\<lparr>reigns := f (reigns d)\<rparr>)"
  "stmt_reigns f d = Inl e \<longleftrightarrow> \<not> reigns_ok (f (reigns d)) \<and> e = UniqueViolation ''reigns''"
  by (auto simp: stmt_reigns_def tx)

lemma stmt_members_simps [tx]:
  "stmt_members f d = Inr r \<longleftrightarrow>
     members_ok (f (reign_members d)) \<and> r = ((), d\<lparr>reign_members := f (reign_members d)\<rparr>)"
  "stmt_members f d = Inl e \<longleftrightarrow>
     \<not> members_ok (f (reign_members d)) \<and> e = UniqueViolation ''reign_members''"
  by (auto simp: stmt_members_def tx)

lemma stmt_epochs_simps [tx]:
  "stmt_epochs f d = Inr r \<longleftrightarrow>
     epochs_ok (f (weight_epochs d)) \<and> r = ((), d\<lparr>weight_epochs := f (weight_epochs d)\<rparr>)"
  "stmt_epochs f d = Inl e \<longleftrightarrow>
     \<not> epochs_ok (f (weight_epochs d)) \<and> e = UniqueViolation ''weight_epochs''"
  by (auto simp: stmt_epochs_def tx)

lemma stmt_wtxs_simps [tx]:
  "stmt_wtxs f d = Inr r \<longleftrightarrow> r = ((), d\<lparr>weight_txs := f (weight_txs d)\<rparr>)"
  "stmt_wtxs f d \<noteq> Inl e"
  by (auto simp: stmt_wtxs_def tx)

lemma stmt_sanity_simps [tx]:
  "stmt_sanity f d = Inr r \<longleftrightarrow>
     sanity_ok (f (sanity_results d)) \<and> r = ((), d\<lparr>sanity_results := f (sanity_results d)\<rparr>)"
  "stmt_sanity f d = Inl e \<longleftrightarrow>
     \<not> sanity_ok (f (sanity_results d)) \<and> e = UniqueViolation ''sanity_results''"
  by (auto simp: stmt_sanity_def tx)

lemma stmt_regs_simps [tx]:
  "stmt_regs f d = Inr r \<longleftrightarrow>
     regs_ok (f (registrations d)) \<and> r = ((), d\<lparr>registrations := f (registrations d)\<rparr>)"
  "stmt_regs f d = Inl e \<longleftrightarrow>
     \<not> regs_ok (f (registrations d)) \<and> e = UniqueViolation ''private_registrations''"
  by (auto simp: stmt_regs_def tx)

lemma ins_artifact_simps [tx]:
  "ins_artifact a d = Inr r \<longleftrightarrow> r = ((), d\<lparr>artifacts := artifacts d @ [a]\<rparr>)"
  "ins_artifact a d \<noteq> Inl e"
  by (auto simp: ins_artifact_def tx)

lemma ins_event_simps [tx]:
  "ins_event sub att ty sev msg data d = Inr r \<longleftrightarrow> r = ((), d\<lparr>events := events d @
     [\<lparr>ev_submission_id = sub, ev_attempt_id = att, ev_type = ty, ev_severity = sev,
       ev_message = msg, ev_data = data\<rparr>]\<rparr>)"
  "ins_event sub att ty sev msg data d \<noteq> Inl e"
  by (auto simp: ins_event_def tx)

text \<open>The constraints a row update leaves alone.\<close>

lemma attempts_ok_close:
  assumes "attempts_ok rs"
    and "\<And>a. p a \<Longrightarrow> number_key (f a) = number_key a"
    and "\<And>a. p a \<Longrightarrow> open_key (f a) = open_key a \<or> open_key (f a) = None"
  shows "attempts_ok (update_where p f rs)"
  using assms by (simp add: attempts_ok_def unique_by_update)

lemma attempts_ok_snoc:
  assumes "attempts_ok rs"
    and "sa_number a = next_number (attempt_numbers (sa_submission_id a) (sa_stage a) rs)"
    and "\<And>b. b \<in> set rs \<Longrightarrow> sa_submission_id b = sa_submission_id a \<Longrightarrow>
           sa_stage b = sa_stage a \<Longrightarrow> \<not> open_attempt (sa_state b)"
  shows "attempts_ok (rs @ [a])"
proof -
  have "number_key b \<noteq> number_key a" if b: "b \<in> set rs" for b
  proof
    assume same: "number_key b = number_key a"
    then have "sa_submission_id b = sa_submission_id a" "sa_stage b = sa_stage a"
      by (simp_all add: number_key_def)
    then have "sa_number b \<in> set (attempt_numbers (sa_submission_id a) (sa_stage a) rs)"
      using b by (auto simp: attempt_numbers_def)
    then show False
      using same next_number_fresh assms(2) by (metis number_key_def option.inject prod.inject)
  qed
  moreover have "open_key b = None \<or> open_key b \<noteq> open_key a" if "b \<in> set rs" for b
    using assms(3) [OF that] by (auto simp: open_key_def)
  ultimately show ?thesis
    using assms(1) by (auto simp: attempts_ok_def unique_by_snoc)
qed

lemma subs_ok_update:
  assumes "subs_ok rs"
    and "\<And>r. p r \<Longrightarrow> ms_idempotency_key (f r) = ms_idempotency_key r"
    and "\<And>r. p r \<Longrightarrow> ms_chain_commit_id (f r) = ms_chain_commit_id r"
    and "\<And>r. p r \<Longrightarrow> ms_model_hash (f r) = ms_model_hash r"
  shows "subs_ok (update_where p f rs)"
  using assms by (simp add: subs_ok_def unique_by_update)

lemma clear_fault_sel [simp]:
  "ms_id (clear_fault r) = ms_id r" "ms_state (clear_fault r) = ms_state r"
  "ms_idempotency_key (clear_fault r) = ms_idempotency_key r"
  "ms_chain_commit_id (clear_fault r) = ms_chain_commit_id r"
  "ms_model_hash (clear_fault r) = ms_model_hash r" "ms_hotkey (clear_fault r) = ms_hotkey r"
  "ms_retry_count (clear_fault r) = ms_retry_count r"
  "ms_fault_class (clear_fault r) = None" "ms_fault_code (clear_fault r) = None"
  by (simp_all add: clear_fault_def)

lemma set_fault_sel [simp]:
  "ms_id (set_fault c k m r) = ms_id r" "ms_state (set_fault c k m r) = ms_state r"
  "ms_idempotency_key (set_fault c k m r) = ms_idempotency_key r"
  "ms_chain_commit_id (set_fault c k m r) = ms_chain_commit_id r"
  "ms_model_hash (set_fault c k m r) = ms_model_hash r" "ms_hotkey (set_fault c k m r) = ms_hotkey r"
  "ms_retry_count (set_fault c k m r) = ms_retry_count r"
  "ms_fault_class (set_fault c k m r) = Some c" "ms_fault_code (set_fault c k m r) = Some k"
  by (simp_all add: set_fault_def)

lemma find_SomeD: "find p rs = Some r \<Longrightarrow> r \<in> set rs \<and> p r"
  by (auto simp: find_Some_iff)

end
