(* ===== verification/Ledger.thy ===== *)
theory Ledger
  imports Schema
begin

text \<open>
  The invariant that ties the attempts of a submission to its state: whoever has an open attempt at
  a stage before the weights finds the submission in that stage's running state, so that a
  submission has one open attempt at most across those stages. A claim from such a database cannot
  break a unique index, and finishing the open attempt frees the submission for the next stage.
\<close>

section \<open>Keys\<close>

definition keys_below :: "nat \<Rightarrow> nat list \<Rightarrow> bool" where
  "keys_below n ks \<longleftrightarrow> sorted_wrt (<) ks \<and> (\<forall>k \<in> set ks. k < n)"

lemma keys_below_Nil [simp]: "keys_below n []"
  by (simp add: keys_below_def)

lemma keys_below_mono: "keys_below n ks \<Longrightarrow> n \<le> m \<Longrightarrow> keys_below m ks"
  by (auto simp: keys_below_def)

lemma keys_below_Suc [simp]: "keys_below n ks \<Longrightarrow> keys_below (Suc n) ks"
  by (erule keys_below_mono) simp

lemma keys_below_snoc: "keys_below n ks \<Longrightarrow> n \<le> k \<Longrightarrow> k < m \<Longrightarrow> keys_below m (ks @ [k])"
  by (auto simp: keys_below_def sorted_wrt_append)

lemma keys_below_distinct: "keys_below n ks \<Longrightarrow> distinct ks"
  by (induction ks) (auto simp: keys_below_def)

lemma keys_below_same:
  "keys_below n (map key rs) \<Longrightarrow> r \<in> set rs \<Longrightarrow> s \<in> set rs \<Longrightarrow> key r = key s \<Longrightarrow> r = s"
  using keys_below_distinct [of n "map key rs"] by (auto simp: distinct_map dest: inj_onD)

section \<open>Attempts and the states of submissions\<close>

fun running_state :: "stage \<Rightarrow> sub_state option" where
  "running_state HIPPIUS = Some HIPPIUS_RUNNING"
| "running_state PRE_EVAL = Some PRE_EVAL_RUNNING"
| "running_state EVAL = Some EVAL_RUNNING"
| "running_state SET_REIGN = Some SET_REIGN_RUNNING"
| "running_state WEIGHT_SET = None"

lemma running_state_inj:
  "running_state st = Some x \<Longrightarrow> running_state st' = Some x \<Longrightarrow> st = st'"
  by (cases st; cases st') auto

definition busy :: "attempt \<Rightarrow> bool" where
  "busy a \<longleftrightarrow> open_attempt (sa_state a) \<and> sa_stage a \<noteq> WEIGHT_SET"

definition ledger_ok :: "attempt list \<Rightarrow> submission list \<Rightarrow> bool" where
  "ledger_ok as ss \<longleftrightarrow> (\<forall>a \<in> set as. busy a \<longrightarrow>
     (\<exists>r \<in> set ss. ms_id r = sa_submission_id a \<and> Some (ms_state r) = running_state (sa_stage a)))"

definition sole :: "nat \<Rightarrow> nat \<Rightarrow> attempt list \<Rightarrow> bool" where
  "sole i s as \<longleftrightarrow> (\<forall>a \<in> set as. busy a \<and> sa_submission_id a = s \<longrightarrow> sa_id a = i)"

definition idle :: "nat \<Rightarrow> attempt list \<Rightarrow> bool" where
  "idle s as \<longleftrightarrow> (\<forall>a \<in> set as. busy a \<longrightarrow> sa_submission_id a \<noteq> s)"

definition ledger :: "db \<Rightarrow> bool" where
  "ledger d \<longleftrightarrow> keys_below (next_id d) (map sa_id (attempts d)) \<and>
     keys_below (next_id d) (map ms_id (submissions d)) \<and>
     attempts_ok (attempts d) \<and> subs_ok (submissions d) \<and>
     ledger_ok (attempts d) (submissions d)"

lemma ledgerI [intro]:
  "keys_below (next_id d) (map sa_id (attempts d)) \<Longrightarrow>
   keys_below (next_id d) (map ms_id (submissions d)) \<Longrightarrow>
   attempts_ok (attempts d) \<Longrightarrow> subs_ok (submissions d) \<Longrightarrow>
   ledger_ok (attempts d) (submissions d) \<Longrightarrow> ledger d"
  by (simp add: ledger_def)

lemma ledgerD:
  assumes "ledger d"
  shows "keys_below (next_id d) (map sa_id (attempts d))"
    "keys_below (next_id d) (map ms_id (submissions d))"
    "attempts_ok (attempts d)" "subs_ok (submissions d)"
    "ledger_ok (attempts d) (submissions d)"
  using assms by (simp_all add: ledger_def)

lemma idle_if_quiet:
  assumes "ledger_ok as ss" and "keys_below n (map ms_id ss)" and "r \<in> set ss"
    and "\<And>st. running_state st \<noteq> Some (ms_state r)"
  shows "idle (ms_id r) as"
  unfolding idle_def
proof (intro ballI impI notI)
  fix a assume a: "a \<in> set as" "busy a" "sa_submission_id a = ms_id r"
  then obtain q where q: "q \<in> set ss" "ms_id q = ms_id r"
      "Some (ms_state q) = running_state (sa_stage a)"
    using assms(1) by (auto simp: ledger_ok_def)
  have "q = r" using keys_below_same [OF assms(2) q(1) assms(3) q(2)] .
  with q(3) assms(4) show False by metis
qed

lemma sole_if_busy:
  assumes "ledger_ok as ss" and "keys_below n (map ms_id ss)" and "attempts_ok as"
    and "a \<in> set as" and "busy a"
  shows "sole (sa_id a) (sa_submission_id a) as"
  unfolding sole_def
proof (intro ballI impI)
  fix b assume b: "b \<in> set as" "busy b \<and> sa_submission_id b = sa_submission_id a"
  obtain q where q: "q \<in> set ss" "ms_id q = sa_submission_id a"
      "Some (ms_state q) = running_state (sa_stage a)"
    using assms by (auto simp: ledger_ok_def)
  obtain r where r: "r \<in> set ss" "ms_id r = sa_submission_id b"
      "Some (ms_state r) = running_state (sa_stage b)"
    using assms b by (auto simp: ledger_ok_def)
  have "q = r" using keys_below_same [OF assms(2) q(1) r(1)] q(2) r(2) b(2) by simp
  then have "sa_stage b = sa_stage a"
    using q(3) r(3) by (metis running_state_inj)
  then have "open_key b = open_key a" "open_key b \<noteq> None"
    using b(2) assms(5) by (auto simp: open_key_def busy_def)
  then have "b = a"
    using unique_by_same [of open_key as b a] assms(3,4) b(1) by (auto simp: attempts_ok_def)
  then show "sa_id b = sa_id a" by simp
qed

definition closes :: "(attempt \<Rightarrow> attempt) \<Rightarrow> bool" where
  "closes f \<longleftrightarrow> (\<forall>a. sa_id (f a) = sa_id a \<and> sa_submission_id (f a) = sa_submission_id a \<and>
     sa_stage (f a) = sa_stage a \<and> sa_number (f a) = sa_number a \<and>
     \<not> open_attempt (sa_state (f a)))"

text \<open>An update that leaves the columns of the ledger alone.\<close>

definition same_row :: "(attempt \<Rightarrow> attempt) \<Rightarrow> bool" where
  "same_row f \<longleftrightarrow> (\<forall>a. sa_id (f a) = sa_id a \<and> sa_submission_id (f a) = sa_submission_id a \<and>
     sa_stage (f a) = sa_stage a \<and> sa_number (f a) = sa_number a \<and> sa_state (f a) = sa_state a)"

definition keeps_id :: "(submission \<Rightarrow> submission) \<Rightarrow> bool" where
  "keeps_id g \<longleftrightarrow> (\<forall>r. ms_id (g r) = ms_id r)"

lemma busy_before:
  assumes "closes f \<or> same_row f" "b \<in> set (update_where p f as)" "busy b"
  obtains a where "a \<in> set as" "busy a" "sa_id a = sa_id b"
    "sa_submission_id a = sa_submission_id b" "sa_stage a = sa_stage b" "closes f \<longrightarrow> \<not> p a"
proof -
  obtain a where a: "a \<in> set as" "b = (if p a then f a else a)"
    using assms(2) by (auto simp: in_update_where)
  have "busy a" "closes f \<longrightarrow> \<not> p a"
    using assms(1,3) a(2) by (auto simp: closes_def same_row_def busy_def split: if_splits)
  moreover have "sa_id a = sa_id b" "sa_submission_id a = sa_submission_id b" "sa_stage a = sa_stage b"
    using assms(1) a(2) by (auto simp: closes_def same_row_def)
  ultimately show thesis using a(1) that by blast
qed

lemma ledger_ok_attempts:
  "ledger_ok as ss \<Longrightarrow> closes f \<or> same_row f \<Longrightarrow> ledger_ok (update_where p f as) ss"
  unfolding ledger_ok_def by (metis busy_before)

lemma ledger_ok_set:
  assumes "ledger_ok as ss" "idle s as" "keeps_id g"
    "\<And>r. r \<in> set ss \<Longrightarrow> p r \<Longrightarrow> ms_id r = s"
  shows "ledger_ok as (update_where p g ss)"
  unfolding ledger_ok_def
proof (intro ballI impI)
  fix a assume a: "a \<in> set as" "busy a"
  then obtain r where r: "r \<in> set ss" "ms_id r = sa_submission_id a"
      "Some (ms_state r) = running_state (sa_stage a)"
    using assms(1) by (auto simp: ledger_ok_def)
  have "ms_id r \<noteq> s" using assms(2) a r(2) by (auto simp: idle_def)
  then have "r \<in> set (update_where p g ss)"
    using assms(4) r(1) by (force simp: in_update_where)
  with r show "\<exists>r \<in> set (update_where p g ss). ms_id r = sa_submission_id a \<and>
      Some (ms_state r) = running_state (sa_stage a)" by blast
qed

lemma ledger_ok_state:
  assumes "ledger_ok as ss" "keeps_id g" "\<And>r. r \<in> set ss \<Longrightarrow> p r \<Longrightarrow> ms_state (g r) = ms_state r"
  shows "ledger_ok as (update_where p g ss)"
  unfolding ledger_ok_def
proof (intro ballI impI)
  fix a assume a: "a \<in> set as" "busy a"
  then obtain r where r: "r \<in> set ss" "ms_id r = sa_submission_id a"
      "Some (ms_state r) = running_state (sa_stage a)"
    using assms(1) by (auto simp: ledger_ok_def)
  let ?q = "if p r then g r else r"
  have "?q \<in> set (update_where p g ss)" using r(1) by (auto simp: in_update_where)
  moreover have "ms_id ?q = ms_id r" "ms_state ?q = ms_state r"
    using assms(2,3) r(1) by (simp_all add: keeps_id_def)
  ultimately show "\<exists>r \<in> set (update_where p g ss). ms_id r = sa_submission_id a \<and>
      Some (ms_state r) = running_state (sa_stage a)" using r(2,3) by metis
qed

lemma ledger_ok_snoc_sub: "ledger_ok as ss \<Longrightarrow> ledger_ok as (ss @ [r])"
  by (fastforce simp: ledger_ok_def)

lemma sole_close_idle:
  assumes "sole i s as" "closes f"
  shows "idle s (update_where (\<lambda>a. sa_id a = i) f as)"
  unfolding idle_def
proof (intro ballI impI)
  fix b assume "b \<in> set (update_where (\<lambda>a. sa_id a = i) f as)" "busy b"
  from busy_before [OF disjI1 [OF assms(2)] this]
  show "sa_submission_id b \<noteq> s" using assms by (metis sole_def)
qed

lemma sole_update:
  assumes "sole i s as" "closes f \<or> same_row f"
  shows "sole i s (update_where p f as)"
  unfolding sole_def
proof (intro ballI impI)
  fix b assume b: "b \<in> set (update_where p f as)" "busy b \<and> sa_submission_id b = s"
  from busy_before [OF assms(2) b(1) conjunct1 [OF b(2)]]
  show "sa_id b = i" using assms(1) b(2) by (metis sole_def)
qed

lemma idle_update:
  assumes "idle s as" "closes f \<or> same_row f"
  shows "idle s (update_where p f as)"
  unfolding idle_def
proof (intro ballI impI)
  fix b assume "b \<in> set (update_where p f as)" "busy b"
  from busy_before [OF assms(2) this]
  show "sa_submission_id b \<noteq> s" using assms(1) by (metis idle_def)
qed

lemma idle_sole: "idle s as \<Longrightarrow> sole i s as"
  by (auto simp: idle_def sole_def)

lemma ledger_ok_finish:
  assumes "ledger_ok as ss" "sole i s as" "closes f" "keeps_id g"
    "\<And>r. r \<in> set ss \<Longrightarrow> p r \<Longrightarrow> ms_id r = s"
  shows "ledger_ok (update_where (\<lambda>a. sa_id a = i) f as) (update_where p g ss)"
  by (rule ledger_ok_set [OF ledger_ok_attempts [OF assms(1) disjI1 [OF assms(3)]] sole_close_idle [OF assms(2,3)] assms(4)])
    (rule assms(5))

lemma ledger_ok_claim:
  assumes "ledger_ok as ss" "idle s as" "keeps_id g" "r \<in> set ss" "ms_id r = s"
    "sa_submission_id a = s"
    "\<And>r. Some (ms_state (g r)) = running_state (sa_stage a)"
  shows "ledger_ok (as @ [a]) (update_where (\<lambda>r. ms_id r = s) g ss)"
proof -
  have "g r \<in> set (update_where (\<lambda>r. ms_id r = s) g ss)" "ms_id (g r) = s"
    using assms(3,4,5) by (force simp: in_update_where keeps_id_def)+
  then show ?thesis
    using ledger_ok_set [OF assms(1,2,3), of "\<lambda>r. ms_id r = s"] assms(6,7)
    by (auto simp: ledger_ok_def)
qed

lemma attempts_ok_update:
  "attempts_ok as \<Longrightarrow> closes f \<or> same_row f \<Longrightarrow> attempts_ok (update_where p f as)"
  by (rule attempts_ok_close) (auto simp: closes_def same_row_def number_key_def open_key_def)

lemma map_id_closes [simp]: "closes f \<or> same_row f \<Longrightarrow> map sa_id (update_where p f as) = map sa_id as"
  by (rule map_update_where) (auto simp: closes_def same_row_def)

lemma map_id_keeps [simp]: "keeps_id g \<Longrightarrow> map ms_id (update_where p g ss) = map ms_id ss"
  by (rule map_update_where) (auto simp: keeps_id_def)

text \<open>A submission that no open attempt refers to accepts a new attempt.\<close>

lemma attempts_ok_claim:
  assumes "attempts_ok as" "idle (sa_submission_id a) as"
    "sa_number a = next_number (attempt_numbers (sa_submission_id a) (sa_stage a) as)"
    "sa_stage a \<noteq> WEIGHT_SET"
  shows "attempts_ok (as @ [a])"
  by (rule attempts_ok_snoc [OF assms(1) assms(3)]) (use assms(2,4) in \<open>auto simp: idle_def busy_def\<close>)

section \<open>Steps on the database\<close>

text \<open>The attempt \<open>i\<close> of the submission \<open>s\<close> at the stage \<open>st\<close> is RUNNING.\<close>

definition holds :: "stage \<Rightarrow> nat \<Rightarrow> nat \<Rightarrow> db \<Rightarrow> bool" where
  "holds st i s d \<longleftrightarrow> list_ex (\<lambda>a. sa_id a = i \<and> sa_submission_id a = s \<and> sa_stage a = st \<and>
     sa_state a = SA_RUNNING) (attempts d)"

lemma holdsE:
  assumes "holds st i s d"
  obtains a where "a \<in> set (attempts d)" "sa_id a = i" "sa_submission_id a = s" "sa_stage a = st"
    "sa_state a = SA_RUNNING"
  using assms by (auto simp: holds_def list_ex_iff)

lemma holds_sole: "ledger d \<Longrightarrow> holds st i s d \<Longrightarrow> st \<noteq> WEIGHT_SET \<Longrightarrow> sole i s (attempts d)"
  using sole_if_busy ledgerD
  by (fastforce simp: holds_def list_ex_iff busy_def open_attempt_def)

lemma holds_state:
  assumes "ledger d" "holds st i s d" "r \<in> set (submissions d)" "ms_id r = s" "st \<noteq> WEIGHT_SET"
  shows "Some (ms_state r) = running_state st"
proof -
  obtain a where a: "a \<in> set (attempts d)" "sa_submission_id a = s" "sa_stage a = st" "busy a"
    using assms(2,5) by (auto simp: holds_def list_ex_iff busy_def open_attempt_def)
  then obtain q where q: "q \<in> set (submissions d)" "ms_id q = s" "Some (ms_state q) = running_state st"
    using ledgerD(5) [OF assms(1)] by (auto simp: ledger_ok_def)
  have "q = r" using keys_below_same [OF ledgerD(2) [OF assms(1)] q(1) assms(3)] q(2) assms(4) by simp
  with q(3) show ?thesis by simp
qed

lemma updated_row:
  assumes "ledger d" "r \<in> set (submissions d)"
    and "submissions d' = update_where (\<lambda>q. ms_id q = ms_id r) g (submissions d)" "keeps_id g"
    and "q \<in> set (submissions d')" "ms_id q = ms_id r"
  shows "q = g r"
proof -
  obtain q0 where q0: "q0 \<in> set (submissions d)" "q = (if ms_id q0 = ms_id r then g q0 else q0)"
    using assms(3,5) by (auto simp: in_update_where)
  then have "ms_id q0 = ms_id r" using assms(4,6) by (auto simp: keeps_id_def split: if_splits)
  then have "q0 = r" using keys_below_same [OF ledgerD(2) [OF assms(1)] q0(1) assms(2)] by simp
  then show ?thesis using q0(2) by simp
qed

lemma find_sub_known:
  assumes "ledger d" "r \<in> set (submissions d)" shows "find_sub (ms_id r) d = Some r"
proof (cases "find_sub (ms_id r) d")
  case None
  then show ?thesis using assms(2) by (auto simp: find_sub_def find_None_iff)
next
  case (Some q)
  with find_SomeD [of _ _ q] keys_below_same [OF ledgerD(2) [OF assms(1)] _ assms(2), of q]
  show ?thesis by (auto simp: find_sub_def)
qed

lemma ledger_finish:
  assumes "ledger d" "sole i s (attempts d)"
    and "attempts d' = update_where (\<lambda>a. sa_id a = i) f (attempts d)"
    and "submissions d' = update_where p g (submissions d)"
    and "subs_ok (submissions d')" and "next_id d \<le> next_id d'"
    and "\<And>r. p r \<Longrightarrow> ms_id r = s" and "closes f" "keeps_id g"
  shows "ledger d'"
proof (rule ledgerI)
  show "keys_below (next_id d') (map sa_id (attempts d'))"
    using assms(8,3,6) ledgerD(1) [OF assms(1)] by (auto intro: keys_below_mono)
  show "keys_below (next_id d') (map ms_id (submissions d'))"
    using assms(9,4,6) ledgerD(2) [OF assms(1)] by (auto intro: keys_below_mono)
  show "attempts_ok (attempts d')"
    using assms(8,3) ledgerD(3) [OF assms(1)] by (simp add: attempts_ok_update)
  show "ledger_ok (attempts d') (submissions d')"
    unfolding assms(3,4)
    by (rule ledger_ok_finish [OF ledgerD(5) [OF assms(1)] assms(2,8,9)]) (rule assms(7))
qed (rule assms(5))

lemma idle_after_close_all:
  assumes "ledger d" "closes f" "\<And>a. a \<in> set rows \<Longrightarrow> a \<in> set (attempts d) \<and> busy a" "a \<in> set rows"
  shows "idle (sa_submission_id a) (update_where (\<lambda>x. sa_id x \<in> set (map sa_id rows)) f (attempts d))"
  unfolding idle_def
proof (intro ballI impI notI)
  fix b assume b: "b \<in> set (update_where (\<lambda>x. sa_id x \<in> set (map sa_id rows)) f (attempts d))"
    "busy b" "sa_submission_id b = sa_submission_id a"
  obtain c where c: "c \<in> set (attempts d)" "busy c" "sa_submission_id c = sa_submission_id b"
      "sa_id c \<notin> set (map sa_id rows)"
    using busy_before [OF disjI1 [OF assms(2)] b(1,2)] assms(2) by metis
  have "sole (sa_id a) (sa_submission_id a) (attempts d)"
    using sole_if_busy ledgerD [OF assms(1)] assms(3) [OF assms(4)] by blast
  then have "sa_id c = sa_id a" using c b(3) by (simp add: sole_def)
  then show False using c(4) assms(4) by simp
qed

text \<open>The ledger is in order and none of the given submissions has an open attempt.\<close>

definition idle_for :: "nat list \<Rightarrow> db \<Rightarrow> bool" where
  "idle_for is d \<longleftrightarrow> ledger d \<and> (\<forall>s \<in> set is. idle s (attempts d))"

text \<open>The ledger is in order, and each pair names the only attempt a submission can have open.\<close>

definition sole_for :: "(nat \<times> nat) list \<Rightarrow> db \<Rightarrow> bool" where
  "sole_for ps d \<longleftrightarrow> ledger d \<and> (\<forall>(i, s) \<in> set ps. sole i s (attempts d))"

lemma sole_for_finish:
  assumes "sole_for ps d" "(i, s) \<in> set ps"
    and "attempts d' = update_where (\<lambda>a. sa_id a = i) f (attempts d)"
    and "submissions d' = update_where p g (submissions d)"
    and "subs_ok (submissions d')" and "next_id d \<le> next_id d'"
    and "\<And>r. p r \<Longrightarrow> ms_id r = s" and "closes f" "keeps_id g"
  shows "sole_for ps d'"
proof -
  have "ledger d" "sole i s (attempts d)" using assms(1,2) by (auto simp: sole_for_def)
  then have "ledger d'" by (rule ledger_finish [OF _ _ assms(3-9)])
  moreover have "sole j t (attempts d')" if "(j, t) \<in> set ps" for j t
    using assms(1,8) that unfolding assms(3) by (intro sole_update) (auto simp: sole_for_def)
  ultimately show ?thesis by (auto simp: sole_for_def)
qed

text \<open>Steps that change only rows of submissions no open attempt refers to, or no state at all.\<close>

lemma ledger_quiet:
  assumes "ledger d" "attempts d' = attempts d" "next_id d \<le> next_id d'"
    and "submissions d' = update_where p g (submissions d)" "subs_ok (submissions d')" "keeps_id g"
    and "(\<forall>r. p r \<longrightarrow> ms_state (g r) = ms_state r) \<or>
      (\<exists>s. idle s (attempts d) \<and> (\<forall>r. p r \<longrightarrow> ms_id r = s))"
  shows "ledger d'"
proof (rule ledgerI)
  show "keys_below (next_id d') (map ms_id (submissions d'))"
    using assms(3,4,6) ledgerD(2) [OF assms(1)] by (auto intro: keys_below_mono)
  show "ledger_ok (attempts d') (submissions d')"
    using assms(7) ledgerD(5) [OF assms(1)] unfolding assms(2,4)
    by (auto intro: ledger_ok_state ledger_ok_set assms(6))
qed (use assms ledgerD [OF assms(1)] in \<open>auto intro: keys_below_mono\<close>)

lemma ledger_attempts:
  assumes "ledger d" "attempts d' = update_where p f (attempts d)" "submissions d' = submissions d"
    and "next_id d \<le> next_id d'" "closes f \<or> same_row f"
  shows "ledger d'"
  by (rule ledgerI) (use assms ledgerD [OF assms(1)] in
    \<open>auto intro: keys_below_mono attempts_ok_update ledger_ok_attempts\<close>)

lemma ledger_frame:
  assumes "ledger d" "attempts d' = attempts d" "submissions d' = submissions d"
    "next_id d \<le> next_id d'"
  shows "ledger d'"
  by (rule ledgerI) (use assms ledgerD [OF assms(1)] in \<open>auto intro: keys_below_mono\<close>)

text \<open>
  Statements that leave the ledger's tables alone: the relation between the states before and after
  is a preorder, so the rules of the generic locale compose it through a transaction.
\<close>

definition same_ledger :: "db \<Rightarrow> db \<Rightarrow> bool" where
  "same_ledger d d' \<longleftrightarrow> attempts d' = attempts d \<and> submissions d' = submissions d \<and>
     next_id d \<le> next_id d'"

interpretation ledger_frames: state_preorder same_ledger
  by unfold_locales (auto simp: same_ledger_def)

lemma same_ledger_ledger: "ledger d \<Longrightarrow> same_ledger d d' \<Longrightarrow> ledger d'"
  unfolding same_ledger_def by (elim conjE) (rule ledger_frame)

lemma keeps_ledger_statements:
  "keeps same_ledger tx_fresh" "keeps same_ledger (stmt_miners f1)" "keeps same_ledger (stmt_commits f2)"
  "keeps same_ledger (stmt_used f3)" "keeps same_ledger (stmt_runs f4)"
  "keeps same_ledger (stmt_kings f5)" "keeps same_ledger (stmt_reigns f6)"
  "keeps same_ledger (stmt_members f7)" "keeps same_ledger (stmt_epochs f8)"
  "keeps same_ledger (stmt_wtxs f9)" "keeps same_ledger (stmt_sanity f10)"
  "keeps same_ledger (stmt_regs f11)" "keeps same_ledger (ins_artifact a)"
  "keeps same_ledger (ins_event s i ty sev msg j)" "keeps same_ledger (upd_run k f12)"
  by (auto simp: keeps_def same_ledger_def tx upd_run_def)

lemmas ledger_frame_rules = keeps_ledger_statements ledger_frames.keeps_rules

definition keeps_keys :: "(submission \<Rightarrow> submission) \<Rightarrow> bool" where
  "keeps_keys g \<longleftrightarrow> (\<forall>r. ms_idempotency_key (g r) = ms_idempotency_key r \<and>
     ms_chain_commit_id (g r) = ms_chain_commit_id r \<and> ms_model_hash (g r) = ms_model_hash r)"

lemma subs_ok_keys: "subs_ok ss \<Longrightarrow> keeps_keys g \<Longrightarrow> subs_ok (update_where p g ss)"
  by (rule subs_ok_update) (auto simp: keeps_keys_def)

lemma ledger_subs_keys: "ledger d \<Longrightarrow> keeps_keys g \<Longrightarrow> subs_ok (update_where p g (submissions d))"
  by (simp add: subs_ok_keys ledgerD)

lemma new_attempt_sel [simp]:
  "sa_id (new_attempt i s st n w l t j) = i" "sa_submission_id (new_attempt i s st n w l t j) = s"
  "sa_stage (new_attempt i s st n w l t j) = st" "sa_number (new_attempt i s st n w l t j) = n"
  "sa_state (new_attempt i s st n w l t j) = SA_RUNNING"
  by (simp_all add: new_attempt_def)

lemma next_attempt_number_fresh [simp]:
  "next_attempt_number i st (d\<lparr>next_id := n\<rparr>) = next_attempt_number i st d"
  by (simp add: next_attempt_number_def)

lemma ledger_next_id: "ledger d \<Longrightarrow> ledger (d\<lparr>next_id := Suc (next_id d)\<rparr>)"
  by (rule ledger_frame) auto

text \<open>
  The contract of a stage's queue: its running state, and the states its claim starts from, which
  are no running states. From a ledger in order such a submission accepts the stage's next attempt,
  and the ledger stays in order.
\<close>

locale stage_queue =
  fixes st :: stage and run :: sub_state and ready :: "sub_state list"
    and queue :: "sess \<Rightarrow> db \<Rightarrow> submission list"
  assumes run_state: "running_state st = Some run"
    and ready_quiet: "x \<in> set ready \<Longrightarrow> running_state st' \<noteq> Some x"
    and queue_ready: "r \<in> set (queue env d) \<Longrightarrow> r \<in> set (submissions d) \<and> ms_state r \<in> set ready"
begin

lemma ready_idle: "ledger d \<Longrightarrow> r \<in> set (queue env d) \<Longrightarrow> idle (ms_id r) (attempts d)"
  by (rule idle_if_quiet [OF ledgerD(5) ledgerD(2)]) (auto dest: ready_quiet queue_ready)

lemma claim_attempt:
  assumes "ledger d" "r \<in> set (queue env d)"
    and "sa_submission_id a = ms_id r" "sa_stage a = st"
    and "sa_number a = next_attempt_number (ms_id r) st d"
  shows "attempts_ok (attempts d @ [a])"
proof -
  have "st \<noteq> WEIGHT_SET" using run_state by auto
  then show ?thesis
    using assms ledgerD(3) ready_idle [OF assms(1,2)]
    by (intro attempts_ok_claim) (auto simp: next_attempt_number_def)
qed

lemma claim_ledger:
  assumes "ledger d" "r \<in> set (queue env d)"
    and "attempts d' = attempts d @ [a]"
    and "submissions d' = update_where (\<lambda>q. ms_id q = ms_id r) g (submissions d)"
    and "attempts_ok (attempts d')" "subs_ok (submissions d')" "next_id d < next_id d'"
    and "sa_submission_id a = ms_id r" "sa_stage a = st" "sa_id a = next_id d"
    and "keeps_id g" "\<And>q. ms_state (g q) = run"
  shows "ledger d'"
proof (rule ledgerI)
  show "keys_below (next_id d') (map sa_id (attempts d'))"
    using assms(3,7,10) ledgerD(1) [OF assms(1)] by (simp add: keys_below_snoc)
  show "keys_below (next_id d') (map ms_id (submissions d'))"
    using assms(4,7,11) ledgerD(2) [OF assms(1)] by (auto intro: keys_below_mono)
  show "ledger_ok (attempts d') (submissions d')"
    unfolding assms(3,4)
    by (rule ledger_ok_claim [OF ledgerD(5) [OF assms(1)] ready_idle [OF assms(1,2)] assms(11) _ refl])
      (use assms queue_ready in \<open>auto simp: run_state\<close>)
qed (rule assms)+

end

end
