(* ===== verification/Validation.thy ===== *)
theory Validation
  imports Ledger
begin

text \<open>
  Model validation, the first stage of a submission: src/src/model_validation/db.py (the HIPPIUS
  queue on model_submissions and stage_attempts) and the admission gate and outcome handling of
  src/src/model_validation/validate_worker.py. The model checks themselves (downloads, tensor
  shapes, dedup) are outside: their outcome is an argument.
\<close>

section \<open>Enqueueing chain commits\<close>

text \<open>
  A submission row with the columns an INSERT gives and the schema's defaults for the rest. The
  identifier 0 is replaced when the row is stored.
\<close>

definition new_submission ::
  "int \<Rightarrow> nat \<Rightarrow> nat \<Rightarrow> int \<Rightarrow> int \<Rightarrow> string \<Rightarrow> string \<Rightarrow> string option \<Rightarrow> sub_state \<Rightarrow> string \<Rightarrow>
     submission" where
  "new_submission t miner commit netuid uid hotkey uri hash st key =
     \<lparr>ms_id = 0, ms_miner_id = Some miner, ms_chain_commit_id = commit, ms_netuid = netuid,
      ms_uid = uid, ms_hotkey = hotkey, ms_model_uri = uri, ms_commit_hash = hash,
      ms_model_hash = None, ms_state = st, ms_fault_class = None, ms_fault_code = None,
      ms_fault_message = None, ms_retry_count = 0, ms_priority = 100, ms_idempotency_key = key,
      ms_created_at = t, ms_updated_at = t, ms_finished_at = None\<rparr>"

definition chain_key :: "int \<Rightarrow> string \<Rightarrow> string \<Rightarrow> string" where
  "chain_key netuid hotkey payload_hash =
     ''chain:'' @ show_int netuid @ '':'' @ hotkey @ '':'' @ payload_hash"

text \<open>
  INSERT INTO model_submissions ... ON CONFLICT (idempotency_key) DO UPDATE ... RETURNING id: the
  update \<open>f\<close> is applied to the row that already has the key.
\<close>

definition upsert_submission ::
  "submission \<Rightarrow> (submission \<Rightarrow> submission) \<Rightarrow> (db, nat) tx" where
  "upsert_submission row f =
     tx_bind (tx_gets (\<lambda>d. find (\<lambda>r. ms_idempotency_key r = ms_idempotency_key row) (submissions d)))
       (\<lambda>old. case old of
          Some r \<Rightarrow> tx_then
            (stmt_subs (update_where (\<lambda>s. ms_idempotency_key s = ms_idempotency_key row) f))
            (tx_return (ms_id r))
        | None \<Rightarrow> tx_bind tx_fresh (\<lambda>i.
            tx_then (stmt_subs (\<lambda>rs. rs @ [row\<lparr>ms_id := i\<rparr>])) (tx_return i)))"

definition pending_commits :: "int \<Rightarrow> db \<Rightarrow> chain_commit list" where
  "pending_commits netuid d =
     filter (\<lambda>c. cc_netuid c = netuid \<and> cc_submission_id c = None) (commits d)"

text \<open>
  The first CTE: one upsert per distinct (hotkey, uid, netuid); PostgreSQL refuses a statement that
  would update the row of one hotkey twice.
\<close>

definition upsert_miner_row :: "int \<Rightarrow> string \<times> int \<times> int \<Rightarrow> (db, unit) tx" where
  "upsert_miner_row t = (\<lambda>(hk, uid, netuid).
     tx_bind (tx_gets (find_miner hk)) (\<lambda>old. case old of
         Some _ \<Rightarrow> stmt_miners (update_where (\<lambda>m. mi_hotkey m = hk)
           (\<lambda>m. m\<lparr>mi_uid := Some uid, mi_netuid := Some netuid, mi_updated_at := t\<rparr>))
       | None \<Rightarrow> tx_bind tx_fresh (\<lambda>i. stmt_miners (\<lambda>ms. ms @
           [\<lparr>mi_id = i, mi_hotkey = hk, mi_coldkey = None, mi_uid = Some uid,
             mi_netuid = Some netuid, mi_registration_block = None, mi_updated_at = t\<rparr>]))))"

definition upsert_miners :: "int \<Rightarrow> chain_commit list \<Rightarrow> (db, unit) tx" where
  "upsert_miners t cs =
     (let keys = remdups (map (\<lambda>c. (cc_hotkey c, cc_uid c, cc_netuid c)) cs)
      in if distinct (map fst keys) then tx_for keys (upsert_miner_row t)
         else tx_raise (RuntimeErr ''CardinalityViolation''))"

text \<open>
  The second CTE. All CTEs of one statement read the same snapshot: the join with miners sees the
  miners from before the first CTE's inserts.
\<close>

definition enqueueable :: "db \<Rightarrow> int \<Rightarrow> (chain_commit \<times> miner) list" where
  "enqueueable d netuid =
     List.map_filter (\<lambda>c. case find_miner (cc_hotkey c) d of None \<Rightarrow> None | Some m \<Rightarrow> Some (c, m))
       (filter (\<lambda>c. \<not> list_ex (\<lambda>r. ms_chain_commit_id r = cc_id c) (submissions d))
          (pending_commits netuid d))"

definition enqueue_commit :: "int \<Rightarrow> chain_commit \<times> miner \<Rightarrow> (db, unit) tx" where
  "enqueue_commit t = (\<lambda>(c, m).
     tx_bind
       (upsert_submission
          (new_submission t (mi_id m) (cc_id c) (cc_netuid c) (cc_uid c) (cc_hotkey c)
             (cc_model_uri c) (text_col (jget ''digest'' (cc_payload c))) SUBMITTED
             (chain_key (cc_netuid c) (cc_hotkey c) (cc_payload_hash c)))
          (\<lambda>r. r\<lparr>ms_miner_id := Some (mi_id m), ms_chain_commit_id := cc_id c,
                 ms_uid := cc_uid c, ms_model_uri := cc_model_uri c, ms_updated_at := t\<rparr>))
       (\<lambda>i. stmt_commits (update_where (\<lambda>r. cc_id r = cc_id c \<and> cc_submission_id r = None)
          (\<lambda>r. r\<lparr>cc_submission_id := Some i\<rparr>))))"

definition enqueue_from_commits :: "sess \<Rightarrow> int \<Rightarrow> (db, nat) tx" where
  "enqueue_from_commits env netuid =
     tx_bind (tx_gets (\<lambda>d. (pending_commits netuid d, enqueueable d netuid)))
       (\<lambda>(cs, new). tx_then (upsert_miners (se_now env) cs)
          (tx_then (tx_for new (enqueue_commit (se_now env))) (tx_return (length new))))"

section \<open>Claiming and leasing\<close>

definition coldkey_of :: "string \<Rightarrow> db \<Rightarrow> string option" where
  "coldkey_of hk d = (case find_miner hk d of None \<Rightarrow> None | Some m \<Rightarrow> mi_coldkey m)"

text \<open>The rows the claim's SELECT returns, each with its commit, and the ORDER BY key.\<close>

definition hippius_claimable :: "sess \<Rightarrow> db \<Rightarrow> (submission \<times> chain_commit) list" where
  "hippius_claimable env d =
     List.map_filter (\<lambda>r. case find_commit (ms_chain_commit_id r) d of
         None \<Rightarrow> None | Some c \<Rightarrow> Some (r, c))
       (filter (\<lambda>r. (ms_state r = SUBMITTED \<or> ms_state r = HIPPIUS_RETRYABLE) \<and>
            (coldkey_of (ms_hotkey r) d \<noteq> None \<or> ms_created_at r < se_now env - 300) \<and>
            se_free env (ms_id r))
          (submissions d))"

definition hippius_order :: "submission \<times> chain_commit \<Rightarrow> int \<times> int \<times> int" where
  "hippius_order = (\<lambda>(r, c). (cc_block_number c, ms_priority r, ms_created_at r))"

record hippius_claim =
  hc_attempt_id :: nat
  hc_attempt_number :: nat
  hc_submission :: submission
  hc_commit :: chain_commit
  hc_coldkey :: "string option"

definition hippius_snapshot :: "submission \<Rightarrow> chain_commit \<Rightarrow> json" where
  "hippius_snapshot r c = JObj
     [(''chain_commit_id'', JId (ms_chain_commit_id r)), (''model_uri'', JStr (ms_model_uri r)),
      (''hotkey'', JStr (ms_hotkey r)), (''block_number'', JInt (cc_block_number c))]"

definition claim_next :: "sess \<Rightarrow> string \<Rightarrow> int \<Rightarrow> (db, hippius_claim option) tx" where
  "claim_next env worker lease =
     tx_bind (tx_gets (\<lambda>d. limit1 (sort_key hippius_order (hippius_claimable env d)))) (\<lambda>row.
       case row of
         None \<Rightarrow> tx_return None
       | Some (r, c) \<Rightarrow>
           tx_bind (tx_gets (next_attempt_number (ms_id r) HIPPIUS)) (\<lambda>n.
           tx_bind (tx_gets (coldkey_of (ms_hotkey r))) (\<lambda>ck.
           tx_bind tx_fresh (\<lambda>i.
           tx_then (ins_attempt (new_attempt i (ms_id r) HIPPIUS n worker
              (Some (se_now env + lease)) (se_now env) (hippius_snapshot r c)))
           (tx_then (upd_sub (ms_id r) (\<lambda>s. (clear_fault s)\<lparr>ms_state := HIPPIUS_RUNNING,
              ms_updated_at := se_now env\<rparr>))
           (tx_then (ins_event (Some (ms_id r)) (Some i) ''hippius_claimed'' INFO
              (''Hippius validation claimed by '' @ worker) (JObj [(''worker_id'', JStr worker)]))
           (tx_return (Some \<lparr>hc_attempt_id = i, hc_attempt_number = n, hc_submission = r,
              hc_commit = c, hc_coldkey = ck\<rparr>))))))))"

definition heartbeat :: "sess \<Rightarrow> nat \<Rightarrow> int \<Rightarrow> (db, unit) tx" where
  "heartbeat env i lease = stmt_attempts (update_where
     (\<lambda>a. sa_id a = i \<and> sa_stage a = HIPPIUS \<and> sa_state a = SA_RUNNING)
     (\<lambda>a. a\<lparr>sa_lease_expires_at := Some (se_now env + lease)\<rparr>))"

section \<open>Finishing an attempt\<close>

definition attempt_submission :: "nat \<Rightarrow> (db, submission) tx" where
  "attempt_submission i =
     tx_bind (tx_gets (\<lambda>d. case find (\<lambda>a. sa_id a = i \<and> sa_stage a = HIPPIUS) (attempts d) of
         None \<Rightarrow> None | Some a \<Rightarrow> find_sub (sa_submission_id a) d))
       (\<lambda>row. case row of None \<Rightarrow> tx_raise (RuntimeErr ''HIPPIUS attempt not found'')
          | Some r \<Rightarrow> tx_return r)"

definition is_hf_revision :: "string \<Rightarrow> bool" where
  "is_hf_revision s \<longleftrightarrow> dollar (hex_text 40) s \<or> dollar (hex_text 64) s"

definition is_hippius_digest :: "string \<Rightarrow> bool" where
  "is_hippius_digest s \<longleftrightarrow>
     dollar (\<lambda>t. starts_with ''sha256:'' t \<and> hex_text 64 (removeprefix ''sha256:'' t)) s"

definition detect_backend :: "string \<Rightarrow> string option" where
  "detect_backend s =
     (if is_hippius_digest s then Some ''hippius''
      else if is_hf_revision s then Some ''hf'' else None)"

definition model_manifest_uri :: "string \<Rightarrow> string" where
  "model_manifest_uri uri =
     (if list_ex (\<lambda>p. starts_with p uri) [''s3://'', ''file://'', ''local-cache://'', ''hf://'']
      then uri
      else if starts_with ''registry.hippius.com/'' uri then uri
      else if detect_backend (after_last (CHR ''@'') uri) = Some ''hf'' then ''hf://'' @ uri
      else if str_contains ''@sha256:'' uri then ''registry.hippius.com/'' @ uri
      else uri)"

definition storage_backend_for_model_uri :: "string \<Rightarrow> string" where
  "storage_backend_for_model_uri uri =
     (if starts_with ''s3://'' uri then ''s3''
      else if starts_with ''local-cache://'' uri \<or> starts_with ''file://'' uri then ''local-cache''
      else if starts_with ''hf://'' uri then ''hf''
      else if detect_backend (after_last (CHR ''@'') uri) = Some ''hf'' then ''hf''
      else ''hippius'')"

definition manifest_sha256 :: "string option \<Rightarrow> string option" where
  "manifest_sha256 h = (case h of None \<Rightarrow> None
     | Some s \<Rightarrow> if s = [] then None else Some (removeprefix ''sha256:'' s))"

definition record_model_manifest_artifact ::
  "sess \<Rightarrow> submission \<Rightarrow> nat \<Rightarrow> string option \<Rightarrow> string \<Rightarrow> (db, unit) tx" where
  "record_model_manifest_artifact env r i model_hash uri =
     tx_bind (tx_gets (\<lambda>d. list_ex (\<lambda>a. ar_submission_id a = Some (ms_id r) \<and>
         ar_type a = ''MODEL_MANIFEST'' \<and> ar_uri a = uri) (artifacts d)))
       (\<lambda>known. if known then tx_return () else tx_bind tx_fresh (\<lambda>k. ins_artifact
          \<lparr>ar_id = k, ar_submission_id = Some (ms_id r), ar_attempt_id = Some i,
           ar_type = ''MODEL_MANIFEST'', ar_backend = storage_backend_for_model_uri uri,
           ar_uri = uri, ar_bucket = None, ar_object_key = None,
           ar_sha256 = manifest_sha256 model_hash, ar_size_bytes = None,
           ar_content_type = Some ''application/vnd.oci.image.manifest.v1+json'',
           ar_created_at = se_now env\<rparr>))"

definition mark_done :: "sess \<Rightarrow> nat \<Rightarrow> json \<Rightarrow> (db, unit) tx" where
  "mark_done env i summary =
     tx_bind (attempt_submission i) (\<lambda>r.
       let model_hash = or_text (text_col (jget ''model_hash'' summary))
             (or_text (ms_model_hash r) (ms_commit_hash r));
           uri = model_manifest_uri (ms_model_uri r);
           summary' = jmerge summary (JObj [(''model_manifest_uri'', JStr uri)])
       in tx_seq
         [record_model_manifest_artifact env r i model_hash uri,
          upd_attempt i (\<lambda>a. a\<lparr>sa_state := SA_SUCCEEDED, sa_finished_at := Some (se_now env),
            sa_lease_expires_at := None, sa_result_summary := summary'\<rparr>),
          upd_sub (ms_id r) (\<lambda>s. (clear_fault s)\<lparr>ms_state := HIPPIUS_VALIDATED,
            ms_model_hash := coalesce (ms_model_hash s) model_hash, ms_retry_count := 0,
            ms_updated_at := se_now env\<rparr>),
          ins_event (Some (ms_id r)) (Some i) ''hippius_succeeded'' INFO
            ''Hippius validation succeeded'' summary'])"

definition fault_json :: "fault_class \<Rightarrow> json" where
  "fault_json c = JStr (case c of MINER_FAULT \<Rightarrow> ''MINER_FAULT'' | INFRA_FAULT \<Rightarrow> ''INFRA_FAULT''
     | REMOTE_EVAL_FAULT \<Rightarrow> ''REMOTE_EVAL_FAULT'' | CHAIN_FAULT \<Rightarrow> ''CHAIN_FAULT''
     | PROVIDER_FAULT \<Rightarrow> ''PROVIDER_FAULT'' | UNKNOWN_FAULT \<Rightarrow> ''UNKNOWN_FAULT'')"

definition failed_submission ::
  "sess \<Rightarrow> fault_class \<Rightarrow> string \<Rightarrow> string \<Rightarrow> submission \<Rightarrow> submission" where
  "failed_submission env cls code msg s = (set_fault cls code msg s)
     \<lparr>ms_state := TERMINAL_INVALID, ms_updated_at := se_now env, ms_finished_at := Some (se_now env)\<rparr>"

definition mark_failed ::
  "sess \<Rightarrow> nat \<Rightarrow> fault_class \<Rightarrow> string \<Rightarrow> string \<Rightarrow> json \<Rightarrow> (db, unit) tx" where
  "mark_failed env i cls code msg summary =
     tx_bind (attempt_submission i) (\<lambda>r. tx_seq
       [upd_attempt i (\<lambda>a. a\<lparr>sa_state := SA_FAILED_TERMINAL, sa_finished_at := Some (se_now env),
          sa_lease_expires_at := None, sa_fault_class := Some cls, sa_fault_code := Some code,
          sa_fault_message := Some msg, sa_result_summary := summary\<rparr>),
        upd_sub (ms_id r) (failed_submission env cls code msg),
        ins_event (Some (ms_id r)) (Some i) ''hippius_failed_terminal'' WARN msg
          (jmerge (JObj [(''fault_class'', fault_json cls), (''fault_code'', JStr code)]) summary)])"

definition mark_retry ::
  "sess \<Rightarrow> nat \<Rightarrow> nat \<Rightarrow> nat \<Rightarrow> fault_class \<Rightarrow> string \<Rightarrow> string \<Rightarrow> (db, string) tx" where
  "mark_retry env i attempt_number max_attempts cls code msg =
     (let terminal = attempt_number \<ge> max_attempts;
          attempt_state = (if terminal then SA_FAILED_TERMINAL else SA_FAILED_RETRYABLE);
          visible_state = (if terminal then TERMINAL_INFRA_FAILED else HIPPIUS_RETRYABLE)
      in tx_bind (attempt_submission i) (\<lambda>r.
        tx_then (upd_attempt i (\<lambda>a. a\<lparr>sa_state := attempt_state, sa_worker_id := None,
          sa_lease_expires_at := None, sa_finished_at := Some (se_now env),
          sa_fault_class := Some cls, sa_fault_code := Some code, sa_fault_message := Some msg\<rparr>))
        (tx_then (upd_sub (ms_id r) (\<lambda>s. (set_fault cls code msg s)\<lparr>ms_state := visible_state,
          ms_retry_count := Suc (ms_retry_count s), ms_updated_at := se_now env,
          ms_finished_at := (if visible_state = TERMINAL_INFRA_FAILED then Some (se_now env)
            else ms_finished_at s)\<rparr>))
        (tx_then (ins_event (Some (ms_id r)) (Some i) ''hippius_retryable_failed''
          (if terminal then ERROR else WARN) msg
          (JObj [(''fault_class'', fault_json cls), (''fault_code'', JStr code),
                 (''terminal'', JBool terminal)]))
        (tx_return (if terminal then ''failed'' else ''queued''))))))"

text \<open>The sweep's UPDATE ... FROM: the expired RUNNING attempts of submissions still HIPPIUS_RUNNING.\<close>

definition lease_expired :: "int \<Rightarrow> attempt \<Rightarrow> bool" where
  "lease_expired t a \<longleftrightarrow> (case sa_lease_expires_at a of None \<Rightarrow> False | Some l \<Rightarrow> l < t)"

definition sub_in_state :: "nat \<Rightarrow> sub_state \<Rightarrow> db \<Rightarrow> bool" where
  "sub_in_state i st d \<longleftrightarrow> list_ex (\<lambda>r. ms_id r = i \<and> ms_state r = st) (submissions d)"

definition hippius_expired :: "sess \<Rightarrow> db \<Rightarrow> attempt list" where
  "hippius_expired env d = filter (\<lambda>a. sa_stage a = HIPPIUS \<and> sa_state a = SA_RUNNING \<and>
     lease_expired (se_now env) a \<and> sub_in_state (sa_submission_id a) HIPPIUS_RUNNING d) (attempts d)"

definition expire_row :: "sess \<Rightarrow> attempt \<Rightarrow> (db, unit) tx" where
  "expire_row env a = tx_then
     (upd_sub (sa_submission_id a) (\<lambda>s.
        (set_fault INFRA_FAULT ''hippius_attempt_lease_expired''
           ''Hippius validation lease expired before completion'' s)
        \<lparr>ms_state := HIPPIUS_RETRYABLE, ms_retry_count := Suc (ms_retry_count s),
         ms_updated_at := se_now env\<rparr>))
     (ins_event (Some (sa_submission_id a)) (Some (sa_id a)) ''hippius_attempt_abandoned'' WARN
        ''Hippius validation lease expired before completion'' (JObj []))"

definition expire_attempt :: "sess \<Rightarrow> attempt \<Rightarrow> attempt" where
  "expire_attempt env a = a\<lparr>sa_state := SA_ABANDONED, sa_worker_id := None,
     sa_lease_expires_at := None, sa_finished_at := Some (se_now env),
     sa_fault_class := Some INFRA_FAULT, sa_fault_code := Some ''hippius_attempt_lease_expired'',
     sa_fault_message := Some ''Hippius validation lease expired before completion''\<rparr>"

definition sweep_expired :: "sess \<Rightarrow> (db, nat) tx" where
  "sweep_expired env =
     tx_bind (tx_gets (hippius_expired env)) (\<lambda>rows.
       tx_then (stmt_attempts (update_where (\<lambda>a. sa_id a \<in> set (map sa_id rows)) (expire_attempt env)))
       (tx_then (tx_for rows (expire_row env)) (tx_return (length rows))))"

section \<open>What is known of a hotkey\<close>

text \<open>The registration block of a hotkey; None for no miner row or a NULL column.\<close>

definition registration_block :: "string \<Rightarrow> db \<Rightarrow> int option" where
  "registration_block hk d = (case find_miner hk d of None \<Rightarrow> None | Some m \<Rightarrow> mi_registration_block m)"

definition hotkey_reregistered :: "string \<Rightarrow> db \<Rightarrow> bool" where
  "hotkey_reregistered hk d \<longleftrightarrow> list_ex (\<lambda>r. ms_hotkey r = hk \<and>
     (case find_commit (ms_chain_commit_id r) d of None \<Rightarrow> False
      | Some c \<Rightarrow> (case registration_block hk d of None \<Rightarrow> False
          | Some b \<Rightarrow> cc_block_number c < b))) (submissions d)"

definition validated_or_beyond :: "sub_state list" where
  "validated_or_beyond =
     [HIPPIUS_VALIDATED, PRE_EVAL_QUEUED, PRE_EVAL_RUNNING, PRE_EVAL_PASSED, EVAL_QUEUED,
      EVAL_RUNNING, EVAL_WIN, SET_REIGN_RUNNING, REIGN_SET, WEIGHT_SET_RUNNING, COMPLETE_LOSS,
      COMPLETE_CORONATED]"

text \<open>
  A submission of the hotkey in one of the given states, committed since the hotkey's current
  registration (the query of both \<open>hotkey_validated\<close> and \<open>_hotkey_already_scored_inside_tx\<close>).
\<close>

definition reached_since_registration :: "sub_state list \<Rightarrow> string \<Rightarrow> db \<Rightarrow> bool" where
  "reached_since_registration sts hk d \<longleftrightarrow> list_ex (\<lambda>r. ms_hotkey r = hk \<and> ms_state r \<in> set sts \<and>
     (case find_commit (ms_chain_commit_id r) d of None \<Rightarrow> False
      | Some c \<Rightarrow> (case registration_block hk d of None \<Rightarrow> True
          | Some b \<Rightarrow> b \<le> cc_block_number c))) (submissions d)"

definition hotkey_validated :: "string \<Rightarrow> db \<Rightarrow> bool" where
  "hotkey_validated = reached_since_registration validated_or_beyond"

definition blocking_reason :: "string \<Rightarrow> bool" where
  "blocking_reason s \<longleftrightarrow>
     str_contains ''injection'' (lower s) \<or> str_contains ''low vocab'' (lower s)"

definition hotkey_sanity_block_reason :: "string \<Rightarrow> db \<Rightarrow> string option" where
  "hotkey_sanity_block_reason hk d = map_option sr_reason (limit1 (sort_key (\<lambda>s. - sr_checked_at s)
     (filter (\<lambda>s. \<not> sr_passed s \<and> blocking_reason (sr_reason s) \<and>
        list_ex (\<lambda>r. ms_hotkey r = hk \<and> ms_model_uri r = sr_repo s) (submissions d))
       (sanity_results d))))"

definition model_hash_holder :: "string \<Rightarrow> nat \<Rightarrow> db \<Rightarrow> submission option" where
  "model_hash_holder h i d =
     limit1 (filter (\<lambda>r. ms_model_hash r = Some h \<and> ms_id r \<noteq> i) (submissions d))"

definition strike_excluded_codes :: "string list" where
  "strike_excluded_codes =
     [''hotkey_reregistered'', ''hotkey_sanity_blocked'', ''hotkey_duplicate_blocked'',
      ''hotkey_already_validated'', ''hotkey_preeval_blocked'']"

text \<open>A strike: a row \<open>fault_code <> ALL(...)\<close> counts; a NULL fault code makes the test NULL.\<close>

definition is_strike :: "submission \<Rightarrow> bool" where
  "is_strike r \<longleftrightarrow> ms_state r = TERMINAL_INVALID \<and> ms_fault_class r = Some MINER_FAULT \<and>
     (case ms_fault_code r of None \<Rightarrow> False | Some k \<Rightarrow> k \<notin> set strike_excluded_codes)"

definition hotkey_preeval_fail_count :: "string \<Rightarrow> db \<Rightarrow> nat" where
  "hotkey_preeval_fail_count hk d =
     length (filter (\<lambda>r. ms_hotkey r = hk \<and> is_strike r) (submissions d))"

text \<open>The SELECT returns a NULL message as None too.\<close>

definition hotkey_duplicate_block_reason :: "string \<Rightarrow> db \<Rightarrow> string option" where
  "hotkey_duplicate_block_reason hk d =
     (case limit1 (sort_key (\<lambda>r. - ms_created_at r)
        (filter (\<lambda>r. ms_hotkey r = hk \<and> ms_state r = TERMINAL_INVALID \<and>
           ms_fault_class r = Some MINER_FAULT \<and> ms_fault_code r = Some ''duplicate'')
          (submissions d)))
      of None \<Rightarrow> None | Some r \<Rightarrow> ms_fault_message r)"

definition protected_pre_eval_repos :: "db \<Rightarrow> string list" where
  "protected_pre_eval_repos d = remdups (map (before_first (CHR ''@'') \<circ> ms_model_uri)
     (filter (\<lambda>r. ms_state r = PRE_EVAL_RUNNING) (submissions d) @
      (case limit1 (sort_key (\<lambda>r. (ms_priority r, ms_created_at r))
         (filter (\<lambda>r. ms_state r = HIPPIUS_VALIDATED \<or> ms_state r = PRE_EVAL_RETRYABLE)
            (submissions d)))
       of None \<Rightarrow> [] | Some r \<Rightarrow> [r])))"

section \<open>The worker: admission and outcome\<close>

datatype outcome =
    Done json
  | Retryable fault_class string string
  | Rejected fault_class string string json

definition blocked_by_duplicate :: "string \<Rightarrow> string" where
  "blocked_by_duplicate prior =
     ''hotkey blocked from further submissions'' @ dash @
     (if starts_with ''duplicate ('' prior \<or> starts_with ''exact duplicate'' prior
      then ''prior '' @ prior else ''prior duplicate: '' @ prior)"

definition ban_suffix :: "nat \<Rightarrow> nat \<Rightarrow> string" where
  "ban_suffix fails max_fails =
     (let left = max_fails - fails
      in if 0 < left
         then dash @ ''hotkey has '' @ show_nat left @ '' validation strike(s) left before ban''
         else dash @ ''hotkey has 0 validation strikes left and is now banned from further submissions'')"

text \<open>
  The checks the worker makes on a claimed attempt before it looks at the model, in the order of
  the loop: the code, message and summary of the first that rejects it.
\<close>

definition admission ::
  "nat \<Rightarrow> hippius_claim \<Rightarrow> db \<Rightarrow> (string \<times> string \<times> json) option" where
  "admission max_fails cl d =
     (let hk = ms_hotkey (hc_submission cl);
          fails = hotkey_preeval_fail_count hk d;
          about = (\<lambda>kvs. JObj ((''hotkey'', JStr hk) # kvs))
      in if hotkey_reregistered hk d
         then Some (''hotkey_reregistered'', ''hotkey was used before it was deregistered'' @ dash @
                ''register a new hotkey'', about [])
         else case hotkey_sanity_block_reason hk d of
           Some reason \<Rightarrow> Some (''hotkey_sanity_blocked'',
             ''hotkey blocked from further submissions'' @ dash @ ''prior sanity failure: '' @ reason,
             about [(''sanity_reason'', JStr reason)])
         | None \<Rightarrow> (case hotkey_duplicate_block_reason hk d of
           Some reason \<Rightarrow> Some (''hotkey_duplicate_blocked'', blocked_by_duplicate reason,
             about [(''duplicate_reason'', JStr reason)])
         | None \<Rightarrow>
           if max_fails \<le> fails
           then Some (''hotkey_preeval_blocked'', ''hotkey is blocked'' @ dash @
             ''failed preeval validation '' @ show_nat fails @ '' times (limit '' @
             show_nat max_fails @ '')'', about [(''preeval_fail_count'', JInt (int fails))])
           else if hotkey_validated hk d
           then Some (''hotkey_already_validated'',
             ''hotkey already has a validated model submission'', about [])
           else (case or_text (ms_commit_hash (hc_submission cl)) None of
             None \<Rightarrow> None
           | Some h \<Rightarrow> (case model_hash_holder h (ms_id (hc_submission cl)) d of
               None \<Rightarrow> None
             | Some r \<Rightarrow> Some (''duplicate'', ''exact duplicate of hotkey '' @ ms_hotkey r @
                 '': identical model digest'',
                 JObj [(''duplicate_of'', JStr (ms_model_uri r)),
                       (''duplicate_of_hotkey'', JStr (ms_hotkey r))])))))"

text \<open>
  \<open>_finalize\<close>: how the worker records an outcome. Each call is a transaction of its own, so the
  whole is a function on the committed state: a unique violation of \<open>mark_done\<close> rolls it back and
  the attempt is failed as a duplicate. \<open>fault_uri\<close> is what the upload of the fault document
  returned.
\<close>

definition finalize ::
  "sess \<Rightarrow> nat \<Rightarrow> nat \<Rightarrow> hippius_claim \<Rightarrow> json \<Rightarrow> outcome \<Rightarrow> db \<Rightarrow> (db_error + unit) \<times> db" where
  "finalize env max_attempts max_fails cl fault_uri out d =
     (let i = hc_attempt_id cl; hk = ms_hotkey (hc_submission cl)
      in case out of
        Done summary \<Rightarrow>
          (case run_tx (mark_done env i summary) d of
             (Inl (UniqueViolation _), d') \<Rightarrow> run_tx (mark_failed env i MINER_FAULT ''duplicate''
               ''exact duplicate: this model's digest already belongs to another submission''
               summary) d'
           | r \<Rightarrow> r)
      | Retryable cls code msg \<Rightarrow>
          (case run_tx (mark_retry env i (hc_attempt_number cl) max_attempts cls code msg) d of
             (Inl e, d') \<Rightarrow> (Inl e, d') | (Inr _, d') \<Rightarrow> (Inr (), d'))
      | Rejected cls code msg summary \<Rightarrow>
          (let msg' = (if code \<noteq> ''duplicate''
             then msg @ ban_suffix (hotkey_preeval_fail_count hk d + 1) max_fails else msg)
           in run_tx (mark_failed env i cls code msg'
                (jmerge summary (JObj [(''fault_uri'', fault_uri)]))) d))"

section \<open>The validation stage keeps the ledger in order\<close>

lemma set_hippius_claimable:
  "(r, c) \<in> set (hippius_claimable env d) \<Longrightarrow>
     r \<in> set (submissions d) \<and> ms_state r \<in> set [SUBMITTED, HIPPIUS_RETRYABLE] \<and> se_free env (ms_id r)"
  by (auto simp: hippius_claimable_def List.map_filter_def split: option.splits)

interpretation hippius_queue: stage_queue HIPPIUS HIPPIUS_RUNNING "[SUBMITTED, HIPPIUS_RETRYABLE]"
  "\<lambda>env d. map fst (hippius_claimable env d)"
  by unfold_locales (auto elim: running_state.elims dest: set_hippius_claimable)


lemma claim_next_cases:
  obtains (Empty) "hippius_claimable env d = []" "claim_next env w l d = Inr (None, d)"
  | (Row) r c where "(r, c) \<in> set (hippius_claimable env d)"
      "r \<in> set (map fst (hippius_claimable env d))"
      "\<And>x. x \<in> set (hippius_claimable env d) \<Longrightarrow> hippius_order (r, c) \<le> hippius_order x"
      "limit1 (sort_key hippius_order (hippius_claimable env d)) = Some (r, c)"
proof (cases "limit1 (sort_key hippius_order (hippius_claimable env d))")
  case None
  then have "hippius_claimable env d = []" by (metis limit1_None set_empty set_sort)
  then show thesis using Empty by (simp add: claim_next_def tx)
next
  case (Some rc)
  obtain r c where rc: "rc = (r, c)" by force
  have m: "(r, c) \<in> set (hippius_claimable env d)" using limit1_Some [OF Some] by (simp add: rc)
  show thesis
  proof (rule Row)
    show "(r, c) \<in> set (hippius_claimable env d)" by (rule m)
    show "r \<in> set (map fst (hippius_claimable env d))" using m by force
    show "hippius_order (r, c) \<le> hippius_order x" if "x \<in> set (hippius_claimable env d)" for x
      using limit1_sort_key_least [OF Some that] unfolding rc .
    show "limit1 (sort_key hippius_order (hippius_claimable env d)) = Some (r, c)"
      using Some unfolding rc .
  qed
qed

lemma attempt_submissionD:
  assumes "attempt_submission i d = Inr (r, d')"
  shows "d' = d" "r \<in> set (submissions d)"
    "\<exists>a \<in> set (attempts d). sa_id a = i \<and> sa_stage a = HIPPIUS \<and> sa_submission_id a = ms_id r"
  using assms
  by (auto simp: attempt_submission_def tx find_sub_def split: option.splits dest!: find_SomeD)

lemma attempt_submission_sole:
  assumes "ledger d" "attempt_submission i d = Inr (r, d')" "holds HIPPIUS i s d"
  shows "ms_id r = s" "sole i (ms_id r) (attempts d)"
proof -
  obtain a where a: "a \<in> set (attempts d)" "sa_id a = i" "sa_submission_id a = ms_id r"
    using attempt_submissionD(3) [OF assms(2)] by auto
  obtain b where b: "b \<in> set (attempts d)" "sa_id b = i" "sa_submission_id b = s"
    using assms(3) by (rule holdsE)
  have "a = b" using keys_below_same [OF ledgerD(1) [OF assms(1)] a(1) b(1)] a b by simp
  then show "ms_id r = s" using a b by simp
  with holds_sole [OF assms(1,3)] show "sole i (ms_id r) (attempts d)" by simp
qed

lemma mark_failed_ledger:
  assumes "ledger d" "holds HIPPIUS i s d" "mark_failed env i cls code msg summary d = Inr (x, d')"
  shows "ledger d'"
proof -
  obtain r where r: "attempt_submission i d = Inr (r, d)"
    using assms(3) attempt_submissionD(1) by (force simp: mark_failed_def tx)
  show ?thesis
    by (rule ledger_finish [OF assms(1) attempt_submission_sole(2) [OF assms(1) r assms(2)]])
      (use assms(3) r in \<open>auto simp: mark_failed_def tx upd_sub_def upd_attempt_def
        closes_def open_attempt_def keeps_id_def failed_submission_def\<close>)
qed

lemma mark_retry_ledger:
  assumes "ledger d" "holds HIPPIUS i s d" "mark_retry env i n m cls code msg d = Inr (x, d')"
  shows "ledger d'"
proof -
  obtain r where r: "attempt_submission i d = Inr (r, d)"
    using assms(3) attempt_submissionD(1) by (force simp: mark_retry_def Let_def tx)
  show ?thesis
    by (rule ledger_finish [OF assms(1) attempt_submission_sole(2) [OF assms(1) r assms(2)]])
      (use assms(3) r in \<open>auto simp: mark_retry_def Let_def tx upd_sub_def upd_attempt_def
        closes_def open_attempt_def keeps_id_def split: if_splits\<close>)
qed

lemma attempt_submission_held:
  assumes "ledger d" "holds HIPPIUS i (ms_id r) d" "r \<in> set (submissions d)"
  shows "attempt_submission i d = Inr (r, d)"
proof -
  obtain a where a: "a \<in> set (attempts d)" "sa_id a = i" "sa_submission_id a = ms_id r"
      "sa_stage a = HIPPIUS"
    using assms(2) by (rule holdsE)
  have "find (\<lambda>a. sa_id a = i \<and> sa_stage a = HIPPIUS) (attempts d) = Some a"
  proof (cases "find (\<lambda>a. sa_id a = i \<and> sa_stage a = HIPPIUS) (attempts d)")
    case None
    then show ?thesis using a by (auto simp: find_None_iff)
  next
    case (Some b)
    with find_SomeD [OF this] keys_below_same [OF ledgerD(1) [OF assms(1)] _ a(1)] a(2)
    show ?thesis by auto
  qed
  moreover have "find_sub (ms_id r) d = Some r" by (rule find_sub_known [OF assms(1,3)])
  ultimately show ?thesis by (simp add: attempt_submission_def tx a(3))
qed

lemma record_model_manifest_artifact_frame:
  "record_model_manifest_artifact env r i h uri d = Inr (x, d') \<Longrightarrow>
     attempts d' = attempts d \<and> submissions d' = submissions d \<and> next_id d \<le> next_id d'"
  "record_model_manifest_artifact env r i h uri d \<noteq> Inl e"
  by (auto simp: record_model_manifest_artifact_def tx split: if_splits)

lemma mark_done_ledger:
  assumes "ledger d" "holds HIPPIUS i s d" "mark_done env i summary d = Inr (x, d')"
  shows "ledger d'"
proof -
  obtain r where r: "attempt_submission i d = Inr (r, d)"
    using assms(3) attempt_submissionD(1) by (force simp: mark_done_def Let_def tx)
  show ?thesis
    by (rule ledger_finish [OF assms(1) attempt_submission_sole(2) [OF assms(1) r assms(2)]])
      (use assms(3) r in \<open>auto simp: mark_done_def Let_def tx upd_sub_def upd_attempt_def
        closes_def open_attempt_def keeps_id_def dest!: record_model_manifest_artifact_frame(1)\<close>)
qed

lemma heartbeat_ledger: "ledger d \<Longrightarrow> heartbeat env i l d = Inr (x, d') \<Longrightarrow> ledger d'"
  by (rule ledger_attempts) (auto simp: heartbeat_def tx same_row_def)

lemma closes_expire [simp]: "closes (expire_attempt env)"
  by (simp add: closes_def expire_attempt_def open_attempt_def)

lemma expire_row_idle:
  assumes "sa_submission_id a \<in> set is"
  shows "valid (idle_for is) (expire_row env a) (\<lambda>_. idle_for is)"
proof (rule validI)
  fix d x d' assume pre: "idle_for is d" and run: "expire_row env a d = Inr (x, d')"
  have att: "attempts d' = attempts d" using run by (auto simp: expire_row_def tx upd_sub_def)
  have "ledger d'"
    by (rule ledger_quiet [where d = d])
      (use run pre assms in \<open>auto simp: expire_row_def tx upd_sub_def idle_for_def keeps_id_def\<close>)
  then show "idle_for is d'" using pre att by (simp add: idle_for_def)
qed

lemma sweep_expired_ledger:
  assumes "ledger d" "sweep_expired env d = Inr (n, d')"
  shows "ledger d'"
proof -
  define rows where "rows = hippius_expired env d"
  define as where "as = update_where (\<lambda>a. sa_id a \<in> set (map sa_id rows)) (expire_attempt env) (attempts d)"
  have loop: "tx_for rows (expire_row env) (d\<lparr>attempts := as\<rparr>) = Inr ((), d')"
    using assms(2) by (auto simp: sweep_expired_def tx rows_def as_def)
  have r: "a \<in> set (attempts d) \<and> busy a" if "a \<in> set rows" for a
    using that by (auto simp: rows_def hippius_expired_def busy_def open_attempt_def)
  have "ledger (d\<lparr>attempts := as\<rparr>)"
    by (rule ledger_attempts [OF assms(1)]) (auto simp: as_def intro: disjI1 [OF closes_expire])
  moreover have "idle (sa_submission_id a) as" if "a \<in> set rows" for a
    unfolding as_def by (rule idle_after_close_all [OF assms(1) closes_expire r that])
  ultimately have "idle_for (map sa_submission_id rows) (d\<lparr>attempts := as\<rparr>)"
    by (simp add: idle_for_def)
  then have "idle_for (map sa_submission_id rows) d'"
    by (rule for_invariant [OF loop]) (simp add: expire_row_idle)
  then show ?thesis by (simp add: idle_for_def)
qed

lemma upsert_submission_ledger:
  assumes "ledger d" "upsert_submission row f d = Inr (i, d')"
    and "keeps_id f" "\<And>r. ms_state (f r) = ms_state r"
  shows "ledger d'"
proof (cases "find (\<lambda>r. ms_idempotency_key r = ms_idempotency_key row) (submissions d)")
  case None
  then have d': "d' = d\<lparr>next_id := Suc (next_id d), submissions := submissions d @ [row\<lparr>ms_id := next_id d\<rparr>]\<rparr>"
    and ok: "subs_ok (submissions d @ [row\<lparr>ms_id := next_id d\<rparr>])"
    using assms(2) by (auto simp: upsert_submission_def tx)
  show ?thesis
    by (rule ledgerI) (use ledgerD [OF assms(1)] ok in
      \<open>auto simp: d' intro: keys_below_snoc ledger_ok_snoc_sub\<close>)
next
  case (Some r)
  show ?thesis
    by (rule ledger_quiet [OF assms(1)])
      (use assms(2-) Some in \<open>auto simp: upsert_submission_def tx\<close>)
qed

lemma claim_next_total:
  assumes "ledger d" shows "\<exists>x. claim_next env w l d = Inr x"
proof (cases rule: claim_next_cases [of env d w l])
  case (Row r c)
  then show ?thesis
    using hippius_queue.claim_attempt [OF assms Row(2)] ledger_subs_keys [OF assms]
    by (simp add: claim_next_def tx ins_attempt_def upd_sub_def keeps_keys_def)
qed auto

lemma claim_next_ledger:
  assumes "ledger d" "claim_next env w l d = Inr (x, d')" shows "ledger d'"
proof (cases rule: claim_next_cases [of env d w l])
  case Empty
  then show ?thesis using assms by simp
next
  case (Row r c)
  show ?thesis
    by (rule hippius_queue.claim_ledger [OF assms(1) Row(2)])
      (use assms(2) Row(4) in \<open>auto simp: claim_next_def tx ins_attempt_def upd_sub_def keeps_id_def\<close>)
qed

text \<open>
  From a database whose ledger is in order, \<open>claim_next\<close> never raises (in particular it cannot
  break the index on open attempts), keeps the ledger in order, finds nothing only when nothing is
  claimable, and otherwise takes a submission that comes first in block number, priority and age
  and opens the attempt it returns.
\<close>

theorem claim_next_takes_first:
  assumes "ledger d"
  shows "\<exists>res d'. claim_next env w lease d = Inr (res, d') \<and> ledger d' \<and>
    (case res of
       None \<Rightarrow> hippius_claimable env d = [] \<and> d' = d
     | Some cl \<Rightarrow> (hc_submission cl, hc_commit cl) \<in> set (hippius_claimable env d) \<and>
         (\<forall>x \<in> set (hippius_claimable env d).
            hippius_order (hc_submission cl, hc_commit cl) \<le> hippius_order x) \<and>
         holds HIPPIUS (hc_attempt_id cl) (ms_id (hc_submission cl)) d')"
proof -
  obtain res d' where run: "claim_next env w lease d = Inr (res, d')"
    using claim_next_total [OF assms, of env w lease] by auto
  have "ledger d'" using claim_next_ledger [OF assms run] .
  moreover have "case res of
       None \<Rightarrow> hippius_claimable env d = [] \<and> d' = d
     | Some cl \<Rightarrow> (hc_submission cl, hc_commit cl) \<in> set (hippius_claimable env d) \<and>
         (\<forall>x \<in> set (hippius_claimable env d).
            hippius_order (hc_submission cl, hc_commit cl) \<le> hippius_order x) \<and>
         holds HIPPIUS (hc_attempt_id cl) (ms_id (hc_submission cl)) d'"
  proof (cases rule: claim_next_cases [of env d w lease])
    case Empty
    then show ?thesis using run by simp
  next
    case (Row r c)
    then show ?thesis
      using run by (auto simp: claim_next_def tx ins_attempt_def upd_sub_def holds_def)
  qed
  ultimately show ?thesis using run by blast
qed

lemma mark_done_duplicate:
  assumes "ledger d" and "holds HIPPIUS i (ms_id r) d" and "r \<in> set (submissions d)"
    and "ms_model_hash r = None" and "or_text (text_col (jget ''model_hash'' summary)) None = Some h"
    and "q \<in> set (submissions d)" and "ms_id q \<noteq> ms_id r" and "ms_model_hash q = Some h"
  shows "\<exists>e. mark_done env i summary d = Inl (UniqueViolation e)"
proof -
  have att: "attempt_submission i d = Inr (r, d)"
    by (rule attempt_submission_held [OF assms(1-3)])
  have hash: "or_text (text_col (jget ''model_hash'' summary)) x = Some h" for x
    using assms(5) by (auto simp: or_text_def split: option.splits if_splits)
  define g where "g = (\<lambda>s. (clear_fault s)\<lparr>ms_state := HIPPIUS_VALIDATED,
    ms_model_hash := coalesce (ms_model_hash s) (Some h), ms_retry_count := 0,
    ms_updated_at := se_now env\<rparr>)"
  have clash: "\<not> subs_ok (update_where (\<lambda>s. ms_id s = ms_id r) g (submissions d))"
  proof
    assume ok: "subs_ok (update_where (\<lambda>s. ms_id s = ms_id r) g (submissions d))"
    have u: "unique_by ms_model_hash (update_where (\<lambda>s. ms_id s = ms_id r) g (submissions d))"
      using ok by (simp add: subs_ok_def)
    have "g r \<in> set (update_where (\<lambda>s. ms_id s = ms_id r) g (submissions d))"
      "q \<in> set (update_where (\<lambda>s. ms_id s = ms_id r) g (submissions d))"
      using assms(3,6,7) by (force simp: in_update_where)+
    moreover have "ms_model_hash (g r) = Some h" by (simp add: g_def assms(4))
    ultimately have "g r = q"
      using unique_by_same [OF u] assms(8) by simp
    then have "ms_id q = ms_id r" by (auto simp: g_def)
    then show False using assms(7) by simp
  qed
  show ?thesis
  proof (cases "mark_done env i summary d")
    case (Inl e)
    then show ?thesis
      using att record_model_manifest_artifact_frame(2)
      by (auto simp: mark_done_def Let_def tx upd_sub_def upd_attempt_def)
  next
    case (Inr x)
    then show ?thesis
      using att clash record_model_manifest_artifact_frame(1)
      by (auto simp: mark_done_def Let_def tx upd_sub_def upd_attempt_def hash g_def)
  qed
qed

lemma mark_failed_outcome:
  assumes "ledger d" and "holds HIPPIUS i (ms_id r) d" and "r \<in> set (submissions d)"
  obtains d' where "mark_failed env i cls code msg summary d = Inr ((), d')" "ledger d'"
    "submissions d' = update_where (\<lambda>s. ms_id s = ms_id r) (failed_submission env cls code msg)
       (submissions d)"
    "artifacts d' = artifacts d" "miners d' = miners d" "commits d' = commits d"
    "sanity_results d' = sanity_results d"
proof -
  have "attempts_ok (update_where p f (attempts d))" if "closes f" for p f
    using that ledgerD(3) [OF assms(1)] by (simp add: attempts_ok_update)
  then obtain d' where d': "mark_failed env i cls code msg summary d = Inr ((), d')"
      "submissions d' = update_where (\<lambda>s. ms_id s = ms_id r) (failed_submission env cls code msg)
        (submissions d)"
      "artifacts d' = artifacts d" "miners d' = miners d" "commits d' = commits d"
      "sanity_results d' = sanity_results d"
    using attempt_submission_held [OF assms] ledger_subs_keys [OF assms(1)]
    by (simp add: mark_failed_def tx upd_sub_def upd_attempt_def closes_def keeps_keys_def
      open_attempt_def failed_submission_def)
  then show thesis
    using mark_failed_ledger [OF assms(1,2) d'(1)] that by blast
qed

text \<open>
  When the digest a validation reports already belongs to another submission, \<open>_finalize\<close> turns
  the unique violation of \<open>mark_done\<close> into a terminal miner fault \<open>duplicate\<close>: the rolled back
  transaction leaves no manifest artifact, and no other submission changes.
\<close>

theorem finalize_records_duplicate:
  fixes cl :: hippius_claim and summary :: json
  assumes "ledger d" and "holds HIPPIUS (hc_attempt_id cl) (ms_id r) d" and "r \<in> set (submissions d)"
    and "ms_model_hash r = None" and "or_text (text_col (jget ''model_hash'' summary)) None = Some h"
    and "q \<in> set (submissions d)" and "ms_id q \<noteq> ms_id r" and "ms_model_hash q = Some h"
  shows "\<exists>d'. finalize env max_attempts max_fails cl uri (Done summary) d = (Inr (), d') \<and>
    ledger d' \<and> artifacts d' = artifacts d \<and>
    submissions d' = update_where (\<lambda>s. ms_id s = ms_id r)
      (failed_submission env MINER_FAULT ''duplicate''
          ''exact duplicate: this model's digest already belongs to another submission'')
      (submissions d)"
proof -
  obtain e where "mark_done env (hc_attempt_id cl) summary d = Inl (UniqueViolation e)"
    using mark_done_duplicate [OF assms] by auto
  moreover obtain d' where "mark_failed env (hc_attempt_id cl) MINER_FAULT ''duplicate''
      ''exact duplicate: this model's digest already belongs to another submission'' summary d
        = Inr ((), d')" "ledger d'" "artifacts d' = artifacts d"
      "submissions d' = update_where (\<lambda>s. ms_id s = ms_id r)
        (failed_submission env MINER_FAULT ''duplicate''
          ''exact duplicate: this model's digest already belongs to another submission'')
        (submissions d)"
    by (rule mark_failed_outcome [OF assms(1-3)])
  ultimately show ?thesis
    by (simp add: finalize_def run_tx_def)
qed

lemma length_filter_update_one:
  assumes "distinct (map key rs)" "r \<in> set rs" "\<not> p r" "p (f r)"
  shows "length (filter p (update_where (\<lambda>s. key s = key r) f rs)) = Suc (length (filter p rs))"
  using assms
proof (induction rs)
  case (Cons q rs)
  show ?case
  proof (cases "q = r")
    case True
    then have "update_where (\<lambda>s. key s = key r) f rs = rs"
      using Cons.prems(1) by (intro update_where_id) (metis True distinct.simps(2) image_eqI list.simps(9) set_map)
    then show ?thesis using True Cons.prems by (simp add: update_where_Cons)
  next
    case False
    then have "r \<in> set rs" "key q \<noteq> key r" using Cons.prems(1,2) by auto
    then show ?thesis using Cons by (auto simp: update_where_Cons)
  qed
qed simp

lemma failed_submission_strike:
  assumes "ledger d" "r \<in> set (submissions d)" "\<not> is_strike r"
    and "code \<notin> set strike_excluded_codes"
    and "submissions d' = update_where (\<lambda>s. ms_id s = ms_id r)
      (failed_submission env MINER_FAULT code msg) (submissions d)"
  shows "hotkey_preeval_fail_count (ms_hotkey r) d' = Suc (hotkey_preeval_fail_count (ms_hotkey r) d)"
  unfolding hotkey_preeval_fail_count_def assms(5)
  by (rule length_filter_update_one)
    (use assms in \<open>auto simp: keys_below_distinct [OF ledgerD(2)] is_strike_def failed_submission_def\<close>)

text \<open>
  C9. A miner fault with a counted code adds exactly one strike to the hotkey, and once the strikes
  reach the limit the admission check rejects every later claim of the same hotkey.
\<close>

theorem rejection_counts_strike:
  fixes cl :: hippius_claim
  assumes "ledger d" and "holds HIPPIUS (hc_attempt_id cl) (ms_id r) d" and "r \<in> set (submissions d)"
    and "code \<notin> set strike_excluded_codes"
  shows "\<exists>d'. finalize env max_attempts max_fails cl uri (Rejected MINER_FAULT code msg summary) d
      = (Inr (), d') \<and> ledger d' \<and>
    hotkey_preeval_fail_count (ms_hotkey r) d' = Suc (hotkey_preeval_fail_count (ms_hotkey r) d) \<and>
    (max_fails \<le> Suc (hotkey_preeval_fail_count (ms_hotkey r) d) \<longrightarrow>
      (\<forall>again. ms_hotkey (hc_submission again) = ms_hotkey r \<longrightarrow> admission max_fails again d' \<noteq> None))"
proof -
  define msg' where "msg' = (if code \<noteq> ''duplicate''
    then msg @ ban_suffix (hotkey_preeval_fail_count (ms_hotkey (hc_submission cl)) d + 1) max_fails else msg)"
  obtain d' where d': "mark_failed env (hc_attempt_id cl) MINER_FAULT code msg'
      (jmerge summary (JObj [(''fault_uri'', uri)])) d = Inr ((), d')" "ledger d'"
    "submissions d' = update_where (\<lambda>s. ms_id s = ms_id r)
       (failed_submission env MINER_FAULT code msg') (submissions d)"
    by (rule mark_failed_outcome [OF assms(1-3)])
  have "ms_state r = HIPPIUS_RUNNING" using holds_state [OF assms(1,2,3)] by simp
  then have "\<not> is_strike r" by (simp add: is_strike_def)
  note count = failed_submission_strike [OF assms(1,3) this assms(4) d'(3)]
  moreover have "admission max_fails again d' \<noteq> None"
    if "max_fails \<le> hotkey_preeval_fail_count (ms_hotkey r) d'" "ms_hotkey (hc_submission again) = ms_hotkey r"
    for again using that by (auto simp: admission_def Let_def split: option.splits)
  ultimately show ?thesis
    using d' by (auto simp: finalize_def Let_def run_tx_def msg'_def)
qed

lemma upsert_miner_row_frame:
  "upsert_miner_row t k d = Inr (x, d') \<Longrightarrow>
     attempts d' = attempts d \<and> submissions d' = submissions d \<and> next_id d \<le> next_id d'"
  by (cases k) (auto simp: upsert_miner_row_def tx split: option.splits)

lemma upsert_miners_ledger: "valid ledger (upsert_miners t cs) (\<lambda>_. ledger)"
  unfolding upsert_miners_def Let_def
  by (auto simp: valid_def tx elim!: for_invariant split: if_splits
      dest!: upsert_miner_row_frame intro: ledger_frame)

lemma enqueue_commit_ledger: "valid ledger (enqueue_commit t cm) (\<lambda>_. ledger)"
proof (rule validI)
  fix d x d' assume "ledger d" and run: "enqueue_commit t cm d = Inr (x, d')"
  obtain c m where cm: "cm = (c, m)" by force
  from run obtain i d1 where "upsert_submission
      (new_submission t (mi_id m) (cc_id c) (cc_netuid c) (cc_uid c) (cc_hotkey c)
         (cc_model_uri c) (text_col (jget ''digest'' (cc_payload c))) SUBMITTED
         (chain_key (cc_netuid c) (cc_hotkey c) (cc_payload_hash c)))
      (\<lambda>r. r\<lparr>ms_miner_id := Some (mi_id m), ms_chain_commit_id := cc_id c,
         ms_uid := cc_uid c, ms_model_uri := cc_model_uri c, ms_updated_at := t\<rparr>) d = Inr (i, d1)"
    and d': "attempts d' = attempts d1" "submissions d' = submissions d1" "next_id d' = next_id d1"
    by (auto simp: enqueue_commit_def cm tx)
  from upsert_submission_ledger [OF \<open>ledger d\<close> this(1)] have "ledger d1"
    by (simp add: keeps_id_def)
  then show "ledger d'" by (rule ledger_frame) (simp_all add: d')
qed

lemma enqueue_from_commits_ledger:
  assumes "ledger d" "enqueue_from_commits env netuid d = Inr (n, d')" shows "ledger d'"
proof -
  obtain d1 where d1: "upsert_miners (se_now env) (pending_commits netuid d) d = Inr ((), d1)"
    and loop: "tx_for (enqueueable d netuid) (enqueue_commit (se_now env)) d1 = Inr ((), d')"
    using assms(2) by (auto simp: enqueue_from_commits_def tx)
  have "ledger d1" by (rule validD [OF upsert_miners_ledger d1 assms(1)])
  then show ?thesis by (rule for_invariant [OF loop]) (rule enqueue_commit_ledger)
qed

lemma run_tx_ledger:
  assumes "ledger d" "\<And>x t. m d = Inr (x, t) \<Longrightarrow> ledger t"
  shows "ledger (snd (run_tx m d))"
  using assms by (auto simp: run_tx_def split: sum.splits prod.splits)

lemma finalize_ledger:
  assumes "ledger d" "holds HIPPIUS (hc_attempt_id cl) s d"
  shows "ledger (snd (finalize env max_attempts max_fails cl uri out d))"
proof -
  let ?i = "hc_attempt_id cl"
  have done': "ledger (snd (run_tx (mark_done env ?i j) d))" for j
    by (rule run_tx_ledger [OF assms(1)]) (rule mark_done_ledger [OF assms])
  have failed: "ledger (snd (run_tx (mark_failed env ?i c k m j) d))" for c k m j
    by (rule run_tx_ledger [OF assms(1)]) (rule mark_failed_ledger [OF assms])
  have retry: "ledger (snd (run_tx (mark_retry env ?i n x c k m) d))" for n x c k m
    by (rule run_tx_ledger [OF assms(1)]) (rule mark_retry_ledger [OF assms])
  have undone: "d' = d" if "run_tx (mark_done env ?i j) d = (Inl e, d')" for j e d'
    using that by (auto simp: run_tx_def split: sum.splits)
  show ?thesis
  proof (cases out)
    case (Done j)
    obtain res d' where r: "run_tx (mark_done env ?i j) d = (res, d')" by force
    with done' [of j] have "ledger d'" by simp
    moreover have "d' = d" if "res = Inl e" for e using undone r that by simp
    ultimately show ?thesis
      using r failed by (auto simp: Done finalize_def split: sum.splits db_error.splits)
  next
    case (Retryable c k m)
    obtain res d' where r: "run_tx (mark_retry env ?i (hc_attempt_number cl) max_attempts c k m) d = (res, d')"
      by force
    with retry have "ledger d'" by (metis snd_conv)
    then show ?thesis using r by (auto simp: Retryable finalize_def split: sum.splits)
  next
    case (Rejected c k m j)
    then show ?thesis using failed by (simp add: finalize_def Let_def)
  qed
qed

end
