(* ===== verification/PreEval.thy ===== *)
theory PreEval
  imports Validation
begin

text \<open>
  The stability pre-evaluation queue: src/src/sanity_service/db.py. Requests to the remote worker
  are arguments: a claim stores the snapshot a request builder gives.
\<close>

definition fail_suffix :: "string \<Rightarrow> nat \<Rightarrow> nat \<Rightarrow> string" where
  "fail_suffix msg fails max_fails =
     (if blocking_reason msg then dash @ ''this verdict blocks the hotkey from further submissions''
      else let left = max_fails - fails
        in if 0 < left
           then dash @ ''hotkey has '' @ show_nat left @ '' validation strike(s) left before ban''
           else dash @ ''hotkey has 0 validation strikes left and is now banned from further submissions'')"

section \<open>Claiming\<close>

definition pre_eval_claimable :: "sess \<Rightarrow> nat \<Rightarrow> db \<Rightarrow> submission list" where
  "pre_eval_claimable env max_retry d = filter (\<lambda>r.
     (ms_state r = HIPPIUS_VALIDATED \<or> ms_state r = PRE_EVAL_RETRYABLE) \<and>
     ms_retry_count r < max_retry \<and>
     (case find_commit (ms_chain_commit_id r) d of None \<Rightarrow> False
      | Some c \<Rightarrow> cc_block_hash c \<noteq> None) \<and>
     se_free env (ms_id r)) (submissions d)"

definition queue_order :: "submission \<Rightarrow> int \<times> int" where
  "queue_order r = (ms_priority r, ms_created_at r)"

text \<open>ORDER BY free_gpu_count DESC, last_heartbeat_at DESC: NULLs come first in a DESC order.\<close>

definition host_order :: "host \<Rightarrow> int \<times> int \<times> int" where
  "host_order h = (- rh_free_gpu_count h,
     (case rh_last_heartbeat_at h of None \<Rightarrow> (0, 0) | Some t \<Rightarrow> (1, - t)))"

definition ready_host :: "sess \<Rightarrow> stage \<Rightarrow> int \<Rightarrow> db \<Rightarrow> host option" where
  "ready_host env role gpus d = limit1 (sort_key host_order (filter (\<lambda>h. rh_role h = role \<and>
     rh_state h = HOST_READY \<and> gpus \<le> rh_free_gpu_count h \<and> se_free env (rh_key h)) (hosts d)))"

record pre_eval_claim =
  pc_submission_id :: nat
  pc_attempt_id :: nat
  pc_host :: host
  pc_request :: json

definition claim_pre_eval_row ::
  "sess \<Rightarrow> string \<Rightarrow> int \<Rightarrow> (submission \<Rightarrow> host \<Rightarrow> nat \<Rightarrow> json) \<Rightarrow> submission \<Rightarrow> host \<Rightarrow>
     (db, pre_eval_claim option) tx" where
  "claim_pre_eval_row env worker lease builder r h =
     tx_bind (tx_gets (next_attempt_number (ms_id r) PRE_EVAL)) (\<lambda>n.
     tx_bind tx_fresh (\<lambda>i.
     let request = builder r h i
     in tx_then (ins_attempt (new_attempt i (ms_id r) PRE_EVAL n worker
          (Some (se_clock env + lease)) (se_now env)
          (jmerge (JObj [(''host_id'', JStr (rh_id h))]) request)))
       (tx_then (upd_sub (ms_id r) (\<lambda>s. (clear_fault s)\<lparr>ms_state := PRE_EVAL_RUNNING,
          ms_updated_at := se_now env\<rparr>))
       (tx_then (ins_event (Some (ms_id r)) (Some i) ''pre_eval_claimed'' INFO
          (''Pre-eval claimed by '' @ worker @ '' on host '' @ rh_id h)
          (JObj [(''host_id'', JStr (rh_id h))]))
       (tx_return (Some \<lparr>pc_submission_id = ms_id r, pc_attempt_id = i, pc_host = h,
          pc_request = request\<rparr>))))))"

definition claim_next_pre_eval ::
  "sess \<Rightarrow> int \<Rightarrow> nat \<Rightarrow> string \<Rightarrow> int \<Rightarrow> (submission \<Rightarrow> host \<Rightarrow> nat \<Rightarrow> json) \<Rightarrow>
     (db, pre_eval_claim option) tx" where
  "claim_next_pre_eval env min_free_gpus max_retry worker lease builder =
     (if \<not> se_lock env then tx_return None
      else tx_bind (tx_gets (\<lambda>d. (limit1 (sort_key queue_order (pre_eval_claimable env max_retry d)),
          ready_host env PRE_EVAL min_free_gpus d)))
        (\<lambda>(row, host). case row of None \<Rightarrow> tx_return None
         | Some r \<Rightarrow> (case host of None \<Rightarrow> tx_return None
           | Some h \<Rightarrow> claim_pre_eval_row env worker lease builder r h)))"

definition heartbeat_attempt :: "sess \<Rightarrow> nat \<Rightarrow> int \<Rightarrow> (db, unit) tx" where
  "heartbeat_attempt env i lease = stmt_attempts (update_where
     (\<lambda>a. sa_id a = i \<and> sa_state a = SA_RUNNING)
     (\<lambda>a. a\<lparr>sa_lease_expires_at := Some (se_clock env + lease)\<rparr>))"

text \<open>\<open>str(event.get("message") or event.get("type") or default)\<close> on text values.\<close>

definition event_message :: "json \<Rightarrow> string \<Rightarrow> string" where
  "event_message e v = (case or_text (text_col (jget ''message'' e))
       (or_text (text_col (jget ''type'' e)) None) of None \<Rightarrow> v | Some m \<Rightarrow> m)"

definition event_type_text :: "json \<Rightarrow> string" where
  "event_type_text e = ''remote_'' @
     (case text_col (jget_or (JStr ''event'') ''type'' e) of None \<Rightarrow> ''None'' | Some t \<Rightarrow> t)"

definition record_pre_eval_event :: "nat \<Rightarrow> nat \<Rightarrow> json \<Rightarrow> (db, unit) tx" where
  "record_pre_eval_event sub i e = ins_event (Some sub) (Some i) (event_type_text e) INFO
     (event_message e ''remote event'') e"

record active_pre_eval =
  ap_submission_id :: nat
  ap_attempt_id :: nat
  ap_host :: host
  ap_repo :: json
  ap_digest :: json
  ap_prompts :: json

definition list_reconcilable_pre_eval :: "nat \<Rightarrow> db \<Rightarrow> active_pre_eval list" where
  "list_reconcilable_pre_eval limit d = take limit
     (List.map_filter (\<lambda>a. case find (\<lambda>h. Some (rh_id h) =
           text_col (jget ''host_id'' (sa_input_snapshot a))) (hosts d) of
         None \<Rightarrow> None
       | Some h \<Rightarrow> Some \<lparr>ap_submission_id = sa_submission_id a, ap_attempt_id = sa_id a, ap_host = h,
           ap_repo = jget_or (JStr []) ''model_uri'' (sa_input_snapshot a),
           ap_digest = jget_or (JStr []) ''digest'' (sa_input_snapshot a),
           ap_prompts = jget_or (JList []) ''prompts'' (sa_input_snapshot a)\<rparr>)
       (sort_key (\<lambda>a. case sa_started_at a of None \<Rightarrow> (1, 0) | Some t \<Rightarrow> (0::int, t))
         (filter (\<lambda>a. sa_stage a = PRE_EVAL \<and> sa_state a = SA_RUNNING \<and>
            sub_in_state (sa_submission_id a) PRE_EVAL_RUNNING d) (attempts d))))"

section \<open>Finishing\<close>

text \<open>INSERT INTO sanity_results ... ON CONFLICT (digest) DO NOTHING.\<close>

definition write_sanity_result ::
  "sess \<Rightarrow> string \<Rightarrow> string \<Rightarrow> bool \<Rightarrow> string \<Rightarrow> json \<Rightarrow> json \<Rightarrow> (db, unit) tx" where
  "write_sanity_result env repo digest passed reason responses timing =
     stmt_sanity (\<lambda>rs. if list_ex (\<lambda>r. sr_digest r = digest) rs then rs
       else rs @ [\<lparr>sr_repo = repo, sr_digest = digest, sr_passed = passed, sr_reason = reason,
         sr_responses = responses, sr_timing = timing, sr_checked_at = se_now env\<rparr>])"

definition insert_sanity_artifact :: "sess \<Rightarrow> nat \<Rightarrow> nat \<Rightarrow> string \<Rightarrow> (db, unit) tx" where
  "insert_sanity_artifact env sub i uri =
     (let rest = removeprefix ''s3://'' uri;
          s3 = starts_with ''s3://'' uri;
          bucket = (if s3 then Some (before_first (CHR ''/'') rest) else None);
          key = (if s3 then Some (after_first (CHR ''/'') rest) else None)
      in tx_bind tx_fresh (\<lambda>k. ins_artifact
        \<lparr>ar_id = k, ar_submission_id = Some sub, ar_attempt_id = Some i,
         ar_type = ''SANITY_RESULT'', ar_backend = ''s3'', ar_uri = uri,
         ar_bucket = or_text bucket None, ar_object_key = or_text key None, ar_sha256 = None,
         ar_size_bytes = None, ar_content_type = Some ''application/json'',
         ar_created_at = se_now env\<rparr>))"

definition mark_pre_eval_passed ::
  "sess \<Rightarrow> nat \<Rightarrow> nat \<Rightarrow> string \<Rightarrow> string \<Rightarrow> json \<Rightarrow> string \<Rightarrow> json \<Rightarrow> (db, unit) tx" where
  "mark_pre_eval_passed env sub i repo digest responses reason timing = tx_seq
     [write_sanity_result env repo digest True reason responses timing,
      upd_attempt i (\<lambda>a. a\<lparr>sa_state := SA_SUCCEEDED, sa_finished_at := Some (se_now env),
        sa_result_summary := JObj [(''passed'', JBool True), (''reason'', JStr reason)]\<rparr>),
      upd_sub sub (\<lambda>s. s\<lparr>ms_state := PRE_EVAL_PASSED, ms_retry_count := 0,
        ms_updated_at := se_now env\<rparr>),
      ins_event (Some sub) (Some i) ''pre_eval_passed'' INFO ''Pre-eval passed'' (JObj [])]"

text \<open>The strikes of the submission's hotkey, this failure included, as the fault message counts them.\<close>

definition strikes_with_this :: "nat \<Rightarrow> db \<Rightarrow> nat" where
  "strikes_with_this sub d = (case find_sub sub d of None \<Rightarrow> 1
     | Some r \<Rightarrow> hotkey_preeval_fail_count (ms_hotkey r) d + 1)"

definition pre_eval_failed_state :: "bool \<Rightarrow> nat \<Rightarrow> submission \<Rightarrow> sub_state" where
  "pre_eval_failed_state retryable max_retry s =
     (if retryable \<and> max_retry \<le> ms_retry_count s + 1 then TERMINAL_INVALID
      else if retryable then PRE_EVAL_RETRYABLE else TERMINAL_INVALID)"

text \<open>The verdict of a failure that is not retried: its sanity result and the artifact, if any.\<close>

definition record_failed_sanity ::
  "sess \<Rightarrow> nat \<Rightarrow> nat \<Rightarrow> string \<Rightarrow> string \<Rightarrow> string \<Rightarrow> json option \<Rightarrow> string option \<Rightarrow>
     (db, unit) tx" where
  "record_failed_sanity env sub i repo digest msg responses artifact_uri = tx_then
     (write_sanity_result env repo digest False msg
        (case responses of None \<Rightarrow> JList [] | Some r \<Rightarrow> r) (JObj []))
     (case or_text artifact_uri None of None \<Rightarrow> tx_return ()
      | Some uri \<Rightarrow> insert_sanity_artifact env sub i uri)"

definition mark_pre_eval_failed ::
  "sess \<Rightarrow> nat \<Rightarrow> nat \<Rightarrow> nat \<Rightarrow> nat \<Rightarrow> string \<Rightarrow> string \<Rightarrow> fault_class \<Rightarrow> string \<Rightarrow> string \<Rightarrow> bool \<Rightarrow>
     json option \<Rightarrow> string option \<Rightarrow> (db, unit) tx" where
  "mark_pre_eval_failed env max_retry max_fails sub i repo digest cls code message retryable
      responses artifact_uri =
     tx_bind (tx_gets (strikes_with_this sub)) (\<lambda>fails.
     let msg = (if \<not> retryable \<and> cls = MINER_FAULT
           then message @ fail_suffix message fails max_fails else message)
     in tx_seq
       [tx_when (\<not> retryable) (record_failed_sanity env sub i repo digest msg responses artifact_uri),
        upd_attempt i (\<lambda>a. a\<lparr>sa_state := (if retryable then SA_FAILED_RETRYABLE
            else SA_FAILED_TERMINAL), sa_finished_at := Some (se_now env),
          sa_fault_class := Some cls, sa_fault_code := Some code, sa_fault_message := Some msg\<rparr>),
        upd_sub sub (\<lambda>s. (set_fault cls code msg s)
          \<lparr>ms_state := pre_eval_failed_state retryable max_retry s,
           ms_retry_count := Suc (ms_retry_count s), ms_updated_at := se_now env\<rparr>),
        ins_event (Some sub) (Some i) ''pre_eval_failed'' ERROR msg
          (JObj [(''fault_class'', fault_json cls), (''fault_code'', JStr code),
                 (''retryable'', JBool retryable)])])"

definition release_pre_eval_attempt :: "sess \<Rightarrow> nat \<Rightarrow> nat \<Rightarrow> string \<Rightarrow> (db, unit) tx" where
  "release_pre_eval_attempt env sub i msg = tx_seq
     [upd_attempt i (\<lambda>a. a\<lparr>sa_state := SA_FAILED_RETRYABLE, sa_finished_at := Some (se_now env),
        sa_fault_class := Some INFRA_FAULT, sa_fault_code := Some ''worker_busy'',
        sa_fault_message := Some msg\<rparr>),
      stmt_subs (update_where (\<lambda>s. ms_id s = sub \<and> ms_state s = PRE_EVAL_RUNNING)
        (\<lambda>s. s\<lparr>ms_state := HIPPIUS_VALIDATED, ms_updated_at := se_now env\<rparr>))]"

section \<open>The sweep\<close>

definition pre_eval_abandoned :: "sess \<Rightarrow> db \<Rightarrow> (attempt \<times> submission) list" where
  "pre_eval_abandoned env d = List.map_filter (\<lambda>a. case find_sub (sa_submission_id a) d of
       None \<Rightarrow> None
     | Some s \<Rightarrow> if ms_state s = PRE_EVAL_RUNNING \<and> se_free env (ms_id s) then Some (a, s) else None)
     (filter (\<lambda>a. sa_stage a = PRE_EVAL \<and> sa_state a = SA_RUNNING \<and>
        lease_expired (se_now env) a \<and> se_free env (sa_id a)) (attempts d))"

definition abandon_pre_eval ::
  "sess \<Rightarrow> nat \<Rightarrow> string \<Rightarrow> attempt \<times> submission \<Rightarrow> (db, unit) tx" where
  "abandon_pre_eval env max_retry worker = (\<lambda>(a, s).
     let exhausted = max_retry \<le> ms_retry_count s + 1;
         next_state = (if exhausted then TERMINAL_INVALID else PRE_EVAL_RETRYABLE);
         msg = ''lease expired before completion''
     in tx_seq
       [upd_attempt (sa_id a) (\<lambda>x. x\<lparr>sa_state := SA_ABANDONED,
          sa_finished_at := Some (se_now env), sa_fault_class := Some INFRA_FAULT,
          sa_fault_code := Some ''pre_eval_lease_expired'', sa_fault_message := Some msg\<rparr>),
        upd_sub (ms_id s) (\<lambda>x. (set_fault INFRA_FAULT ''pre_eval_lease_expired'' msg x)
          \<lparr>ms_state := next_state, ms_retry_count := Suc (ms_retry_count x),
           ms_updated_at := se_now env\<rparr>),
        ins_event (Some (ms_id s)) (Some (sa_id a)) ''pre_eval_abandoned'' WARN
          (''Pre-eval lease expired before completion (-> '' @
             (if exhausted then ''TERMINAL_INVALID'' else ''PRE_EVAL_RETRYABLE'') @ '')'')
          (JObj [(''worker_id'', JStr worker), (''exhausted'', JBool exhausted)])])"

definition sweep_abandoned_pre_eval :: "sess \<Rightarrow> nat \<Rightarrow> string \<Rightarrow> (db, nat) tx" where
  "sweep_abandoned_pre_eval env max_retry worker =
     tx_bind (tx_gets (pre_eval_abandoned env)) (\<lambda>rows.
       tx_then (tx_for rows (abandon_pre_eval env max_retry worker)) (tx_return (length rows)))"

section \<open>The pre-evaluation stage keeps the ledger in order\<close>

lemma set_pre_eval_claimable:
  "r \<in> set (pre_eval_claimable env n d) \<Longrightarrow>
     r \<in> set (submissions d) \<and> ms_state r \<in> set [HIPPIUS_VALIDATED, PRE_EVAL_RETRYABLE] \<and>
     ms_retry_count r < n"
  by (auto simp: pre_eval_claimable_def)

interpretation pre_eval_queue: stage_queue PRE_EVAL PRE_EVAL_RUNNING
  "[HIPPIUS_VALIDATED, PRE_EVAL_RETRYABLE]" "\<lambda>env d. pre_eval_claimable env n d"
  by unfold_locales (auto elim: running_state.elims dest: set_pre_eval_claimable)

lemma claim_next_pre_eval_cases:
  obtains (Idle) "claim_next_pre_eval env gpus n w lease f d = Inr (None, d)"
    "\<not> se_lock env \<or> pre_eval_claimable env n d = [] \<or> ready_host env PRE_EVAL gpus d = None"
  | (Row) r h where "se_lock env" "r \<in> set (pre_eval_claimable env n d)"
      "\<And>x. x \<in> set (pre_eval_claimable env n d) \<Longrightarrow> queue_order r \<le> queue_order x"
      "ready_host env PRE_EVAL gpus d = Some h"
      "claim_next_pre_eval env gpus n w lease f d = claim_pre_eval_row env w lease f r h d"
proof (cases "se_lock env")
  case False
  then show thesis using Idle by (simp add: claim_next_pre_eval_def tx)
next
  case lock: True
  show thesis
  proof (cases "limit1 (sort_key queue_order (pre_eval_claimable env n d))")
    case None
    then have "pre_eval_claimable env n d = []" by (metis limit1_None set_empty set_sort)
    then show thesis using Idle lock by (simp add: claim_next_pre_eval_def tx)
  next
    case r: (Some r)
    show thesis
    proof (cases "ready_host env PRE_EVAL gpus d")
      case None
      then show thesis using Idle lock r by (simp add: claim_next_pre_eval_def tx)
    next
      case (Some h)
      have "claim_next_pre_eval env gpus n w lease f d = claim_pre_eval_row env w lease f r h d"
        using lock r Some by (simp add: claim_next_pre_eval_def tx_bind_def tx_gets_def)
      moreover have "r \<in> set (pre_eval_claimable env n d)" using limit1_Some [OF r] by simp
      ultimately show thesis
        using Row [OF lock _ limit1_sort_key_least [OF r] Some] by blast
    qed
  qed
qed

lemma claim_pre_eval_row_total:
  assumes "ledger d" "r \<in> set (pre_eval_claimable env n d)"
  shows "\<exists>x. claim_pre_eval_row env w lease f r h d = Inr x"
  using pre_eval_queue.claim_attempt [OF assms] ledger_subs_keys [OF assms(1)]
  by (simp add: claim_pre_eval_row_def Let_def tx ins_attempt_def upd_sub_def keeps_keys_def)

lemma claim_pre_eval_row_ledger:
  assumes "ledger d" "r \<in> set (pre_eval_claimable env n d)"
    "claim_pre_eval_row env w lease f r h d = Inr (x, d')"
  shows "ledger d'"
  by (rule pre_eval_queue.claim_ledger [OF assms(1,2)])
    (use assms(3) in \<open>auto simp: claim_pre_eval_row_def Let_def tx ins_attempt_def upd_sub_def keeps_id_def\<close>)

lemma claim_next_pre_eval_ledger:
  assumes "ledger d" "claim_next_pre_eval env gpus n w lease f d = Inr (x, d')"
  shows "ledger d'"
  using assms claim_pre_eval_row_ledger
  by (cases rule: claim_next_pre_eval_cases [of env gpus n w lease f d]) auto

lemma heartbeat_attempt_ledger: "ledger d \<Longrightarrow> heartbeat_attempt env i l d = Inr (x, d') \<Longrightarrow> ledger d'"
  by (rule ledger_attempts) (auto simp: heartbeat_attempt_def tx same_row_def)

lemma record_pre_eval_event_frame: "keeps same_ledger (record_pre_eval_event s i e)"
  unfolding record_pre_eval_event_def by (rule ledger_frame_rules)

lemma write_sanity_result_frame: "keeps same_ledger (write_sanity_result env repo dg p why resp tim)"
  unfolding write_sanity_result_def by (rule ledger_frame_rules)

lemma insert_sanity_artifact_frame: "keeps same_ledger (insert_sanity_artifact env s i uri)"
  unfolding insert_sanity_artifact_def Let_def by (intro ledger_frame_rules)

lemma mark_pre_eval_passed_ledger:
  assumes "ledger d" "holds PRE_EVAL i s d"
    "mark_pre_eval_passed env s i repo dg resp why tim d = Inr (x, d')"
  shows "ledger d'"
proof -
  obtain d1 where d1: "write_sanity_result env repo dg True why resp tim d = Inr ((), d1)"
    using assms(3) by (auto simp: mark_pre_eval_passed_def tx)
  then have fr: "same_ledger d d1" using write_sanity_result_frame by (auto simp: keeps_def)
  show ?thesis
    by (rule ledger_finish [OF assms(1) holds_sole [OF assms(1,2)]])
      (use assms(3) d1 fr in \<open>auto simp: mark_pre_eval_passed_def tx upd_sub_def upd_attempt_def
        closes_def open_attempt_def keeps_id_def same_ledger_def\<close>)
qed

lemma record_failed_sanity_frame:
  "keeps same_ledger (record_failed_sanity env s i repo dg msg resp uri)"
  unfolding record_failed_sanity_def
  by (auto intro!: ledger_frame_rules write_sanity_result_frame insert_sanity_artifact_frame
      split: option.split)

lemma mark_pre_eval_failed_effect:
  assumes "mark_pre_eval_failed env mr mf s i repo dg cls code m retryable resp uri d = Inr (x, d')"
  obtains msg where
    "attempts d' = update_where (\<lambda>a. sa_id a = i) (\<lambda>a. a\<lparr>sa_state := (if retryable
        then SA_FAILED_RETRYABLE else SA_FAILED_TERMINAL), sa_finished_at := Some (se_now env),
      sa_fault_class := Some cls, sa_fault_code := Some code, sa_fault_message := Some msg\<rparr>) (attempts d)"
    "submissions d' = update_where (\<lambda>r. ms_id r = s) (\<lambda>r. (set_fault cls code msg r)
      \<lparr>ms_state := pre_eval_failed_state retryable mr r,
       ms_retry_count := Suc (ms_retry_count r), ms_updated_at := se_now env\<rparr>) (submissions d)"
    "subs_ok (submissions d')" "next_id d \<le> next_id d'"
proof -
  define msg where "msg = (if \<not> retryable \<and> cls = MINER_FAULT
    then m @ fail_suffix m (strikes_with_this s d) mf else m)"
  obtain d1 where d1: "tx_when (\<not> retryable)
      (record_failed_sanity env s i repo dg msg resp uri) d = Inr ((), d1)"
    using assms by (auto simp: mark_pre_eval_failed_def Let_def tx_bind_simps tx_gets_simps
      tx_then_simps msg_def)
  moreover have "keeps same_ledger (tx_when (\<not> retryable)
      (record_failed_sanity env s i repo dg msg resp uri))"
    by (intro ledger_frame_rules record_failed_sanity_frame)
  ultimately have "same_ledger d d1" by (auto simp: keeps_def)
  then show thesis
    using assms d1 by (auto simp: mark_pre_eval_failed_def Let_def tx_bind_simps tx_gets_simps
        tx_then_simps tx_return_simps stmt_attempts_simps stmt_subs_simps ins_event_simps
        msg_def [symmetric] upd_sub_def upd_attempt_def same_ledger_def intro!: that)
qed

lemma mark_pre_eval_failed_ledger:
  assumes "ledger d" "holds PRE_EVAL i s d"
    "mark_pre_eval_failed env mr mf s i repo dg cls code m retryable resp uri d = Inr (x, d')"
  shows "ledger d'"
proof -
  obtain msg where e:
    "attempts d' = update_where (\<lambda>a. sa_id a = i) (\<lambda>a. a\<lparr>sa_state := (if retryable
        then SA_FAILED_RETRYABLE else SA_FAILED_TERMINAL), sa_finished_at := Some (se_now env),
      sa_fault_class := Some cls, sa_fault_code := Some code, sa_fault_message := Some msg\<rparr>) (attempts d)"
    "submissions d' = update_where (\<lambda>r. ms_id r = s) (\<lambda>r. (set_fault cls code msg r)
      \<lparr>ms_state := pre_eval_failed_state retryable mr r,
       ms_retry_count := Suc (ms_retry_count r), ms_updated_at := se_now env\<rparr>) (submissions d)"
    "subs_ok (submissions d')" "next_id d \<le> next_id d'"
    by (rule mark_pre_eval_failed_effect [OF assms(3)])
  show ?thesis
    by (rule ledger_finish [OF assms(1) holds_sole [OF assms(1,2)] e])
      (auto simp: closes_def open_attempt_def keeps_id_def)
qed

lemma release_pre_eval_ledger:
  assumes "ledger d" "holds PRE_EVAL i s d" "release_pre_eval_attempt env s i m d = Inr (x, d')"
  shows "ledger d'"
  by (rule ledger_finish [OF assms(1) holds_sole [OF assms(1,2)],
        where p = "\<lambda>r. ms_id r = s \<and> ms_state r = PRE_EVAL_RUNNING"])
    (use assms(3) in \<open>auto simp: release_pre_eval_attempt_def tx upd_attempt_def
      closes_def open_attempt_def keeps_id_def\<close>)

definition pre_eval_pairs :: "(attempt \<times> submission) list \<Rightarrow> (nat \<times> nat) list" where
  "pre_eval_pairs rows = map (\<lambda>(a, s). (sa_id a, ms_id s)) rows"

lemma abandon_pre_eval_sole:
  assumes "row \<in> set rows"
  shows "valid (sole_for (pre_eval_pairs rows)) (abandon_pre_eval env n w row)
    (\<lambda>_. sole_for (pre_eval_pairs rows))"
proof (rule validI)
  fix d x d' assume pre: "sole_for (pre_eval_pairs rows) d" and run: "abandon_pre_eval env n w row d = Inr (x, d')"
  obtain a s where row: "row = (a, s)" by force
  have "(sa_id a, ms_id s) \<in> set (pre_eval_pairs rows)"
    using assms row by (force simp: pre_eval_pairs_def)
  then show "sole_for (pre_eval_pairs rows) d'"
    by (rule sole_for_finish [OF pre])
      (use run in \<open>auto simp: abandon_pre_eval_def row Let_def tx upd_sub_def upd_attempt_def
        closes_def open_attempt_def keeps_id_def\<close>)
qed

lemma pre_eval_abandoned_rows:
  assumes "(a, s) \<in> set (pre_eval_abandoned env d)"
  shows "a \<in> set (attempts d)" "s \<in> set (submissions d)" "sa_submission_id a = ms_id s"
    "sa_stage a = PRE_EVAL" "sa_state a = SA_RUNNING" "ms_state s = PRE_EVAL_RUNNING"
proof -
  obtain x where x: "x \<in> set (attempts d)" "sa_stage x = PRE_EVAL" "sa_state x = SA_RUNNING"
    "(case find_sub (sa_submission_id x) d of None \<Rightarrow> None
      | Some s \<Rightarrow> if ms_state s = PRE_EVAL_RUNNING \<and> se_free env (ms_id s) then Some (x, s) else None)
      = Some (a, s)"
    using assms by (auto simp: pre_eval_abandoned_def in_map_filter)
  from x(4) have "x = a" "find_sub (sa_submission_id a) d = Some s" "ms_state s = PRE_EVAL_RUNNING"
    by (auto split: option.splits if_splits)
  with x(1-3) show "a \<in> set (attempts d)" "s \<in> set (submissions d)" "sa_submission_id a = ms_id s"
    "sa_stage a = PRE_EVAL" "sa_state a = SA_RUNNING" "ms_state s = PRE_EVAL_RUNNING"
    by (auto simp: find_sub_def dest: find_SomeD)
qed

lemma sweep_abandoned_pre_eval_ledger:
  assumes "ledger d" "sweep_abandoned_pre_eval env n w d = Inr (k, d')"
  shows "ledger d'"
proof -
  define rows where "rows = pre_eval_abandoned env d"
  have loop: "tx_for rows (abandon_pre_eval env n w) d = Inr ((), d')"
    using assms(2) by (auto simp: sweep_abandoned_pre_eval_def tx rows_def)
  have "sole (sa_id a) (ms_id s) (attempts d)" if "(a, s) \<in> set rows" for a s
    using pre_eval_abandoned_rows [of a s env d] that sole_if_busy ledgerD [OF assms(1)]
    by (metis busy_def open_attempt_def rows_def stage.distinct(13))
  then have "sole_for (pre_eval_pairs rows) d"
    using assms(1) by (auto simp: sole_for_def pre_eval_pairs_def)
  then have "sole_for (pre_eval_pairs rows) d'"
    by (rule for_invariant [OF loop]) (rule abandon_pre_eval_sole)
  then show ?thesis by (simp add: sole_for_def)
qed

text \<open>
  From a database whose ledger is in order, claiming a pre-evaluation never raises and keeps the
  ledger in order. It returns nothing and changes nothing only without the advisory lock, a
  claimable submission or a ready host; otherwise it takes a submission that comes first in priority
  and age, below the retry limit, with the ready host with the most free GPUs.
\<close>

theorem claim_next_pre_eval_takes_first:
  assumes "ledger d"
  shows "\<exists>res d'. claim_next_pre_eval env gpus n worker lease builder d = Inr (res, d') \<and> ledger d' \<and>
    (case res of
       None \<Rightarrow> d' = d \<and> (\<not> se_lock env \<or> pre_eval_claimable env n d = [] \<or>
         ready_host env PRE_EVAL gpus d = None)
     | Some c \<Rightarrow> se_lock env \<and> ready_host env PRE_EVAL gpus d = Some (pc_host c) \<and>
         holds PRE_EVAL (pc_attempt_id c) (pc_submission_id c) d' \<and>
         (\<exists>r \<in> set (pre_eval_claimable env n d). ms_id r = pc_submission_id c \<and>
            ms_retry_count r < n \<and>
            (\<forall>x \<in> set (pre_eval_claimable env n d). queue_order r \<le> queue_order x)))"
proof (cases rule: claim_next_pre_eval_cases [of env gpus n worker lease builder d])
  case Idle
  with assms show ?thesis by force
next
  case (Row r h)
  obtain res d' where run: "claim_pre_eval_row env worker lease builder r h d = Inr (res, d')"
    using claim_pre_eval_row_total [OF assms Row(2)] by (metis surj_pair)
  have "ledger d'" using claim_pre_eval_row_ledger [OF assms Row(2) run] .
  moreover obtain c where "res = Some c" "pc_host c = h" "pc_submission_id c = ms_id r"
      "holds PRE_EVAL (pc_attempt_id c) (ms_id r) d'"
    using run by (auto simp: claim_pre_eval_row_def Let_def tx ins_attempt_def upd_sub_def holds_def)
  ultimately show ?thesis
    using Row run set_pre_eval_claimable [OF Row(2)] by (auto intro!: bexI [of _ r])
qed

definition pre_eval_capped :: "nat \<Rightarrow> db \<Rightarrow> bool" where
  "pre_eval_capped n d \<longleftrightarrow>
     list_all (\<lambda>r. ms_state r = PRE_EVAL_RETRYABLE \<longrightarrow> ms_retry_count r < n) (submissions d)"

lemma pre_eval_capped_update:
  assumes "list_all P ss" "\<And>r. r \<in> set ss \<Longrightarrow> p r \<Longrightarrow> P r \<Longrightarrow> P (g r)"
  shows "list_all P (update_where p g ss)"
  using assms by (auto simp: list_all_iff in_update_where)

lemma pre_eval_failed_capped: "pre_eval_failed_state b n s = PRE_EVAL_RETRYABLE \<Longrightarrow> Suc (ms_retry_count s) < n"
  by (auto simp: pre_eval_failed_state_def split: if_splits)

lemma abandon_pre_eval_capped:
  assumes "ledger d" "pre_eval_capped n d" "s \<in> set (submissions d)"
    "abandon_pre_eval env n w (a, s) d = Inr (x, d')"
  shows "pre_eval_capped n d'"
proof -
  have "r = s" if "r \<in> set (submissions d)" "ms_id r = ms_id s" for r
    using keys_below_same [OF ledgerD(2) [OF assms(1)] that(1) assms(3) that(2)] .
  moreover obtain g where "submissions d' = update_where (\<lambda>r. ms_id r = ms_id s) g (submissions d)"
    "\<And>r. ms_state (g r) = PRE_EVAL_RETRYABLE \<Longrightarrow> Suc (ms_retry_count s) < n"
    "\<And>r. ms_retry_count (g r) = Suc (ms_retry_count r)"
    using assms(4) by (auto simp: abandon_pre_eval_def Let_def tx upd_attempt_def upd_sub_def
        intro!: that split: if_splits)
  ultimately show ?thesis
    using assms(2) unfolding pre_eval_capped_def
    by (auto intro!: pre_eval_capped_update) metis+
qed

text \<open>
  C10. A pre-evaluation is retried fewer times than the limit, and nothing gets stuck on the way: a
  failure and an expired lease both leave every PRE_EVAL_RETRYABLE submission below the limit (the
  others become TERMINAL_INVALID), so that each one whose commit has a block hash and that nobody has
  locked is claimable.
\<close>

theorem pre_eval_retries_bounded:
  assumes "ledger d" and "pre_eval_capped n d"
    and "mark_pre_eval_failed env n mf s i repo dg cls code m retryable resp uri d = Inr ((), d1) \<or>
      (\<exists>a q. q \<in> set (submissions d) \<and> abandon_pre_eval env n worker (a, q) d = Inr ((), d1))"
  shows "pre_eval_capped n d1 \<and>
    (\<forall>r \<in> set (submissions d1). ms_state r = PRE_EVAL_RETRYABLE \<and> se_free env (ms_id r) \<and>
       (\<exists>c. find_commit (ms_chain_commit_id r) d1 = Some c \<and> cc_block_hash c \<noteq> None) \<longrightarrow>
       r \<in> set (pre_eval_claimable env n d1))"
proof -
  have cap: "pre_eval_capped n d1"
    using assms(3)
  proof
    assume "mark_pre_eval_failed env n mf s i repo dg cls code m retryable resp uri d = Inr ((), d1)"
    then obtain msg where "submissions d1 = update_where (\<lambda>r. ms_id r = s) (\<lambda>r. (set_fault cls code msg r)
      \<lparr>ms_state := pre_eval_failed_state retryable n r,
       ms_retry_count := Suc (ms_retry_count r), ms_updated_at := se_now env\<rparr>) (submissions d)"
      by (rule mark_pre_eval_failed_effect)
    then show ?thesis
      using assms(2) pre_eval_failed_capped unfolding pre_eval_capped_def
      by (auto intro!: pre_eval_capped_update)
  qed (use abandon_pre_eval_capped [OF assms(1,2)] in blast)
  then show ?thesis
    by (auto simp: pre_eval_capped_def pre_eval_claimable_def list_all_iff)
qed

text \<open>
  The number of strikes a terminal pre-evaluation failure announces to the miner is the number
  the hotkey really has afterwards.
\<close>

theorem pre_eval_strikes_announced:
  assumes "ledger d" and "holds PRE_EVAL i (ms_id r) d" and "r \<in> set (submissions d)"
    and "code \<notin> set strike_excluded_codes"
    and "mark_pre_eval_failed env n mf (ms_id r) i repo dg MINER_FAULT code m False resp uri d = Inr ((), d')"
  shows "hotkey_preeval_fail_count (ms_hotkey r) d' = strikes_with_this (ms_id r) d"
proof -
  obtain msg where e: "submissions d' = update_where (\<lambda>q. ms_id q = ms_id r) (\<lambda>q. (set_fault MINER_FAULT code msg q)
      \<lparr>ms_state := pre_eval_failed_state False n q,
       ms_retry_count := Suc (ms_retry_count q), ms_updated_at := se_now env\<rparr>) (submissions d)"
    by (rule mark_pre_eval_failed_effect [OF assms(5)])
  have "ms_state r = PRE_EVAL_RUNNING" using holds_state [OF assms(1-3)] by simp
  then have "\<not> is_strike r" by (simp add: is_strike_def)
  then have "hotkey_preeval_fail_count (ms_hotkey r) d' = Suc (hotkey_preeval_fail_count (ms_hotkey r) d)"
    unfolding hotkey_preeval_fail_count_def e
    by (intro length_filter_update_one)
      (use assms in \<open>auto simp: keys_below_distinct [OF ledgerD(2)] is_strike_def pre_eval_failed_state_def\<close>)
  moreover have "find_sub (ms_id r) d = Some r" by (rule find_sub_known [OF assms(1,3)])
  ultimately show ?thesis by (simp add: strikes_with_this_def)
qed

end
