(* ===== verification/EvalControl.thy ===== *)
theory EvalControl
  imports PreEval
begin

text \<open>
  The evaluation queue: src/src/albedo_eval_service/control/repository.py, the artifact records of
  control/artifacts.py, the fault classes of shared/faults.py and the completion step of
  control/dispatcher.py. The request of an evaluation (dataset samples, judge configuration) comes
  from a builder that is an argument and may raise.
\<close>

definition scored_or_beyond :: "sub_state list" where
  "scored_or_beyond =
     [EVAL_RUNNING, EVAL_WIN, SET_REIGN_RUNNING, REIGN_SET, WEIGHT_SET_RUNNING, COMPLETE_LOSS,
      COMPLETE_CORONATED]"

section \<open>Fault text\<close>

definition word_char :: "char \<Rightarrow> bool" where
  "word_char c \<longleftrightarrow> (let n = (of_char c :: nat) in is_digit c \<or> (65 \<le> n \<and> n \<le> 90) \<or>
     (97 \<le> n \<and> n \<le> 122) \<or> n = 95)"

text \<open>
  \<open>[A-Za-z_][\w.]*(?:Error|Exception)\b\<close> at the start of a line: after the first letter, a run of
  word characters and dots that reaches one of the two words at a word boundary.
\<close>

definition ends_word :: "string \<Rightarrow> string \<Rightarrow> bool" where
  "ends_word w s \<longleftrightarrow> starts_with w s \<and>
     (case drop (length w) s of [] \<Rightarrow> True | c # _ \<Rightarrow> \<not> word_char c)"

fun error_tail :: "string \<Rightarrow> bool" where
  "error_tail [] = False"
| "error_tail (c # s) = (ends_word ''Error'' (c # s) \<or> ends_word ''Exception'' (c # s) \<or>
     ((word_char c \<or> c = CHR ''.'') \<and> error_tail s))"

fun error_line :: "string \<Rightarrow> bool" where
  "error_line [] = False"
| "error_line (c # s) = (word_char c \<and> \<not> is_digit c \<and> error_tail s)"

definition concise_fault :: "string option \<Rightarrow> string" where
  "concise_fault msg = (case msg of None \<Rightarrow> []
     | Some m \<Rightarrow> (case text_lines m of [] \<Rightarrow> []
         | [l] \<Rightarrow> take 300 l
         | ls \<Rightarrow> (case find error_line (rev ls) of Some l \<Rightarrow> take 300 l
             | None \<Rightarrow> take 300 (last ls))))"

record fault_decision =
  fd_class :: fault_class
  fd_code :: string
  fd_message :: string
  fd_retryable :: bool

definition read_fault_class :: "string \<Rightarrow> fault_class option" where
  "read_fault_class s = find (\<lambda>c. fault_json c = JStr s)
     [MINER_FAULT, INFRA_FAULT, REMOTE_EVAL_FAULT, PROVIDER_FAULT, UNKNOWN_FAULT]"

definition text_or :: "json \<Rightarrow> string \<Rightarrow> string" where
  "text_or v s = (if truthy v then py_str v else s)"

text \<open>
  The value read for \<open>retryable\<close> is overwritten on every branch, as in the code: what decides is the
  fault class. An unknown class (CHAIN_FAULT too) becomes UNKNOWN_FAULT.
\<close>

definition classify_failure_verdict :: "json \<Rightarrow> fault_decision" where
  "classify_failure_verdict v =
     (let cls = text_or (jget ''fault_class'' v) ''UNKNOWN_FAULT'';
          code = text_or (jget ''fault_code'' v) ''unknown_remote_failure'';
          msg = text_or (jget ''fault_message'' v) ''Remote eval failed''
      in if cls = ''MINER_FAULT'' then
           \<lparr>fd_class = MINER_FAULT, fd_code = code, fd_message = msg, fd_retryable = False\<rparr>
         else (case read_fault_class cls of
             Some c \<Rightarrow> \<lparr>fd_class = c, fd_code = code, fd_message = msg, fd_retryable = True\<rparr>
           | None \<Rightarrow> \<lparr>fd_class = UNKNOWN_FAULT, fd_code = code, fd_message = msg,
                fd_retryable = True\<rparr>))"

definition broken_stream_fault :: "string \<Rightarrow> fault_decision" where
  "broken_stream_fault msg = \<lparr>fd_class = REMOTE_EVAL_FAULT, fd_code = ''remote_stream_broken'',
     fd_message = msg, fd_retryable = True\<rparr>"

section \<open>Artifacts of a verdict\<close>

definition verdict_artifact_types :: "(string \<times> string) list" where
  "verdict_artifact_types =
     [(''generated_samples'', ''GENERATED_SAMPLES''), (''scoring_results'', ''SCORING_RESULTS''),
      (''verdict'', ''EVAL_VERDICT''), (''remote_logs'', ''REMOTE_LOGS''),
      (''progress'', ''REMOTE_PROGRESS''), (''request'', ''EVAL_REQUEST''),
      (''transcript'', ''EVAL_TRANSCRIPT''), (''judge_results'', ''JUDGE_RESULTS'')]"

definition split_s3_uri :: "string \<Rightarrow> string option \<times> string option" where
  "split_s3_uri uri =
     (if \<not> starts_with ''s3://'' uri then (None, None)
      else let rest = removeprefix ''s3://'' uri
        in (or_text (Some (before_first (CHR ''/'') rest)) None,
            or_text (Some (after_first (CHR ''/'') rest)) None))"

definition storage_backend_for_uri :: "string \<Rightarrow> string" where
  "storage_backend_for_uri uri =
     (if starts_with ''s3://'' uri then ''s3''
      else if starts_with ''local-cache://'' uri \<or> starts_with ''file://'' uri then ''local-cache''
      else if starts_with ''hf://'' uri then ''hf'' else ''hippius'')"

definition optional_str :: "json \<Rightarrow> string option" where
  "optional_str v = or_text (text_col v) None"

text \<open>\<open>isinstance(True, int)\<close> holds in Python.\<close>

fun optional_int :: "json \<Rightarrow> int option" where
  "optional_int (JInt i) = Some i"
| "optional_int (JBool b) = Some (if b then 1 else 0)"
| "optional_int _ = None"

definition artifact_of_verdict ::
  "sess \<Rightarrow> nat \<Rightarrow> nat \<Rightarrow> json \<Rightarrow> string \<times> string \<Rightarrow> artifact option" where
  "artifact_of_verdict env sub i metadata = (\<lambda>(name, uri).
     if uri = [] then None
     else case map_of verdict_artifact_types name of None \<Rightarrow> None
       | Some ty \<Rightarrow>
         let meta = jget name metadata; (bucket, key) = split_s3_uri uri
         in Some \<lparr>ar_id = 0, ar_submission_id = Some sub, ar_attempt_id = Some i, ar_type = ty,
              ar_backend = storage_backend_for_uri uri, ar_uri = uri,
              ar_bucket = or_text bucket (optional_str (jget ''bucket'' meta)),
              ar_object_key = or_text key (optional_str (jget ''object_key'' meta)),
              ar_sha256 = optional_str (jget ''sha256'' meta),
              ar_size_bytes = optional_int (jget ''size_bytes'' meta),
              ar_content_type = optional_str (jget ''content_type'' meta),
              ar_created_at = se_now env\<rparr>)"

fun text_items :: "json \<Rightarrow> (string \<times> string) list" where
  "text_items (JObj kvs) = List.map_filter
     (\<lambda>(k, v). case text_col v of None \<Rightarrow> None | Some s \<Rightarrow> Some (k, s)) kvs"
| "text_items _ = []"

definition artifact_records_from_verdict :: "sess \<Rightarrow> nat \<Rightarrow> nat \<Rightarrow> json \<Rightarrow> json \<Rightarrow> artifact list" where
  "artifact_records_from_verdict env sub i arts metadata =
     List.map_filter (artifact_of_verdict env sub i metadata) (sort_key fst (text_items arts))"

definition insert_artifacts_from_verdict :: "sess \<Rightarrow> nat \<Rightarrow> nat \<Rightarrow> json \<Rightarrow> (db, unit) tx" where
  "insert_artifacts_from_verdict env sub i verdict =
     tx_for (artifact_records_from_verdict env sub i (jget ''artifacts'' verdict)
         (jget ''artifact_metadata'' verdict))
       (\<lambda>a. tx_bind tx_fresh (\<lambda>k. ins_artifact (a\<lparr>ar_id := k\<rparr>)))"

section \<open>Claiming an evaluation\<close>

definition hotkey_already_scored :: "string \<Rightarrow> db \<Rightarrow> bool" where
  "hotkey_already_scored = reached_since_registration scored_or_beyond"

definition eval_claimable :: "sess \<Rightarrow> db \<Rightarrow> submission list" where
  "eval_claimable env d = filter (\<lambda>r. ms_state r = EVAL_QUEUED \<and>
     (case find_commit (ms_chain_commit_id r) d of None \<Rightarrow> False
      | Some c \<Rightarrow> cc_block_hash c \<noteq> None) \<and> se_free env (ms_id r)) (submissions d)"

definition next_eval :: "sess \<Rightarrow> db \<Rightarrow> submission option" where
  "next_eval env d = limit1 (sort_key queue_order (eval_claimable env d))"

definition reject_already_validated :: "sess \<Rightarrow> submission \<Rightarrow> db \<Rightarrow> db" where
  "reject_already_validated env r d =
     (let msg = ''hotkey already has a validated model submission''
      in d\<lparr>submissions := update_where (\<lambda>s. ms_id s = ms_id r)
             (\<lambda>s. (set_fault MINER_FAULT ''hotkey_already_validated'' msg s)
               \<lparr>ms_state := TERMINAL_INVALID, ms_updated_at := se_now env,
                ms_finished_at := Some (se_now env)\<rparr>) (submissions d),
           events := events d @ [\<lparr>ev_submission_id = Some (ms_id r), ev_attempt_id = None,
             ev_type = ''eval_skipped_hotkey_already_validated'', ev_severity = WARN,
             ev_message = msg, ev_data = JObj [(''hotkey'', JStr (ms_hotkey r))]\<rparr>]\<rparr>)"

text \<open>
  The loop of the claim: skip, by rejecting them, the queued submissions of hotkeys that were scored
  before. Each turn leaves one row fewer in the queue.
\<close>

definition queued :: "submission \<Rightarrow> bool" where
  "queued r \<longleftrightarrow> ms_state r = EVAL_QUEUED"

lemma next_eval_SomeD:
  "next_eval env d = Some r \<Longrightarrow> r \<in> set (submissions d) \<and> queued r"
  by (auto simp: next_eval_def eval_claimable_def queued_def dest!: limit1_Some)

lemma length_filter_update_less:
  assumes "r \<in> set rs" and "p r" and "q r" and "\<And>s. p s \<Longrightarrow> \<not> q (f s)"
  shows "length (filter q (update_where p f rs)) < length (filter q rs)"
proof -
  have le: "length (filter q (update_where p f ts)) \<le> length (filter q ts)" for ts
    by (induction ts) (auto simp: update_where_Cons assms(4))
  show ?thesis
    using assms(1)
  proof (induction rs)
    case Nil
    then show ?case by simp
  next
    case (Cons t ts)
    show ?case
    proof (cases "t = r")
      case True
      then show ?thesis
        using assms(2-4) le [of ts] by (simp add: update_where_Cons less_Suc_eq_le)
    next
      case False
      then have "length (filter q (update_where p f ts)) < length (filter q ts)"
        using Cons by simp
      then show ?thesis by (auto simp: update_where_Cons assms(4))
    qed
  qed
qed

function pick_eval :: "sess \<Rightarrow> db \<Rightarrow> submission option \<times> db" where
  "pick_eval env d =
     (case next_eval env d of None \<Rightarrow> (None, d)
      | Some r \<Rightarrow> if hotkey_already_scored (ms_hotkey r) d
          then pick_eval env (reject_already_validated env r d) else (Some r, d))"
  by pat_completeness auto
termination
proof (relation "measure (\<lambda>(env, d). length (filter queued (submissions d)))", simp)
  fix env d r
  assume "next_eval env d = Some r"
  then have "r \<in> set (submissions d)" "queued r" by (auto dest: next_eval_SomeD)
  then show "((env, reject_already_validated env r d), env, d)
      \<in> measure (\<lambda>(env, d). length (filter queued (submissions d)))"
    by (auto simp: reject_already_validated_def Let_def queued_def
          intro!: length_filter_update_less)
qed

declare pick_eval.simps [simp del]

record king_row =
  kg_version :: nat
  kg_submission_id :: nat
  kg_model_hash :: string
  kg_model_uri :: string

text \<open>The lead king: slot 1 of the ACTIVE reign of the greatest version.\<close>

definition king_of_reign :: "db \<Rightarrow> reign \<Rightarrow> king_row option" where
  "king_of_reign d rg =
     (case find (\<lambda>m. rm_reign_id m = rg_id rg \<and> rm_slot m = 1) (reign_members d) of None \<Rightarrow> None
      | Some m \<Rightarrow> (case find (\<lambda>k. kv_id k = rm_king_version_id m) (king_versions d) of None \<Rightarrow> None
        | Some k \<Rightarrow> (case find (\<lambda>a. ar_id a = kv_artifact_id k) (artifacts d) of None \<Rightarrow> None
          | Some a \<Rightarrow> Some \<lparr>kg_version = kv_version k, kg_submission_id = kv_submission_id k,
               kg_model_hash = kv_model_hash k, kg_model_uri = ar_uri a\<rparr>)))"

definition lead_king :: "db \<Rightarrow> king_row option" where
  "lead_king d = limit1 (List.map_filter (king_of_reign d)
     (sort_key (\<lambda>r. - int (rg_version r)) (filter (\<lambda>r. rg_state r = RG_ACTIVE) (reigns d))))"

record eval_request =
  rq_dataset :: eval_dataset
  rq_sample_count :: int
  rq_snapshot :: json

record claimed_eval =
  ce_submission_id :: nat
  ce_attempt_id :: nat
  ce_eval_run_id :: nat
  ce_host :: host
  ce_request :: eval_request

definition mark_retryable :: "sess \<Rightarrow> nat \<Rightarrow> fault_class \<Rightarrow> string \<Rightarrow> string \<Rightarrow> (db, unit) tx" where
  "mark_retryable env sub cls code msg = upd_sub sub (\<lambda>s. (set_fault cls code msg s)
     \<lparr>ms_state := EVAL_RETRYABLE, ms_retry_count := Suc (ms_retry_count s),
      ms_updated_at := se_now env\<rparr>)"

definition new_eval_run ::
  "sess \<Rightarrow> nat \<Rightarrow> nat \<Rightarrow> submission \<Rightarrow> string \<Rightarrow> king_row \<Rightarrow> host \<Rightarrow> eval_request \<Rightarrow>
     eval_run" where
  "new_eval_run env run i r model_hash king h rq =
     \<lparr>er_id = run, er_submission_id = ms_id r, er_attempt_id = i,
      er_king_submission_id = Some (kg_submission_id king), er_king_model_hash = kg_model_hash king,
      er_challenger_model_hash = model_hash, er_host_id = Some (rh_id h),
      er_remote_run_id = None, er_state = ER_DISPATCHED, er_gpu_ids = None,
      er_gpu_topology = JNull, er_dataset = rq_dataset rq,
      er_sample_count = Some (rq_sample_count rq), er_generated = 0, er_scored = 0,
      er_score_challenger = None, er_score_king = None, er_win_margin = None,
      er_challenger_won = None, er_turns = (None, None), er_errors = (Some 0, Some 0, Some 0),
      er_fault_class = None, er_fault_code = None, er_fault_message = None,
      er_started_at = Some (se_now env), er_finished_at = None\<rparr>"

definition claim_eval_row ::
  "sess \<Rightarrow> string \<Rightarrow> int \<Rightarrow> (submission \<Rightarrow> king_row \<Rightarrow> host \<Rightarrow> nat \<Rightarrow> db_error + eval_request) \<Rightarrow>
     submission \<Rightarrow> host \<Rightarrow> king_row \<Rightarrow> (db, claimed_eval option) tx" where
  "claim_eval_row env worker lease builder r h king =
     tx_bind (tx_gets (next_attempt_number (ms_id r) EVAL)) (\<lambda>n.
     tx_bind tx_fresh (\<lambda>i.
     tx_bind tx_fresh (\<lambda>run.
     case builder r king h run of Inl e \<Rightarrow> tx_raise e
     | Inr rq \<Rightarrow>
       tx_then (ins_attempt (new_attempt i (ms_id r) EVAL n worker (Some (se_clock env + lease))
          (se_now env) (rq_snapshot rq)))
       (tx_then (upd_sub (ms_id r) (\<lambda>s. (clear_fault s)\<lparr>ms_state := EVAL_RUNNING,
          ms_updated_at := se_now env\<rparr>))
       (tx_then (case ms_model_hash r of
            None \<Rightarrow> tx_raise (CheckViolation ''eval_runs.challenger_model_hash'')
          | Some mh \<Rightarrow> stmt_runs (\<lambda>rs. rs @ [new_eval_run env run i r mh king h rq]))
       (tx_then (ins_event (Some (ms_id r)) (Some i) ''eval_claimed'' INFO
          (''Eval claimed by '' @ worker @ '' on host '' @ rh_id h)
          (JObj [(''eval_run_id'', JId run), (''remote_host_id'', JStr (rh_id h))]))
       (tx_return (Some \<lparr>ce_submission_id = ms_id r, ce_attempt_id = i, ce_eval_run_id = run,
          ce_host = h, ce_request = rq\<rparr>))))))))"

definition some_sub_in :: "sub_state list \<Rightarrow> db \<Rightarrow> bool" where
  "some_sub_in sts d \<longleftrightarrow> list_ex (\<lambda>r. ms_state r \<in> set sts) (submissions d)"

definition claim_next_eval ::
  "sess \<Rightarrow> string \<Rightarrow> int \<Rightarrow> (submission \<Rightarrow> king_row \<Rightarrow> host \<Rightarrow> nat \<Rightarrow> db_error + eval_request) \<Rightarrow>
     (db, claimed_eval option) tx" where
  "claim_next_eval env worker lease builder d =
     (if \<not> se_lock env then tx_return None d
      else if some_sub_in [EVAL_RUNNING] d then tx_return None d
      else if some_sub_in [EVAL_WIN, SET_REIGN_RUNNING] d then tx_return None d
      else case pick_eval env d of
        (None, d') \<Rightarrow> tx_return None d'
      | (Some r, d') \<Rightarrow> (case ready_host env EVAL 8 d' of
          None \<Rightarrow> tx_return None d'
        | Some h \<Rightarrow> (case lead_king d' of
            None \<Rightarrow> tx_then (mark_retryable env (ms_id r) INFRA_FAULT ''missing_active_lead_king''
              ''No active lead king is available for eval'') (tx_return None) d'
          | Some king \<Rightarrow> claim_eval_row env worker lease builder r h king d')))"

definition peek_next_challenger_model_uri :: "db \<Rightarrow> string option" where
  "peek_next_challenger_model_uri d = map_option ms_model_uri (limit1 (sort_key queue_order
     (filter (\<lambda>r. ms_state r = EVAL_QUEUED \<or> ms_state r = PRE_EVAL_PASSED) (submissions d))))"

section \<open>A running evaluation\<close>

definition set_remote_run_id :: "nat \<Rightarrow> string \<Rightarrow> (db, unit) tx" where
  "set_remote_run_id run remote = upd_run run (\<lambda>r. r\<lparr>er_remote_run_id := Some remote\<rparr>)"

definition gpu_ids_from_topology :: "json \<Rightarrow> string list option" where
  "gpu_ids_from_topology topology =
     (let vals = (\<lambda>k. case jget k topology of JList xs \<Rightarrow> map py_str xs | _ \<Rightarrow> []);
          ids = vals ''previous_king'' @ vals ''challenger''
      in if ids = [] then None else Some ids)"

text \<open>The SET clause of an event's UPDATE, by the type of the event.\<close>

definition event_update :: "json \<Rightarrow> (eval_run \<Rightarrow> eval_run) option" where
  "event_update e =
     (let ty = jget ''type'' e
      in if ty = JStr ''generation_started'' then Some (\<lambda>r. r\<lparr>er_state := ER_GENERATING,
           er_gpu_topology := jget_or (JObj []) ''gpu_topology'' e,
           er_gpu_ids := gpu_ids_from_topology (jget ''gpu_topology'' e),
           er_sample_count := coalesce (int_col (jget ''sample_count'' e)) (er_sample_count r)\<rparr>)
         else if ty = JStr ''generation_batch_done'' then Some (\<lambda>r. r\<lparr>er_generated :=
           max (er_generated r) (case int_col (jget ''generated_sample_count'' e) of
             None \<Rightarrow> 0 | Some n \<Rightarrow> n)\<rparr>)
         else if ty = JStr ''scoring_started'' then Some (\<lambda>r. r\<lparr>er_state := ER_SCORING\<rparr>)
         else if ty = JStr ''scoring_batch_done'' then Some (\<lambda>r. r\<lparr>er_scored :=
           max (er_scored r) (case int_col (jget ''scored_sample_count'' e) of
             None \<Rightarrow> 0 | Some n \<Rightarrow> n)\<rparr>)
         else if ty = JStr ''verdict'' then Some (\<lambda>r. r\<lparr>er_state := ER_VERDICT_READY\<rparr>)
         else None)"

text \<open>The WHERE clause: only the verdict's UPDATE looks at the run's state.\<close>

definition update_for_event :: "json \<Rightarrow> nat \<Rightarrow> (db, unit) tx" where
  "update_for_event e run = (case event_update e of
     None \<Rightarrow> tx_return ()
   | Some h \<Rightarrow> stmt_runs (update_where (\<lambda>r. er_id r = run \<and>
       (jget ''type'' e = JStr ''verdict'' \<longrightarrow> er_state r \<noteq> ER_SUCCEEDED)) h))"

definition apply_remote_event :: "json \<Rightarrow> (db, unit) tx" where
  "apply_remote_event e =
     (case jget ''eval_run_id'' e of JId run \<Rightarrow> update_for_event e run
      | v \<Rightarrow> if truthy v \<and> (case jget ''type'' e of JStr t \<Rightarrow> t \<in> set [''generation_started'',
               ''generation_batch_done'', ''scoring_started'', ''scoring_batch_done'', ''verdict'']
             | _ \<Rightarrow> False)
          then tx_raise (RuntimeErr ''invalid input syntax for type uuid'') else tx_return ())"

definition remote_event_exists :: "nat \<Rightarrow> json \<Rightarrow> db \<Rightarrow> bool" where
  "remote_event_exists i e d \<longleftrightarrow> list_ex (\<lambda>v. ev_attempt_id v = Some i \<and>
     ev_type v = event_type_text e \<and> ev_data v = e) (events d)"

definition record_remote_event :: "nat \<Rightarrow> nat \<Rightarrow> json \<Rightarrow> (db, unit) tx" where
  "record_remote_event sub i e =
     tx_bind (tx_gets (remote_event_exists i e)) (\<lambda>known. tx_when (\<not> known)
       (tx_then (apply_remote_event e)
         (ins_event (Some sub) (Some i) (event_type_text e) INFO
            (event_message e ''Remote eval event'') e)))"

record active_eval =
  ae_submission_id :: nat
  ae_attempt_id :: nat
  ae_eval_run_id :: nat
  ae_remote_run_id :: string
  ae_host :: host

definition reconcilable :: "sess \<Rightarrow> db \<Rightarrow> eval_run \<Rightarrow> active_eval option" where
  "reconcilable env d r =
     (case er_remote_run_id r of None \<Rightarrow> None
      | Some remote \<Rightarrow>
        if er_state r \<in> {ER_DISPATCHED, ER_GENERATING, ER_SCORING, ER_VERDICT_READY} \<and>
           list_ex (\<lambda>a. sa_id a = er_attempt_id r \<and> sa_state a = SA_RUNNING \<and>
             lease_expired (se_now env) a) (attempts d) \<and>
           sub_in_state (er_submission_id r) EVAL_RUNNING d
        then (case find (\<lambda>h. Some (rh_id h) = er_host_id r) (hosts d) of None \<Rightarrow> None
          | Some h \<Rightarrow> Some \<lparr>ae_submission_id = er_submission_id r, ae_attempt_id = er_attempt_id r,
              ae_eval_run_id = er_id r, ae_remote_run_id = remote, ae_host = h\<rparr>)
        else None)"

definition list_reconcilable_eval_runs :: "sess \<Rightarrow> nat \<Rightarrow> db \<Rightarrow> active_eval list" where
  "list_reconcilable_eval_runs env limit d = take limit (List.map_filter (reconcilable env d)
     (sort_key (\<lambda>r. case er_started_at r of None \<Rightarrow> (1, 0) | Some t \<Rightarrow> (0::int, t)) (eval_runs d)))"

definition heartbeat_eval :: "sess \<Rightarrow> nat \<Rightarrow> int \<Rightarrow> (db, unit) tx" where
  "heartbeat_eval env i lease = stmt_attempts (update_where
     (\<lambda>a. sa_id a = i \<and> sa_state a = SA_RUNNING)
     (\<lambda>a. a\<lparr>sa_lease_expires_at := Some (se_clock env + lease)\<rparr>))"

section \<open>Sweeping and requeueing\<close>

text \<open>
  The expired attempts with their eval runs: one row per run, or one with None (a LEFT JOIN).
\<close>

definition eval_abandoned :: "sess \<Rightarrow> db \<Rightarrow> (attempt \<times> nat option) list" where
  "eval_abandoned env d = concat (map (\<lambda>a.
       case filter (\<lambda>r. er_attempt_id r = sa_id a) (eval_runs d) of
         [] \<Rightarrow> [(a, None)] | rs \<Rightarrow> map (\<lambda>r. (a, Some (er_id r))) rs)
     (filter (\<lambda>a. sa_stage a = EVAL \<and> sa_state a = SA_RUNNING \<and> lease_expired (se_now env) a \<and>
        sub_in_state (sa_submission_id a) EVAL_RUNNING d \<and> se_free env (sa_id a) \<and>
        se_free env (sa_submission_id a)) (attempts d)))"

definition abandon_eval :: "sess \<Rightarrow> string \<Rightarrow> attempt \<times> nat option \<Rightarrow> (db, unit) tx" where
  "abandon_eval env worker = (\<lambda>(a, run).
     let code = ''eval_attempt_lease_expired'';
         msg = ''Eval attempt lease expired before completion''
     in tx_seq
       [upd_attempt (sa_id a) (\<lambda>x. x\<lparr>sa_state := SA_ABANDONED,
          sa_finished_at := Some (se_now env), sa_fault_class := Some REMOTE_EVAL_FAULT,
          sa_fault_code := Some code, sa_fault_message := Some msg\<rparr>),
        (case run of None \<Rightarrow> tx_return ()
         | Some k \<Rightarrow> upd_run k (\<lambda>r. r\<lparr>er_state := ER_FAILED_RETRYABLE,
             er_finished_at := Some (se_now env), er_fault_class := Some REMOTE_EVAL_FAULT,
             er_fault_code := Some code, er_fault_message := Some msg\<rparr>)),
        upd_sub (sa_submission_id a) (\<lambda>s. (set_fault REMOTE_EVAL_FAULT code msg s)
          \<lparr>ms_state := EVAL_RETRYABLE, ms_retry_count := Suc (ms_retry_count s),
           ms_updated_at := se_now env\<rparr>),
        ins_event (Some (sa_submission_id a)) (Some (sa_id a)) ''eval_attempt_abandoned'' WARN msg
          (JObj [(''worker_id'', JStr worker),
                 (''eval_run_id'', case run of None \<Rightarrow> JStr [] | Some k \<Rightarrow> JId k)])])"

definition sweep_abandoned_eval_attempts :: "sess \<Rightarrow> string \<Rightarrow> (db, nat) tx" where
  "sweep_abandoned_eval_attempts env worker =
     tx_bind (tx_gets (eval_abandoned env)) (\<lambda>rows.
       tx_then (tx_for rows (abandon_eval env worker)) (tx_return (length rows)))"

definition requeue_order :: "submission \<Rightarrow> int \<times> int" where
  "requeue_order r = (ms_priority r, ms_updated_at r)"

definition queue_passed_row :: "sess \<Rightarrow> string \<Rightarrow> submission \<Rightarrow> (db, unit) tx" where
  "queue_passed_row env worker r = tx_then
     (upd_sub (ms_id r) (\<lambda>s. s\<lparr>ms_state := EVAL_QUEUED, ms_updated_at := se_now env\<rparr>))
     (ins_event (Some (ms_id r)) None ''eval_queued_from_pre_eval'' INFO
        (''Queued for eval by '' @ worker @ '' after passing pre-eval'')
        (JObj [(''worker_id'', JStr worker)]))"

definition queue_pre_eval_passed :: "sess \<Rightarrow> string \<Rightarrow> nat \<Rightarrow> (db, nat) tx" where
  "queue_pre_eval_passed env worker limit =
     tx_bind (tx_gets (\<lambda>d. take limit (sort_key requeue_order (filter (\<lambda>r.
         ms_state r = PRE_EVAL_PASSED \<and> se_free env (ms_id r)) (submissions d)))))
       (\<lambda>rows. tx_then (tx_for rows (queue_passed_row env worker)) (tx_return (length rows)))"

definition has_open_eval :: "nat \<Rightarrow> db \<Rightarrow> bool" where
  "has_open_eval i d \<longleftrightarrow> list_ex (\<lambda>a. sa_submission_id a = i \<and> sa_stage a = EVAL \<and>
     open_attempt (sa_state a)) (attempts d)"

definition retryable_eval :: "sess \<Rightarrow> db \<Rightarrow> submission \<Rightarrow> bool" where
  "retryable_eval env d r \<longleftrightarrow>
     ms_state r = EVAL_RETRYABLE \<and> \<not> has_open_eval (ms_id r) d \<and> se_free env (ms_id r)"

definition fault_data :: "submission \<Rightarrow> (string \<times> json) list" where
  "fault_data r = [(''previous_fault_class'', case ms_fault_class r of None \<Rightarrow> JNull
       | Some c \<Rightarrow> fault_json c),
     (''previous_fault_code'', jstr (ms_fault_code r)),
     (''previous_fault_message'', jstr (ms_fault_message r))]"

definition cap_eval :: "sess \<Rightarrow> string \<Rightarrow> nat \<Rightarrow> submission \<Rightarrow> (db, unit) tx" where
  "cap_eval env worker max_retry r =
     (let msg = ''Eval retry cap reached: retry_count='' @ show_nat (ms_retry_count r) @
            '' max_retry_count='' @ show_nat max_retry @ ''; last_fault='' @
            py_str (jstr (ms_fault_code r)) @ '': '' @ concise_fault (ms_fault_message r)
      in tx_then
        (upd_sub (ms_id r) (\<lambda>s. s\<lparr>ms_state := TERMINAL_INVALID,
           ms_fault_class := coalesce (ms_fault_class s) (Some INFRA_FAULT),
           ms_fault_code := Some ''eval_retry_limit_exceeded'', ms_fault_message := Some msg,
           ms_finished_at := Some (se_now env), ms_updated_at := se_now env\<rparr>))
        (ins_event (Some (ms_id r)) None ''eval_retry_limit_exceeded'' ERROR msg
           (JObj ([(''worker_id'', JStr worker), (''retry_count'', JInt (int (ms_retry_count r))),
                   (''max_retry_count'', JInt (int max_retry))] @ fault_data r))))"

definition requeue_eval :: "sess \<Rightarrow> string \<Rightarrow> nat \<Rightarrow> submission \<Rightarrow> (db, unit) tx" where
  "requeue_eval env worker max_retry r = tx_then
     (upd_sub (ms_id r) (\<lambda>s. (clear_fault s)\<lparr>ms_state := EVAL_QUEUED,
        ms_updated_at := se_now env\<rparr>))
     (ins_event (Some (ms_id r)) None ''eval_retry_requeued'' INFO
        (''Eval retry requeued by '' @ worker)
        (JObj ([(''worker_id'', JStr worker), (''max_retry_count'', JInt (int max_retry))] @
               fault_data r)))"

definition requeue_retryable_evals :: "sess \<Rightarrow> string \<Rightarrow> nat \<Rightarrow> nat \<Rightarrow> (db, nat) tx" where
  "requeue_retryable_evals env worker limit max_retry =
     tx_bind (tx_gets (\<lambda>d. filter (\<lambda>r. retryable_eval env d r \<and> max_retry \<le> ms_retry_count r)
         (submissions d))) (\<lambda>capped.
     tx_then (tx_for capped (cap_eval env worker max_retry))
     (tx_bind (tx_gets (\<lambda>d. take limit (sort_key requeue_order (filter (\<lambda>r.
         retryable_eval env d r \<and> ms_retry_count r < max_retry) (submissions d))))) (\<lambda>rows.
     tx_then (tx_for rows (requeue_eval env worker max_retry)) (tx_return (length rows)))))"

section \<open>Completing an evaluation\<close>

text \<open>
  \<open>UPDATE stage_attempts ... WHERE id = ... AND state = 'RUNNING' RETURNING id\<close>: the latch. It
  tells whether a row was updated.
\<close>

definition latch_attempt :: "nat \<Rightarrow> (attempt \<Rightarrow> attempt) \<Rightarrow> (db, bool) tx" where
  "latch_attempt i f =
     tx_bind (tx_gets (\<lambda>d. list_ex (\<lambda>a. sa_id a = i \<and> sa_state a = SA_RUNNING) (attempts d)))
       (\<lambda>hit. tx_then (stmt_attempts (update_where (\<lambda>a. sa_id a = i \<and> sa_state a = SA_RUNNING) f))
          (tx_return hit))"

definition winning_run :: "nat \<Rightarrow> eval_run \<Rightarrow> bool" where
  "winning_run sub r \<longleftrightarrow>
     er_submission_id r = sub \<and> er_state r = ER_SUCCEEDED \<and> er_challenger_won r = Some True"

definition prior_wins :: "nat \<Rightarrow> nat \<Rightarrow> db \<Rightarrow> nat" where
  "prior_wins sub run d =
     length (filter (\<lambda>r. winning_run sub r \<and> er_id r \<noteq> run) (eval_runs d))"

definition win_margin :: "json \<Rightarrow> rat option" where
  "win_margin v = (case (num_col (jget ''score_challenger'' v), num_col (jget ''score_king'' v)) of
     (Some c, Some k) \<Rightarrow> Some (c - k) | _ \<Rightarrow> None)"

definition run_succeeded :: "sess \<Rightarrow> json \<Rightarrow> eval_run \<Rightarrow> eval_run" where
  "run_succeeded env v r = r\<lparr>er_state := ER_SUCCEEDED,
     er_generated := (case int_col (jget ''generated_sample_count'' v) of None \<Rightarrow> er_generated r
       | Some n \<Rightarrow> n),
     er_scored := (case int_col (jget ''scored_sample_count'' v) of None \<Rightarrow> er_scored r
       | Some n \<Rightarrow> n),
     er_score_challenger := num_col (jget ''score_challenger'' v),
     er_score_king := num_col (jget ''score_king'' v),
     er_win_margin := win_margin v,
     er_challenger_won := bool_col (jget ''challenger_won'' v),
     er_turns := (int_col (jget ''valid_turns'' v), int_col (jget ''total_turns'' v)),
     er_errors := (int_col (jget_or (JInt 0) ''king_vllm_errors'' v),
       int_col (jget_or (JInt 0) ''chal_vllm_errors'' v),
       int_col (jget_or (JInt 0) ''judge_errors'' v)),
     er_gpu_topology := jget_or (JObj []) ''gpu_topology'' v,
     er_finished_at := Some (se_now env)\<rparr>"

definition state_text :: "sub_state \<Rightarrow> string" where
  "state_text s = (case s of EVAL_WIN \<Rightarrow> ''EVAL_WIN'' | COMPLETE_LOSS \<Rightarrow> ''COMPLETE_LOSS''
     | _ \<Rightarrow> ''EVAL_QUEUED'')"

definition record_success :: "sess \<Rightarrow> nat \<Rightarrow> nat \<Rightarrow> nat \<Rightarrow> json \<Rightarrow> sub_state \<Rightarrow> (db, unit) tx" where
  "record_success env sub i run v next_state = tx_seq
     [upd_run run (run_succeeded env v),
      upd_sub sub (\<lambda>s. s\<lparr>ms_state := next_state, ms_updated_at := se_now env,
        ms_finished_at := (if next_state = COMPLETE_LOSS then Some (se_now env)
          else ms_finished_at s)\<rparr>),
      insert_artifacts_from_verdict env sub i v,
      ins_event (Some sub) (Some i) ''eval_succeeded'' INFO
        (''Eval completed with state '' @ state_text next_state) v]"

text \<open>
  A first win goes back to the queue with priority 0: it takes a second, independent win to leave
  the evaluation stage as EVAL_WIN.
\<close>

definition mark_eval_succeeded :: "sess \<Rightarrow> nat \<Rightarrow> nat \<Rightarrow> nat \<Rightarrow> json \<Rightarrow> (db, unit) tx" where
  "mark_eval_succeeded env sub i run v =
     tx_bind (latch_attempt i (\<lambda>a. a\<lparr>sa_state := SA_SUCCEEDED,
         sa_finished_at := Some (se_now env), sa_result_summary := v\<rparr>)) (\<lambda>latched.
     if \<not> latched then tx_return ()
     else if \<not> truthy (jget ''challenger_won'' v)
     then record_success env sub i run v COMPLETE_LOSS
     else tx_bind (tx_gets (prior_wins sub run)) (\<lambda>wins.
       if wins = 0
       then tx_then (upd_sub sub (\<lambda>s. s\<lparr>ms_priority := 0\<rparr>))
              (record_success env sub i run v EVAL_QUEUED)
       else record_success env sub i run v EVAL_WIN))"

definition mark_eval_failed ::
  "sess \<Rightarrow> nat \<Rightarrow> nat \<Rightarrow> nat \<Rightarrow> fault_decision \<Rightarrow> json option \<Rightarrow> (db, unit) tx" where
  "mark_eval_failed env sub i run f v =
     (let attempt_state = (if fd_retryable f then SA_FAILED_RETRYABLE else SA_FAILED_TERMINAL);
          submission_state = (if fd_retryable f then EVAL_RETRYABLE else TERMINAL_INVALID);
          eval_state = (if fd_retryable f then ER_FAILED_RETRYABLE else ER_FAILED_TERMINAL)
      in tx_bind (latch_attempt i (\<lambda>a. a\<lparr>sa_state := attempt_state,
             sa_finished_at := Some (se_now env), sa_fault_class := Some (fd_class f),
             sa_fault_code := Some (fd_code f), sa_fault_message := Some (fd_message f)\<rparr>))
        (\<lambda>latched. if \<not> latched then tx_return () else tx_seq
          [upd_run run (\<lambda>r. r\<lparr>er_state := eval_state, er_fault_class := Some (fd_class f),
             er_fault_code := Some (fd_code f), er_fault_message := Some (fd_message f),
             er_finished_at := Some (se_now env)\<rparr>),
           upd_sub sub (\<lambda>s. (set_fault (fd_class f) (fd_code f) (fd_message f) s)
             \<lparr>ms_state := submission_state, ms_retry_count := Suc (ms_retry_count s),
              ms_updated_at := se_now env\<rparr>),
           ins_event (Some sub) (Some i) ''eval_failed'' ERROR (fd_message f)
             (JObj [(''fault_class'', fault_json (fd_class f)), (''fault_code'', JStr (fd_code f)),
                    (''retryable'', JBool (fd_retryable f))]),
           (case v of None \<Rightarrow> tx_return ()
            | Some w \<Rightarrow> insert_artifacts_from_verdict env sub i w)]))"

text \<open>The dispatcher's completion step: a verdict's state selects success or a classified failure.\<close>

definition complete_eval :: "sess \<Rightarrow> nat \<Rightarrow> nat \<Rightarrow> nat \<Rightarrow> json \<Rightarrow> (db, unit) tx" where
  "complete_eval env sub i run v =
     (if jget ''state'' v = JStr ''succeeded'' then mark_eval_succeeded env sub i run v
      else mark_eval_failed env sub i run (classify_failure_verdict v) (Some v))"

section \<open>Eval runs and their attempts\<close>

text \<open>
  What ties the eval runs to the attempts: an active run belongs to a RUNNING attempt at the EVAL
  stage, for the same submission, and the run of a RUNNING attempt is active.
\<close>

definition runs_linked :: "eval_run list \<Rightarrow> attempt list \<Rightarrow> bool" where
  "runs_linked rs as \<longleftrightarrow> (\<forall>r \<in> set rs.
     (active_run (er_state r) \<longrightarrow> (\<exists>a \<in> set as. sa_stage a = EVAL \<and> sa_id a = er_attempt_id r \<and>
        sa_state a = SA_RUNNING \<and> sa_submission_id a = er_submission_id r)) \<and>
     (\<forall>a \<in> set as. sa_stage a = EVAL \<and> sa_id a = er_attempt_id r \<longrightarrow>
        sa_submission_id a = er_submission_id r \<and>
        (sa_state a = SA_RUNNING \<longrightarrow> active_run (er_state r))))"

definition eval_inv :: "db \<Rightarrow> bool" where
  "eval_inv d \<longleftrightarrow> ledger d \<and> keys_below (next_id d) (map er_id (eval_runs d)) \<and>
     eval_runs_ok (eval_runs d) \<and> runs_linked (eval_runs d) (attempts d) \<and>
     (\<forall>r \<in> set (eval_runs d). er_attempt_id r < next_id d) \<and>
     distinct (map er_attempt_id (eval_runs d))"

lemma eval_invD:
  assumes "eval_inv d"
  shows "ledger d" "keys_below (next_id d) (map er_id (eval_runs d))"
    "eval_runs_ok (eval_runs d)" "runs_linked (eval_runs d) (attempts d)"
    "r \<in> set (eval_runs d) \<Longrightarrow> er_attempt_id r < next_id d"
    "distinct (map er_attempt_id (eval_runs d))"
  using assms by (simp_all add: eval_inv_def)

lemma active_run_running:
  assumes "eval_inv d" "r \<in> set (eval_runs d)" "active_run (er_state r)"
  shows "some_sub_in [EVAL_RUNNING] d"
proof -
  obtain a where a: "a \<in> set (attempts d)" "sa_stage a = EVAL" "sa_state a = SA_RUNNING"
    using eval_invD(4) [OF assms(1)] assms(2,3) by (auto simp: runs_linked_def)
  then have "busy a" by (simp add: busy_def open_attempt_def)
  then show ?thesis
    using ledgerD(5) [OF eval_invD(1) [OF assms(1)]] a
    by (fastforce simp: ledger_ok_def some_sub_in_def list_ex_iff)
qed

lemma eval_runs_ok_snoc:
  "(\<And>r. r \<in> set rs \<Longrightarrow> \<not> active_run (er_state r)) \<Longrightarrow> eval_runs_ok (rs @ [r])"
proof -
  assume none: "\<And>r. r \<in> set rs \<Longrightarrow> \<not> active_run (er_state r)"
  then have "unique_by active_key rs"
    by (induction rs) (auto simp: unique_by_Cons active_key_def)
  then show ?thesis using none by (simp add: eval_runs_ok_def unique_by_snoc active_key_def)
qed

section \<open>The pick\<close>

lemma set_eval_claimable:
  "r \<in> set (eval_claimable env d) \<Longrightarrow> r \<in> set (submissions d) \<and> ms_state r \<in> set [EVAL_QUEUED]"
  by (auto simp: eval_claimable_def)

interpretation eval_queue: stage_queue EVAL EVAL_RUNNING "[EVAL_QUEUED]" eval_claimable
  by unfold_locales (auto elim: running_state.elims dest: set_eval_claimable)

lemma next_eval_claimable: "next_eval env d = Some r \<Longrightarrow> r \<in> set (eval_claimable env d)"
  by (auto simp: next_eval_def dest: limit1_Some)

lemma reject_ledger:
  assumes "ledger d" "next_eval env d = Some r"
  shows "ledger (reject_already_validated env r d)"
proof (rule ledger_quiet [OF assms(1)])
  show "subs_ok (submissions (reject_already_validated env r d))"
    using ledger_subs_keys [OF assms(1)]
    by (simp add: reject_already_validated_def Let_def keeps_keys_def)
  have "idle (ms_id r) (attempts d)"
    using eval_queue.ready_idle [OF assms(1) next_eval_claimable [OF assms(2)]] .
  then show "(\<forall>q. ms_id q = ms_id r \<longrightarrow> ms_state ((set_fault MINER_FAULT ''hotkey_already_validated''
      ''hotkey already has a validated model submission'' q)
        \<lparr>ms_state := TERMINAL_INVALID, ms_updated_at := se_now env,
         ms_finished_at := Some (se_now env)\<rparr>) = ms_state q) \<or>
    (\<exists>s. idle s (attempts d) \<and> (\<forall>q. ms_id q = ms_id r \<longrightarrow> ms_id q = s))" by blast
qed (simp_all add: reject_already_validated_def Let_def keeps_id_def)

text \<open>What the pick leaves alone, and what it returns.\<close>

lemma pick_eval_frame:
  assumes "pick_eval env d = (x, d')"
  shows "d' = d\<lparr>submissions := submissions d', events := events d'\<rparr>"
  using assms
proof (induction env d arbitrary: x d' rule: pick_eval.induct)
  case (1 env d)
  show ?case
  proof (cases "next_eval env d")
    case (Some r)
    then show ?thesis
      using "1.prems" "1.IH" [OF Some _ , of x d']
      by (auto simp: pick_eval.simps [of env d] reject_already_validated_def Let_def split: if_splits)
  qed (use "1.prems" in \<open>simp add: pick_eval.simps [of env d]\<close>)
qed

lemma pick_eval_ledger: "ledger d \<Longrightarrow> pick_eval env d = (x, d') \<Longrightarrow> ledger d'"
proof (induction env d arbitrary: x d' rule: pick_eval.induct)
  case (1 env d)
  show ?case
  proof (cases "next_eval env d")
    case (Some r)
    then show ?thesis
      using "1.prems" "1.IH" [OF Some _ reject_ledger [OF "1.prems"(1) Some]]
      by (auto simp: pick_eval.simps [of env d] split: if_splits)
  qed (use "1.prems" in \<open>simp add: pick_eval.simps [of env d]\<close>)
qed

lemma pick_eval_result:
  "pick_eval env d = (Some r, d') \<Longrightarrow> next_eval env d' = Some r \<and> \<not> hotkey_already_scored (ms_hotkey r) d'"
  "pick_eval env d = (None, d') \<Longrightarrow> next_eval env d' = None"
proof (induction env d rule: pick_eval.induct)
  case (1 env d)
  {
    case 1
    then show ?case using "1.IH"
      by (cases "next_eval env d") (auto simp: pick_eval.simps [of env d] split: if_splits)
  next
    case 2
    then show ?case using "1.IH"
      by (cases "next_eval env d") (auto simp: pick_eval.simps [of env d] split: if_splits)
  }
qed

lemma pick_eval_subs:
  assumes "pick_eval env d = (x, d')" "q \<in> set (submissions d')"
  shows "q \<in> set (submissions d) \<or> ms_state q = TERMINAL_INVALID"
  using assms
proof (induction env d arbitrary: x d' rule: pick_eval.induct)
  case (1 env d)
  show ?case
  proof (cases "next_eval env d")
    case (Some r)
    then show ?thesis
      using "1.prems" "1.IH" [OF Some _ , of x d']
      by (auto simp: pick_eval.simps [of env d] reject_already_validated_def Let_def in_update_where
          split: if_splits)
  qed (use "1.prems" in \<open>simp add: pick_eval.simps [of env d]\<close>)
qed

lemma eval_inv_frame:
  assumes "eval_inv d" "ledger d'" "attempts d' = attempts d" "eval_runs d' = eval_runs d"
    "next_id d \<le> next_id d'"
  shows "eval_inv d'"
  unfolding eval_inv_def using assms
  by (fastforce simp: eval_inv_def intro: keys_below_mono)

lemma pick_eval_inv:
  assumes "eval_inv d" "pick_eval env d = (x, d')" shows "eval_inv d'"
proof (rule eval_inv_frame [OF assms(1) pick_eval_ledger [OF eval_invD(1) [OF assms(1)] assms(2)]])
  note f = pick_eval_frame [OF assms(2)]
  show "attempts d' = attempts d" "eval_runs d' = eval_runs d" "next_id d \<le> next_id d'"
    using arg_cong [OF f, of attempts] arg_cong [OF f, of eval_runs] arg_cong [OF f, of next_id]
    by simp_all
qed

section \<open>Claiming\<close>

lemma claim_eval_row_ledger:
  assumes "ledger d" "r \<in> set (eval_claimable env d)"
    "claim_eval_row env w lease f r h king d = Inr (x, d')"
  shows "ledger d'"
proof -
  obtain rq mh where "f r king h (Suc (next_id d)) = Inr rq" "ms_model_hash r = Some mh"
    using assms(3) by (auto simp: claim_eval_row_def tx split: sum.splits option.splits)
  with assms(3) show ?thesis
    by (intro eval_queue.claim_ledger [OF assms(1,2)])
      (auto simp: claim_eval_row_def Let_def tx ins_attempt_def upd_sub_def keeps_id_def)
qed

lemma runs_linked_claim:
  assumes "runs_linked rs as" "\<And>r. r \<in> set rs \<Longrightarrow> er_attempt_id r \<noteq> sa_id a"
    "sa_stage a = EVAL" "sa_state a = SA_RUNNING" "sa_submission_id a = er_submission_id q"
    "er_attempt_id q = sa_id a" "active_run (er_state q)"
    "\<And>b. b \<in> set as \<Longrightarrow> sa_id b \<noteq> sa_id a"
  shows "runs_linked (rs @ [q]) (as @ [a])"
  unfolding runs_linked_def
proof (intro ballI conjI impI, goal_cases)
  case (1 r)
  then show ?case using assms by (auto simp: runs_linked_def)
next
  case (2 r b)
  have "r \<in> set rs \<or> r = q" "b \<in> set as \<or> b = a" "sa_id b = er_attempt_id r"
    using 2 by auto
  then have "r \<in> set rs \<and> b \<in> set as \<or> r = q \<and> b = a"
    using assms(2,6,8) by metis
  then show ?case using 2 assms(1,5) unfolding runs_linked_def by blast
next
  case (3 r b)
  have "r \<in> set rs \<or> r = q" "b \<in> set as \<or> b = a" "sa_id b = er_attempt_id r"
    using 3 by auto
  then have "r \<in> set rs \<and> b \<in> set as \<or> r = q"
    using assms(2) by metis
  then show ?case using 3 assms(1,7) unfolding runs_linked_def by blast
qed

lemma claim_eval_row_outcome:
  assumes "eval_inv d" "r \<in> set (eval_claimable env d)" "\<not> some_sub_in [EVAL_RUNNING] d"
    and "f r king h (Suc (next_id d)) = Inr rq" "ms_model_hash r = Some mh"
  obtains d' where "claim_eval_row env w lease f r h king d = Inr (Some
      \<lparr>ce_submission_id = ms_id r, ce_attempt_id = next_id d, ce_eval_run_id = Suc (next_id d),
       ce_host = h, ce_request = rq\<rparr>, d')"
    "eval_inv d'" "holds EVAL (next_id d) (ms_id r) d'"
    "eval_runs d' = eval_runs d @ [new_eval_run env (Suc (next_id d)) (next_id d) r mh king h rq]"
proof -
  have none: "\<not> active_run (er_state q)" if "q \<in> set (eval_runs d)" for q
    using active_run_running [OF assms(1) that] assms(3) by blast
  have run: "eval_runs_ok (eval_runs d @ [q])" for q
    by (rule eval_runs_ok_snoc) (rule none)
  obtain d' where d': "claim_eval_row env w lease f r h king d = Inr (Some
      \<lparr>ce_submission_id = ms_id r, ce_attempt_id = next_id d, ce_eval_run_id = Suc (next_id d),
       ce_host = h, ce_request = rq\<rparr>, d')"
    "attempts d' = attempts d @ [new_attempt (next_id d) (ms_id r) EVAL
       (next_attempt_number (ms_id r) EVAL d) w (Some (se_clock env + lease)) (se_now env) (rq_snapshot rq)]"
    "eval_runs d' = eval_runs d @ [new_eval_run env (Suc (next_id d)) (next_id d) r mh king h rq]"
    "next_id d' = Suc (Suc (next_id d))"
    using eval_queue.claim_attempt [OF eval_invD(1) [OF assms(1)] assms(2)]
      ledger_subs_keys [OF eval_invD(1) [OF assms(1)]] run assms(4,5)
    by (simp add: claim_eval_row_def tx ins_attempt_def upd_sub_def keeps_keys_def)
  have "ledger d'" by (rule claim_eval_row_ledger [OF eval_invD(1) [OF assms(1)] assms(2) d'(1)])
  moreover have "runs_linked (eval_runs d') (attempts d')"
    unfolding d'(2,3)
    by (rule runs_linked_claim [OF eval_invD(4) [OF assms(1)]])
      (use eval_invD(5) [OF assms(1)] ledgerD(1) [OF eval_invD(1) [OF assms(1)]] in
        \<open>fastforce simp: new_eval_run_def active_run_def keys_below_def\<close>)+
  moreover have "keys_below (next_id d') (map er_id (eval_runs d'))"
    using eval_invD(2) [OF assms(1)]
    by (auto simp: d'(3,4) new_eval_run_def intro!: keys_below_snoc)
  moreover have "er_attempt_id q < next_id d'" if "q \<in> set (eval_runs d')" for q
    using that eval_invD(5) [OF assms(1), of q] by (auto simp: d'(3,4) new_eval_run_def)
  moreover have "distinct (map er_attempt_id (eval_runs d'))"
    using eval_invD(5,6) [OF assms(1)] by (force simp: d'(3) new_eval_run_def)
  ultimately have "eval_inv d'" using run by (simp add: eval_inv_def d'(3))
  moreover have "holds EVAL (next_id d) (ms_id r) d'" by (simp add: holds_def d'(2))
  ultimately show thesis using d' that by blast
qed

lemma mark_retryable_ledger:
  assumes "ledger d" "idle s (attempts d)" "mark_retryable env s cls code msg d = Inr (x, d')"
  shows "ledger d'"
  by (rule ledger_quiet [OF assms(1)])
    (use assms(2,3) in \<open>auto simp: mark_retryable_def tx upd_sub_def keeps_id_def\<close>)

lemma claim_next_eval_cases:
  obtains (Idle) d' where "claim_next_eval env w lease f d = Inr (None, d')"
      "d' = d \<or> (\<exists>x. pick_eval env d = (x, d'))"
  | (Kingless) r d' where "pick_eval env d = (Some r, d')" "claim_next_eval env w lease f d =
      tx_then (mark_retryable env (ms_id r) INFRA_FAULT ''missing_active_lead_king''
        ''No active lead king is available for eval'') (tx_return None) d'"
  | (Row) r d' h king where "pick_eval env d = (Some r, d')" "\<not> some_sub_in [EVAL_RUNNING] d"
      "\<not> some_sub_in [EVAL_WIN, SET_REIGN_RUNNING] d" "se_lock env"
      "claim_next_eval env w lease f d = claim_eval_row env w lease f r h king d'"
proof (cases "se_lock env \<and> \<not> some_sub_in [EVAL_RUNNING] d \<and>
    \<not> some_sub_in [EVAL_WIN, SET_REIGN_RUNNING] d")
  case False
  then have "claim_next_eval env w lease f d = Inr (None, d)"
    by (auto simp: claim_next_eval_def tx_return_def)
  then show thesis using Idle by blast
next
  case True
  obtain x d' where p: "pick_eval env d = (x, d')" by force
  show thesis
  proof (cases "x = None \<or> ready_host env EVAL 8 d' = None")
    case idle: True
    have "claim_next_eval env w lease f d = Inr (None, d')"
    proof (cases x)
      case None
      then show ?thesis using True p by (simp add: claim_next_eval_def tx_return_def)
    next
      case (Some r)
      then show ?thesis using True p idle by (simp add: claim_next_eval_def tx_return_def)
    qed
    then show thesis using Idle p by blast
  next
    case False
    then obtain r h where r: "x = Some r" "ready_host env EVAL 8 d' = Some h" by auto
    show thesis
    proof (cases "lead_king d'")
      case None
      with True p r show thesis by (intro Kingless [of r d']) (simp_all add: claim_next_eval_def)
    next
      case (Some king)
      with True p r show thesis by (intro Row [of r d' h king]) (simp_all add: claim_next_eval_def)
    qed
  qed
qed

lemma pick_eval_queued:
  assumes "pick_eval env d = (Some r, d')"
  shows "r \<in> set (eval_claimable env d')" "r \<in> set (submissions d)" "ms_state r = EVAL_QUEUED"
proof -
  show c: "r \<in> set (eval_claimable env d')"
    using next_eval_claimable pick_eval_result(1) [OF assms] by blast
  then have "r \<in> set (submissions d')" "ms_state r = EVAL_QUEUED" using set_eval_claimable by fastforce+
  then show "r \<in> set (submissions d)" "ms_state r = EVAL_QUEUED"
    using pick_eval_subs [OF assms] by fastforce+
qed

lemma pick_eval_not_running:
  assumes "pick_eval env d = (x, d')" "\<not> some_sub_in [EVAL_RUNNING] d"
  shows "\<not> some_sub_in [EVAL_RUNNING] d'"
  using assms(2) pick_eval_subs [OF assms(1)] by (fastforce simp: some_sub_in_def list_ex_iff)

lemma one_active_run:
  assumes "\<And>r. r \<in> set rs \<Longrightarrow> \<not> active_run (er_state r)" "active_run (er_state q)"
  shows "filter (\<lambda>r. active_run (er_state r)) (rs @ [q]) = [q]"
  using assms by (simp add: filter_empty_conv)

lemma mark_retryable_total:
  assumes "ledger d" shows "\<exists>d'. mark_retryable env s cls code msg d = Inr ((), d')"
  using ledger_subs_keys [OF assms]
  by (simp add: mark_retryable_def upd_sub_def tx keeps_keys_def)

text \<open>
  C2. One evaluation at a time. From a database in order, with a builder that gives a request and
  hashed submissions in the queue, \<open>claim_next_eval\<close> never raises and keeps the database in order.
  When it claims, no submission was being evaluated or crowned, the submission comes from the queue,
  its hotkey was not scored before, and the run it starts is the only active one.
\<close>

theorem claim_next_eval_one_at_a_time:
  assumes "eval_inv d" and "\<forall>r king h run. \<exists>rq. builder r king h run = Inr rq"
    and "\<forall>r \<in> set (submissions d). ms_state r = EVAL_QUEUED \<longrightarrow> ms_model_hash r \<noteq> None"
  shows "\<exists>res d'. claim_next_eval env worker lease builder d = Inr (res, d') \<and> eval_inv d' \<and>
    (case res of None \<Rightarrow> True
     | Some c \<Rightarrow> \<not> some_sub_in [EVAL_RUNNING, EVAL_WIN, SET_REIGN_RUNNING] d \<and>
         (\<exists>r \<in> set (submissions d). ms_id r = ce_submission_id c \<and> ms_state r = EVAL_QUEUED \<and>
            \<not> hotkey_already_scored (ms_hotkey r) (snd (pick_eval env d))) \<and>
         holds EVAL (ce_attempt_id c) (ce_submission_id c) d' \<and>
         map er_id (filter (\<lambda>r. active_run (er_state r)) (eval_runs d')) = [ce_eval_run_id c])"
proof (cases rule: claim_next_eval_cases [of env worker lease builder d])
  case (Idle d')
  then have "eval_inv d'" using assms(1) pick_eval_inv by blast
  then show ?thesis using Idle by force
next
  case (Kingless r d')
  have inv: "eval_inv d'" by (rule pick_eval_inv [OF assms(1) Kingless(1)])
  obtain d2 where d2: "mark_retryable env (ms_id r) INFRA_FAULT ''missing_active_lead_king''
        ''No active lead king is available for eval'' d' = Inr ((), d2)"
    using mark_retryable_total [OF eval_invD(1) [OF inv]] by blast
  have "idle (ms_id r) (attempts d')"
    using eval_queue.ready_idle [OF eval_invD(1) [OF inv] pick_eval_queued(1) [OF Kingless(1)]] .
  then have "ledger d2" by (rule mark_retryable_ledger [OF eval_invD(1) [OF inv] _ d2])
  then have "eval_inv d2"
    by (rule eval_inv_frame [OF inv]) (use d2 in \<open>auto simp: mark_retryable_def upd_sub_def tx\<close>)
  then show ?thesis using Kingless(2) d2 by (auto simp: tx_then_def tx_bind_def tx_return_def)
next
  case (Row r d' h king)
  have inv: "eval_inv d'" by (rule pick_eval_inv [OF assms(1) Row(1)])
  note q = pick_eval_queued [OF Row(1)]
  have nr: "\<not> some_sub_in [EVAL_RUNNING] d'" by (rule pick_eval_not_running [OF Row(1,2)])
  obtain rq mh where rq: "builder r king h (Suc (next_id d')) = Inr rq" and mh: "ms_model_hash r = Some mh"
    using assms(2,3) q by fastforce
  obtain d2 where d2: "claim_eval_row env worker lease builder r h king d' = Inr (Some
      \<lparr>ce_submission_id = ms_id r, ce_attempt_id = next_id d', ce_eval_run_id = Suc (next_id d'),
       ce_host = h, ce_request = rq\<rparr>, d2)"
    "eval_inv d2" "holds EVAL (next_id d') (ms_id r) d2"
    "eval_runs d2 = eval_runs d' @ [new_eval_run env (Suc (next_id d')) (next_id d') r mh king h rq]"
    by (rule claim_eval_row_outcome [where f = builder, OF inv q(1) nr rq mh])
  have "filter (\<lambda>r. active_run (er_state r)) (eval_runs d2) =
      [new_eval_run env (Suc (next_id d')) (next_id d') r mh king h rq]"
    unfolding d2(4) using active_run_running [OF inv] nr
    by (intro one_active_run) (auto simp: new_eval_run_def active_run_def)
  then show ?thesis
    using d2 q Row pick_eval_result(1) [OF Row(1)]
    by (auto simp: new_eval_run_def some_sub_in_def list_ex_iff)
qed

section \<open>Finishing\<close>

lemma latch_update:
  assumes "ledger d" "holds st i s d"
  shows "update_where (\<lambda>a. sa_id a = i \<and> sa_state a = SA_RUNNING) f (attempts d) =
    update_where (\<lambda>a. sa_id a = i) f (attempts d)"
proof -
  obtain a where a: "a \<in> set (attempts d)" "sa_id a = i" "sa_state a = SA_RUNNING"
    using assms(2) by (rule holdsE)
  have "sa_state b = SA_RUNNING" if "b \<in> set (attempts d)" "sa_id b = i" for b
    using keys_below_same [OF ledgerD(1) [OF assms(1)] that(1) a(1)] that(2) a by simp
  then show ?thesis by (auto simp: update_where_def)
qed

lemma latch_attempt_held:
  assumes "ledger d" "holds st i s d" "closes f"
  shows "latch_attempt i f d = Inr (True, d\<lparr>attempts := update_where (\<lambda>a. sa_id a = i) f (attempts d)\<rparr>)"
proof -
  have "list_ex (\<lambda>a. sa_id a = i \<and> sa_state a = SA_RUNNING) (attempts d)"
    using assms(2) by (auto simp: holds_def list_ex_iff)
  moreover have "attempts_ok (update_where (\<lambda>a. sa_id a = i) f (attempts d))"
    using attempts_ok_update [OF ledgerD(3) [OF assms(1)]] assms(3) by blast
  ultimately show ?thesis
    using latch_update [OF assms(1,2), of f] by (auto simp: latch_attempt_def tx)
qed

lemma latch_attempt_missed:
  assumes "attempts_ok (attempts d)" "\<And>a. a \<in> set (attempts d) \<Longrightarrow> sa_id a = i \<Longrightarrow> sa_state a \<noteq> SA_RUNNING"
  shows "latch_attempt i f d = Inr (False, d)"
proof -
  have "update_where (\<lambda>a. sa_id a = i \<and> sa_state a = SA_RUNNING) f (attempts d) = attempts d"
    using assms(2) by (intro update_where_id) auto
  moreover have "\<not> list_ex (\<lambda>a. sa_id a = i \<and> sa_state a = SA_RUNNING) (attempts d)"
    using assms(2) by (auto simp: list_ex_iff)
  ultimately show ?thesis using assms(1) by (auto simp: latch_attempt_def tx)
qed

text \<open>Statements that touch only the artifacts, the events and the key counter.\<close>

definition same_work :: "db \<Rightarrow> db \<Rightarrow> bool" where
  "same_work d d' \<longleftrightarrow> same_ledger d d' \<and> eval_runs d' = eval_runs d"

interpretation work_frames: state_preorder same_work
  by unfold_locales (auto simp: same_work_def same_ledger_def)

lemma keeps_work_statements:
  "keeps same_work tx_fresh" "keeps same_work (ins_artifact a)"
  "keeps same_work (ins_event s i ty sev msg j)"
  by (auto simp: keeps_def same_work_def same_ledger_def tx)

lemma insert_artifacts_frame: "keeps same_work (insert_artifacts_from_verdict env s i v)"
  unfolding insert_artifacts_from_verdict_def
  by (intro work_frames.keeps_rules keeps_work_statements)

lemma insert_artifacts_total: "insert_artifacts_from_verdict env s i v d \<noteq> Inl e"
proof -
  have "tx_for rs (\<lambda>a. tx_bind tx_fresh (\<lambda>k. ins_artifact (a\<lparr>ar_id := k\<rparr>))) d \<noteq> Inl e" for rs d
    by (induction rs arbitrary: d) (auto simp: tx)
  then show ?thesis by (simp add: insert_artifacts_from_verdict_def)
qed

definition success_row :: "sess \<Rightarrow> sub_state \<Rightarrow> submission \<Rightarrow> submission" where
  "success_row env st s = s\<lparr>ms_state := st, ms_updated_at := se_now env,
     ms_finished_at := (if st = COMPLETE_LOSS then Some (se_now env) else ms_finished_at s)\<rparr>"

lemma record_success_effect:
  assumes "record_success env s i run v st d = Inr (x, d')"
  shows "attempts d' = attempts d" "eval_runs d' = update_where (\<lambda>r. er_id r = run) (run_succeeded env v) (eval_runs d)"
    "submissions d' = update_where (\<lambda>r. ms_id r = s) (success_row env st) (submissions d)"
    "subs_ok (submissions d')" "next_id d \<le> next_id d'"
proof -
  obtain d1 where d1: "insert_artifacts_from_verdict env s i v
    (d\<lparr>eval_runs := update_where (\<lambda>r. er_id r = run) (run_succeeded env v) (eval_runs d),
       submissions := update_where (\<lambda>r. ms_id r = s) (success_row env st) (submissions d)\<rparr>) = Inr ((), d1)"
    "d' = d1\<lparr>events := events d'\<rparr>"
    "subs_ok (update_where (\<lambda>r. ms_id r = s) (success_row env st) (submissions d))"
    using assms by (auto simp: record_success_def tx upd_run_def upd_sub_def success_row_def [abs_def])
  have "same_work (d\<lparr>eval_runs := update_where (\<lambda>r. er_id r = run) (run_succeeded env v) (eval_runs d),
       submissions := update_where (\<lambda>r. ms_id r = s) (success_row env st) (submissions d)\<rparr>) d1"
    using insert_artifacts_frame d1(1) by (auto simp: keeps_def)
  moreover have "attempts d' = attempts d1" "eval_runs d' = eval_runs d1"
    "submissions d' = submissions d1" "next_id d' = next_id d1"
    by (subst d1(2), simp)+
  ultimately show "attempts d' = attempts d" "eval_runs d' = update_where (\<lambda>r. er_id r = run) (run_succeeded env v) (eval_runs d)"
    "submissions d' = update_where (\<lambda>r. ms_id r = s) (success_row env st) (submissions d)"
    "subs_ok (submissions d')" "next_id d \<le> next_id d'"
    using d1(3) by (auto simp: same_work_def same_ledger_def)
qed

definition succeeded_state :: "nat \<Rightarrow> nat \<Rightarrow> json \<Rightarrow> db \<Rightarrow> sub_state" where
  "succeeded_state s run v d = (if \<not> truthy (jget ''challenger_won'' v) then COMPLETE_LOSS
     else if prior_wins s run d = 0 then EVAL_QUEUED else EVAL_WIN)"

lemma mark_eval_succeeded_effect:
  assumes "ledger d" "holds EVAL i s d" "mark_eval_succeeded env s i run v d = Inr (x, d')"
  obtains f g where
    "attempts d' = update_where (\<lambda>a. sa_id a = i) f (attempts d)" "closes f"
    "eval_runs d' = update_where (\<lambda>r. er_id r = run) (run_succeeded env v) (eval_runs d)"
    "submissions d' = update_where (\<lambda>r. ms_id r = s) g (submissions d)" "keeps_id g"
    "\<forall>r. ms_state (g r) = succeeded_state s run v d"
    "\<forall>r. succeeded_state s run v d = EVAL_QUEUED \<longrightarrow> ms_priority (g r) = 0"
    "\<forall>r. ms_hotkey (g r) = ms_hotkey r"
    "subs_ok (submissions d')" "next_id d \<le> next_id d'"
proof -
  define f :: "attempt \<Rightarrow> attempt" where "f = (\<lambda>a. a\<lparr>sa_state := SA_SUCCEEDED, sa_finished_at := Some (se_now env),
    sa_result_summary := v\<rparr>)"
  have f: "closes f" by (simp add: f_def closes_def open_attempt_def)
  define d1 where "d1 = d\<lparr>attempts := update_where (\<lambda>a. sa_id a = i) f (attempts d)\<rparr>"
  have latch: "latch_attempt i f d = Inr (True, d1)"
    unfolding d1_def by (rule latch_attempt_held [OF assms(1,2) f])
  have wins: "prior_wins s run d1 = prior_wins s run d" by (simp add: d1_def prior_wins_def)
  show thesis
  proof (cases "truthy (jget ''challenger_won'' v) \<and> prior_wins s run d = 0")
    case True
    define d2 where "d2 = d1\<lparr>submissions := update_where (\<lambda>r. ms_id r = s) (\<lambda>r. r\<lparr>ms_priority := 0\<rparr>) (submissions d)\<rparr>"
    have r: "record_success env s i run v EVAL_QUEUED d2 = Inr (x, d')"
      using assms(3) latch True wins unfolding mark_eval_succeeded_def f_def [symmetric]
      by (auto simp: tx upd_sub_def d2_def d1_def)
    note e = record_success_effect [OF r]
    show thesis
      by (rule that [of f "\<lambda>r. success_row env EVAL_QUEUED (r\<lparr>ms_priority := 0\<rparr>)"])
        (use e True f in \<open>auto simp: d2_def d1_def update_where_twice succeeded_state_def
          success_row_def keeps_id_def\<close>)
  next
    case False
    have r: "record_success env s i run v (succeeded_state s run v d) d1 = Inr (x, d')"
      using assms(3) latch False wins unfolding mark_eval_succeeded_def f_def [symmetric]
      by (auto simp: tx succeeded_state_def)
    note e = record_success_effect [OF r]
    show thesis
      by (rule that [of f "success_row env (succeeded_state s run v d)"])
        (use e False f in \<open>auto simp: d1_def succeeded_state_def success_row_def keeps_id_def
          split: if_splits\<close>)
  qed
qed

lemma mark_eval_succeeded_ledger:
  assumes "ledger d" "holds EVAL i s d" "mark_eval_succeeded env s i run v d = Inr (x, d')"
  shows "ledger d'"
proof -
  obtain f g where "attempts d' = update_where (\<lambda>a. sa_id a = i) f (attempts d)" "closes f"
    "submissions d' = update_where (\<lambda>r. ms_id r = s) g (submissions d)" "keeps_id g"
    "subs_ok (submissions d')" "next_id d \<le> next_id d'"
    by (rule mark_eval_succeeded_effect [OF assms])
  then show ?thesis
    by (intro ledger_finish [OF assms(1) holds_sole [OF assms(1,2)]]) auto
qed

text \<open>Finishing an attempt together with its run.\<close>

definition ends_run :: "(eval_run \<Rightarrow> eval_run) \<Rightarrow> bool" where
  "ends_run h \<longleftrightarrow> (\<forall>r. er_id (h r) = er_id r \<and> er_attempt_id (h r) = er_attempt_id r \<and>
     er_submission_id (h r) = er_submission_id r \<and> \<not> active_run (er_state (h r)))"

definition run_of :: "nat \<Rightarrow> nat \<Rightarrow> db \<Rightarrow> bool" where
  "run_of run i d \<longleftrightarrow> list_ex (\<lambda>r. er_id r = run \<and> er_attempt_id r = i) (eval_runs d)"

lemma eval_runs_ok_end:
  assumes "eval_runs_ok rs" "ends_run h" shows "eval_runs_ok (update_where p h rs)"
  using assms unfolding eval_runs_ok_def
  by (intro unique_by_update) (auto simp: ends_run_def active_key_def)

lemma runs_linked_finish:
  assumes "runs_linked rs as" "closes f" "ends_run h"
    "\<And>r. r \<in> set rs \<Longrightarrow> q r \<longleftrightarrow> er_attempt_id r = i"
  shows "runs_linked (update_where q h rs) (update_where (\<lambda>a. sa_id a = i) f as)"
  unfolding runs_linked_def
proof (intro ballI conjI impI, goal_cases)
  case (1 r)
  then obtain r0 where r0: "r0 \<in> set rs" "r = (if q r0 then h r0 else r0)"
    by (auto simp: in_update_where)
  moreover have "\<not> q r0" using 1 assms(3) r0(2) by (auto simp: ends_run_def)
  ultimately have r: "r \<in> set rs" "er_attempt_id r \<noteq> i" using assms(4) by auto
  then obtain b where b: "b \<in> set as" "sa_stage b = EVAL" "sa_id b = er_attempt_id r"
      "sa_state b = SA_RUNNING" "sa_submission_id b = er_submission_id r"
    using assms(1) 1 by (auto simp: runs_linked_def)
  then have "b \<in> set (update_where (\<lambda>a. sa_id a = i) f as)"
    using r(2) by (force simp: in_update_where)
  with b show ?case by blast
next
  case (2 r b)
  then obtain r0 b0 where "r0 \<in> set rs" "b0 \<in> set as"
      "sa_stage b0 = EVAL \<and> sa_id b0 = er_attempt_id r0" "er_submission_id r = er_submission_id r0"
      "sa_submission_id b = sa_submission_id b0"
    using assms(2,3) by (auto simp: in_update_where ends_run_def closes_def split: if_splits)
  then show ?case using assms(1) by (auto simp: runs_linked_def)
next
  case (3 r b)
  then obtain b1 where b1: "b1 \<in> set as" "b = (if sa_id b1 = i then f b1 else b1)"
    by (auto simp: in_update_where)
  moreover have "sa_id b1 \<noteq> i" using 3 assms(2) b1(2) by (auto simp: closes_def open_attempt_def)
  ultimately have b: "b \<in> set as" "sa_id b \<noteq> i" by simp_all
  obtain r0 where r0: "r0 \<in> set rs" "r = (if q r0 then h r0 else r0)"
    using 3 by (auto simp: in_update_where)
  then have "er_attempt_id r0 = er_attempt_id r" using assms(3) by (auto simp: ends_run_def)
  then have "\<not> q r0" using assms(4) r0(1) 3 b by simp
  then show ?case using assms(1) r0 3 b by (auto simp: runs_linked_def)
qed

lemma eval_inv_end:
  assumes "eval_inv d" "ledger d'"
    and "attempts d' = update_where (\<lambda>a. sa_id a = i) f (attempts d)"
    and "eval_runs d' = update_where q h (eval_runs d)"
    and "next_id d \<le> next_id d'" "closes f" "ends_run h"
    and "\<And>r. r \<in> set (eval_runs d) \<Longrightarrow> q r \<longleftrightarrow> er_attempt_id r = i"
  shows "eval_inv d'"
proof -
  have "runs_linked (eval_runs d') (attempts d')"
    unfolding assms(3,4) by (rule runs_linked_finish [OF eval_invD(4) [OF assms(1)] assms(6-8)])
  moreover have "keys_below (next_id d') (map er_id (eval_runs d'))"
    using eval_invD(2) [OF assms(1)] assms(5,7) unfolding assms(4)
    by (subst map_update_where) (auto simp: ends_run_def intro: keys_below_mono)
  moreover have "eval_runs_ok (eval_runs d')"
    unfolding assms(4) by (rule eval_runs_ok_end [OF eval_invD(3) [OF assms(1)] assms(7)])
  moreover have att: "map er_attempt_id (eval_runs d') = map er_attempt_id (eval_runs d)"
    using assms(7) unfolding assms(4) by (intro map_update_where) (simp add: ends_run_def)
  moreover have "er_attempt_id r < next_id d'" if r: "r \<in> set (eval_runs d')" for r
  proof -
    have "er_attempt_id r \<in> er_attempt_id ` set (eval_runs d)"
      using r arg_cong [OF att, of set] by auto
    then show ?thesis using eval_invD(5) [OF assms(1)] assms(5) by (fastforce simp: image_iff)
  qed
  ultimately show ?thesis using assms(2) eval_invD(6) [OF assms(1)] by (simp add: eval_inv_def)
qed

lemma run_of_iff:
  assumes "eval_inv d" "run_of run i d" "r \<in> set (eval_runs d)"
  shows "er_id r = run \<longleftrightarrow> er_attempt_id r = i"
proof -
  obtain rn where rn: "rn \<in> set (eval_runs d)" "er_id rn = run" "er_attempt_id rn = i"
    using assms(2) by (auto simp: run_of_def list_ex_iff)
  have "er_id r = run \<Longrightarrow> r = rn"
    using keys_below_same [OF eval_invD(2) [OF assms(1)] assms(3) rn(1)] rn(2) by simp
  moreover have "er_attempt_id r = i \<Longrightarrow> r = rn"
    using eval_invD(6) [OF assms(1)] assms(3) rn by (auto simp: distinct_map dest: inj_onD)
  ultimately show ?thesis using rn by blast
qed

lemma eval_inv_finish:
  assumes "eval_inv d" "run_of run i d" "ledger d'"
    and "attempts d' = update_where (\<lambda>a. sa_id a = i) f (attempts d)"
    and "eval_runs d' = update_where (\<lambda>r. er_id r = run) h (eval_runs d)"
    and "next_id d \<le> next_id d'" "closes f" "ends_run h"
  shows "eval_inv d'"
  by (rule eval_inv_end [OF assms(1,3-8) run_of_iff [OF assms(1,2)]])

lemma mark_eval_succeeded_inv:
  assumes "eval_inv d" "holds EVAL i s d" "run_of run i d" "mark_eval_succeeded env s i run v d = Inr (x, d')"
  shows "eval_inv d'"
proof -
  note l = eval_invD(1) [OF assms(1)]
  obtain f where "attempts d' = update_where (\<lambda>a. sa_id a = i) f (attempts d)" "closes f"
    "eval_runs d' = update_where (\<lambda>r. er_id r = run) (run_succeeded env v) (eval_runs d)"
    "next_id d \<le> next_id d'"
    by (rule mark_eval_succeeded_effect [OF l assms(2,4)])
  then show ?thesis
    using mark_eval_succeeded_ledger [OF l assms(2,4)]
    by (intro eval_inv_finish [OF assms(1,3)]) (auto simp: ends_run_def run_succeeded_def active_run_def)
qed

lemma length_filter_update_key:
  assumes "distinct (map key rs)" "r \<in> set rs"
  shows "length (filter p (update_where (\<lambda>s. key s = key r) f rs)) =
    length (filter (\<lambda>s. p s \<and> key s \<noteq> key r) rs) + (if p (f r) then 1 else 0)"
  using assms
proof (induction rs)
  case (Cons q rs)
  show ?case
  proof (cases "q = r")
    case True
    have k: "key s \<noteq> key r" if "s \<in> set rs" for s
      using that True Cons.prems(1) by (metis distinct.simps(2) image_eqI list.simps(9) set_map)
    then have "update_where (\<lambda>s. key s = key r) f rs = rs"
      by (intro update_where_id)
    moreover have "filter (\<lambda>s. p s \<and> key s \<noteq> key r) rs = filter p rs"
      using k by (intro filter_cong) auto
    ultimately show ?thesis using True by (simp add: update_where_Cons)
  next
    case False
    then have "r \<in> set rs" "key q \<noteq> key r" using Cons.prems(1,2) by auto
    then show ?thesis using Cons by (auto simp: update_where_Cons)
  qed
qed simp

lemma wins_after_success:
  assumes "eval_inv d" "rn \<in> set (eval_runs d)" "er_submission_id rn = s"
    and "jget ''challenger_won'' v = JBool b"
  shows "length (filter (winning_run s) (update_where (\<lambda>r. er_id r = er_id rn) (run_succeeded env v) (eval_runs d)))
    = prior_wins s (er_id rn) d + (if b then 1 else 0)"
  using length_filter_update_key [OF keys_below_distinct [OF eval_invD(2) [OF assms(1)]] assms(2),
      of "winning_run s" "run_succeeded env v"] assms(3,4)
  by (auto simp: prior_wins_def winning_run_def run_succeeded_def)

lemma mark_eval_succeeded_total:
  assumes "ledger d" "holds EVAL i s d" "eval_runs_ok (eval_runs d)"
  shows "\<exists>d'. mark_eval_succeeded env s i run v d = Inr ((), d')"
proof -
  define f :: "attempt \<Rightarrow> attempt" where "f = (\<lambda>a. a\<lparr>sa_state := SA_SUCCEEDED,
    sa_finished_at := Some (se_now env), sa_result_summary := v\<rparr>)"
  have "closes f" by (simp add: f_def closes_def open_attempt_def)
  note latch = latch_attempt_held [OF assms(1,2) this]
  have runs: "eval_runs_ok (update_where p (run_succeeded env v) (eval_runs d))" for p
    by (rule eval_runs_ok_end [OF assms(3)]) (simp add: ends_run_def run_succeeded_def active_run_def)
  have art: "\<exists>d'. insert_artifacts_from_verdict env s i v e = Inr ((), d')" for e
    using insert_artifacts_total [of env s i v e]
    by (cases "insert_artifacts_from_verdict env s i v e") auto
  have rec: "\<exists>d'. record_success env s i run v st e = Inr ((), d')"
    if "eval_runs e = eval_runs d" "subs_ok (submissions e)" for st e
    using runs that subs_ok_keys [OF that(2)]
      art [of "e\<lparr>eval_runs := update_where (\<lambda>r. er_id r = run) (run_succeeded env v) (eval_runs d),
        submissions := update_where (\<lambda>r. ms_id r = s) (\<lambda>s. s\<lparr>ms_state := st, ms_updated_at := se_now env,
          ms_finished_at := (if st = COMPLETE_LOSS then Some (se_now env) else ms_finished_at s)\<rparr>) (submissions e)\<rparr>"]
    by (auto simp: record_success_def tx upd_run_def upd_sub_def keeps_keys_def)
  have sub: "upd_sub s (\<lambda>r. r\<lparr>ms_priority := 0\<rparr>) e = Inr ((), e\<lparr>submissions :=
      update_where (\<lambda>r. ms_id r = s) (\<lambda>r. r\<lparr>ms_priority := 0\<rparr>) (submissions d)\<rparr>)"
    if "submissions e = submissions d" for e
    using ledger_subs_keys [OF assms(1)] that by (simp add: upd_sub_def tx keeps_keys_def)
  have ok: "subs_ok (submissions d)" "subs_ok (update_where p (\<lambda>r. r\<lparr>ms_priority := 0\<rparr>) (submissions d))" for p
    using ledger_subs_keys [OF assms(1)] ledgerD(4) [OF assms(1)] by (simp_all add: keeps_keys_def)
  show ?thesis
    unfolding mark_eval_succeeded_def f_def [symmetric]
    by (auto simp: tx_run latch tx_gets_def sub ok intro!: rec)
qed

definition failed_run :: "sess \<Rightarrow> fault_decision \<Rightarrow> run_state \<Rightarrow> eval_run \<Rightarrow> eval_run" where
  "failed_run env f st r = r\<lparr>er_state := st, er_fault_class := Some (fd_class f),
     er_fault_code := Some (fd_code f), er_fault_message := Some (fd_message f),
     er_finished_at := Some (se_now env)\<rparr>"

definition failed_eval_row :: "sess \<Rightarrow> fault_decision \<Rightarrow> sub_state \<Rightarrow> submission \<Rightarrow> submission" where
  "failed_eval_row env f st s = (set_fault (fd_class f) (fd_code f) (fd_message f) s)
     \<lparr>ms_state := st, ms_retry_count := Suc (ms_retry_count s), ms_updated_at := se_now env\<rparr>"

lemma mark_eval_failed_effect:
  assumes "ledger d" "holds EVAL i s d" "mark_eval_failed env s i run f v d = Inr (x, d')"
  obtains h where
    "attempts d' = update_where (\<lambda>a. sa_id a = i) h (attempts d)" "closes h"
    "eval_runs d' = update_where (\<lambda>r. er_id r = run) (failed_run env f
       (if fd_retryable f then ER_FAILED_RETRYABLE else ER_FAILED_TERMINAL)) (eval_runs d)"
    "submissions d' = update_where (\<lambda>r. ms_id r = s) (failed_eval_row env f
       (if fd_retryable f then EVAL_RETRYABLE else TERMINAL_INVALID)) (submissions d)"
    "subs_ok (submissions d')" "next_id d \<le> next_id d'"
proof -
  define h :: "attempt \<Rightarrow> attempt" where "h = (\<lambda>a. a\<lparr>sa_state := (if fd_retryable f
      then SA_FAILED_RETRYABLE else SA_FAILED_TERMINAL), sa_finished_at := Some (se_now env),
    sa_fault_class := Some (fd_class f), sa_fault_code := Some (fd_code f),
    sa_fault_message := Some (fd_message f)\<rparr>)"
  have h: "closes h" by (simp add: h_def closes_def open_attempt_def)
  define d1 where "d1 = d\<lparr>attempts := update_where (\<lambda>a. sa_id a = i) h (attempts d)\<rparr>"
  have latch: "latch_attempt i h d = Inr (True, d1)"
    unfolding d1_def by (rule latch_attempt_held [OF assms(1,2) h])
  define d2 where "d2 = d\<lparr>attempts := attempts d1,
    eval_runs := update_where (\<lambda>r. er_id r = run) (failed_run env f
      (if fd_retryable f then ER_FAILED_RETRYABLE else ER_FAILED_TERMINAL)) (eval_runs d),
    submissions := update_where (\<lambda>r. ms_id r = s) (failed_eval_row env f
      (if fd_retryable f then EVAL_RETRYABLE else TERMINAL_INVALID)) (submissions d),
    events := events d @ [\<lparr>ev_submission_id = Some s, ev_attempt_id = Some i,
      ev_type = ''eval_failed'', ev_severity = ERROR, ev_message = fd_message f,
      ev_data = JObj [(''fault_class'', fault_json (fd_class f)), (''fault_code'', JStr (fd_code f)),
        (''retryable'', JBool (fd_retryable f))]\<rparr>]\<rparr>"
  have last: "(case v of None \<Rightarrow> tx_return () | Some w \<Rightarrow> insert_artifacts_from_verdict env s i w) d2 = Inr (x, d')"
    and d2: "subs_ok (submissions d2)"
    using assms(3) latch unfolding mark_eval_failed_def Let_def h_def [symmetric]
    by (auto simp: tx_run tx_then_simps stmt_runs_simps stmt_subs_simps ins_event_simps tx_return_simps
      upd_run_def upd_sub_def d1_def d2_def failed_run_def [abs_def] failed_eval_row_def [abs_def])
  have "keeps same_work (case v of None \<Rightarrow> tx_return () | Some w \<Rightarrow> insert_artifacts_from_verdict env s i w)"
    by (auto intro: insert_artifacts_frame work_frames.keeps_rules split: option.split)
  then have "same_work d2 d'" using last by (auto simp: keeps_def)
  then show thesis
    using d2 h by (intro that [of h]) (auto simp: d1_def d2_def same_work_def same_ledger_def)
qed

lemma mark_eval_failed_inv:
  assumes "eval_inv d" "holds EVAL i s d" "run_of run i d" "mark_eval_failed env s i run f v d = Inr (x, d')"
  shows "eval_inv d'"
proof -
  note l = eval_invD(1) [OF assms(1)]
  obtain h where e: "attempts d' = update_where (\<lambda>a. sa_id a = i) h (attempts d)" "closes h"
    "eval_runs d' = update_where (\<lambda>r. er_id r = run) (failed_run env f
       (if fd_retryable f then ER_FAILED_RETRYABLE else ER_FAILED_TERMINAL)) (eval_runs d)"
    "submissions d' = update_where (\<lambda>r. ms_id r = s) (failed_eval_row env f
       (if fd_retryable f then EVAL_RETRYABLE else TERMINAL_INVALID)) (submissions d)"
    "subs_ok (submissions d')" "next_id d \<le> next_id d'"
    by (rule mark_eval_failed_effect [OF l assms(2,4)])
  have "ledger d'"
    by (rule ledger_finish [OF l holds_sole [OF l assms(2)]])
      (use e in \<open>auto simp: keeps_id_def failed_eval_row_def\<close>)
  then show ?thesis
    by (rule eval_inv_finish [OF assms(1,3)])
      (use e in \<open>auto simp: ends_run_def failed_run_def active_run_def split: if_splits\<close>)
qed

lemma complete_eval_inv:
  assumes "eval_inv d" "holds EVAL i s d" "run_of run i d" "complete_eval env s i run v d = Inr (x, d')"
  shows "eval_inv d'"
proof (cases "jget ''state'' v = JStr ''succeeded''")
  case True
  then have "mark_eval_succeeded env s i run v d = Inr (x, d')" using assms(4) by (simp add: complete_eval_def)
  then show ?thesis by (rule mark_eval_succeeded_inv [OF assms(1-3)])
next
  case False
  then have "mark_eval_failed env s i run (classify_failure_verdict v) (Some v) d = Inr (x, d')"
    using assms(4) by (simp add: complete_eval_def)
  then show ?thesis by (rule mark_eval_failed_inv [OF assms(1-3)])
qed

text \<open>
  C1. A win is confirmed before it counts: completing a successful evaluation never raises, keeps the
  database in order and leaves the submission EVAL_WIN exactly when it now has two winning runs; the
  first win goes back to the queue at priority 0, a loss is COMPLETE_LOSS.
\<close>

theorem eval_win_takes_two_wins:
  assumes "eval_inv d" and "holds EVAL i s d" and "rn \<in> set (eval_runs d)" and "er_attempt_id rn = i"
    and "jget ''state'' v = JStr ''succeeded''" and "jget ''challenger_won'' v = JBool b"
  shows "\<exists>d'. complete_eval env s i (er_id rn) v d = Inr ((), d') \<and> eval_inv d' \<and>
    (\<forall>r \<in> set (submissions d'). ms_id r = s \<longrightarrow>
       (let wins = length (filter (winning_run s) (eval_runs d'))
        in ms_state r = (if \<not> b then COMPLETE_LOSS else if wins < 2 then EVAL_QUEUED else EVAL_WIN) \<and>
           (b \<and> wins < 2 \<longrightarrow> ms_priority r = 0)))"
proof -
  note l = eval_invD(1) [OF assms(1)]
  obtain a where a: "a \<in> set (attempts d)" "sa_id a = i" "sa_submission_id a = s" "sa_stage a = EVAL"
    using assms(2) by (rule holdsE)
  have sub: "er_submission_id rn = s"
    using eval_invD(4) [OF assms(1)] assms(3,4) a by (auto simp: runs_linked_def)
  obtain d' where run: "mark_eval_succeeded env s i (er_id rn) v d = Inr ((), d')"
    using mark_eval_succeeded_total [OF l assms(2) eval_invD(3) [OF assms(1)]] by blast
  have "run_of (er_id rn) i d" using assms(3,4) by (auto simp: run_of_def list_ex_iff)
  from mark_eval_succeeded_inv [OF assms(1,2) this run] have "eval_inv d'" .
  moreover obtain f g where "attempts d' = update_where (\<lambda>a. sa_id a = i) f (attempts d)" "closes f" and
    e: "eval_runs d' = update_where (\<lambda>r. er_id r = er_id rn) (run_succeeded env v) (eval_runs d)"
    "submissions d' = update_where (\<lambda>r. ms_id r = s) g (submissions d)" "keeps_id g"
    "\<forall>r. ms_state (g r) = succeeded_state s (er_id rn) v d"
    "\<forall>r. succeeded_state s (er_id rn) v d = EVAL_QUEUED \<longrightarrow> ms_priority (g r) = 0"
    "\<forall>r. ms_hotkey (g r) = ms_hotkey r" "subs_ok (submissions d')" "next_id d \<le> next_id d'"
    by (rule mark_eval_succeeded_effect [OF l assms(2) run])
  have w: "length (filter (winning_run s) (eval_runs d')) =
      prior_wins s (er_id rn) d + (if b then 1 else 0)"
    unfolding e(1) by (rule wins_after_success [OF assms(1,3) sub assms(6)])
  have "r \<in> set (submissions d') \<Longrightarrow> ms_id r = s \<Longrightarrow> \<exists>q. r = g q" for r
    using e(3) unfolding e(2) by (auto simp: in_update_where keeps_id_def split: if_splits)
  ultimately show ?thesis
    using run e(4,5) assms(5,6) by (fastforce simp: complete_eval_def w succeeded_state_def Let_def)
qed

text \<open>
  The latch: once an attempt is no longer RUNNING (swept, or completed by another process), a late
  completion of it, whatever its verdict, changes nothing at all.
\<close>

theorem late_completion_ignored:
  assumes "attempts_ok (attempts d)"
    and "\<forall>a \<in> set (attempts d). sa_id a = i \<longrightarrow> sa_state a \<noteq> SA_RUNNING"
  shows "complete_eval env s i run v d = Inr ((), d)"
proof -
  have latch: "latch_attempt i f d = Inr (False, d)" for f
    by (rule latch_attempt_missed [OF assms(1)]) (use assms(2) in blast)
  show ?thesis
    by (simp add: complete_eval_def mark_eval_succeeded_def mark_eval_failed_def Let_def
        tx_bind_def latch tx_return_def)
qed

section \<open>Queueing and sweeping\<close>

lemma queue_passed_row_idle:
  assumes "ms_id r \<in> set is"
  shows "valid (idle_for is) (queue_passed_row env w r) (\<lambda>_. idle_for is)"
proof (rule validI)
  fix d x d' assume pre: "idle_for is d" and run: "queue_passed_row env w r d = Inr (x, d')"
  have "ledger d'"
    by (rule ledger_quiet [where d = d])
      (use run pre assms in \<open>auto simp: queue_passed_row_def tx upd_sub_def idle_for_def keeps_id_def\<close>)
  then show "idle_for is d'"
    using pre run by (auto simp: idle_for_def queue_passed_row_def tx upd_sub_def)
qed

lemma idle_for_states:
  assumes "ledger d" "\<And>r. r \<in> set rows \<Longrightarrow> r \<in> set (submissions d) \<and> (\<forall>st. running_state st \<noteq> Some (ms_state r))"
  shows "idle_for (map ms_id rows) d"
  using assms idle_if_quiet [OF ledgerD(5,2) [OF assms(1)]] by (auto simp: idle_for_def)

lemma running_state_not:
  "running_state st \<noteq> Some PRE_EVAL_PASSED" "running_state st \<noteq> Some EVAL_RETRYABLE"
  "running_state st \<noteq> Some EVAL_QUEUED" "running_state st \<noteq> Some EVAL_WIN"
  by (cases st; simp)+

lemma queue_pre_eval_passed_ledger:
  assumes "ledger d" "queue_pre_eval_passed env w n d = Inr (k, d')" shows "ledger d'"
proof -
  define rows where "rows = take n (sort_key requeue_order (filter (\<lambda>r.
    ms_state r = PRE_EVAL_PASSED \<and> se_free env (ms_id r)) (submissions d)))"
  have loop: "tx_for rows (queue_passed_row env w) d = Inr ((), d')"
    using assms(2) by (auto simp: queue_pre_eval_passed_def tx rows_def)
  have "idle_for (map ms_id rows) d"
    by (rule idle_for_states [OF assms(1)]) (auto simp: rows_def running_state_not dest!: in_set_takeD)
  then have "idle_for (map ms_id rows) d'"
    by (rule for_invariant [OF loop]) (simp add: queue_passed_row_idle)
  then show ?thesis by (simp add: idle_for_def)
qed

lemma cap_eval_idle:
  assumes "ms_id r \<in> set is"
  shows "valid (idle_for is) (cap_eval env w n r) (\<lambda>_. idle_for is)"
proof (rule validI)
  fix d x d' assume pre: "idle_for is d" and run: "cap_eval env w n r d = Inr (x, d')"
  have "ledger d'"
    by (rule ledger_quiet [where d = d])
      (use run pre assms in \<open>auto simp: cap_eval_def Let_def tx upd_sub_def idle_for_def keeps_id_def\<close>)
  then show "idle_for is d'"
    using pre run by (auto simp: idle_for_def cap_eval_def Let_def tx upd_sub_def)
qed

lemma requeue_eval_idle:
  assumes "ms_id r \<in> set is"
  shows "valid (idle_for is) (requeue_eval env w n r) (\<lambda>_. idle_for is)"
proof (rule validI)
  fix d x d' assume pre: "idle_for is d" and run: "requeue_eval env w n r d = Inr (x, d')"
  have "ledger d'"
    by (rule ledger_quiet [where d = d])
      (use run pre assms in \<open>auto simp: requeue_eval_def tx upd_sub_def idle_for_def keeps_id_def\<close>)
  then show "idle_for is d'"
    using pre run by (auto simp: idle_for_def requeue_eval_def tx upd_sub_def)
qed

lemma requeue_retryable_evals_split:
  assumes "requeue_retryable_evals env w n mr d = Inr (k, d')"
  obtains d1 where
    "tx_for (filter (\<lambda>r. retryable_eval env d r \<and> mr \<le> ms_retry_count r) (submissions d))
      (cap_eval env w mr) d = Inr ((), d1)"
    "tx_for (take n (sort_key requeue_order (filter (\<lambda>r. retryable_eval env d1 r \<and>
       ms_retry_count r < mr) (submissions d1)))) (requeue_eval env w mr) d1 = Inr ((), d')"
  using assms by (auto simp: requeue_retryable_evals_def tx_bind_simps tx_gets_simps tx_then_simps tx_return_simps)

lemma requeue_retryable_evals_ledger:
  assumes "ledger d" "requeue_retryable_evals env w n mr d = Inr (k, d')" shows "ledger d'"
proof -
  obtain d1 where loop:
    "tx_for (filter (\<lambda>r. retryable_eval env d r \<and> mr \<le> ms_retry_count r) (submissions d))
      (cap_eval env w mr) d = Inr ((), d1)"
    "tx_for (take n (sort_key requeue_order (filter (\<lambda>r. retryable_eval env d1 r \<and>
       ms_retry_count r < mr) (submissions d1)))) (requeue_eval env w mr) d1 = Inr ((), d')"
    by (rule requeue_retryable_evals_split [OF assms(2)])
  let ?rows = "filter (\<lambda>r. retryable_eval env d r \<and> mr \<le> ms_retry_count r) (submissions d)"
  let ?next = "take n (sort_key requeue_order (filter (\<lambda>r. retryable_eval env d1 r \<and>
       ms_retry_count r < mr) (submissions d1)))"
  have "idle_for (map ms_id ?rows) d"
    by (rule idle_for_states [OF assms(1)]) (auto simp: retryable_eval_def running_state_not)
  then have "idle_for (map ms_id ?rows) d1"
    by (rule for_invariant [OF loop(1)]) (auto intro: cap_eval_idle)
  then have "ledger d1" by (simp add: idle_for_def)
  then have "idle_for (map ms_id ?next) d1"
    by (rule idle_for_states) (auto simp: retryable_eval_def running_state_not dest!: in_set_takeD)
  then have "idle_for (map ms_id ?next) d'"
    by (rule for_invariant [OF loop(2)]) (simp add: requeue_eval_idle)
  then show ?thesis by (simp add: idle_for_def)
qed

definition sweepable :: "(attempt \<times> nat option) list \<Rightarrow> db \<Rightarrow> bool" where
  "sweepable rows d \<longleftrightarrow> eval_inv d \<and> (\<forall>(a, k) \<in> set rows.
     sole (sa_id a) (sa_submission_id a) (attempts d) \<and>
     (\<forall>r \<in> set (eval_runs d). Some (er_id r) = k \<longleftrightarrow> er_attempt_id r = sa_id a))"

lemma abandon_eval_sweepable:
  assumes "row \<in> set rows"
  shows "valid (sweepable rows) (abandon_eval env w row) (\<lambda>_. sweepable rows)"
proof (rule validI)
  fix d x d' assume pre: "sweepable rows d" and run: "abandon_eval env w row d = Inr (x, d')"
  obtain a k where row: "row = (a, k)" by force
  have inv: "eval_inv d" and sole: "sole (sa_id a) (sa_submission_id a) (attempts d)"
    and own: "\<And>r. r \<in> set (eval_runs d) \<Longrightarrow> (Some (er_id r) = k) = (er_attempt_id r = sa_id a)"
    using pre assms by (auto simp: sweepable_def row)
  define f :: "attempt \<Rightarrow> attempt" where "f = (\<lambda>x. x\<lparr>sa_state := SA_ABANDONED,
    sa_finished_at := Some (se_now env), sa_fault_class := Some REMOTE_EVAL_FAULT,
    sa_fault_code := Some ''eval_attempt_lease_expired'',
    sa_fault_message := Some ''Eval attempt lease expired before completion''\<rparr>)"
  define h :: "eval_run \<Rightarrow> eval_run" where "h = (\<lambda>r. r\<lparr>er_state := ER_FAILED_RETRYABLE,
    er_finished_at := Some (se_now env), er_fault_class := Some REMOTE_EVAL_FAULT,
    er_fault_code := Some ''eval_attempt_lease_expired'',
    er_fault_message := Some ''Eval attempt lease expired before completion''\<rparr>)"
  have f: "closes f" and h: "ends_run h"
    by (simp_all add: f_def h_def closes_def open_attempt_def ends_run_def active_run_def)
  have none: "update_where (\<lambda>r. False) h rs = rs" for rs
    by (simp add: update_where_def)
  obtain g where e: "attempts d' = update_where (\<lambda>a'. sa_id a' = sa_id a) f (attempts d)"
    "eval_runs d' = update_where (\<lambda>r. Some (er_id r) = k) h (eval_runs d)"
    "submissions d' = update_where (\<lambda>r. ms_id r = sa_submission_id a) g (submissions d)"
    "keeps_id g" "subs_ok (submissions d')" "next_id d' = next_id d"
    using run by (cases k) (auto simp: abandon_eval_def row Let_def tx upd_attempt_def upd_run_def
        upd_sub_def f_def h_def keeps_id_def none [unfolded h_def])
  have "ledger d'"
    by (rule ledger_finish [OF eval_invD(1) [OF inv] sole e(1,3,5)]) (use e f in auto)
  then have "eval_inv d'"
    by (rule eval_inv_end [OF inv _ e(1,2)]) (use e f h own in auto)
  moreover have "sole (sa_id b) (sa_submission_id b) (attempts d')"
    "\<forall>r \<in> set (eval_runs d'). Some (er_id r) = j \<longleftrightarrow> er_attempt_id r = sa_id b"
    if "(b, j) \<in> set rows" for b j
  proof -
    have s: "sole (sa_id b) (sa_submission_id b) (attempts d)"
      "\<forall>r \<in> set (eval_runs d). Some (er_id r) = j \<longleftrightarrow> er_attempt_id r = sa_id b"
      using pre that by (auto simp: sweepable_def)
    show "sole (sa_id b) (sa_submission_id b) (attempts d')"
      unfolding e(1) using s(1) f by (blast intro: sole_update)
    show "\<forall>r \<in> set (eval_runs d'). Some (er_id r) = j \<longleftrightarrow> er_attempt_id r = sa_id b"
    proof
      fix r assume "r \<in> set (eval_runs d')"
      then obtain r0 where "r0 \<in> set (eval_runs d)" "er_id r = er_id r0" "er_attempt_id r = er_attempt_id r0"
        using h unfolding e(2) by (auto simp: in_update_where ends_run_def)
      then show "Some (er_id r) = j \<longleftrightarrow> er_attempt_id r = sa_id b" using s(2) by simp
    qed
  qed
  ultimately show "sweepable rows d'" unfolding sweepable_def by fast
qed

lemma eval_abandoned_rows:
  assumes "eval_inv d" "(a, k) \<in> set (eval_abandoned env d)"
  shows "a \<in> set (attempts d)" "sa_stage a = EVAL" "sa_state a = SA_RUNNING"
    "r \<in> set (eval_runs d) \<Longrightarrow> Some (er_id r) = k \<longleftrightarrow> er_attempt_id r = sa_id a"
proof -
  obtain x where x: "x \<in> set (attempts d)" "sa_stage x = EVAL" "sa_state x = SA_RUNNING"
    "(a, k) \<in> set (case filter (\<lambda>r. er_attempt_id r = sa_id x) (eval_runs d) of
       [] \<Rightarrow> [(x, None)] | rs \<Rightarrow> map (\<lambda>r. (x, Some (er_id r))) rs)"
    using assms(2) by (auto simp: eval_abandoned_def)
  then have "a = x" by (auto split: list.splits)
  then have a: "a \<in> set (attempts d) \<and> sa_stage a = EVAL \<and> sa_state a = SA_RUNNING \<and>
      (case filter (\<lambda>r. er_attempt_id r = sa_id a) (eval_runs d) of [] \<Rightarrow> k = None
       | rs \<Rightarrow> k \<in> set (map (\<lambda>r. Some (er_id r)) rs))"
    using x by (auto split: list.splits)
  then show "a \<in> set (attempts d)" "sa_stage a = EVAL" "sa_state a = SA_RUNNING" by auto
  show "Some (er_id r) = k \<longleftrightarrow> er_attempt_id r = sa_id a" if r: "r \<in> set (eval_runs d)"
  proof (cases "filter (\<lambda>r. er_attempt_id r = sa_id a) (eval_runs d)")
    case Nil
    then show ?thesis using a r by (auto simp: filter_empty_conv)
  next
    case (Cons q qs)
    then have "k \<in> set (map (\<lambda>r. Some (er_id r)) (filter (\<lambda>r. er_attempt_id r = sa_id a) (eval_runs d)))"
      using a by simp
    then obtain p where p: "p \<in> set (eval_runs d)" "er_attempt_id p = sa_id a" "k = Some (er_id p)" by auto
    have "er_id r = er_id p \<longleftrightarrow> er_attempt_id r = sa_id a"
      by (rule run_of_iff [OF assms(1) _ r]) (use p in \<open>auto simp: run_of_def list_ex_iff\<close>)
    then show ?thesis using p(3) by simp
  qed
qed

lemma sweep_abandoned_eval_inv:
  assumes "eval_inv d" "sweep_abandoned_eval_attempts env w d = Inr (n, d')"
  shows "eval_inv d'"
proof -
  define rows where "rows = eval_abandoned env d"
  have loop: "tx_for rows (abandon_eval env w) d = Inr ((), d')"
    using assms(2) by (auto simp: sweep_abandoned_eval_attempts_def tx rows_def)
  have "sole (sa_id a) (sa_submission_id a) (attempts d)" if "(a, k) \<in> set rows" for a k
    using eval_abandoned_rows [OF assms(1), of a k env] that
      sole_if_busy [OF ledgerD(5,2,3), OF eval_invD(1) eval_invD(1) eval_invD(1), OF assms(1) assms(1) assms(1)]
    by (simp add: rows_def busy_def open_attempt_def)
  moreover have "\<forall>r \<in> set (eval_runs d). Some (er_id r) = k \<longleftrightarrow> er_attempt_id r = sa_id a"
    if "(a, k) \<in> set rows" for a k
    using eval_abandoned_rows(4) [OF assms(1) that [unfolded rows_def]] by blast
  ultimately have "sweepable rows d"
    using assms(1) unfolding sweepable_def by fast
  then have "sweepable rows d'"
    by (rule for_invariant [OF loop]) (rule abandon_eval_sweepable)
  then show ?thesis by (simp add: sweepable_def)
qed

section \<open>Events of a run\<close>

text \<open>An update that leaves the keys of a run alone and an active run active.\<close>

definition keeps_run :: "(eval_run \<Rightarrow> eval_run) \<Rightarrow> bool" where
  "keeps_run h \<longleftrightarrow> (\<forall>r. er_id (h r) = er_id r \<and> er_attempt_id (h r) = er_attempt_id r \<and>
     er_submission_id (h r) = er_submission_id r \<and>
     (active_run (er_state r) \<longrightarrow> active_run (er_state (h r))))"

lemma eval_inv_touch:
  assumes "eval_inv d" "keeps_run h" "same_ledger d d'"
    and "eval_runs d' = update_where q h (eval_runs d)"
    and "\<And>r. r \<in> set (eval_runs d) \<Longrightarrow> q r \<Longrightarrow> active_run (er_state r) \<or> er_state (h r) = er_state r"
  shows "eval_inv d'"
proof -
  have h: "\<And>r. er_id (h r) = er_id r" "\<And>r. er_attempt_id (h r) = er_attempt_id r"
    "\<And>r. er_submission_id (h r) = er_submission_id r"
    using assms(2) by (auto simp: keeps_run_def)
  have act: "active_run (er_state (if q r then h r else r)) = active_run (er_state r)"
    if "r \<in> set (eval_runs d)" for r
    using assms(2) assms(5) [OF that] by (auto simp: keeps_run_def)
  have "active_run (er_state (h r)) = active_run (er_state r)" if "r \<in> set (eval_runs d)" "q r" for r
    using act [OF that(1)] that(2) by simp
  then have "unique_by active_key (update_where q h (eval_runs d))"
    by (intro unique_by_update)
      (use eval_invD(3) [OF assms(1)] in \<open>auto simp: eval_runs_ok_def active_key_def\<close>)
  moreover have "runs_linked (eval_runs d') (attempts d)"
    unfolding assms(4) runs_linked_def
  proof (intro ballI)
    fix r assume "r \<in> set (update_where q h (eval_runs d))"
    then obtain r0 where "r0 \<in> set (eval_runs d)" "er_attempt_id r = er_attempt_id r0"
      "er_submission_id r = er_submission_id r0" "active_run (er_state r) = active_run (er_state r0)"
      using act h by (auto simp: in_update_where)
    then show "(active_run (er_state r) \<longrightarrow> (\<exists>a \<in> set (attempts d). sa_stage a = EVAL \<and>
        sa_id a = er_attempt_id r \<and> sa_state a = SA_RUNNING \<and> sa_submission_id a = er_submission_id r)) \<and>
      (\<forall>a \<in> set (attempts d). sa_stage a = EVAL \<and> sa_id a = er_attempt_id r \<longrightarrow>
        sa_submission_id a = er_submission_id r \<and> (sa_state a = SA_RUNNING \<longrightarrow> active_run (er_state r)))"
      using eval_invD(4) [OF assms(1)] by (simp add: runs_linked_def)
  qed
  moreover have ids: "map er_id (eval_runs d') = map er_id (eval_runs d)"
    "map er_attempt_id (eval_runs d') = map er_attempt_id (eval_runs d)"
    unfolding assms(4) using h by (auto intro!: map_update_where)
  moreover have "er_attempt_id r < next_id d'" if "r \<in> set (eval_runs d')" for r
    using that assms(3) eval_invD(5) [OF assms(1)] h(2)
    by (fastforce simp: assms(4) in_update_where same_ledger_def)
  ultimately show ?thesis
    using assms(1,3) same_ledger_ledger [OF eval_invD(1) [OF assms(1)] assms(3)]
    by (auto simp: eval_inv_def same_ledger_def assms(4) eval_runs_ok_def intro: keys_below_mono)
qed

lemma set_remote_run_id_inv:
  assumes "eval_inv d" "set_remote_run_id run remote d = Inr (x, d')" shows "eval_inv d'"
  by (rule eval_inv_touch [OF assms(1), where h = "\<lambda>r. r\<lparr>er_remote_run_id := Some remote\<rparr>"
        and q = "\<lambda>r. er_id r = run"])
    (use assms(2) in \<open>auto simp: set_remote_run_id_def upd_run_def tx keeps_run_def same_ledger_def\<close>)

lemma event_update_keeps: "event_update e = Some h \<Longrightarrow> keeps_run h"
  by (auto simp: event_update_def Let_def keeps_run_def active_run_def split: if_splits)

lemma update_for_event_inv:
  assumes "eval_inv d" "update_for_event e run d = Inr (x, d')"
    and "\<And>r. r \<in> set (eval_runs d) \<Longrightarrow> er_id r = run \<Longrightarrow> active_run (er_state r)"
  shows "eval_inv d'"
proof (cases "event_update e")
  case None
  then show ?thesis using assms(1,2) by (simp add: update_for_event_def tx)
next
  case (Some h)
  show ?thesis
    by (rule eval_inv_touch [OF assms(1) event_update_keeps [OF Some],
          where q = "\<lambda>r. er_id r = run \<and> (jget ''type'' e = JStr ''verdict'' \<longrightarrow> er_state r \<noteq> ER_SUCCEEDED)"])
      (use assms(2,3) Some in \<open>auto simp: update_for_event_def tx same_ledger_def\<close>)
qed

definition live_event :: "json \<Rightarrow> db \<Rightarrow> bool" where
  "live_event e d \<longleftrightarrow> (case jget ''eval_run_id'' e of
     JId run \<Rightarrow> list_all (\<lambda>r. er_id r = run \<longrightarrow> active_run (er_state r)) (eval_runs d) | _ \<Rightarrow> True)"

lemma record_remote_event_inv:
  assumes "eval_inv d" "record_remote_event s i e d = Inr (x, d')" "live_event e d"
  shows "eval_inv d'"
proof (cases "remote_event_exists i e d")
  case True
  then show ?thesis using assms(1,2) by (auto simp: record_remote_event_def tx)
next
  case False
  then obtain d1 where d1: "apply_remote_event e d = Inr ((), d1)"
    and d': "same_ledger d1 d'" "eval_runs d' = eval_runs d1"
    using assms(2) by (auto simp: record_remote_event_def tx same_ledger_def)
  have "eval_inv d1"
  proof (cases "\<exists>run. jget ''eval_run_id'' e = JId run")
    case True
    then obtain run where run: "jget ''eval_run_id'' e = JId run" by blast
    then have "update_for_event e run d = Inr ((), d1)" using d1 by (simp add: apply_remote_event_def)
    then show ?thesis
      by (rule update_for_event_inv [OF assms(1)])
        (use assms(3) run in \<open>auto simp: live_event_def list_all_iff\<close>)
  next
    case False
    then have "d1 = d"
      using d1 by (auto simp: apply_remote_event_def tx split: json.splits if_splits)
    then show ?thesis using assms(1) by simp
  qed
  then show ?thesis
    by (rule eval_inv_frame)
      (use d' same_ledger_ledger [OF eval_invD(1) [OF \<open>eval_inv d1\<close>] d'(1)] in \<open>auto simp: same_ledger_def\<close>)
qed

lemma claim_eval_row_blocked:
  assumes "r \<in> set (eval_runs d)" "active_run (er_state r)"
  shows "claim_eval_row env w lease f q h king d \<noteq> Inr x"
proof -
  have "\<not> eval_runs_ok (eval_runs d @ [p])" if "active_run (er_state p)" for p
    using that assms by (auto simp: eval_runs_ok_def unique_by_snoc active_key_def)
  then show ?thesis
    by (auto simp: claim_eval_row_def tx ins_attempt_def upd_sub_def new_eval_run_def active_run_def
        split: sum.splits option.splits)
qed

lemma eval_runs_ok_one:
  assumes "distinct (map er_id rs)" "\<And>q. q \<in> set rs \<Longrightarrow> active_run (er_state q) \<Longrightarrow> er_id q = k"
  shows "eval_runs_ok rs"
  using assms unfolding eval_runs_ok_def
proof (induction rs)
  case (Cons q rs)
  have "active_key q = None \<or> active_key q \<noteq> active_key p" if "p \<in> set rs" for p
    using Cons.prems that by (auto simp: active_key_def)
  then show ?case using Cons by (auto simp: unique_by_Cons)
qed simp

lemma run_scoring_sel:
  "er_state (r\<lparr>er_state := ER_SCORING\<rparr>) = ER_SCORING"
  "er_attempt_id (r\<lparr>er_state := ER_SCORING\<rparr>) = er_attempt_id r"
  "er_submission_id (r\<lparr>er_state := ER_SCORING\<rparr>) = er_submission_id r"
  by simp_all

text \<open>
  C11. An event that arrives after its run was swept brings the run back to life: the UPDATE has no
  guard on the run's state, so the FAILED_RETRYABLE run becomes active again although its attempt is
  closed. From then on no evaluation can be claimed at all: every claim that gets as far as its
  INSERT breaks the index on the one active run.
\<close>

theorem late_event_blocks_claims:
  assumes "eval_inv d" and "r \<in> set (eval_runs d)" and "er_state r = ER_FAILED_RETRYABLE"
    and "\<forall>q \<in> set (eval_runs d). \<not> active_run (er_state q)"
    and "jget ''type'' e = JStr ''scoring_started''" and "jget ''eval_run_id'' e = JId (er_id r)"
    and "\<not> remote_event_exists i e d"
  shows "\<exists>d1. record_remote_event s i e d = Inr ((), d1) \<and> \<not> eval_inv d1 \<and>
    (\<forall>env w lease builder c d2. claim_next_eval env w lease builder d1 \<noteq> Inr (Some c, d2))"
proof -
  define rs where "rs = update_where (\<lambda>q. er_id q = er_id r) (\<lambda>q. q\<lparr>er_state := ER_SCORING\<rparr>) (eval_runs d)"
  have upd: "event_update e = Some (\<lambda>q. q\<lparr>er_state := ER_SCORING\<rparr>)"
    using assms(5) by (simp add: event_update_def)
  have "map er_id rs = map er_id (eval_runs d)"
    unfolding rs_def by (rule map_update_where) simp
  then have ok: "eval_runs_ok rs"
    using keys_below_distinct [OF eval_invD(2) [OF assms(1)]] assms(4)
    by (intro eval_runs_ok_one [of _ "er_id r"]) (auto simp: rs_def in_update_where split: if_splits)
  have live: "r\<lparr>er_state := ER_SCORING\<rparr> \<in> set rs"
    using assms(2) by (force simp: rs_def in_update_where)
  define d1 where "d1 = d\<lparr>eval_runs := rs, events := events d @
    [\<lparr>ev_submission_id = Some s, ev_attempt_id = Some i, ev_type = event_type_text e,
      ev_severity = INFO, ev_message = event_message e ''Remote eval event'', ev_data = e\<rparr>]\<rparr>"
  have "apply_remote_event e d = Inr ((), d\<lparr>eval_runs := rs\<rparr>)"
    using assms(5,6) ok upd by (simp add: apply_remote_event_def update_for_event_def tx rs_def)
  then have "record_remote_event s i e d = Inr ((), d1)"
    using assms(7) by (simp add: record_remote_event_def tx d1_def ex_bool_eq)
  then have d1: "record_remote_event s i e d = Inr ((), d1)" "eval_runs d1 = rs"
      "attempts d1 = attempts d"
    by (simp_all add: d1_def)
  have blocked: "claim_next_eval env w lease builder d1 \<noteq> Inr (Some c, d2)" for env w lease builder c d2
  proof (cases rule: claim_next_eval_cases [of env w lease builder d1])
    case (Row q d' h king)
    have "eval_runs d' = rs" using arg_cong [OF pick_eval_frame [OF Row(1)], of eval_runs] d1(2) by simp
    with live have "claim_eval_row env w lease builder q h king d' \<noteq> Inr (Some c, d2)"
      by (intro claim_eval_row_blocked) (auto simp: active_run_def)
    then show ?thesis using Row(5) by simp
  qed (auto simp: tx)
  have "\<not> eval_inv d1"
  proof
    assume "eval_inv d1"
    have "r\<lparr>er_state := ER_SCORING\<rparr> \<in> set (eval_runs d1)" using live d1(2) by simp
    with eval_invD(4) [OF \<open>eval_inv d1\<close>]
    have "active_run ER_SCORING \<longrightarrow> (\<exists>a \<in> set (attempts d1). sa_stage a = EVAL \<and>
        sa_id a = er_attempt_id r \<and> sa_state a = SA_RUNNING \<and> sa_submission_id a = er_submission_id r)"
      unfolding runs_linked_def by (metis (no_types, lifting) run_scoring_sel)
    then obtain a where a: "a \<in> set (attempts d)" "sa_stage a = EVAL"
        "sa_id a = er_attempt_id r" "sa_state a = SA_RUNNING"
      by (auto simp: d1(3) active_run_def)
    then have "active_run (er_state r)"
      using eval_invD(4) [OF assms(1)] assms(2) by (auto simp: runs_linked_def)
    then show False using assms(2,4) by blast
  qed
  then show ?thesis using d1 blocked by blast
qed

end
