(* ===== verification/Reign.thy ===== *)
theory Reign
  imports EvalControl
begin

text \<open>
  Promotion of an evaluation's winner to king: src/src/set_reign_worker/service.py. \<open>sha\<close> stands for
  \<open>hashlib.sha256(json.dumps(payload, ...)).hexdigest()\<close> and is an argument.
\<close>

section \<open>The plan of a reign\<close>

record reign_member =
  mb_king_version_id :: nat
  mb_submission_id :: nat
  mb_hotkey :: string
  mb_uid :: int
  mb_model_hash :: string
  mb_previous_slot :: "nat option"

record planned_member =
  pl_member :: reign_member
  pl_slot :: nat
  pl_weight_bps :: nat
  pl_is_challenger :: bool

definition weight_bps_for_member_count :: "nat \<Rightarrow> db_error + nat list" where
  "weight_bps_for_member_count n =
     (if 5 < n then Inl (ValueErr ''member_count must be between 0 and 5'')
      else if n = 0 then Inr []
      else Inr (map (\<lambda>i. 10000 div n + (if i < 10000 mod n then 1 else 0)) [0..<n]))"

text \<open>\<open>member.previous_slot or 99\<close>.\<close>

definition slot_or_99 :: "reign_member \<Rightarrow> nat" where
  "slot_or_99 m = (case mb_previous_slot m of None \<Rightarrow> 99 | Some s \<Rightarrow> if s = 0 then 99 else s)"

definition kept_members :: "reign_member list \<Rightarrow> reign_member \<Rightarrow> reign_member list" where
  "kept_members active c = take 4 (filter (\<lambda>m. mb_hotkey m \<noteq> mb_hotkey c \<and>
     mb_model_hash m \<noteq> mb_model_hash c \<and> mb_submission_id m \<noteq> mb_submission_id c)
     (sort_key slot_or_99 active))"

definition plan_rows :: "reign_member \<Rightarrow> reign_member list \<Rightarrow> nat list \<Rightarrow> planned_member list" where
  "plan_rows c ordered bps = map (\<lambda>(index, m, w). \<lparr>pl_member = m, pl_slot = index + 1,
       pl_weight_bps = w, pl_is_challenger = (mb_king_version_id m = mb_king_version_id c)\<rparr>)
     (zip [0..<length ordered] (zip ordered bps))"

definition build_reign_plan ::
  "reign_member list \<Rightarrow> reign_member \<Rightarrow> db_error + planned_member list" where
  "build_reign_plan active c =
     (let ordered = c # kept_members active c
      in case weight_bps_for_member_count (length ordered) of Inl e \<Rightarrow> Inl e
         | Inr bps \<Rightarrow> Inr (plan_rows c ordered bps))"

definition weight_epoch_payload :: "planned_member list \<Rightarrow> int list \<times> rat list" where
  "weight_epoch_payload ps =
     (if ps = [] then ([0], [1])
      else (map (mb_uid \<circ> pl_member) ps, map (\<lambda>p. of_nat (pl_weight_bps p) / 10000) ps))"

definition retired_members :: "reign_member list \<Rightarrow> planned_member list \<Rightarrow> reign_member list" where
  "retired_members active ps = filter (\<lambda>m. mb_king_version_id m \<notin>
     set (map (mb_king_version_id \<circ> pl_member) ps)) active"

definition weight_policy :: "nat \<Rightarrow> planned_member list \<Rightarrow> json" where
  "weight_policy version ps = JObj
     [(''policy'', JStr ''five_king_genesis_split_v1''), (''reign_version'', JInt (int version)),
      (''genesis_rule'', JStr ''new_challenger_slot_1; shift_existing_down; split_weight_evenly''),
      (''max_slots'', JInt 5), (''member_count'', JInt (int (length ps))),
      (''empty_reign_burn_uid'', JInt 0),
      (''slot_weight_bps'', JObj (map (\<lambda>p. (show_nat (pl_slot p), JInt (int (pl_weight_bps p)))) ps))]"

definition planned_members_json :: "planned_member list \<Rightarrow> json" where
  "planned_members_json ps = JList (map (\<lambda>p. JObj
     [(''slot'', JInt (int (pl_slot p))), (''king_version_id'', JId (mb_king_version_id (pl_member p))),
      (''submission_id'', JId (mb_submission_id (pl_member p))),
      (''hotkey'', JStr (mb_hotkey (pl_member p))), (''uid'', JInt (mb_uid (pl_member p))),
      (''model_hash'', JStr (mb_model_hash (pl_member p))),
      (''weight_bps'', JInt (int (pl_weight_bps p))),
      (''is_challenger'', JBool (pl_is_challenger p))]) ps)"

definition weight_hash ::
  "(json \<Rightarrow> string) \<Rightarrow> int \<Rightarrow> nat \<Rightarrow> planned_member list \<Rightarrow> json \<Rightarrow> string" where
  "weight_hash sha netuid version ps policy = ''sha256:'' @ sha (JObj
     [(''netuid'', JInt netuid), (''reign_version'', JInt (int version)),
      (''members'', planned_members_json ps), (''weight_policy'', policy)])"

section \<open>Claiming a winner\<close>

definition reign_claimable :: "sess \<Rightarrow> db \<Rightarrow> submission list" where
  "reign_claimable env d = filter (\<lambda>r. (ms_state r = EVAL_WIN \<or>
       (ms_state r = SET_REIGN_RETRYABLE \<and>
        ms_updated_at r \<le> se_now env - int (min (max (ms_retry_count r) 1) 60) * 60)) \<and>
     se_free env (ms_id r)) (submissions d)"

definition next_winner :: "sess \<Rightarrow> db \<Rightarrow> submission option" where
  "next_winner env d = limit1 (sort_key queue_order (reign_claimable env d))"

definition claim_winner :: "sess \<Rightarrow> string \<Rightarrow> int \<Rightarrow> submission \<Rightarrow> (db, nat) tx" where
  "claim_winner env worker lease r =
     tx_bind tx_fresh (\<lambda>i.
     tx_bind (tx_gets (next_attempt_number (ms_id r) SET_REIGN)) (\<lambda>n.
     tx_then (ins_attempt (new_attempt i (ms_id r) SET_REIGN n worker
        (Some (se_clock env + lease)) (se_now env)
        (JObj [(''submission_id'', JId (ms_id r)), (''model_hash'', jstr (ms_model_hash r)),
               (''hotkey'', JStr (ms_hotkey r)), (''uid'', JInt (ms_uid r))])))
     (tx_then (upd_sub (ms_id r) (\<lambda>s. (clear_fault s)\<lparr>ms_state := SET_REIGN_RUNNING,
        ms_updated_at := se_now env\<rparr>))
     (tx_then (ins_event (Some (ms_id r)) (Some i) ''set_reign_claimed'' INFO
        (''Set reign claimed by '' @ worker) (JObj [(''worker_id'', JStr worker)]))
     (tx_return i)))))"

definition mark_reign_retryable :: "sess \<Rightarrow> nat \<Rightarrow> nat \<Rightarrow> string \<Rightarrow> string \<Rightarrow> (db, unit) tx" where
  "mark_reign_retryable env sub i code msg = tx_seq
     [upd_attempt i (\<lambda>a. a\<lparr>sa_state := SA_FAILED_RETRYABLE, sa_finished_at := Some (se_now env),
        sa_lease_expires_at := None, sa_fault_class := Some INFRA_FAULT,
        sa_fault_code := Some code, sa_fault_message := Some msg\<rparr>),
      upd_sub sub (\<lambda>s. (set_fault INFRA_FAULT code msg s)\<lparr>ms_state := SET_REIGN_RETRYABLE,
        ms_retry_count := Suc (ms_retry_count s), ms_updated_at := se_now env\<rparr>),
      ins_event (Some sub) (Some i) ''set_reign_failed_retryable'' ERROR msg
        (JObj [(''fault_class'', JStr ''INFRA_FAULT''), (''fault_code'', JStr code)])]"

section \<open>What a promotion needs\<close>

text \<open>DESC NULLS LAST.\<close>

definition desc_nulls_last :: "int option \<Rightarrow> int \<times> int" where
  "desc_nulls_last t = (case t of None \<Rightarrow> (1, 0) | Some s \<Rightarrow> (0, - s))"

definition winning_eval :: "nat \<Rightarrow> db \<Rightarrow> eval_run option" where
  "winning_eval sub d = limit1 (sort_key
     (\<lambda>r. (desc_nulls_last (er_finished_at r), desc_nulls_last (er_started_at r)))
     (filter (winning_run sub) (eval_runs d)))"

definition active_reign :: "db \<Rightarrow> reign option" where
  "active_reign d = limit1 (sort_key (\<lambda>r. - int (rg_version r))
     (filter (\<lambda>r. rg_state r = RG_ACTIVE) (reigns d)))"

definition member_of_row :: "reign_row \<Rightarrow> reign_member" where
  "member_of_row m = \<lparr>mb_king_version_id = rm_king_version_id m,
     mb_submission_id = rm_submission_id m, mb_hotkey = rm_hotkey m, mb_uid = rm_uid m,
     mb_model_hash = rm_model_hash m, mb_previous_slot = Some (rm_slot m)\<rparr>"

definition active_members :: "nat \<Rightarrow> db \<Rightarrow> reign_member list" where
  "active_members reign d = map member_of_row (sort_key rm_slot (filter (\<lambda>m.
     rm_reign_id m = reign \<and> list_ex (\<lambda>k. kv_id k = rm_king_version_id m) (king_versions d))
     (reign_members d)))"

definition lead_member :: "reign_member list \<Rightarrow> reign_member option" where
  "lead_member ms = find (\<lambda>m. mb_previous_slot m = Some 1) ms"

definition manifest_artifact :: "nat \<Rightarrow> db \<Rightarrow> artifact option" where
  "manifest_artifact sub d = limit1 (sort_key (\<lambda>a. - ar_created_at a) (filter (\<lambda>a.
     ar_submission_id a = Some sub \<and> ar_type a = ''MODEL_MANIFEST'') (artifacts d)))"

record promotion =
  pm_eval :: eval_run
  pm_reign :: reign
  pm_active :: "reign_member list"
  pm_lead :: reign_member
  pm_artifact :: artifact

text \<open>
  The checks in the order of the code: a fault code and message, or what the promotion goes on with.
\<close>

definition check_winner :: "submission \<Rightarrow> db \<Rightarrow> (string \<times> string) + promotion" where
  "check_winner r d =
     (case winning_eval (ms_id r) d of
       None \<Rightarrow> Inl (''missing_winning_eval_run'',
         ''No successful winning eval run is available for reign promotion'')
     | Some ev \<Rightarrow>
       if Some (er_challenger_model_hash ev) \<noteq> ms_model_hash r
       then Inl (''challenger_model_hash_mismatch'',
         ''Winning eval challenger model hash does not match submission model hash'')
       else (case active_reign d of
         None \<Rightarrow> Inl (''missing_active_reign'', ''No active reign exists for winner promotion'')
       | Some rg \<Rightarrow>
         let active = active_members (rg_id rg) d
         in (case lead_member active of
           None \<Rightarrow> Inl (''missing_active_lead_king'', ''Active reign has no slot 1 lead king'')
         | Some lead \<Rightarrow>
           if er_king_submission_id ev \<noteq> Some (mb_submission_id lead) \<or>
              er_king_model_hash ev \<noteq> mb_model_hash lead
           then Inl (''stale_winning_eval'',
             ''Winning eval did not beat the current active lead king'')
           else (case manifest_artifact (ms_id r) d of
             None \<Rightarrow> Inl (''missing_challenger_model_artifact'',
               ''Winning submission has no MODEL_MANIFEST artifact for king version'')
           | Some a \<Rightarrow> Inr \<lparr>pm_eval = ev, pm_reign = rg, pm_active = active, pm_lead = lead,
               pm_artifact = a\<rparr>))))"

section \<open>Installing the reign\<close>

definition new_king ::
  "string \<Rightarrow> submission \<Rightarrow> promotion \<Rightarrow> nat \<Rightarrow> nat \<Rightarrow> nat \<Rightarrow> nat \<Rightarrow> string \<Rightarrow> king_version" where
  "new_king worker r p kid kver reign slot model_hash =
     \<lparr>kv_id = kid, kv_submission_id = ms_id r, kv_model_hash = model_hash,
      kv_artifact_id = ar_id (pm_artifact p), kv_eval_run_id = Some (er_id (pm_eval p)),
      kv_version = kver, kv_entered_reign_id = Some reign, kv_entered_slot = slot,
      kv_retired_at = None, kv_retire_reason = None, kv_activated_by = worker\<rparr>"

definition new_reign :: "sess \<Rightarrow> submission \<Rightarrow> promotion \<Rightarrow> nat \<Rightarrow> nat \<Rightarrow> reign" where
  "new_reign env r p reign version =
     \<lparr>rg_id = reign, rg_version = version, rg_reason = CORONATION,
      rg_trigger_eval_run_id = Some (er_id (pm_eval p)),
      rg_trigger_submission_id = Some (ms_id r),
      rg_previous_reign_id = Some (rg_id (pm_reign p)), rg_state = RG_ACTIVE,
      rg_activated_at = Some (se_now env)\<rparr>"

definition member_row :: "nat \<Rightarrow> nat \<Rightarrow> planned_member \<Rightarrow> reign_row" where
  "member_row reign i pl =
     \<lparr>rm_id = i, rm_reign_id = reign, rm_slot = pl_slot pl,
      rm_king_version_id = mb_king_version_id (pl_member pl),
      rm_submission_id = mb_submission_id (pl_member pl), rm_hotkey = mb_hotkey (pl_member pl),
      rm_uid = mb_uid (pl_member pl), rm_model_hash = mb_model_hash (pl_member pl),
      rm_weight_bps = pl_weight_bps pl\<rparr>"

definition ins_member :: "nat \<Rightarrow> planned_member \<Rightarrow> (db, unit) tx" where
  "ins_member reign pl =
     tx_bind tx_fresh (\<lambda>i. stmt_members (\<lambda>ms. ms @ [member_row reign i pl]))"

text \<open>UPDATE reigns SET state = 'SUPERSEDED' WHERE id = ...\<close>

definition supersede_reign :: "nat \<Rightarrow> reign list \<Rightarrow> reign list" where
  "supersede_reign i = update_where (\<lambda>rg. rg_id rg = i) (\<lambda>rg. rg\<lparr>rg_state := RG_SUPERSEDED\<rparr>)"

definition retired_kings ::
  "sess \<Rightarrow> nat \<Rightarrow> reign_member list \<Rightarrow> king_version list \<Rightarrow> king_version list" where
  "retired_kings env sub retired = update_where
     (\<lambda>k. kv_id k \<in> set (map mb_king_version_id retired) \<and> kv_retired_at k = None)
     (\<lambda>k. k\<lparr>kv_retired_at := Some (se_now env),
        kv_retire_reason := Some (if kv_submission_id k = sub then ''REPLACED_DUPLICATE''
          else ''SHIFTED_OUT'')\<rparr>)"

text \<open>INSERT INTO weight_epochs ... ON CONFLICT (netuid, weight_hash) DO NOTHING.\<close>

definition ins_epoch ::
  "sess \<Rightarrow> int \<Rightarrow> reason \<Rightarrow> nat option \<Rightarrow> int list \<Rightarrow> rat list \<Rightarrow> json \<Rightarrow> string \<Rightarrow> (db, bool) tx" where
  "ins_epoch env netuid why reign uids weights policy hash =
     tx_bind tx_fresh (\<lambda>i.
     tx_bind (tx_gets (\<lambda>d. list_ex (\<lambda>e. we_netuid e = netuid \<and> we_hash e = hash) (weight_epochs d)))
       (\<lambda>known. if known then tx_return False else tx_then (stmt_epochs (\<lambda>es. es @
          [\<lparr>we_id = i, we_netuid = netuid, we_reason = why, we_reign_id = reign,
            we_state = WE_PENDING, we_uids = uids, we_weights = weights, we_policy = policy,
            we_hash = hash, we_attempt_count = 0, we_last_fault_class = None,
            we_last_fault_code = None, we_created_at = se_now env, we_updated_at = se_now env,
            we_succeeded_at = None\<rparr>])) (tx_return True)))"

definition reign_summary ::
  "nat \<Rightarrow> nat \<Rightarrow> nat \<Rightarrow> nat \<Rightarrow> planned_member list \<Rightarrow> reign_member list \<Rightarrow> string \<Rightarrow> json" where
  "reign_summary reign version kid kver planned retired hash = JObj
     [(''reign_id'', JId reign), (''reign_version'', JInt (int version)),
      (''king_version_id'', JId kid), (''king_version'', JInt (int kver)),
      (''members'', planned_members_json planned),
      (''retired_king_version_ids'', JList (map (JId \<circ> mb_king_version_id) retired)),
      (''weight_hash'', JStr hash)]"

definition finish_promotion :: "sess \<Rightarrow> nat \<Rightarrow> nat \<Rightarrow> nat \<Rightarrow> json \<Rightarrow> (db, unit) tx" where
  "finish_promotion env sub i version summary = tx_seq
     [upd_attempt i (\<lambda>a. a\<lparr>sa_state := SA_SUCCEEDED, sa_finished_at := Some (se_now env),
        sa_lease_expires_at := None, sa_result_summary := summary\<rparr>),
      upd_sub sub (\<lambda>s. (clear_fault s)\<lparr>ms_state := REIGN_SET, ms_updated_at := se_now env\<rparr>),
      ins_event (Some sub) (Some i) ''reign_set'' INFO
        (''Created active reign version '' @ show_nat version) summary]"

definition challenger_member :: "submission \<Rightarrow> nat \<Rightarrow> string \<Rightarrow> reign_member" where
  "challenger_member r kid model_hash = \<lparr>mb_king_version_id = kid, mb_submission_id = ms_id r,
     mb_hotkey = ms_hotkey r, mb_uid = ms_uid r, mb_model_hash = model_hash,
     mb_previous_slot = None\<rparr>"

text \<open>The tables of the reign, in the order of the statements: the old reign is superseded before the
  new one is inserted, as the index on the ACTIVE reign needs.\<close>

definition install_reign ::
  "sess \<Rightarrow> string \<Rightarrow> submission \<Rightarrow> promotion \<Rightarrow> nat \<Rightarrow> nat \<Rightarrow> nat \<Rightarrow> nat \<Rightarrow> string \<Rightarrow>
     planned_member list \<Rightarrow> nat \<Rightarrow> reign_member list \<Rightarrow> (db, unit) tx" where
  "install_reign env worker r p kid kver reign version model_hash planned slot retired =
     tx_then (stmt_kings (\<lambda>ks. ks @ [new_king worker r p kid kver reign slot model_hash]))
     (tx_then (stmt_reigns (supersede_reign (rg_id (pm_reign p))))
     (tx_then (stmt_reigns (\<lambda>rs. rs @ [new_reign env r p reign version]))
     (tx_then (tx_for planned (ins_member reign))
        (tx_when (retired \<noteq> []) (stmt_kings (retired_kings env (ms_id r) retired))))))"

definition promote_row ::
  "(json \<Rightarrow> string) \<Rightarrow> sess \<Rightarrow> string \<Rightarrow> submission \<Rightarrow> nat \<Rightarrow> promotion \<Rightarrow> (db, unit) tx" where
  "promote_row sha env worker r i p =
     tx_bind tx_fresh (\<lambda>kid.
     tx_bind (tx_gets (\<lambda>d. next_number (map kv_version (king_versions d)))) (\<lambda>kver.
     tx_bind tx_fresh (\<lambda>reign.
     tx_bind (tx_gets (\<lambda>d. next_number (map rg_version (reigns d)))) (\<lambda>version.
     case ms_model_hash r of
       None \<Rightarrow> tx_raise (CheckViolation ''king_versions.model_hash'')
     | Some mh \<Rightarrow> (case build_reign_plan (pm_active p) (challenger_member r kid mh) of
         Inl e \<Rightarrow> tx_raise e
       | Inr planned \<Rightarrow> (case find pl_is_challenger planned of
           None \<Rightarrow> tx_raise (RuntimeErr ''StopIteration'')
         | Some own \<Rightarrow>
           let retired = retired_members (pm_active p) planned;
               policy = weight_policy version planned;
               hash = weight_hash sha (ms_netuid r) version planned policy;
               (uids, weights) = weight_epoch_payload planned
           in tx_then (install_reign env worker r p kid kver reign version mh planned
                 (pl_slot own) retired)
              (tx_bind (ins_epoch env (ms_netuid r) CORONATION (Some reign) uids weights policy hash)
                (\<lambda>_. finish_promotion env (ms_id r) i version
                   (reign_summary reign version kid kver planned retired hash)))))))))"

definition promote_next_winner ::
  "(json \<Rightarrow> string) \<Rightarrow> sess \<Rightarrow> string \<Rightarrow> int \<Rightarrow> (db, bool) tx" where
  "promote_next_winner sha env worker lease =
     (if \<not> se_lock env then tx_return False
      else tx_bind (tx_gets (next_winner env)) (\<lambda>row. case row of
        None \<Rightarrow> tx_return False
      | Some r \<Rightarrow> tx_bind (claim_winner env worker lease r) (\<lambda>i.
          tx_bind (tx_gets (check_winner r)) (\<lambda>res. case res of
            Inl (code, msg) \<Rightarrow> tx_then (mark_reign_retryable env (ms_id r) i code msg)
              (tx_return True)
          | Inr p \<Rightarrow> tx_then (promote_row sha env worker r i p) (tx_return True)))))"

section \<open>The plan: facts\<close>

lemma sum_list_first:
  "sum_list (map (\<lambda>i. q + (if i < r then 1 else 0)) [0..<n]) = n * q + min r (n::nat)"
  by (induction n) auto

lemma weight_bps_length: "weight_bps_for_member_count n = Inr bs \<Longrightarrow> length bs = n"
  by (auto simp: weight_bps_for_member_count_def split: if_splits)

lemma weight_bps_total: "n \<le> 5 \<Longrightarrow> \<exists>bs. weight_bps_for_member_count n = Inr bs"
  by (simp add: weight_bps_for_member_count_def)

lemma weight_bps_rows:
  "weight_bps_for_member_count n = Inr bs \<Longrightarrow> 0 < n \<Longrightarrow>
     n \<le> 5 \<and> bs = map (\<lambda>i. 10000 div n + (if i < 10000 mod n then 1 else 0)) [0..<n]"
  by (auto simp: weight_bps_for_member_count_def split: if_splits)

lemma weight_bps_sum:
  assumes "weight_bps_for_member_count n = Inr bs" and "0 < n"
  shows "sum_list bs = 10000"
proof -
  have "sum_list bs = n * (10000 div n) + min (10000 mod n) n"
    using weight_bps_rows [OF assms] sum_list_first [of "10000 div n" "10000 mod n" n] by blast
  moreover have "10000 mod n \<le> n"
    using assms(2) by (simp add: less_imp_le)
  ultimately show ?thesis by (simp add: min_absorb1)
qed

lemma kept_members_props:
  assumes "m \<in> set (kept_members ms c)"
  shows "m \<in> set ms" "mb_hotkey m \<noteq> mb_hotkey c" "mb_model_hash m \<noteq> mb_model_hash c"
    "mb_submission_id m \<noteq> mb_submission_id c"
  using assms by (auto simp: kept_members_def dest!: in_set_takeD)

lemma length_kept_members: "length (kept_members ms c) \<le> 4"
  by (simp add: kept_members_def)

lemma plan_rows_props:
  assumes "length bps = length os"
  shows "map pl_member (plan_rows c os bps) = os"
    and "map pl_slot (plan_rows c os bps) = [1..<Suc (length os)]"
    and "map pl_weight_bps (plan_rows c os bps) = bps"
  using assms by (auto simp: plan_rows_def intro!: nth_equalityI simp del: upt_Suc)

lemma build_reign_plan_total: "\<exists>ps. build_reign_plan active c = Inr ps"
  using weight_bps_total [of "Suc (length (kept_members active c))"] length_kept_members [of active c]
  by (auto simp: build_reign_plan_def)

lemma build_reign_planD:
  assumes "build_reign_plan active c = Inr ps"
  shows "map pl_member ps = c # kept_members active c"
    and "map pl_slot ps = [1..<Suc (length ps)]"
    and "sum_list (map pl_weight_bps ps) = 10000"
    and "length ps \<le> 5" and "ps \<noteq> []"
    and "\<And>p. p \<in> set ps \<Longrightarrow>
      pl_is_challenger p = (mb_king_version_id (pl_member p) = mb_king_version_id c)"
proof -
  define os where "os = c # kept_members active c"
  obtain bps where b: "weight_bps_for_member_count (length os) = Inr bps"
    and ps: "ps = plan_rows c os bps"
    using assms by (auto simp: build_reign_plan_def Let_def os_def split: sum.splits)
  have l: "length bps = length os" using weight_bps_length [OF b] .
  note r = plan_rows_props [OF l]
  show m: "map pl_member ps = c # kept_members active c" using r(1) by (simp add: ps os_def)
  then have len: "length ps = length os" by (metis length_map os_def)
  show "map pl_slot ps = [1..<Suc (length ps)]" using r(2) len by (simp add: ps)
  show "sum_list (map pl_weight_bps ps) = 10000"
    using r(3) weight_bps_sum [OF b] by (simp add: ps os_def)
  show "length ps \<le> 5" using len length_kept_members [of active c] by (simp add: os_def)
  show "ps \<noteq> []" using m by auto
  show "pl_is_challenger p = (mb_king_version_id (pl_member p) = mb_king_version_id c)"
    if "p \<in> set ps" for p
    using that by (auto simp: ps plan_rows_def)
qed

text \<open>
  The weights of a reign with members are split evenly: one share per member, 10000 basis points
  in all, the remainder to the first slots, no two shares more than one apart and none below 2000.
\<close>

theorem weight_bps_even_split:
  assumes "weight_bps_for_member_count n = Inr bs" and "0 < n"
  shows "length bs = n \<and> sum_list bs = 10000 \<and> sorted_wrt (\<ge>) bs \<and> hd bs \<le> last bs + 1 \<and>
    (\<forall>b \<in> set bs. 2000 \<le> b)"
proof -
  have n: "n \<le> 5" and bs: "bs = map (\<lambda>i. 10000 div n + (if i < 10000 mod n then 1 else 0)) [0..<n]"
    using weight_bps_rows [OF assms] by auto
  have srt: "sorted_wrt (\<ge>) bs"
    unfolding bs sorted_wrt_map by (rule sorted_wrt_mono_rel [OF _ sorted_wrt_upt]) auto
  have "10000 div 5 \<le> 10000 div n"
    by (rule div_le_mono2) (use n assms(2) in auto)
  then have "\<forall>b \<in> set bs. 2000 \<le> b"
    unfolding bs by auto
  moreover have "hd bs \<le> last bs + 1"
    using assms(2) unfolding bs by (simp add: hd_map last_map)
  ultimately show ?thesis
    using srt weight_bps_length [OF assms(1)] weight_bps_sum [OF assms] by simp
qed

section \<open>The ledger through a promotion\<close>

lemma set_reign_claimable:
  "r \<in> set (reign_claimable env d) \<Longrightarrow> r \<in> set (submissions d) \<and>
     ms_state r \<in> set [EVAL_WIN, SET_REIGN_RETRYABLE]"
  by (auto simp: reign_claimable_def)

interpretation reign_queue: stage_queue SET_REIGN SET_REIGN_RUNNING
  "[EVAL_WIN, SET_REIGN_RETRYABLE]" reign_claimable
  by unfold_locales (auto elim: running_state.elims dest: set_reign_claimable)

lemma next_winner_claimable: "next_winner env d = Some r \<Longrightarrow> r \<in> set (reign_claimable env d)"
  by (auto simp: next_winner_def dest!: limit1_Some)

lemma claim_winner_effect:
  assumes "ledger d" "r \<in> set (reign_claimable env d)"
  obtains d1 where "claim_winner env w lease r d = Inr (next_id d, d1)" "ledger d1"
    "holds SET_REIGN (next_id d) (ms_id r) d1" "next_id d1 = Suc (next_id d)"
    "attempts d1 = attempts d @ [new_attempt (next_id d) (ms_id r) SET_REIGN
       (next_attempt_number (ms_id r) SET_REIGN d) w (Some (se_clock env + lease)) (se_now env)
       (JObj [(''submission_id'', JId (ms_id r)), (''model_hash'', jstr (ms_model_hash r)),
              (''hotkey'', JStr (ms_hotkey r)), (''uid'', JInt (ms_uid r))])]"
    "submissions d1 = update_where (\<lambda>s. ms_id s = ms_id r) (\<lambda>s. (clear_fault s)
       \<lparr>ms_state := SET_REIGN_RUNNING, ms_updated_at := se_now env\<rparr>) (submissions d)"
    "eval_runs d1 = eval_runs d" "reigns d1 = reigns d" "reign_members d1 = reign_members d"
    "king_versions d1 = king_versions d" "artifacts d1 = artifacts d"
    "weight_epochs d1 = weight_epochs d"
proof -
  define a where "a = new_attempt (next_id d) (ms_id r) SET_REIGN
       (next_attempt_number (ms_id r) SET_REIGN d) w (Some (se_clock env + lease)) (se_now env)
       (JObj [(''submission_id'', JId (ms_id r)), (''model_hash'', jstr (ms_model_hash r)),
              (''hotkey'', JStr (ms_hotkey r)), (''uid'', JInt (ms_uid r))])"
  define g where "g = (\<lambda>s. (clear_fault s)\<lparr>ms_state := SET_REIGN_RUNNING, ms_updated_at := se_now env\<rparr>)"
  have g: "keeps_keys g" "keeps_id g" "\<And>q. ms_state (g q) = SET_REIGN_RUNNING"
    by (simp_all add: g_def keeps_keys_def keeps_id_def)
  have ok: "attempts_ok (attempts d @ [a])"
    by (rule reign_queue.claim_attempt [OF assms]) (simp_all add: a_def)
  have subs: "subs_ok (update_where (\<lambda>s. ms_id s = ms_id r) g (submissions d))"
    by (rule ledger_subs_keys [OF assms(1) g(1)])
  obtain d1 where d1: "claim_winner env w lease r d = Inr (next_id d, d1)"
    "attempts d1 = attempts d @ [a]"
    "submissions d1 = update_where (\<lambda>s. ms_id s = ms_id r) g (submissions d)"
    "next_id d1 = Suc (next_id d)" "eval_runs d1 = eval_runs d" "reigns d1 = reigns d"
    "reign_members d1 = reign_members d" "king_versions d1 = king_versions d"
    "artifacts d1 = artifacts d" "weight_epochs d1 = weight_epochs d"
    using ok subs by (simp add: claim_winner_def tx ins_attempt_def upd_sub_def a_def g_def)
  have "ledger d1"
    by (rule reign_queue.claim_ledger [OF assms d1(2,3)])
      (use ok subs d1 g in \<open>auto simp: a_def\<close>)
  moreover have "holds SET_REIGN (next_id d) (ms_id r) d1"
    by (simp add: holds_def d1(2) a_def)
  ultimately show thesis using that d1 unfolding a_def g_def by blast
qed

lemma mark_reign_retryable_ledger:
  assumes "ledger d" "holds SET_REIGN i s d" "mark_reign_retryable env s i code msg d = Inr (x, d')"
  shows "ledger d'"
  by (rule ledger_finish [OF assms(1) holds_sole [OF assms(1,2)]])
    (use assms(3) in \<open>auto simp: mark_reign_retryable_def tx upd_sub_def upd_attempt_def
      closes_def open_attempt_def keeps_id_def\<close>)

lemma mark_reign_retryable_total:
  assumes "ledger d"
  shows "\<exists>d'. mark_reign_retryable env s i code msg d = Inr ((), d')"
proof -
  have "attempts_ok (update_where (\<lambda>r. sa_id r = i) (\<lambda>a. a\<lparr>sa_state := SA_FAILED_RETRYABLE,
      sa_finished_at := Some (se_now env), sa_lease_expires_at := None,
      sa_fault_class := Some INFRA_FAULT, sa_fault_code := Some code, sa_fault_message := Some msg\<rparr>)
      (attempts d))"
    using ledgerD(3) [OF assms] by (rule attempts_ok_update) (simp add: closes_def open_attempt_def)
  then show ?thesis
    using ledger_subs_keys [OF assms]
    by (auto simp: mark_reign_retryable_def tx upd_sub_def upd_attempt_def keeps_keys_def)
qed

lemma ins_epoch_frame: "keeps same_ledger (ins_epoch env nu why reign us ws pol h)"
  unfolding ins_epoch_def by (auto intro!: ledger_frame_rules)

lemma install_reign_frame:
  "keeps same_ledger (install_reign env w r p kid kver reign version mh planned slot retired)"
  unfolding install_reign_def ins_member_def
  by (intro ledger_frame_rules)

lemma finish_promotion_ledger:
  assumes "ledger d" "holds SET_REIGN i s d" "finish_promotion env s i v j d = Inr (x, d')"
  shows "ledger d'"
  by (rule ledger_finish [OF assms(1) holds_sole [OF assms(1,2)]])
    (use assms(3) in \<open>auto simp: finish_promotion_def tx upd_sub_def upd_attempt_def
      closes_def open_attempt_def keeps_id_def\<close>)

lemma holds_frame: "holds st i s d \<Longrightarrow> same_ledger d d' \<Longrightarrow> holds st i s d'"
  by (simp add: holds_def same_ledger_def)

section \<open>The throne\<close>

definition throne_ok :: "db \<Rightarrow> bool" where
  "throne_ok d \<longleftrightarrow> keys_below (next_id d) (map rg_id (reigns d)) \<and>
     keys_below (next_id d) (map kv_id (king_versions d)) \<and> reigns_ok (reigns d) \<and>
     kings_ok (king_versions d) \<and> members_ok (reign_members d) \<and> epochs_ok (weight_epochs d) \<and>
     (\<forall>m \<in> set (reign_members d). rm_reign_id m < next_id d)"

lemma throne_okD:
  assumes "throne_ok d"
  shows "keys_below (next_id d) (map rg_id (reigns d))"
    "keys_below (next_id d) (map kv_id (king_versions d))" "reigns_ok (reigns d)"
    "kings_ok (king_versions d)" "members_ok (reign_members d)" "epochs_ok (weight_epochs d)"
    "\<And>m. m \<in> set (reign_members d) \<Longrightarrow> rm_reign_id m < next_id d"
  using assms by (simp_all add: throne_ok_def)

lemma throne_ok_frame:
  "throne_ok d \<Longrightarrow> next_id d \<le> next_id d' \<Longrightarrow> reigns d' = reigns d \<Longrightarrow>
   king_versions d' = king_versions d \<Longrightarrow> reign_members d' = reign_members d \<Longrightarrow>
   weight_epochs d' = weight_epochs d \<Longrightarrow> throne_ok d'"
  unfolding throne_ok_def by (auto intro: keys_below_mono less_le_trans)

lemma active_members_below:
  "throne_ok d \<Longrightarrow> m \<in> set (active_members i d) \<Longrightarrow> mb_king_version_id m < next_id d"
  using throne_okD(2) [of d]
  by (auto simp: active_members_def member_of_row_def list_ex_iff keys_below_def)

lemma active_members_distinct:
  assumes "throne_ok d" shows "distinct (map mb_king_version_id (active_members i d))"
proof -
  have "distinct (map (\<lambda>m. (rm_reign_id m, rm_king_version_id m)) (filter (\<lambda>m. rm_reign_id m = i \<and>
      list_ex (\<lambda>k. kv_id k = rm_king_version_id m) (king_versions d)) (reign_members d)))"
    (is "distinct (map _ ?ms)")
    using unique_by_filter throne_okD(5) [OF assms]
    by (auto simp: members_ok_def unique_by_distinct [symmetric])
  then have "distinct (map rm_king_version_id ?ms)"
    by (auto simp: distinct_map inj_on_def)
  then have "distinct (map rm_king_version_id (sort_key rm_slot ?ms))"
    by (simp add: distinct_map)
  then show ?thesis
    by (simp add: active_members_def member_of_row_def o_def)
qed

text \<open>The plan for a challenger with a fresh king version.\<close>

lemma plan_own:
  assumes "build_reign_plan active c = Inr ps" "\<forall>m \<in> set active. mb_king_version_id m < mb_king_version_id c"
  shows "find pl_is_challenger ps = Some (hd ps)" "pl_slot (hd ps) = 1" "pl_member (hd ps) = c"
proof -
  note plan = build_reign_planD [OF assms(1)]
  obtain p qs where ps: "ps = p # qs" using plan(5) by (cases ps) auto
  have "pl_member p = c" using plan(1) by (simp add: ps)
  moreover have "pl_is_challenger p" using plan(6) [of p] calculation by (simp add: ps)
  moreover have "pl_slot p = 1" using plan(2) by (simp add: ps upt_rec del: upt_Suc)
  ultimately show "find pl_is_challenger ps = Some (hd ps)" "pl_slot (hd ps) = 1" "pl_member (hd ps) = c"
    by (simp_all add: ps)
qed

lemma distinct_kept: "distinct (map f ms) \<Longrightarrow> distinct (map f (kept_members ms c))"
proof -
  assume "distinct (map f ms)"
  then have "distinct (map f (sort_key slot_or_99 ms))"
    by (simp add: distinct_map)
  then have "distinct (map f (filter P (sort_key slot_or_99 ms)))" for P
    by (simp add: distinct_map_filter)
  then show "distinct (map f (kept_members ms c))"
    by (simp add: kept_members_def take_map distinct_take flip: take_map)
qed

lemma plan_distinct:
  assumes "build_reign_plan active c = Inr ps" "\<forall>m \<in> set active. mb_king_version_id m < mb_king_version_id c"
    and "distinct (map mb_king_version_id active)"
  shows "distinct (map (mb_king_version_id \<circ> pl_member) ps)"
proof -
  have "map mb_king_version_id (map pl_member ps) =
      mb_king_version_id c # map mb_king_version_id (kept_members active c)"
    by (simp add: build_reign_planD(1) [OF assms(1)])
  moreover have "mb_king_version_id c \<notin> set (map mb_king_version_id (kept_members active c))"
    using assms(2) kept_members_props(1) by fastforce
  ultimately show ?thesis
    using distinct_kept [OF assms(3)] by (simp add: comp_def)
qed

primrec member_rows :: "nat \<Rightarrow> nat \<Rightarrow> planned_member list \<Rightarrow> reign_row list" where
  "member_rows reign n [] = []"
| "member_rows reign n (p # ps) = member_row reign n p # member_rows reign (Suc n) ps"

lemma member_rows_cols:
  "map rm_slot (member_rows reign n ps) = map pl_slot ps"
  "map rm_weight_bps (member_rows reign n ps) = map pl_weight_bps ps"
  "map rm_reign_id (member_rows reign n ps) = replicate (length ps) reign"
  "map rm_king_version_id (member_rows reign n ps) = map (mb_king_version_id \<circ> pl_member) ps"
  "map rm_submission_id (member_rows reign n ps) = map (mb_submission_id \<circ> pl_member) ps"
  "map rm_hotkey (member_rows reign n ps) = map (mb_hotkey \<circ> pl_member) ps"
  by (induction ps arbitrary: n) (auto simp: member_row_def)

lemma member_rows_reign: "m \<in> set (member_rows reign n ps) \<Longrightarrow> rm_reign_id m = reign"
  by (induction ps arbitrary: n) (auto simp: member_row_def)

lemma members_ok_prefix: "members_ok (xs @ ys) \<Longrightarrow> members_ok xs"
  by (simp add: members_ok_def unique_by_append)

lemma ins_members_effect:
  "members_ok (reign_members d @ member_rows reign (next_id d) ps) \<Longrightarrow>
   tx_for ps (ins_member reign) d = Inr ((), d\<lparr>next_id := next_id d + length ps,
     reign_members := reign_members d @ member_rows reign (next_id d) ps\<rparr>)"
proof (induction ps arbitrary: d)
  case Nil
  then show ?case by (simp add: tx)
next
  case (Cons p ps)
  define d1 where "d1 = d\<lparr>next_id := Suc (next_id d),
    reign_members := reign_members d @ [member_row reign (next_id d) p]\<rparr>"
  have "members_ok (reign_members d @ [member_row reign (next_id d) p])"
    using Cons.prems members_ok_prefix [of "reign_members d @ [member_row reign (next_id d) p]"] by simp
  then have "ins_member reign p d = Inr ((), d1)"
    by (simp add: ins_member_def tx d1_def)
  moreover have "tx_for ps (ins_member reign) d1 = Inr ((), d1\<lparr>next_id := next_id d1 + length ps,
     reign_members := reign_members d1 @ member_rows reign (next_id d1) ps\<rparr>)"
    using Cons.prems by (intro Cons.IH) (simp add: d1_def)
  ultimately show ?case by (simp add: tx d1_def)
qed

lemma members_ok_plan:
  assumes "throne_ok d" "next_id d \<le> reign" "map pl_slot ps = [1..<Suc (length ps)]" "length ps \<le> 5"
    and "distinct (map (mb_king_version_id \<circ> pl_member) ps)"
  shows "members_ok (reign_members d @ member_rows reign n ps)"
proof -
  let ?rows = "member_rows reign n ps"
  have apart: "rm_reign_id a \<noteq> rm_reign_id b" if "a \<in> set (reign_members d)" "b \<in> set ?rows" for a b
    using throne_okD(7) [OF assms(1) that(1)] member_rows_reign [OF that(2)] assms(2) by simp
  have "distinct (map rm_slot ?rows)"
    by (simp add: member_rows_cols assms(3) del: upt_Suc)
  then have slots: "distinct (map (\<lambda>m. (rm_reign_id m, rm_slot m)) ?rows)"
    by (auto simp: distinct_map inj_on_def)
  have "distinct (map rm_king_version_id ?rows)"
    using assms(5) by (simp add: member_rows_cols)
  then have kings: "distinct (map (\<lambda>m. (rm_reign_id m, rm_king_version_id m)) ?rows)"
    by (auto simp: distinct_map inj_on_def)
  have "rm_slot m \<in> set [1..<Suc (length ps)]" if "m \<in> set ?rows" for m
    using that member_rows_cols(1) [of reign n ps] assms(3) by (metis image_eqI set_map)
  then have "list_all (\<lambda>r. 1 \<le> rm_slot r \<and> rm_slot r \<le> 5) ?rows"
    using assms(4) by (fastforce simp: list_all_iff)
  then show ?thesis
    using throne_okD(5) [OF assms(1)] slots kings apart
    by (auto simp: members_ok_def unique_by_append unique_by_distinct)
qed

lemma ins_epoch_effect:
  assumes "epochs_ok (weight_epochs d)" "length us = length ws"
  obtains b es where "ins_epoch env nu why reign us ws pol h d
      = Inr (b, d\<lparr>next_id := Suc (next_id d), weight_epochs := es\<rparr>)" "epochs_ok es"
proof (cases "list_ex (\<lambda>e. we_netuid e = nu \<and> we_hash e = h) (weight_epochs d)")
  case True
  then show thesis
    using assms that [of False "weight_epochs d"]
    by (simp add: ins_epoch_def tx_bind_def tx_gets_def tx_fresh_def tx_return_def)
next
  case False
  define e where "e = \<lparr>we_id = next_id d, we_netuid = nu, we_reason = why, we_reign_id = reign,
    we_state = WE_PENDING, we_uids = us, we_weights = ws, we_policy = pol, we_hash = h,
    we_attempt_count = 0, we_last_fault_class = None, we_last_fault_code = None,
    we_created_at = se_now env, we_updated_at = se_now env, we_succeeded_at = None\<rparr>"
  have "epochs_ok (weight_epochs d @ [e])"
    using assms False by (auto simp: epochs_ok_def unique_by_snoc e_def list_ex_iff)
  moreover have "ins_epoch env nu why reign us ws pol h d
      = Inr (True, d\<lparr>next_id := Suc (next_id d), weight_epochs := weight_epochs d @ [e]\<rparr>)"
    using False calculation
    by (simp add: ins_epoch_def tx_bind_def tx_gets_def tx_fresh_def tx e_def)
  ultimately show thesis using that by blast
qed

lemma supersede_versions: "map rg_version (supersede_reign i rs) = map rg_version rs"
  "map rg_id (supersede_reign i rs) = map rg_id rs"
  by (auto simp: supersede_reign_def intro!: map_update_where)

lemma supersede_no_active:
  assumes "reigns_ok rs" "g \<in> set rs" "rg_state g = RG_ACTIVE" "q \<in> set (supersede_reign (rg_id g) rs)"
  shows "rg_state q \<noteq> RG_ACTIVE"
proof
  assume a: "rg_state q = RG_ACTIVE"
  obtain q0 where "q0 \<in> set rs" "q = (if rg_id q0 = rg_id g then q0\<lparr>rg_state := RG_SUPERSEDED\<rparr> else q0)"
    using assms(4) by (auto simp: supersede_reign_def in_update_where)
  with a have q: "q \<in> set rs" "rg_id q \<noteq> rg_id g"
    by (auto split: if_splits)
  then have "q = g"
    using assms a unique_by_same [of reign_key rs q g] by (simp add: reigns_ok_def reign_key_def)
  then show False using q(2) by simp
qed

lemma reigns_ok_supersede:
  assumes "reigns_ok rs" shows "reigns_ok (supersede_reign i rs)"
  using assms unfolding reigns_ok_def supersede_reign_def
  by (auto intro!: unique_by_update simp: reign_key_def)

lemma reigns_ok_crown:
  assumes "reigns_ok rs" "g \<in> set rs" "rg_state g = RG_ACTIVE"
    and "rg_version q = next_number (map rg_version rs)"
  shows "reigns_ok (supersede_reign (rg_id g) rs @ [q])"
proof -
  let ?ss = "supersede_reign (rg_id g) rs"
  have "rg_version s \<noteq> rg_version q" if "s \<in> set ?ss" for s
    using that next_number_fresh [of "map rg_version rs"] supersede_versions(1) [of "rg_id g" rs]
    by (metis assms(4) image_eqI set_map)
  moreover have "reign_key s = None" if "s \<in> set ?ss" for s
    using supersede_no_active [OF assms(1-3) that] by (simp add: reign_key_def)
  ultimately show ?thesis
    using reigns_ok_supersede [OF assms(1)] by (auto simp: reigns_ok_def unique_by_snoc)
qed

lemma kings_ok_crown:
  assumes "kings_ok ks" "kv_version k = next_number (map kv_version ks)" "kv_entered_slot k = 1"
  shows "kings_ok (ks @ [k])"
proof -
  have "kv_version s \<noteq> kv_version k" if "s \<in> set ks" for s
    using that next_number_fresh [of "map kv_version ks"] assms(2) by (metis image_eqI set_map)
  then show ?thesis using assms by (auto simp: kings_ok_def unique_by_snoc)
qed

lemma kings_ok_retire: "kings_ok ks \<Longrightarrow> kings_ok (retired_kings env s ms ks)"
  unfolding kings_ok_def retired_kings_def
  by (auto intro!: unique_by_update simp: list_all_iff in_update_where)

lemma retired_ids: "map kv_id (retired_kings env s ms ks) = map kv_id ks"
  by (simp add: retired_kings_def map_update_where)

lemma install_reign_effect:
  assumes "kings_ok (king_versions d @ [new_king w r p kid kver reign slot mh])"
    and "reigns_ok (supersede_reign (rg_id (pm_reign p)) (reigns d))"
    and "reigns_ok (supersede_reign (rg_id (pm_reign p)) (reigns d) @ [new_reign env r p reign version])"
    and "members_ok (reign_members d @ member_rows reign (next_id d) planned)"
  obtains ks where "install_reign env w r p kid kver reign version mh planned slot retired d =
    Inr ((), d\<lparr>next_id := next_id d + length planned, king_versions := ks,
      reigns := supersede_reign (rg_id (pm_reign p)) (reigns d) @ [new_reign env r p reign version],
      reign_members := reign_members d @ member_rows reign (next_id d) planned\<rparr>)"
    "kings_ok ks" "map kv_id ks = map kv_id (king_versions d) @ [kid]"
proof -
  define ks where "ks = (if retired = [] then king_versions d @ [new_king w r p kid kver reign slot mh]
    else retired_kings env (ms_id r) retired (king_versions d @ [new_king w r p kid kver reign slot mh]))"
  define d1 where "d1 = d\<lparr>king_versions := king_versions d @ [new_king w r p kid kver reign slot mh],
    reigns := supersede_reign (rg_id (pm_reign p)) (reigns d) @ [new_reign env r p reign version]\<rparr>"
  have "tx_for planned (ins_member reign) d1 = Inr ((), d1\<lparr>next_id := next_id d1 + length planned,
     reign_members := reign_members d1 @ member_rows reign (next_id d1) planned\<rparr>)"
    using assms(4) by (intro ins_members_effect) (simp add: d1_def)
  then have run: "install_reign env w r p kid kver reign version mh planned slot retired d =
    Inr ((), d\<lparr>next_id := next_id d + length planned, king_versions := ks,
      reigns := supersede_reign (rg_id (pm_reign p)) (reigns d) @ [new_reign env r p reign version],
      reign_members := reign_members d @ member_rows reign (next_id d) planned\<rparr>)"
    using assms(1-3) kings_ok_retire [OF assms(1)]
    by (auto simp: install_reign_def tx d1_def ks_def)
  have ids: "map kv_id ks = map kv_id (king_versions d) @ [kid]"
    by (simp add: ks_def retired_ids new_king_def)
  show thesis
    by (rule that [OF run _ ids]) (simp add: ks_def assms(1) kings_ok_retire)
qed

lemma finish_promotion_total:
  assumes "ledger d"
  obtains d' where "finish_promotion env s i v j d = Inr ((), d')" "next_id d' = next_id d"
    "submissions d' = update_where (\<lambda>q. ms_id q = s) (\<lambda>q. (clear_fault q)
      \<lparr>ms_state := REIGN_SET, ms_updated_at := se_now env\<rparr>) (submissions d)"
    "reigns d' = reigns d" "king_versions d' = king_versions d" "reign_members d' = reign_members d"
    "weight_epochs d' = weight_epochs d" "eval_runs d' = eval_runs d"
proof -
  have "attempts_ok (update_where (\<lambda>r. sa_id r = i) (\<lambda>a. a\<lparr>sa_state := SA_SUCCEEDED,
      sa_finished_at := Some (se_now env), sa_lease_expires_at := None, sa_result_summary := j\<rparr>)
      (attempts d))"
    using ledgerD(3) [OF assms] by (rule attempts_ok_update) (simp add: closes_def open_attempt_def)
  moreover have "subs_ok (update_where (\<lambda>q. ms_id q = s) (\<lambda>q. (clear_fault q)
      \<lparr>ms_state := REIGN_SET, ms_updated_at := se_now env\<rparr>) (submissions d))"
    by (rule ledger_subs_keys [OF assms]) (simp add: keeps_keys_def)
  ultimately show thesis
    using that by (simp add: finish_promotion_def tx upd_sub_def upd_attempt_def)
qed

lemma build_payload_lengths: "length (fst (weight_epoch_payload ps)) = length (snd (weight_epoch_payload ps))"
  by (simp add: weight_epoch_payload_def)

text \<open>The reign's tables after the statements of a promotion that starts at the key \<open>kid\<close>.\<close>

lemma install_plan_effect:
  assumes "throne_ok d" "pm_reign p \<in> set (reigns d)" "rg_state (pm_reign p) = RG_ACTIVE"
    "pm_active p = active_members (rg_id (pm_reign p)) d"
    and kid: "kid = next_id d" and c: "c = challenger_member r kid mh"
    and ver: "version = next_number (map rg_version (reigns d))"
    and R: "R = new_reign env r p (Suc kid) version"
    and kver: "kver = next_number (map kv_version (king_versions d))"
  obtains planned ks where "build_reign_plan (pm_active p) c = Inr planned"
    "find pl_is_challenger planned = Some (hd planned)"
    "install_reign env w r p kid kver (Suc kid) version mh planned (pl_slot (hd planned))
        (retired_members (pm_active p) planned) (d\<lparr>next_id := Suc (Suc kid)\<rparr>) = Inr ((), d\<lparr>next_id := Suc (Suc kid) + length planned,
          king_versions := ks, reigns := supersede_reign (rg_id (pm_reign p)) (reigns d) @ [R],
          reign_members := reign_members d @ member_rows (Suc kid) (Suc (Suc kid)) planned\<rparr>)"
    "kings_ok ks" "map kv_id ks = map kv_id (king_versions d) @ [kid]"
    "reigns_ok (supersede_reign (rg_id (pm_reign p)) (reigns d) @ [R])"
    "members_ok (reign_members d @ member_rows (Suc kid) (Suc (Suc kid)) planned)"
proof -
  define d0 where "d0 = d\<lparr>next_id := Suc (Suc kid)\<rparr>"
  obtain planned where plan: "build_reign_plan (pm_active p) c = Inr planned"
    using build_reign_plan_total by blast
  have fresh: "\<forall>m \<in> set (pm_active p). mb_king_version_id m < mb_king_version_id c"
    using active_members_below [OF assms(1)] assms(4) by (simp add: c challenger_member_def kid)
  note own = plan_own [OF plan fresh]
  have kings: "kings_ok (king_versions d0 @ [new_king w r p kid kver (Suc kid) 1 mh])"
    using kings_ok_crown [OF throne_okD(4) [OF assms(1)]] by (simp add: new_king_def kver d0_def)
  have crown: "reigns_ok (supersede_reign (rg_id (pm_reign p)) (reigns d0) @ [R])"
    using reigns_ok_crown [OF throne_okD(3) [OF assms(1)] assms(2,3), of R]
    by (simp add: R ver new_reign_def d0_def)
  have sup: "reigns_ok (supersede_reign (rg_id (pm_reign p)) (reigns d0))"
    using reigns_ok_supersede [OF throne_okD(3) [OF assms(1)]] by (simp add: d0_def)
  have mem: "members_ok (reign_members d0 @ member_rows (Suc kid) (next_id d0) planned)"
    using members_ok_plan [OF assms(1) _ build_reign_planD(2,4) [OF plan],
        OF _ plan_distinct [OF plan fresh], of "Suc kid" "next_id d0"]
      active_members_distinct [OF assms(1)] assms(4) by (simp add: d0_def kid)
  obtain ks where inst: "install_reign env w r p kid kver (Suc kid) version mh planned 1
      (retired_members (pm_active p) planned) d0 =
      Inr ((), d0\<lparr>next_id := next_id d0 + length planned, king_versions := ks,
        reigns := supersede_reign (rg_id (pm_reign p)) (reigns d0) @ [R],
        reign_members := reign_members d0 @ member_rows (Suc kid) (next_id d0) planned\<rparr>)"
    and ks: "kings_ok ks" "map kv_id ks = map kv_id (king_versions d0) @ [kid]"
    using install_reign_effect [OF kings sup crown [unfolded R] mem] unfolding R by metis
  show thesis
    by (rule that [OF plan own(1) _ ks(1)]) (use inst ks crown mem own(2) in \<open>simp_all add: d0_def\<close>)
qed

lemma promote_row_effect:
  assumes "ledger d" "throne_ok d" "holds SET_REIGN i (ms_id r) d"
    and p: "pm_reign p \<in> set (reigns d)" "rg_state (pm_reign p) = RG_ACTIVE"
      "pm_active p = active_members (rg_id (pm_reign p)) d"
    and mh: "ms_model_hash r = Some mh"
  obtains d' planned where "promote_row sha env w r i p d = Inr ((), d')" "ledger d'" "throne_ok d'"
    "build_reign_plan (pm_active p) (challenger_member r (next_id d) mh) = Inr planned"
    "reigns d' = supersede_reign (rg_id (pm_reign p)) (reigns d) @
      [new_reign env r p (Suc (next_id d)) (next_number (map rg_version (reigns d)))]"
    "reign_members d' = reign_members d @
      member_rows (Suc (next_id d)) (Suc (Suc (next_id d))) planned"
    "submissions d' = update_where (\<lambda>q. ms_id q = ms_id r) (\<lambda>q. (clear_fault q)
      \<lparr>ms_state := REIGN_SET, ms_updated_at := se_now env\<rparr>) (submissions d)"
    "eval_runs d' = eval_runs d"
proof -
  define kid where "kid = next_id d"
  define version where "version = next_number (map rg_version (reigns d))"
  define R where "R = new_reign env r p (Suc kid) version"
  define kver where "kver = next_number (map kv_version (king_versions d))"
  obtain planned ks where plan: "build_reign_plan (pm_active p) (challenger_member r kid mh) = Inr planned"
    and own: "find pl_is_challenger planned = Some (hd planned)"
    and inst: "install_reign env w r p kid kver (Suc kid) version mh planned (pl_slot (hd planned))
        (retired_members (pm_active p) planned) (d\<lparr>next_id := Suc (Suc kid)\<rparr>) = Inr ((), d
        \<lparr>next_id := Suc (Suc kid) + length planned, king_versions := ks,
         reigns := supersede_reign (rg_id (pm_reign p)) (reigns d) @ [R],
         reign_members := reign_members d @ member_rows (Suc kid) (Suc (Suc kid)) planned\<rparr>)"
    and ks: "kings_ok ks" "map kv_id ks = map kv_id (king_versions d) @ [kid]"
    and ok: "reigns_ok (supersede_reign (rg_id (pm_reign p)) (reigns d) @ [R])"
      "members_ok (reign_members d @ member_rows (Suc kid) (Suc (Suc kid)) planned)"
    by (rule install_plan_effect [OF assms(2) p kid_def refl version_def R_def kver_def])
  define d2 where "d2 = d\<lparr>next_id := Suc (Suc kid) + length planned, king_versions := ks,
    reigns := supersede_reign (rg_id (pm_reign p)) (reigns d) @ [R],
    reign_members := reign_members d @ member_rows (Suc kid) (Suc (Suc kid)) planned\<rparr>"
  define hash where "hash = weight_hash sha (ms_netuid r) version planned (weight_policy version planned)"
  have e0: "epochs_ok (weight_epochs d2)" using throne_okD(6) [OF assms(2)] by (simp add: d2_def)
  obtain b es where ep: "ins_epoch env (ms_netuid r) CORONATION (Some (Suc kid))
      (fst (weight_epoch_payload planned)) (snd (weight_epoch_payload planned))
      (weight_policy version planned) hash d2 = Inr (b, d2\<lparr>next_id := Suc (next_id d2), weight_epochs := es\<rparr>)"
    and es: "epochs_ok es"
    by (rule ins_epoch_effect [OF e0 build_payload_lengths])
  define d3 where "d3 = d2\<lparr>next_id := Suc (next_id d2), weight_epochs := es\<rparr>"
  have fr: "same_ledger d d3" by (simp add: same_ledger_def d3_def d2_def kid_def)
  then have led: "ledger d3" using assms(1) same_ledger_ledger by blast
  define summary where "summary = reign_summary (Suc kid) version kid kver planned
    (retired_members (pm_active p) planned) hash"
  obtain d' where fin: "finish_promotion env (ms_id r) i version summary d3 = Inr ((), d')" "next_id d' = next_id d3"
    "submissions d' = update_where (\<lambda>q. ms_id q = ms_id r) (\<lambda>q. (clear_fault q)
      \<lparr>ms_state := REIGN_SET, ms_updated_at := se_now env\<rparr>) (submissions d3)"
    "reigns d' = reigns d3" "king_versions d' = king_versions d3" "reign_members d' = reign_members d3"
    "weight_epochs d' = weight_epochs d3" "eval_runs d' = eval_runs d3"
    by (rule finish_promotion_total [OF led])
  have "rm_reign_id m < Suc (Suc (Suc (next_id d + length planned)))" if "m \<in> set (reign_members d)" for m
    using throne_okD(7) [OF assms(2) that] by simp
  then have "throne_ok d3"
    using throne_okD(1-6) [OF assms(2)] ks ok es
    by (auto simp: throne_ok_def d3_def d2_def supersede_versions R_def new_reign_def kid_def
        intro!: keys_below_snoc elim: keys_below_mono dest!: member_rows_reign)
  then have th: "throne_ok d'" by (rule throne_ok_frame) (use fin in simp_all)
  have led': "ledger d'" by (rule finish_promotion_ledger [OF led holds_frame [OF assms(3) fr] fin(1)])
  have run: "promote_row sha env w r i p d = Inr ((), d')"
    using plan own inst ep fin(1) mh
    by (simp add: promote_row_def tx_bind_def tx_then_def tx_fresh_def tx_gets_def kid_def [symmetric]
        kver_def version_def hash_def summary_def d2_def d3_def Let_def case_prod_unfold)
  show thesis
    by (rule that [OF run led' th, of planned])
      (use fin plan in \<open>simp_all add: d3_def d2_def kid_def R_def version_def\<close>)
qed

section \<open>Promotion\<close>

lemma active_reign_props: "active_reign d = Some g \<Longrightarrow> g \<in> set (reigns d) \<and> rg_state g = RG_ACTIVE"
  by (auto simp: active_reign_def dest!: limit1_Some)

lemma winning_eval_props: "winning_eval s d = Some ev \<Longrightarrow> ev \<in> set (eval_runs d) \<and> winning_run s ev"
  by (auto simp: winning_eval_def dest!: limit1_Some)

lemma check_winnerD:
  assumes "check_winner r d = Inr p"
  shows "pm_reign p \<in> set (reigns d)" "rg_state (pm_reign p) = RG_ACTIVE"
    "pm_active p = active_members (rg_id (pm_reign p)) d"
    "ms_model_hash r = Some (er_challenger_model_hash (pm_eval p))"
    "pm_eval p \<in> set (eval_runs d)" "winning_run (ms_id r) (pm_eval p)"
    "lead_member (pm_active p) = Some (pm_lead p)"
    "er_king_submission_id (pm_eval p) = Some (mb_submission_id (pm_lead p))"
    "er_king_model_hash (pm_eval p) = mb_model_hash (pm_lead p)"
  using assms active_reign_props [of d "pm_reign p"] winning_eval_props [of "ms_id r" d "pm_eval p"]
  by (auto simp: check_winner_def Let_def split: option.splits if_splits)

lemma check_winner_frame:
  assumes "eval_runs d' = eval_runs d" "reigns d' = reigns d" "reign_members d' = reign_members d"
    "king_versions d' = king_versions d" "artifacts d' = artifacts d"
  shows "check_winner r d' = check_winner r d"
proof -
  have eqs: "winning_eval s d' = winning_eval s d" "active_reign d' = active_reign d"
    "active_members i d' = active_members i d" "manifest_artifact s d' = manifest_artifact s d" for s i
    using assms by (simp_all add: winning_eval_def active_reign_def active_members_def manifest_artifact_def)
  show ?thesis unfolding check_winner_def eqs ..
qed

lemma lead_member_slot: "lead_member ms = Some m \<Longrightarrow> m \<in> set ms \<and> mb_previous_slot m = Some 1"
  by (auto simp: lead_member_def find_Some_iff)

lemma promote_next_winner_cases:
  obtains (Idle) "promote_next_winner sha env w lease d = Inr (False, d)" "\<not> se_lock env \<or> next_winner env d = None"
  | (Row) r where "se_lock env" "next_winner env d = Some r"
      "promote_next_winner sha env w lease d = tx_bind (claim_winner env w lease r) (\<lambda>i.
        tx_bind (tx_gets (check_winner r)) (\<lambda>res. case res of
          Inl (code, msg) \<Rightarrow> tx_then (mark_reign_retryable env (ms_id r) i code msg) (tx_return True)
        | Inr p \<Rightarrow> tx_then (promote_row sha env w r i p) (tx_return True))) d"
  by (cases "next_winner env d"; cases "se_lock env")
    (auto simp: promote_next_winner_def tx_bind_def tx_gets_def tx_return_def)

lemma promotion_runs:
  assumes "ledger d" "throne_ok d" "next_winner env d = Some r" "check_winner r d = Inr p" "se_lock env"
  obtains d' planned where "promote_next_winner sha env w lease d = Inr (True, d')" "ledger d'" "throne_ok d'"
    "build_reign_plan (pm_active p) (challenger_member r (Suc (next_id d)) (er_challenger_model_hash (pm_eval p))) = Inr planned"
    "reigns d' = supersede_reign (rg_id (pm_reign p)) (reigns d) @
      [new_reign env r p (Suc (Suc (next_id d))) (next_number (map rg_version (reigns d)))]"
    "reign_members d' = reign_members d @
      member_rows (Suc (Suc (next_id d))) (Suc (Suc (Suc (next_id d)))) planned"
    "\<forall>q \<in> set (submissions d'). ms_id q = ms_id r \<longrightarrow> ms_state q = REIGN_SET"
    "eval_runs d' = eval_runs d"
proof -
  obtain d1 where d1: "claim_winner env w lease r d = Inr (next_id d, d1)" "ledger d1"
    "holds SET_REIGN (next_id d) (ms_id r) d1" "next_id d1 = Suc (next_id d)"
    "eval_runs d1 = eval_runs d" "reigns d1 = reigns d" "reign_members d1 = reign_members d"
    "king_versions d1 = king_versions d" "artifacts d1 = artifacts d"
    "weight_epochs d1 = weight_epochs d"
    by (rule claim_winner_effect [OF assms(1) next_winner_claimable [OF assms(3)]])
  have cw: "check_winner r d1 = Inr p" using check_winner_frame [of d1 d r] d1 assms(4) by simp
  have th: "throne_ok d1" using assms(2) by (rule throne_ok_frame) (simp_all add: d1)
  obtain d' planned where d': "promote_row sha env w r (next_id d) p d1 = Inr ((), d')" "ledger d'" "throne_ok d'"
    "build_reign_plan (pm_active p) (challenger_member r (next_id d1) (er_challenger_model_hash (pm_eval p))) = Inr planned"
    "reigns d' = supersede_reign (rg_id (pm_reign p)) (reigns d1) @
      [new_reign env r p (Suc (next_id d1)) (next_number (map rg_version (reigns d1)))]"
    "reign_members d' = reign_members d1 @ member_rows (Suc (next_id d1)) (Suc (Suc (next_id d1))) planned"
    "submissions d' = update_where (\<lambda>q. ms_id q = ms_id r) (\<lambda>q. (clear_fault q)
      \<lparr>ms_state := REIGN_SET, ms_updated_at := se_now env\<rparr>) (submissions d1)"
    "eval_runs d' = eval_runs d1"
    by (rule promote_row_effect [OF d1(2) th d1(3) check_winnerD(1-4) [OF cw]])
  have "promote_next_winner sha env w lease d = Inr (True, d')"
    using assms(3,5) d1(1) cw d'(1)
    by (simp add: promote_next_winner_def tx_bind_def tx_gets_def tx_then_def tx_return_def)
  then show thesis
    by (rule that [of d' planned]) (use d' d1 in \<open>auto simp: in_update_where\<close>)
qed

text \<open>
  C12. A winner whose evaluation beat the reigning lead is crowned: the promotion commits, exactly one
  reign is ACTIVE afterwards, of a greater version and succeeding the old one; its members fill the
  slots 1 to n, five at most, share 10000 basis points, and the winner has slot 1 and no other.
\<close>

theorem promotion_crowns_winner:
  assumes "ledger d" and "throne_ok d" and "se_lock env" and "next_winner env d = Some r"
    and "check_winner r d = Inr p"
  shows "\<exists>d' rg. promote_next_winner sha env w lease d = Inr (True, d') \<and> ledger d' \<and> throne_ok d' \<and>
    filter (\<lambda>g. rg_state g = RG_ACTIVE) (reigns d') = [rg] \<and>
    rg_previous_reign_id rg = Some (rg_id (pm_reign p)) \<and>
    (\<forall>g \<in> set (reigns d). rg_version g < rg_version rg) \<and>
    (let ms = filter (\<lambda>m. rm_reign_id m = rg_id rg) (reign_members d')
     in map rm_slot ms = [1..<Suc (length ms)] \<and> length ms \<le> 5 \<and>
        sum_list (map rm_weight_bps ms) = 10000 \<and> rm_submission_id (hd ms) = ms_id r \<and>
        (\<forall>m \<in> set (tl ms). rm_submission_id m \<noteq> ms_id r)) \<and>
    (\<forall>q \<in> set (submissions d'). ms_id q = ms_id r \<longrightarrow> ms_state q = REIGN_SET)"
proof -
  define c where "c = challenger_member r (Suc (next_id d)) (er_challenger_model_hash (pm_eval p))"
  define R where "R = new_reign env r p (Suc (Suc (next_id d))) (next_number (map rg_version (reigns d)))"
  obtain d' planned where d': "promote_next_winner sha env w lease d = Inr (True, d')" "ledger d'" "throne_ok d'"
    "build_reign_plan (pm_active p) c = Inr planned"
    "reigns d' = supersede_reign (rg_id (pm_reign p)) (reigns d) @ [R]"
    "reign_members d' = reign_members d @ member_rows (Suc (Suc (next_id d))) (Suc (Suc (Suc (next_id d)))) planned"
    "\<forall>q \<in> set (submissions d'). ms_id q = ms_id r \<longrightarrow> ms_state q = REIGN_SET"
    by (rule promotion_runs [OF assms(1,2,4,5,3), folded c_def R_def])
  have R: "rg_state R = RG_ACTIVE" "rg_previous_reign_id R = Some (rg_id (pm_reign p))"
    "rg_id R = Suc (Suc (next_id d))" "rg_version R = next_number (map rg_version (reigns d))"
    by (simp_all add: R_def new_reign_def)
  have "filter (\<lambda>g. rg_state g = RG_ACTIVE) (reigns d') = [R]"
    using supersede_no_active [OF throne_okD(3) [OF assms(2)] check_winnerD(1,2) [OF assms(5)]]
    by (auto simp: d'(5) R filter_empty_conv)
  moreover have "\<forall>g \<in> set (reigns d). rg_version g < rg_version R"
    by (auto simp: R intro!: next_number_gt)
  moreover define ms where "ms = member_rows (Suc (Suc (next_id d))) (Suc (Suc (Suc (next_id d)))) planned"
  have own: "filter (\<lambda>m. rm_reign_id m = rg_id R) (reign_members d') = ms"
  proof -
    have "filter (\<lambda>m. rm_reign_id m = rg_id R) (reign_members d) = []"
      using throne_okD(7) [OF assms(2)] by (fastforce simp: filter_empty_conv R)
    moreover have "filter (\<lambda>m. rm_reign_id m = rg_id R) ms = ms"
      by (rule filter_True) (auto simp: ms_def R dest: member_rows_reign)
    ultimately show ?thesis by (simp add: d'(6) ms_def [symmetric])
  qed
  note plan = build_reign_planD [OF d'(4)]
  have len: "length ms = length planned" using arg_cong [OF member_rows_cols(1), of length] by (simp add: ms_def)
  have subs: "map rm_submission_id ms = mb_submission_id c # map mb_submission_id (kept_members (pm_active p) c)"
    using plan(1) by (simp add: ms_def member_rows_cols flip: map_map)
  have "rm_submission_id (hd ms) = ms_id r" using subs by (cases ms) (auto simp: c_def challenger_member_def)
  moreover have "\<forall>m \<in> set (tl ms). rm_submission_id m \<noteq> ms_id r"
  proof
    fix m assume "m \<in> set (tl ms)"
    then have "rm_submission_id m \<in> set (map rm_submission_id (tl ms))" by simp
    then obtain k where k: "k \<in> set (kept_members (pm_active p) c)" "rm_submission_id m = mb_submission_id k"
      by (simp only: map_tl subs) auto
    then show "rm_submission_id m \<noteq> ms_id r"
      using kept_members_props(4) [OF k(1)] by (simp add: c_def challenger_member_def)
  qed
  moreover have "map rm_slot ms = [1..<Suc (length ms)]" "sum_list (map rm_weight_bps ms) = 10000" "length ms \<le> 5"
    using plan(2-4) len by (simp_all add: ms_def member_rows_cols del: upt_Suc)
  ultimately show ?thesis
    using d'(1-3,7) R(2) own by (intro exI [of _ d'] exI [of _ R]) (simp add: Let_def)
qed

lemma failed_promotion_effect:
  assumes "ledger d" "next_winner env d = Some r" "check_winner r d = Inl (code, msg)" "se_lock env"
  obtains d' where "promote_next_winner sha env w lease d = Inr (True, d')" "ledger d'"
    "reigns d' = reigns d" "king_versions d' = king_versions d" "reign_members d' = reign_members d"
    "weight_epochs d' = weight_epochs d" "next_id d \<le> next_id d'" "eval_runs d' = eval_runs d"
    "submissions d' = update_where (\<lambda>q. ms_id q = ms_id r) (\<lambda>q. (set_fault INFRA_FAULT code msg
        (clear_fault q))\<lparr>ms_state := SET_REIGN_RETRYABLE, ms_retry_count := Suc (ms_retry_count q),
      ms_updated_at := se_now env\<rparr>) (submissions d)"
proof -
  obtain d1 where d1: "claim_winner env w lease r d = Inr (next_id d, d1)" "ledger d1"
    "holds SET_REIGN (next_id d) (ms_id r) d1" "next_id d1 = Suc (next_id d)"
    "submissions d1 = update_where (\<lambda>s. ms_id s = ms_id r) (\<lambda>s. (clear_fault s)
       \<lparr>ms_state := SET_REIGN_RUNNING, ms_updated_at := se_now env\<rparr>) (submissions d)"
    "eval_runs d1 = eval_runs d" "reigns d1 = reigns d" "reign_members d1 = reign_members d"
    "king_versions d1 = king_versions d" "artifacts d1 = artifacts d"
    "weight_epochs d1 = weight_epochs d"
    by (rule claim_winner_effect [OF assms(1) next_winner_claimable [OF assms(2)]])
  have cw: "check_winner r d1 = Inl (code, msg)" using check_winner_frame [of d1 d r] d1 assms(3) by simp
  obtain d' where d': "mark_reign_retryable env (ms_id r) (next_id d) code msg d1 = Inr ((), d')"
    using mark_reign_retryable_total [OF d1(2)] by blast
  have run: "promote_next_winner sha env w lease d = Inr (True, d')"
    using assms(2,4) d1(1) cw d'
    by (simp add: promote_next_winner_def tx_bind_def tx_gets_def tx_then_def tx_return_def)
  have eff: "reigns d' = reigns d1" "king_versions d' = king_versions d1" "reign_members d' = reign_members d1"
    "weight_epochs d' = weight_epochs d1" "next_id d' = next_id d1" "eval_runs d' = eval_runs d1"
    "submissions d' = update_where (\<lambda>q. ms_id q = ms_id r) (\<lambda>s. (set_fault INFRA_FAULT code msg s)
       \<lparr>ms_state := SET_REIGN_RETRYABLE, ms_retry_count := Suc (ms_retry_count s),
        ms_updated_at := se_now env\<rparr>) (submissions d1)"
    using d' by (auto simp: mark_reign_retryable_def tx upd_sub_def upd_attempt_def)
  show thesis
    by (rule that [OF run mark_reign_retryable_ledger [OF d1(2,3) d']])
      (use eff d1 in \<open>simp_all add: update_where_twice clear_fault_def set_fault_def\<close>)
qed

text \<open>
  C13. A promotion that fails a check commits too: the throne and the weight epochs stay as they are,
  the winner becomes SET_REIGN_RETRYABLE with one more retry, and for the next minute (an hour at
  most, one minute per retry) no promotion takes it.
\<close>

theorem failed_promotion_waits:
  assumes "ledger d" and "se_lock env" and "next_winner env d = Some r"
    and "check_winner r d = Inl (code, msg)"
  shows "\<exists>d'. promote_next_winner sha env w lease d = Inr (True, d') \<and> ledger d' \<and>
    reigns d' = reigns d \<and> king_versions d' = king_versions d \<and>
    reign_members d' = reign_members d \<and> weight_epochs d' = weight_epochs d \<and>
    (\<forall>q \<in> set (submissions d'). ms_id q = ms_id r \<longrightarrow>
       ms_state q = SET_REIGN_RETRYABLE \<and> ms_fault_code q = Some code \<and>
       ms_retry_count q = Suc (ms_retry_count r)) \<and>
    (\<forall>env' q. q \<in> set (reign_claimable env' d') \<and> ms_id q = ms_id r \<longrightarrow>
       se_now env + 60 * int (min (Suc (ms_retry_count r)) 60) \<le> se_now env')"
proof -
  have r: "r \<in> set (submissions d)" using next_winner_claimable [OF assms(3)] set_reign_claimable by blast
  obtain d' where d': "promote_next_winner sha env w lease d = Inr (True, d')" "ledger d'"
    "reigns d' = reigns d" "king_versions d' = king_versions d" "reign_members d' = reign_members d"
    "weight_epochs d' = weight_epochs d" "next_id d \<le> next_id d'" "eval_runs d' = eval_runs d"
    "submissions d' = update_where (\<lambda>q. ms_id q = ms_id r) (\<lambda>q. (set_fault INFRA_FAULT code msg
        (clear_fault q))\<lparr>ms_state := SET_REIGN_RETRYABLE, ms_retry_count := Suc (ms_retry_count q),
      ms_updated_at := se_now env\<rparr>) (submissions d)"
    by (rule failed_promotion_effect [OF assms(1,3,4,2)])
  have row: "ms_state q = SET_REIGN_RETRYABLE \<and> ms_fault_code q = Some code \<and>
      ms_retry_count q = Suc (ms_retry_count r) \<and> ms_updated_at q = se_now env"
    if "q \<in> set (submissions d')" "ms_id q = ms_id r" for q
    using updated_row [OF assms(1) r d'(9) _ that] by (simp add: keeps_id_def)
  have wait: "se_now env + 60 * int (min (Suc (ms_retry_count r)) 60) \<le> se_now env'"
    if "q \<in> set (reign_claimable env' d')" "ms_id q = ms_id r" for env' q
    using that row [of q] by (auto simp: reign_claimable_def)
  show ?thesis using d'(1-6) row wait by blast
qed

text \<open>
  C14. Nobody takes the throne without beating who sits on it: when a promotion changes the reigns,
  some claimable winner has a successful eval run, won against the lead (slot 1) of the ACTIVE reign,
  with the model hash the submission has.
\<close>

theorem throne_changes_by_victory:
  assumes "ledger d" and "throne_ok d"
    and "promote_next_winner sha env w lease d = Inr (b, d')" and "reigns d' \<noteq> reigns d"
  shows "\<exists>r ev g lead. next_winner env d = Some r \<and> ev \<in> set (eval_runs d) \<and>
    winning_run (ms_id r) ev \<and> ms_model_hash r = Some (er_challenger_model_hash ev) \<and>
    g \<in> set (reigns d) \<and> rg_state g = RG_ACTIVE \<and> lead \<in> set (active_members (rg_id g) d) \<and>
    mb_previous_slot lead = Some 1 \<and> er_king_submission_id ev = Some (mb_submission_id lead) \<and>
    er_king_model_hash ev = mb_model_hash lead"
proof (cases rule: promote_next_winner_cases [of sha env w lease d])
  case Idle
  then show ?thesis using assms(3,4) by simp
next
  case (Row r)
  show ?thesis
  proof (cases "check_winner r d")
    case (Inl cm)
    then obtain code msg where "check_winner r d = Inl (code, msg)" by (cases cm) simp
    then have "reigns d' = reigns d"
      using failed_promotion_effect [OF assms(1) Row(2) _ Row(1)] assms(3) by (metis Inr_inject prod.inject)
    then show ?thesis using assms(4) by simp
  next
    case (Inr p)
    note c = check_winnerD [OF Inr]
    show ?thesis
      using Row(2) c lead_member_slot [OF c(7)]
      by (intro exI [of _ r] exI [of _ "pm_eval p"] exI [of _ "pm_reign p"] exI [of _ "pm_lead p"]) simp
  qed
qed

lemma promote_next_winner_inv:
  assumes "ledger d" "throne_ok d"
  shows "\<exists>b d'. promote_next_winner sha env w lease d = Inr (b, d') \<and> ledger d' \<and> throne_ok d' \<and>
    eval_runs d' = eval_runs d"
proof (cases rule: promote_next_winner_cases [of sha env w lease d])
  case Idle
  then show ?thesis using assms by blast
next
  case (Row r)
  show ?thesis
  proof (cases "check_winner r d")
    case (Inl cm)
    then obtain code msg where c: "check_winner r d = Inl (code, msg)" by (cases cm) simp
    show ?thesis
      by (rule failed_promotion_effect [OF assms(1) Row(2) c Row(1), of sha w lease])
        (use throne_ok_frame [OF assms(2)] in auto)
  next
    case (Inr p)
    show ?thesis
      by (rule promotion_runs [OF assms Row(2) Inr Row(1), of sha w lease]) blast
  qed
qed

end
