(* ===== verification/Floats.thy ===== *)
theory Floats
  imports Complex_Main "HOL-Library.Log_Nat"
begin

text \<open>
  Python's floats as the rationals they stand for: every operation gives the rational nearest to the
  exact result among those with 53 significant bits, ties to the even one. Overflow, subnormal
  numbers, infinities and NaN are out of the model. \<open>round(x, 6)\<close> is the double nearest to the decimal
  nearest to \<open>x\<close>, and \<open>statistics.mean\<close> rounds the exact mean once.
\<close>

section \<open>Rounding\<close>

text \<open>The nearest integer, of two the even one.\<close>

definition round_even :: "rat \<Rightarrow> int" where
  "round_even x = (let f = \<lfloor>x\<rfloor>; r = x - of_int f in
     if r < 1 / 2 then f else if r > 1 / 2 then f + 1 else if even f then f else f + 1)"

text \<open>The weight of the last of 53 bits of a positive number.\<close>

definition last_bit :: "rat \<Rightarrow> int" where
  "last_bit x = (case quotient_of x of (n, d) \<Rightarrow>
     let k = bitlen n - bitlen d in if 2 ^ 53 * 2 powi (k - 53) \<le> x then k - 52 else k - 53)"

definition fl :: "rat \<Rightarrow> rat" where
  "fl x = (if x = 0 then 0
     else if 0 < x then of_int (round_even (x / 2 powi (last_bit x))) * 2 powi (last_bit x)
     else - (of_int (round_even (- x / 2 powi (last_bit (- x)))) * 2 powi (last_bit (- x))))"

definition fsub :: "rat \<Rightarrow> rat \<Rightarrow> rat" where
  "fsub x y = fl (x - y)"

definition fdiv :: "rat \<Rightarrow> rat \<Rightarrow> rat" where
  "fdiv x y = fl (x / y)"

text \<open>\<open>sum\<close> of floats, from the left.\<close>

definition fsum :: "rat list \<Rightarrow> rat" where
  "fsum xs = foldl (\<lambda>s x. fl (s + x)) 0 xs"

text \<open>\<open>statistics.mean\<close>.\<close>

definition fmean :: "rat list \<Rightarrow> rat" where
  "fmean xs = fl (sum_list xs / of_nat (length xs))"

text \<open>\<open>round(x, 6)\<close>.\<close>

definition round6 :: "rat \<Rightarrow> rat" where
  "round6 x = fl (of_int (round_even (x * 1000000)) / 1000000)"

section \<open>The nearest integer\<close>

lemma round_even_error: "\<bar>of_int (round_even x) - x\<bar> \<le> 1 / 2"
proof -
  have "of_int \<lfloor>x\<rfloor> \<le> x" "x < of_int \<lfloor>x\<rfloor> + 1" by linarith+
  then show ?thesis by (auto simp: round_even_def Let_def)
qed

lemma round_even_int [simp]: "round_even (of_int i) = i"
  by (simp add: round_even_def Let_def)

lemma round_even_floor: "\<lfloor>x\<rfloor> \<le> round_even x" "round_even x \<le> \<lfloor>x\<rfloor> + 1"
  by (simp_all add: round_even_def Let_def)

lemma round_even_mono:
  assumes "x \<le> y"
  shows "round_even x \<le> round_even y"
proof (cases "\<lfloor>x\<rfloor> = \<lfloor>y\<rfloor>")
  case True
  with assms show ?thesis by (auto simp: round_even_def Let_def)
next
  case False
  with assms have "\<lfloor>x\<rfloor> + 1 \<le> \<lfloor>y\<rfloor>" using floor_mono [OF assms] by linarith
  then show ?thesis using round_even_floor [of x] round_even_floor [of y] by linarith
qed

lemma round_even_ge: "of_int i \<le> x \<Longrightarrow> i \<le> round_even x"
  using round_even_mono [of "of_int i" x] by simp

lemma round_even_le: "x \<le> of_int i \<Longrightarrow> round_even x \<le> i"
  using round_even_mono [of x "of_int i"] by simp

section \<open>The scale of a number\<close>

lemma pow2_less: "(2 :: rat) powi i < 2 powi j \<Longrightarrow> i < j"
  using power_int_increasing [of j i "2 :: rat"] by (cases "i < j") auto

lemma last_bit_bounds:
  assumes "0 < x"
  shows "2 ^ 52 * 2 powi (last_bit x) \<le> x" "x < 2 ^ 53 * 2 powi (last_bit x)"
proof -
  obtain n d where q: "quotient_of x = (n, d)" by fastforce
  then have x: "x = of_int n / of_int d" and d: "0 < d"
    using quotient_of_div quotient_of_denom_pos by auto
  then have n: "0 < n" using assms by (simp add: zero_less_divide_iff)
  define a b where "a = bitlen n" and "b = bitlen d"
  have pos: "1 \<le> a" "1 \<le> b"
    using n d bitlen_nonneg [of n] bitlen_nonneg [of d] bitlen_eq_zero_iff [of n] bitlen_eq_zero_iff [of d]
    by (simp_all add: a_def b_def)
  have bounds: "2 powi (bitlen m - 1) \<le> (of_int m :: rat) \<and> (of_int m :: rat) < 2 powi (bitlen m)"
    if "0 < m" for m
  proof -
    have "1 \<le> bitlen m" using that bitlen_nonneg [of m] bitlen_eq_zero_iff [of m] by linarith
    moreover have "(of_int (2 ^ nat (bitlen m - 1)) :: rat) \<le> of_int m" "(of_int m :: rat) < of_int (2 ^ nat (bitlen m))"
      using bitlen_bounds [OF that] of_int_le_iff of_int_less_iff by blast+
    ultimately show ?thesis by (simp add: power_int_def)
  qed
  have upper: "x < 2 powi (a - b + 1)"
  proof -
    have "x < 2 powi a / 2 powi (b - 1)"
      unfolding x using bounds [OF n] bounds [OF d] d n by (intro frac_less) (auto simp: a_def b_def)
    also have "\<dots> = 2 powi (a - b + 1)" by (simp add: algebra_simps flip: power_int_diff)
    finally show ?thesis .
  qed
  have lower: "2 powi (a - b - 1) \<le> x"
  proof -
    have "2 powi (a - 1) / 2 powi b \<le> x"
      unfolding x using bounds [OF n] bounds [OF d] d n by (intro frac_le) (auto simp: a_def b_def)
    moreover have "2 powi (a - 1) / 2 powi b = (2 powi (a - b - 1) :: rat)" by (simp add: algebra_simps flip: power_int_diff)
    ultimately show ?thesis by simp
  qed
  have scale: "(2 :: rat) ^ k * 2 powi e = 2 powi (e + int k)" for k e
    by (simp add: power_int_add)
  have scales: "2 ^ 52 * 2 powi (a - b - 52) = (2 powi (a - b) :: rat)" "2 ^ 53 * 2 powi (a - b - 53) = (2 powi (a - b) :: rat)"
    "2 ^ 53 * 2 powi (a - b - 52) = (2 powi (a - b + 1) :: rat)" "2 ^ 52 * 2 powi (a - b - 53) = (2 powi (a - b - 1) :: rat)"
    by (subst scale, simp add: algebra_simps)+
  have "2 ^ 52 * 2 powi (last_bit x) \<le> x \<and> x < 2 ^ 53 * 2 powi (last_bit x)"
  proof (cases "2 ^ 53 * 2 powi (a - b - 53) \<le> x")
    case True
    then have "last_bit x = a - b - 52" by (simp add: last_bit_def q a_def b_def)
    with True upper show ?thesis by (simp only: scales)
  next
    case False
    then have "last_bit x = a - b - 53" by (simp add: last_bit_def q a_def b_def)
    with False lower show ?thesis by (simp only: scales not_le)
  qed
  then show "2 ^ 52 * 2 powi (last_bit x) \<le> x" "x < 2 ^ 53 * 2 powi (last_bit x)" by simp_all
qed

lemma last_bit_unique:
  assumes "2 ^ 52 * 2 powi e \<le> x" "x < 2 ^ 53 * 2 powi e"
  shows "last_bit x = e"
proof -
  have "0 < x" using assms(1) by (rule less_le_trans [rotated]) simp
  note b = last_bit_bounds [OF this]
  have less: "a < b + 1" if "(2 :: rat) ^ 52 * 2 powi a < 2 ^ 53 * 2 powi b" for a b
  proof -
    have "(2 :: rat) powi (a + 52) < 2 powi (b + 53)" using that by (simp add: power_int_add)
    then have "a + 52 < b + 53" by (rule pow2_less)
    then show ?thesis by simp
  qed
  show ?thesis using less [of "last_bit x" e] less [of e "last_bit x"] assms b by linarith
qed

section \<open>Rounding to a double\<close>

lemma fl_0 [simp]: "fl 0 = 0"
  by (simp add: fl_def)

lemma fl_minus [simp]: "fl (- x) = - fl x"
  by (simp add: fl_def)

lemma fl_scaled:
  "2 ^ 52 * 2 powi e \<le> x \<Longrightarrow> x < 2 ^ 53 * 2 powi e \<Longrightarrow> fl x = of_int (round_even (x / 2 powi e)) * 2 powi e"
proof -
  assume x: "2 ^ 52 * 2 powi e \<le> x" "x < 2 ^ 53 * 2 powi e"
  have "0 < x" using x(1) by (rule less_le_trans [rotated]) simp
  then show ?thesis using last_bit_unique [OF x] by (simp add: fl_def)
qed

lemma round_even_near: "\<bar>x - of_int m\<bar> < 1 / 2 \<Longrightarrow> round_even x = m"
  using round_even_error [of x] by (simp add: abs_if split: if_splits)

text \<open>A number between 2^52 and 2^53 after scaling, not halfway: how concrete floats are evaluated.\<close>

lemma fl_nearest:
  assumes "2 ^ 52 \<le> x * 2 ^ k" "x * 2 ^ k < 2 ^ 53" "\<bar>x * 2 ^ k - of_int m\<bar> < 1 / 2"
  shows "fl x = of_int m / 2 ^ k"
proof -
  have scale: "(2 :: rat) powi (- int k) = 1 / 2 ^ k" by (simp add: power_int_def field_simps)
  have "fl x = of_int (round_even (x / 2 powi (- int k))) * 2 powi (- int k)"
    using assms(1,2) by (intro fl_scaled) (simp_all only: scale mult_1_right times_divide_eq_right divide_le_eq less_divide_eq zero_less_power zero_less_numeral if_True)
  also have "round_even (x / 2 powi (- int k)) = m" using assms(3) by (intro round_even_near) (simp add: scale)
  finally show ?thesis by (simp add: scale)
qed

lemma fl_between:
  assumes "0 < x"
  shows "2 ^ 52 * 2 powi (last_bit x) \<le> fl x" "fl x \<le> 2 ^ 53 * 2 powi (last_bit x)"
proof -
  let ?u = "2 powi (last_bit x) :: rat"
  note b = last_bit_bounds [OF assms]
  have "(2 ^ 52 :: int) \<le> round_even (x / ?u)" by (rule round_even_ge) (use b(1) in \<open>simp add: le_divide_eq\<close>)
  moreover have "round_even (x / ?u) \<le> 2 ^ 53" by (rule round_even_le) (use b(2) in \<open>simp add: divide_le_eq\<close>)
  ultimately have "of_int (2 ^ 52) \<le> (of_int (round_even (x / ?u)) :: rat)" "(of_int (round_even (x / ?u)) :: rat) \<le> of_int (2 ^ 53)"
    using of_int_le_iff by blast+
  then show "2 ^ 52 * ?u \<le> fl x" "fl x \<le> 2 ^ 53 * ?u" using assms by (simp_all add: fl_def mult_right_mono)
qed

lemma fl_nonneg: "0 \<le> x \<Longrightarrow> 0 \<le> fl x"
  using fl_between(1) [of x] by (cases "x = 0") (auto intro: order_trans [rotated])

lemma fl_mono_nonneg:
  assumes "0 \<le> x" "x \<le> y"
  shows "fl x \<le> fl y"
proof (cases "x = 0")
  case True
  then show ?thesis using fl_nonneg assms by simp
next
  case False
  then have pos: "0 < x" "0 < y" using assms by auto
  note bx = last_bit_bounds [OF pos(1)] and by' = last_bit_bounds [OF pos(2)]
  have "2 ^ 52 * 2 powi (last_bit x) < (2 ^ 53 * 2 powi (last_bit y) :: rat)"
    using bx(1) by'(2) assms(2) by linarith
  then have "(2 :: rat) powi (last_bit x + 52) < 2 powi (last_bit y + 53)" by (simp add: power_int_add)
  then have "last_bit x \<le> last_bit y"
    using pow2_less by fastforce
  then consider "last_bit x = last_bit y" | "last_bit x + 1 \<le> last_bit y" by linarith
  then show ?thesis
  proof cases
    case 1
    have "round_even (x / 2 powi (last_bit y)) \<le> round_even (y / 2 powi (last_bit y))"
      using assms(2) by (intro round_even_mono divide_right_mono) simp_all
    then show ?thesis using pos 1 by (simp add: fl_def)
  next
    case 2
    have "fl x \<le> 2 ^ 52 * 2 powi (last_bit x + 1)" using fl_between(2) [OF pos(1)] by (simp add: power_int_add)
    also have "\<dots> \<le> 2 ^ 52 * 2 powi (last_bit y)" using 2 by (simp add: power_int_increasing)
    also have "\<dots> \<le> fl y" by (rule fl_between(1) [OF pos(2)])
    finally show ?thesis .
  qed
qed

lemma fl_mono: "x \<le> y \<Longrightarrow> fl x \<le> fl y"
  using fl_mono_nonneg [of x y] fl_mono_nonneg [of "- y" "- x"] fl_nonneg [of y] fl_nonneg [of "- x"]
  by (cases "0 \<le> x"; cases "0 \<le> y") auto

lemma fl_error: "\<bar>fl x - x\<bar> \<le> \<bar>x\<bar> / 2 ^ 53"
proof -
  have pos: "\<bar>fl x - x\<bar> \<le> x / 2 ^ 53" if "0 < x" for x
  proof -
    let ?u = "2 powi (last_bit x) :: rat"
    have "fl x - x = (of_int (round_even (x / ?u)) - x / ?u) * ?u"
      using that by (simp add: fl_def algebra_simps)
    then have "\<bar>fl x - x\<bar> = \<bar>of_int (round_even (x / ?u)) - x / ?u\<bar> * ?u" by (simp add: abs_mult)
    also have "\<dots> \<le> 1 / 2 * ?u" using round_even_error by (intro mult_right_mono) simp_all
    also have "\<dots> \<le> x / 2 ^ 53" using last_bit_bounds(1) [OF that] by simp
    finally show ?thesis .
  qed
  consider "x = 0" | "0 < x" | "0 < - x" by linarith
  then show ?thesis using pos [of x] pos [of "- x"] by cases auto
qed

text \<open>Numbers of 53 bits are exact, small integers above all.\<close>

lemma fl_exact:
  assumes "x = of_int n * 2 powi e" "\<bar>n\<bar> < 2 ^ 53"
  shows "fl x = x"
proof -
  have pos: "fl x = x" if x: "x = of_int n * 2 powi e" "0 < n" "n < 2 ^ 53" for x n
  proof -
    have "0 < x" using x by simp
    note b = last_bit_bounds [OF this]
    have "x < 2 ^ 53 * 2 powi e"
      unfolding x(1) using x(3) of_int_less_iff [of n "2 ^ 53", where 'a = rat] by (intro mult_strict_right_mono) simp_all
    then have "(2 :: rat) powi (last_bit x + 52) < 2 powi (e + 53)" using b(1) by (simp add: power_int_add)
    then have le: "last_bit x \<le> e"
      using pow2_less by fastforce
    have "x / 2 powi (last_bit x) = of_int n * 2 powi (e - last_bit x)" by (simp add: x(1) power_int_diff)
    also have "\<dots> = of_int (n * 2 ^ nat (e - last_bit x))" using le by (simp add: power_int_def)
    finally have "of_int (round_even (x / 2 powi (last_bit x))) = x / 2 powi (last_bit x)"
      by (simp only: round_even_int)
    then show ?thesis using \<open>0 < x\<close> by (simp add: fl_def)
  qed
  consider "n = 0" | "0 < n" | "0 < - n" by linarith
  then show ?thesis
  proof cases
    case 3
    have "fl (- x) = - x" by (rule pos [of _ "- n"]) (use assms 3 in auto)
    then show ?thesis by simp
  qed (use assms pos in auto)
qed

lemma fl_of_int: "\<bar>n\<bar> < 2 ^ 53 \<Longrightarrow> fl (of_int n) = of_int n"
  by (rule fl_exact [of _ n 0]) simp_all

lemma fl_1 [simp]: "fl 1 = 1"
  using fl_of_int [of 1] by simp

lemma fl_unit: "0 \<le> x \<Longrightarrow> x \<le> 1 \<Longrightarrow> 0 \<le> fl x \<and> fl x \<le> 1"
  using fl_mono [of 0 x] fl_mono [of x 1] by simp

lemma round6_unit: "0 \<le> x \<Longrightarrow> x \<le> 1 \<Longrightarrow> 0 \<le> round6 x \<and> round6 x \<le> 1"
proof -
  assume x: "0 \<le> x" "x \<le> 1"
  have "0 \<le> round_even (x * 1000000)" using x by (intro round_even_ge) simp
  moreover have "round_even (x * 1000000) \<le> 1000000" using x by (intro round_even_le) simp
  ultimately show ?thesis unfolding round6_def by (intro fl_unit) (simp_all add: divide_le_eq)
qed

lemma mean_between:
  fixes xs :: "rat list"
  assumes "xs \<noteq> []" "\<forall>x \<in> set xs. a \<le> x \<and> x \<le> b"
  shows "a \<le> sum_list xs / of_nat (length xs) \<and> sum_list xs / of_nat (length xs) \<le> b"
proof -
  have "of_nat (length xs) * a \<le> sum_list xs \<and> sum_list xs \<le> of_nat (length xs) * b"
    using assms(2) by (induction xs) (auto simp: algebra_simps)
  then show ?thesis using assms(1) by (simp add: le_divide_eq divide_le_eq mult.commute)
qed

lemma fmean_unit: "xs \<noteq> [] \<Longrightarrow> \<forall>x \<in> set xs. 0 \<le> x \<and> x \<le> 1 \<Longrightarrow> 0 \<le> fmean xs \<and> fmean xs \<le> 1"
  unfolding fmean_def using mean_between by (intro fl_unit) blast+

end
