(* ===== verification/Weights.thy ===== *)
theory Weights
  imports Reign Floats "HOL-Library.Multiset"
begin

text \<open>
  Setting the chain's weights: src/src/weight_setter/service.py. The chain client (registered hotkeys,
  the extrinsic's result) is an argument. The Decimals, multiples of a basis point, are exact; the floats
  of the payload are the doubles nearest to them, added up in floating point.
\<close>

record weight_member =
  wm_slot :: nat
  wm_uid :: int
  wm_hotkey :: string
  wm_weight_bps :: nat

record weight_payload =
  wp_uids :: "int list"
  wp_weights :: "rat list"
  wp_policy :: json

record claimed_epoch =
  ce_epoch_id :: nat
  ce_transaction_id :: nat
  ce_stage_attempt_id :: "nat option"
  ce_reign_id :: "nat option"
  ce_trigger :: "nat option"
  ce_netuid :: int
  ce_reason :: reason
  ce_hash :: string
  ce_policy :: json

record set_weights_result =
  sw_success :: bool
  sw_message :: string
  sw_extrinsic_hash :: "string option"

section \<open>The weights of a reign\<close>

text \<open>\<open>by_uid[uid] = by_uid.get(uid, 0) + w\<close> on a dict in insertion order.\<close>

fun add_weight :: "int \<Rightarrow> rat \<Rightarrow> (int \<times> rat) list \<Rightarrow> (int \<times> rat) list" where
  "add_weight u w [] = [(u, w)]"
| "add_weight u w ((v, x) # xs) = (if v = u then (v, x + w) # xs else (v, x) # add_weight u w xs)"

definition registered :: "(int \<times> string) list \<Rightarrow> weight_member \<Rightarrow> bool" where
  "registered uid_hotkeys m \<longleftrightarrow> map_of uid_hotkeys (wm_uid m) = Some (wm_hotkey m)"

definition bps_weight :: "weight_member \<Rightarrow> rat" where
  "bps_weight m = of_nat (wm_weight_bps m) / 10000"

definition submitted_json :: "weight_member \<Rightarrow> json" where
  "submitted_json m = JObj [(''slot'', JInt (int (wm_slot m))), (''uid'', JInt (wm_uid m)),
     (''hotkey'', JStr (wm_hotkey m)), (''weight_bps'', JInt (int (wm_weight_bps m)))]"

definition deregistered_json :: "(int \<times> string) list \<Rightarrow> weight_member \<Rightarrow> json" where
  "deregistered_json uid_hotkeys m = JObj
     [(''slot'', JInt (int (wm_slot m))), (''expected_uid'', JInt (wm_uid m)),
      (''expected_hotkey'', JStr (wm_hotkey m)),
      (''current_hotkey'', jstr (map_of uid_hotkeys (wm_uid m))),
      (''weight_bps'', JInt (int (wm_weight_bps m)))]"

text \<open>The loop over the members by slot: registered weights by uid, and the weight to burn.\<close>

fun split_weights ::
  "(int \<times> string) list \<Rightarrow> weight_member list \<Rightarrow> (int \<times> rat) list \<Rightarrow> rat \<Rightarrow> (int \<times> rat) list \<times> rat" where
  "split_weights hks [] by_uid burned = (by_uid, burned)"
| "split_weights hks (m # ms) by_uid burned =
     (if registered hks m then split_weights hks ms (add_weight (wm_uid m) (bps_weight m) by_uid) burned
      else split_weights hks ms by_uid (burned + bps_weight m))"

definition payload_policy ::
  "json \<Rightarrow> (int \<times> string) list \<Rightarrow> int \<Rightarrow> weight_member list \<Rightarrow> json" where
  "payload_policy base hks burn ms = jmerge base (JObj
     [(''burn_uid'', JInt burn),
      (''deregistered_slots'',
         JList (map (deregistered_json hks) (filter (\<lambda>m. \<not> registered hks m) ms))),
      (''submitted_members'', JList (map submitted_json (filter (registered hks) ms)))])"

definition build_weight_payload ::
  "weight_member list \<Rightarrow> (int \<times> string) list \<Rightarrow> int \<Rightarrow> json \<Rightarrow> weight_payload" where
  "build_weight_payload ms hks burn base =
     (if ms = [] then
        \<lparr>wp_uids = [burn], wp_weights = [1], wp_policy =
           jmerge (payload_policy base hks burn []) (JObj [(''empty_reign_burned'', JBool True)])\<rparr>
      else
        let sorted_ms = sort_key wm_slot ms;
            (live, burned) = split_weights hks sorted_ms [] 0;
            by_uid = (if burned \<noteq> 0 then add_weight burn burned live else live);
            policy = payload_policy base hks burn sorted_ms
        in if by_uid = [] then \<lparr>wp_uids = [burn], wp_weights = [1], wp_policy = policy\<rparr>
           else let ordered = sort_key (\<lambda>(u, _). (u \<noteq> burn, u)) by_uid
             in \<lparr>wp_uids = map fst ordered, wp_weights = map (fl \<circ> snd) ordered, wp_policy = policy\<rparr>)"

definition validate_weight_payload :: "weight_payload \<Rightarrow> db_error + unit" where
  "validate_weight_payload p =
     (if wp_uids p = [] then Inl (ValueErr ''weight payload has no uids'')
      else if length (wp_uids p) \<noteq> length (wp_weights p)
      then Inl (ValueErr ''weight payload uids and weights have different lengths'')
      else if list_ex (\<lambda>w. w \<le> 0) (wp_weights p)
      then Inl (ValueErr ''weight payload includes a non-positive weight'')
      else if \<bar>fsub (fsum (wp_weights p)) 1\<bar> > fl (1 / 1000000000)
      then Inl (ValueErr ''weight payload must sum to 1.0'')
      else Inr ())"

section \<open>Claiming an epoch\<close>

definition periodic_refresh_weight_hash ::
  "(json \<Rightarrow> string) \<Rightarrow> int \<Rightarrow> nat option \<Rightarrow> int \<Rightarrow> int \<Rightarrow> string" where
  "periodic_refresh_weight_hash sha netuid reign block rate = ''sha256:'' @ sha (JObj
     [(''netuid'', JInt netuid), (''reign_id'', jid reign), (''reason'', JStr ''PERIODIC_REFRESH''),
      (''refresh_window'', JInt (block div max rate 1))])"

definition last_successful_block :: "int \<Rightarrow> db \<Rightarrow> int option" where
  "last_successful_block netuid d = limit1 (rev (sort (List.map_filter (\<lambda>t.
     if wt_state t = WT_SUCCESS \<and>
        list_ex (\<lambda>e. we_id e = wt_epoch_id t \<and> we_netuid e = netuid) (weight_epochs d)
     then wt_block_number t else None) (weight_txs d))))"

definition recent_marker :: "int \<Rightarrow> db \<Rightarrow> int option" where
  "recent_marker netuid d = limit1 (rev (sort (List.map_filter (\<lambda>t.
     if (wt_state t = WT_SUCCESS \<or> wt_fault_code t = Some ''weight_set_rate_limited'') \<and>
        list_ex (\<lambda>e. we_id e = wt_epoch_id t \<and> we_netuid e = netuid) (weight_epochs d)
     then wt_block_number t else None) (weight_txs d))))"

definition rate_limited :: "int \<Rightarrow> int \<Rightarrow> int \<Rightarrow> db \<Rightarrow> bool" where
  "rate_limited netuid block rate d \<longleftrightarrow> (case recent_marker netuid d of None \<Rightarrow> False
     | Some b \<Rightarrow> block - b < rate)"

definition pending_epoch :: "sess \<Rightarrow> int \<Rightarrow> weight_epoch \<Rightarrow> bool" where
  "pending_epoch env netuid e \<longleftrightarrow> we_netuid e = netuid \<and> (we_state e = WE_PENDING \<or>
     (we_state e = WE_FAILED_RETRYABLE \<and> we_updated_at e \<le> se_now env - 60))"

definition next_epoch :: "sess \<Rightarrow> int \<Rightarrow> db \<Rightarrow> weight_epoch option" where
  "next_epoch env netuid d = limit1 (sort_key (\<lambda>e. (- we_created_at e, - int (we_id e)))
     (filter (\<lambda>e. pending_epoch env netuid e \<and> se_free env (we_id e)) (weight_epochs d)))"

definition trigger_of :: "weight_epoch \<Rightarrow> db \<Rightarrow> nat option" where
  "trigger_of e d = (case find (\<lambda>r. Some (rg_id r) = we_reign_id e) (reigns d) of None \<Rightarrow> None
     | Some r \<Rightarrow> rg_trigger_submission_id r)"

definition superseded_epochs :: "sess \<Rightarrow> weight_epoch \<Rightarrow> weight_epoch list \<Rightarrow> weight_epoch list" where
  "superseded_epochs env e = update_where
     (\<lambda>x. we_netuid x = we_netuid e \<and> we_id x \<noteq> we_id e \<and> we_created_at x \<le> we_created_at e \<and>
        (we_state x = WE_PENDING \<or> we_state x = WE_FAILED_RETRYABLE))
     (\<lambda>x. x\<lparr>we_state := WE_FAILED_TERMINAL, we_updated_at := se_now env,
        we_last_fault_class := None,
        we_last_fault_code := Some ''superseded_by_newer_weight_epoch''\<rparr>)"

definition reign_rows :: "nat option \<Rightarrow> db \<Rightarrow> reign_row list" where
  "reign_rows reign d = (case reign of None \<Rightarrow> []
     | Some i \<Rightarrow> sort_key rm_slot (filter (\<lambda>m. rm_reign_id m = i) (reign_members d)))"

definition refresh_policy ::
  "int \<Rightarrow> int \<Rightarrow> int \<Rightarrow> reign option \<Rightarrow> reign_row list \<Rightarrow> json" where
  "refresh_policy burn block rate rg ms = JObj
     [(''policy'', JStr ''periodic_refresh_v1''), (''burn_uid'', JInt burn),
      (''current_block'', JInt block), (''rate_limit_blocks'', JInt rate),
      (''refresh_window'', JInt (block div max rate 1)),
      (''reign_version'', jint (map_option (int \<circ> rg_version) rg)),
      (''member_count'', JInt (int (length ms))),
      (''slot_weight_bps'',
         JObj (map (\<lambda>m. (show_nat (rm_slot m), JInt (int (rm_weight_bps m)))) ms)),
      (''empty_reign_burned'', JBool (ms = []))]"

text \<open>
  The refresh epoch of the current window: inserted, or the row that already has its hash, whatever
  that row's state.
\<close>

definition create_periodic_refresh_epoch ::
  "(json \<Rightarrow> string) \<Rightarrow> sess \<Rightarrow> int \<Rightarrow> int \<Rightarrow> int \<Rightarrow> int \<Rightarrow> (db, weight_epoch option) tx" where
  "create_periodic_refresh_epoch sha env netuid block rate burn =
     tx_bind (tx_gets active_reign) (\<lambda>rg.
     let reign = map_option rg_id rg;
         hash = periodic_refresh_weight_hash sha netuid reign block rate
     in tx_bind (tx_gets (reign_rows reign)) (\<lambda>ms.
        let uids = (if ms = [] then [burn] else map rm_uid ms);
            weights = (if ms = [] then [1] else map (\<lambda>m. of_nat (rm_weight_bps m) / 10000) ms)
        in tx_bind (ins_epoch env netuid PERIODIC_REFRESH reign uids weights
             (refresh_policy burn block rate rg ms) hash)
           (\<lambda>_. tx_gets (\<lambda>d. find (\<lambda>e. we_netuid e = netuid \<and> we_hash e = hash) (weight_epochs d)))))"

definition select_epoch ::
  "(json \<Rightarrow> string) \<Rightarrow> sess \<Rightarrow> int \<Rightarrow> int \<Rightarrow> int \<Rightarrow> int \<Rightarrow> (db, (weight_epoch \<times> nat option) option) tx" where
  "select_epoch sha env netuid block rate burn =
     tx_bind (tx_gets (next_epoch env netuid)) (\<lambda>row. case row of
       Some e \<Rightarrow> tx_then (stmt_epochs (superseded_epochs env e))
         (tx_bind (tx_gets (trigger_of e)) (\<lambda>t. tx_return (Some (e, t))))
     | None \<Rightarrow> tx_bind (create_periodic_refresh_epoch sha env netuid block rate burn)
         (\<lambda>e. tx_return (map_option (\<lambda>x. (x, None)) e)))"

definition start_weight_attempt ::
  "sess \<Rightarrow> string \<Rightarrow> weight_epoch \<Rightarrow> nat option \<Rightarrow> (db, nat option) tx" where
  "start_weight_attempt env worker e trigger = (case trigger of
     None \<Rightarrow> tx_return None
   | Some sub \<Rightarrow> tx_bind tx_fresh (\<lambda>i.
       tx_bind (tx_gets (next_attempt_number sub WEIGHT_SET)) (\<lambda>n.
       tx_then (ins_attempt (new_attempt i sub WEIGHT_SET n worker None (se_now env)
          (JObj [(''weight_epoch_id'', JId (we_id e)), (''weight_hash'', JStr (we_hash e))])))
       (tx_then (stmt_subs (update_where (\<lambda>s. ms_id s = sub \<and>
            (ms_state s = REIGN_SET \<or> ms_state s = WEIGHT_SET_RETRYABLE))
          (\<lambda>s. (clear_fault s)\<lparr>ms_state := WEIGHT_SET_RUNNING, ms_updated_at := se_now env\<rparr>)))
       (tx_return (Some i))))))"

definition running_epoch :: "sess \<Rightarrow> weight_epoch \<Rightarrow> weight_epoch list \<Rightarrow> weight_epoch list" where
  "running_epoch env e = update_where (\<lambda>x. we_id x = we_id e) (\<lambda>x. x\<lparr>we_state := WE_RUNNING,
     we_attempt_count := Suc (we_attempt_count x), we_updated_at := se_now env,
     we_last_fault_class := None, we_last_fault_code := None\<rparr>)"

definition start_epoch ::
  "sess \<Rightarrow> string \<Rightarrow> string \<Rightarrow> string \<Rightarrow> int \<Rightarrow> weight_epoch \<Rightarrow> nat option \<Rightarrow> nat option \<Rightarrow>
     (db, claimed_epoch) tx" where
  "start_epoch env worker wallet url block e trigger att =
     tx_bind tx_fresh (\<lambda>t.
     tx_then (stmt_wtxs (\<lambda>ts. ts @
        [\<lparr>wt_id = t, wt_epoch_id = we_id e, wt_attempt_id = att, wt_wallet_hotkey = wallet,
          wt_subtensor_url = url, wt_state = WT_CREATED, wt_extrinsic_hash = None,
          wt_block_number = Some block, wt_fault_class = None, wt_fault_code = None,
          wt_fault_message = None, wt_updated_at = se_now env\<rparr>]))
     (tx_then (stmt_epochs (running_epoch env e))
     (tx_then (case trigger of None \<Rightarrow> tx_return () | Some sub \<Rightarrow>
        ins_event (Some sub) att ''weight_set_claimed'' INFO (''Weight epoch claimed by '' @ worker)
          (JObj [(''weight_epoch_id'', JId (we_id e)), (''weight_transaction_id'', JId t),
                 (''current_block'', JInt block)]))
     (tx_return \<lparr>ce_epoch_id = we_id e, ce_transaction_id = t, ce_stage_attempt_id = att,
        ce_reign_id = we_reign_id e, ce_trigger = trigger, ce_netuid = we_netuid e,
        ce_reason = we_reason e, ce_hash = we_hash e, ce_policy = we_policy e\<rparr>))))"

record weight_settings =
  st_worker_id :: string
  st_wallet_hotkey :: string
  st_network :: string
  st_rate_blocks :: int
  st_netuid :: int
  st_burn_uid :: int

definition claim_next_epoch ::
  "(json \<Rightarrow> string) \<Rightarrow> sess \<Rightarrow> weight_settings \<Rightarrow> int \<Rightarrow> (db, claimed_epoch option) tx" where
  "claim_next_epoch sha env cfg block =
     (if \<not> se_lock env then tx_return None
      else tx_bind (tx_gets (rate_limited (st_netuid cfg) block (st_rate_blocks cfg))) (\<lambda>limited.
        if limited then tx_return None
        else tx_bind (select_epoch sha env (st_netuid cfg) block (st_rate_blocks cfg)
               (st_burn_uid cfg)) (\<lambda>row. case row of
          None \<Rightarrow> tx_return None
        | Some (e, trigger) \<Rightarrow>
            tx_bind (start_weight_attempt env (st_worker_id cfg) e trigger) (\<lambda>att.
            tx_bind (start_epoch env (st_worker_id cfg) (st_wallet_hotkey cfg) (st_network cfg) block
              e trigger att) (\<lambda>c. tx_return (Some c))))))"

definition active_reign_members :: "nat option \<Rightarrow> db \<Rightarrow> weight_member list" where
  "active_reign_members reign d = map (\<lambda>m. \<lparr>wm_slot = rm_slot m, wm_uid = rm_uid m,
     wm_hotkey = rm_hotkey m, wm_weight_bps = rm_weight_bps m\<rparr>) (reign_rows reign d)"

section \<open>Recording the outcome\<close>

definition success_json :: "claimed_epoch \<Rightarrow> weight_payload \<Rightarrow> set_weights_result \<Rightarrow> int \<Rightarrow> json" where
  "success_json c p r block = JObj
     [(''weight_epoch_id'', JId (ce_epoch_id c)),
      (''weight_transaction_id'', JId (ce_transaction_id c)),
      (''uids'', JList (map JInt (wp_uids p))), (''weights'', JList (map JNum (wp_weights p))),
      (''block_number'', JInt block), (''extrinsic_hash'', jstr (sw_extrinsic_hash r))]"

definition succeeded_tx :: "sess \<Rightarrow> set_weights_result \<Rightarrow> int \<Rightarrow> weight_tx \<Rightarrow> weight_tx" where
  "succeeded_tx env r block t = t\<lparr>wt_state := WT_SUCCESS, wt_extrinsic_hash := sw_extrinsic_hash r,
     wt_block_number := Some block, wt_updated_at := se_now env\<rparr>"

definition succeeded_epoch :: "sess \<Rightarrow> weight_payload \<Rightarrow> weight_epoch \<Rightarrow> weight_epoch" where
  "succeeded_epoch env p x = x\<lparr>we_state := WE_SUCCESS, we_uids := wp_uids p,
     we_weights := wp_weights p, we_policy := wp_policy p, we_updated_at := se_now env,
     we_succeeded_at := Some (se_now env), we_last_fault_class := None, we_last_fault_code := None\<rparr>"

definition succeeded_attempt :: "sess \<Rightarrow> json \<Rightarrow> attempt \<Rightarrow> attempt" where
  "succeeded_attempt env j a = a\<lparr>sa_state := SA_SUCCEEDED, sa_finished_at := Some (se_now env),
     sa_result_summary := j\<rparr>"

definition coronated :: "sess \<Rightarrow> submission \<Rightarrow> submission" where
  "coronated env s = (clear_fault s)\<lparr>ms_state := COMPLETE_CORONATED, ms_updated_at := se_now env,
     ms_finished_at := Some (se_now env)\<rparr>"

definition mark_success ::
  "sess \<Rightarrow> claimed_epoch \<Rightarrow> weight_payload \<Rightarrow> set_weights_result \<Rightarrow> int \<Rightarrow> (db, unit) tx" where
  "mark_success env c p r block = tx_seq
     [stmt_wtxs (update_where (\<lambda>t. wt_id t = ce_transaction_id c) (succeeded_tx env r block)),
      stmt_epochs (update_where (\<lambda>x. we_id x = ce_epoch_id c) (succeeded_epoch env p)),
      (case ce_stage_attempt_id c of None \<Rightarrow> tx_return () | Some i \<Rightarrow>
        upd_attempt i (succeeded_attempt env (success_json c p r block))),
      (case ce_trigger c of None \<Rightarrow> tx_return () | Some sub \<Rightarrow> tx_then (upd_sub sub (coronated env))
        (ins_event (Some sub) (ce_stage_attempt_id c) ''weight_set_succeeded'' INFO
           ''Weights submitted successfully'' (success_json c p r block)))]"

definition failed_tx :: "sess \<Rightarrow> string \<Rightarrow> string \<Rightarrow> int \<Rightarrow> weight_tx \<Rightarrow> weight_tx" where
  "failed_tx env code msg block t = t\<lparr>wt_state := WT_FAILED_RETRYABLE,
     wt_block_number := Some block, wt_fault_class := Some CHAIN_FAULT, wt_fault_code := Some code,
     wt_fault_message := Some msg, wt_updated_at := se_now env\<rparr>"

definition failed_epoch :: "sess \<Rightarrow> string \<Rightarrow> weight_epoch \<Rightarrow> weight_epoch" where
  "failed_epoch env code x = x\<lparr>we_state := WE_FAILED_RETRYABLE,
     we_last_fault_class := Some CHAIN_FAULT, we_last_fault_code := Some code,
     we_updated_at := se_now env\<rparr>"

definition failed_weight_attempt :: "sess \<Rightarrow> string \<Rightarrow> string \<Rightarrow> attempt \<Rightarrow> attempt" where
  "failed_weight_attempt env code msg a = a\<lparr>sa_state := SA_FAILED_RETRYABLE,
     sa_finished_at := Some (se_now env), sa_fault_class := Some CHAIN_FAULT,
     sa_fault_code := Some code, sa_fault_message := Some msg\<rparr>"

definition weights_retryable :: "sess \<Rightarrow> string \<Rightarrow> string \<Rightarrow> submission \<Rightarrow> submission" where
  "weights_retryable env code msg s = (set_fault CHAIN_FAULT code msg s)
     \<lparr>ms_state := WEIGHT_SET_RETRYABLE, ms_updated_at := se_now env\<rparr>"

definition mark_weight_failed ::
  "sess \<Rightarrow> claimed_epoch \<Rightarrow> string \<Rightarrow> string \<Rightarrow> int \<Rightarrow> (db, unit) tx" where
  "mark_weight_failed env c code msg block = tx_seq
     [stmt_wtxs (update_where (\<lambda>t. wt_id t = ce_transaction_id c) (failed_tx env code msg block)),
      stmt_epochs (update_where (\<lambda>x. we_id x = ce_epoch_id c) (failed_epoch env code)),
      (case ce_stage_attempt_id c of None \<Rightarrow> tx_return () | Some i \<Rightarrow>
        upd_attempt i (failed_weight_attempt env code msg)),
      (case ce_trigger c of None \<Rightarrow> tx_return () | Some sub \<Rightarrow> tx_then
        (upd_sub sub (weights_retryable env code msg))
        (ins_event (Some sub) (ce_stage_attempt_id c) ''weight_set_failed_retryable'' ERROR msg
           (JObj [(''weight_epoch_id'', JId (ce_epoch_id c)),
                  (''weight_transaction_id'', JId (ce_transaction_id c)),
                  (''fault_class'', JStr ''CHAIN_FAULT''), (''fault_code'', JStr code),
                  (''block_number'', JInt block)])))]"

section \<open>One round of the service\<close>

text \<open>
  The chain as the round sees it: the current block, the hotkeys by uid or the text of the exception
  the call raised, and what \<open>set_weights\<close> gives for a payload.
\<close>

record chain_view =
  ch_block :: int
  ch_hotkeys :: "string + (int \<times> string) list"
  ch_set :: "weight_payload \<Rightarrow> string + set_weights_result"

definition error_text :: "db_error \<Rightarrow> string" where
  "error_text e = (case e of UniqueViolation m \<Rightarrow> ''UniqueViolation: '' @ m
     | CheckViolation m \<Rightarrow> ''CheckViolation: '' @ m | RuntimeErr m \<Rightarrow> ''RuntimeError: '' @ m
     | ValueErr m \<Rightarrow> ''ValueError: '' @ m)"

definition submit_weights ::
  "chain_view \<Rightarrow> int \<Rightarrow> json \<Rightarrow> weight_member list \<Rightarrow> string + weight_payload \<times> set_weights_result" where
  "submit_weights ch burn base ms = (case ch_hotkeys ch of Inl m \<Rightarrow> Inl m
     | Inr hks \<Rightarrow> (let p = build_weight_payload ms hks burn base
         in case validate_weight_payload p of Inl e \<Rightarrow> Inl (error_text e)
          | Inr _ \<Rightarrow> (case ch_set ch p of Inl m \<Rightarrow> Inl m | Inr r \<Rightarrow> Inr (p, r))))"

definition record_outcome ::
  "sess \<Rightarrow> claimed_epoch \<Rightarrow> int \<Rightarrow> string + weight_payload \<times> set_weights_result \<Rightarrow> (db, unit) tx" where
  "record_outcome env c block res = (case res of
     Inl m \<Rightarrow> mark_weight_failed env c ''weight_set_exception'' m block
   | Inr (p, r) \<Rightarrow> if sw_success r then mark_success env c p r block
       else mark_weight_failed env c
         (if sw_message r = [] then ''weight_set_rate_limited'' else ''weight_set_rejected'')
         (if sw_message r = [] then ''set_weights returned false without a message''
          else sw_message r) block)"

definition run_once ::
  "(json \<Rightarrow> string) \<Rightarrow> sess \<Rightarrow> weight_settings \<Rightarrow> chain_view \<Rightarrow> db \<Rightarrow> (db_error + bool) \<times> db" where
  "run_once sha env cfg ch d =
     (case run_tx (claim_next_epoch sha env cfg (ch_block ch)) d of
       (Inl e, d1) \<Rightarrow> (Inl e, d1)
     | (Inr None, d1) \<Rightarrow> (Inr False, d1)
     | (Inr (Some c), d1) \<Rightarrow>
         (case run_tx (record_outcome env c (ch_block ch)
             (submit_weights ch (st_burn_uid cfg) (ce_policy c)
                (active_reign_members (ce_reign_id c) d1))) d1 of
           (Inl e, d2) \<Rightarrow> (Inl e, d2)
         | (Inr _, d2) \<Rightarrow> (Inr True, d2)))"

section \<open>What a payload pays\<close>

text \<open>The weight a list of pairs gives to a uid.\<close>

definition paid :: "int \<Rightarrow> (int \<times> rat) list \<Rightarrow> rat" where
  "paid u xs = (\<Sum>(v, w) \<leftarrow> xs. if v = u then w else 0)"

definition total_paid :: "(int \<times> rat) list \<Rightarrow> rat" where
  "total_paid xs = sum_list (map snd xs)"

lemma paid_add_weight [simp]: "paid u (add_weight v w xs) = paid u xs + (if u = v then w else 0)"
  by (induction v w xs rule: add_weight.induct) (auto simp: paid_def)

lemma total_add_weight [simp]: "total_paid (add_weight v w xs) = total_paid xs + w"
  by (induction v w xs rule: add_weight.induct) (auto simp: total_paid_def)

lemma bps_weight_nonneg [simp]: "0 \<le> bps_weight m"
  by (simp add: bps_weight_def)

lemma total_Nil [simp]: "total_paid [] = 0"
  by (simp add: total_paid_def)

lemma keys_add_weight: "set (map fst (add_weight v w xs)) = insert v (set (map fst xs))"
  by (induction v w xs rule: add_weight.induct) auto

lemma distinct_add_weight: "distinct (map fst xs) \<Longrightarrow> distinct (map fst (add_weight v w xs))"
  using keys_add_weight by (induction v w xs rule: add_weight.induct) auto

lemma positive_add_weight [simp]:
  "0 < w \<Longrightarrow> list_all (\<lambda>x. 0 < snd x) xs \<Longrightarrow> list_all (\<lambda>x. 0 < snd x) (add_weight v w xs)"
  by (induction v w xs rule: add_weight.induct) auto

lemma paid_Nil [simp]: "paid u [] = 0"
  by (simp add: paid_def)

lemma add_weight_Nil [simp]: "add_weight v w xs \<noteq> []"
  using keys_add_weight [of v w xs] by force

abbreviation add_member :: "weight_member \<Rightarrow> (int \<times> rat) list \<Rightarrow> (int \<times> rat) list" where
  "add_member m \<equiv> add_weight (wm_uid m) (bps_weight m)"

lemma split_weights_fold:
  "split_weights hks ms by_uid burned = (fold add_member (filter (registered hks) ms) by_uid,
     burned + sum_list (map bps_weight (filter (\<lambda>m. \<not> registered hks m) ms)))"
  by (induction hks ms by_uid burned rule: split_weights.induct) (auto simp: algebra_simps)

lemma paid_fold: "paid u (fold add_member ms xs) = paid u xs +
    sum_list (map bps_weight (filter (\<lambda>m. wm_uid m = u) ms))"
  by (induction ms arbitrary: xs) auto

lemma total_fold: "total_paid (fold add_member ms xs) = total_paid xs + sum_list (map bps_weight ms)"
  by (induction ms arbitrary: xs) (simp_all add: algebra_simps)

lemma distinct_fold: "distinct (map fst xs) \<Longrightarrow> distinct (map fst (fold add_member ms xs))"
  by (induction ms arbitrary: xs) (simp_all add: distinct_add_weight)

lemma positive_fold:
  "\<forall>m \<in> set ms. 0 < bps_weight m \<Longrightarrow> list_all (\<lambda>x. 0 < snd x) xs \<Longrightarrow>
     list_all (\<lambda>x. 0 < snd x) (fold add_member ms xs)"
  by (induction ms arbitrary: xs) simp_all

lemma sum_split: "sum_list (map f (filter P xs)) + sum_list (map f (filter (\<lambda>x. \<not> P x) xs)) =
    (sum_list (map f xs) :: rat)"
  by (induction xs) (auto simp: algebra_simps)

lemma sum_bps: "sum_list (map bps_weight ms) = of_nat (sum_list (map wm_weight_bps ms)) / 10000"
  by (induction ms) (simp_all add: bps_weight_def add_divide_distrib)

lemma sum_list_sort: "sum_list (map f (sort_key k xs)) = (sum_list (map f xs) :: 'a :: comm_monoid_add)"
  by (metis mset_map mset_sort sum_mset_sum_list)

lemma sum_list_sort_filter:
  "sum_list (map f (filter P (sort_key k xs))) = (sum_list (map f (filter P xs)) :: 'a :: comm_monoid_add)"
  by (metis mset_filter mset_map mset_sort sum_mset_sum_list)

text \<open>Where the share of a member goes: to its uid if that is still its hotkey's, to the burn uid otherwise.\<close>

definition payee :: "(int \<times> string) list \<Rightarrow> int \<Rightarrow> weight_member \<Rightarrow> int" where
  "payee hks burn m = (if registered hks m then wm_uid m else burn)"

definition payload_rows :: "weight_member list \<Rightarrow> (int \<times> string) list \<Rightarrow> int \<Rightarrow> (int \<times> rat) list" where
  "payload_rows ms hks burn =
     (let (live, burned) = split_weights hks (sort_key wm_slot ms) [] 0
      in if burned \<noteq> 0 then add_weight burn burned live else live)"

lemma payload_rows_paid:
  "paid u (payload_rows ms hks burn) = sum_list (map bps_weight (filter (\<lambda>m. payee hks burn m = u) ms))"
proof -
  define burned where "burned = sum_list (map bps_weight (filter (\<lambda>m. \<not> registered hks m) ms))"
  have "paid u (payload_rows ms hks burn) =
      sum_list (map bps_weight (filter (\<lambda>m. wm_uid m = u) (filter (registered hks) (sort_key wm_slot ms)))) +
      (if u = burn then burned else 0)"
    by (simp add: payload_rows_def split_weights_fold paid_fold sum_list_sort_filter burned_def)
  also have "\<dots> = sum_list (map bps_weight (filter (\<lambda>m. registered hks m \<and> wm_uid m = u) ms)) +
      (if u = burn then burned else 0)"
    by (simp add: sum_list_sort_filter conj_commute)
  also have "\<dots> = sum_list (map bps_weight (filter (\<lambda>m. payee hks burn m = u) ms))"
    unfolding burned_def by (induction ms) (auto simp: payee_def algebra_simps)
  finally show ?thesis .
qed

lemma payload_rows_props:
  assumes "\<forall>m \<in> set ms. 0 < bps_weight m" "ms \<noteq> []"
  shows "distinct (map fst (payload_rows ms hks burn))"
    "\<forall>x \<in> set (payload_rows ms hks burn). 0 < snd x"
    "total_paid (payload_rows ms hks burn) = sum_list (map bps_weight ms)"
    "payload_rows ms hks burn \<noteq> []"
proof -
  let ?reg = "filter (registered hks) (sort_key wm_slot ms)"
  let ?burned = "sum_list (map bps_weight (filter (\<lambda>m. \<not> registered hks m) (sort_key wm_slot ms)))"
  have "0 \<le> ?burned" using assms(1) by (intro sum_list_nonneg) (auto intro: less_imp_le)
  then have b: "?burned \<noteq> 0 \<Longrightarrow> 0 < ?burned" by simp
  have rows: "payload_rows ms hks burn = (if ?burned \<noteq> 0 then add_weight burn ?burned (fold add_member ?reg [])
      else fold add_member ?reg [])"
    by (simp add: payload_rows_def split_weights_fold)
  show "distinct (map fst (payload_rows ms hks burn))"
    unfolding rows by (auto intro!: distinct_add_weight distinct_fold)
  have "list_all (\<lambda>x. 0 < snd x) (fold add_member ?reg [])"
    by (rule positive_fold) (use assms(1) in auto)
  then have "list_all (\<lambda>x. 0 < snd x) (payload_rows ms hks burn)"
    unfolding rows using b by simp
  then show "\<forall>x \<in> set (payload_rows ms hks burn). 0 < snd x" by (simp add: list_all_iff)
  show total: "total_paid (payload_rows ms hks burn) = sum_list (map bps_weight ms)"
    unfolding rows using sum_split [of bps_weight "registered hks" "sort_key wm_slot ms"]
    by (simp add: total_fold sum_list_sort)
  have "0 < sum_list (map bps_weight ms)"
    using assms by (cases ms) (auto intro!: add_pos_nonneg sum_list_nonneg intro: less_imp_le)
  then show "payload_rows ms hks burn \<noteq> []" using total by (auto simp: total_paid_def)
qed

lemma build_weight_payload_rows:
  assumes "ms \<noteq> []" "payload_rows ms hks burn \<noteq> []"
  defines "ordered \<equiv> sort_key (\<lambda>(u, _). (u \<noteq> burn, u)) (payload_rows ms hks burn)"
  shows "wp_uids (build_weight_payload ms hks burn base) = map fst ordered"
    "wp_weights (build_weight_payload ms hks burn base) = map (fl \<circ> snd) ordered"
  using assms(1,2) unfolding ordered_def
  by (simp_all add: build_weight_payload_def payload_rows_def Let_def case_prod_unfold)

text \<open>How far the float sum of the doubles of a payload can be from the exact sum of its weights.\<close>

lemma fl_pos: "0 < x \<Longrightarrow> 0 < fl x"
  using fl_between(1) [of x] by (auto intro: less_le_trans [rotated])

lemma fl_sum_error:
  assumes "\<forall>x \<in> set xs. 0 \<le> (x :: rat)"
  shows "\<bar>sum_list (map fl xs) - sum_list xs\<bar> \<le> sum_list xs * (1 / 2 ^ 53)"
  using assms
proof (induction xs)
  case (Cons x xs)
  define e :: rat where "e = 1 / 2 ^ 53"
  have "\<bar>fl x - x\<bar> \<le> x * e" using fl_error [of x] Cons.prems by (simp add: e_def)
  moreover have "\<bar>sum_list (map fl xs) - sum_list xs\<bar> \<le> sum_list xs * e" using Cons by (simp add: e_def)
  ultimately show ?case unfolding e_def [symmetric] by (simp add: distrib_right)
qed simp

lemma foldl_fl_error:
  assumes "\<forall>x \<in> set xs. 0 \<le> x" "0 \<le> s" "s + sum_list xs + of_nat (length xs) * e \<le> 2" "e = 2 / 2 ^ 53"
  shows "\<bar>foldl (\<lambda>s x. fl (s + x)) s xs - (s + sum_list xs)\<bar> \<le> of_nat (length xs) * e"
  using assms(1-3)
proof (induction xs arbitrary: s)
  case (Cons x xs)
  have e: "0 \<le> e" using assms(4) by simp
  have nonneg: "0 \<le> s + x" "0 \<le> sum_list xs" using Cons.prems(1,2) by (simp_all add: sum_list_nonneg)
  have room: "s + (x + sum_list xs) + (e + of_nat (length xs) * e) \<le> 2"
    using Cons.prems(3) by (simp add: distrib_right)
  have slack: "0 \<le> of_nat (length xs) * e" using e by simp
  have "s + x \<le> 2" using room slack nonneg e by linarith
  then have "(s + x) / 2 ^ 53 \<le> e" unfolding assms(4) by (rule divide_right_mono) simp
  then have step: "\<bar>fl (s + x) - (s + x)\<bar> \<le> e" using fl_error [of "s + x"] nonneg(1) by linarith
  have "fl (s + x) + sum_list xs + of_nat (length xs) * e \<le> 2" using room step by linarith
  from Cons.IH [OF _ fl_nonneg [OF nonneg(1)] this] Cons.prems(1)
  have "\<bar>foldl (\<lambda>s x. fl (s + x)) (fl (s + x)) xs - (fl (s + x) + sum_list xs)\<bar> \<le> of_nat (length xs) * e" by simp
  with step show ?case by (simp add: distrib_right)
qed simp

lemma float_total_near_one:
  assumes "\<forall>x \<in> set xs. 0 \<le> x" "sum_list xs = 1" "length xs \<le> 10001"
  shows "\<bar>fsum (map fl xs) - 1\<bar> \<le> 3 / 10 ^ 12"
proof -
  define e d :: rat where "e = 2 / 2 ^ 53" and "d = 1 / 2 ^ 53"
  have near: "\<bar>sum_list (map fl xs) - 1\<bar> \<le> d" using fl_sum_error [OF assms(1)] assms(2) by (simp add: d_def)
  have few: "of_nat (length xs) * e \<le> 10001 * e"
    using assms(3) of_nat_le_iff [of "length xs" 10001, where 'a = rat] by (intro mult_right_mono) (simp_all add: e_def)
  have bits: "10001 * e + d \<le> 3 / 10 ^ 12" "3 / 10 ^ 12 \<le> (1 :: rat)" by (simp_all add: e_def d_def)
  have "0 + sum_list (map fl xs) + of_nat (length (map fl xs)) * e \<le> 2"
    using near few bits unfolding length_map abs_le_iff by linarith
  then have "\<bar>foldl (\<lambda>s x. fl (s + x)) 0 (map fl xs) - (0 + sum_list (map fl xs))\<bar> \<le> of_nat (length (map fl xs)) * e"
    by (rule foldl_fl_error [rotated 2]) (use assms(1) fl_nonneg in \<open>auto simp: e_def\<close>)
  then show ?thesis unfolding fsum_def length_map abs_le_iff using near few bits unfolding abs_le_iff by linarith
qed

lemma validates_near_one:
  assumes "\<bar>t - 1\<bar> \<le> 3 / 10 ^ 12"
  shows "\<not> \<bar>fsub t 1\<bar> > fl (1 / 1000000000)"
proof -
  have "\<bar>fsub t 1\<bar> = fl \<bar>t - 1\<bar>" unfolding fsub_def using fl_nonneg [of "t - 1"] fl_nonneg [of "1 - t"] fl_minus [of "t - 1"]
    by (cases "0 \<le> t - 1") (simp_all add: abs_if)
  also have "\<dots> \<le> fl (1 / 1000000000)" using assms by (intro fl_mono) simp
  finally show ?thesis by simp
qed

lemma few_rows:
  assumes "\<forall>m \<in> set ms. 0 < wm_weight_bps m"
  shows "length (payload_rows ms hks burn) \<le> sum_list (map wm_weight_bps ms) + 1"
proof -
  have add: "length (add_weight u w xs) \<le> Suc (length xs)" for u w xs
    by (induction u w xs rule: add_weight.induct) auto
  have fold: "length (fold add_member ns xs) \<le> length xs + length ns" for ns xs
  proof (induction ns arbitrary: xs)
    case (Cons m ns)
    then show ?case using order_trans [OF Cons.IH [of "add_member m xs"]] add [of "wm_uid m" "bps_weight m" xs] by simp
  qed simp
  have "length ms \<le> sum_list (map wm_weight_bps ms)" using assms by (induction ms) auto
  moreover have "length (filter (registered hks) (sort_key wm_slot ms)) \<le> length ms"
    using length_filter_le [of "registered hks" "sort_key wm_slot ms"] by simp
  moreover have "length (payload_rows ms hks burn)
      \<le> Suc (length (fold add_member (filter (registered hks) (sort_key wm_slot ms)) []))"
    using add by (simp add: payload_rows_def split_weights_fold Let_def)
  ultimately show ?thesis using fold [of "filter (registered hks) (sort_key wm_slot ms)" "[]"] by simp
qed

lemma paid_rounded: "distinct (map fst xs) \<Longrightarrow> paid u (map (\<lambda>(v, w). (v, fl w)) xs) = fl (paid u xs)"
proof (induction xs)
  case (Cons x xs)
  obtain v w where x: "x = (v, w)" by fastforce
  have "paid v xs = 0" if "v \<notin> set (map fst xs)" for xs :: "(int \<times> rat) list"
    using that by (induction xs) (auto simp: paid_def)
  then show ?case using Cons by (auto simp: x paid_def)
qed (simp add: paid_def)

text \<open>
  C15. The weights of a reign whose shares are positive and add up to 10000 basis points pass the
  validation: their float sum is within 3e-12 of 1. No uid occurs twice, and each uid is paid the
  double nearest to exactly the shares of the members it still belongs to, the burn uid to those of
  all members whose hotkey lost its uid. Without members everything is burned.
\<close>

theorem weight_payload_pays_members:
  assumes "\<forall>m \<in> set ms. 0 < wm_weight_bps m" and "ms \<noteq> [] \<longrightarrow> sum_list (map wm_weight_bps ms) = 10000"
  shows "let p = build_weight_payload ms hks burn base
    in validate_weight_payload p = Inr () \<and> \<bar>fsum (wp_weights p) - 1\<bar> \<le> 3 / 10 ^ 12 \<and> distinct (wp_uids p) \<and>
      (\<forall>u. paid u (zip (wp_uids p) (wp_weights p)) = (if ms = [] then (if u = burn then 1 else 0)
         else fl (sum_list (map bps_weight (filter (\<lambda>m. payee hks burn m = u) ms)))))"
proof (cases "ms = []")
  case True
  then show ?thesis
    using fl_nonneg [of "1 / 1000000000"] by (simp add: build_weight_payload_def validate_weight_payload_def paid_def fsum_def fsub_def)
next
  case False
  have pos: "\<forall>m \<in> set ms. 0 < bps_weight m" using assms(1) by (simp add: bps_weight_def)
  note rows = payload_rows_props [OF pos False, of hks burn]
  define ordered where "ordered = sort_key (\<lambda>(u, _). (u \<noteq> burn, u)) (payload_rows ms hks burn)"
  note p = build_weight_payload_rows [OF False rows(4), of base, folded ordered_def]
  have mem: "set ordered = set (payload_rows ms hks burn)" by (simp add: ordered_def)
  have total: "sum_list (map snd ordered) = 1"
    using rows(3) assms(2) False by (simp add: ordered_def sum_list_sort total_paid_def sum_bps)
  have "length ordered \<le> 10001" using few_rows [OF assms(1), of hks burn] assms(2) False by (simp add: ordered_def)
  moreover have "\<forall>x \<in> set (map snd ordered). 0 \<le> x" using rows(2) mem by (auto intro: less_imp_le)
  ultimately have near: "\<bar>fsum (map (fl \<circ> snd) ordered) - 1\<bar> \<le> 3 / 10 ^ 12"
    using float_total_near_one [of "map snd ordered"] total by simp
  have dist: "distinct (map fst ordered)"
    using rows(1) by (simp add: distinct_map ordered_def)
  have "paid u ordered = paid u (payload_rows ms hks burn)" for u
    unfolding paid_def ordered_def by (rule sum_list_sort)
  moreover have "zip (map fst ordered) (map (fl \<circ> snd) ordered) = map (\<lambda>(v, w). (v, fl w)) ordered"
    by (induction ordered) auto
  moreover have "validate_weight_payload (build_weight_payload ms hks burn base) = Inr ()"
    using rows(2,4) mem validates_near_one [OF near] fl_pos
    by (fastforce simp: validate_weight_payload_def p list_ex_iff not_le [symmetric])
  ultimately show ?thesis
    using False near dist by (simp add: Let_def p paid_rounded payload_rows_paid)
qed

section \<open>Claiming and finishing an epoch\<close>

text \<open>An attempt at the weights is no \<open>busy\<close> attempt: the ledger only asks for its keys.\<close>

lemma ledger_weight_attempt:
  assumes "ledger d" "attempts d' = attempts d @ [a]" "sa_stage a = WEIGHT_SET" "sa_id a = next_id d"
    "next_id d < next_id d'" "attempts_ok (attempts d')"
    and "submissions d' = update_where p g (submissions d)" "keeps_id g" "keeps_keys g"
    and "\<And>r st. p r \<Longrightarrow> running_state st \<noteq> Some (ms_state r)"
  shows "ledger d'"
proof (rule ledgerI)
  show "keys_below (next_id d') (map sa_id (attempts d'))"
    using assms(2,4,5) ledgerD(1) [OF assms(1)] by (simp add: keys_below_snoc)
  show "keys_below (next_id d') (map ms_id (submissions d'))"
    using assms(5,7,8) ledgerD(2) [OF assms(1)] by (auto intro: keys_below_mono)
  show "subs_ok (submissions d')"
    unfolding assms(7) by (rule ledger_subs_keys [OF assms(1,9)])
  show "ledger_ok (attempts d') (submissions d')"
    unfolding ledger_ok_def
  proof (intro ballI impI)
    fix b assume b: "b \<in> set (attempts d')" "busy b"
    then have "b \<in> set (attempts d)" using assms(2,3) by (auto simp: busy_def)
    then obtain r where r: "r \<in> set (submissions d)" "ms_id r = sa_submission_id b"
        "Some (ms_state r) = running_state (sa_stage b)"
      using ledgerD(5) [OF assms(1)] b(2) by (auto simp: ledger_ok_def)
    then have "\<not> p r" using assms(10) by metis
    then have "r \<in> set (submissions d')" using r(1) unfolding assms(7) by (force simp: in_update_where)
    then show "\<exists>r \<in> set (submissions d'). ms_id r = sa_submission_id b \<and>
        Some (ms_state r) = running_state (sa_stage b)"
      using r by blast
  qed
qed (rule assms(6))

lemma epochs_ok_update:
  assumes "epochs_ok es" "\<And>x. we_netuid (f x) = we_netuid x" "\<And>x. we_hash (f x) = we_hash x"
    "\<And>x. x \<in> set es \<Longrightarrow> length (we_uids (f x)) = length (we_weights (f x))"
  shows "epochs_ok (update_where p f es)"
  using assms unfolding epochs_ok_def
  by (auto intro!: unique_by_update simp: list_all_iff in_update_where)

lemma epochs_ok_superseded: "epochs_ok es \<Longrightarrow> epochs_ok (superseded_epochs env e es)"
  unfolding superseded_epochs_def by (rule epochs_ok_update) (auto simp: epochs_ok_def list_all_iff)

lemma epochs_ok_running: "epochs_ok es \<Longrightarrow> epochs_ok (running_epoch env e es)"
  unfolding running_epoch_def by (rule epochs_ok_update) (auto simp: epochs_ok_def list_all_iff)

text \<open>No attempt at the weights is open for the submission an epoch was triggered by.\<close>

definition no_open_weights :: "nat option \<Rightarrow> db \<Rightarrow> bool" where
  "no_open_weights t d \<longleftrightarrow> list_all (\<lambda>a. sa_stage a = WEIGHT_SET \<and> t = Some (sa_submission_id a) \<longrightarrow>
     \<not> open_attempt (sa_state a)) (attempts d)"

definition weights_pending :: "submission \<Rightarrow> bool" where
  "weights_pending s \<longleftrightarrow> ms_state s = REIGN_SET \<or> ms_state s = WEIGHT_SET_RETRYABLE"

lemma start_weight_attempt_effect:
  assumes "ledger d" "no_open_weights t d"
  obtains att d1 where "start_weight_attempt env w e t d = Inr (att, d1)" "ledger d1"
    "att = map_option (\<lambda>_. next_id d) t" "weight_epochs d1 = weight_epochs d" "weight_txs d1 = weight_txs d"
    "reigns d1 = reigns d" "reign_members d1 = reign_members d" "next_id d \<le> next_id d1"
    "submissions d1 = update_where (\<lambda>s. t = Some (ms_id s) \<and> weights_pending s) (\<lambda>s. (clear_fault s)
       \<lparr>ms_state := WEIGHT_SET_RUNNING, ms_updated_at := se_now env\<rparr>) (submissions d)"
    "\<forall>a \<in> set (attempts d1). a \<in> set (attempts d) \<or> (Some (sa_id a) = att \<and> sa_stage a = WEIGHT_SET)"
proof (cases t)
  case None
  have "update_where (\<lambda>s. t = Some (ms_id s) \<and> weights_pending s) g (submissions d) = submissions d" for g
    using None by (simp add: update_where_id)
  then show thesis
    using that [of None d] assms None by (simp add: start_weight_attempt_def tx_return_def)
next
  case (Some sub)
  define a where "a = new_attempt (next_id d) sub WEIGHT_SET (next_attempt_number sub WEIGHT_SET d) w None
    (se_now env) (JObj [(''weight_epoch_id'', JId (we_id e)), (''weight_hash'', JStr (we_hash e))])"
  define g where "g = (\<lambda>s. (clear_fault s)\<lparr>ms_state := WEIGHT_SET_RUNNING, ms_updated_at := se_now env\<rparr>)"
  have g: "keeps_id g" "keeps_keys g" by (simp_all add: g_def keeps_id_def keeps_keys_def)
  have ok: "attempts_ok (attempts d @ [a])"
    by (rule attempts_ok_snoc [OF ledgerD(3) [OF assms(1)]])
      (use assms(2) Some in \<open>auto simp: a_def next_attempt_number_def no_open_weights_def list_all_iff\<close>)
  have subs: "subs_ok (update_where p g (submissions d))" for p
    by (rule ledger_subs_keys [OF assms(1) g(2)])
  define d1 where "d1 = d\<lparr>next_id := Suc (next_id d), attempts := attempts d @ [a],
    submissions := update_where (\<lambda>s. t = Some (ms_id s) \<and> weights_pending s) g (submissions d)\<rparr>"
  have p: "(\<lambda>s. t = Some (ms_id s) \<and> weights_pending s) =
      (\<lambda>s. ms_id s = sub \<and> (ms_state s = REIGN_SET \<or> ms_state s = WEIGHT_SET_RETRYABLE))"
    using Some by (auto simp: weights_pending_def)
  have run: "start_weight_attempt env w e t d = Inr (Some (next_id d), d1)"
    using ok subs [of "\<lambda>s. ms_id s = sub \<and> (ms_state s = REIGN_SET \<or> ms_state s = WEIGHT_SET_RETRYABLE)"] Some
    unfolding d1_def p by (simp add: start_weight_attempt_def tx ins_attempt_def a_def g_def)
  have "ledger d1"
    by (rule ledger_weight_attempt [OF assms(1), where a = a and g = g and
          p = "\<lambda>s. t = Some (ms_id s) \<and> weights_pending s"])
      (use ok g in \<open>auto simp: d1_def a_def weights_pending_def elim: running_state.elims\<close>)
  then show thesis
    using that [OF run] Some by (auto simp: d1_def g_def a_def)
qed

lemma start_epoch_effect:
  assumes "epochs_ok (weight_epochs d)"
  obtains c d1 where "start_epoch env w wallet url block e t att d = Inr (c, d1)" "ce_epoch_id c = we_id e"
    "ce_transaction_id c = next_id d" "ce_trigger c = t" "ce_stage_attempt_id c = att" "ce_netuid c = we_netuid e"
    "ce_reign_id c = we_reign_id e" "ce_policy c = we_policy e" "attempts d1 = attempts d" "submissions d1 = submissions d"
    "weight_epochs d1 = running_epoch env e (weight_epochs d)" "next_id d1 = Suc (next_id d)"
    "reigns d1 = reigns d" "reign_members d1 = reign_members d"
    "\<exists>x. wt_id x = next_id d \<and> wt_epoch_id x = we_id e \<and> weight_txs d1 = weight_txs d @ [x]"
proof -
  have ok: "epochs_ok (running_epoch env e (weight_epochs d))" by (rule epochs_ok_running [OF assms])
  have "\<exists>c d1. start_epoch env w wallet url block e t att d = Inr (c, d1) \<and> ce_epoch_id c = we_id e \<and>
    ce_transaction_id c = next_id d \<and> ce_trigger c = t \<and> ce_stage_attempt_id c = att \<and> ce_netuid c = we_netuid e \<and>
    ce_reign_id c = we_reign_id e \<and> ce_policy c = we_policy e \<and> attempts d1 = attempts d \<and> submissions d1 = submissions d \<and>
    weight_epochs d1 = running_epoch env e (weight_epochs d) \<and> next_id d1 = Suc (next_id d) \<and>
    reigns d1 = reigns d \<and> reign_members d1 = reign_members d \<and>
    (\<exists>x. wt_id x = next_id d \<and> wt_epoch_id x = we_id e \<and> weight_txs d1 = weight_txs d @ [x])"
    using ok by (cases t) (simp_all add: start_epoch_def tx)
  then show thesis using that by metis
qed

lemma claim_pending_effect:
  assumes "ledger d" "epochs_ok (weight_epochs d)" "se_lock env"
    and "\<not> rate_limited (st_netuid cfg) block (st_rate_blocks cfg) d"
    and "next_epoch env (st_netuid cfg) d = Some e" "no_open_weights (trigger_of e d) d"
  obtains c d1 where "claim_next_epoch sha env cfg block d = Inr (Some c, d1)" "ledger d1"
    "ce_epoch_id c = we_id e" "ce_trigger c = trigger_of e d" "ce_netuid c = we_netuid e"
    "weight_epochs d1 = running_epoch env e (superseded_epochs env e (weight_epochs d))"
    "submissions d1 = update_where (\<lambda>s. trigger_of e d = Some (ms_id s) \<and> weights_pending s)
       (\<lambda>s. (clear_fault s)\<lparr>ms_state := WEIGHT_SET_RUNNING, ms_updated_at := se_now env\<rparr>) (submissions d)"
    "epochs_ok (weight_epochs d1)" "ce_stage_attempt_id c = map_option (\<lambda>_. next_id d) (trigger_of e d)"
proof -
  define d0 where "d0 = d\<lparr>weight_epochs := superseded_epochs env e (weight_epochs d)\<rparr>"
  have sup: "stmt_epochs (superseded_epochs env e) d = Inr ((), d0)"
    using epochs_ok_superseded [OF assms(2)] by (simp add: tx d0_def)
  have l0: "ledger d0" using assms(1) by (rule ledger_frame) (simp_all add: d0_def)
  have tr: "trigger_of e d0 = trigger_of e d" by (simp add: trigger_of_def d0_def)
  have n0: "no_open_weights (trigger_of e d) d0" using assms(6) by (simp add: no_open_weights_def d0_def)
  obtain att d1 where d1: "start_weight_attempt env (st_worker_id cfg) e (trigger_of e d) d0 = Inr (att, d1)"
    "ledger d1" "att = map_option (\<lambda>_. next_id d0) (trigger_of e d)" "weight_epochs d1 = weight_epochs d0"
    "submissions d1 = update_where (\<lambda>s. trigger_of e d = Some (ms_id s) \<and> weights_pending s) (\<lambda>s. (clear_fault s)
       \<lparr>ms_state := WEIGHT_SET_RUNNING, ms_updated_at := se_now env\<rparr>) (submissions d0)"
    by (rule start_weight_attempt_effect [OF l0 n0])
  have ep: "epochs_ok (weight_epochs d1)" using epochs_ok_superseded [OF assms(2)] by (simp add: d1(4) d0_def)
  obtain c d2 where d2: "start_epoch env (st_worker_id cfg) (st_wallet_hotkey cfg) (st_network cfg) block e
      (trigger_of e d) att d1 = Inr (c, d2)" "ce_epoch_id c = we_id e" "ce_trigger c = trigger_of e d"
    "ce_stage_attempt_id c = att" "ce_netuid c = we_netuid e"
    "attempts d2 = attempts d1" "submissions d2 = submissions d1"
    "weight_epochs d2 = running_epoch env e (weight_epochs d1)" "next_id d2 = Suc (next_id d1)"
    by (rule start_epoch_effect [OF ep])
  have run: "claim_next_epoch sha env cfg block d = Inr (Some c, d2)"
    using assms(3-5) sup tr d1(1) d2(1)
    by (simp add: claim_next_epoch_def select_epoch_def tx_bind_def tx_gets_def tx_then_def tx_return_def)
  show thesis
    by (rule that [OF run ledger_frame [OF d1(2)]]) (use d1 d2 ep in \<open>simp_all add: d0_def epochs_ok_running\<close>)
qed

lemma upd_flip:
  "upd_sub i f = stmt_subs (update_where (\<lambda>r. i = ms_id r) f)"
  "upd_attempt i h = stmt_attempts (update_where (\<lambda>r. i = sa_id r) h)"
  by (simp_all add: upd_sub_def upd_attempt_def eq_commute)

text \<open>The rows after the outcome of a round is recorded.\<close>

definition outcome_rows ::
  "claimed_epoch \<Rightarrow> (weight_tx \<Rightarrow> weight_tx) \<Rightarrow> (weight_epoch \<Rightarrow> weight_epoch) \<Rightarrow> (attempt \<Rightarrow> attempt) \<Rightarrow>
     (submission \<Rightarrow> submission) \<Rightarrow> db \<Rightarrow> db \<Rightarrow> bool" where
  "outcome_rows c ft fe fa fs d d' \<longleftrightarrow> next_id d' = next_id d \<and>
     weight_txs d' = update_where (\<lambda>t. wt_id t = ce_transaction_id c) ft (weight_txs d) \<and>
     weight_epochs d' = update_where (\<lambda>x. we_id x = ce_epoch_id c) fe (weight_epochs d) \<and>
     attempts d' = update_where (\<lambda>a. ce_stage_attempt_id c = Some (sa_id a)) fa (attempts d) \<and>
     submissions d' = update_where (\<lambda>s. ce_trigger c = Some (ms_id s)) fs (submissions d) \<and>
     reigns d' = reigns d \<and> king_versions d' = king_versions d \<and> reign_members d' = reign_members d \<and>
     eval_runs d' = eval_runs d"

lemma mark_success_effect:
  assumes "ledger d" "epochs_ok (weight_epochs d)" "length (wp_uids p) = length (wp_weights p)"
  shows "\<exists>d'. mark_success env c p r block d = Inr ((), d') \<and> outcome_rows c (succeeded_tx env r block)
    (succeeded_epoch env p) (succeeded_attempt env (success_json c p r block)) (coronated env) d d'"
proof -
  have e: "epochs_ok (update_where (\<lambda>x. we_id x = ce_epoch_id c) (succeeded_epoch env p) (weight_epochs d))"
    using assms(2) by (rule epochs_ok_update) (simp_all add: succeeded_epoch_def assms(3))
  have a: "attempts_ok (update_where q (succeeded_attempt env j) (attempts d))" for q j
    using ledgerD(3) [OF assms(1)] by (rule attempts_ok_update) (simp add: succeeded_attempt_def closes_def open_attempt_def)
  have s: "subs_ok (update_where q (coronated env) (submissions d))" for q
    by (rule ledger_subs_keys [OF assms(1)]) (simp add: keeps_keys_def coronated_def)
  show ?thesis
    using e a s by (cases "ce_trigger c"; cases "ce_stage_attempt_id c")
      (simp_all add: mark_success_def tx upd_flip outcome_rows_def)
qed

lemma mark_weight_failed_effect:
  assumes "ledger d" "epochs_ok (weight_epochs d)"
  shows "\<exists>d'. mark_weight_failed env c code msg block d = Inr ((), d') \<and> outcome_rows c (failed_tx env code msg block)
    (failed_epoch env code) (failed_weight_attempt env code msg) (weights_retryable env code msg) d d'"
proof -
  have e: "epochs_ok (update_where (\<lambda>x. we_id x = ce_epoch_id c) (failed_epoch env code) (weight_epochs d))"
    using assms(2) by (rule epochs_ok_update)
      (use assms(2) in \<open>simp_all add: failed_epoch_def epochs_ok_def list_all_iff\<close>)
  have a: "attempts_ok (update_where q (failed_weight_attempt env code msg) (attempts d))" for q
    using ledgerD(3) [OF assms(1)] by (rule attempts_ok_update) (simp add: failed_weight_attempt_def closes_def open_attempt_def)
  have s: "subs_ok (update_where q (weights_retryable env code msg) (submissions d))" for q
    by (rule ledger_subs_keys [OF assms(1)]) (simp add: keeps_keys_def weights_retryable_def)
  show ?thesis
    using e a s by (cases "ce_trigger c"; cases "ce_stage_attempt_id c")
      (simp_all add: mark_weight_failed_def tx upd_flip outcome_rows_def)
qed

text \<open>
  A round takes the newest pending epoch of its subnet, and no older one is left pending or
  retryable: weights that a newer reign replaced are never submitted later.
\<close>

theorem claim_takes_newest_epoch:
  assumes "ledger d" and "epochs_ok (weight_epochs d)" and "se_lock env"
    and "\<not> rate_limited (st_netuid cfg) block (st_rate_blocks cfg) d"
    and "next_epoch env (st_netuid cfg) d = Some e" and "no_open_weights (trigger_of e d) d"
  shows "\<exists>c d'. claim_next_epoch sha env cfg block d = Inr (Some c, d') \<and> ledger d' \<and>
    ce_epoch_id c = we_id e \<and>
    (\<forall>x \<in> set (weight_epochs d). pending_epoch env (st_netuid cfg) x \<and> se_free env (we_id x) \<longrightarrow>
       we_created_at x \<le> we_created_at e) \<and>
    (\<forall>x \<in> set (weight_epochs d'). we_netuid x = st_netuid cfg \<and> we_created_at x \<le> we_created_at e \<longrightarrow>
       we_state x \<noteq> WE_PENDING \<and> we_state x \<noteq> WE_FAILED_RETRYABLE)"
proof -
  have e: "we_netuid e = st_netuid cfg"
    using assms(5) by (auto simp: next_epoch_def pending_epoch_def dest!: limit1_Some)
  have newest: "we_created_at x \<le> we_created_at e"
    if "x \<in> set (weight_epochs d)" "pending_epoch env (st_netuid cfg) x" "se_free env (we_id x)" for x
    using limit1_sort_key_least [OF assms(5) [unfolded next_epoch_def], of x] that by auto
  obtain c d1 where c: "claim_next_epoch sha env cfg block d = Inr (Some c, d1)" "ledger d1" "ce_epoch_id c = we_id e"
    "weight_epochs d1 = running_epoch env e (superseded_epochs env e (weight_epochs d))"
    by (rule claim_pending_effect [OF assms, of sha])
  have "we_state x \<noteq> WE_PENDING \<and> we_state x \<noteq> WE_FAILED_RETRYABLE"
    if x: "x \<in> set (weight_epochs d1)" "we_netuid x = st_netuid cfg" "we_created_at x \<le> we_created_at e" for x
  proof -
    have quiet: "we_state y \<noteq> WE_PENDING \<and> we_state y \<noteq> WE_FAILED_RETRYABLE"
      if "y \<in> set (superseded_epochs env e (weight_epochs d))" "we_netuid y = st_netuid cfg"
        "we_created_at y \<le> we_created_at e" "we_id y \<noteq> we_id e" for y
      using that(1) unfolding superseded_epochs_def
      by (cases rule: update_whereE) (use that(2-4) e in auto)
    show ?thesis
      using x(1) unfolding c(4) running_epoch_def
      by (cases rule: update_whereE) (use x(2,3) quiet in auto)
  qed
  then show ?thesis using c(1-3) newest by blast
qed

lemma in_markers:
  assumes "t \<in> set (weight_txs d)" "wt_state t = WT_SUCCESS" "wt_block_number t = Some b"
    and "\<exists>e \<in> set (weight_epochs d). we_id e = wt_epoch_id t \<and> we_netuid e = n"
  shows "\<exists>m. recent_marker n d = Some m \<and> b \<le> m"
proof -
  define bs where "bs = List.map_filter (\<lambda>t.
     if (wt_state t = WT_SUCCESS \<or> wt_fault_code t = Some ''weight_set_rate_limited'') \<and>
        list_ex (\<lambda>e. we_id e = wt_epoch_id t \<and> we_netuid e = n) (weight_epochs d)
     then wt_block_number t else None) (weight_txs d)"
  have b: "b \<in> set bs"
    using assms by (force simp: bs_def in_map_filter list_ex_iff)
  then obtain m ms where ms: "rev (sort bs) = m # ms" by (cases "rev (sort bs)") (auto simp flip: set_empty)
  then have srt: "sort bs = rev ms @ [m]" by (metis rev.simps(2) rev_rev_ident)
  have "b \<le> m"
  proof -
    have "sorted (rev ms @ [m])" by (metis srt sorted_sort)
    moreover have "b \<in> set (rev ms @ [m])" using b unfolding srt [symmetric] by simp
    ultimately show ?thesis by (auto simp: sorted_append)
  qed
  then show ?thesis using ms by (simp add: recent_marker_def bs_def [symmetric])
qed

text \<open>
  After weights were set at a block, no epoch of the subnet is claimed before the rate limit's
  number of blocks has passed.
\<close>

theorem success_starts_rate_limit:
  assumes "mark_success env c p r block d = Inr ((), d')"
    and "t \<in> set (weight_txs d)" and "wt_id t = ce_transaction_id c"
    and "e \<in> set (weight_epochs d)" and "we_id e = wt_epoch_id t" and "we_netuid e = st_netuid cfg"
    and "b < block + st_rate_blocks cfg"
  shows "claim_next_epoch sha env' cfg b d' = Inr (None, d')"
proof -
  have rows: "weight_txs d' = update_where (\<lambda>t. wt_id t = ce_transaction_id c) (succeeded_tx env r block) (weight_txs d)"
    "weight_epochs d' = update_where (\<lambda>x. we_id x = ce_epoch_id c) (succeeded_epoch env p) (weight_epochs d)"
    using assms(1) by (auto simp: mark_success_def tx upd_flip split: option.splits)
  have "succeeded_tx env r block t \<in> set (weight_txs d')"
    using assms(2,3) unfolding rows by (force simp: in_update_where)
  moreover have "\<exists>x \<in> set (weight_epochs d'). we_id x = wt_epoch_id (succeeded_tx env r block t) \<and>
      we_netuid x = st_netuid cfg"
    unfolding rows
    by (rule bexI [OF _ update_where_hit [OF assms(4)]]) (simp add: assms(5,6) succeeded_epoch_def succeeded_tx_def)
  ultimately obtain m where "recent_marker (st_netuid cfg) d' = Some m" "block \<le> m"
    using in_markers [of "succeeded_tx env r block t" d' block "st_netuid cfg"]
    by (auto simp: succeeded_tx_def)
  then have "rate_limited (st_netuid cfg) b (st_rate_blocks cfg) d'"
    using assms(7) by (simp add: rate_limited_def)
  then show ?thesis by (simp add: claim_next_epoch_def tx_bind_def tx_gets_def tx_return_def)
qed

section \<open>Two ways a refresh goes wrong\<close>

lemma refresh_returns_known:
  assumes "find (\<lambda>x. we_netuid x = n \<and> we_hash x =
      periodic_refresh_weight_hash sha n (map_option rg_id (active_reign d)) block rate) (weight_epochs d) = Some e"
  shows "create_periodic_refresh_epoch sha env n block rate burn d
    = Inr (Some e, d\<lparr>next_id := Suc (next_id d)\<rparr>)"
proof -
  have "list_ex (\<lambda>x. we_netuid x = n \<and> we_hash x =
      periodic_refresh_weight_hash sha n (map_option rg_id (active_reign d)) block rate) (weight_epochs d)"
    using find_SomeD [OF assms] by (auto simp: list_ex_iff)
  then show ?thesis
    using assms
    by (simp add: create_periodic_refresh_epoch_def ins_epoch_def tx_bind_def tx_gets_def tx_fresh_def
        tx_return_def Let_def)
qed

text \<open>
  The pause of a failed epoch does not hold for a refresh: while the claim's query still skips
  the FAILED_RETRYABLE row because it failed less than a minute ago, the refresh of the same window
  finds the row by its hash and claims it at once, whatever its state.
\<close>

theorem refresh_retry_skips_pause:
  assumes "epochs_ok (weight_epochs d)" and "se_lock env"
    and "\<not> rate_limited (st_netuid cfg) block (st_rate_blocks cfg) d"
    and "next_epoch env (st_netuid cfg) d = None"
    and "find (\<lambda>x. we_netuid x = st_netuid cfg \<and> we_hash x = periodic_refresh_weight_hash sha
        (st_netuid cfg) (map_option rg_id (active_reign d)) block (st_rate_blocks cfg)) (weight_epochs d) = Some e"
    and "we_state e = WE_FAILED_RETRYABLE" and "se_now env < we_updated_at e + 60"
  shows "\<not> pending_epoch env (st_netuid cfg) e \<and>
    (\<exists>c d'. claim_next_epoch sha env cfg block d = Inr (Some c, d') \<and> ce_epoch_id c = we_id e \<and>
       weight_epochs d' = running_epoch env e (weight_epochs d))"
proof -
  define d1 where "d1 = d\<lparr>next_id := Suc (next_id d)\<rparr>"
  have "select_epoch sha env (st_netuid cfg) block (st_rate_blocks cfg) (st_burn_uid cfg) d = Inr (Some (e, None), d1)"
    using assms(4) refresh_returns_known [OF assms(5)]
    by (simp add: select_epoch_def tx_bind_def tx_gets_def tx_return_def d1_def)
  moreover have "epochs_ok (weight_epochs d1)" using assms(1) by (simp add: d1_def)
  moreover obtain c d2 where "start_epoch env (st_worker_id cfg) (st_wallet_hotkey cfg) (st_network cfg) block e
      None None d1 = Inr (c, d2)" "ce_epoch_id c = we_id e"
    "weight_epochs d2 = running_epoch env e (weight_epochs d1)"
    by (rule start_epoch_effect [OF calculation(2)])
  ultimately have "claim_next_epoch sha env cfg block d = Inr (Some c, d2) \<and> ce_epoch_id c = we_id e \<and>
      weight_epochs d2 = running_epoch env e (weight_epochs d)"
    using assms(2,3)
    by (simp add: claim_next_epoch_def start_weight_attempt_def tx_bind_def tx_gets_def tx_return_def d1_def)
  moreover have "\<not> pending_epoch env (st_netuid cfg) e"
    using assms(6,7) by (simp add: pending_epoch_def)
  ultimately show ?thesis by blast
qed

text \<open>
  C16. A refresh epoch that is retried later is claimed with the coronation's submission, because the
  query joins the reign's trigger whatever the epoch's reason: when that retry fails too, the
  submission leaves COMPLETE_CORONATED for WEIGHT_SET_RETRYABLE, and its hotkey no longer counts as
  one with a validated model.
\<close>

theorem refresh_retry_reopens_coronation:
  assumes "ledger d" and "epochs_ok (weight_epochs d)" and "se_lock env"
    and "\<not> rate_limited (st_netuid cfg) (ch_block ch) (st_rate_blocks cfg) d"
    and "next_epoch env (st_netuid cfg) d = Some e" and "we_reason e = PERIODIC_REFRESH"
    and "trigger_of e d = Some (ms_id r)" and "no_open_weights (Some (ms_id r)) d"
    and "r \<in> set (submissions d)" and "ms_state r = COMPLETE_CORONATED" and "ch_hotkeys ch = Inl msg"
  shows "\<exists>d'. run_once sha env cfg ch d = (Inr True, d') \<and>
    (\<forall>q \<in> set (submissions d'). ms_id q = ms_id r \<longrightarrow>
       ms_state q = WEIGHT_SET_RETRYABLE \<and> ms_state q \<notin> set validated_or_beyond)"
proof -
  have open': "no_open_weights (trigger_of e d) d" using assms(7,8) by simp
  obtain c d1 where c: "claim_next_epoch sha env cfg (ch_block ch) d = Inr (Some c, d1)" "ledger d1"
    "ce_trigger c = trigger_of e d" "epochs_ok (weight_epochs d1)"
    by (rule claim_pending_effect [OF assms(1-5) open'])
  obtain d2 where d2: "mark_weight_failed env c ''weight_set_exception'' msg (ch_block ch) d1 = Inr ((), d2)"
    "submissions d2 = update_where (\<lambda>s. ce_trigger c = Some (ms_id s))
       (weights_retryable env ''weight_set_exception'' msg) (submissions d1)"
    using mark_weight_failed_effect [OF c(2,4)] unfolding outcome_rows_def by blast
  have "run_once sha env cfg ch d = (Inr True, d2)"
    using c(1) d2(1) assms(11) by (simp add: run_once_def run_tx_def submit_weights_def record_outcome_def)
  moreover have "ms_state q = WEIGHT_SET_RETRYABLE" if "q \<in> set (submissions d2)" "ms_id q = ms_id r" for q
    using that(1) unfolding d2(2)
    by (cases rule: update_whereE) (use that(2) c(3) assms(7) in \<open>auto simp: weights_retryable_def\<close>)
  ultimately show ?thesis by (auto simp: validated_or_beyond_def)
qed

end
