(* ===== verification/ChainIntake.thy ===== *)
theory ChainIntake
  imports Validation
begin

text \<open>
  From chain commits to submissions: src/src/chain_reader/db.py, and the one-shot-hotkey ledger of
  src/src/chain_guard (db.py, swap.py). The upload of a detection document is an argument that
  returns its URI, or None.
\<close>

section \<open>Hotkey swaps\<close>

record swap_event =
  sw_uid :: int
  sw_old_hotkey :: string
  sw_new_hotkey :: string
  sw_registration_block :: int

definition swap_detail :: "swap_event \<Rightarrow> json" where
  "swap_detail s = JObj [(''uid'', JInt (sw_uid s)), (''old_hotkey'', JStr (sw_old_hotkey s)),
     (''new_hotkey'', JStr (sw_new_hotkey s)),
     (''registration_block'', JInt (sw_registration_block s))]"

definition swap_of ::
  "(int \<times> string \<times> int option) list \<Rightarrow> int \<times> string \<times> int \<Rightarrow> swap_event option" where
  "swap_of prior = (\<lambda>(uid, hotkey, reg_block). case map_of prior uid of None \<Rightarrow> None
     | Some (prev_hotkey, prev_block) \<Rightarrow>
         if prev_hotkey = hotkey \<or> prev_block = None then None
         else if Some reg_block = prev_block
         then Some \<lparr>sw_uid = uid, sw_old_hotkey = prev_hotkey, sw_new_hotkey = hotkey,
                sw_registration_block = reg_block\<rparr>
         else None)"

definition find_swaps ::
  "(int \<times> string \<times> int option) list \<Rightarrow> (int \<times> string \<times> int) list \<Rightarrow> swap_event list" where
  "find_swaps prior current = List.map_filter (swap_of prior) current"

definition describe_swap :: "json \<Rightarrow> string" where
  "describe_swap v = ''hotkey swap detected: uid '' @ py_str (jget ''uid'' v) @
     '' BEFORE hotkey='' @ py_str (jget ''old_hotkey'' v) @ '' BlockAtRegistration='' @
     py_str (jget ''registration_block'' v) @ '' | AFTER hotkey='' @
     py_str (jget ''new_hotkey'' v) @ '' BlockAtRegistration='' @
     py_str (jget ''registration_block'' v) @
     '' <- identical, no re-registration -> swap_hotkey''"

section \<open>The ledger of used hotkeys\<close>

definition is_used :: "string \<Rightarrow> db \<Rightarrow> bool" where
  "is_used hk d \<longleftrightarrow> list_ex (\<lambda>u. uh_hotkey u = hk) (used_hotkeys d)"

text \<open>INSERT ... ON CONFLICT (hotkey) DO NOTHING; the result tells whether a row was inserted.\<close>

definition ins_used :: "used_hotkey \<Rightarrow> (db, bool) tx" where
  "ins_used u = tx_bind (tx_gets (is_used (uh_hotkey u))) (\<lambda>known.
     if known then tx_return False
     else tx_then (stmt_used (\<lambda>us. us @ [u])) (tx_return True))"

primrec record_legacy_rows :: "(string \<times> int \<times> string) list \<Rightarrow> (db, nat) tx" where
  "record_legacy_rows [] = tx_return 0"
| "record_legacy_rows (r # rs) = (case r of (hk, block, raw) \<Rightarrow>
     tx_bind (ins_used \<lparr>uh_hotkey = hk, uh_netuid = None, uh_block_number = Some block,
         uh_submission_id = None, uh_raw_payload = JStr raw, uh_source = ''backfill''\<rparr>)
       (\<lambda>new. tx_bind (record_legacy_rows rs) (\<lambda>n. tx_return (if new then Suc n else n))))"

definition record_legacy :: "(string \<times> int \<times> string) list \<Rightarrow> int \<Rightarrow> (db, nat) tx" where
  "record_legacy rows ignore_to_block =
     record_legacy_rows (filter (\<lambda>(hk, block, raw). block \<le> ignore_to_block) rows)"

text \<open>SELECT DISTINCT ON (uid) ... ORDER BY uid, updated_at DESC.\<close>

definition load_uid_state :: "db \<Rightarrow> (int \<times> string \<times> int option) list" where
  "load_uid_state d =
     (let rows = sort_key (\<lambda>(u, m). (u, - mi_updated_at m)) (List.map_filter
            (\<lambda>m. case mi_uid m of None \<Rightarrow> None | Some u \<Rightarrow> Some (u, m)) (miners d))
      in map (\<lambda>u. case map_of rows u of
            Some m \<Rightarrow> (u, mi_hotkey m, mi_registration_block m) | None \<Rightarrow> (u, [], None))
          (remdups (map fst rows)))"

text \<open>One swap is one connection: the ledger row and the event commit together.\<close>

definition record_swap :: "int \<Rightarrow> int \<Rightarrow> swap_event \<Rightarrow> (db, bool) tx" where
  "record_swap netuid block s =
     tx_bind (ins_used \<lparr>uh_hotkey = sw_new_hotkey s, uh_netuid = Some netuid,
         uh_block_number = Some block, uh_submission_id = None,
         uh_raw_payload = swap_detail s, uh_source = ''swap''\<rparr>)
       (\<lambda>new. tx_then (tx_when new (ins_event None None ''hotkey_swap_detected'' ERROR
            (describe_swap (swap_detail s))
            (jmerge (swap_detail s) (JObj [(''netuid'', JInt netuid),
               (''detected_at_block'', JInt block)]))))
          (tx_return new))"

primrec record_swaps :: "int \<Rightarrow> int \<Rightarrow> swap_event list \<Rightarrow> (db, nat) tx" where
  "record_swaps netuid block [] = tx_return 0"
| "record_swaps netuid block (s # ss) = tx_bind (record_swap netuid block s) (\<lambda>new.
     tx_bind (record_swaps netuid block ss) (\<lambda>n. tx_return (if new then Suc n else n)))"

definition refreshed_block :: "(int \<times> string \<times> int) list \<Rightarrow> miner \<Rightarrow> int option" where
  "refreshed_block snapshot m = map_option (snd \<circ> snd) (find (\<lambda>(u, hk, b). hk = mi_hotkey m \<and>
     mi_registration_block m \<noteq> Some b) snapshot)"

definition refresh_registration_blocks :: "(int \<times> string \<times> int) list \<Rightarrow> (db, nat) tx" where
  "refresh_registration_blocks snapshot =
     tx_bind (tx_gets (\<lambda>d. length (filter (\<lambda>m. refreshed_block snapshot m \<noteq> None) (miners d))))
       (\<lambda>n. tx_then (stmt_miners (update_where (\<lambda>m. refreshed_block snapshot m \<noteq> None)
          (\<lambda>m. m\<lparr>mi_registration_block := refreshed_block snapshot m\<rparr>))) (tx_return n))"

section \<open>Storing a commit\<close>

record commit_info =
  cm_netuid :: int
  cm_block_number :: int
  cm_block_hash :: "string option"
  cm_extrinsic_hash :: "string option"
  cm_uid :: int
  cm_hotkey :: string
  cm_payload :: json
  cm_model_uri :: string
  cm_payload_hash :: string
  cm_coldkey :: "string option"

definition upsert_commit_miner :: "int \<Rightarrow> commit_info \<Rightarrow> (db, nat) tx" where
  "upsert_commit_miner t c =
     tx_bind (tx_gets (find_miner (cm_hotkey c))) (\<lambda>old. case old of
       Some m \<Rightarrow> tx_then (stmt_miners (update_where (\<lambda>x. mi_hotkey x = cm_hotkey c)
           (\<lambda>x. x\<lparr>mi_coldkey := coalesce (cm_coldkey c) (mi_coldkey x),
              mi_uid := Some (cm_uid c), mi_netuid := Some (cm_netuid c), mi_updated_at := t\<rparr>)))
         (tx_return (mi_id m))
     | None \<Rightarrow> tx_bind tx_fresh (\<lambda>i. tx_then (stmt_miners (\<lambda>ms. ms @
         [\<lparr>mi_id = i, mi_hotkey = cm_hotkey c, mi_coldkey = cm_coldkey c,
           mi_uid = Some (cm_uid c), mi_netuid = Some (cm_netuid c),
           mi_registration_block = None, mi_updated_at = t\<rparr>])) (tx_return i)))"

definition same_commit :: "commit_info \<Rightarrow> chain_commit \<Rightarrow> bool" where
  "same_commit c r \<longleftrightarrow> cc_netuid r = cm_netuid c \<and> cc_hotkey r = cm_hotkey c \<and>
     cc_payload_hash r = cm_payload_hash c"

text \<open>RETURNING id, submission_id, (xmax = 0) AS inserted.\<close>

definition upsert_commit :: "commit_info \<Rightarrow> (db, nat \<times> nat option \<times> bool) tx" where
  "upsert_commit c =
     tx_bind (tx_gets (\<lambda>d. find (same_commit c) (commits d))) (\<lambda>old. case old of
       Some r \<Rightarrow> tx_then (stmt_commits (update_where (same_commit c)
           (\<lambda>x. x\<lparr>cc_block_number := cm_block_number c, cc_block_hash := cm_block_hash c,
              cc_extrinsic_hash := coalesce (cc_extrinsic_hash x) (cm_extrinsic_hash c),
              cc_uid := cm_uid c, cc_payload := cm_payload c, cc_model_uri := cm_model_uri c\<rparr>)))
         (tx_return (cc_id r, cc_submission_id r, False))
     | None \<Rightarrow> tx_bind tx_fresh (\<lambda>i. tx_then (stmt_commits (\<lambda>cs. cs @
         [\<lparr>cc_id = i, cc_netuid = cm_netuid c, cc_block_number = cm_block_number c,
           cc_block_hash = cm_block_hash c, cc_extrinsic_hash = cm_extrinsic_hash c,
           cc_uid = cm_uid c, cc_hotkey = cm_hotkey c, cc_payload = cm_payload c,
           cc_model_uri = cm_model_uri c, cc_payload_hash = cm_payload_hash c,
           cc_submission_id = None\<rparr>])) (tx_return (i, None, True))))"

definition link_commit :: "nat \<Rightarrow> nat \<Rightarrow> (db, unit) tx" where
  "link_commit cid sub = stmt_commits (update_where (\<lambda>r. cc_id r = cid \<and> cc_submission_id r = None)
     (\<lambda>r. r\<lparr>cc_submission_id := Some sub\<rparr>))"

definition commit_submission ::
  "int \<Rightarrow> commit_info \<Rightarrow> nat \<Rightarrow> nat \<Rightarrow> sub_state \<Rightarrow> submission" where
  "commit_submission t c miner cid st = new_submission t miner cid (cm_netuid c) (cm_uid c)
     (cm_hotkey c) (cm_model_uri c) (text_col (jget ''digest'' (cm_payload c))) st
     (chain_key (cm_netuid c) (cm_hotkey c) (cm_payload_hash c))"

section \<open>Rejecting a reused hotkey\<close>

definition is_swap_row :: "used_hotkey \<Rightarrow> bool" where
  "is_swap_row u \<longleftrightarrow> uh_source u = ''swap'' \<and> truthy (uh_raw_payload u)"

definition reuse_fault :: "used_hotkey option \<Rightarrow> string \<times> string \<times> json" where
  "reuse_fault prior = (case prior of
     Some u \<Rightarrow> if is_swap_row u
       then (''hotkey_swap'', describe_swap (uh_raw_payload u) @ dash @ ''blocked by chain_guard'',
             uh_raw_payload u)
       else (''hotkey_reused'', ''hotkey already used'' @ dash @ ''reuse blocked by chain_guard'',
             JNull)
   | None \<Rightarrow> (''hotkey_reused'', ''hotkey already used'' @ dash @ ''reuse blocked by chain_guard'',
       JNull))"

definition reuse_detail ::
  "commit_info \<Rightarrow> nat \<Rightarrow> nat \<Rightarrow> used_hotkey option \<Rightarrow> json \<Rightarrow> json" where
  "reuse_detail c cid sub prior detail = JObj
     [(''chain_commit_id'', JId cid), (''submission_id'', JId sub),
      (''netuid'', JInt (cm_netuid c)), (''block_number'', JInt (cm_block_number c)),
      (''hotkey'', JStr (cm_hotkey c)), (''uid'', JInt (cm_uid c)),
      (''model_uri'', JStr (cm_model_uri c)), (''payload_hash'', JStr (cm_payload_hash c)),
      (''prior_submission_id'',
         case prior of None \<Rightarrow> JNull | Some u \<Rightarrow> jid (uh_submission_id u)),
      (''prior_source'', case prior of None \<Rightarrow> JNull | Some u \<Rightarrow> JStr (uh_source u)),
      (''prior_block_number'', case prior of None \<Rightarrow> JNull | Some u \<Rightarrow> jint (uh_block_number u)),
      (''swap'', detail)]"

definition reject_reused_commit ::
  "(string \<Rightarrow> int \<Rightarrow> json \<Rightarrow> string option) \<Rightarrow> sess \<Rightarrow> commit_info \<Rightarrow> nat \<Rightarrow> nat \<Rightarrow> (db, unit) tx" where
  "reject_reused_commit put env c miner cid =
     tx_bind (tx_gets (\<lambda>d. find (\<lambda>u. uh_hotkey u = cm_hotkey c) (used_hotkeys d))) (\<lambda>prior.
     case reuse_fault prior of (code, msg, swap) \<Rightarrow>
     tx_bind (upsert_submission
         ((set_fault MINER_FAULT code msg
             (commit_submission (se_now env) c miner cid TERMINAL_INVALID))
           \<lparr>ms_finished_at := Some (se_now env)\<rparr>)
         (\<lambda>r. r\<lparr>ms_chain_commit_id := cid, ms_model_uri := cm_model_uri c,
            ms_updated_at := se_now env\<rparr>)) (\<lambda>sub.
     let detail = reuse_detail c cid sub prior swap
     in tx_then (link_commit cid sub)
       (tx_then (ins_event (Some sub) None
            (if truthy swap then ''hotkey_rejected_swap'' else ''hotkey_rejected_reused'')
            (if truthy swap then ERROR else WARN) msg detail)
          (case put (cm_hotkey c) (cm_block_number c) detail of None \<Rightarrow> tx_return ()
           | Some uri \<Rightarrow> if uri = [] then tx_return () else tx_bind tx_fresh (\<lambda>k. ins_artifact
               \<lparr>ar_id = k, ar_submission_id = Some sub, ar_attempt_id = None,
                ar_type = ''GUARD_DETECTION'', ar_backend = ''s3'', ar_uri = uri,
                ar_bucket = None, ar_object_key = None, ar_sha256 = None, ar_size_bytes = None,
                ar_content_type = Some ''application/json'', ar_created_at = se_now env\<rparr>)))))"

section \<open>The reader's insert\<close>

definition discover_commit :: "sess \<Rightarrow> commit_info \<Rightarrow> nat \<Rightarrow> nat \<Rightarrow> (db, unit) tx" where
  "discover_commit env c miner cid =
     tx_bind (upsert_submission (commit_submission (se_now env) c miner cid SUBMITTED)
         (\<lambda>r. r\<lparr>ms_miner_id := Some miner, ms_chain_commit_id := cid, ms_uid := cm_uid c,
            ms_model_uri := cm_model_uri c, ms_updated_at := se_now env\<rparr>)) (\<lambda>sub.
     tx_then (link_commit cid sub)
       (ins_event (Some sub) None ''chain_commit_discovered'' INFO
          ''Chain reader discovered model commit and created submission''
          (JObj [(''chain_commit_id'', JId cid), (''netuid'', JInt (cm_netuid c)),
             (''block_number'', JInt (cm_block_number c)), (''block_hash'', jstr (cm_block_hash c)),
             (''hotkey'', JStr (cm_hotkey c)), (''uid'', JInt (cm_uid c)),
             (''model_uri'', JStr (cm_model_uri c)),
             (''payload_hash'', JStr (cm_payload_hash c))])))"

definition insert_commit ::
  "(string \<Rightarrow> int \<Rightarrow> json \<Rightarrow> string option) \<Rightarrow> sess \<Rightarrow> commit_info \<Rightarrow> (db, bool) tx" where
  "insert_commit put env c =
     tx_bind (upsert_commit_miner (se_now env) c) (\<lambda>miner.
     tx_bind (upsert_commit c) (\<lambda>(cid, sub, new).
     tx_then
       (case sub of Some _ \<Rightarrow> tx_return ()
        | None \<Rightarrow> tx_bind (tx_gets (is_used (cm_hotkey c))) (\<lambda>used.
            if used then reject_reused_commit put env c miner cid
            else discover_commit env c miner cid))
       (tx_return new)))"

primrec insert_new_commits ::
  "(string \<Rightarrow> int \<Rightarrow> json \<Rightarrow> string option) \<Rightarrow> sess \<Rightarrow> commit_info list \<Rightarrow> (db, nat) tx" where
  "insert_new_commits put env [] = tx_return 0"
| "insert_new_commits put env (c # cs) = tx_bind (insert_commit put env c) (\<lambda>new.
     tx_bind (insert_new_commits put env cs) (\<lambda>n. tx_return (if new then Suc n else n)))"

definition hotkeys_missing_coldkey :: "db \<Rightarrow> string list" where
  "hotkeys_missing_coldkey d = map mi_hotkey (filter (\<lambda>m. mi_coldkey m = None) (miners d))"

definition set_coldkey :: "sess \<Rightarrow> string \<Rightarrow> string \<Rightarrow> (db, unit) tx" where
  "set_coldkey env hk ck = stmt_miners (update_where (\<lambda>m. mi_hotkey m = hk)
     (\<lambda>m. m\<lparr>mi_coldkey := Some ck, mi_updated_at := se_now env\<rparr>))"

end
