(* ===== verification/Witnesses.thy ===== *)
theory Witnesses
  imports EvalControl Reign Weights ChainIntake
begin

text \<open>
  Concrete databases, and each property with hypotheses applied to one of them.
\<close>

section \<open>Sample rows\<close>

definition sample_env :: sess where
  "sample_env = \<lparr>se_now = 1000, se_clock = 1000, se_lock = True, se_free = (\<lambda>_. True)\<rparr>"

definition sample_sub :: "nat \<Rightarrow> string \<Rightarrow> sub_state \<Rightarrow> submission" where
  "sample_sub i hk st = \<lparr>ms_id = i, ms_miner_id = None, ms_chain_commit_id = i + 100,
     ms_netuid = 1, ms_uid = int i, ms_hotkey = hk, ms_model_uri = ''org/model@rev'',
     ms_commit_hash = None, ms_model_hash = None, ms_state = st, ms_fault_class = None,
     ms_fault_code = None, ms_fault_message = None, ms_retry_count = 0, ms_priority = 100,
     ms_idempotency_key = hk, ms_created_at = 0, ms_updated_at = 0, ms_finished_at = None\<rparr>"

definition sample_commit :: "nat \<Rightarrow> string \<Rightarrow> chain_commit" where
  "sample_commit i hk = \<lparr>cc_id = i + 100, cc_netuid = 1, cc_block_number = int i,
     cc_block_hash = Some ''0xb'', cc_extrinsic_hash = None, cc_uid = int i, cc_hotkey = hk,
     cc_payload = JObj [], cc_model_uri = ''org/model@rev'', cc_payload_hash = hk,
     cc_submission_id = Some i\<rparr>"

definition sample_attempt :: "nat \<Rightarrow> nat \<Rightarrow> stage \<Rightarrow> attempt" where
  "sample_attempt i sub st = new_attempt i sub st 1 ''w'' (Some 500) 0 JNull"

definition sample_db :: "submission list \<Rightarrow> attempt list \<Rightarrow> db" where
  "sample_db ss as = empty_db\<lparr>next_id := 1000, submissions := ss, attempts := as,
     commits := map (\<lambda>r. sample_commit (ms_id r) (ms_hotkey r)) ss\<rparr>"

lemmas sample_simps = sample_env_def sample_sub_def sample_commit_def sample_attempt_def
  sample_db_def empty_db_def ledger_def keys_below_def attempts_ok_def subs_ok_def unique_by_def
  ledger_ok_def busy_def number_key_def open_key_def open_attempt_def new_attempt_def holds_def

definition waiting :: db where
  "waiting = sample_db [sample_sub 1 ''hk1'' SUBMITTED, sample_sub 2 ''hk2'' SUBMITTED] []"

theorem claim_next_takes_first_witness:
  "\<exists>cl d'. claim_next sample_env ''w'' 60 waiting = Inr (Some cl, d') \<and> ledger d'"
proof -
  have "ledger waiting" by (simp add: waiting_def sample_simps)
  from claim_next_takes_first [OF this, of sample_env "''w''" 60]
  have "\<exists>res d'. claim_next sample_env ''w'' 60 waiting = Inr (res, d') \<and> ledger d' \<and>
      (res = None \<longrightarrow> hippius_claimable sample_env waiting = [])"
    by (auto split: option.splits)
  moreover have "hippius_claimable sample_env waiting \<noteq> []"
    by (simp add: waiting_def sample_simps hippius_claimable_def find_commit_def coldkey_of_def
        find_miner_def List.map_filter_def)
  ultimately show ?thesis by auto
qed

definition validating :: db where
  "validating = sample_db [sample_sub 1 ''hk1'' HIPPIUS_RUNNING,
     (sample_sub 2 ''hk2'' HIPPIUS_VALIDATED)\<lparr>ms_model_hash := Some ''sha256:aa''\<rparr>]
     [sample_attempt 3 1 HIPPIUS]"

definition sample_claim :: hippius_claim where
  "sample_claim = \<lparr>hc_attempt_id = 3, hc_attempt_number = 1,
     hc_submission = sample_sub 1 ''hk1'' SUBMITTED, hc_commit = sample_commit 1 ''hk1'',
     hc_coldkey = None\<rparr>"

theorem finalize_records_duplicate_witness:
  "\<exists>d'. finalize sample_env 3 2 sample_claim JNull
      (Done (JObj [(''model_hash'', JStr ''sha256:aa'')])) validating = (Inr (), d') \<and>
    map ms_state (submissions d') = [TERMINAL_INVALID, HIPPIUS_VALIDATED]"
proof -
  define q where "q = (sample_sub 2 ''hk2'' HIPPIUS_VALIDATED)\<lparr>ms_model_hash := Some ''sha256:aa''\<rparr>"
  have "ledger validating" by (simp add: validating_def sample_simps)
  then obtain d' where "finalize sample_env 3 2 sample_claim JNull
      (Done (JObj [(''model_hash'', JStr ''sha256:aa'')])) validating = (Inr (), d')"
    "submissions d' = update_where (\<lambda>s. ms_id s = 1)
      (failed_submission sample_env MINER_FAULT ''duplicate''
          ''exact duplicate: this model's digest already belongs to another submission'')
      (submissions validating)"
    using finalize_records_duplicate [of validating sample_claim "sample_sub 1 ''hk1'' HIPPIUS_RUNNING"
        "JObj [(''model_hash'', JStr ''sha256:aa'')]" "''sha256:aa''" q sample_env 3 2 JNull]
    by (auto simp: validating_def sample_claim_def q_def sample_simps or_text_def)
  then show ?thesis
    by (auto simp: validating_def sample_simps update_where_def failed_submission_def)
qed

theorem rejection_counts_strike_witness:
  "\<exists>d'. finalize sample_env 3 1 sample_claim JNull
      (Rejected MINER_FAULT ''dtype'' ''bad weights'' (JObj [])) validating = (Inr (), d') \<and>
    admission 1 sample_claim d' \<noteq> None"
proof -
  have "ledger validating" by (simp add: validating_def sample_simps)
  then obtain d' where d': "finalize sample_env 3 1 sample_claim JNull
      (Rejected MINER_FAULT ''dtype'' ''bad weights'' (JObj [])) validating = (Inr (), d')"
    and "\<forall>again. ms_hotkey (hc_submission again) = ''hk1'' \<longrightarrow> admission 1 again d' \<noteq> None"
    using rejection_counts_strike [of validating sample_claim "sample_sub 1 ''hk1'' HIPPIUS_RUNNING"
        "''dtype''" sample_env 3 1 JNull "''bad weights''" "JObj []"]
    by (auto simp: validating_def sample_claim_def sample_simps strike_excluded_codes_def)
  moreover have "ms_hotkey (hc_submission sample_claim) = ''hk1''"
    by (simp add: sample_claim_def sample_sub_def)
  ultimately show ?thesis by blast
qed

definition sample_host :: "stage \<Rightarrow> host" where
  "sample_host role = \<lparr>rh_id = ''h'', rh_key = 900, rh_role = role, rh_base_url = ''http://h'',
     rh_state = HOST_READY, rh_gpu_count = 8, rh_free_gpu_count = 8,
     rh_last_heartbeat_at = Some 0\<rparr>"

definition validated :: db where
  "validated = (sample_db [sample_sub 1 ''hk1'' HIPPIUS_VALIDATED] [])\<lparr>hosts := [sample_host PRE_EVAL]\<rparr>"

theorem claim_next_pre_eval_takes_first_witness:
  "\<exists>c d'. claim_next_pre_eval sample_env 4 3 ''w'' 60 (\<lambda>_ _ _. JObj []) validated = Inr (Some c, d') \<and>
     ledger d' \<and> pc_submission_id c = 1"
proof -
  have v: "ledger validated" "pre_eval_claimable sample_env 3 validated = [sample_sub 1 ''hk1'' HIPPIUS_VALIDATED]"
    "ready_host sample_env PRE_EVAL 4 validated \<noteq> None" "se_lock sample_env"
    by (simp_all add: validated_def sample_host_def ready_host_def pre_eval_claimable_def
        find_commit_def sample_simps)
  obtain res d' where res: "claim_next_pre_eval sample_env 4 3 ''w'' 60 (\<lambda>_ _ _. JObj []) validated
      = Inr (res, d')" "ledger d'" "res = None \<longrightarrow> pre_eval_claimable sample_env 3 validated = []"
    "\<forall>c. res = Some c \<longrightarrow> (\<exists>r \<in> set (pre_eval_claimable sample_env 3 validated). ms_id r = pc_submission_id c)"
    using claim_next_pre_eval_takes_first [OF v(1), of sample_env 4 3 "''w''" 60 "\<lambda>_ _ _. JObj []"] v(3,4)
    by (auto split: option.splits) blast+
  then obtain c where "res = Some c" using v(2) by auto
  then show ?thesis using res v(2) by (auto simp: sample_sub_def)
qed

definition pre_evaluating :: db where
  "pre_evaluating = sample_db [sample_sub 1 ''hk1'' PRE_EVAL_RUNNING] [sample_attempt 3 1 PRE_EVAL]"

theorem pre_eval_retries_bounded_witness:
  "\<exists>d1. mark_pre_eval_failed sample_env 3 2 1 3 ''r'' ''dg'' INFRA_FAULT ''busy'' ''no host'' True None None
      pre_evaluating = Inr ((), d1) \<and> map ms_state (submissions d1) = [PRE_EVAL_RETRYABLE] \<and>
      pre_eval_capped 3 d1"
proof -
  have l: "ledger pre_evaluating" "pre_eval_capped 3 pre_evaluating"
    by (simp_all add: pre_evaluating_def pre_eval_capped_def sample_simps)
  obtain d1 where d1: "mark_pre_eval_failed sample_env 3 2 1 3 ''r'' ''dg'' INFRA_FAULT ''busy''
      ''no host'' True None None pre_evaluating = Inr ((), d1)" and st: "map ms_state (submissions d1) = [PRE_EVAL_RETRYABLE]"
    by (auto simp: mark_pre_eval_failed_def pre_evaluating_def sample_simps tx upd_sub_def
        upd_attempt_def update_where_def pre_eval_failed_state_def Let_def tx_when_def set_fault_def)
  show ?thesis
    by (intro exI [of _ d1] conjI d1 st conjunct1 [OF pre_eval_retries_bounded [OF l disjI1 [OF d1]]])
qed

theorem pre_eval_strikes_announced_witness:
  "\<exists>d1. mark_pre_eval_failed sample_env 3 2 1 3 ''r'' ''dg'' MINER_FAULT ''garbage'' ''bad text'' False None
      None pre_evaluating = Inr ((), d1) \<and> hotkey_preeval_fail_count ''hk1'' d1 = 1"
proof -
  have l: "ledger pre_evaluating" "holds PRE_EVAL 3 (ms_id (sample_sub 1 ''hk1'' PRE_EVAL_RUNNING)) pre_evaluating"
    "sample_sub 1 ''hk1'' PRE_EVAL_RUNNING \<in> set (submissions pre_evaluating)"
    "''garbage'' \<notin> set strike_excluded_codes"
    by (simp_all add: pre_evaluating_def strike_excluded_codes_def sample_simps)
  have "strikes_with_this 1 pre_evaluating = 1"
    by (simp add: strikes_with_this_def pre_evaluating_def find_sub_def
        hotkey_preeval_fail_count_def is_strike_def sample_simps)
  moreover obtain d1 where "mark_pre_eval_failed sample_env 3 2 1 3 ''r'' ''dg'' MINER_FAULT ''garbage''
      ''bad text'' False None None pre_evaluating = Inr ((), d1)"
    by (auto simp: mark_pre_eval_failed_def pre_evaluating_def sample_simps tx upd_sub_def Let_def
        record_failed_sanity_def write_sanity_result_def sanity_ok_def or_text_def set_fault_def upd_attempt_def update_where_def)
  ultimately show ?thesis
    using pre_eval_strikes_announced [OF l, of sample_env 3 2 "''r''" "''dg''" "''bad text''" None None d1]
    by (auto simp: sample_simps)
qed

definition sample_run :: "nat \<Rightarrow> nat \<Rightarrow> nat \<Rightarrow> run_state \<Rightarrow> eval_run" where
  "sample_run i sub att st = \<lparr>er_id = i, er_submission_id = sub, er_attempt_id = att,
     er_king_submission_id = Some 50, er_king_model_hash = ''sha256:king'',
     er_challenger_model_hash = ''sha256:m1'', er_host_id = Some ''h'', er_remote_run_id = None,
     er_state = st, er_gpu_ids = None, er_gpu_topology = JNull,
     er_dataset = \<lparr>ds_version = ''v'', ds_manifest_hash = ''m'', ds_sample_seed = ''s'',
       ds_sample_ids = [], ds_sampling_algo = ''a'', ds_judge_config_hash = ''j'', ds_judge_count = 3\<rparr>,
     er_sample_count = Some 1, er_generated = 0, er_scored = 0, er_score_challenger = None,
     er_score_king = None, er_win_margin = None, er_challenger_won = None, er_turns = (None, None),
     er_errors = (None, None, None), er_fault_class = None, er_fault_code = None,
     er_fault_message = None, er_started_at = Some 0, er_finished_at = None\<rparr>"

definition model_sub :: "nat \<Rightarrow> string \<Rightarrow> sub_state \<Rightarrow> submission" where
  "model_sub i hk st = (sample_sub i hk st)\<lparr>ms_model_hash := Some ''sha256:m1''\<rparr>"

lemmas eval_sample_simps = sample_simps model_sub_def sample_run_def eval_inv_def runs_linked_def
  eval_runs_ok_def active_key_def active_run_def

definition crowned :: "db \<Rightarrow> db" where
  "crowned d = d\<lparr>hosts := [sample_host EVAL],
     artifacts := [\<lparr>ar_id = 60, ar_submission_id = Some 50, ar_attempt_id = None,
       ar_type = ''MODEL_MANIFEST'', ar_backend = ''hf'', ar_uri = ''hf://king'', ar_bucket = None,
       ar_object_key = None, ar_sha256 = None, ar_size_bytes = None, ar_content_type = None,
       ar_created_at = 0\<rparr>],
     king_versions := [\<lparr>kv_id = 61, kv_submission_id = 50, kv_model_hash = ''sha256:king'',
       kv_artifact_id = 60, kv_eval_run_id = None, kv_version = 1, kv_entered_reign_id = Some 62,
       kv_entered_slot = 1, kv_retired_at = None, kv_retire_reason = None, kv_activated_by = ''op''\<rparr>],
     reigns := [\<lparr>rg_id = 62, rg_version = 1, rg_reason = GENESIS, rg_trigger_eval_run_id = None,
       rg_trigger_submission_id = None, rg_previous_reign_id = None, rg_state = RG_ACTIVE,
       rg_activated_at = Some 0\<rparr>],
     reign_members := [\<lparr>rm_id = 63, rm_reign_id = 62, rm_slot = 1, rm_king_version_id = 61,
       rm_submission_id = 50, rm_hotkey = ''king'', rm_uid = 9, rm_model_hash = ''sha256:king'',
       rm_weight_bps = 10000\<rparr>]\<rparr>"

definition eval_waiting :: db where
  "eval_waiting = crowned (sample_db [model_sub 1 ''hk1'' EVAL_QUEUED] [])"

definition sample_request :: eval_request where
  "sample_request = \<lparr>rq_dataset = er_dataset (sample_run 0 0 0 ER_DISPATCHED), rq_sample_count = 1,
     rq_snapshot = JNull\<rparr>"

theorem claim_next_eval_one_at_a_time_witness:
  "\<exists>res d'. claim_next_eval sample_env ''w'' 60 (\<lambda>_ _ _ _. Inr sample_request) eval_waiting
     = Inr (res, d') \<and> eval_inv d'"
proof -
  have "eval_inv eval_waiting"
    "\<forall>r \<in> set (submissions eval_waiting). ms_state r = EVAL_QUEUED \<longrightarrow> ms_model_hash r \<noteq> None"
    by (simp_all add: eval_waiting_def crowned_def eval_sample_simps)
  from claim_next_eval_one_at_a_time [OF this(1) _ this(2), of "\<lambda>_ _ _ _. Inr sample_request"
      sample_env "''w''" 60]
  show ?thesis by auto
qed

definition evaluating :: "run_state \<Rightarrow> db" where
  "evaluating st = (crowned (sample_db [model_sub 1 ''hk1'' EVAL_RUNNING] [sample_attempt 3 1 EVAL]))
     \<lparr>eval_runs := [sample_run 4 1 3 st]\<rparr>"

theorem eval_win_takes_two_wins_witness:
  "\<exists>d'. complete_eval sample_env 1 3 4 (JObj [(''state'', JStr ''succeeded''), (''challenger_won'', JBool True)])
     (evaluating ER_SCORING) = Inr ((), d') \<and> eval_inv d'"
proof -
  define v where "v = JObj [(''state'', JStr ''succeeded''), (''challenger_won'', JBool True)]"
  have "eval_inv (evaluating ER_SCORING)" "holds EVAL 3 1 (evaluating ER_SCORING)"
    "sample_run 4 1 3 ER_SCORING \<in> set (eval_runs (evaluating ER_SCORING))"
    by (simp_all add: evaluating_def crowned_def eval_sample_simps)
  from eval_win_takes_two_wins [OF this, of v True sample_env]
  show ?thesis by (auto simp: v_def sample_run_def)
qed

theorem late_completion_ignored_witness:
  "complete_eval sample_env 1 3 4 (JObj [(''state'', JStr ''succeeded'')]) waiting = Inr ((), waiting)"
  by (rule late_completion_ignored) (simp_all add: waiting_def sample_simps)

definition swept :: db where
  "swept = (sample_db [model_sub 1 ''hk1'' EVAL_RETRYABLE]
     [(sample_attempt 3 1 EVAL)\<lparr>sa_state := SA_ABANDONED\<rparr>])\<lparr>eval_runs := [sample_run 4 1 3 ER_FAILED_RETRYABLE]\<rparr>"

theorem late_event_blocks_claims_witness:
  "\<exists>d1. record_remote_event 1 3 (JObj [(''type'', JStr ''scoring_started''), (''eval_run_id'', JId 4)])
     swept = Inr ((), d1) \<and> \<not> eval_inv d1"
proof -
  define e where "e = JObj [(''type'', JStr ''scoring_started''), (''eval_run_id'', JId 4)]"
  have "eval_inv swept" "sample_run 4 1 3 ER_FAILED_RETRYABLE \<in> set (eval_runs swept)"
    "er_state (sample_run 4 1 3 ER_FAILED_RETRYABLE) = ER_FAILED_RETRYABLE"
    "\<forall>q \<in> set (eval_runs swept). \<not> active_run (er_state q)"
    by (simp_all add: swept_def eval_sample_simps)
  moreover have "\<not> remote_event_exists 3 e swept"
    by (simp add: remote_event_exists_def swept_def sample_simps)
  moreover have "jget ''type'' e = JStr ''scoring_started''"
    "jget ''eval_run_id'' e = JId (er_id (sample_run 4 1 3 ER_FAILED_RETRYABLE))"
    by (simp_all add: e_def sample_run_def)
  ultimately show ?thesis
    using late_event_blocks_claims [of swept "sample_run 4 1 3 ER_FAILED_RETRYABLE" e 3 1]
    unfolding e_def [symmetric] by blast
qed

theorem weight_bps_even_split_witness:
  "weight_bps_for_member_count 3 = Inr [3334, 3333, 3333] \<and> sum_list [3334, 3333, 3333 :: nat] = 10000"
proof -
  have "weight_bps_for_member_count 3 = Inr [3334, 3333, 3333]"
    by (simp add: weight_bps_for_member_count_def upt_rec)
  then show ?thesis using weight_bps_even_split by force
qed

definition won :: db where
  "won = (crowned (sample_db [model_sub 1 ''hk1'' EVAL_WIN] []))
     \<lparr>eval_runs := [(sample_run 4 1 3 ER_SUCCEEDED)\<lparr>er_challenger_won := Some True\<rparr>]\<rparr>"

definition won_with_manifest :: db where
  "won_with_manifest = won\<lparr>artifacts := map (\<lambda>a. a\<lparr>ar_submission_id := Some 1\<rparr>) (artifacts won)\<rparr>"

lemmas throne_sample_simps = won_def won_with_manifest_def crowned_def eval_sample_simps throne_ok_def
  reigns_ok_def kings_ok_def members_ok_def epochs_ok_def reign_key_def

lemma won_next_winner:
  "next_winner sample_env won = Some (model_sub 1 ''hk1'' EVAL_WIN)"
  "next_winner sample_env won_with_manifest = Some (model_sub 1 ''hk1'' EVAL_WIN)"
  by (simp_all add: next_winner_def reign_claimable_def throne_sample_simps)

lemma won_invariants:
  "ledger won" "throne_ok won" "ledger won_with_manifest" "throne_ok won_with_manifest"
  "se_lock sample_env"
  by (simp_all add: throne_sample_simps)

lemmas check_sample_simps = check_winner_def winning_eval_def winning_run_def active_reign_def
  active_members_def member_of_row_def lead_member_def manifest_artifact_def

lemma won_check:
  "\<exists>p. check_winner (model_sub 1 ''hk1'' EVAL_WIN) won_with_manifest = Inr p"
  "\<exists>msg. check_winner (model_sub 1 ''hk1'' EVAL_WIN) won = Inl (''missing_challenger_model_artifact'', msg)"
  by (simp_all add: check_sample_simps throne_sample_simps)

theorem promotion_crowns_winner_witness:
  "\<exists>d' rg. promote_next_winner (\<lambda>_. ''sha256:h'') sample_env ''w'' 60 won_with_manifest = Inr (True, d') \<and>
     filter (\<lambda>g. rg_state g = RG_ACTIVE) (reigns d') = [rg] \<and> throne_ok d'"
proof -
  obtain p where "check_winner (model_sub 1 ''hk1'' EVAL_WIN) won_with_manifest = Inr p"
    using won_check(1) by blast
  from promotion_crowns_winner [OF won_invariants(3-5) won_next_winner(2) this]
  show ?thesis by blast
qed

theorem failed_promotion_waits_witness:
  "\<exists>d'. promote_next_winner (\<lambda>_. ''sha256:h'') sample_env ''w'' 60 won = Inr (True, d') \<and>
     reigns d' = reigns won"
proof -
  obtain msg where "check_winner (model_sub 1 ''hk1'' EVAL_WIN) won
      = Inl (''missing_challenger_model_artifact'', msg)"
    using won_check(2) by blast
  from failed_promotion_waits [OF won_invariants(1,5) won_next_winner(1) this]
  show ?thesis by blast
qed

theorem throne_changes_by_victory_witness:
  "\<exists>ev. ev \<in> set (eval_runs won_with_manifest) \<and> winning_run 1 ev \<and>
     er_king_submission_id ev = Some 50"
proof -
  obtain p where p: "check_winner (model_sub 1 ''hk1'' EVAL_WIN) won_with_manifest = Inr p"
    using won_check(1) by blast
  obtain d' planned where d': "promote_next_winner (\<lambda>_. ''sha256:h'') sample_env ''w'' 60 won_with_manifest
      = Inr (True, d')" "length (reigns d') = Suc (length (reigns won_with_manifest))"
    by (rule promotion_runs [OF won_invariants(3,4) won_next_winner(2) p won_invariants(5),
          of "\<lambda>_. ''sha256:h''" "''w''" 60]) (auto simp: supersede_reign_def)
  then have "reigns d' \<noteq> reigns won_with_manifest" by force
  from throne_changes_by_victory [OF won_invariants(3,4) d'(1) this]
  obtain r ev where "next_winner sample_env won_with_manifest = Some r"
    "ev \<in> set (eval_runs won_with_manifest)" "winning_run (ms_id r) ev" by blast
  then show ?thesis
    using won_next_winner(2) by (auto simp: model_sub_def sample_sub_def won_with_manifest_def won_def sample_run_def)
qed

definition sample_epoch :: "nat \<Rightarrow> reason \<Rightarrow> string \<Rightarrow> epoch_state \<Rightarrow> int \<Rightarrow> weight_epoch" where
  "sample_epoch i why h st upd = \<lparr>we_id = i, we_netuid = 97, we_reason = why, we_reign_id = Some 62,
     we_state = st, we_uids = [9], we_weights = [1], we_policy = JObj [], we_hash = h,
     we_attempt_count = 0, we_last_fault_class = None, we_last_fault_code = None,
     we_created_at = int i, we_updated_at = upd, we_succeeded_at = None\<rparr>"

definition sample_settings :: weight_settings where
  "sample_settings = \<lparr>st_worker_id = ''w'', st_wallet_hotkey = ''wallet'', st_network = ''finney'',
     st_rate_blocks = 100, st_netuid = 97, st_burn_uid = 0\<rparr>"

definition throned :: "weight_epoch list \<Rightarrow> db" where
  "throned es = (crowned (sample_db [model_sub 1 ''hk1'' COMPLETE_CORONATED] []))
     \<lparr>reigns := map (\<lambda>g. g\<lparr>rg_trigger_submission_id := Some 1\<rparr>) (reigns (crowned empty_db)),
      weight_epochs := es\<rparr>"

lemmas weight_sample_simps = sample_epoch_def sample_settings_def throned_def throne_sample_simps
  rate_limited_def recent_marker_def next_epoch_def pending_epoch_def trigger_of_def no_open_weights_def

theorem weight_payload_pays_members_witness:
  "\<bar>fsum (wp_weights (build_weight_payload [\<lparr>wm_slot = 1, wm_uid = 9, wm_hotkey = ''a'', wm_weight_bps = 6000\<rparr>,
     \<lparr>wm_slot = 2, wm_uid = 4, wm_hotkey = ''b'', wm_weight_bps = 4000\<rparr>] [(9, ''a'')] 0 (JObj []))) - 1\<bar> \<le> 3 / 10 ^ 12"
  using weight_payload_pays_members [of "[\<lparr>wm_slot = 1, wm_uid = 9, wm_hotkey = ''a'', wm_weight_bps = 6000\<rparr>,
     \<lparr>wm_slot = 2, wm_uid = 4, wm_hotkey = ''b'', wm_weight_bps = 4000\<rparr>]" "[(9, ''a'')]" 0 "JObj []"]
  by (simp add: Let_def)

theorem claim_takes_newest_epoch_witness:
  "\<exists>c d'. claim_next_epoch (\<lambda>_. ''h'') sample_env sample_settings 500
      (throned [sample_epoch 70 CORONATION ''a'' WE_PENDING 0, sample_epoch 71 CORONATION ''b'' WE_PENDING 0])
      = Inr (Some c, d') \<and> ce_epoch_id c = 71"
proof -
  define es where "es = [sample_epoch 70 CORONATION ''a'' WE_PENDING 0, sample_epoch 71 CORONATION ''b'' WE_PENDING 0]"
  have "ledger (throned es)" "epochs_ok (weight_epochs (throned es))" "se_lock sample_env"
    "\<not> rate_limited (st_netuid sample_settings) 500 (st_rate_blocks sample_settings) (throned es)"
    "next_epoch sample_env (st_netuid sample_settings) (throned es) = Some (sample_epoch 71 CORONATION ''b'' WE_PENDING 0)"
    "no_open_weights (trigger_of (sample_epoch 71 CORONATION ''b'' WE_PENDING 0) (throned es)) (throned es)"
    by (simp_all add: es_def weight_sample_simps)
  from claim_takes_newest_epoch [OF this, of "\<lambda>_. ''h''"]
  show ?thesis unfolding es_def by (auto simp: sample_epoch_def)
qed


theorem success_starts_rate_limit_witness:
  "\<exists>d'. claim_next_epoch (\<lambda>_. ''h'') sample_env sample_settings 599 d' = Inr (None, d') \<and>
     map we_state (weight_epochs d') = [WE_SUCCESS]"
proof -
  define e where "e = sample_epoch 70 CORONATION ''a'' WE_RUNNING 0"
  define t where "t = \<lparr>wt_id = 80, wt_epoch_id = 70, wt_attempt_id = None, wt_wallet_hotkey = ''wallet'',
     wt_subtensor_url = ''finney'', wt_state = WT_CREATED, wt_extrinsic_hash = None,
     wt_block_number = Some 500, wt_fault_class = None, wt_fault_code = None, wt_fault_message = None,
     wt_updated_at = 0\<rparr>"
  define d where "d = empty_db\<lparr>weight_epochs := [e], weight_txs := [t]\<rparr>"
  define c where "c = \<lparr>ce_epoch_id = 70, ce_transaction_id = 80, ce_stage_attempt_id = None,
     ce_reign_id = Some 62, ce_trigger = None, ce_netuid = 97, ce_reason = CORONATION, ce_hash = ''a'',
     ce_policy = JObj []\<rparr>"
  obtain d' where d': "mark_success sample_env c \<lparr>wp_uids = [9], wp_weights = [1], wp_policy = JObj []\<rparr>
      \<lparr>sw_success = True, sw_message = [], sw_extrinsic_hash = None\<rparr> 500 d = Inr ((), d')"
    "map we_state (weight_epochs d') = [WE_SUCCESS]"
    by (auto simp: mark_success_def tx c_def d_def e_def sample_epoch_def empty_db_def update_where_def succeeded_epoch_def epochs_ok_def unique_by_def)
  have "t \<in> set (weight_txs d)" "e \<in> set (weight_epochs d)" "wt_id t = ce_transaction_id c"
    "we_id e = wt_epoch_id t" "we_netuid e = st_netuid sample_settings"
    "599 < 500 + st_rate_blocks sample_settings"
    by (simp_all add: d_def t_def e_def c_def sample_epoch_def sample_settings_def)
  note limit = success_starts_rate_limit [OF d'(1) this(1,3,2,4,5,6)]
  show ?thesis by (rule exI [of _ d']) (rule conjI [OF limit d'(2)])
qed

definition due_refresh :: weight_epoch where
  "due_refresh = sample_epoch 70 PERIODIC_REFRESH ''sha256:h'' WE_FAILED_RETRYABLE 990"

theorem refresh_retry_skips_pause_witness:
  "\<exists>c d'. claim_next_epoch (\<lambda>_. ''h'') sample_env sample_settings 500 (throned [due_refresh]) = Inr (Some c, d') \<and>
     ce_epoch_id c = 70 \<and> \<not> pending_epoch sample_env 97 due_refresh"
proof -
  let ?d = "throned [due_refresh]"
  have "epochs_ok (weight_epochs ?d)" "se_lock sample_env"
    "\<not> rate_limited (st_netuid sample_settings) 500 (st_rate_blocks sample_settings) ?d"
    "next_epoch sample_env (st_netuid sample_settings) ?d = None"
    "find (\<lambda>x. we_netuid x = st_netuid sample_settings \<and> we_hash x = periodic_refresh_weight_hash (\<lambda>_. ''h'')
        (st_netuid sample_settings) (map_option rg_id (active_reign ?d)) 500 (st_rate_blocks sample_settings))
        (weight_epochs ?d) = Some due_refresh"
    "we_state due_refresh = WE_FAILED_RETRYABLE" "se_now sample_env < we_updated_at due_refresh + 60"
    by (simp_all add: due_refresh_def weight_sample_simps periodic_refresh_weight_hash_def)
  from refresh_retry_skips_pause [OF this] show ?thesis
    by (auto simp: due_refresh_def weight_sample_simps)
qed

theorem refresh_retry_reopens_coronation_witness:
  "\<exists>d'. run_once (\<lambda>_. ''h'') sample_env sample_settings
      \<lparr>ch_block = 500, ch_hotkeys = Inl ''rpc down'', ch_set = (\<lambda>_. Inl ''rpc down'')\<rparr>
      (throned [due_refresh\<lparr>we_updated_at := 900\<rparr>]) = (Inr True, d') \<and>
    (\<forall>q \<in> set (submissions d'). ms_id q = 1 \<longrightarrow> ms_state q = WEIGHT_SET_RETRYABLE)"
proof -
  let ?d = "throned [due_refresh\<lparr>we_updated_at := 900\<rparr>]"
  let ?ch = "\<lparr>ch_block = 500, ch_hotkeys = Inl ''rpc down'', ch_set = (\<lambda>_. Inl ''rpc down'')\<rparr>"
  let ?r = "model_sub 1 ''hk1'' COMPLETE_CORONATED"
  have "ledger ?d" "epochs_ok (weight_epochs ?d)" "se_lock sample_env"
    "\<not> rate_limited (st_netuid sample_settings) (ch_block ?ch) (st_rate_blocks sample_settings) ?d"
    "next_epoch sample_env (st_netuid sample_settings) ?d = Some (due_refresh\<lparr>we_updated_at := 900\<rparr>)"
    "we_reason (due_refresh\<lparr>we_updated_at := 900\<rparr>) = PERIODIC_REFRESH"
    "trigger_of (due_refresh\<lparr>we_updated_at := 900\<rparr>) ?d = Some (ms_id ?r)"
    "no_open_weights (Some (ms_id ?r)) ?d" "?r \<in> set (submissions ?d)" "ms_state ?r = COMPLETE_CORONATED"
    "ch_hotkeys ?ch = Inl ''rpc down''"
    by (simp_all add: due_refresh_def weight_sample_simps)
  from refresh_retry_reopens_coronation [OF this, of "\<lambda>_. ''h''"] show ?thesis by (auto simp: model_sub_def sample_sub_def)
qed

end
