(* ===== verification/Contracts.thy ===== *)
theory Contracts
  imports Prelude
begin

text \<open>
  What miner and validator agree on for a private upload: src/src/private_store/contracts.py and
  src/src/private_store/digests.py. The hash function is an argument \<open>sha\<close> from bytes to the hex
  digest. A text is the list of its UTF-8 bytes, so \<open>str.encode\<close> is the identity and the order of
  texts is the order of the bytes; \<open>json.loads\<close> is read at the level of its value.
\<close>

datatype store_error =
    BadValue string
  | Integrity string
  | GenesisMismatch string
  | QuotaExceeded string
  | MailboxInvariant string
  | ServiceError string

text \<open>\<open>except ArtifactIntegrityError\<close>: the class and its two subclasses.\<close>

fun integrity_error :: "store_error \<Rightarrow> bool" where
  "integrity_error (Integrity _) = True"
| "integrity_error (GenesisMismatch _) = True"
| "integrity_error (QuotaExceeded _) = True"
| "integrity_error _ = False"

text \<open>The text of an exception, \<open>str(exc)\<close>.\<close>

fun error_message :: "store_error \<Rightarrow> string" where
  "error_message (BadValue m) = m"
| "error_message (Integrity m) = m"
| "error_message (GenesisMismatch m) = m"
| "error_message (QuotaExceeded m) = m"
| "error_message (MailboxInvariant m) = m"
| "error_message (ServiceError m) = m"

section \<open>JSON text\<close>

text \<open>\<open>json.dumps\<close> with \<open>ensure_ascii\<close>: the short escapes, the printable ASCII characters, \<open>\\uXXXX\<close>.\<close>

definition hex_digit :: "nat \<Rightarrow> char" where
  "hex_digit d = (if d < 10 then digit_char d else char_of (87 + d))"

definition hex4 :: "nat \<Rightarrow> string" where
  "hex4 n = [hex_digit (n div 4096 mod 16), hex_digit (n div 256 mod 16),
     hex_digit (n div 16 mod 16), hex_digit (n mod 16)]"

definition short_escapes :: "(char \<times> char) list" where
  "short_escapes = [(CHR 0x22, CHR 0x22), (CHR 0x5C, CHR 0x5C), (CHR 0x0A, CHR ''n''),
     (CHR 0x0D, CHR ''r''), (CHR 0x09, CHR ''t''), (CHR 0x0C, CHR ''f''), (CHR 0x08, CHR ''b'')]"

definition json_escape :: "char \<Rightarrow> string" where
  "json_escape c = (case map_of short_escapes c of
     Some e \<Rightarrow> [CHR 0x5C, e]
   | None \<Rightarrow> if (32::nat) \<le> of_char c \<and> of_char c \<le> (126::nat) then [c]
       else [CHR 0x5C, CHR ''u''] @ hex4 (of_char c))"

text \<open>The code point of a UTF-8 sequence of two, three or four bytes, and its escape.\<close>

definition cont :: "char \<Rightarrow> nat" where
  "cont c = of_char c mod 64"

definition escape_point :: "nat \<Rightarrow> string" where
  "escape_point n =
     (if n < 65536 then [CHR 0x5C, CHR ''u''] @ hex4 n
      else [CHR 0x5C, CHR ''u''] @ hex4 (55296 + (n - 65536) div 1024) @
           [CHR 0x5C, CHR ''u''] @ hex4 (56320 + (n - 65536) mod 1024))"

fun json_chars :: "string \<Rightarrow> string" where
  "json_chars [] = []"
| "json_chars (a # s) =
     (if (of_char a :: nat) < 128 then json_escape a @ json_chars s
      else if (of_char a :: nat) < 224 then (case s of
          b # r \<Rightarrow> escape_point (of_char a mod 32 * 64 + cont b) @ json_chars r | _ \<Rightarrow> [])
      else if (of_char a :: nat) < 240 then (case s of
          b # c # r \<Rightarrow> escape_point (of_char a mod 16 * 4096 + cont b * 64 + cont c) @ json_chars r
        | _ \<Rightarrow> [])
      else (case s of
          b # c # d # r \<Rightarrow> escape_point (of_char a mod 8 * 262144 + cont b * 4096 + cont c * 64 + cont d)
            @ json_chars r
        | _ \<Rightarrow> []))"

definition json_string :: "string \<Rightarrow> string" where
  "json_string s = CHR 0x22 # json_chars s @ [CHR 0x22]"

text \<open>A text with commas between the items.\<close>

fun commas :: "string list \<Rightarrow> string" where
  "commas [] = []"
| "commas [x] = x"
| "commas (x # y # zs) = x @ '','' @ commas (y # zs)"

text \<open>
  \<open>json.dumps(value, sort_keys=True, separators=(",", ":"))\<close> on the values the contracts build;
  floats do not occur in them.
\<close>

fun dumps :: "json \<Rightarrow> string" where
  "dumps JNull = ''null''"
| "dumps (JBool b) = (if b then ''true'' else ''false'')"
| "dumps (JInt i) = show_int i"
| "dumps (JStr s) = json_string s"
| "dumps (JList xs) = ''['' @ commas (map dumps xs) @ '']''"
| "dumps (JObj kvs) = ''{'' @
     commas (map (\<lambda>(k, t). json_string k @ '':'' @ t)
       (sort_key fst (map (\<lambda>(k, v). (k, dumps v)) kvs))) @ ''}''"
| "dumps (JNum r) = []"
| "dumps (JId i) = []"

section \<open>Identities and keys\<close>

definition PROTOCOL_VERSION :: int where
  "PROTOCOL_VERSION = 1"

definition require_hash :: "string \<Rightarrow> string \<Rightarrow> store_error + unit" where
  "require_hash v field = ensure (hex_text 64 v)
     (BadValue (field @ '' must be a lowercase SHA-256 hex digest''))"

text \<open>\<open>[1-9A-HJ-NP-Za-km-z]\<close>.\<close>

definition base58_char :: "char \<Rightarrow> bool" where
  "base58_char c \<longleftrightarrow> (let n = (of_char c :: nat) in
     (49 \<le> n \<and> n \<le> 57) \<or> (65 \<le> n \<and> n \<le> 72) \<or> (74 \<le> n \<and> n \<le> 78) \<or> (80 \<le> n \<and> n \<le> 90) \<or>
     (97 \<le> n \<and> n \<le> 107) \<or> (109 \<le> n \<and> n \<le> 122))"

definition require_ss58 :: "string \<Rightarrow> string \<Rightarrow> store_error + unit" where
  "require_ss58 v field = ensure (40 \<le> length v \<and> length v \<le> 64 \<and> list_all base58_char v)
     (BadValue (field @ '' is not a canonical SS58-like identifier''))"

text \<open>\<open>len\<close> of a text counts its characters, not the continuation bytes.\<close>

definition text_length :: "string \<Rightarrow> nat" where
  "text_length s = length (filter (\<lambda>c. \<not> (128 \<le> (of_char c :: nat) \<and> (of_char c :: nat) < 192)) s)"

definition require_chain_generation :: "string \<Rightarrow> store_error + unit" where
  "require_chain_generation v = ensure (v \<noteq> [] \<and> CHR 0x7C \<notin> set v \<and> text_length v \<le> 128)
     (BadValue ''chain_generation must be non-empty and delimiter-safe'')"

definition registration_body :: "int \<Rightarrow> string \<Rightarrow> string \<Rightarrow> string" where
  "registration_body netuid hotkey generation = ''albedo-registration-v1'' @ [CHR 0x00] @
     dumps (JObj [(''chain_generation'', JStr generation), (''hotkey'', JStr hotkey),
       (''netuid'', JInt netuid)])"

definition registration_id ::
  "(string \<Rightarrow> string) \<Rightarrow> int \<Rightarrow> string \<Rightarrow> string \<Rightarrow> store_error + string" where
  "registration_id sha netuid hotkey generation =
     and_then (ensure (0 \<le> netuid) (BadValue ''netuid must be non-negative'')) (\<lambda>_.
     and_then (require_ss58 hotkey ''hotkey'') (\<lambda>_.
     and_then (require_chain_generation generation) (\<lambda>_.
     Inr (sha (registration_body netuid hotkey generation)))))"

definition first_root :: string where
  "first_root = ''models/registrations/''"

definition retry_root :: string where
  "retry_root = ''models/attempts/''"

definition model_prefix :: "string \<Rightarrow> nat \<Rightarrow> store_error + string" where
  "model_prefix rid attempt =
     and_then (require_hash rid ''registration_id'') (\<lambda>_.
     if attempt < 1 then Inl (BadValue ''upload attempt must start at one'')
     else if attempt = 1 then Inr (first_root @ rid @ ''/'')
     else Inr (retry_root @ rid @ ''/a'' @ show_nat attempt @ ''/''))"

text \<open>\<open>[2-9]|[1-9][0-9]+\<close>: the decimal text of a number from 2.\<close>

definition retry_digits :: "string \<Rightarrow> bool" where
  "retry_digits s \<longleftrightarrow> list_all is_digit s \<and> (case s of [] \<Rightarrow> False
     | [c] \<Rightarrow> c \<noteq> CHR ''0'' \<and> c \<noteq> CHR ''1'' | c # _ \<Rightarrow> c \<noteq> CHR ''0'')"

definition match_first :: "string \<Rightarrow> string option" where
  "match_first p = (let r = drop (length first_root) p in
     if starts_with first_root p \<and> hex_text 64 (take 64 r) \<and> drop 64 r = ''/''
     then Some (take 64 r) else None)"

definition match_retry :: "string \<Rightarrow> (string \<times> nat) option" where
  "match_retry p = (let r = drop (length retry_root) p; t = drop 66 r in
     if starts_with retry_root p \<and> hex_text 64 (take 64 r) \<and> take 2 (drop 64 r) = ''/a'' \<and>
        t \<noteq> [] \<and> last t = CHR ''/'' \<and> retry_digits (butlast t)
     then Some (take 64 r, read_nat (butlast t)) else None)"

definition canonical_model_prefix :: "string \<Rightarrow> bool" where
  "canonical_model_prefix p \<longleftrightarrow> match_first p \<noteq> None \<or> match_retry p \<noteq> None"

definition parse_model_prefix :: "string \<Rightarrow> store_error + string \<times> nat" where
  "parse_model_prefix p = (case match_first p of
     Some rid \<Rightarrow> Inr (rid, 1)
   | None \<Rightarrow> (case match_retry p of
       Some (rid, n) \<Rightarrow> Inr (rid, n)
     | None \<Rightarrow> Inl (BadValue (''not a canonical model prefix: '' @ p))))"

definition mailbox_status_key :: "string \<Rightarrow> store_error + string" where
  "mailbox_status_key rid = and_then (require_hash rid ''registration_id'')
     (\<lambda>_. Inr (''mailbox/v1/'' @ rid @ ''/status.json''))"

text \<open>\<open>{n:020d}\<close>.\<close>

definition pad20 :: "string \<Rightarrow> string" where
  "pad20 s = replicate (20 - length s) (CHR ''0'') @ s"

definition mailbox_object_key :: "string \<Rightarrow> nat \<Rightarrow> store_error + string" where
  "mailbox_object_key rid generation = and_then (require_hash rid ''registration_id'') (\<lambda>_.
     if generation < 1 then Inl (BadValue ''credential generation must start at one'')
     else Inr (''mailbox/v1/'' @ rid @ ''/generations/'' @ pad20 (show_nat generation) @ ''.bin''))"

section \<open>Signals on the chain\<close>

definition base64_digit :: "nat \<Rightarrow> char" where
  "base64_digit n = (if n < 26 then char_of (65 + n) else if n < 52 then char_of (71 + n)
     else if n < 62 then char_of (n - 4) else if n = 62 then CHR ''-'' else CHR ''_'')"

definition base64_char :: "char \<Rightarrow> bool" where
  "base64_char c \<longleftrightarrow> (let n = (of_char c :: nat) in (65 \<le> n \<and> n \<le> 90) \<or> (97 \<le> n \<and> n \<le> 122) \<or>
     (48 \<le> n \<and> n \<le> 57) \<or> n = 45 \<or> n = 95)"

definition base64_value :: "char \<Rightarrow> nat" where
  "base64_value c = (let n = (of_char c :: nat) in
     if 65 \<le> n \<and> n \<le> 90 then n - 65 else if 97 \<le> n \<and> n \<le> 122 then n - 71
     else if 48 \<le> n \<and> n \<le> 57 then n + 4 else if n = 45 then 62 else 63)"

text \<open>\<open>urlsafe_b64encode\<close> without its padding, and \<open>urlsafe_b64decode\<close>, which drops spare bits.\<close>

fun b64encode :: "string \<Rightarrow> string" where
  "b64encode [] = []"
| "b64encode [a] = (let x = (of_char a :: nat) in
     [base64_digit (x div 4), base64_digit (x mod 4 * 16)])"
| "b64encode [a, b] = (let x = of_char a; y = (of_char b :: nat) in
     [base64_digit (x div 4), base64_digit (x mod 4 * 16 + y div 16), base64_digit (y mod 16 * 4)])"
| "b64encode (a # b # c # s) = (let x = of_char a; y = of_char b; z = (of_char c :: nat) in
     [base64_digit (x div 4), base64_digit (x mod 4 * 16 + y div 16),
      base64_digit (y mod 16 * 4 + z div 64), base64_digit (z mod 64)] @ b64encode s)"

fun b64decode :: "string \<Rightarrow> string" where
  "b64decode (a # b # c # d # s) = (let w = base64_value a; x = base64_value b;
       y = base64_value c; z = base64_value d in
     [char_of (w * 4 + x div 16), char_of (x mod 16 * 16 + y div 4),
      char_of (y mod 4 * 64 + z)] @ b64decode s)"
| "b64decode [a, b, c] = (let w = base64_value a; x = base64_value b; y = base64_value c in
     [char_of (w * 4 + x div 16), char_of (x mod 16 * 16 + y div 4)])"
| "b64decode [a, b] = [char_of (base64_value a * 4 + base64_value b div 16)]"
| "b64decode s = []"

definition activation_signal_payload :: "string \<Rightarrow> store_error + string" where
  "activation_signal_payload pubkey =
     (if length pubkey \<noteq> 32
      then Inl (BadValue ''submission public key must contain 32 bytes (Ed25519)'')
      else Inr (''r2activate:v1:'' @ b64encode pubkey))"

definition parse_activation_pubkey :: "string \<Rightarrow> store_error + string" where
  "parse_activation_pubkey payload = (let r = drop 14 payload in
     if \<not> (starts_with ''r2activate:v1:'' payload \<and> length r = 43 \<and> list_all base64_char r)
     then Inl (BadValue ''activation signal is not a valid r2activate:v1 commitment'')
     else if length (b64decode r) \<noteq> 32
     then Inl (BadValue ''activation signal must carry a 32-byte Ed25519 public key'')
     else Inr (b64decode r))"

definition ready_signal_payload :: "string \<Rightarrow> store_error + string" where
  "ready_signal_payload m = and_then (require_hash m ''manifest_sha256'')
     (\<lambda>_. Inr (''r2ready:v1:'' @ m))"

definition parse_ready_signal :: "string \<Rightarrow> store_error + string" where
  "parse_ready_signal payload =
     (if starts_with ''r2ready:v1:'' payload \<and> hex_text 64 (drop 11 payload) then Inr (drop 11 payload)
      else Inl (BadValue ''ready signal is not a valid r2ready:v1 commitment''))"

section \<open>The digest of an inventory\<close>

definition hex_val :: "char \<Rightarrow> nat" where
  "hex_val c = (if is_digit c then digit_val c else of_char c - 87)"

text \<open>\<open>bytes.fromhex\<close> on a text of hex digits.\<close>

fun unhex :: "string \<Rightarrow> string" where
  "unhex (a # b # s) = char_of (hex_val a * 16 + hex_val b) # unhex s"
| "unhex s = []"

definition normal_digest :: "string \<Rightarrow> string" where
  "normal_digest d = removeprefix ''sha256:'' (lower d)"

definition inventory_row :: "string \<Rightarrow> int \<Rightarrow> string \<Rightarrow> string" where
  "inventory_row path n d =
     path @ [CHR 0x00] @ show_int n @ [CHR 0x00] @ unhex (normal_digest d)"

text \<open>The loop over the sorted files: what it feeds to the hash, or the first error.\<close>

fun inventory_input :: "(string \<times> int \<times> string) list \<Rightarrow> string list \<Rightarrow> store_error + string" where
  "inventory_input [] seen = Inr []"
| "inventory_input ((path, n, d) # files) seen =
     (if path \<in> set seen then Inl (Integrity (''duplicate model inventory path: '' @ path))
      else if \<not> hex_text 64 (normal_digest d)
      then Inl (Integrity (''invalid SHA-256 for model inventory path: '' @ path))
      else and_then (inventory_input files (path # seen))
        (\<lambda>rest. Inr (inventory_row path n d @ rest)))"

definition model_digest_from_inventory ::
  "(string \<Rightarrow> string) \<Rightarrow> (string \<times> int \<times> string) list \<Rightarrow> store_error + string" where
  "model_digest_from_inventory sha files =
     (if files = [] then Inl (Integrity ''immutable model inventory contains no model files'')
      else and_then (inventory_input (sort files) []) (\<lambda>text. Inr (sha text)))"

section \<open>Manifests\<close>

record manifest_file =
  mf_path :: string
  mf_size :: int
  mf_sha256 :: string

record manifest =
  mn_registration_id :: string
  mn_hotkey :: string
  mn_model_name :: string
  mn_files :: "manifest_file list"
  mn_model_digest :: string
  mn_signature :: string

text \<open>
  \<open>PurePosixPath(path)\<close>: the parts of a path are its components but the empty ones and \<open>.\<close>; its text
  joins them again, and is \<open>.\<close> without any. Absolute paths are refused before their text is compared.
\<close>

fun join_with :: "char \<Rightarrow> string list \<Rightarrow> string" where
  "join_with c [] = []"
| "join_with c [s] = s"
| "join_with c (s # t # ts) = s @ [c] @ join_with c (t # ts)"

definition path_parts :: "string \<Rightarrow> string list" where
  "path_parts p = filter (\<lambda>s. s \<noteq> [] \<and> s \<noteq> ''.'') (split_on (CHR ''/'') p)"

definition path_text :: "string \<Rightarrow> string" where
  "path_text p = (if path_parts p = [] then ''.'' else join_with (CHR ''/'') (path_parts p))"

definition safe_path :: "string \<Rightarrow> bool" where
  "safe_path p \<longleftrightarrow> \<not> starts_with ''/'' p \<and> ''..'' \<notin> set (path_parts p) \<and> path_text p = p"

text \<open>A value of the type a field requires, or the error its check raises; a bool is no size.\<close>

fun text_where :: "(string \<Rightarrow> bool) \<Rightarrow> string \<Rightarrow> json \<Rightarrow> store_error + string" where
  "text_where p msg (JStr s) = (if p s then Inr s else Inl (BadValue msg))"
| "text_where p msg _ = Inl (BadValue msg)"

fun list_where :: "string \<Rightarrow> json \<Rightarrow> store_error + json list" where
  "list_where msg (JList xs) = Inr xs"
| "list_where msg _ = Inl (BadValue msg)"

fun int_where :: "(int \<Rightarrow> bool) \<Rightarrow> string \<Rightarrow> json \<Rightarrow> store_error + int" where
  "int_where p msg (JInt n) = (if p n then Inr n else Inl (BadValue msg))"
| "int_where p msg _ = Inl (BadValue msg)"

definition manifest_file_of :: "json \<Rightarrow> store_error + manifest_file" where
  "manifest_file_of v = (case v of JObj kvs \<Rightarrow>
     and_then (ensure (set (map fst kvs) = {''path'', ''size'', ''sha256''})
       (BadValue ''manifest file entries require exactly path, size, and sha256'')) (\<lambda>_.
     and_then (text_where (\<lambda>p. p \<noteq> [] \<and> p \<noteq> ''manifest.json'') ''manifest file path is invalid''
         (jget ''path'' v)) (\<lambda>path.
     and_then (ensure (safe_path path) (BadValue (''unsafe manifest path: '' @ path))) (\<lambda>_.
     and_then (int_where (\<lambda>n. 0 \<le> n) (''manifest size is invalid for '' @ path) (jget ''size'' v)) (\<lambda>n.
     and_then (text_where (hex_text 64) (''manifest SHA-256 is invalid for '' @ path)
         (jget ''sha256'' v)) (\<lambda>d.
     Inr \<lparr>mf_path = path, mf_size = n, mf_sha256 = d\<rparr>)))))
   | _ \<Rightarrow> Inl (BadValue ''manifest file entries require exactly path, size, and sha256''))"

fun manifest_files_of :: "json list \<Rightarrow> store_error + manifest_file list" where
  "manifest_files_of [] = Inr []"
| "manifest_files_of (v # vs) = and_then (manifest_file_of v)
     (\<lambda>f. and_then (manifest_files_of vs) (\<lambda>fs. Inr (f # fs)))"

text \<open>\<open>v == 1\<close>: Python's True and 1.0 equal 1.\<close>

fun equals_one :: "json \<Rightarrow> bool" where
  "equals_one (JInt i) = (i = 1)"
| "equals_one (JBool b) = b"
| "equals_one (JNum r) = (r = 1)"
| "equals_one _ = False"

definition required_fields :: "string set" where
  "required_fields = {''protocol_version'', ''signature_scheme'', ''registration_id'', ''hotkey'',
     ''model_name'', ''files'', ''model_digest'', ''signature''}"

definition inventory_of :: "manifest_file list \<Rightarrow> (string \<times> int \<times> string) list" where
  "inventory_of fs = map (\<lambda>f. (mf_path f, mf_size f, mf_sha256 f)) fs"

lemma text_where_Inr [simp]: "text_where p msg v = Inr s \<longleftrightarrow> v = JStr s \<and> p s"
  by (cases v) auto

lemma list_where_Inr [simp]: "list_where msg v = Inr xs \<longleftrightarrow> v = JList xs"
  by (cases v) auto

lemma int_where_Inr [simp]: "int_where p msg v = Inr n \<longleftrightarrow> v = JInt n \<and> p n"
  by (cases v) auto

text \<open>\<open>except ArtifactIntegrityError as exc: raise ValueError(str(exc))\<close>.\<close>

abbreviation as_value_error :: "store_error + 'a \<Rightarrow> store_error + 'a" where
  "as_value_error \<equiv> retell (\<lambda>e. BadValue (error_message e))"

text \<open>The message lists the unknown fields sorted; the model names none.\<close>

definition manifest_of_value :: "(string \<Rightarrow> string) \<Rightarrow> json \<Rightarrow> store_error + manifest" where
  "manifest_of_value sha v = (case v of JObj kvs \<Rightarrow>
     and_then (ensure (set (map fst kvs) = required_fields)
       (BadValue ''manifest fields differ from v1 contract'')) (\<lambda>_.
     and_then (ensure (equals_one (jget ''protocol_version'' v) \<and>
         jget ''signature_scheme'' v = JStr ''ed25519'')
       (BadValue ''manifest requires protocol v1 with Ed25519'')) (\<lambda>_.
     and_then (text_where (hex_text 64) ''manifest registration_id is invalid''
         (jget ''registration_id'' v)) (\<lambda>rid.
     and_then (text_where (\<lambda>s. s \<noteq> []) ''manifest hotkey is required'' (jget ''hotkey'' v)) (\<lambda>hotkey.
     and_then (text_where (\<lambda>s. strip s \<noteq> []) ''manifest model_name is required''
         (jget ''model_name'' v)) (\<lambda>name.
     and_then (list_where ''manifest files must be an array'' (jget ''files'' v)) (\<lambda>items.
     and_then (manifest_files_of items) (\<lambda>files.
     and_then (ensure (files \<noteq> [] \<and> distinct (map mf_path files))
       (BadValue ''manifest must contain a non-empty unique file inventory'')) (\<lambda>_.
     and_then (text_where (hex_text 64) ''manifest model_digest is invalid''
         (jget ''model_digest'' v)) (\<lambda>digest.
     and_then (as_value_error (model_digest_from_inventory sha (inventory_of files))) (\<lambda>observed.
     and_then (ensure (observed = digest)
       (BadValue ''manifest model_digest does not match its file inventory'')) (\<lambda>_.
     and_then (text_where (\<lambda>s. s \<noteq> []) ''manifest signature is required'' (jget ''signature'' v)) (\<lambda>sig.
     Inr \<lparr>mn_registration_id = rid, mn_hotkey = hotkey, mn_model_name = strip name,
       mn_files = files, mn_model_digest = digest, mn_signature = sig\<rparr>))))))))))))
   | _ \<Rightarrow> Inl (BadValue ''manifest must be an object''))"

text \<open>\<open>loads\<close> is \<open>json.loads\<close>: None when it raises.\<close>

definition manifest_from_bytes ::
  "(string \<Rightarrow> json option) \<Rightarrow> (string \<Rightarrow> string) \<Rightarrow> string \<Rightarrow> store_error + manifest" where
  "manifest_from_bytes loads sha raw = (case loads raw of
     None \<Rightarrow> Inl (BadValue ''manifest is not valid UTF-8 JSON'')
   | Some v \<Rightarrow> manifest_of_value sha v)"

definition file_json :: "manifest_file \<Rightarrow> json" where
  "file_json f = JObj [(''path'', JStr (mf_path f)), (''sha256'', JStr (mf_sha256 f)),
     (''size'', JInt (mf_size f))]"

definition signed_fields :: "manifest \<Rightarrow> (string \<times> json) list" where
  "signed_fields m = [(''files'', JList (map file_json (mn_files m))), (''hotkey'', JStr (mn_hotkey m)),
     (''model_digest'', JStr (mn_model_digest m)), (''model_name'', JStr (mn_model_name m)),
     (''protocol_version'', JInt PROTOCOL_VERSION),
     (''registration_id'', JStr (mn_registration_id m)), (''signature_scheme'', JStr ''ed25519'')]"

definition signing_payload :: "manifest \<Rightarrow> string" where
  "signing_payload m = dumps (JObj (signed_fields m))"

text \<open>\<open>json.loads\<close> of the payload gives back the dict it was printed from.\<close>

definition as_dict :: "manifest \<Rightarrow> json" where
  "as_dict m = JObj (signed_fields m @ [(''signature'', JStr (mn_signature m))])"

definition as_bytes :: "manifest \<Rightarrow> string" where
  "as_bytes m = dumps (as_dict m)"

definition manifest_sha256 :: "(string \<Rightarrow> string) \<Rightarrow> manifest \<Rightarrow> string" where
  "manifest_sha256 sha m = sha (as_bytes m)"

section \<open>Prefixes name one attempt\<close>

lemma starts_with_iff: "starts_with p s \<longleftrightarrow> (\<exists>r. s = p @ r)"
proof
  assume "starts_with p s"
  then have "s = p @ drop (length p) s"
    unfolding starts_with_def by (metis append_take_drop_id)
  then show "\<exists>r. s = p @ r" ..
qed auto

lemma digit_char_val_inverse: "is_digit c \<Longrightarrow> digit_char (digit_val c) = c"
  by (simp add: is_digit_def digit_char_def digit_val_def)

lemma digit_val_less: "is_digit c \<Longrightarrow> digit_val c < 10"
  unfolding is_digit_def digit_val_def by linarith

lemma digit_char_01: "digit_char 0 = CHR ''0''" "digit_char 1 = CHR ''1''" "digit_char (Suc 0) = CHR ''1''"
  by code_simp+

lemma read_nat_positive:
  assumes "list_all is_digit s" "s \<noteq> []" "hd s \<noteq> CHR ''0''"
  shows "0 < read_nat s"
  using assms
proof (induction s rule: rev_induct)
  case Nil
  then show ?case by simp
next
  case (snoc c s)
  show ?case
  proof (cases "s = []")
    case True
    have "digit_val c \<noteq> 0"
    proof
      assume "digit_val c = 0"
      with digit_char_val_inverse [of c] snoc.prems True show False by (simp add: digit_char_01)
    qed
    with True show ?thesis by (simp add: read_nat_def)
  next
    case False
    with snoc show ?thesis by (simp add: read_nat_snoc)
  qed
qed

lemma show_read_nat:
  assumes "list_all is_digit s" "s \<noteq> []" "hd s \<noteq> CHR ''0''"
  shows "show_nat (read_nat s) = s"
  using assms
proof (induction s rule: rev_induct)
  case Nil
  then show ?case by simp
next
  case (snoc c s)
  then have c: "is_digit c" by simp
  show ?case
  proof (cases "s = []")
    case True
    with c show ?thesis
      by (simp add: read_nat_def show_nat.simps digit_val_less digit_char_val_inverse)
  next
    case False
    then have "0 < read_nat s" using snoc.prems by (auto intro!: read_nat_positive)
    then show ?thesis
      using snoc False c
      by (simp add: read_nat_snoc show_nat.simps [of "10 * _ + _"] digit_val_less digit_char_val_inverse)
  qed
qed

lemma hd_show_nat: "0 < n \<Longrightarrow> hd (show_nat n) \<noteq> CHR ''0''"
proof (induction n rule: show_nat.induct)
  case (1 n)
  show ?case
  proof (cases "n < 10")
    case True
    with "1.prems" show ?thesis
      by (auto simp: show_nat.simps [of n] digit_char_def dest: arg_cong [of _ _ "of_char :: char \<Rightarrow> nat"])
  next
    case False
    with "1" show ?thesis by (simp add: show_nat.simps [of n] hd_append show_nat_nonempty)
  qed
qed

lemma retry_digits_iff: "retry_digits s \<longleftrightarrow> (\<exists>n \<ge> 2. s = show_nat n)"
proof
  assume s: "retry_digits s"
  then have *: "list_all is_digit s" "s \<noteq> []" "hd s \<noteq> CHR ''0''"
    by (auto simp: retry_digits_def split: list.splits)
  have "read_nat s \<noteq> 1"
  proof
    assume "read_nat s = 1"
    with show_read_nat [OF *] have "s = [CHR ''1'']"
      by (simp add: show_nat.simps digit_char_01)
    with s show False by (simp add: retry_digits_def)
  qed
  with read_nat_positive [OF *] have "2 \<le> read_nat s" by simp
  with show_read_nat [OF *] show "\<exists>n \<ge> 2. s = show_nat n" by (intro exI [of _ "read_nat s"]) simp
next
  assume "\<exists>n \<ge> 2. s = show_nat n"
  then obtain n where n: "2 \<le> n" "s = show_nat n" by blast
  have "list_all is_digit s" using n show_nat_digits by (auto simp: list_all_iff)
  moreover have "s \<noteq> []" "hd s \<noteq> CHR ''0''" using n hd_show_nat show_nat_nonempty by auto
  moreover have "s \<noteq> [CHR ''1'']"
  proof
    assume "s = [CHR ''1'']"
    then have "read_nat s = 1" by (simp add: read_nat_def digit_val_def)
    with n read_show_nat [of n] show False by simp
  qed
  ultimately show "retry_digits s" by (auto simp: retry_digits_def split: list.splits)
qed

lemma match_first_iff:
  "match_first p = Some rid \<longleftrightarrow> hex_text 64 rid \<and> p = first_root @ rid @ ''/''"
proof
  assume "match_first p = Some rid"
  then show "hex_text 64 rid \<and> p = first_root @ rid @ ''/''"
    by (auto simp: match_first_def Let_def starts_with_iff split: if_splits)
       (metis append_take_drop_id)
qed (auto simp: match_first_def Let_def hex_text_def)

lemma match_retry_iff:
  "match_retry p = Some (rid, n) \<longleftrightarrow>
     hex_text 64 rid \<and> 2 \<le> n \<and> p = retry_root @ rid @ ''/a'' @ show_nat n @ ''/''"
proof
  assume m: "match_retry p = Some (rid, n)"
  then obtain r where p: "p = retry_root @ r" and rid: "rid = take 64 r" "hex_text 64 rid"
    and a: "take 2 (drop 64 r) = ''/a''" and t: "drop 66 r \<noteq> []" "last (drop 66 r) = CHR ''/''"
      "retry_digits (butlast (drop 66 r))" "n = read_nat (butlast (drop 66 r))"
    by (auto simp: match_retry_def Let_def starts_with_iff split: if_splits)
  obtain k where k: "2 \<le> k" "butlast (drop 66 r) = show_nat k" using t(3) retry_digits_iff by blast
  then have "n = k" using t(4) by (simp add: read_show_nat)
  moreover have "drop 66 r = show_nat k @ ''/''" using t(1,2) k(2) by (metis append_butlast_last_id)
  moreover have "r = take 64 r @ take 2 (drop 64 r) @ drop 2 (drop 64 r)" by (simp only: append_take_drop_id)
  then have "r = take 64 r @ take 2 (drop 64 r) @ drop 66 r" by simp
  ultimately show "hex_text 64 rid \<and> 2 \<le> n \<and> p = retry_root @ rid @ ''/a'' @ show_nat n @ ''/''"
    using p rid a k(1) by (metis append_assoc)
next
  assume "hex_text 64 rid \<and> 2 \<le> n \<and> p = retry_root @ rid @ ''/a'' @ show_nat n @ ''/''"
  moreover from this have "retry_digits (show_nat n)" using retry_digits_iff by blast
  ultimately show "match_retry p = Some (rid, n)"
    by (simp add: match_retry_def Let_def hex_text_def read_show_nat butlast_append)
qed

lemma parse_model_prefix_iff:
  "parse_model_prefix p = Inr (rid, n) \<longleftrightarrow> model_prefix rid n = Inr p"
proof -
  have clash: "match_first p = None" if "match_retry p = Some x" for x
    using that by (cases x) (simp add: match_retry_iff match_first_def starts_with_def retry_root_def first_root_def)
  have "model_prefix rid n = Inr p \<longleftrightarrow> (n = 1 \<and> match_first p = Some rid) \<or> match_retry p = Some (rid, n)"
    by (auto simp: model_prefix_def require_hash_def match_first_iff match_retry_iff)
  moreover have "parse_model_prefix p = Inr (rid, n) \<longleftrightarrow>
      (n = 1 \<and> match_first p = Some rid) \<or> match_retry p = Some (rid, n)"
    using clash by (auto simp: parse_model_prefix_def split: option.splits)
  ultimately show ?thesis by simp
qed

lemma model_prefix_Inr:
  "model_prefix rid n = Inr p \<longleftrightarrow> hex_text 64 rid \<and> (if n = 1 then p = first_root @ rid @ ''/''
     else 2 \<le> n \<and> p = retry_root @ rid @ ''/a'' @ show_nat n @ ''/'')"
  by (auto simp: model_prefix_def require_hash_def)

lemma digits_then_slash:
  assumes "show_nat m @ ''/'' @ a = show_nat n @ ''/'' @ b"
  shows "m = n"
proof -
  have "takeWhile is_digit (show_nat k @ ''/'' @ c) = show_nat k" for k c
    using show_nat_digits [of _ k] by (simp add: takeWhile_append is_digit_def)
  with assms have "show_nat m = show_nat n" by metis
  then show ?thesis by (simp add: show_nat_inj)
qed

lemma model_prefixes_disjoint:
  assumes "model_prefix r m = Inr p" and "model_prefix s n = Inr q" and "p @ a = q @ b"
  shows "r = s \<and> m = n"
proof -
  have len: "length r = 64" "length s = 64" using assms(1,2) by (auto simp: model_prefix_Inr hex_text_def)
  have roots: "first_root @ x \<noteq> retry_root @ y" for x y by (simp add: first_root_def retry_root_def)
  consider "m = 1" "n = 1" | "m \<noteq> 1" "n \<noteq> 1" | "m = 1 \<longleftrightarrow> n \<noteq> 1" by blast
  then show ?thesis
  proof cases
    case 1
    then show ?thesis using assms len by (simp add: model_prefix_Inr)
  next
    case 2
    then have *: "r @ ''/a'' @ show_nat m @ ''/'' @ a = s @ ''/a'' @ show_nat n @ ''/'' @ b"
      using assms by (simp add: model_prefix_Inr)
    then have "r = s" "show_nat m @ ''/'' @ a = show_nat n @ ''/'' @ b" using len by auto
    then show ?thesis using digits_then_slash by blast
  next
    case 3
    then show ?thesis using assms roots roots [symmetric] by (auto simp: model_prefix_Inr split: if_splits)
  qed
qed

text \<open>
  A prefix parses to a registration and an attempt exactly when it is the prefix of that attempt,
  and an object key lies under the prefix of one attempt only.
\<close>

theorem model_prefix_roundtrip:
  assumes "model_prefix r m = Inr p"
  shows "(parse_model_prefix q = Inr (s, n) \<longleftrightarrow> model_prefix s n = Inr q) \<and> parse_model_prefix p = Inr (r, m) \<and>
    (model_prefix s n = Inr q \<and> starts_with p key \<and> starts_with q key \<longrightarrow> s = r \<and> n = m)"
proof (intro conjI impI)
  assume *: "model_prefix s n = Inr q \<and> starts_with p key \<and> starts_with q key"
  from * obtain a where a: "key = p @ a" unfolding starts_with_iff by blast
  from * obtain b where b: "key = q @ b" unfolding starts_with_iff by blast
  have "r = s \<and> m = n"
    by (rule model_prefixes_disjoint [OF assms conjunct1 [OF *] trans [OF a [symmetric] b]])
  then show "s = r" "n = m" by simp_all
qed (simp_all only: parse_model_prefix_iff assms)

section \<open>Signals\<close>

lemma base64_digit_char:
  "n < 64 \<Longrightarrow> base64_value (base64_digit n) = n" "n < 64 \<Longrightarrow> base64_char (base64_digit n)"
  by (auto simp: base64_value_def base64_digit_def base64_char_def Let_def)

lemma sextets:
  "of_char a div 4 < (64 :: nat)" "of_char a mod 4 * 16 + of_char b div 16 < (64 :: nat)"
  "of_char b mod 16 * 4 + of_char c div 64 < (64 :: nat)"
proof -
  have byte: "(of_char x :: nat) < 256" for x :: char by simp
  show "of_char a div 4 < (64 :: nat)" using byte [of a] by linarith
  show "of_char a mod 4 * 16 + of_char b div 16 < (64 :: nat)" using byte [of b] by linarith
  show "of_char b mod 16 * 4 + of_char c div 64 < (64 :: nat)" using byte [of c] by linarith
qed

lemma high_bits:
  "of_char b div 16 mod 16 = (of_char b div 16 :: nat)" "of_char c div 64 mod 4 = (of_char c div 64 :: nat)"
proof -
  have byte: "(of_char x :: nat) < 256" for x :: char by simp
  have "of_char b div 16 < (16 :: nat)" using byte [of b] by linarith
  then show "of_char b div 16 mod 16 = (of_char b div 16 :: nat)" by (rule mod_less)
  have "of_char c div 64 < (4 :: nat)" using byte [of c] by linarith
  then show "of_char c div 64 mod 4 = (of_char c div 64 :: nat)" by (rule mod_less)
qed

lemma div_mod_digits: "(b::nat) < k \<Longrightarrow> (a * k + b) div k = a" "(b::nat) < k \<Longrightarrow> (a * k + b) mod k = b"
  by simp_all

lemma b64_group:
  assumes "(y::nat) < 256" "(z::nat) < 256"
  shows "x div 4 * 4 + (x mod 4 * 16 + y div 16) div 16 = (x::nat)"
    "(x mod 4 * 16 + y div 16) mod 16 * 16 + (y mod 16 * 4 + z div 64) div 4 = y"
    "(y mod 16 * 4 + z div 64) mod 4 * 64 + z mod 64 = z"
proof -
  have "y div 16 < 16" "z div 64 < 4" using assms by (simp_all add: less_mult_imp_div_less)
  note * = div_mod_digits [OF this(1)] div_mod_digits [OF this(2)]
  show "x div 4 * 4 + (x mod 4 * 16 + y div 16) div 16 = x"
    "(x mod 4 * 16 + y div 16) mod 16 * 16 + (y mod 16 * 4 + z div 64) div 4 = y"
    "(y mod 16 * 4 + z div 64) mod 4 * 64 + z mod 64 = z"
    unfolding * by (rule div_mult_mod_eq)+
qed

lemma b64_round: "b64decode (b64encode s) = s \<and> list_all base64_char (b64encode s) \<and>
    3 * length (b64encode s) = 4 * length s + 2 * (length s mod 3 mod 2) + (length s mod 3 div 2)"
proof (induction s rule: b64encode.induct)
  case 1
  then show ?case by simp
next
  case (2 a)
  then show ?case
    using b64_group(1) [of 0 0 "of_char a"] sextets(1) [of a] by (simp add: Let_def base64_digit_char)
next
  case (3 a b)
  then show ?case
    using b64_group(1,2) [of "of_char b" 0 "of_char a"] sextets(1) [of a] sextets(2) [of a b]
    by (simp add: Let_def base64_digit_char high_bits)
next
  case (4 a b c s)
  then show ?case
    using b64_group(1,2) [of "of_char b" "of_char c" "of_char a"] b64_group(3) [of "of_char b" "of_char c"]
      sextets(1) [of a] sextets(2) [of a b] sextets(3) [of b c]
    by (simp add: Let_def base64_digit_char high_bits)
qed

text \<open>
  The key a miner puts on the chain is the key the controller reads back, and a ready signal
  carries the manifest's digest: encoding and parsing the signals are inverse.
\<close>

theorem signals_roundtrip:
  "(case activation_signal_payload k of Inl e \<Rightarrow> length k \<noteq> 32 | Inr p \<Rightarrow> parse_activation_pubkey p = Inr k) \<and>
   (parse_ready_signal p = Inr m \<longleftrightarrow> ready_signal_payload m = Inr p)"
proof
  have "parse_activation_pubkey (''r2activate:v1:'' @ b64encode k) = Inr k" if "length k = 32"
    using b64_round [of k] that by (simp add: parse_activation_pubkey_def starts_with_def Let_def)
  then show "case activation_signal_payload k of Inl e \<Rightarrow> length k \<noteq> 32 | Inr p \<Rightarrow> parse_activation_pubkey p = Inr k"
    by (simp add: activation_signal_payload_def)
  show "parse_ready_signal p = Inr m \<longleftrightarrow> ready_signal_payload m = Inr p"
    by (auto simp: parse_ready_signal_def ready_signal_payload_def require_hash_def starts_with_iff)
qed

section \<open>Manifests\<close>

lemma dropWhile_nonempty_head: "dropWhile p s \<noteq> [] \<Longrightarrow> \<not> p (hd (dropWhile p s))"
  by (rule hd_dropWhile)

lemma strip_strip [simp]: "strip (strip s) = strip s"
proof (cases "strip s = []")
  case True
  then show ?thesis unfolding True by (simp add: strip_def)
next
  case False
  define t where "t = dropWhile is_space s"
  define u where "u = rev (dropWhile is_space (rev t))"
  have u: "strip s = u" by (simp add: strip_def t_def u_def)
  have "rev t = takeWhile is_space (rev t) @ dropWhile is_space (rev t)" by simp
  then have t: "t = u @ rev (takeWhile is_space (rev t))" unfolding u_def by (metis rev_append rev_rev_ident)
  have "u \<noteq> []" using False u by simp
  then have "hd u = hd t" using t by (metis hd_append2)
  moreover have "t \<noteq> []" using \<open>u \<noteq> []\<close> by (auto simp: u_def)
  then have "\<not> is_space (hd t)" unfolding t_def by (rule hd_dropWhile)
  ultimately have "dropWhile is_space u = u" using \<open>u \<noteq> []\<close> by (cases u) auto
  moreover have "dropWhile is_space (rev u) = rev u" by (simp add: u_def)
  ultimately show ?thesis unfolding u by (simp add: strip_def)
qed

definition file_ok :: "manifest_file \<Rightarrow> bool" where
  "file_ok f \<longleftrightarrow> mf_path f \<noteq> [] \<and> mf_path f \<noteq> ''manifest.json'' \<and> safe_path (mf_path f) \<and>
     0 \<le> mf_size f \<and> hex_text 64 (mf_sha256 f)"

definition manifest_ok :: "(string \<Rightarrow> string) \<Rightarrow> manifest \<Rightarrow> bool" where
  "manifest_ok sha m \<longleftrightarrow> hex_text 64 (mn_registration_id m) \<and> mn_hotkey m \<noteq> [] \<and>
     mn_model_name m \<noteq> [] \<and> strip (mn_model_name m) = mn_model_name m \<and> mn_files m \<noteq> [] \<and>
     distinct (map mf_path (mn_files m)) \<and> (\<forall>f \<in> set (mn_files m). file_ok f) \<and>
     hex_text 64 (mn_model_digest m) \<and>
     model_digest_from_inventory sha (inventory_of (mn_files m)) = Inr (mn_model_digest m) \<and>
     mn_signature m \<noteq> []"

lemma manifest_file_of_ok:
  assumes "manifest_file_of v = Inr f"
  shows "file_ok f"
proof -
  obtain kvs where v: "v = JObj kvs" using assms by (cases v) (simp_all add: manifest_file_of_def)
  obtain path n d where "path \<noteq> []" "path \<noteq> ''manifest.json''" "safe_path path" "0 \<le> n" "hex_text 64 d"
    and f: "\<lparr>mf_path = path, mf_size = n, mf_sha256 = d\<rparr> = f"
    using assms unfolding v manifest_file_of_def json.case and_then_Inr ensure_Inr text_where_Inr int_where_Inr
      sum.inject by (elim exE conjE)
  then show ?thesis by (simp add: file_ok_def flip: f)
qed

lemma manifest_files_of_ok: "manifest_files_of vs = Inr fs \<Longrightarrow> \<forall>f \<in> set fs. file_ok f"
  by (induction vs arbitrary: fs) (auto dest: manifest_file_of_ok)

lemma manifest_of_value_ok:
  assumes "manifest_of_value sha v = Inr m"
  shows "manifest_ok sha m"
proof -
  obtain kvs where v: "v = JObj kvs" using assms by (cases v) (simp_all add: manifest_of_value_def)
  show ?thesis
    using assms unfolding v manifest_of_value_def
    by (auto simp: manifest_ok_def simp del: jget.simps dest: manifest_files_of_ok)
qed

lemma manifest_file_round: "file_ok f \<Longrightarrow> manifest_file_of (file_json f) = Inr f"
  by (simp add: file_ok_def file_json_def manifest_file_of_def ensure_def insert_commute)

lemma manifest_files_round: "\<forall>f \<in> set fs. file_ok f \<Longrightarrow> manifest_files_of (map file_json fs) = Inr fs"
  by (induction fs) (auto simp: manifest_file_round)

lemma as_dict_keys: "set (map fst (signed_fields m @ [(''signature'', JStr (mn_signature m))])) = required_fields"
  by (auto simp: signed_fields_def required_fields_def)

lemma manifest_ok_round:
  assumes "manifest_ok sha m"
  shows "manifest_of_value sha (as_dict m) = Inr m"
proof -
  have files: "manifest_files_of (map file_json (mn_files m)) = Inr (mn_files m)"
    using assms by (intro manifest_files_round) (simp add: manifest_ok_def)
  have get: "jget ''protocol_version'' (as_dict m) = JInt 1" "jget ''signature_scheme'' (as_dict m) = JStr ''ed25519''"
    "jget ''registration_id'' (as_dict m) = JStr (mn_registration_id m)" "jget ''hotkey'' (as_dict m) = JStr (mn_hotkey m)"
    "jget ''model_name'' (as_dict m) = JStr (mn_model_name m)" "jget ''files'' (as_dict m) = JList (map file_json (mn_files m))"
    "jget ''model_digest'' (as_dict m) = JStr (mn_model_digest m)" "jget ''signature'' (as_dict m) = JStr (mn_signature m)"
    by (simp_all add: as_dict_def signed_fields_def PROTOCOL_VERSION_def)
  have shape: "as_dict m = JObj (signed_fields m @ [(''signature'', JStr (mn_signature m))])"
    by (simp add: as_dict_def)
  have keys: "set (map fst (signed_fields m @ [(''signature'', JStr (mn_signature m))])) = required_fields"
    by (rule as_dict_keys)
  show ?thesis
    unfolding manifest_of_value_def shape json.case keys
    using assms by (simp add: get [unfolded shape] files manifest_ok_def retell_def ensure_def del: jget.simps)
qed

text \<open>
  A manifest that is accepted is accepted again, as the same manifest, when the controller prints
  its canonical form: nothing it keeps can fail the checks.
\<close>

theorem manifest_reprint:
  assumes "manifest_of_value sha v = Inr m"
  shows "manifest_of_value sha (as_dict m) = Inr m"
  using manifest_ok_round [OF manifest_of_value_ok [OF assms]] .

section \<open>Paths stay under their prefix\<close>

lemma split_on_append:
  "c \<notin> set s \<Longrightarrow> split_on c (s @ t) = (case split_on c t of [] \<Rightarrow> [s] | y # ys \<Rightarrow> (s @ y) # ys)"
  by (induction s) (auto split: list.splits)

lemma split_on_parts: "p \<in> set (split_on c s) \<Longrightarrow> c \<notin> set p"
  by (induction c s arbitrary: p rule: split_on.induct) (auto split: if_splits list.splits)

lemma split_join: "ss \<noteq> [] \<Longrightarrow> \<forall>s \<in> set ss. c \<notin> set s \<Longrightarrow> split_on c (join_with c ss) = ss"
proof (induction c ss rule: join_with.induct)
  case (2 c s)
  then show ?case using split_on_append [of c s "[]"] by simp
next
  case (3 c s t ts)
  then show ?case using split_on_append [of c s "c # join_with c (t # ts)"] by simp
qed simp

text \<open>
  An accepted path has no empty component, no \<open>.\<close> and no \<open>..\<close>, and is not absolute, so that its
  object stays under the model's prefix; the single exception is the path \<open>.\<close> itself.
\<close>

lemma manifest_paths_stay_inside:
  assumes "manifest_of_value sha v = Inr m" and "f \<in> set (mn_files m)"
  shows "mf_path f = ''.'' \<or>
    (\<forall>s \<in> set (split_on (CHR ''/'') (mf_path f)). s \<noteq> [] \<and> s \<noteq> ''.'' \<and> s \<noteq> ''..'')"
proof -
  have safe: "safe_path (mf_path f)"
    using manifest_of_value_ok [OF assms(1)] assms(2) by (auto simp: manifest_ok_def file_ok_def)
  show ?thesis
  proof (cases "path_parts (mf_path f) = []")
    case True
    then show ?thesis using safe by (simp add: safe_path_def path_text_def)
  next
    case False
    have "CHR ''/'' \<notin> set s" if "s \<in> set (path_parts (mf_path f))" for s
      using that by (auto simp: path_parts_def dest: split_on_parts)
    then have "split_on (CHR ''/'') (path_text (mf_path f)) = path_parts (mf_path f)"
      using False by (simp add: path_text_def split_join)
    then have "split_on (CHR ''/'') (mf_path f) = path_parts (mf_path f)"
      using safe by (simp add: safe_path_def)
    then have "s \<in> set (path_parts (mf_path f))" if "s \<in> set (split_on (CHR ''/'') (mf_path f))" for s
      using that by simp
    moreover have "s \<noteq> [] \<and> s \<noteq> ''.''" if "s \<in> set (path_parts (mf_path f))" for s
      using that by (simp add: path_parts_def)
    moreover have "''..'' \<notin> set (path_parts (mf_path f))" using safe by (simp add: safe_path_def)
    ultimately show ?thesis by metis
  qed
qed

section \<open>What a digest covers\<close>

lemma hex_val_inj:
  assumes "hex_char a" "hex_char b" "hex_val a = hex_val b"
  shows "a = b"
proof -
  define x where "x = (of_char a :: nat)"
  define y where "y = (of_char b :: nat)"
  have "x = y"
    using assms unfolding hex_char_def hex_val_def is_digit_def digit_val_def
    by (fold x_def y_def) (auto split: if_splits)
  then show ?thesis by (simp add: x_def y_def)
qed

lemma hex_val_less: "hex_char a \<Longrightarrow> hex_val a < 16"
  by (auto simp: hex_char_def hex_val_def is_digit_def digit_val_def)

lemma byte_inj: "m < 256 \<Longrightarrow> n < 256 \<Longrightarrow> char_of m = char_of n \<Longrightarrow> m = (n :: nat)"
  by (metis mod_less of_char_of)

lemma hex_byte_inj:
  assumes "hex_char a" "hex_char b" "hex_char c" "hex_char d"
    and "(char_of (hex_val a * 16 + hex_val b) :: char) = char_of (hex_val c * 16 + hex_val d)"
  shows "a = c \<and> b = d"
proof -
  note less = assms(1-4) [THEN hex_val_less]
  have "hex_val a * 16 + hex_val b = hex_val c * 16 + hex_val d"
    using less by (intro byte_inj assms(5)) auto
  then have "hex_val a = hex_val c" "hex_val b = hex_val d" using less by (metis div_mod_digits)+
  then show ?thesis using assms hex_val_inj by blast
qed

lemma unhex_inj:
  "list_all hex_char s \<Longrightarrow> list_all hex_char t \<Longrightarrow> length s = length t \<Longrightarrow> even (length s) \<Longrightarrow>
     unhex s = unhex t \<Longrightarrow> s = t"
proof (induction s arbitrary: t rule: unhex.induct)
  case (1 a b s)
  obtain c d u where t: "t = c # d # u"
    using "1.prems"(3) by (metis length_Suc_conv length_Cons)
  have hex: "hex_char a" "hex_char b" "hex_char c" "hex_char d" "list_all hex_char s" "list_all hex_char u"
    "length s = length u" "even (length s)"
    using "1.prems"(1-4) by (simp_all add: t)
  have "(char_of (hex_val a * 16 + hex_val b) :: char) = char_of (hex_val c * 16 + hex_val d)" "unhex s = unhex u"
    using "1.prems"(5) by (simp_all add: t)
  then show ?case using hex_byte_inj [OF hex(1-4)] "1.IH" [OF hex(5-8)] by (simp add: t)
qed (simp, simp, presburger)

lemma length_unhex: "length (unhex s) = length s div 2"
  by (induction s rule: unhex.induct) auto

lemma lower_hex: "list_all hex_char s \<Longrightarrow> lower s = s"
  unfolding lower_def by (induction s) (auto simp: lower_char_def hex_char_def is_digit_def)

lemma normal_digest_hex: "hex_text 64 d \<Longrightarrow> normal_digest d = d"
proof -
  assume d: "hex_text 64 d"
  have "\<not> starts_with ''sha256:'' d"
  proof
    assume "starts_with ''sha256:'' d"
    then have "CHR ''s'' \<in> set d" by (auto simp: starts_with_iff)
    with d show False by (auto simp: hex_text_def list_all_iff hex_char_def is_digit_def)
  qed
  with d show ?thesis by (simp add: normal_digest_def lower_hex hex_text_def removeprefix_def)
qed

definition plain_row :: "string \<times> int \<times> string \<Rightarrow> bool" where
  "plain_row = (\<lambda>(path, n, d). CHR 0x00 \<notin> set path \<and> 0 \<le> n \<and> hex_text 64 d)"

lemma until_nul: "CHR 0x00 \<notin> set s \<Longrightarrow> CHR 0x00 \<notin> set t \<Longrightarrow>
    s @ CHR 0x00 # x = t @ CHR 0x00 # y \<Longrightarrow> s = t \<and> x = y"
proof (induction s arbitrary: t)
  case Nil
  then show ?case by (cases t) auto
next
  case (Cons c s)
  then show ?case by (cases t) auto
qed

lemma show_int_no_nul: "0 \<le> n \<Longrightarrow> CHR 0x00 \<notin> set (show_int n)"
  using show_nat_digits [of "CHR 0x00"] by (auto simp: show_int_def is_digit_def)

lemma inventory_row_inj:
  assumes "plain_row (p, n, d)" "plain_row (q, m, e)"
    and eq: "inventory_row p n d @ x = inventory_row q m e @ y"
  shows "p = q \<and> n = m \<and> d = e \<and> x = y"
proof -
  have "p = q" and 1: "show_int n @ CHR 0x00 # (unhex d @ x) = show_int m @ CHR 0x00 # (unhex e @ y)"
    using eq assms(1,2) until_nul [of p q]
    by (auto simp: inventory_row_def plain_row_def normal_digest_hex)
  then have "show_int n = show_int m" and 2: "unhex d @ x = unhex e @ y"
    using until_nul [OF _ _ 1] show_int_no_nul assms(1,2) by (auto simp: plain_row_def)
  then have "n = m" using assms(1,2) by (auto simp: plain_row_def show_int_def show_nat_inj)
  moreover have "unhex d = unhex e" "x = y"
    using 2 assms(1,2) by (auto simp: plain_row_def hex_text_def length_unhex)
  moreover have "d = e" using calculation(2) assms(1,2) unhex_inj by (auto simp: plain_row_def hex_text_def)
  ultimately show ?thesis using \<open>p = q\<close> by simp
qed

lemma inventory_input_inj:
  "inventory_input xs seen = Inr t \<Longrightarrow> inventory_input ys seen' = Inr t \<Longrightarrow>
     list_all plain_row xs \<Longrightarrow> list_all plain_row ys \<Longrightarrow> xs = ys"
proof (induction xs arbitrary: ys seen seen' t)
  case Nil
  then show ?case by (cases ys) (auto simp: inventory_row_def split: if_splits)
next
  case (Cons r xs)
  obtain p n d where r: "r = (p, n, d)" by (cases r)
  from Cons.prems obtain q m e zs where ys: "ys = (q, m, e) # zs"
    by (cases ys) (auto simp: r inventory_row_def split: if_splits)
  from Cons.prems(1) obtain u where u: "inventory_input xs (p # seen) = Inr u" "t = inventory_row p n d @ u"
    by (auto simp: r split: if_splits)
  from Cons.prems(2) obtain w where w: "inventory_input zs (q # seen') = Inr w" "t = inventory_row q m e @ w"
    by (auto simp: ys split: if_splits)
  have "p = q \<and> n = m \<and> d = e \<and> u = w"
    using Cons.prems(3,4) u(2) w(2) by (intro inventory_row_inj) (simp_all add: r ys)
  then show ?case using Cons.IH [OF u(1), of zs] w(1) Cons.prems(3,4) by (simp add: r ys)
qed

text \<open>
  C21. A model digest covers the whole inventory, paths, sizes and hashes: two accepted manifests with
  the same digest and without NUL bytes in their paths list the same files, or what was hashed for
  them are two different texts, a collision of the hash function.
\<close>

theorem model_digest_covers_inventory:
  assumes "manifest_of_value sha v = Inr m" and "manifest_of_value sha w = Inr n"
    and "mn_model_digest m = mn_model_digest n"
    and "\<forall>f \<in> set (mn_files m) \<union> set (mn_files n). CHR 0x00 \<notin> set (mf_path f)"
  shows "set (mn_files m) = set (mn_files n) \<or>
    (\<exists>x y. inventory_input (sort (inventory_of (mn_files m))) [] = Inr x \<and>
       inventory_input (sort (inventory_of (mn_files n))) [] = Inr y \<and> x \<noteq> y \<and> sha x = sha y)"
proof -
  note ok = assms(1,2) [THEN manifest_of_value_ok]
  have input: "\<exists>t. inventory_input (sort (inventory_of (mn_files k))) [] = Inr t \<and> sha t = mn_model_digest k \<and>
      list_all plain_row (sort (inventory_of (mn_files k)))"
    if "manifest_ok sha k" "\<forall>f \<in> set (mn_files k). CHR 0x00 \<notin> set (mf_path f)" for k
    using that by (auto simp: manifest_ok_def model_digest_from_inventory_def list_all_iff inventory_of_def
        plain_row_def file_ok_def split: if_splits)
  obtain s where s: "inventory_input (sort (inventory_of (mn_files m))) [] = Inr s" "sha s = mn_model_digest m"
    "list_all plain_row (sort (inventory_of (mn_files m)))" using input [OF ok(1)] assms(4) by auto
  obtain t where t: "inventory_input (sort (inventory_of (mn_files n))) [] = Inr t" "sha t = mn_model_digest n"
    "list_all plain_row (sort (inventory_of (mn_files n)))" using input [OF ok(2)] assms(4) by auto
  show ?thesis
  proof (cases "s = t")
    case True
    then have "sort (inventory_of (mn_files m)) = sort (inventory_of (mn_files n))"
      using inventory_input_inj [OF s(1) _ s(3) t(3)] t(1) by simp
    then have "set (inventory_of (mn_files m)) = set (inventory_of (mn_files n))" by (metis set_sort)
    moreover have "inj (\<lambda>f :: manifest_file. (mf_path f, mf_size f, mf_sha256 f))" by (simp add: inj_def)
    ultimately show ?thesis by (simp add: inventory_of_def inj_image_eq_iff)
  next
    case False
    then show ?thesis using s(1,2) t(1,2) assms(3) by simp
  qed
qed

text \<open>Two inventories: two files, and one file whose path spells the first row and the second path.\<close>

definition spelled_digest :: string where
  "spelled_digest = concat (replicate 32 ''41'')"

definition two_files :: "manifest_file list" where
  "two_files = [\<lparr>mf_path = ''a'', mf_size = 1, mf_sha256 = spelled_digest\<rparr>,
     \<lparr>mf_path = ''b'', mf_size = 2, mf_sha256 = spelled_digest\<rparr>]"

definition one_file :: "manifest_file list" where
  "one_file = [\<lparr>mf_path = ''a'' @ [CHR 0x00] @ ''1'' @ [CHR 0x00] @ replicate 32 (CHR ''A'') @ ''b'',
     mf_size = 2, mf_sha256 = spelled_digest\<rparr>]"

text \<open>
  C22. The checks on a path admit NUL bytes, which are the separators of the digest: two different
  lists of accepted files have the same model digest, whatever the hash function.
\<close>

theorem model_digest_ambiguous_with_nul:
  "map (manifest_file_of \<circ> file_json) two_files = map Inr two_files \<and>
   map (manifest_file_of \<circ> file_json) one_file = map Inr one_file \<and> length two_files \<noteq> length one_file \<and>
   model_digest_from_inventory sha (inventory_of two_files) = model_digest_from_inventory sha (inventory_of one_file)"
proof -
  have files: "list_all file_ok two_files" "list_all file_ok one_file"
    by code_simp+
  have "inventory_input (sort (inventory_of two_files)) [] = inventory_input (sort (inventory_of one_file)) []"
    by code_simp
  moreover have "inventory_of two_files \<noteq> []" "inventory_of one_file \<noteq> []"
    by (simp_all add: inventory_of_def two_files_def one_file_def)
  ultimately have "model_digest_from_inventory sha (inventory_of two_files) =
      model_digest_from_inventory sha (inventory_of one_file)"
    by (simp add: model_digest_from_inventory_def)
  then show ?thesis
    using files by (simp add: list_all_iff manifest_file_round two_files_def one_file_def)
qed

section \<open>Registrations are told apart\<close>

lemma hex_digit_inj: "m < 16 \<Longrightarrow> n < 16 \<Longrightarrow> hex_digit m = hex_digit n \<Longrightarrow> m = n"
  by (auto simp: hex_digit_def digit_char_def split: if_splits dest: byte_inj [rotated 2])

lemma hex4_inj: "(m :: nat) < 256 \<Longrightarrow> n < 256 \<Longrightarrow> hex4 m = hex4 n \<Longrightarrow> m = n"
proof -
  assume mn: "m < 256" "n < 256" and "hex4 m = hex4 n"
  then have "m div 16 mod 16 = n div 16 mod 16" "m mod 16 = n mod 16"
    using hex_digit_inj [of "m div 16 mod 16" "n div 16 mod 16"] hex_digit_inj [of "m mod 16" "n mod 16"]
    by (simp_all add: hex4_def)
  moreover have "k div 16 mod 16 = k div 16" if "k < 256" for k :: nat using that by (simp add: less_mult_imp_div_less)
  ultimately show "m = n" using mn by (metis div_mult_mod_eq)
qed

definition plain_char :: "char \<Rightarrow> bool" where
  "plain_char c \<longleftrightarrow> (32::nat) \<le> of_char c \<and> of_char c \<le> (126::nat)"

lemma json_escape_cases:
  obtains (short) e where "map_of short_escapes c = Some e" "json_escape c = [CHR 0x5C, e]" "e \<noteq> CHR ''u''"
  | (plain) "json_escape c = [c]" "c \<noteq> CHR 0x5C" "c \<noteq> CHR 0x22"
  | (coded) "json_escape c = [CHR 0x5C, CHR ''u''] @ hex4 (of_char c)"
proof (cases "map_of short_escapes c")
  case None
  then have "c \<noteq> CHR 0x5C" "c \<noteq> CHR 0x22" by (auto simp: short_escapes_def)
  then show thesis using None that(2,3)
    by (cases "(32::nat) \<le> of_char c \<and> of_char c \<le> (126::nat)") (auto simp: json_escape_def)
next
  case (Some e)
  then have "e \<noteq> CHR ''u''" by (auto simp: short_escapes_def split: if_splits)
  with Some show thesis using that(1) by (simp add: json_escape_def)
qed

lemma short_escapes_inj: "map_of short_escapes c = Some e \<Longrightarrow> map_of short_escapes d = Some e \<Longrightarrow> c = d"
  by (auto simp: short_escapes_def split: if_splits)

lemma json_escape_prefix:
  assumes "json_escape c @ x = json_escape d @ y"
  shows "c = d \<and> x = y"
proof (cases c rule: json_escape_cases)
  case (short e)
  show ?thesis
    by (cases d rule: json_escape_cases) (use assms short short_escapes_inj [of c e d] in auto)
next
  case plain
  show ?thesis by (cases d rule: json_escape_cases) (use assms plain in auto)
next
  case coded
  have byte: "(of_char c :: nat) < 256" "(of_char d :: nat) < 256" by simp_all
  show ?thesis
  proof (cases d rule: json_escape_cases)
    case coded2: coded
    then have "hex4 (of_char c) @ x = hex4 (of_char d) @ y" using assms coded by simp
    then have "hex4 (of_char c) = hex4 (of_char d)" "x = y" by (simp_all add: hex4_def)
    then show ?thesis using hex4_inj [OF byte] by simp
  qed (use assms coded in auto)
qed

definition ascii :: "string \<Rightarrow> bool" where
  "ascii s \<longleftrightarrow> list_all (\<lambda>c. (of_char c :: nat) < 128) s"

lemma json_escape_head: "json_escape c \<noteq> [] \<and> hd (json_escape c) \<noteq> CHR 0x22"
  by (cases c rule: json_escape_cases) auto

lemma json_chars_prefix:
  "ascii s \<Longrightarrow> ascii t \<Longrightarrow> json_chars s @ CHR 0x22 # x = json_chars t @ CHR 0x22 # y \<Longrightarrow> s = t \<and> x = y"
proof (induction s arbitrary: t)
  case Nil
  show ?case
  proof (cases t)
    case (Cons d u)
    then have "hd (json_escape d @ json_chars u @ CHR 0x22 # y) = CHR 0x22"
      using Nil by (simp add: ascii_def) (metis list.sel(1))
    then show ?thesis using json_escape_head [of d] by simp
  qed (use Nil in simp)
next
  case (Cons c s)
  show ?case
  proof (cases t)
    case Nil
    then have "hd (json_escape c @ json_chars s @ CHR 0x22 # x) = CHR 0x22"
      using Cons.prems by (simp add: ascii_def)
    then show ?thesis using json_escape_head [of c] by simp
  next
    case t: (Cons d u)
    then have "json_escape c @ json_chars s @ CHR 0x22 # x = json_escape d @ json_chars u @ CHR 0x22 # y"
      using Cons.prems by (simp add: ascii_def)
    then have "c = d" "json_chars s @ CHR 0x22 # x = json_chars u @ CHR 0x22 # y"
      using json_escape_prefix by blast+
    then show ?thesis using Cons.IH [of u] Cons.prems(1,2) t by (simp add: ascii_def)
  qed
qed

lemma base58_ascii: "list_all base58_char s \<Longrightarrow> ascii s"
  unfolding ascii_def by (erule list.pred_mono_strong) (auto simp: base58_char_def Let_def)

lemma registration_body_text: "registration_body netuid hotkey g = ''albedo-registration-v1'' @ [CHR 0x00] @
    ''{'' @ json_string ''chain_generation'' @ '':'' @ json_string g @ '','' @ json_string ''hotkey'' @ '':'' @
    json_string hotkey @ '','' @ json_string ''netuid'' @ '':'' @ show_int netuid @ ''}''"
  by (simp add: registration_body_def)

text \<open>
  Two registrations get the same identity only when they are the same subnet, hotkey and chain
  generation, or when the two texts hashed for them are a collision of the hash function.
\<close>

lemma registration_ids_differ:
  assumes "registration_id sha n h g = Inr i" and "registration_id sha m k f = Inr i"
    and "ascii g" and "ascii f"
  shows "(n = m \<and> h = k \<and> g = f) \<or>
    (registration_body n h g \<noteq> registration_body m k f \<and>
     sha (registration_body n h g) = sha (registration_body m k f))"
proof (cases "registration_body n h g = registration_body m k f")
  case True
  have pos: "0 \<le> n" "0 \<le> m" and hk: "ascii h" "ascii k"
    using assms(1,2) base58_ascii by (auto simp: registration_id_def require_ss58_def)
  have 1: "json_chars g @ CHR 0x22 # ('','' @ json_string ''hotkey'' @ '':'' @ json_string h @ '','' @
      json_string ''netuid'' @ '':'' @ show_int n @ ''}'') = json_chars f @ CHR 0x22 # ('','' @
      json_string ''hotkey'' @ '':'' @ json_string k @ '','' @ json_string ''netuid'' @ '':'' @ show_int m @ ''}'')"
    using True unfolding registration_body_text by (simp add: json_string_def)
  note gf = json_chars_prefix [OF assms(3,4) 1]
  then have 2: "json_chars h @ CHR 0x22 # ('','' @ json_string ''netuid'' @ '':'' @ show_int n @ ''}'') =
      json_chars k @ CHR 0x22 # ('','' @ json_string ''netuid'' @ '':'' @ show_int m @ ''}'')"
    by (simp add: json_string_def)
  note hk = json_chars_prefix [OF hk 2]
  then have "show_int n = show_int m" by simp
  then have "n = m" using pos by (simp add: show_int_def show_nat_inj)
  with gf hk show ?thesis by simp
next
  case False
  have "sha (registration_body n h g) = sha (registration_body m k f)"
    using assms(1,2) by (simp add: registration_id_def require_ss58_def require_chain_generation_def)
  with False show ?thesis by simp
qed

end
