(* ===== verification/UploadStore.thy ===== *)
theory UploadStore
  imports Contracts Schema
begin

text \<open>
  The object store and the token service as the access controller uses them:
  src/src/private_store/storage.py and src/src/private_store/cloudflare.py. The remote services are
  parts of the state, \<open>world\<close>: the live API tokens, the mailbox bucket, the bucket of the uploads.
  Every remote call has a reply, given by an arbitrary function of the call: answered, refused without
  effect, or lost, when the call took effect and the caller sees an exception all the same.
\<close>

section \<open>The world and its actions\<close>

record r2_object =
  ob_key :: string
  ob_size :: int
  ob_modified :: "int option"
  ob_etag :: "string option"
  ob_meta :: "string option"
  ob_bytes :: string

record world =
  w_db :: db
  w_tokens :: "(string \<times> string) list"
  w_next_token :: nat
  w_mailbox :: "(string \<times> string) list"
  w_status :: "(string \<times> json) list"
  w_cache :: "(string \<times> json) list"
  w_bucket :: "r2_object list"
  w_multiparts :: "string list"

datatype reply = Answered | Lost | Refused

datatype call =
    ListTokens string
  | DeleteToken string
  | PermissionGroups
  | CreateToken string
  | GetObject string
  | PutObject string
  | PutStatus string
  | DeleteObjects "string list"
  | ListMultiparts string
  | AbortMultipart string
  | ListUploads string

type_synonym net = "call \<Rightarrow> reply"

type_synonym 'a act = "world \<Rightarrow> (store_error + 'a) \<times> world"

definition act_return :: "'a \<Rightarrow> 'a act" where
  "act_return x w = (Inr x, w)"

definition act_lift :: "store_error + 'a \<Rightarrow> 'a act" where
  "act_lift r w = (r, w)"

definition act_bind :: "'a act \<Rightarrow> ('a \<Rightarrow> 'b act) \<Rightarrow> 'b act" where
  "act_bind m f w = (case m w of (Inl e, v) \<Rightarrow> (Inl e, v) | (Inr x, v) \<Rightarrow> f x v)"

definition act_then :: "'a act \<Rightarrow> 'b act \<Rightarrow> 'b act" where
  "act_then m n = act_bind m (\<lambda>_. n)"

definition act_gets :: "(world \<Rightarrow> 'a) \<Rightarrow> 'a act" where
  "act_gets f w = (Inr (f w), w)"

definition act_when :: "bool \<Rightarrow> unit act \<Rightarrow> unit act" where
  "act_when b m = (if b then m else act_return ())"

primrec act_for :: "'r list \<Rightarrow> ('r \<Rightarrow> unit act) \<Rightarrow> unit act" where
  "act_for [] f = act_return ()"
| "act_for (x # xs) f = act_then (f x) (act_for xs f)"

text \<open>A statement on the database, committed or rolled back.\<close>

definition act_db :: "(db, 'a) tx \<Rightarrow> 'a act" where
  "act_db m w = (case m (w_db w) of
     Inl e \<Rightarrow> (Inl (ServiceError ''database''), w)
   | Inr (x, d) \<Rightarrow> (Inr x, w\<lparr>w_db := d\<rparr>))"

text \<open>A remote call with an effect on the service.\<close>

definition remote :: "reply \<Rightarrow> (world \<Rightarrow> world) \<Rightarrow> 'a \<Rightarrow> 'a act" where
  "remote r effect x w = (case r of
     Answered \<Rightarrow> (Inr x, effect w)
   | Lost \<Rightarrow> (Inl (ServiceError ''no reply''), effect w)
   | Refused \<Rightarrow> (Inl (ServiceError ''refused''), w))"

lemmas act = act_return_def act_lift_def act_bind_def act_then_def act_gets_def act_when_def

section \<open>Tokens\<close>

definition without_token :: "string \<Rightarrow> world \<Rightarrow> world" where
  "without_token i w = w\<lparr>w_tokens := filter (\<lambda>(j, _). j \<noteq> i) (w_tokens w)\<rparr>"

text \<open>Deleting a token that is gone answers 404, which the caller takes as success.\<close>

definition revoke_parent_token :: "net \<Rightarrow> string \<Rightarrow> unit act" where
  "revoke_parent_token net i = remote (net (DeleteToken i)) (without_token i) ()"

definition existing_token_ids :: "net \<Rightarrow> string \<Rightarrow> string list act" where
  "existing_token_ids net name w = remote (net (ListTokens name)) (\<lambda>v. v)
     (map fst (filter (\<lambda>(_, n). n = name) (w_tokens w))) w"

definition token_text :: "nat \<Rightarrow> string" where
  "token_text n = ''token-'' @ show_nat n"

definition with_token :: "string \<Rightarrow> world \<Rightarrow> world" where
  "with_token name w = w\<lparr>w_tokens := w_tokens w @ [(token_text (w_next_token w), name)],
     w_next_token := Suc (w_next_token w)\<rparr>"

definition create_parent_token :: "net \<Rightarrow> string \<Rightarrow> string act" where
  "create_parent_token net name =
     act_bind (existing_token_ids net name) (\<lambda>ids.
     act_then (act_for ids (revoke_parent_token net))
     (act_then (remote (net PermissionGroups) (\<lambda>v. v) ())
       (\<lambda>w. remote (net (CreateToken name)) (with_token name) (token_text (w_next_token w)) w)))"

section \<open>The mailbox\<close>

text \<open>Writing an object of a bucket by its key.\<close>

definition put_key :: "string \<Rightarrow> 'a \<Rightarrow> (string \<times> 'a) list \<Rightarrow> (string \<times> 'a) list" where
  "put_key k v kvs = (k, v) # filter (\<lambda>(j, _). j \<noteq> k) kvs"

definition mailbox_publish :: "net \<Rightarrow> (string \<Rightarrow> string) \<Rightarrow> string \<Rightarrow> string \<Rightarrow> unit act" where
  "mailbox_publish net sha key ciphertext =
     act_bind (\<lambda>w. remote (net (GetObject key)) (\<lambda>v. v) (map_of (w_mailbox w) key) w) (\<lambda>old.
     case old of
       Some observed \<Rightarrow> if sha observed \<noteq> sha ciphertext
         then act_lift (Inl (MailboxInvariant ''mailbox generation already contains different bytes''))
         else act_return ()
     | None \<Rightarrow> remote (net (PutObject key))
         (\<lambda>w. w\<lparr>w_mailbox := put_key key ciphertext (w_mailbox w)\<rparr>) ())"

definition put_status :: "net \<Rightarrow> string \<Rightarrow> json \<Rightarrow> unit act" where
  "put_status net key body = remote (net (PutStatus key))
     (\<lambda>w. w\<lparr>w_status := put_key key body (w_status w)\<rparr>) ()"

text \<open>\<open>mailbox/v1/[0-9a-f]{64}/generations/[0-9]{20}.bin\<close>.\<close>

definition generation_key :: "string \<Rightarrow> bool" where
  "generation_key k \<longleftrightarrow> (let r = drop 11 k; s = drop 64 r; t = drop 13 s in
     starts_with ''mailbox/v1/'' k \<and> hex_text 64 (take 64 r) \<and> starts_with ''/generations/'' s \<and>
     length t = 24 \<and> list_all is_digit (take 20 t) \<and> drop 20 t = ''.bin'')"

text \<open>The batches of a request, \<open>xs[o : o + n]\<close> for every multiple of \<open>n\<close>.\<close>

function batches :: "nat \<Rightarrow> 'a list \<Rightarrow> 'a list list" where
  "batches n xs = (if xs = [] \<or> n = 0 then [] else take n xs # batches n (drop n xs))"
  by pat_completeness auto

termination
  by (relation "measure (length \<circ> snd)") auto

declare batches.simps [simp del]

definition mailbox_delete :: "net \<Rightarrow> string list \<Rightarrow> nat act" where
  "mailbox_delete net keys = (let selected = sort (remdups keys) in
     if \<not> list_all generation_key selected
     then act_lift (Inl (MailboxInvariant ''refusing to delete a non-mailbox object''))
     else act_then (act_for (batches 1000 selected) (\<lambda>ks. remote (net (DeleteObjects ks))
         (\<lambda>w. w\<lparr>w_mailbox := filter (\<lambda>(k, _). k \<notin> set ks) (w_mailbox w)\<rparr>) ()))
       (act_return (length selected)))"

section \<open>Listing uploads\<close>

definition MAX_MINER_UPLOAD_BYTES :: int where
  "MAX_MINER_UPLOAD_BYTES = 100000000000"

definition MAX_MINER_UPLOAD_OBJECTS :: nat where
  "MAX_MINER_UPLOAD_OBJECTS = 4096"

definition MAX_MANIFEST_BYTES :: int where
  "MAX_MANIFEST_BYTES = 16 * 1024 * 1024"

text \<open>A page of a listing: its items, whether it is truncated, whether it names the next page.\<close>

record page =
  pg_items :: "r2_object list"
  pg_truncated :: bool
  pg_token :: bool

fun quota_items :: "int \<Rightarrow> r2_object list \<Rightarrow> int \<times> nat \<Rightarrow> string + int \<times> nat" where
  "quota_items limit [] acc = Inr acc"
| "quota_items limit (x # xs) (bytes, n) =
     (if bytes + ob_size x > limit
      then Inl (show_int (bytes + ob_size x) @ '' bytes exceeds the '' @ show_int limit @ ''-byte limit'')
      else if Suc n > MAX_MINER_UPLOAD_OBJECTS
      then Inl (''more than '' @ show_nat MAX_MINER_UPLOAD_OBJECTS @ '' objects'')
      else quota_items limit xs (bytes + ob_size x, Suc n))"

fun quota_pages :: "int \<Rightarrow> page list \<Rightarrow> int \<times> nat \<Rightarrow> string option" where
  "quota_pages limit [] acc = None"
| "quota_pages limit (p # ps) acc = (case quota_items limit (pg_items p) acc of
     Inl reason \<Rightarrow> Some reason
   | Inr acc' \<Rightarrow> if \<not> pg_truncated p \<or> \<not> pg_token p then None else quota_pages limit ps acc')"

definition quota_breach :: "int \<Rightarrow> page list \<Rightarrow> string option" where
  "quota_breach limit ps = quota_pages limit ps (0, 0)"

fun list_items :: "r2_object list \<Rightarrow> r2_object list \<Rightarrow> store_error + r2_object list" where
  "list_items [] objects = Inr objects"
| "list_items (x # xs) objects =
     (if ob_key x \<in> set (map ob_key objects)
      then Inl (Integrity (''R2 listing repeated object key '' @ ob_key x))
      else list_items xs (if last (ob_key x) = CHR ''/'' \<and> ob_key x \<noteq> [] then objects else objects @ [x]))"

fun list_pages :: "page list \<Rightarrow> r2_object list \<Rightarrow> store_error + r2_object list" where
  "list_pages [] objects = Inr objects"
| "list_pages (p # ps) objects = and_then (list_items (pg_items p) objects) (\<lambda>found.
     if \<not> pg_truncated p then Inr found
     else if \<not> pg_token p then Inl (Integrity ''truncated R2 listing omitted continuation token'')
     else list_pages ps found)"

definition list_objects :: "page list \<Rightarrow> store_error + r2_object list" where
  "list_objects ps = list_pages ps []"

section \<open>Verifying an upload\<close>

text \<open>What reading an object gives: its bytes, and the etag and the metadata \<open>sha256\<close> of the response.\<close>

record r2_read =
  rd_bytes :: string
  rd_etag :: "string option"
  rd_meta :: "string option"

record r2_head =
  hd_size :: int
  hd_etag :: "string option"
  hd_meta :: "string option"

definition meta_digest :: "string option \<Rightarrow> string option" where
  "meta_digest v = map_option lower v"

definition submitted_hash :: "manifest \<Rightarrow> string \<Rightarrow> string option" where
  "submitted_hash m = map_of (rev (map (\<lambda>f. (mf_path f, mf_sha256 f)) (mn_files m)))"

definition validate_genesis_contract :: "(string \<times> string) list \<Rightarrow> manifest \<Rightarrow> store_error + unit" where
  "validate_genesis_contract genesis m =
     (let missing = filter (\<lambda>p. submitted_hash m p = None) (map fst genesis);
          changed = filter (\<lambda>(p, d). submitted_hash m p \<noteq> None \<and> submitted_hash m p \<noteq> Some d) genesis
      in ensure (missing = [] \<and> changed = [])
        (GenesisMismatch ''submitted model does not byte-match genesis contract files''))"

text \<open>
  The loop over the declared files: genesis files are read and hashed, the others only looked at; a
  metadata digest, a listed size and an etag have to agree.
\<close>

definition check_file ::
  "(string \<Rightarrow> string) \<Rightarrow> (string \<Rightarrow> store_error + r2_read) \<Rightarrow> (string \<Rightarrow> store_error + r2_head) \<Rightarrow>
     (string \<times> string) list \<Rightarrow> string \<Rightarrow> r2_object list \<Rightarrow> manifest_file \<Rightarrow> store_error + unit" where
  "check_file sha get head genesis prefix objects f =
     (let key = prefix @ mf_path f in
      and_then (if mf_path f \<in> set (map fst genesis)
        then and_then (get key) (\<lambda>r.
          and_then (ensure (int (length (rd_bytes r)) = mf_size f \<and> sha (rd_bytes r) = mf_sha256 f)
            (GenesisMismatch (''submitted genesis contract bytes differ: '' @ mf_path f))) (\<lambda>_.
          Inr (int (length (rd_bytes r)), rd_etag r, meta_digest (rd_meta r))))
        else and_then (head key) (\<lambda>h. Inr (hd_size h, hd_etag h, meta_digest (hd_meta h)))) (\<lambda>(n, etag, meta).
      and_then (ensure (meta = Some (mf_sha256 f))
        (Integrity (''object SHA-256 metadata is missing or incorrect: '' @ mf_path f))) (\<lambda>_.
      case find (\<lambda>x. ob_key x = key) objects of
        None \<Rightarrow> Inr ()
      | Some x \<Rightarrow> and_then (ensure (ob_size x = n)
          (Integrity (''R2 listing size changed during verification: '' @ mf_path f))) (\<lambda>_.
          ensure (etag = None \<or> ob_etag x = None \<or> etag = ob_etag x)
            (Integrity (''R2 object changed during verification: '' @ mf_path f))))))"

primrec check_files :: "(manifest_file \<Rightarrow> store_error + unit) \<Rightarrow> manifest_file list \<Rightarrow> store_error + unit" where
  "check_files check [] = Inr ()"
| "check_files check (f # fs) = and_then (check f) (\<lambda>_. check_files check fs)"

definition verify_manifest ::
  "(string \<Rightarrow> string) \<Rightarrow> (string \<Rightarrow> json option) \<Rightarrow> (string \<Rightarrow> string \<Rightarrow> string \<Rightarrow> bool) \<Rightarrow> int \<Rightarrow>
     (string \<times> string) list \<Rightarrow> page list \<Rightarrow> (string \<Rightarrow> store_error + r2_read) \<Rightarrow>
     (string \<Rightarrow> store_error + r2_head) \<Rightarrow> string \<Rightarrow> string \<Rightarrow> string \<Rightarrow> string \<Rightarrow> string \<Rightarrow>
     store_error + manifest" where
  "verify_manifest sha loads signed limit genesis pages get head prefix rid hotkey pubkey expected =
     and_then (retell (\<lambda>e. Integrity (''registration model prefix is not canonical: '' @ error_message e))
         (parse_model_prefix prefix)) (\<lambda>(owner, _).
     and_then (ensure (owner = rid) (Integrity ''registration model prefix is not canonical'')) (\<lambda>_.
     and_then (list_objects pages) (\<lambda>objects.
     and_then (ensure (length objects \<le> MAX_MINER_UPLOAD_OBJECTS)
       (QuotaExceeded (''private model upload has '' @ show_nat (length objects) @ '' objects; limit is '' @
          show_nat MAX_MINER_UPLOAD_OBJECTS))) (\<lambda>_.
     and_then (ensure (sum_list (map ob_size objects) \<le> limit)
       (QuotaExceeded (''private model upload is '' @ show_int (sum_list (map ob_size objects)) @
          '' bytes; limit is '' @ show_int limit @ '' bytes''))) (\<lambda>_.
     case find (\<lambda>x. ob_key x = prefix @ ''manifest.json'') objects of
       None \<Rightarrow> Inl (Integrity ''private model prefix does not contain manifest.json'')
     | Some listed \<Rightarrow>
     and_then (ensure (ob_size listed \<le> MAX_MANIFEST_BYTES)
       (Integrity ''manifest.json is implausibly large'')) (\<lambda>_.
     and_then (get (prefix @ ''manifest.json'')) (\<lambda>raw.
     and_then (ensure (rd_bytes raw \<noteq> [] \<and> sha (rd_bytes raw) = expected)
       (Integrity ''manifest object does not match the finalized ready signal'')) (\<lambda>_.
     and_then (ensure (meta_digest (rd_meta raw) = Some (sha (rd_bytes raw)))
       (Integrity ''manifest object SHA-256 metadata is missing or incorrect'')) (\<lambda>_.
     and_then (retell (\<lambda>e. Integrity (error_message e))
         (manifest_from_bytes loads sha (rd_bytes raw))) (\<lambda>m.
     and_then (ensure (mn_registration_id m = rid \<and> mn_hotkey m = hotkey)
       (Integrity ''manifest identity does not own the model prefix'')) (\<lambda>_.
     and_then (ensure (signed pubkey (signing_payload m) (mn_signature m))
       (Integrity ''Ed25519 signature verification failed'')) (\<lambda>_.
     and_then (validate_genesis_contract genesis m) (\<lambda>_.
     and_then (ensure (set (map ob_key objects) =
           insert (prefix @ ''manifest.json'') (set (map (\<lambda>f. prefix @ mf_path f) (mn_files m))))
       (Integrity ''model inventory differs from manifest'')) (\<lambda>_.
     and_then (check_files (check_file sha get head genesis prefix objects) (mn_files m)) (\<lambda>_.
     Inr m)))))))))))))))"

section \<open>Retention\<close>

text \<open>The prefix an object key belongs to, from the text after its root.\<close>

definition upload_prefix :: "bool \<Rightarrow> string \<Rightarrow> string \<Rightarrow> string option" where
  "upload_prefix nested base key =
     (let tail_of = (\<lambda>s. after_first (CHR ''/'') s);
          rest0 = drop (length base) key;
          rid = before_first (CHR ''/'') rest0;
          rest = tail_of rest0;
          attempt = before_first (CHR ''/'') rest;
          tail = tail_of rest;
          prefix = base @ rid @ ''/'' @ (if nested then attempt @ ''/'' else [])
      in if rest = [] \<or> (nested \<and> tail = []) \<or> \<not> canonical_model_prefix prefix then None else Some prefix)"

fun note_newest :: "string \<Rightarrow> int \<Rightarrow> (string \<times> int) list \<Rightarrow> (string \<times> int) list" where
  "note_newest p t [] = [(p, t)]"
| "note_newest p t ((q, u) # rest) = (if q = p then (q, max u t) # rest else (q, u) # note_newest p t rest)"

primrec retained_under :: "bool \<Rightarrow> string \<Rightarrow> r2_object list \<Rightarrow> (string \<times> int) list \<Rightarrow> (string \<times> int) list" where
  "retained_under nested base [] newest = newest"
| "retained_under nested base (x # xs) newest = retained_under nested base xs
     (case upload_prefix nested base (ob_key x) of
        None \<Rightarrow> newest
      | Some p \<Rightarrow> (case ob_modified x of None \<Rightarrow> newest | Some t \<Rightarrow> note_newest p t newest))"

text \<open>What \<open>_list_objects\<close> keeps of a bucket under a root.\<close>

definition objects_under :: "string \<Rightarrow> r2_object list \<Rightarrow> r2_object list" where
  "objects_under base xs = filter (\<lambda>x. starts_with base (ob_key x) \<and> last (ob_key x) \<noteq> CHR ''/'') xs"

definition retained_uploads :: "r2_object list \<Rightarrow> (string \<times> int) list" where
  "retained_uploads xs = retained_under True retry_root (objects_under retry_root xs)
     (retained_under False first_root (objects_under first_root xs) [])"

definition abort_multipart_uploads :: "net \<Rightarrow> string \<Rightarrow> nat act" where
  "abort_multipart_uploads net prefix =
     (if \<not> canonical_model_prefix prefix
      then act_lift (Inl (BadValue (''refusing to bulk-abort a non-registration prefix: '' @ prefix)))
      else act_bind (\<lambda>w. remote (net (ListMultiparts prefix)) (\<lambda>v. v)
          (filter (starts_with prefix) (w_multiparts w)) w) (\<lambda>ups.
        act_then (act_for ups (\<lambda>k. remote (net (AbortMultipart k))
            (\<lambda>w. w\<lparr>w_multiparts := remove1 k (w_multiparts w)\<rparr>) ()))
          (act_return (length ups))))"

definition cleanup_model_prefix :: "net \<Rightarrow> string \<Rightarrow> nat act" where
  "cleanup_model_prefix net prefix =
     (if \<not> canonical_model_prefix prefix
      then act_lift (Inl (BadValue (''refusing to bulk-delete a non-registration prefix: '' @ prefix)))
      else act_bind (abort_multipart_uploads net prefix) (\<lambda>aborted.
        act_bind (\<lambda>w. remote (net (ListUploads prefix)) (\<lambda>v. v)
            (sort (map ob_key (objects_under prefix (w_bucket w)))) w) (\<lambda>keys.
        act_then (act_for (batches 1000 keys) (\<lambda>ks. remote (net (DeleteObjects ks))
            (\<lambda>w. w\<lparr>w_bucket := filter (\<lambda>x. ob_key x \<notin> set ks) (w_bucket w)\<rparr>) ()))
          (act_return (length keys + aborted)))))"

section \<open>Quotas\<close>

text \<open>A listing to its end: every page but the last is truncated and names the next one.\<close>

fun complete_listing :: "page list \<Rightarrow> bool" where
  "complete_listing [] = False"
| "complete_listing [p] = (\<not> pg_truncated p)"
| "complete_listing (p # ps) = (pg_truncated p \<and> pg_token p \<and> complete_listing ps)"

definition listed :: "page list \<Rightarrow> r2_object list" where
  "listed ps = concat (map pg_items ps)"

abbreviation total_size :: "r2_object list \<Rightarrow> int" where
  "total_size xs \<equiv> sum_list (map ob_size xs)"

lemma total_size_nonneg: "\<forall>x \<in> set xs. 0 \<le> ob_size x \<Longrightarrow> 0 \<le> total_size xs"
  by (induction xs) auto

definition within_quota :: "int \<Rightarrow> int \<times> nat \<Rightarrow> bool" where
  "within_quota limit = (\<lambda>(b, n). b \<le> limit \<and> n \<le> MAX_MINER_UPLOAD_OBJECTS)"

lemma quota_items_exact:
  "\<forall>x \<in> set xs. 0 \<le> ob_size x \<Longrightarrow> within_quota limit (b, n) \<Longrightarrow>
     (case quota_items limit xs (b, n) of
        Inl _ \<Rightarrow> \<not> within_quota limit (b + total_size xs, n + length xs)
      | Inr acc \<Rightarrow> acc = (b + total_size xs, n + length xs) \<and> within_quota limit acc)"
proof (induction limit xs "(b, n)" arbitrary: b n rule: quota_items.induct)
  case (2 limit x xs b n)
  then have rest: "0 \<le> total_size xs" by (intro total_size_nonneg) simp
  show ?case
  proof (cases "within_quota limit (b + ob_size x, Suc n)")
    case True
    then show ?thesis using 2 by (auto simp: within_quota_def algebra_simps split: sum.splits)
  next
    case False
    then show ?thesis using rest "2.prems" by (auto simp: within_quota_def)
  qed
qed (simp add: within_quota_def)

lemma quota_pages_exact:
  assumes "complete_listing ps" "\<forall>x \<in> set (listed ps). 0 \<le> ob_size x" "within_quota limit (b, n)"
  shows "quota_pages limit ps (b, n) = None \<longleftrightarrow>
    within_quota limit (b + total_size (listed ps), n + length (listed ps))"
  using assms
proof (induction ps arbitrary: b n rule: complete_listing.induct)
  case (2 p)
  then show ?case using quota_items_exact [of "pg_items p" limit b n]
    by (auto simp: listed_def split: sum.splits)
next
  case (3 p q ps)
  have here: "case quota_items limit (pg_items p) (b, n) of
        Inl _ \<Rightarrow> \<not> within_quota limit (b + total_size (pg_items p), n + length (pg_items p))
      | Inr acc \<Rightarrow> acc = (b + total_size (pg_items p), n + length (pg_items p)) \<and> within_quota limit acc"
    using "3.prems" by (intro quota_items_exact) (auto simp: listed_def)
  have rest: "0 \<le> total_size (listed (q # ps))"
    using "3.prems"(2) by (intro total_size_nonneg) (auto simp: listed_def)
  show ?case
  proof (cases "quota_items limit (pg_items p) (b, n)")
    case (Inl e)
    then show ?thesis using here rest by (auto simp: listed_def within_quota_def)
  next
    case (Inr acc)
    then have acc: "acc = (b + total_size (pg_items p), n + length (pg_items p))" "within_quota limit acc"
      using here by auto
    have "quota_pages limit (p # q # ps) (b, n) = quota_pages limit (q # ps) acc"
      using Inr "3.prems"(1) by simp
    also have "\<dots> = None \<longleftrightarrow> within_quota limit (fst acc + total_size (listed (q # ps)), snd acc + length (listed (q # ps)))"
      using "3.IH" [of "fst acc" "snd acc"] "3.prems" acc by (auto simp: listed_def)
    finally show ?thesis by (simp add: acc(1) listed_def add.assoc)
  qed
qed simp

text \<open>
  The probe that stops at the first excess decides the same as adding the whole listing up: it
  reports a breach exactly when the bytes exceed the limit or there are more than 4096 objects.
\<close>

theorem quota_probe_exact:
  assumes "complete_listing ps" and "\<forall>x \<in> set (listed ps). 0 \<le> ob_size x" and "0 \<le> limit"
  shows "quota_breach limit ps = None \<longleftrightarrow>
    sum_list (map ob_size (listed ps)) \<le> limit \<and> length (listed ps) \<le> 4096"
  using quota_pages_exact [OF assms(1,2), of limit 0 0] assms(3)
  by (simp add: quota_breach_def within_quota_def MAX_MINER_UPLOAD_OBJECTS_def)

section \<open>Keys the controller may delete\<close>

lemma pad20_digits: "list_all is_digit (pad20 (show_nat n))"
  using show_nat_digits [of _ n] by (auto simp: pad20_def list_all_iff is_digit_def)

lemma length_show_nat_le: "n < 10 ^ k \<Longrightarrow> 0 < k \<Longrightarrow> length (show_nat n) \<le> k"
proof (induction k arbitrary: n)
  case (Suc k)
  show ?case
  proof (cases "n < 10")
    case False
    then have "length (show_nat (n div 10)) \<le> k"
      using Suc by (cases k) (auto simp: div_less_iff_less_mult)
    then show ?thesis using False by (simp add: show_nat.simps [of n])
  qed (simp add: show_nat.simps [of n])
qed simp

text \<open>
  Deleting from the mailbox is confined to credential envelopes: the key of a registration's
  envelope is accepted for every generation of at most 20 digits, the key of its status never is.
\<close>

lemma mailbox_delete_spares_status:
  assumes "mailbox_object_key rid g = Inr key" and "g < 10 ^ 20" and "mailbox_status_key rid = Inr status"
  shows "generation_key key \<and> \<not> generation_key status \<and>
    (\<forall>net keys w. status \<in> set keys \<longrightarrow>
       mailbox_delete net keys w = (Inl (MailboxInvariant ''refusing to delete a non-mailbox object''), w))"
proof -
  have rid: "hex_text 64 rid" and key: "key = ''mailbox/v1/'' @ rid @ ''/generations/'' @ pad20 (show_nat g) @ ''.bin''"
    and status: "status = ''mailbox/v1/'' @ rid @ ''/status.json''"
    using assms by (auto simp: mailbox_object_key_def mailbox_status_key_def require_hash_def split: if_splits)
  have len: "length rid = 64" using rid by (simp add: hex_text_def)
  have "length (pad20 (show_nat g)) = 20"
    using length_show_nat_le [of g 20] assms(2) by (simp add: pad20_def)
  then have "generation_key key"
    using rid len pad20_digits [of g] by (simp add: key generation_key_def starts_with_def Let_def)
  moreover have "\<not> generation_key status"
    using len by (simp add: status generation_key_def starts_with_def Let_def)
  moreover from this have "mailbox_delete net keys w =
      (Inl (MailboxInvariant ''refusing to delete a non-mailbox object''), w)" if "status \<in> set keys" for net keys w
    using that by (auto simp: mailbox_delete_def Let_def list_all_iff act_lift_def)
  ultimately show ?thesis by blast
qed

section \<open>What a verified upload is\<close>

lemma check_files_Inr: "check_files check fs = Inr () \<longleftrightarrow> (\<forall>f \<in> set fs. check f = Inr ())"
  by (induction fs) auto

lemma submitted_hash_file: "submitted_hash m p = Some d \<Longrightarrow> \<exists>f \<in> set (mn_files m). mf_path f = p \<and> mf_sha256 f = d"
  unfolding submitted_hash_def by (auto dest!: map_of_SomeD)

lemma genesis_declared:
  assumes "validate_genesis_contract genesis m = Inr ()" "(p, d) \<in> set genesis"
  shows "\<exists>f \<in> set (mn_files m). mf_path f = p \<and> mf_sha256 f = d"
proof -
  have "submitted_hash m p \<noteq> None" "submitted_hash m p = None \<or> submitted_hash m p = Some d"
    using assms by (auto simp: validate_genesis_contract_def Let_def filter_empty_conv)
  then have "submitted_hash m p = Some d" by auto
  then show ?thesis by (rule submitted_hash_file)
qed

text \<open>The steps of a verification that succeeds.\<close>

lemma verify_manifest_steps:
  assumes "verify_manifest sha loads signed limit genesis pages get head prefix rid hotkey pubkey expected = Inr m"
  obtains n objects raw where "parse_model_prefix prefix = Inr (rid, n)" "list_objects pages = Inr objects"
    "length objects \<le> MAX_MINER_UPLOAD_OBJECTS" "sum_list (map ob_size objects) \<le> limit"
    "get (prefix @ ''manifest.json'') = Inr raw" "sha (rd_bytes raw) = expected"
    "manifest_from_bytes loads sha (rd_bytes raw) = Inr m" "mn_registration_id m = rid" "mn_hotkey m = hotkey"
    "signed pubkey (signing_payload m) (mn_signature m)" "validate_genesis_contract genesis m = Inr ()"
    "set (map ob_key objects) =
       insert (prefix @ ''manifest.json'') (set (map (\<lambda>f. prefix @ mf_path f) (mn_files m)))"
    "\<forall>f \<in> set (mn_files m). check_file sha get head genesis prefix objects f = Inr ()"
  using assms unfolding verify_manifest_def and_then_Inr
  by (auto simp: check_files_Inr split: option.splits)

text \<open>
  C20. A verified upload is what its manifest says and belongs to its registration: the prefix is the
  registration's, the manifest is signed by the submission key and hashes to the ready signal, it
  names exactly the objects that are there, within both quotas, every object carries the declared
  digest, and every genesis file is declared with its genesis digest and has the bytes for it.
\<close>

theorem verified_upload_sound:
  assumes "verify_manifest sha loads signed limit genesis pages get head prefix rid hotkey pubkey expected = Inr m"
  shows "(\<exists>n. model_prefix rid n = Inr prefix) \<and> mn_registration_id m = rid \<and> mn_hotkey m = hotkey \<and>
    signed pubkey (signing_payload m) (mn_signature m) \<and>
    (\<exists>raw. get (prefix @ ''manifest.json'') = Inr raw \<and> sha (rd_bytes raw) = expected) \<and>
    (\<exists>objects. list_objects pages = Inr objects \<and> length objects \<le> 4096 \<and>
       sum_list (map ob_size objects) \<le> limit \<and>
       set (map ob_key objects) = insert (prefix @ ''manifest.json'') ((\<lambda>f. prefix @ mf_path f) ` set (mn_files m))) \<and>
    (\<forall>f \<in> set (mn_files m). (\<exists>r. get (prefix @ mf_path f) = Inr r \<and> meta_digest (rd_meta r) = Some (mf_sha256 f)) \<or>
       (\<exists>h. head (prefix @ mf_path f) = Inr h \<and> meta_digest (hd_meta h) = Some (mf_sha256 f))) \<and>
    (\<forall>(p, d) \<in> set genesis. \<exists>r. get (prefix @ p) = Inr r \<and> sha (rd_bytes r) = d)"
proof -
  obtain n objects raw where s: "parse_model_prefix prefix = Inr (rid, n)" "list_objects pages = Inr objects"
    "length objects \<le> MAX_MINER_UPLOAD_OBJECTS" "sum_list (map ob_size objects) \<le> limit"
    "get (prefix @ ''manifest.json'') = Inr raw" "sha (rd_bytes raw) = expected"
    "mn_registration_id m = rid" "mn_hotkey m = hotkey"
    "signed pubkey (signing_payload m) (mn_signature m)" "validate_genesis_contract genesis m = Inr ()"
    "set (map ob_key objects) =
       insert (prefix @ ''manifest.json'') (set (map (\<lambda>f. prefix @ mf_path f) (mn_files m)))"
    and files: "\<forall>f \<in> set (mn_files m). check_file sha get head genesis prefix objects f = Inr ()"
    by (rule verify_manifest_steps [OF assms])
  have meta: "(\<exists>r. get (prefix @ mf_path f) = Inr r \<and> meta_digest (rd_meta r) = Some (mf_sha256 f)) \<or>
       (\<exists>h. head (prefix @ mf_path f) = Inr h \<and> meta_digest (hd_meta h) = Some (mf_sha256 f))"
    if "f \<in> set (mn_files m)" for f
    using files that by (fastforce simp: check_file_def Let_def split: if_splits)
  have genesis: "\<exists>r. get (prefix @ p) = Inr r \<and> sha (rd_bytes r) = d" if g: "(p, d) \<in> set genesis" for p d
  proof -
    obtain f where f: "f \<in> set (mn_files m)" "mf_path f = p" "mf_sha256 f = d"
      using genesis_declared [OF s(10) g] by blast
    moreover have "p \<in> fst ` set genesis" using g by force
    moreover have "check_file sha get head genesis prefix objects f = Inr ()" using files f(1) by blast
    ultimately show ?thesis by (auto simp: check_file_def Let_def)
  qed
  show ?thesis
    using s meta genesis by (auto simp: parse_model_prefix_iff MAX_MINER_UPLOAD_OBJECTS_def)
qed

section \<open>Batches\<close>

lemma batches_Nil [simp]: "batches n [] = []"
  by (simp add: batches.simps)

lemma batches_concat: "0 < n \<Longrightarrow> concat (batches n xs) = xs"
proof (induction n xs rule: batches.induct)
  case (1 n xs)
  then show ?case by (cases "xs = []") (simp_all add: batches.simps [of n xs])
qed

lemma batches_short: "b \<in> set (batches n xs) \<Longrightarrow> b \<noteq> [] \<and> length b \<le> n"
proof (induction n xs rule: batches.induct)
  case (1 n xs)
  then show ?case by (cases "xs = [] \<or> n = 0") (auto simp: batches.simps [of n xs])
qed

lemma set_batches: "0 < n \<Longrightarrow> (\<Union>b \<in> set (batches n xs). set b) = set xs"
  using batches_concat [of n xs] by (metis set_concat)

section \<open>What cleaning up deletes\<close>

text \<open>The state changes of a remote call are bounded by a relation that its effect keeps.\<close>

definition act_keeps :: "(world \<Rightarrow> world \<Rightarrow> bool) \<Rightarrow> 'a act \<Rightarrow> bool" where
  "act_keeps R m \<longleftrightarrow> (\<forall>w. R w (snd (m w)))"

locale world_preorder =
  fixes R :: "world \<Rightarrow> world \<Rightarrow> bool"
  assumes refl_R: "R w w"
    and trans_R: "R u v \<Longrightarrow> R v w \<Longrightarrow> R u w"
begin

lemma keeps_return: "act_keeps R (act_return x)"
  by (simp add: act_keeps_def act_return_def refl_R)

lemma keeps_lift: "act_keeps R (act_lift r)"
  by (simp add: act_keeps_def act_lift_def refl_R)

lemma keeps_gets: "act_keeps R (act_gets f)"
  by (simp add: act_keeps_def act_gets_def refl_R)

lemma keeps_bind: "act_keeps R m \<Longrightarrow> (\<And>x. act_keeps R (f x)) \<Longrightarrow> act_keeps R (act_bind m f)"
  unfolding act_keeps_def act_bind_def
  by (auto split: prod.splits sum.splits) (metis snd_conv trans_R)+

lemma keeps_bind_value:
  "act_keeps R m \<Longrightarrow> (\<And>w x v. m w = (Inr x, v) \<Longrightarrow> P x) \<Longrightarrow> (\<And>x. P x \<Longrightarrow> act_keeps R (f x)) \<Longrightarrow>
     act_keeps R (act_bind m f)"
  unfolding act_keeps_def act_bind_def
  by (auto split: prod.splits sum.splits) (metis snd_conv trans_R)+

lemma keeps_then: "act_keeps R m \<Longrightarrow> act_keeps R n \<Longrightarrow> act_keeps R (act_then m n)"
  by (simp add: act_then_def keeps_bind)

lemma keeps_when: "act_keeps R m \<Longrightarrow> act_keeps R (act_when b m)"
  by (simp add: act_when_def keeps_return)

lemma keeps_for: "(\<And>x. x \<in> set xs \<Longrightarrow> act_keeps R (f x)) \<Longrightarrow> act_keeps R (act_for xs f)"
  by (induction xs) (auto intro: keeps_return keeps_then)

lemma keeps_remote: "(\<And>w. R w (effect w)) \<Longrightarrow> act_keeps R (remote r effect x)"
  by (cases r) (simp_all add: act_keeps_def remote_def refl_R)

lemma keeps_read: "act_keeps R (\<lambda>w. remote r (\<lambda>v. v) (f w) w)"
  by (cases r) (simp_all add: act_keeps_def remote_def refl_R)

lemmas keeps_rules = keeps_return keeps_lift keeps_gets keeps_bind keeps_then keeps_when keeps_for
  keeps_remote keeps_read

end

definition spares :: "string \<Rightarrow> world \<Rightarrow> world \<Rightarrow> bool" where
  "spares prefix v w \<longleftrightarrow> set (w_bucket w) \<subseteq> set (w_bucket v) \<and>
     (\<forall>x \<in> set (w_bucket v). \<not> starts_with prefix (ob_key x) \<longrightarrow> x \<in> set (w_bucket w)) \<and>
     w_tokens w = w_tokens v \<and> w_next_token w = w_next_token v \<and> w_db w = w_db v"

interpretation spare: world_preorder "spares prefix"
  by unfold_locales (auto simp: spares_def)

lemma abort_spares: "act_keeps (spares p) (abort_multipart_uploads net prefix)"
  unfolding abort_multipart_uploads_def
  by (auto intro!: spare.keeps_rules simp: spares_def)

lemma delete_batch_spares:
  assumes "\<forall>k \<in> set keys. starts_with p k" "ks \<in> set (batches 1000 keys)"
  shows "act_keeps (spares p) (remote (net (DeleteObjects ks))
    (\<lambda>w. w\<lparr>w_bucket := filter (\<lambda>x. ob_key x \<notin> set ks) (w_bucket w)\<rparr>) ())"
proof -
  have "set ks \<subseteq> set keys" using assms(2) set_batches [of 1000 keys] by auto
  then show ?thesis using assms(1) by (intro spare.keeps_remote) (auto simp: spares_def)
qed

lemma cleanup_spares: "act_keeps (spares p) (cleanup_model_prefix net p)"
proof -
  have keys: "list_all (starts_with p) ks"
    if "remote (net (ListUploads p)) (\<lambda>v. v) (sort (map ob_key (objects_under p (w_bucket w)))) w = (Inr ks, v)"
    for w v ks
    using that by (auto simp: remote_def objects_under_def list_all_iff split: reply.splits)
  have batches: "act_keeps (spares p) (act_then (act_for (batches 1000 ks) (\<lambda>b. remote (net (DeleteObjects b))
      (\<lambda>w. w\<lparr>w_bucket := filter (\<lambda>x. ob_key x \<notin> set b) (w_bucket w)\<rparr>) ())) (act_return n))"
    if "list_all (starts_with p) ks" for ks n
    using that by (intro spare.keeps_then spare.keeps_for spare.keeps_return delete_batch_spares [of ks])
      (simp_all add: list_all_iff)
  show ?thesis
    unfolding cleanup_model_prefix_def
    by (auto intro: spare.keeps_lift
        intro!: spare.keeps_bind [OF abort_spares] spare.keeps_bind_value [OF spare.keeps_read keys batches])
qed

text \<open>
  Cleaning up an attempt's prefix, whatever the replies of the service, deletes only objects under
  that prefix: the uploads of the other attempts and registrations are all still there.
\<close>

lemma cleanup_spares_other_uploads:
  assumes "model_prefix r m = Inr p" and "model_prefix s n = Inr q" and "(r, m) \<noteq> (s, n)"
    and "cleanup_model_prefix net p w = (res, w')" and "x \<in> set (w_bucket w)" and "starts_with q (ob_key x)"
  shows "x \<in> set (w_bucket w')"
proof -
  have "\<not> starts_with p (ob_key x)"
    using model_prefixes_disjoint [OF assms(1,2)] assms(3,6) by (auto simp: starts_with_iff)
  then show ?thesis using cleanup_spares [of p net] assms(4,5)
    by (auto simp: act_keeps_def spares_def dest: spec [of _ w])
qed

end
