(* ===== verification/PrivateStore.thy ===== *)
theory PrivateStore
  imports UploadStore ChainIntake
begin

text \<open>
  Private uploads: the signals of the chain applied to the registrations
  (src/src/private_store/intake.py) and the access controller that drives a registration through its
  lifecycle (src/src/private_store/controller.py). Sealing credentials and verifying an upload are
  arguments; the model of verification is \<open>verify_manifest\<close>.
\<close>

record settings =
  ps_chain_generation :: string
  ps_max_attempts :: nat
  ps_max_strikes :: nat
  ps_window :: int
  ps_retention_hours :: int
  ps_bucket :: string
  ps_ttl :: int

section \<open>Signals of the chain\<close>

datatype signal_kind = Activate | Ready

record private_signal =
  sg_kind :: signal_kind
  sg_netuid :: int
  sg_uid :: "int option"
  sg_hotkey :: string
  sg_coldkey :: "string option"
  sg_block_number :: int
  sg_block_hash :: "string option"
  sg_payload :: string

text \<open>\<open>bytes.hex\<close>.\<close>

fun hex_of :: "string \<Rightarrow> string" where
  "hex_of [] = []"
| "hex_of (c # s) = hex_digit (of_char c div 16) # hex_digit (of_char c mod 16) # hex_of s"

definition new_registration :: "sess \<Rightarrow> private_signal \<Rightarrow> string \<Rightarrow> string \<Rightarrow> nat \<Rightarrow> registration" where
  "new_registration env s rid pubkey i = \<lparr>pr_id = i, pr_netuid = sg_netuid s, pr_uid = sg_uid s,
     pr_hotkey = sg_hotkey s, pr_coldkey = sg_coldkey s, pr_registration_id = rid,
     pr_state = ACTIVATED, pr_activation_block = sg_block_number s, pr_submission_pubkey = pubkey,
     pr_ready_block = None, pr_ready_block_hash = None, pr_manifest_sha256 = None,
     pr_model_digest = None, pr_parent_token_id = None, pr_credential_expires_at = None,
     pr_fault_message = None, pr_attempt_count = 1, pr_extra_attempts = 0, pr_model_prefix = None,
     pr_submission_id = None, pr_updated_at = se_now env\<rparr>"

text \<open>The WHERE of the update that starts the next attempt, and its SET.\<close>

definition reactivatable :: "settings \<Rightarrow> private_signal \<Rightarrow> string \<Rightarrow> string \<Rightarrow> registration \<Rightarrow> bool" where
  "reactivatable cfg s rid pubkey r \<longleftrightarrow> pr_registration_id r = rid \<and>
     (((pr_state r = ACTIVATED \<or> pr_state r = CREDENTIALED) \<and> pr_submission_pubkey r \<noteq> pubkey) \<or>
      (pr_state r = REG_SUBMITTED \<and> pr_submission_id r = None) \<or> pr_state r = FAILED) \<and>
     sg_block_number s > pr_activation_block r \<and>
     pr_attempt_count r < ps_max_attempts cfg + pr_extra_attempts r"

definition next_attempt :: "sess \<Rightarrow> private_signal \<Rightarrow> string \<Rightarrow> registration \<Rightarrow> registration" where
  "next_attempt env s pubkey r = r\<lparr>pr_submission_pubkey := pubkey,
     pr_attempt_count := Suc (pr_attempt_count r), pr_state := ACTIVATED,
     pr_activation_block := sg_block_number s, pr_credential_expires_at := None,
     pr_model_prefix := None, pr_coldkey := coalesce (sg_coldkey s) (pr_coldkey r),
     pr_updated_at := se_now env\<rparr>"

definition count_regs :: "(registration \<Rightarrow> bool) \<Rightarrow> db \<Rightarrow> nat" where
  "count_regs p d = length (filter p (registrations d))"

definition activate_registration ::
  "sess \<Rightarrow> settings \<Rightarrow> private_signal \<Rightarrow> string \<Rightarrow> string \<Rightarrow> (db, nat) tx" where
  "activate_registration env cfg s rid pubkey =
     tx_bind (tx_gets (is_used (sg_hotkey s))) (\<lambda>used.
     if used then tx_return 0
     else tx_bind (tx_gets (\<lambda>d. list_ex (\<lambda>r. pr_registration_id r = rid) (registrations d))) (\<lambda>known.
     if \<not> known
     then tx_bind tx_fresh (\<lambda>i.
       tx_then (stmt_regs (\<lambda>rs. rs @ [new_registration env s rid pubkey i])) (tx_return 1))
     else tx_bind (tx_gets (count_regs (reactivatable cfg s rid pubkey))) (\<lambda>n.
       tx_then (stmt_regs (update_where (reactivatable cfg s rid pubkey) (next_attempt env s pubkey)))
         (tx_return (if n = 0 then 0 else 1)))))"

definition apply_activate ::
  "(string \<Rightarrow> string) \<Rightarrow> sess \<Rightarrow> settings \<Rightarrow> private_signal \<Rightarrow> nat act" where
  "apply_activate sha env cfg s =
     (if sg_uid s = None then act_return 0
      else act_bind (act_lift (parse_activation_pubkey (sg_payload s))) (\<lambda>pubkey.
        act_bind (act_lift (registration_id sha (sg_netuid s) (sg_hotkey s) (ps_chain_generation cfg)))
          (\<lambda>rid. act_db (activate_registration env cfg s rid (hex_of pubkey)))))"

definition becomes_ready :: "private_signal \<Rightarrow> string \<Rightarrow> registration \<Rightarrow> bool" where
  "becomes_ready s rid r \<longleftrightarrow> pr_registration_id r = rid \<and> pr_state r = CREDENTIALED \<and>
     sg_block_number s > pr_activation_block r"

definition ready_registration :: "sess \<Rightarrow> private_signal \<Rightarrow> string \<Rightarrow> registration \<Rightarrow> registration" where
  "ready_registration env s m r = r\<lparr>pr_state := READY, pr_manifest_sha256 := Some m,
     pr_ready_block := Some (sg_block_number s), pr_ready_block_hash := sg_block_hash s,
     pr_updated_at := se_now env\<rparr>"

definition apply_ready ::
  "(string \<Rightarrow> string) \<Rightarrow> sess \<Rightarrow> settings \<Rightarrow> private_signal \<Rightarrow> nat act" where
  "apply_ready sha env cfg s =
     act_bind (act_lift (parse_ready_signal (sg_payload s))) (\<lambda>m.
     act_bind (act_lift (registration_id sha (sg_netuid s) (sg_hotkey s) (ps_chain_generation cfg)))
       (\<lambda>rid. act_db (tx_bind (tx_gets (count_regs (becomes_ready s rid))) (\<lambda>n.
          tx_then (stmt_regs (update_where (becomes_ready s rid) (ready_registration env s m)))
            (tx_return (if n = 0 then 0 else 1))))))"

definition apply_signal ::
  "(string \<Rightarrow> string) \<Rightarrow> sess \<Rightarrow> settings \<Rightarrow> private_signal \<Rightarrow> nat act" where
  "apply_signal sha env cfg s =
     (if sg_kind s = Activate then apply_activate sha env cfg s else apply_ready sha env cfg s)"

text \<open>A signal that raises is logged and skipped.\<close>

primrec handle_signals ::
  "(string \<Rightarrow> string) \<Rightarrow> sess \<Rightarrow> settings \<Rightarrow> private_signal list \<Rightarrow> world \<Rightarrow> nat \<times> world" where
  "handle_signals sha env cfg [] w = (0, w)"
| "handle_signals sha env cfg (s # ss) w = (case apply_signal sha env cfg s w of
     (Inl e, v) \<Rightarrow> handle_signals sha env cfg ss v
   | (Inr n, v) \<Rightarrow> (case handle_signals sha env cfg ss v of (m, u) \<Rightarrow> (n + m, u)))"

section \<open>Statements of the controller\<close>

definition upd_reg :: "nat \<Rightarrow> (registration \<Rightarrow> registration) \<Rightarrow> (db, unit) tx" where
  "upd_reg i f = stmt_regs (update_where (\<lambda>r. pr_id r = i) f)"

definition set_reg :: "nat \<Rightarrow> (registration \<Rightarrow> registration) \<Rightarrow> unit act" where
  "set_reg i f = act_db (upd_reg i f)"

text \<open>\<open>row["parent_token_id"]\<close> as a truth value: NULL and the empty text are false.\<close>

definition parent_token :: "registration \<Rightarrow> string option" where
  "parent_token r = (case pr_parent_token_id r of None \<Rightarrow> None | Some t \<Rightarrow> if t = [] then None else Some t)"

definition revoke_parent :: "net \<Rightarrow> registration \<Rightarrow> unit act" where
  "revoke_parent net r = (case parent_token r of None \<Rightarrow> act_return ()
     | Some t \<Rightarrow> revoke_parent_token net t)"

definition token_name :: "string \<Rightarrow> string" where
  "token_name rid = ''albedo-registration-'' @ rid"

definition prefix_of :: "registration \<Rightarrow> store_error + string" where
  "prefix_of r = (case or_text (pr_model_prefix r) None of
     Some p \<Rightarrow> Inr p | None \<Rightarrow> model_prefix (pr_registration_id r) 1)"

section \<open>What the miner is told\<close>

definition attempts_allowed :: "settings \<Rightarrow> registration \<Rightarrow> nat" where
  "attempts_allowed cfg r = ps_max_attempts cfg + pr_extra_attempts r"

definition attempts_left :: "settings \<Rightarrow> registration \<Rightarrow> nat" where
  "attempts_left cfg r = attempts_allowed cfg r - pr_attempt_count r"

definition effective_block :: "settings \<Rightarrow> nat \<Rightarrow> string \<Rightarrow> string" where
  "effective_block cfg strikes blocked =
     (if blocked = [] \<and> ps_max_strikes cfg - strikes = 0 then ''hotkey_preeval_blocked'' else blocked)"

definition next_step :: "settings \<Rightarrow> registration \<Rightarrow> bool \<Rightarrow> string \<Rightarrow> string" where
  "next_step cfg r retryable blocked =
     (if \<not> retryable then []
      else if blocked \<noteq> []
      then ''hotkey is blocked from further validation ('' @ blocked @ '')'' @ dash @ ''no retry''
      else if attempts_left cfg r \<noteq> 0
      then ''run `albedo activate` to use upload attempt '' @ show_nat (pr_attempt_count r + 1) @ '' of '' @
        show_nat (attempts_allowed cfg r)
      else ''no upload attempts left for this hotkey'')"

definition status_body ::
  "settings \<Rightarrow> nat \<Rightarrow> registration \<Rightarrow> string \<Rightarrow> string \<Rightarrow> int option \<Rightarrow> bool \<Rightarrow> string \<Rightarrow> json" where
  "status_body cfg strikes r step reason deadline retryable blocked0 =
     (let blocked = effective_block cfg strikes blocked0 in JObj
       [(''protocol_version'', JInt 1), (''registration_id'', JStr (pr_registration_id r)),
        (''upload_attempt'', JInt (int (pr_attempt_count r))),
        (''max_upload_attempts'', JInt (int (attempts_allowed cfg r))),
        (''upload_attempts_left'', JInt (int (attempts_left cfg r))),
        (''validation_strikes'', JInt (int strikes)),
        (''max_validation_strikes'', JInt (int (ps_max_strikes cfg))),
        (''validation_strikes_left'', JInt (int (ps_max_strikes cfg - strikes))),
        (''blocked'', JStr blocked), (''step'', JStr step), (''reason'', JStr reason),
        (''deadline'', jint deadline), (''next'', JStr (next_step cfg r retryable blocked))])"

text \<open>Published when it changed; whatever raises is logged and swallowed.\<close>

definition publish_status ::
  "net \<Rightarrow> sess \<Rightarrow> settings \<Rightarrow> registration \<Rightarrow> string \<Rightarrow> string \<Rightarrow> int option \<Rightarrow> bool \<Rightarrow> string \<Rightarrow> unit act" where
  "publish_status net env cfg r step reason deadline retryable blocked w =
     (let rid = pr_registration_id r;
          body = status_body cfg (hotkey_preeval_fail_count (pr_hotkey r) (w_db w)) r step reason
            deadline retryable blocked
      in if map_of (w_cache w) rid = Some body then (Inr (), w)
         else (Inr (), snd (act_bind (act_lift (mailbox_status_key rid)) (\<lambda>key.
           act_then (put_status net key (jmerge body (JObj [(''updated_at'', JInt (se_now env))])))
             (\<lambda>v. (Inr (), v\<lparr>w_cache := put_key rid body (w_cache v)\<rparr>))) w)))"

section \<open>One step of a registration\<close>

definition credentialed :: "sess \<Rightarrow> settings \<Rightarrow> string \<Rightarrow> string \<Rightarrow> registration \<Rightarrow> registration" where
  "credentialed env cfg token prefix r = r\<lparr>pr_state := CREDENTIALED, pr_parent_token_id := Some token,
     pr_credential_expires_at := Some (se_clock env + ps_ttl cfg), pr_model_prefix := Some prefix,
     pr_updated_at := se_now env\<rparr>"

definition credential ::
  "net \<Rightarrow> (string \<Rightarrow> string) \<Rightarrow> (registration \<Rightarrow> string \<Rightarrow> string \<Rightarrow> store_error + string) \<Rightarrow> sess \<Rightarrow>
     settings \<Rightarrow> registration \<Rightarrow> unit act" where
  "credential net sha seal env cfg r =
     (let rid = pr_registration_id r in
      act_bind (act_lift (model_prefix rid (pr_attempt_count r))) (\<lambda>prefix.
      act_then (revoke_parent net r)
      (act_bind (create_parent_token net (token_name rid)) (\<lambda>token.
      act_bind (act_lift (seal r prefix token)) (\<lambda>ciphertext.
      act_bind (act_lift (mailbox_object_key rid 1)) (\<lambda>key.
      act_bind (mailbox_delete net [key]) (\<lambda>_.
      act_then (mailbox_publish net sha key ciphertext)
      (act_then (set_reg (pr_id r) (credentialed env cfg token prefix))
        (publish_status net env cfg r (''credentials issued'' @ dash @ ''upload now, then commit ready'') []
          (Some (se_clock env + ps_window cfg)) False [])))))))))"

definition revoke ::
  "net \<Rightarrow> sess \<Rightarrow> settings \<Rightarrow> registration \<Rightarrow> unit act" where
  "revoke net env cfg r =
     act_then (revoke_parent net r)
     (act_bind (act_lift (mailbox_object_key (pr_registration_id r) 1)) (\<lambda>key.
      act_bind (mailbox_delete net [key]) (\<lambda>_.
      act_then (set_reg (pr_id r) (\<lambda>x. x\<lparr>pr_state := REVOKED, pr_updated_at := se_now env\<rparr>))
        (publish_status net env cfg r (''upload frozen'' @ dash @ ''verifying your manifest'') [] None False []))))"

definition failed_registration :: "sess \<Rightarrow> string \<Rightarrow> registration \<Rightarrow> registration" where
  "failed_registration env reason r = r\<lparr>pr_state := FAILED, pr_fault_message := Some reason,
     pr_updated_at := se_now env\<rparr>"

definition submission_payload :: "registration \<Rightarrow> manifest \<Rightarrow> json" where
  "submission_payload r m = JObj [(''version'', JStr ''r2''), (''registration_id'', JStr (pr_registration_id r)),
     (''attempt'', JInt (int (pr_attempt_count r))), (''digest'', JStr (''sha256:'' @ mn_model_digest m)),
     (''manifest_sha256'', jstr (pr_manifest_sha256 r)), (''model_name'', JStr (mn_model_name m))]"

text \<open>\<open>prefix.rstrip('/')\<close>.\<close>

definition rstrip_slash :: "string \<Rightarrow> string" where
  "rstrip_slash s = rev (dropWhile (\<lambda>c. c = CHR ''/'') (rev s))"

definition upload_commit ::
  "(string \<Rightarrow> string) \<Rightarrow> settings \<Rightarrow> registration \<Rightarrow> string \<Rightarrow> manifest \<Rightarrow> commit_info" where
  "upload_commit sha cfg r prefix m = \<lparr>cm_netuid = pr_netuid r,
     cm_block_number = (case pr_ready_block r of None \<Rightarrow> 0 | Some b \<Rightarrow> b),
     cm_block_hash = pr_ready_block_hash r, cm_extrinsic_hash = None,
     cm_uid = (case pr_uid r of None \<Rightarrow> 0 | Some u \<Rightarrow> u), cm_hotkey = pr_hotkey r,
     cm_payload = submission_payload r m,
     cm_model_uri = ''s3://'' @ ps_bucket cfg @ ''/'' @ rstrip_slash prefix @ ''@sha256:'' @ mn_model_digest m,
     cm_payload_hash = sha (dumps (submission_payload r m)), cm_coldkey = pr_coldkey r\<rparr>"

definition submission_of_commit :: "commit_info \<Rightarrow> db \<Rightarrow> nat option" where
  "submission_of_commit c d = (case find (same_commit c) (commits d) of None \<Rightarrow> None
     | Some x \<Rightarrow> cc_submission_id x)"

definition submitted_registration :: "sess \<Rightarrow> string \<Rightarrow> nat option \<Rightarrow> registration \<Rightarrow> registration" where
  "submitted_registration env digest sub r = r\<lparr>pr_state := REG_SUBMITTED, pr_model_digest := Some digest,
     pr_submission_id := sub, pr_updated_at := se_now env\<rparr>"

definition verify ::
  "net \<Rightarrow> (string \<Rightarrow> string) \<Rightarrow> (string \<Rightarrow> int \<Rightarrow> json \<Rightarrow> string option) \<Rightarrow>
     (registration \<Rightarrow> string \<Rightarrow> store_error + manifest) \<Rightarrow> sess \<Rightarrow> settings \<Rightarrow> registration \<Rightarrow> unit act" where
  "verify net sha put check env cfg r =
     act_bind (act_lift (prefix_of r)) (\<lambda>prefix.
     case check r prefix of
       Inl e \<Rightarrow>
         if \<not> integrity_error e then act_lift (Inl e)
         else act_bind (abort_multipart_uploads net prefix) (\<lambda>_.
           act_then (set_reg (pr_id r) (failed_registration env (error_message e)))
             (publish_status net env cfg r ''failed verification'' (error_message e) None True []))
     | Inr m \<Rightarrow>
         let c = upload_commit sha cfg r prefix m in
         act_bind (act_db (insert_new_commits put env [c])) (\<lambda>_.
         act_bind (act_gets (submission_of_commit c \<circ> w_db)) (\<lambda>sub.
         act_then (set_reg (pr_id r) (submitted_registration env (mn_model_digest m) sub))
           (publish_status net env cfg r (''verified'' @ dash @ ''queued for validation and evaluation'') []
              None False []))))"

text \<open>\<open>tick\<close>: the registration that waited longest takes its step; an exception only postpones it.\<close>

definition in_progress :: "registration \<Rightarrow> bool" where
  "in_progress r \<longleftrightarrow> pr_state r = ACTIVATED \<or> pr_state r = READY \<or> pr_state r = REVOKED"

definition next_registration :: "sess \<Rightarrow> db \<Rightarrow> registration option" where
  "next_registration env d = limit1 (sort_key pr_updated_at
     (filter (\<lambda>r. in_progress r \<and> se_free env (pr_id r)) (registrations d)))"

definition take_step ::
  "net \<Rightarrow> (string \<Rightarrow> string) \<Rightarrow> (registration \<Rightarrow> string \<Rightarrow> string \<Rightarrow> store_error + string) \<Rightarrow>
     (string \<Rightarrow> int \<Rightarrow> json \<Rightarrow> string option) \<Rightarrow> (registration \<Rightarrow> string \<Rightarrow> store_error + manifest) \<Rightarrow>
     sess \<Rightarrow> settings \<Rightarrow> registration \<Rightarrow> unit act" where
  "take_step net sha seal put check env cfg r =
     (if pr_state r = ACTIVATED then credential net sha seal env cfg r
      else if pr_state r = READY then revoke net env cfg r
      else verify net sha put check env cfg r)"

definition tick ::
  "net \<Rightarrow> (string \<Rightarrow> string) \<Rightarrow> (registration \<Rightarrow> string \<Rightarrow> string \<Rightarrow> store_error + string) \<Rightarrow>
     (string \<Rightarrow> int \<Rightarrow> json \<Rightarrow> string option) \<Rightarrow> (registration \<Rightarrow> string \<Rightarrow> store_error + manifest) \<Rightarrow>
     sess \<Rightarrow> settings \<Rightarrow> world \<Rightarrow> bool \<times> world" where
  "tick net sha seal put check env cfg w = (case next_registration env (w_db w) of
     None \<Rightarrow> (False, w)
   | Some r \<Rightarrow> (case take_step net sha seal put check env cfg r w of
       (Inr _, v) \<Rightarrow> (True, v)
     | (Inl e, v) \<Rightarrow> (True, snd (set_reg (pr_id r) (\<lambda>x. x\<lparr>pr_updated_at := se_now env\<rparr>) v))))"

section \<open>Closing upload windows\<close>

text \<open>\<open>row\<close> is the row the sweep selected earlier: the final update does not look at its state again.\<close>

definition close_upload_window ::
  "net \<Rightarrow> sess \<Rightarrow> settings \<Rightarrow> registration \<Rightarrow> string \<Rightarrow> unit act" where
  "close_upload_window net env cfg row reason =
     act_then (revoke_parent net row)
     (act_bind (act_lift (mailbox_object_key (pr_registration_id row) 1)) (\<lambda>key.
      act_bind (mailbox_delete net [key]) (\<lambda>_.
      act_bind (act_lift (prefix_of row)) (\<lambda>prefix.
      act_bind (abort_multipart_uploads net prefix) (\<lambda>_.
      act_then (set_reg (pr_id row) (failed_registration env reason))
        (publish_status net env cfg row (''failed'' @ dash @ ''upload window closed'') reason None True []))))))"

definition window_reason ::
  "(string \<Rightarrow> store_error + page list) \<Rightarrow> int \<Rightarrow> sess \<Rightarrow> settings \<Rightarrow> registration \<Rightarrow> store_error + string option" where
  "window_reason listing limit env cfg row = (let age = se_now env - pr_updated_at row in
     if age > ps_window cfg
     then Inr (Some (''upload window expired ('' @ show_int age @ ''s with no ready signal)''))
     else and_then (prefix_of row) (\<lambda>prefix. and_then (listing prefix) (\<lambda>pages.
       Inr (case quota_breach limit pages of None \<Rightarrow> None
         | Some breach \<Rightarrow> Some (''upload quota abused: '' @ breach)))))"

primrec sweep_rows ::
  "net \<Rightarrow> (string \<Rightarrow> store_error + page list) \<Rightarrow> int \<Rightarrow> sess \<Rightarrow> settings \<Rightarrow> registration list \<Rightarrow> nat act" where
  "sweep_rows net listing limit env cfg [] = act_return 0"
| "sweep_rows net listing limit env cfg (row # rows) =
     act_bind (act_lift (window_reason listing limit env cfg row)) (\<lambda>reason. case reason of
       None \<Rightarrow> sweep_rows net listing limit env cfg rows
     | Some why \<Rightarrow> act_then (close_upload_window net env cfg row why)
         (act_bind (sweep_rows net listing limit env cfg rows) (\<lambda>n. act_return (Suc n))))"

definition sweep_credentialed ::
  "net \<Rightarrow> (string \<Rightarrow> store_error + page list) \<Rightarrow> int \<Rightarrow> sess \<Rightarrow> settings \<Rightarrow> nat act" where
  "sweep_credentialed net listing limit env cfg =
     act_bind (act_gets (\<lambda>w. filter (\<lambda>r. pr_state r = CREDENTIALED) (registrations (w_db w))))
       (sweep_rows net listing limit env cfg)"

section \<open>Reaping\<close>

definition reapable_states :: "sub_state list" where
  "reapable_states = [COMPLETE_LOSS, TERMINAL_INVALID, TERMINAL_INFRA_FAILED]"

definition plan_reap :: "(string \<times> int) list \<Rightarrow> int \<Rightarrow> string list \<Rightarrow> string list" where
  "plan_reap retained cutoff protected =
     sort (map fst (filter (\<lambda>(p, newest). newest < cutoff \<and> p \<notin> set protected) retained))"

text \<open>LEFT JOIN model_submissions; a registration without one has the state \<open>''\<close>.\<close>

definition needs_upload :: "db \<Rightarrow> registration \<Rightarrow> bool" where
  "needs_upload d r \<longleftrightarrow> pr_state r \<noteq> FAILED \<and> \<not> (pr_state r = REG_SUBMITTED \<and> pr_submission_id r = None) \<and>
     (case pr_submission_id r of None \<Rightarrow> True
      | Some i \<Rightarrow> (case find_sub i d of None \<Rightarrow> True | Some s \<Rightarrow> ms_state s \<notin> set reapable_states))"

primrec prefixes_of :: "registration list \<Rightarrow> store_error + string list" where
  "prefixes_of [] = Inr []"
| "prefixes_of (r # rs) = and_then (prefix_of r) (\<lambda>p. and_then (prefixes_of rs) (\<lambda>ps. Inr (p # ps)))"

definition protected_prefixes :: "db \<Rightarrow> store_error + string list" where
  "protected_prefixes d = prefixes_of (filter (needs_upload d) (registrations d))"

text \<open>A prefix whose cleaning raises is kept for the next round.\<close>

primrec reap_prefixes :: "net \<Rightarrow> string list \<Rightarrow> world \<Rightarrow> nat \<times> world" where
  "reap_prefixes net [] w = (0, w)"
| "reap_prefixes net (p # ps) w = (case cleanup_model_prefix net p w of
     (Inl e, v) \<Rightarrow> reap_prefixes net ps v
   | (Inr n, v) \<Rightarrow> (case reap_prefixes net ps v of (m, u) \<Rightarrow> (Suc m, u)))"

definition reap_expired :: "net \<Rightarrow> sess \<Rightarrow> settings \<Rightarrow> nat act" where
  "reap_expired net env cfg w =
     (let cutoff = se_clock env - ps_retention_hours cfg * 3600;
          retained = retained_uploads (w_bucket w)
      in case protected_prefixes (w_db w) of
        Inl e \<Rightarrow> (Inl e, w)
      | Inr protected \<Rightarrow> (case reap_prefixes net (plan_reap retained cutoff protected) w of
          (n, v) \<Rightarrow> (Inr n, v)))"

section \<open>Retries\<close>

text \<open>The two ILIKE patterns of the sanity strikes.\<close>

definition sanity_blocked :: "string \<Rightarrow> db \<Rightarrow> bool" where
  "sanity_blocked hk d \<longleftrightarrow> list_ex (\<lambda>s. \<not> sr_passed s \<and>
     (str_contains ''injection'' (lower (sr_reason s)) \<or> str_contains ''low vocab'' (lower (sr_reason s))) \<and>
     list_ex (\<lambda>r. ms_hotkey r = hk \<and> ms_model_uri r = sr_repo s) (submissions d)) (sanity_results d)"

definition newest_block :: "db \<Rightarrow> int option" where
  "newest_block d = (case commits d of [] \<Rightarrow> None
     | c # cs \<Rightarrow> Some (foldl (\<lambda>b x. max b (cc_block_number x)) (cc_block_number c) cs))"

definition parked_registration :: "sess \<Rightarrow> db \<Rightarrow> registration \<Rightarrow> registration" where
  "parked_registration env d r = r\<lparr>
     pr_activation_block := (case newest_block d of None \<Rightarrow> pr_activation_block r
       | Some b \<Rightarrow> max (pr_activation_block r) b),
     pr_parent_token_id := None, pr_credential_expires_at := None, pr_model_prefix := None,
     pr_ready_block := None, pr_ready_block_hash := None, pr_manifest_sha256 := None,
     pr_model_digest := None, pr_submission_id := None, pr_fault_message := None,
     pr_updated_at := se_now env\<rparr>"

definition reset_for_retry ::
  "net \<Rightarrow> sess \<Rightarrow> settings \<Rightarrow> registration \<Rightarrow> string option \<Rightarrow> unit act" where
  "reset_for_retry net env cfg row code =
     act_then (act_bind (act_gets w_db) (\<lambda>d. set_reg (pr_id row) (parked_registration env d)))
       (publish_status net env cfg row ''last attempt did not pass validation''
          (case code of None \<Rightarrow> [] | Some c \<Rightarrow> c) None True [])"

definition blocked_fault_codes :: "string list" where
  "blocked_fault_codes = [''hotkey_reregistered'', ''hotkey_sanity_blocked'', ''hotkey_preeval_blocked'',
     ''hotkey_already_validated'', ''hotkey_duplicate_blocked'']"

definition retry_block :: "settings \<Rightarrow> string option \<Rightarrow> string \<Rightarrow> db \<Rightarrow> string" where
  "retry_block cfg code hk d =
     (case code of Some c \<Rightarrow> if c \<in> set blocked_fault_codes then c
          else if sanity_blocked hk d then ''hotkey_sanity_blocked''
          else if hotkey_preeval_fail_count hk d \<ge> ps_max_strikes cfg then ''hotkey_preeval_blocked'' else []
      | None \<Rightarrow> if sanity_blocked hk d then ''hotkey_sanity_blocked''
          else if hotkey_preeval_fail_count hk d \<ge> ps_max_strikes cfg then ''hotkey_preeval_blocked'' else [])"

definition terminal_rows :: "settings \<Rightarrow> db \<Rightarrow> (registration \<times> string option) list" where
  "terminal_rows cfg d = List.map_filter (\<lambda>r. case pr_submission_id r of None \<Rightarrow> None
     | Some i \<Rightarrow> (case find_sub i d of None \<Rightarrow> None
       | Some s \<Rightarrow> if pr_state r = REG_SUBMITTED \<and> ms_state s = TERMINAL_INVALID \<and>
            pr_attempt_count r < ps_max_attempts cfg + pr_extra_attempts r
          then Some (r, ms_fault_code s) else None)) (registrations d)"

primrec resubmit_rows ::
  "net \<Rightarrow> sess \<Rightarrow> settings \<Rightarrow> (registration \<times> string option) list \<Rightarrow> nat act" where
  "resubmit_rows net env cfg [] = act_return 0"
| "resubmit_rows net env cfg (x # xs) = (case x of (row, code) \<Rightarrow>
     act_bind (act_gets (retry_block cfg code (pr_hotkey row) \<circ> w_db)) (\<lambda>blocked.
     if blocked \<noteq> []
     then act_then (publish_status net env cfg row ''last attempt did not pass validation''
            (case code of None \<Rightarrow> [] | Some c \<Rightarrow> c) None True blocked) (resubmit_rows net env cfg xs)
     else act_then (reset_for_retry net env cfg row code)
       (act_bind (resubmit_rows net env cfg xs) (\<lambda>n. act_return (Suc n)))))"

definition resubmit_terminal :: "net \<Rightarrow> sess \<Rightarrow> settings \<Rightarrow> nat act" where
  "resubmit_terminal net env cfg = act_bind (act_gets (terminal_rows cfg \<circ> w_db)) (resubmit_rows net env cfg)"

section \<open>Actions that may fail halfway\<close>

text \<open>
  From a world with \<open>P\<close>, an action that returns \<open>x\<close> ends with \<open>Q x\<close>, and one that raises ends with
  \<open>E\<close>: what the remote services and the database are left with in every case.
\<close>

definition act_valid ::
  "(world \<Rightarrow> bool) \<Rightarrow> 'a act \<Rightarrow> ('a \<Rightarrow> world \<Rightarrow> bool) \<Rightarrow> (world \<Rightarrow> bool) \<Rightarrow> bool" where
  "act_valid P m Q E \<longleftrightarrow> (\<forall>w. P w \<longrightarrow> (case m w of (Inl e, v) \<Rightarrow> E v | (Inr x, v) \<Rightarrow> Q x v))"

lemma av_return: "(\<And>w. P w \<Longrightarrow> Q x w) \<Longrightarrow> act_valid P (act_return x) Q E"
  by (simp add: act_valid_def act)

lemma av_lift: "(\<And>w x. P w \<Longrightarrow> r = Inr x \<Longrightarrow> Q x w) \<Longrightarrow> (\<And>w. P w \<Longrightarrow> E w) \<Longrightarrow> act_valid P (act_lift r) Q E"
  by (simp add: act_valid_def act split: sum.splits)

lemma av_gets: "(\<And>w. P w \<Longrightarrow> Q (f w) w) \<Longrightarrow> act_valid P (act_gets f) Q E"
  by (simp add: act_valid_def act)

lemma av_bind: "act_valid P m R E \<Longrightarrow> (\<And>x. act_valid (R x) (f x) Q E) \<Longrightarrow> act_valid P (act_bind m f) Q E"
  by (fastforce simp: act_valid_def act split: prod.splits sum.splits)

lemma av_then: "act_valid P m (\<lambda>_. R) E \<Longrightarrow> act_valid R n Q E \<Longrightarrow> act_valid P (act_then m n) Q E"
  unfolding act_then_def by (rule av_bind)

lemma av_for: "(\<And>x. x \<in> set xs \<Longrightarrow> act_valid P (f x) (\<lambda>_. P) E) \<Longrightarrow> act_valid P (act_for xs f) (\<lambda>_. P) E"
  by (induction xs) (auto intro: av_return av_then)

lemma av_remote:
  "(\<And>w. P w \<Longrightarrow> Q x (effect w) \<and> E (effect w) \<and> E w) \<Longrightarrow> act_valid P (remote r effect x) Q E"
  by (cases r) (simp_all add: act_valid_def remote_def)

lemma av_read:
  "(\<And>w. P w \<Longrightarrow> Q (f w) w \<and> E w) \<Longrightarrow> act_valid P (\<lambda>w. remote r (\<lambda>v. v) (f w) w) Q E"
  by (cases r) (simp_all add: act_valid_def remote_def)

lemma av_weaken:
  "act_valid P m Q E \<Longrightarrow> (\<And>w. P' w \<Longrightarrow> P w) \<Longrightarrow> (\<And>x w. Q x w \<Longrightarrow> Q' x w) \<Longrightarrow> (\<And>w. E w \<Longrightarrow> E' w) \<Longrightarrow>
     act_valid P' m Q' E'"
  by (fastforce simp: act_valid_def split: prod.splits sum.splits)

lemma av_db:
  "(\<And>w x d. P w \<Longrightarrow> m (w_db w) = Inr (x, d) \<Longrightarrow> Q x (w\<lparr>w_db := d\<rparr>)) \<Longrightarrow> (\<And>w. P w \<Longrightarrow> E w) \<Longrightarrow>
     act_valid P (act_db m) Q E"
  by (auto simp: act_valid_def act_db_def split: sum.splits prod.splits)

lemma av_const: "act_valid P m Q E \<Longrightarrow> act_valid (\<lambda>w. P w \<and> C) m (\<lambda>x w. Q x w \<and> C) E"
  by (fastforce simp: act_valid_def split: prod.splits sum.splits)

lemma av_dest: "act_valid P m Q E \<Longrightarrow> P w \<Longrightarrow> m w = (res, v) \<Longrightarrow> (case res of Inl e \<Rightarrow> E v | Inr x \<Rightarrow> Q x v)"
  by (fastforce simp: act_valid_def split: sum.splits)

section \<open>The invariant of the private store\<close>

text \<open>
  Between the mint and the freeze the only live token of a registration is the one its row names;
  from the freeze on it has none. An activated row may have orphans of an interrupted mint.
\<close>

definition reg_inv :: "settings \<Rightarrow> (string \<times> string) list \<Rightarrow> registration \<Rightarrow> bool" where
  "reg_inv cfg tokens r \<longleftrightarrow> 1 \<le> pr_attempt_count r \<and> pr_attempt_count r \<le> attempts_allowed cfg r \<and>
     (\<forall>p. pr_model_prefix r = Some p \<longrightarrow> model_prefix (pr_registration_id r) (pr_attempt_count r) = Inr p) \<and>
     (\<forall>i. (i, token_name (pr_registration_id r)) \<in> set tokens \<longrightarrow>
        pr_state r = ACTIVATED \<or> ((pr_state r = CREDENTIALED \<or> pr_state r = READY) \<and> parent_token r = Some i))"

definition tokens_inv :: "nat \<Rightarrow> (string \<times> string) list \<Rightarrow> bool" where
  "tokens_inv n ts \<longleftrightarrow> (\<forall>(i, _) \<in> set ts. \<exists>k < n. i = token_text k)"

definition regs_inv :: "settings \<Rightarrow> (string \<times> string) list \<Rightarrow> db \<Rightarrow> bool" where
  "regs_inv cfg ts d \<longleftrightarrow> keys_below (next_id d) (map pr_id (registrations d)) \<and> regs_ok (registrations d) \<and>
     (\<forall>r \<in> set (registrations d). reg_inv cfg ts r)"

definition store_inv :: "settings \<Rightarrow> world \<Rightarrow> bool" where
  "store_inv cfg w \<longleftrightarrow> tokens_inv (w_next_token w) (w_tokens w) \<and> regs_inv cfg (w_tokens w) (w_db w)"

lemma token_text_inj [simp]: "token_text m = token_text n \<longleftrightarrow> m = n"
  by (simp add: token_text_def show_nat_inj)

lemma token_text_nonempty [simp]: "token_text m \<noteq> []"
  by (simp add: token_text_def)

lemma token_name_inj [simp]: "token_name a = token_name b \<longleftrightarrow> a = b"
  by (simp add: token_name_def)

lemma regs_same_id:
  "regs_inv cfg ts d \<Longrightarrow> r \<in> set (registrations d) \<Longrightarrow> s \<in> set (registrations d) \<Longrightarrow> pr_id r = pr_id s \<Longrightarrow> r = s"
  using keys_below_same [of "next_id d" pr_id "registrations d" r s] by (simp add: regs_inv_def)

lemma regs_same_rid:
  assumes "regs_inv cfg ts d" "r \<in> set (registrations d)" "s \<in> set (registrations d)"
    "pr_registration_id r = pr_registration_id s"
  shows "r = s"
proof -
  have "distinct (map pr_registration_id (registrations d))"
    using assms(1) by (simp add: regs_inv_def regs_ok_def o_def unique_by_distinct)
  then show ?thesis using assms(2-4) by (auto simp: distinct_map dest: inj_onD)
qed

text \<open>An update of rows that keeps their keys.\<close>

definition keeps_reg_keys :: "(registration \<Rightarrow> registration) \<Rightarrow> bool" where
  "keeps_reg_keys f \<longleftrightarrow> (\<forall>r. pr_id (f r) = pr_id r \<and> pr_registration_id (f r) = pr_registration_id r \<and>
     pr_netuid (f r) = pr_netuid r \<and> pr_hotkey (f r) = pr_hotkey r)"

lemma regs_ok_update: "keeps_reg_keys f \<Longrightarrow> regs_ok rs \<Longrightarrow> regs_ok (update_where p f rs)"
  by (auto simp: regs_ok_def keeps_reg_keys_def intro!: unique_by_update)

lemma regs_inv_update:
  assumes "regs_inv cfg ts d" "keeps_reg_keys f"
    and "\<And>r. r \<in> set (registrations d) \<Longrightarrow> p r \<Longrightarrow> reg_inv cfg ts' (f r)"
    and "\<And>r. r \<in> set (registrations d) \<Longrightarrow> \<not> p r \<Longrightarrow> reg_inv cfg ts' r"
  shows "regs_inv cfg ts' (d\<lparr>registrations := update_where p f (registrations d)\<rparr>)"
  using assms regs_ok_update [OF assms(2)] map_update_where [of "registrations d" p pr_id f]
  by (auto simp: regs_inv_def keeps_reg_keys_def elim!: update_whereE)

lemma reg_inv_fewer: "reg_inv cfg ts r \<Longrightarrow> set us \<subseteq> set ts \<Longrightarrow> reg_inv cfg us r"
  unfolding reg_inv_def by blast

lemma store_inv_fewer:
  assumes "store_inv cfg w" "set (w_tokens v) \<subseteq> set (w_tokens w)" "w_next_token v = w_next_token w"
    "registrations (w_db v) = registrations (w_db w)" "next_id (w_db w) \<le> next_id (w_db v)"
  shows "store_inv cfg v"
  using assms reg_inv_fewer [OF _ assms(2)] keys_below_mono
  by (fastforce simp: store_inv_def tokens_inv_def regs_inv_def)

section \<open>The parts of a step\<close>

lemma mailbox_delete_keeps: "P = (\<lambda>w. J (w_db w) (w_tokens w) (w_next_token w)) \<Longrightarrow>
    act_valid P (mailbox_delete net keys) (\<lambda>_. P) P"
  unfolding mailbox_delete_def Let_def
  by (auto intro!: av_lift av_then [where R = P] av_for av_remote av_return)

lemma mailbox_publish_keeps: "P = (\<lambda>w. J (w_db w) (w_tokens w) (w_next_token w)) \<Longrightarrow>
    act_valid P (mailbox_publish net sha key c) (\<lambda>_. P) P"
  unfolding mailbox_publish_def
  by (rule av_bind [where R = "\<lambda>_. P"]) (auto intro!: av_read av_lift av_return av_remote split: option.split)

lemma abort_keeps: "P = (\<lambda>w. J (w_db w) (w_tokens w) (w_next_token w)) \<Longrightarrow>
    act_valid P (abort_multipart_uploads net prefix) (\<lambda>_. P) P"
  unfolding abort_multipart_uploads_def
  by (auto intro!: av_lift av_bind [where R = "\<lambda>_. P"] av_then [where R = P] av_for av_read av_remote av_return)

lemma publish_status_keeps: "P = (\<lambda>w. J (w_db w) (w_tokens w) (w_next_token w)) \<Longrightarrow>
    act_valid P (publish_status net env cfg r step reason deadline retryable blocked) (\<lambda>_. P) E"
  by (auto simp: act_valid_def publish_status_def Let_def act put_status_def remote_def
      split: sum.splits prod.splits reply.splits)

lemma revoke_parent_keeps:
  assumes "\<And>w i. P w \<Longrightarrow> P (without_token i w)"
  shows "act_valid P (revoke_parent net r) (\<lambda>_ w. P w \<and> (\<forall>i n. parent_token r = Some i \<longrightarrow> (i, n) \<notin> set (w_tokens w))) P"
  unfolding revoke_parent_def revoke_parent_token_def
  by (cases "parent_token r") (use assms in \<open>auto intro!: av_return av_remote simp: without_token_def\<close>)

section \<open>Every step keeps the invariant\<close>

definition inv_parts :: "settings \<Rightarrow> db \<Rightarrow> (string \<times> string) list \<Rightarrow> nat \<Rightarrow> bool" where
  "inv_parts cfg d ts n \<longleftrightarrow> tokens_inv n ts \<and> regs_inv cfg ts d"

lemma store_inv_parts: "store_inv cfg w \<longleftrightarrow> inv_parts cfg (w_db w) (w_tokens w) (w_next_token w)"
  by (simp add: store_inv_def inv_parts_def)

text \<open>The world while the row \<open>r\<close>, locked by the step, has not been written yet.\<close>

definition stepping :: "settings \<Rightarrow> registration \<Rightarrow> world \<Rightarrow> bool" where
  "stepping cfg r = (\<lambda>w. inv_parts cfg (w_db w) (w_tokens w) (w_next_token w) \<and> r \<in> set (registrations (w_db w)))"

lemma stepping_inv: "stepping cfg r w \<Longrightarrow> store_inv cfg w"
  by (simp add: stepping_def store_inv_parts)

lemma inv_parts_fewer: "inv_parts cfg d ts n \<Longrightarrow> set us \<subseteq> set ts \<Longrightarrow> inv_parts cfg d us n"
  using reg_inv_fewer by (fastforce simp: inv_parts_def tokens_inv_def regs_inv_def)

lemma stepping_without_token: "stepping cfg r w \<Longrightarrow> stepping cfg r (without_token i w)"
  by (auto simp: stepping_def without_token_def elim!: inv_parts_fewer)

lemma stepping_with_token:
  assumes "stepping cfg r w" "pr_state r = ACTIVATED"
  shows "stepping cfg r (with_token (token_name (pr_registration_id r)) w)"
proof -
  let ?ts = "w_tokens w @ [(token_text (w_next_token w), token_name (pr_registration_id r))]"
  have inv: "tokens_inv (w_next_token w) (w_tokens w)" "regs_inv cfg (w_tokens w) (w_db w)"
    and r: "r \<in> set (registrations (w_db w))"
    using assms(1) by (auto simp: stepping_def inv_parts_def)
  have "reg_inv cfg ?ts s" if "s \<in> set (registrations (w_db w))" for s
  proof (cases "s = r")
    case True
    then show ?thesis using inv(2) r assms(2) by (auto simp: regs_inv_def reg_inv_def)
  next
    case False
    then have "pr_registration_id s \<noteq> pr_registration_id r" using regs_same_rid [OF inv(2) that r] by blast
    then show ?thesis using inv(2) that by (auto simp: regs_inv_def reg_inv_def)
  qed
  moreover have "tokens_inv (Suc (w_next_token w)) ?ts"
    using inv(1) by (auto simp: tokens_inv_def less_Suc_eq)
  ultimately show ?thesis
    using inv r by (simp add: stepping_def inv_parts_def regs_inv_def with_token_def)
qed

abbreviation only_token :: "string \<Rightarrow> string \<Rightarrow> world \<Rightarrow> bool" where
  "only_token name t w \<equiv> \<forall>i. (i, name) \<in> set (w_tokens w) \<longrightarrow> i = t"

lemma revoke_existing:
  "act_valid (\<lambda>w. stepping cfg r w \<and> (\<forall>i. (i, name) \<in> set (w_tokens w) \<longrightarrow> i \<in> set ids))
     (act_for ids (revoke_parent_token net))
     (\<lambda>_ w. stepping cfg r w \<and> (\<forall>i. (i, name) \<notin> set (w_tokens w))) (stepping cfg r)"
proof (induction ids)
  case Nil
  then show ?case by (auto intro: av_return)
next
  case (Cons j ids)
  have "act_valid (\<lambda>w. stepping cfg r w \<and> (\<forall>i. (i, name) \<in> set (w_tokens w) \<longrightarrow> i \<in> set (j # ids)))
     (revoke_parent_token net j)
     (\<lambda>_ w. stepping cfg r w \<and> (\<forall>i. (i, name) \<in> set (w_tokens w) \<longrightarrow> i \<in> set ids)) (stepping cfg r)"
    unfolding revoke_parent_token_def
    by (rule av_remote) (auto intro: stepping_without_token, auto simp: without_token_def)
  then show ?case using Cons by (auto intro: av_then)
qed

lemma create_valid:
  assumes "pr_state r = ACTIVATED"
  shows "act_valid (stepping cfg r) (create_parent_token net (token_name (pr_registration_id r)))
    (\<lambda>t w. stepping cfg r w \<and> only_token (token_name (pr_registration_id r)) t w \<and> t \<noteq> []) (stepping cfg r)"
proof -
  let ?name = "token_name (pr_registration_id r)"
  let ?none = "\<lambda>w. stepping cfg r w \<and> (\<forall>i. (i, ?name) \<notin> set (w_tokens w))"
  have "act_valid (stepping cfg r) (existing_token_ids net ?name)
      (\<lambda>ids w. stepping cfg r w \<and> (\<forall>i. (i, ?name) \<in> set (w_tokens w) \<longrightarrow> i \<in> set ids)) (stepping cfg r)"
    by (auto simp: act_valid_def existing_token_ids_def remote_def split: reply.splits) force+
  moreover have "act_valid ?none (remote (net PermissionGroups) (\<lambda>v. v) ()) (\<lambda>_. ?none) (stepping cfg r)"
    by (rule av_remote) auto
  moreover have "act_valid ?none
      (\<lambda>w. remote (net (CreateToken ?name)) (with_token ?name) (token_text (w_next_token w)) w)
      (\<lambda>t w. stepping cfg r w \<and> only_token ?name t w \<and> t \<noteq> []) (stepping cfg r)"
    using stepping_with_token [OF _ assms]
    by (auto simp: act_valid_def remote_def with_token_def split: reply.splits)
  ultimately show ?thesis
    unfolding create_parent_token_def by (blast intro: av_bind av_then revoke_existing)
qed

lemma set_reg_valid:
  assumes "\<And>w. P w \<Longrightarrow> stepping cfg r w" "\<And>w. P w \<Longrightarrow> reg_inv cfg (w_tokens w) (f r)" "keeps_reg_keys f"
  shows "act_valid P (set_reg (pr_id r) f) (\<lambda>_. store_inv cfg) P"
  unfolding set_reg_def upd_reg_def stmt_regs_def
proof (rule av_db)
  fix w x d
  assume w: "P w" and run: "tx_stmt (UniqueViolation ''private_registrations'') (\<lambda>d. regs_ok (registrations d))
      (\<lambda>d. d\<lparr>registrations := update_where (\<lambda>q. pr_id q = pr_id r) f (registrations d)\<rparr>) (w_db w) = Inr (x, d)"
  have d: "d = (w_db w)\<lparr>registrations := update_where (\<lambda>q. pr_id q = pr_id r) f (registrations (w_db w))\<rparr>"
    using run by (auto simp: tx_stmt_def split: if_splits)
  have inv: "regs_inv cfg (w_tokens w) (w_db w)" "r \<in> set (registrations (w_db w))"
    using assms(1) [OF w] by (auto simp: stepping_def inv_parts_def)
  have "regs_inv cfg (w_tokens w) d"
    unfolding d
    by (rule regs_inv_update [OF inv(1) assms(3)])
       (use inv regs_same_id [OF inv(1) _ inv(2)] assms(2) [OF w] in \<open>auto simp: regs_inv_def\<close>)
  then show "store_inv cfg (w\<lparr>w_db := d\<rparr>)"
    using assms(1) [OF w] by (simp add: store_inv_def stepping_def inv_parts_def)
qed

lemma publish_valid: "act_valid (store_inv cfg)
    (publish_status net env cfg r step reason deadline retryable blocked) (\<lambda>_. store_inv cfg) E"
  by (rule publish_status_keeps [of _ "inv_parts cfg"]) (auto simp: store_inv_parts)

lemma credential_valid:
  assumes "pr_state r = ACTIVATED"
  shows "act_valid (stepping cfg r) (credential net sha seal env cfg r) (\<lambda>_. store_inv cfg) (store_inv cfg)"
proof -
  let ?name = "token_name (pr_registration_id r)"
  let ?M = "\<lambda>prefix w. stepping cfg r w \<and> model_prefix (pr_registration_id r) (pr_attempt_count r) = Inr prefix"
  let ?P = "\<lambda>prefix t w. ?M prefix w \<and> only_token ?name t w \<and> t \<noteq> []"
  let ?E = "stepping cfg r"
  have prefix: "act_valid ?E (act_lift (model_prefix (pr_registration_id r) (pr_attempt_count r))) ?M ?E"
    by (rule av_lift) auto
  have revoke: "act_valid (?M prefix) (revoke_parent net r) (\<lambda>_. ?M prefix) ?E" for prefix
    by (rule av_weaken [OF revoke_parent_keeps [of "?M prefix"]]) (auto intro: stepping_without_token)
  have create: "act_valid (?M prefix) (create_parent_token net ?name) (?P prefix) ?E" for prefix
    by (rule av_weaken [OF av_const [OF create_valid [OF assms],
        where C = "model_prefix (pr_registration_id r) (pr_attempt_count r) = Inr prefix"]]) auto
  have lift: "act_valid (?P prefix t) (act_lift res) (\<lambda>_. ?P prefix t) ?E" for prefix t and res :: "store_error + string"
    by (rule av_lift) auto
  have mail: "act_valid (?P prefix t) (mailbox_delete net keys) (\<lambda>_. ?P prefix t) (?P prefix t)"
    "act_valid (?P prefix t) (mailbox_publish net sha key c) (\<lambda>_. ?P prefix t) (?P prefix t)" for prefix t keys key c
    by (rule mailbox_delete_keeps mailbox_publish_keeps; simp add: stepping_def)+
  have mail: "act_valid (?P prefix t) (mailbox_delete net keys) (\<lambda>_. ?P prefix t) ?E"
    "act_valid (?P prefix t) (mailbox_publish net sha key c) (\<lambda>_. ?P prefix t) ?E" for prefix t keys key c
    by (rule av_weaken [OF mail(1)], auto, rule av_weaken [OF mail(2)], auto)
  have row: "act_valid (?P prefix t) (set_reg (pr_id r) (credentialed env cfg t prefix)) (\<lambda>_. store_inv cfg) (?P prefix t)"
    for prefix t
    by (rule set_reg_valid)
       (auto simp: credentialed_def keeps_reg_keys_def stepping_def inv_parts_def regs_inv_def reg_inv_def
          parent_token_def attempts_allowed_def)
  have row: "act_valid (?P prefix t) (set_reg (pr_id r) (credentialed env cfg t prefix)) (\<lambda>_. store_inv cfg) ?E"
    for prefix t
    by (rule av_weaken [OF row]) auto
  have "act_valid ?E (credential net sha seal env cfg r) (\<lambda>_. store_inv cfg) ?E"
    unfolding credential_def Let_def
    by (rule av_bind [OF prefix], rule av_then [OF revoke], rule av_bind [OF create], rule av_bind [OF lift],
        rule av_bind [OF lift], rule av_bind [OF mail(1)], rule av_then [OF mail(2)], rule av_then [OF row],
        rule publish_valid)
  then show ?thesis by (rule av_weaken) (auto intro: stepping_inv)
qed

text \<open>A row of which no token is live may be put into any state.\<close>

lemma frozen_row:
  assumes "reg_inv cfg ts r" "\<forall>i. (i, token_name (pr_registration_id r)) \<notin> set ts"
    and "pr_registration_id (f r) = pr_registration_id r" "pr_attempt_count (f r) = pr_attempt_count r"
    and "pr_extra_attempts (f r) = pr_extra_attempts r" "pr_model_prefix (f r) = pr_model_prefix r"
  shows "reg_inv cfg ts (f r)"
  using assms by (simp add: reg_inv_def attempts_allowed_def)

lemma revoke_valid:
  assumes "pr_state r = READY"
  shows "act_valid (stepping cfg r) (revoke net env cfg r) (\<lambda>_. store_inv cfg) (store_inv cfg)"
proof -
  let ?P = "\<lambda>w. stepping cfg r w \<and> (\<forall>i n. parent_token r = Some i \<longrightarrow> (i, n) \<notin> set (w_tokens w))"
  let ?E = "stepping cfg r"
  have parent: "act_valid ?E (revoke_parent net r) (\<lambda>_. ?P) ?E"
    by (rule revoke_parent_keeps) (rule stepping_without_token)
  have lift: "act_valid ?P (act_lift res) (\<lambda>_. ?P) ?E" for res :: "store_error + string"
    by (rule av_lift) auto
  have mail: "act_valid ?P (mailbox_delete net keys) (\<lambda>_. ?P) ?P" for keys
    by (rule mailbox_delete_keeps) (simp add: stepping_def)
  have mail: "act_valid ?P (mailbox_delete net keys) (\<lambda>_. ?P) ?E" for keys
    by (rule av_weaken [OF mail]) auto
  have row: "act_valid ?P (set_reg (pr_id r) (\<lambda>x. x\<lparr>pr_state := REVOKED, pr_updated_at := se_now env\<rparr>))
      (\<lambda>_. store_inv cfg) ?P"
  proof (rule set_reg_valid)
    fix w assume w: "?P w"
    then have r: "reg_inv cfg (w_tokens w) r" by (auto simp: stepping_def inv_parts_def regs_inv_def)
    moreover have "(i, token_name (pr_registration_id r)) \<notin> set (w_tokens w)" for i
    proof
      assume i: "(i, token_name (pr_registration_id r)) \<in> set (w_tokens w)"
      then have "parent_token r = Some i" using r assms unfolding reg_inv_def by fastforce
      then show False using w i by blast
    qed
    then have "\<forall>i. (i, token_name (pr_registration_id r)) \<notin> set (w_tokens w)" ..
    ultimately show "reg_inv cfg (w_tokens w) (r\<lparr>pr_state := REVOKED, pr_updated_at := se_now env\<rparr>)"
      by (rule frozen_row) simp_all
  qed (simp_all add: keeps_reg_keys_def)
  have row: "act_valid ?P (set_reg (pr_id r) (\<lambda>x. x\<lparr>pr_state := REVOKED, pr_updated_at := se_now env\<rparr>))
      (\<lambda>_. store_inv cfg) ?E"
    by (rule av_weaken [OF row]) auto
  have "act_valid ?E (revoke net env cfg r) (\<lambda>_. store_inv cfg) ?E"
    unfolding revoke_def
    by (rule av_then [OF parent], rule av_bind [OF lift], rule av_bind [OF mail], rule av_then [OF row],
        rule publish_valid)
  then show ?thesis by (rule av_weaken) (auto intro: stepping_inv)
qed

section \<open>Steps that leave the registrations alone\<close>

definition same_regs :: "db \<Rightarrow> db \<Rightarrow> bool" where
  "same_regs d e \<longleftrightarrow> registrations e = registrations d \<and> next_id d \<le> next_id e"

interpretation regs_frame: state_preorder same_regs
  by unfold_locales (auto simp: same_regs_def)

lemma same_regs_stmts:
  "keeps same_regs tx_fresh" "keeps same_regs (stmt_miners mi)" "keeps same_regs (stmt_commits co)"
  "keeps same_regs (stmt_subs su)" "keeps same_regs (ins_artifact ar)"
  "keeps same_regs (ins_event sub att ty sev msg data)"
  by (auto simp: keeps_def same_regs_def tx_fresh_def stmt_miners_def stmt_commits_def stmt_subs_def
      ins_artifact_def ins_event_def tx_stmt_def tx_modify_def split: if_splits)

lemmas same_regs_rules = regs_frame.keeps_rules same_regs_stmts

lemma upsert_submission_same_regs: "keeps same_regs (upsert_submission s f)"
  unfolding upsert_submission_def Let_def by (auto intro!: same_regs_rules split: option.splits)

lemma insert_commit_same_regs: "keeps same_regs (insert_commit put env c)"
proof -
  have miner: "keeps same_regs (upsert_commit_miner t c)" for t
    unfolding upsert_commit_miner_def by (auto intro!: same_regs_rules split: option.splits)
  have commit: "keeps same_regs (upsert_commit c)"
    unfolding upsert_commit_def by (auto intro!: same_regs_rules split: option.splits)
  have link: "keeps same_regs (link_commit cid sub)" for cid sub
    unfolding link_commit_def by (rule same_regs_rules)
  have reject: "keeps same_regs (reject_reused_commit put env c miner cid)" for miner cid
    unfolding reject_reused_commit_def Let_def
    by (auto intro!: same_regs_rules upsert_submission_same_regs link split: option.splits prod.splits)
  have discover: "keeps same_regs (discover_commit env c miner cid)" for miner cid
    unfolding discover_commit_def by (auto intro!: same_regs_rules upsert_submission_same_regs link)
  show ?thesis
    unfolding insert_commit_def
    by (auto intro!: same_regs_rules miner commit reject discover split: option.splits prod.splits)
qed

lemma insert_new_commits_same_regs: "keeps same_regs (insert_new_commits put env cs)"
  by (induction cs) (auto intro!: same_regs_rules insert_commit_same_regs)

lemma stepping_same_regs:
  assumes "stepping cfg r w" "same_regs (w_db w) d"
  shows "stepping cfg r (w\<lparr>w_db := d\<rparr>)"
  using assms keys_below_mono by (auto simp: stepping_def inv_parts_def regs_inv_def same_regs_def)

section \<open>Verifying, and a whole tick\<close>

lemma verify_valid:
  assumes "pr_state r = REVOKED"
  shows "act_valid (stepping cfg r) (verify net sha put check env cfg r) (\<lambda>_. store_inv cfg) (store_inv cfg)"
proof -
  let ?E = "stepping cfg r"
  have prefix: "act_valid ?E (act_lift (prefix_of r)) (\<lambda>_. ?E) ?E"
    by (rule av_lift) auto
  have row: "act_valid ?E (set_reg (pr_id r) f) (\<lambda>_. store_inv cfg) ?E"
    if "keeps_reg_keys f" "pr_attempt_count (f r) = pr_attempt_count r"
      "pr_extra_attempts (f r) = pr_extra_attempts r" "pr_model_prefix (f r) = pr_model_prefix r" for f
  proof (rule set_reg_valid [OF _ _ that(1)])
    fix w assume "?E w"
    then have r: "reg_inv cfg (w_tokens w) r" by (auto simp: stepping_def inv_parts_def regs_inv_def)
    moreover have "\<forall>i. (i, token_name (pr_registration_id r)) \<notin> set (w_tokens w)"
      using r assms by (simp add: reg_inv_def)
    ultimately show "reg_inv cfg (w_tokens w) (f r)"
      by (rule frozen_row) (use that in \<open>simp_all add: keeps_reg_keys_def\<close>)
  qed
  have abort: "act_valid ?E (abort_multipart_uploads net p) (\<lambda>_. ?E) ?E" for p
    by (rule abort_keeps) (simp add: stepping_def)
  have commits: "act_valid ?E (act_db (insert_new_commits put env cs)) (\<lambda>_. ?E) ?E" for cs
    by (rule av_db) (auto intro!: stepping_same_regs dest: insert_new_commits_same_regs [unfolded keeps_def, rule_format])
  have gets: "act_valid ?E (act_gets g) (\<lambda>_. ?E) ?E" for g :: "world \<Rightarrow> nat option"
    by (rule av_gets) auto
  have failed: "act_valid ?E (act_bind (abort_multipart_uploads net p) (\<lambda>_.
      act_then (set_reg (pr_id r) (failed_registration env msg)) (publish_status net env cfg r s reason dl rt bl)))
      (\<lambda>_. store_inv cfg) ?E" for p msg s reason dl rt bl
    by (rule av_bind [OF abort], rule av_then [OF row publish_valid])
      (simp_all add: failed_registration_def keeps_reg_keys_def)
  have submitted: "act_valid ?E (act_bind (act_db (insert_new_commits put env cs)) (\<lambda>_.
      act_bind (act_gets g) (\<lambda>sub. act_then (set_reg (pr_id r) (submitted_registration env dg sub))
        (publish_status net env cfg r s reason dl rt bl)))) (\<lambda>_. store_inv cfg) ?E"
    for cs and g :: "world \<Rightarrow> nat option" and dg s reason dl rt bl
    by (rule av_bind [OF commits], rule av_bind [OF gets], rule av_then [OF row publish_valid])
      (simp_all add: submitted_registration_def keeps_reg_keys_def)
  have "act_valid ?E (verify net sha put check env cfg r) (\<lambda>_. store_inv cfg) ?E"
    unfolding verify_def Let_def
    by (rule av_bind [OF prefix]) (auto intro!: failed submitted av_lift simp del: insert_new_commits.simps split: sum.split)
  then show ?thesis by (rule av_weaken) (auto intro: stepping_inv)
qed

lemma touch_inv:
  assumes "store_inv cfg w"
  shows "store_inv cfg (snd (set_reg i (\<lambda>x. x\<lparr>pr_updated_at := t\<rparr>) w))"
proof -
  have inv: "regs_inv cfg (w_tokens w) (w_db w)" using assms by (simp add: store_inv_def)
  have same: "reg_inv cfg ts (x\<lparr>pr_updated_at := t\<rparr>) = reg_inv cfg ts x" for ts x
    by (simp add: reg_inv_def parent_token_def attempts_allowed_def)
  have "regs_inv cfg (w_tokens w) ((w_db w)\<lparr>registrations :=
      update_where (\<lambda>r. pr_id r = i) (\<lambda>x. x\<lparr>pr_updated_at := t\<rparr>) (registrations (w_db w))\<rparr>)"
    by (rule regs_inv_update [OF inv]) (use inv in \<open>simp_all add: keeps_reg_keys_def same regs_inv_def\<close>)
  then show ?thesis
    using assms by (auto simp: set_reg_def upd_reg_def stmt_regs_def act_db_def tx_stmt_def store_inv_def
        split: sum.splits if_splits)
qed

lemma next_registration_in: "next_registration env d = Some r \<Longrightarrow> r \<in> set (registrations d) \<and> in_progress r"
  by (auto simp: next_registration_def dest!: limit1_Some)

lemma take_step_inv:
  assumes "store_inv cfg w" "r \<in> set (registrations (w_db w))" "in_progress r"
  shows "store_inv cfg (snd (take_step net sha seal put check env cfg r w))"
proof -
  have w: "stepping cfg r w" using assms(1,2) by (simp add: stepping_def store_inv_parts)
  have valid: "act_valid (stepping cfg r) (take_step net sha seal put check env cfg r)
      (\<lambda>_. store_inv cfg) (store_inv cfg)"
    using assms(3) credential_valid revoke_valid verify_valid by (auto simp: take_step_def in_progress_def)
  show ?thesis
    using av_dest [OF valid w] by (cases "take_step net sha seal put check env cfg r w") (auto split: sum.splits)
qed

lemma tick_inv:
  assumes "store_inv cfg w"
  shows "store_inv cfg (snd (tick net sha seal put check env cfg w))"
proof (cases "next_registration env (w_db w)")
  case None
  then show ?thesis using assms by (simp add: tick_def)
next
  case (Some r)
  then have "store_inv cfg (snd (take_step net sha seal put check env cfg r w))"
    using assms next_registration_in by (blast intro: take_step_inv)
  then show ?thesis using Some touch_inv by (auto simp: tick_def split: prod.splits sum.splits)
qed

section \<open>Signals\<close>

text \<open>What a signal may do to the registrations: append an activated row, or move rows along.\<close>

lemma new_registration_inv:
  assumes "regs_inv cfg ts d" "1 \<le> ps_max_attempts cfg"
    and "regs_ok (registrations d @ [new_registration env s rid pubkey (next_id d)])"
  shows "regs_inv cfg ts (d\<lparr>next_id := Suc (next_id d),
    registrations := registrations d @ [new_registration env s rid pubkey (next_id d)]\<rparr>)"
  using assms
  by (auto simp: regs_inv_def new_registration_def reg_inv_def attempts_allowed_def intro: keys_below_snoc)

lemma next_attempt_inv:
  assumes "regs_inv cfg ts d"
  shows "regs_inv cfg ts (d\<lparr>registrations :=
    update_where (reactivatable cfg s rid pubkey) (next_attempt env s pubkey) (registrations d)\<rparr>)"
  by (rule regs_inv_update [OF assms])
     (use assms in \<open>auto simp: keeps_reg_keys_def next_attempt_def reactivatable_def regs_inv_def reg_inv_def
        attempts_allowed_def\<close>)

lemma ready_inv:
  assumes "regs_inv cfg ts d"
  shows "regs_inv cfg ts (d\<lparr>registrations :=
    update_where (becomes_ready s rid) (ready_registration env s m) (registrations d)\<rparr>)"
  by (rule regs_inv_update [OF assms])
     (use assms in \<open>auto simp: keeps_reg_keys_def ready_registration_def becomes_ready_def regs_inv_def reg_inv_def
        attempts_allowed_def parent_token_def\<close>)

text \<open>Rows keep their ids and registrations; the tokens are not touched.\<close>

definition rows_kept :: "world \<Rightarrow> world \<Rightarrow> bool" where
  "rows_kept v w \<longleftrightarrow> w_tokens w = w_tokens v \<and> w_next_token w = w_next_token v \<and>
     (\<forall>r \<in> set (registrations (w_db v)). \<exists>q \<in> set (registrations (w_db w)).
        pr_id q = pr_id r \<and> pr_registration_id q = pr_registration_id r)"

lemma rows_kept_refl: "rows_kept w w"
  by (auto simp: rows_kept_def)

lemma rows_kept_trans: "rows_kept u v \<Longrightarrow> rows_kept v w \<Longrightarrow> rows_kept u w"
  by (fastforce simp: rows_kept_def)

lemma rows_kept_update:
  assumes "keeps_reg_keys f" "r \<in> set rs"
  shows "\<exists>q \<in> set (update_where p f rs). pr_id q = pr_id r \<and> pr_registration_id q = pr_registration_id r"
  using update_where_hit [OF assms(2), of p f] assms(1) by (auto simp: keeps_reg_keys_def split: if_splits)

lemma activate_registration_effect:
  assumes "activate_registration env cfg s rid pubkey d = Inr (n, d')" "regs_inv cfg ts d" "1 \<le> ps_max_attempts cfg"
  shows "regs_inv cfg ts d' \<and> (\<forall>r \<in> set (registrations d). \<exists>q \<in> set (registrations d').
    pr_id q = pr_id r \<and> pr_registration_id q = pr_registration_id r)"
proof -
  have keys: "keeps_reg_keys (next_attempt env s pubkey)" by (simp add: keeps_reg_keys_def next_attempt_def)
  show ?thesis
    using assms(1) new_registration_inv [OF assms(2,3)] next_attempt_inv [OF assms(2)] rows_kept_update [OF keys] assms(2)
    by (auto simp: activate_registration_def tx tx_gets_def tx_fresh_def stmt_regs_def tx_stmt_def split: if_splits)
qed

lemma apply_signal_inv:
  assumes "store_inv cfg w" "1 \<le> ps_max_attempts cfg"
  shows "store_inv cfg (snd (apply_signal sha env cfg s w)) \<and> rows_kept w (snd (apply_signal sha env cfg s w))"
proof -
  have inv: "regs_inv cfg (w_tokens w) (w_db w)" using assms(1) by (simp add: store_inv_def)
  have db: "store_inv cfg (snd (act_db m w)) \<and> rows_kept w (snd (act_db m w))"
    if "\<And>n d. m (w_db w) = Inr (n, d) \<Longrightarrow> regs_inv cfg (w_tokens w) d \<and>
      (\<forall>r \<in> set (registrations (w_db w)). \<exists>q \<in> set (registrations d).
         pr_id q = pr_id r \<and> pr_registration_id q = pr_registration_id r)" for m :: "(db, nat) tx"
    using that assms(1) rows_kept_refl by (fastforce simp: act_db_def store_inv_def rows_kept_def split: sum.splits)
  have keys: "keeps_reg_keys (ready_registration env s m)" for m by (simp add: keeps_reg_keys_def ready_registration_def)
  have ready: "regs_inv cfg (w_tokens w) d \<and> (\<forall>r \<in> set (registrations (w_db w)). \<exists>q \<in> set (registrations d).
         pr_id q = pr_id r \<and> pr_registration_id q = pr_registration_id r)"
    if "tx_bind (tx_gets (count_regs (becomes_ready s rid))) (\<lambda>n.
          tx_then (stmt_regs (update_where (becomes_ready s rid) (ready_registration env s m)))
            (tx_return (if n = 0 then 0 else 1))) (w_db w) = Inr (n :: nat, d)" for rid m n d
    using that ready_inv [OF inv] rows_kept_update [OF keys]
    by (auto simp: tx tx_gets_def stmt_regs_def tx_stmt_def split: if_splits)
  show ?thesis
    using db activate_registration_effect [OF _ inv assms(2)] ready assms(1) rows_kept_refl
    by (auto simp: apply_signal_def apply_activate_def apply_ready_def act split: sum.splits)
qed

lemma handle_signals_inv:
  assumes "store_inv cfg w" "1 \<le> ps_max_attempts cfg"
  shows "store_inv cfg (snd (handle_signals sha env cfg ss w)) \<and> rows_kept w (snd (handle_signals sha env cfg ss w))"
  using assms(1)
proof (induction ss arbitrary: w)
  case Nil
  then show ?case by (simp add: rows_kept_refl)
next
  case (Cons s ss)
  obtain res v where v: "apply_signal sha env cfg s w = (res, v)" by fastforce
  then have "store_inv cfg v" "rows_kept w v" using apply_signal_inv [OF Cons.prems assms(2), of sha env s] by auto
  moreover from this Cons.IH [of v] have "store_inv cfg (snd (handle_signals sha env cfg ss v))"
    "rows_kept v (snd (handle_signals sha env cfg ss v))" by auto
  ultimately show ?case using v rows_kept_trans by (auto split: sum.splits prod.splits)
qed

section \<open>Closing a window with the row of an earlier moment\<close>

text \<open>
  What is left of a selected row: it still exists, and the row as it was selected names the only
  token that can be live.
\<close>

definition selected :: "registration \<Rightarrow> world \<Rightarrow> bool" where
  "selected row w \<longleftrightarrow> (\<exists>q \<in> set (registrations (w_db w)). pr_id q = pr_id row \<and>
     pr_registration_id q = pr_registration_id row) \<and>
     (\<forall>i. (i, token_name (pr_registration_id row)) \<in> set (w_tokens w) \<longrightarrow> parent_token row = Some i)"

lemma selected_credentialed:
  assumes "store_inv cfg w" "row \<in> set (registrations (w_db w))" "pr_state row = CREDENTIALED"
  shows "selected row w"
  using assms by (auto simp: selected_def store_inv_def regs_inv_def reg_inv_def)

lemma selected_kept: "selected row v \<Longrightarrow> rows_kept v w \<Longrightarrow> selected row w"
  by (fastforce simp: selected_def rows_kept_def)

abbreviation sel :: "settings \<Rightarrow> registration list \<Rightarrow> world \<Rightarrow> bool" where
  "sel cfg rows w \<equiv> store_inv cfg w \<and> (\<forall>r \<in> set rows. selected r w)"

lemma sel_without_token: "sel cfg rows w \<Longrightarrow> sel cfg rows (without_token i w)"
  using store_inv_fewer [of cfg w "without_token i w"]
  by (auto simp: selected_def without_token_def)

lemma set_selected_failed:
  assumes "sel cfg rows w" "\<forall>i. (i, token_name (pr_registration_id row)) \<notin> set (w_tokens w)" "row \<in> set rows"
    and f: "keeps_reg_keys f" "\<And>r. pr_attempt_count (f r) = pr_attempt_count r"
      "\<And>r. pr_extra_attempts (f r) = pr_extra_attempts r" "\<And>r. pr_model_prefix (f r) = pr_model_prefix r"
    and run: "upd_reg (pr_id row) f (w_db w) = Inr (x, d)"
  shows "sel cfg rows (w\<lparr>w_db := d\<rparr>)"
proof -
  have d: "d = (w_db w)\<lparr>registrations := update_where (\<lambda>q. pr_id q = pr_id row) f (registrations (w_db w))\<rparr>"
    using run by (auto simp: upd_reg_def stmt_regs_def tx_stmt_def split: if_splits)
  have inv: "regs_inv cfg (w_tokens w) (w_db w)" using assms(1) by (simp add: store_inv_def)
  obtain q where q: "q \<in> set (registrations (w_db w))" "pr_id q = pr_id row" "pr_registration_id q = pr_registration_id row"
    using assms(1,3) by (auto simp: selected_def)
  have "regs_inv cfg (w_tokens w) d"
    unfolding d
  proof (rule regs_inv_update [OF inv f(1)])
    fix r assume r: "r \<in> set (registrations (w_db w))" "pr_id r = pr_id row"
    then have "r = q" using regs_same_id [OF inv r(1) q(1)] q(2) by simp
    then have no: "\<forall>i. (i, token_name (pr_registration_id r)) \<notin> set (w_tokens w)"
      using assms(2) q(3) by simp
    have "reg_inv cfg (w_tokens w) r" using inv r(1) by (simp add: regs_inv_def)
    then show "reg_inv cfg (w_tokens w) (f r)"
      by (rule frozen_row [OF _ no, where f = f]) (use f in \<open>simp_all add: keeps_reg_keys_def\<close>)
  qed (use inv in \<open>simp add: regs_inv_def\<close>)
  moreover have "rows_kept w (w\<lparr>w_db := d\<rparr>)"
    using rows_kept_update [OF f(1)] by (simp add: rows_kept_def d)
  ultimately show ?thesis using assms(1) selected_kept by (auto simp: store_inv_def)
qed

lemma publish_sel: "act_valid (sel cfg rows)
    (publish_status net env cfg r step reason deadline retryable blocked) (\<lambda>_. sel cfg rows) E"
  by (rule publish_status_keeps [of _ "\<lambda>d ts n. inv_parts cfg d ts n \<and> (\<forall>r \<in> set rows.
      (\<exists>q \<in> set (registrations d). pr_id q = pr_id r \<and> pr_registration_id q = pr_registration_id r) \<and>
      (\<forall>i. (i, token_name (pr_registration_id r)) \<in> set ts \<longrightarrow> parent_token r = Some i))"])
    (simp add: store_inv_parts selected_def)

lemma close_valid:
  assumes "row \<in> set rows"
  shows "act_valid (sel cfg rows) (close_upload_window net env cfg row reason) (\<lambda>_. sel cfg rows) (store_inv cfg)"
proof -
  let ?P = "\<lambda>w. sel cfg rows w \<and> (\<forall>i. (i, token_name (pr_registration_id row)) \<notin> set (w_tokens w))"
  let ?E = "sel cfg rows"
  have parent: "act_valid ?E (revoke_parent net row) (\<lambda>_. ?P) ?E"
  proof (rule av_weaken [OF revoke_parent_keeps [of ?E]])
    show "?P w" if "?E w \<and> (\<forall>i n. parent_token row = Some i \<longrightarrow> (i, n) \<notin> set (w_tokens w))" for w
      using that assms unfolding selected_def by blast
  qed (auto simp: sel_without_token)
  have J: "?P = (\<lambda>w. (\<lambda>d ts n. (inv_parts cfg d ts n \<and> (\<forall>r \<in> set rows.
      (\<exists>q \<in> set (registrations d). pr_id q = pr_id r \<and> pr_registration_id q = pr_registration_id r) \<and>
      (\<forall>i. (i, token_name (pr_registration_id r)) \<in> set ts \<longrightarrow> parent_token r = Some i))) \<and>
      (\<forall>i. (i, token_name (pr_registration_id row)) \<notin> set ts)) (w_db w) (w_tokens w) (w_next_token w))"
    by (simp add: store_inv_parts selected_def)
  have lift: "act_valid ?P (act_lift res) (\<lambda>_. ?P) ?E" for res :: "store_error + string"
    by (rule av_lift) auto
  have mail: "act_valid ?P (mailbox_delete net keys) (\<lambda>_. ?P) ?E" for keys
    by (rule av_weaken [OF mailbox_delete_keeps [OF J]]) auto
  have abort: "act_valid ?P (abort_multipart_uploads net p) (\<lambda>_. ?P) ?E" for p
    by (rule av_weaken [OF abort_keeps [OF J]]) auto
  have row: "act_valid ?P (set_reg (pr_id row) (failed_registration env reason)) (\<lambda>_. ?E) ?E"
    unfolding set_reg_def
  proof (rule av_db)
    show "?E (w\<lparr>w_db := d\<rparr>)"
      if "?P w" "upd_reg (pr_id row) (failed_registration env reason) (w_db w) = Inr (x, d)" for w x d
      using that(1) by (intro set_selected_failed [OF _ _ assms _ _ _ _ that(2)])
        (simp_all add: failed_registration_def keeps_reg_keys_def)
  qed blast
  have "act_valid ?E (close_upload_window net env cfg row reason) (\<lambda>_. ?E) ?E"
    unfolding close_upload_window_def
    by (rule av_then [OF parent], rule av_bind [OF lift], rule av_bind [OF mail], rule av_bind [OF lift],
        rule av_bind [OF abort], rule av_then [OF row publish_sel])
  then show ?thesis by (rule av_weaken) auto
qed

lemma av_snd:
  assumes "act_valid P m Q E" "P w" "\<And>x v. Q x v \<Longrightarrow> I v" "\<And>v. E v \<Longrightarrow> I v"
  shows "I (snd (m w))"
proof -
  obtain res v where v: "m w = (res, v)" by fastforce
  show ?thesis using av_dest [OF assms(1,2) v] assms(3,4) v by (auto split: sum.splits)
qed

lemma sweep_rows_valid:
  "set rows \<subseteq> set all \<Longrightarrow> act_valid (sel cfg all) (sweep_rows net listing limit env cfg rows)
     (\<lambda>_. sel cfg all) (store_inv cfg)"
proof (induction rows)
  case Nil
  then show ?case by (auto intro: av_return)
next
  case (Cons row rows)
  then have rest: "act_valid (sel cfg all) (sweep_rows net listing limit env cfg rows) (\<lambda>_. sel cfg all) (store_inv cfg)"
    and row: "row \<in> set all" by auto
  have reason: "act_valid (sel cfg all) (act_lift (window_reason listing limit env cfg row)) (\<lambda>_. sel cfg all) (store_inv cfg)"
    by (rule av_lift) auto
  have count: "act_valid (sel cfg all) (act_return k) (\<lambda>_. sel cfg all) (store_inv cfg)" for k :: nat
    by (rule av_return)
  have close: "act_valid (sel cfg all) (act_then (close_upload_window net env cfg row why)
      (act_bind (sweep_rows net listing limit env cfg rows) (\<lambda>n. act_return (Suc n)))) (\<lambda>_. sel cfg all) (store_inv cfg)" for why
    by (rule av_then [OF close_valid [OF row] av_bind [OF rest count]])
  show ?case
    by (simp del: act_valid_def, rule av_bind [OF reason]) (auto intro: rest close split: option.split)
qed

lemma sweep_inv:
  assumes "store_inv cfg w"
  shows "store_inv cfg (snd (sweep_credentialed net listing limit env cfg w))"
proof -
  define rows where "rows = filter (\<lambda>r. pr_state r = CREDENTIALED) (registrations (w_db w))"
  have w: "sel cfg rows w" using assms by (auto simp: rows_def intro: selected_credentialed)
  have "store_inv cfg (snd (sweep_rows net listing limit env cfg rows w))"
    by (rule av_snd [where I = "store_inv cfg", OF sweep_rows_valid [OF order_refl] w]) auto
  then show ?thesis by (simp add: sweep_credentialed_def act rows_def [symmetric])
qed

lemma close_selected_inv:
  assumes "store_inv cfg w" "row \<in> set (registrations (w_db w))" "pr_state row = CREDENTIALED" "1 \<le> ps_max_attempts cfg"
  shows "store_inv cfg (snd (close_upload_window net env' cfg row reason (snd (handle_signals sha env cfg ss w))))"
proof -
  let ?v = "snd (handle_signals sha env cfg ss w)"
  have "sel cfg [row] ?v"
    using handle_signals_inv [OF assms(1,4)] selected_kept [OF selected_credentialed [OF assms(1-3)]] by simp
  then show ?thesis by (rule av_snd [where I = "store_inv cfg", OF close_valid [of row "[row]", OF list.set_intros(1)]]) auto
qed

section \<open>Retries and reaping\<close>

abbreviation parkable :: "settings \<Rightarrow> registration list \<Rightarrow> world \<Rightarrow> bool" where
  "parkable cfg rows w \<equiv> store_inv cfg w \<and>
     (\<forall>r \<in> set rows. \<forall>q \<in> set (registrations (w_db w)). pr_id q = pr_id r \<longrightarrow> pr_state q = REG_SUBMITTED)"

lemma parkable_publish: "act_valid (parkable cfg rows)
    (publish_status net env cfg r step reason deadline retryable blocked) (\<lambda>_. parkable cfg rows) E"
  by (rule publish_status_keeps [of _ "\<lambda>d ts n. inv_parts cfg d ts n \<and> (\<forall>r \<in> set rows.
      \<forall>q \<in> set (registrations d). pr_id q = pr_id r \<longrightarrow> pr_state q = REG_SUBMITTED)"])
    (simp add: store_inv_parts)

lemma park_inv:
  assumes w: "parkable cfg rows w" and row: "row \<in> set rows"
    and run: "upd_reg (pr_id row) (parked_registration env e) (w_db w) = Inr (x, d)"
  shows "parkable cfg rows (w\<lparr>w_db := d\<rparr>)"
proof -
  let ?f = "parked_registration env e"
  have d: "d = (w_db w)\<lparr>registrations := update_where (\<lambda>q. pr_id q = pr_id row) ?f (registrations (w_db w))\<rparr>"
    using run by (auto simp: upd_reg_def stmt_regs_def tx_stmt_def split: if_splits)
  have inv: "regs_inv cfg (w_tokens w) (w_db w)" using w by (simp add: store_inv_def)
  have "regs_inv cfg (w_tokens w) d"
    unfolding d
  proof (rule regs_inv_update [OF inv])
    fix r assume r: "r \<in> set (registrations (w_db w))" "pr_id r = pr_id row"
    then have "reg_inv cfg (w_tokens w) r" "pr_state r = REG_SUBMITTED"
      using inv w row by (auto simp: regs_inv_def)
    then show "reg_inv cfg (w_tokens w) (?f r)"
      by (simp add: reg_inv_def parked_registration_def attempts_allowed_def)
  qed (use inv in \<open>simp_all add: regs_inv_def keeps_reg_keys_def parked_registration_def\<close>)
  moreover have "pr_state q = REG_SUBMITTED"
    if r: "r \<in> set rows" and q: "q \<in> set (registrations d)" "pr_id q = pr_id r" for r q
  proof -
    from q(1) obtain p where p: "p \<in> set (registrations (w_db w))" "q = p \<or> q = ?f p"
      unfolding d by (auto elim!: update_whereE)
    then have "pr_id p = pr_id r" using q(2) by (auto simp: parked_registration_def)
    then have "pr_state p = REG_SUBMITTED" using w r p(1) by blast
    then show ?thesis using p(2) by (auto simp: parked_registration_def)
  qed
  ultimately show ?thesis using w by (auto simp: store_inv_def)
qed

lemma resubmit_rows_valid:
  "set (map fst xs) \<subseteq> set rows \<Longrightarrow> act_valid (parkable cfg rows) (resubmit_rows net env cfg xs)
     (\<lambda>_. parkable cfg rows) (parkable cfg rows)"
proof (induction xs)
  case Nil
  then show ?case by (auto intro: av_return)
next
  case (Cons x xs)
  obtain row code where x: "x = (row, code)" by (cases x)
  from Cons x have rest: "act_valid (parkable cfg rows) (resubmit_rows net env cfg xs) (\<lambda>_. parkable cfg rows) (parkable cfg rows)"
    and row: "row \<in> set rows" by auto
  have asks: "act_valid (parkable cfg rows) (act_gets g) (\<lambda>_. parkable cfg rows) (parkable cfg rows)" for g :: "world \<Rightarrow> 'z"
    by (rule av_gets)
  have count: "act_valid (parkable cfg rows) (act_return k) (\<lambda>_. parkable cfg rows) (parkable cfg rows)" for k :: nat
    by (rule av_return)
  have park: "act_valid (parkable cfg rows) (set_reg (pr_id row) (parked_registration env e)) (\<lambda>_. parkable cfg rows) (parkable cfg rows)" for e
    unfolding set_reg_def by (rule av_db) (rule park_inv [OF _ row])
  have reset: "act_valid (parkable cfg rows) (reset_for_retry net env cfg row code) (\<lambda>_. parkable cfg rows) (parkable cfg rows)"
    unfolding reset_for_retry_def
    by (rule av_then [OF av_bind [OF asks park] parkable_publish])
  have yes: "act_valid (parkable cfg rows) (act_then (reset_for_retry net env cfg row code)
       (act_bind (resubmit_rows net env cfg xs) (\<lambda>n. act_return (Suc n)))) (\<lambda>_. parkable cfg rows) (parkable cfg rows)"
    by (rule av_then [OF reset av_bind [OF rest count]])
  have no: "act_valid (parkable cfg rows) (act_then (publish_status net env cfg row s reason dl rt b)
       (resubmit_rows net env cfg xs)) (\<lambda>_. parkable cfg rows) (parkable cfg rows)" for s reason dl rt b
    by (rule av_then [OF parkable_publish rest])
  show ?case
    by (simp only: x resubmit_rows.simps prod.case, rule av_bind [OF asks]) (simp add: yes no)
qed

lemma map_filter_SomeD: "y \<in> set (List.map_filter f xs) \<Longrightarrow> \<exists>x \<in> set xs. f x = Some y"
  by (auto simp: map_filter_def)

lemma resubmit_inv:
  assumes "store_inv cfg w"
  shows "store_inv cfg (snd (resubmit_terminal net env cfg w))"
proof -
  let ?xs = "terminal_rows cfg (w_db w)"
  have rows: "row \<in> set (registrations (w_db w)) \<and> pr_state row = REG_SUBMITTED" if "(row, code) \<in> set ?xs" for row code
    using that unfolding terminal_rows_def by (auto dest!: map_filter_SomeD split: option.splits if_splits)
  have inv: "regs_inv cfg (w_tokens w) (w_db w)" using assms by (simp add: store_inv_def)
  have "parkable cfg (map fst ?xs) w"
  proof (intro conjI ballI impI)
    fix r q assume r: "r \<in> set (map fst ?xs)" and q: "q \<in> set (registrations (w_db w))" "pr_id q = pr_id r"
    from r obtain code where "(r, code) \<in> set ?xs" by auto
    from rows [OF this] show "pr_state q = REG_SUBMITTED" using regs_same_id [OF inv q(1) _ q(2)] by simp
  qed (rule assms)
  then have "store_inv cfg (snd (resubmit_rows net env cfg ?xs w))"
    by (rule av_snd [where I = "store_inv cfg", OF resubmit_rows_valid [OF order_refl]]) auto
  then show ?thesis by (simp add: resubmit_terminal_def act)
qed

lemma reap_prefixes_frame:
  "w_tokens (snd (reap_prefixes net ps w)) = w_tokens w \<and> w_next_token (snd (reap_prefixes net ps w)) = w_next_token w \<and>
     w_db (snd (reap_prefixes net ps w)) = w_db w"
proof (induction ps arbitrary: w)
  case (Cons p ps)
  have "spares p w (snd (cleanup_model_prefix net p w))" using cleanup_spares [of p net] by (simp add: act_keeps_def)
  moreover obtain res v where v: "cleanup_model_prefix net p w = (res, v)" by fastforce
  ultimately show ?case
    using Cons [of v] by (cases res; cases "reap_prefixes net ps v") (auto simp: spares_def)
qed simp

lemma reap_inv:
  assumes "store_inv cfg w"
  shows "store_inv cfg (snd (reap_expired net env cfg w))"
proof -
  have "w_tokens (snd (reap_expired net env cfg w)) = w_tokens w" "w_next_token (snd (reap_expired net env cfg w)) = w_next_token w"
    "w_db (snd (reap_expired net env cfg w)) = w_db w"
    using reap_prefixes_frame [of net _ w] by (auto simp: reap_expired_def Let_def split: sum.splits prod.splits) (metis snd_conv)+
  then show ?thesis using assms by (simp add: store_inv_def)
qed

section \<open>The private store as a transition system\<close>

text \<open>
  What can happen, in any order: the chain reader applies signals; the controller ticks, sweeps, puts
  failed submissions back and reaps; a window is closed with the row the sweep selected before signals
  were applied; the other services change the database but not the registrations.
\<close>

inductive store_step :: "settings \<Rightarrow> world \<Rightarrow> world \<Rightarrow> bool" for cfg where
  signals: "store_step cfg w (snd (handle_signals sha env cfg ss w))"
| ticks: "store_step cfg w (snd (tick net sha seal put check env cfg w))"
| sweeps: "store_step cfg w (snd (sweep_credentialed net listing limit env cfg w))"
| closes: "row \<in> set (registrations (w_db w)) \<Longrightarrow> pr_state row = CREDENTIALED \<Longrightarrow>
    store_step cfg w (snd (close_upload_window net env' cfg row reason (snd (handle_signals sha env cfg ss w))))"
| resubmits: "store_step cfg w (snd (resubmit_terminal net env cfg w))"
| reaps: "store_step cfg w (snd (reap_expired net env cfg w))"
| others: "registrations d = registrations (w_db w) \<Longrightarrow> next_id (w_db w) \<le> next_id d \<Longrightarrow>
    store_step cfg w (w\<lparr>w_db := d\<rparr>)"

lemma store_step_inv:
  assumes "store_step cfg w w'" "store_inv cfg w" "1 \<le> ps_max_attempts cfg"
  shows "store_inv cfg w'"
  using assms
proof induction
  case (signals w sha env ss)
  then show ?case using handle_signals_inv by blast
next
  case (others d w)
  show ?case by (rule store_inv_fewer [OF others(3)]) (simp_all add: others(1,2))
next
  case (ticks w net sha seal put check env)
  show ?case by (rule tick_inv [OF ticks(1)])
next
  case (sweeps w net listing limit env)
  show ?case by (rule sweep_inv [OF sweeps(1)])
next
  case (closes row w net env' reason sha env ss)
  show ?case by (rule close_selected_inv [OF closes(3,1,2,4)])
next
  case (resubmits w net env)
  show ?case by (rule resubmit_inv [OF resubmits(1)])
next
  case (reaps w net env)
  show ?case by (rule reap_inv [OF reaps(1)])
qed

lemma store_steps_inv:
  "(store_step cfg)\<^sup>*\<^sup>* w w' \<Longrightarrow> store_inv cfg w \<Longrightarrow> 1 \<le> ps_max_attempts cfg \<Longrightarrow> store_inv cfg w'"
  by (induction rule: rtranclp_induct) (auto intro: store_step_inv)

definition empty_store :: "world \<Rightarrow> bool" where
  "empty_store w \<longleftrightarrow> w_tokens w = [] \<and> registrations (w_db w) = []"

lemma empty_store_inv: "empty_store w \<Longrightarrow> store_inv cfg w"
  by (auto simp: empty_store_def store_inv_def tokens_inv_def regs_inv_def keys_below_def regs_ok_def)

text \<open>
  C17. Write access ends before verification: in every state the store can reach, whatever calls failed
  or lost their replies, a registration that is frozen, submitted or failed has no live parent token,
  a credentialed or ready one at most the token its row names, and no registration is past its
  number of attempts.
\<close>

theorem no_token_after_freeze:
  assumes "(store_step cfg)\<^sup>*\<^sup>* w w'" and "empty_store w" and "1 \<le> ps_max_attempts cfg"
    and "r \<in> set (registrations (w_db w'))"
  shows "(pr_state r \<in> {REVOKED, REG_SUBMITTED, FAILED} \<longrightarrow>
      (\<forall>i. (i, token_name (pr_registration_id r)) \<notin> set (w_tokens w'))) \<and>
    (pr_state r \<in> {CREDENTIALED, READY} \<longrightarrow>
      (\<forall>i. (i, token_name (pr_registration_id r)) \<in> set (w_tokens w') \<longrightarrow> pr_parent_token_id r = Some i)) \<and>
    1 \<le> pr_attempt_count r \<and> pr_attempt_count r \<le> attempts_allowed cfg r"
proof -
  have "reg_inv cfg (w_tokens w') r"
    using store_steps_inv [OF assms(1) empty_store_inv [OF assms(2)] assms(3)] assms(4)
    by (simp add: store_inv_def regs_inv_def)
  then show ?thesis by (auto simp: reg_inv_def parent_token_def split: option.splits if_splits)
qed

section \<open>Closing a window that is no longer open\<close>

lemma publish_status_same:
  "\<exists>v. publish_status net env cfg r step reason deadline retryable blocked w = (Inr (), v) \<and> w_db v = w_db w"
  by (auto simp: publish_status_def Let_def act put_status_def remote_def
      split: sum.splits prod.splits reply.splits)

definition same_db :: "world \<Rightarrow> world \<Rightarrow> bool" where
  "same_db v w \<longleftrightarrow> w_db w = w_db v"

interpretation frame_db: world_preorder same_db
  by unfold_locales (auto simp: same_db_def)

lemma same_db_steps:
  "act_keeps same_db (revoke_parent net r)" "act_keeps same_db (mailbox_delete net keys)"
  "act_keeps same_db (abort_multipart_uploads net p)"
  unfolding revoke_parent_def revoke_parent_token_def mailbox_delete_def abort_multipart_uploads_def Let_def
  by (auto intro!: frame_db.keeps_rules simp: same_db_def without_token_def split: option.split)

lemma bind_Inr: "act_bind m f w = (Inr y, v) \<longleftrightarrow> (\<exists>x u. m w = (Inr x, u) \<and> f x u = (Inr y, v))"
  by (auto simp: act_bind_def split: prod.splits sum.splits)

lemma then_Inr: "act_then m n w = (Inr y, v) \<longleftrightarrow> (\<exists>x u. m w = (Inr x, u) \<and> n u = (Inr y, v))"
  by (auto simp: act_then_def bind_Inr)

lemma keeps_db: "act_keeps same_db m \<Longrightarrow> m w = (res, v) \<Longrightarrow> w_db v = w_db w"
  unfolding act_keeps_def same_db_def by (metis snd_conv)

text \<open>
  C19. The last update of closing a window does not ask whether the registration is still
  credentialed: one whose ready signal came in after the sweep selected it becomes FAILED with the
  manifest of that signal in its row, and no step of the controller verifies it any more.
\<close>

theorem stale_close_fails_ready:
  assumes "close_upload_window net env cfg row reason w = (Inr (), w')"
    and "r \<in> set (registrations (w_db w))" and "pr_id r = pr_id row" and "pr_state r = READY"
  shows "\<exists>q \<in> set (registrations (w_db w')). pr_id q = pr_id r \<and> pr_state q = FAILED \<and>
    pr_manifest_sha256 q = pr_manifest_sha256 r \<and> pr_fault_message q = Some reason \<and>
    (\<forall>s. next_registration s (w_db w') \<noteq> Some q)"
proof -
  let ?set = "set_reg (pr_id row) (failed_registration env reason)"
  obtain u v where u: "w_db u = w_db w" and set: "?set u = (Inr (), v)" and v: "w_db w' = w_db v"
  proof -
    from assms(1) obtain w1 w2 w3 v key p ms n where steps: "revoke_parent net row w = (Inr (), w1)"
      "mailbox_delete net [key] w1 = (Inr ms, w2)" "abort_multipart_uploads net p w2 = (Inr n, w3)"
      "?set w3 = (Inr (), v)" and last: "publish_status net env cfg row
        (''failed'' @ dash @ ''upload window closed'') reason None True [] v = (Inr (), w')"
      by (simp add: close_upload_window_def then_Inr bind_Inr act_lift_def) blast
    have "w_db w3 = w_db w"
      using steps(1) [THEN keeps_db [OF same_db_steps(1)]] steps(2) [THEN keeps_db [OF same_db_steps(2)]]
        steps(3) [THEN keeps_db [OF same_db_steps(3)]] by simp
    moreover have "w_db w' = w_db v"
      using publish_status_same [of net env cfg row "''failed'' @ dash @ ''upload window closed''" reason None True "[]" v]
        last by simp
    ultimately show ?thesis using steps(4) that by blast
  qed
  from set have "registrations (w_db v) =
      update_where (\<lambda>x. pr_id x = pr_id row) (failed_registration env reason) (registrations (w_db u))"
    by (auto simp: set_reg_def upd_reg_def stmt_regs_def act_db_def tx_stmt_def split: sum.splits if_splits)
  then have w': "registrations (w_db w') =
      update_where (\<lambda>x. pr_id x = pr_id row) (failed_registration env reason) (registrations (w_db w))"
    by (simp add: u v)
  have "failed_registration env reason r \<in> set (registrations (w_db w'))"
    using update_where_hit [OF assms(2), of "\<lambda>x. pr_id x = pr_id row" "failed_registration env reason"] assms(3)
    by (simp add: w')
  then show ?thesis
    by (rule bexI [rotated]) (auto simp: failed_registration_def in_progress_def dest!: next_registration_in)
qed

section \<open>The reaper leaves what is still needed\<close>

lemma note_newest_keys: "set (map fst (note_newest p t xs)) = insert p (set (map fst xs))"
  by (induction p t xs rule: note_newest.induct) auto

lemma retained_under_canonical:
  "\<forall>q \<in> set (map fst xs). canonical_model_prefix q \<Longrightarrow>
     \<forall>q \<in> set (map fst (retained_under nested base objects xs)). canonical_model_prefix q"
proof (induction objects arbitrary: xs)
  case (Cons x objects)
  have "canonical_model_prefix p" if "upload_prefix nested base (ob_key x) = Some p" for p
    using that by (auto simp: upload_prefix_def Let_def split: if_splits)
  then have "\<forall>q \<in> set (map fst (case upload_prefix nested base (ob_key x) of None \<Rightarrow> xs
      | Some p \<Rightarrow> (case ob_modified x of None \<Rightarrow> xs | Some t \<Rightarrow> note_newest p t xs))). canonical_model_prefix q"
    using Cons.prems note_newest_keys by (auto simp del: set_map split: option.split)
  from Cons.IH [OF this] show ?case by simp
qed simp

lemma retained_canonical: "p \<in> set (map fst (retained_uploads xs)) \<Longrightarrow> canonical_model_prefix p"
  unfolding retained_uploads_def
  by (rule bspec [OF retained_under_canonical [OF retained_under_canonical]]) auto

lemma canonical_prefix_of: "canonical_model_prefix p \<Longrightarrow> \<exists>r n. model_prefix r n = Inr p"
proof -
  assume "canonical_model_prefix p"
  then have "\<exists>r n. parse_model_prefix p = Inr (r, n)"
    by (auto simp: canonical_model_prefix_def parse_model_prefix_def split: option.splits)
  then show ?thesis by (simp add: parse_model_prefix_iff)
qed

lemma prefixes_of_all: "prefixes_of rs = Inr ps \<Longrightarrow> r \<in> set rs \<Longrightarrow> prefix_of r = Inr p \<Longrightarrow> p \<in> set ps"
  by (induction rs arbitrary: ps) auto

lemma reap_spares:
  assumes "\<forall>q \<in> set ps. \<not> starts_with q (ob_key x)" "x \<in> set (w_bucket w)"
  shows "x \<in> set (w_bucket (snd (reap_prefixes net ps w)))"
  using assms
proof (induction ps arbitrary: w)
  case (Cons p ps)
  have "spares p w (snd (cleanup_model_prefix net p w))" using cleanup_spares [of p net] by (simp add: act_keeps_def)
  moreover obtain res v where v: "cleanup_model_prefix net p w = (res, v)" by fastforce
  ultimately have "x \<in> set (w_bucket v)" using Cons.prems by (auto simp: spares_def)
  then show ?case
    using Cons.IH [of v] Cons.prems v by (cases res; cases "reap_prefixes net ps v") auto
qed simp

text \<open>
  C18. The reaper never deletes an upload that may still be used: in every state the store can reach,
  the objects of the current attempt of a registration (those under its model prefix) that is neither
  failed nor waiting for a retry nor evaluated to its end all survive, however old they are. Objects
  of its earlier attempts, under other prefixes, are not spared.
\<close>

theorem reaper_spares_needed_uploads:
  assumes "(store_step cfg)\<^sup>*\<^sup>* w0 w" and "empty_store w0" and "1 \<le> ps_max_attempts cfg"
    and "r \<in> set (registrations (w_db w))" and "needs_upload (w_db w) r" and "pr_model_prefix r = Some p"
    and "x \<in> set (w_bucket w)" and "starts_with p (ob_key x)"
  shows "x \<in> set (w_bucket (snd (reap_expired net env cfg w)))"
proof (cases "protected_prefixes (w_db w)")
  case (Inl e)
  then show ?thesis using assms(7) by (simp add: reap_expired_def Let_def)
next
  case (Inr ps)
  have "reg_inv cfg (w_tokens w) r"
    using store_steps_inv [OF assms(1) empty_store_inv [OF assms(2)] assms(3)] assms(4)
    by (simp add: store_inv_def regs_inv_def)
  then have p: "model_prefix (pr_registration_id r) (pr_attempt_count r) = Inr p"
    using assms(6) by (simp add: reg_inv_def)
  then have "p \<noteq> []" by (auto simp: model_prefix_Inr first_root_def retry_root_def split: if_splits)
  then have "prefix_of r = Inr p" using assms(6) by (simp add: prefix_of_def or_text_def)
  then have "p \<in> set ps"
    using prefixes_of_all [OF Inr [unfolded protected_prefixes_def]] assms(4,5) by simp
  let ?plan = "plan_reap (retained_uploads (w_bucket w)) (se_clock env - ps_retention_hours cfg * 3600) ps"
  have "\<not> starts_with q (ob_key x)" if "q \<in> set ?plan" for q
  proof
    assume *: "starts_with q (ob_key x)"
    have "q \<in> set (map fst (retained_uploads (w_bucket w)))" "q \<noteq> p"
      using that \<open>p \<in> set ps\<close> by (auto simp: plan_reap_def)
    then obtain s n where q: "model_prefix s n = Inr q" using retained_canonical canonical_prefix_of by blast
    from * assms(8) obtain a b where "p @ a = q @ b" by (auto simp: starts_with_iff)
    from model_prefixes_disjoint [OF p q this] p q \<open>q \<noteq> p\<close> show False by simp
  qed
  then have "x \<in> set (w_bucket (snd (reap_prefixes net ?plan w)))"
    by (intro reap_spares [OF _ assms(7)]) blast
  then show ?thesis by (simp add: reap_expired_def Let_def Inr case_prod_beta)
qed

section \<open>The retry the status offers\<close>

lemma count_none: "count_regs p d = 0 \<longleftrightarrow> (\<forall>r \<in> set (registrations d). \<not> p r)"
  by (auto simp: count_regs_def filter_empty_conv)

text \<open>
  The status tells the truth about retries: for a failed registration it offers another attempt
  exactly when the next activation of its hotkey, on a later block, takes it, with the new key and the
  next attempt number; otherwise that activation changes nothing.
\<close>

theorem retry_offer_is_honoured:
  assumes "store_inv cfg w" and "r \<in> set (registrations (w_db w))" and "pr_state r = FAILED"
    and "sg_kind s = Activate" and "sg_uid s \<noteq> None" and "parse_activation_pubkey (sg_payload s) = Inr k"
    and "registration_id sha (sg_netuid s) (sg_hotkey s) (ps_chain_generation cfg) = Inr (pr_registration_id r)"
    and "pr_activation_block r < sg_block_number s" and "\<not> is_used (sg_hotkey s) (w_db w)"
  shows "if next_step cfg r True [] = ''no upload attempts left for this hotkey''
    then apply_signal sha env cfg s w = (Inr 0, w)
    else \<exists>w'. apply_signal sha env cfg s w = (Inr 1, w') \<and>
      next_attempt env s (hex_of k) r \<in> set (registrations (w_db w'))"
proof -
  let ?p = "reactivatable cfg s (pr_registration_id r) (hex_of k)" and ?f = "next_attempt env s (hex_of k)"
  let ?d = "w_db w"
  have inv: "regs_inv cfg (w_tokens w) ?d" using assms(1) by (simp add: store_inv_def)
  have nxt: "next_step cfg r True [] = ''no upload attempts left for this hotkey'' \<longleftrightarrow> attempts_left cfg r = 0"
    by (simp add: next_step_def)
  have only: "q = r" if "q \<in> set (registrations ?d)" "?p q" for q
    using that regs_same_rid [OF inv that(1) assms(2)] by (simp add: reactivatable_def)
  have hit: "?p r \<longleftrightarrow> attempts_left cfg r \<noteq> 0"
    using assms(3,8) by (auto simp: reactivatable_def attempts_left_def attempts_allowed_def)
  have known: "list_ex (\<lambda>q. pr_registration_id q = pr_registration_id r) (registrations ?d)"
    using assms(2) by (auto simp: list_ex_iff)
  have ok: "regs_ok (update_where ?p ?f (registrations ?d))"
    using inv by (intro regs_ok_update) (auto simp: keeps_reg_keys_def next_attempt_def regs_inv_def)
  obtain u where uid: "sg_uid s = Some u" using assms(5) by blast
  have run: "apply_signal sha env cfg s w = (Inr (if count_regs ?p ?d = 0 then 0 else 1),
      w\<lparr>w_db := ?d\<lparr>registrations := update_where ?p ?f (registrations ?d)\<rparr>\<rparr>)"
    using assms(4,6,7,9) uid known ok
    by (simp add: apply_signal_def apply_activate_def act activate_registration_def act_db_def tx_bind_def tx_then_def tx_return_def tx_gets_def
        stmt_regs_def tx_stmt_def)
  show ?thesis
  proof (cases "attempts_left cfg r = 0")
    case True
    then have none: "\<forall>q \<in> set (registrations ?d). \<not> ?p q" using only hit by blast
    then have "update_where ?p ?f (registrations ?d) = registrations ?d" by (intro update_where_id) blast
    then show ?thesis using run none True nxt count_none [of ?p ?d] by simp
  next
    case False
    then have "count_regs ?p ?d \<noteq> 0" using hit assms(2) count_none by blast
    moreover have "?f r \<in> set (update_where ?p ?f (registrations ?d))"
      using update_where_hit [OF assms(2), of ?p ?f] hit False by simp
    ultimately show ?thesis using run False nxt by simp
  qed
qed

end
