(* ===== verification/StoreWitnesses.thy ===== *)
theory StoreWitnesses
  imports PrivateStore
begin

text \<open>Concrete uploads and stores, and each property with hypotheses applied to one of them.\<close>

section \<open>Contracts\<close>

definition toy_sha :: "string \<Rightarrow> string" where
  "toy_sha s = replicate 62 (CHR ''0'') @ [hex_digit (length s div 16 mod 16), hex_digit (length s mod 16)]"

definition sample_rid :: string where
  "sample_rid = replicate 64 (CHR ''a'')"

theorem model_prefix_roundtrip_witness:
  "parse_model_prefix (''models/attempts/'' @ sample_rid @ ''/a12/'') = Inr (sample_rid, 12)"
proof -
  have "model_prefix sample_rid 12 = Inr (''models/attempts/'' @ sample_rid @ ''/a12/'')"
    by code_simp
  from model_prefix_roundtrip [OF this] show ?thesis by blast
qed

definition sample_hotkey :: string where
  "sample_hotkey = replicate 48 (CHR ''A'')"

definition sample_files :: "manifest_file list" where
  "sample_files = [\<lparr>mf_path = ''config.json'', mf_size = 2, mf_sha256 = toy_sha ''{}''\<rparr>,
     \<lparr>mf_path = ''w/a.bin'', mf_size = 5, mf_sha256 = toy_sha ''abcde''\<rparr>]"

definition digest_of :: "manifest_file list \<Rightarrow> string" where
  "digest_of fs = (case model_digest_from_inventory toy_sha (inventory_of fs) of Inl _ \<Rightarrow> [] | Inr d \<Rightarrow> d)"

definition sample_manifest :: manifest where
  "sample_manifest = \<lparr>mn_registration_id = sample_rid, mn_hotkey = sample_hotkey, mn_model_name = ''m'',
     mn_files = sample_files, mn_model_digest = digest_of sample_files, mn_signature = ''sig''\<rparr>"

definition swapped_manifest :: manifest where
  "swapped_manifest = sample_manifest\<lparr>mn_files := rev sample_files\<rparr>"

lemma sample_value: "manifest_of_value toy_sha (as_dict sample_manifest) = Inr sample_manifest"
  by code_simp

lemma swapped_value: "manifest_of_value toy_sha (as_dict swapped_manifest) = Inr swapped_manifest"
  by code_simp

theorem manifest_reprint_witness:
  "manifest_of_value toy_sha (as_dict swapped_manifest) = Inr swapped_manifest"
  by (rule manifest_reprint [OF swapped_value])

theorem model_digest_covers_inventory_witness:
  "mn_model_digest sample_manifest = mn_model_digest swapped_manifest \<and>
   set (mn_files sample_manifest) = set (mn_files swapped_manifest)"
proof -
  have same: "sort (inventory_of (mn_files sample_manifest)) = sort (inventory_of (mn_files swapped_manifest))"
    by code_simp
  have plain: "\<forall>f \<in> set (mn_files sample_manifest) \<union> set (mn_files swapped_manifest). CHR 0x00 \<notin> set (mf_path f)"
    by (simp add: swapped_manifest_def sample_manifest_def sample_files_def)
  have digest: "mn_model_digest sample_manifest = mn_model_digest swapped_manifest"
    by (simp add: swapped_manifest_def)
  from model_digest_covers_inventory [OF sample_value swapped_value digest plain] digest
  show ?thesis unfolding same by auto
qed

section \<open>Uploads\<close>

definition sample_object :: "string \<Rightarrow> string \<Rightarrow> r2_object" where
  "sample_object key bytes = \<lparr>ob_key = key, ob_size = int (length bytes), ob_modified = Some 0, ob_etag = Some ''e'',
     ob_meta = Some (toy_sha bytes), ob_bytes = bytes\<rparr>"

definition first_prefix :: string where
  "first_prefix = ''models/registrations/'' @ sample_rid @ ''/''"

definition sample_objects :: "r2_object list" where
  "sample_objects = [sample_object (first_prefix @ ''config.json'') ''{}'',
     sample_object (first_prefix @ ''manifest.json'') ''raw'', sample_object (first_prefix @ ''w/a.bin'') ''abcde'']"

definition sample_pages :: "page list" where
  "sample_pages = [\<lparr>pg_items = take 2 sample_objects, pg_truncated = True, pg_token = True\<rparr>,
     \<lparr>pg_items = drop 2 sample_objects, pg_truncated = False, pg_token = False\<rparr>]"

theorem quota_probe_exact_witness:
  "quota_breach 10 sample_pages = None \<and> quota_breach 9 sample_pages \<noteq> None"
proof -
  have ok: "complete_listing sample_pages" "\<forall>x \<in> set (listed sample_pages). 0 \<le> ob_size x"
    and sizes: "sum_list (map ob_size (listed sample_pages)) = 10" "length (listed sample_pages) \<le> 4096"
    by (simp_all add: sample_pages_def listed_def sample_objects_def sample_object_def)
  show ?thesis using quota_probe_exact [OF ok, of 10] quota_probe_exact [OF ok, of 9] sizes by simp
qed

definition read_sample :: "string \<Rightarrow> store_error + r2_read" where
  "read_sample key = (case find (\<lambda>x. ob_key x = key) sample_objects of None \<Rightarrow> Inl (ServiceError ''404'')
     | Some x \<Rightarrow> Inr \<lparr>rd_bytes = ob_bytes x, rd_etag = ob_etag x, rd_meta = ob_meta x\<rparr>)"

definition head_sample :: "string \<Rightarrow> store_error + r2_head" where
  "head_sample key = (case find (\<lambda>x. ob_key x = key) sample_objects of None \<Rightarrow> Inl (ServiceError ''404'')
     | Some x \<Rightarrow> Inr \<lparr>hd_size = ob_size x, hd_etag = ob_etag x, hd_meta = ob_meta x\<rparr>)"

definition sample_genesis :: "(string \<times> string) list" where
  "sample_genesis = [(''config.json'', toy_sha ''{}'')]"

definition toy_signed :: "string \<Rightarrow> string \<Rightarrow> string \<Rightarrow> bool" where
  "toy_signed key payload signature \<longleftrightarrow> signature = ''sig''"

abbreviation sample_loads :: "string \<Rightarrow> json option" where
  "sample_loads \<equiv> (\<lambda>s. if s = ''raw'' then Some (as_dict sample_manifest) else None)"

lemma sample_steps:
  "parse_model_prefix first_prefix = Inr (sample_rid, 1)"
  "list_objects sample_pages = Inr sample_objects"
  "validate_genesis_contract sample_genesis sample_manifest = Inr ()"
  "check_files (check_file toy_sha read_sample head_sample sample_genesis first_prefix sample_objects)
     (mn_files sample_manifest) = Inr ()"
  "find (\<lambda>x. ob_key x = first_prefix @ ''manifest.json'') sample_objects = Some (sample_objects ! 1)"
  "read_sample (first_prefix @ ''manifest.json'') =
     Inr \<lparr>rd_bytes = ''raw'', rd_etag = Some ''e'', rd_meta = Some (toy_sha ''raw'')\<rparr>"
  "meta_digest (Some (toy_sha ''raw'')) = Some (toy_sha ''raw'')"
  by code_simp+

lemma sample_verified:
  "verify_manifest toy_sha sample_loads toy_signed 100 sample_genesis sample_pages read_sample head_sample
     first_prefix sample_rid sample_hotkey ''key'' (toy_sha ''raw'') = Inr sample_manifest"
proof -
  have keys: "set (map ob_key sample_objects) =
      insert (first_prefix @ ''manifest.json'') (set (map (\<lambda>f. first_prefix @ mf_path f) (mn_files sample_manifest)))"
    by (auto simp: sample_objects_def sample_object_def sample_manifest_def sample_files_def)
  have sizes: "sum_list (map ob_size sample_objects) = 10" "length sample_objects = 3" "ob_size (sample_objects ! Suc 0) = 3"
    by (simp_all add: sample_objects_def sample_object_def)
  have owner: "mn_registration_id sample_manifest = sample_rid" "mn_hotkey sample_manifest = sample_hotkey"
      "toy_signed k p (mn_signature sample_manifest)" for k p
    by (simp_all add: sample_manifest_def toy_signed_def)
  have parsed: "manifest_from_bytes sample_loads toy_sha ''raw'' = Inr sample_manifest"
    by (simp add: manifest_from_bytes_def sample_value)
  show ?thesis
    using keys
    by (simp add: verify_manifest_def sample_steps sizes owner parsed retell_def ensure_def
        MAX_MINER_UPLOAD_OBJECTS_def MAX_MANIFEST_BYTES_def del: set_map)
qed

theorem verified_upload_sound_witness:
  "\<exists>r. read_sample (first_prefix @ ''config.json'') = Inr r \<and> toy_sha (rd_bytes r) = toy_sha ''{}''"
  using verified_upload_sound [OF sample_verified] by (auto simp: sample_genesis_def)

section \<open>A registration on its way\<close>

definition store_env :: "int \<Rightarrow> sess" where
  "store_env t = \<lparr>se_now = t, se_clock = t, se_lock = True, se_free = (\<lambda>_. True)\<rparr>"

definition store_cfg :: settings where
  "store_cfg = \<lparr>ps_chain_generation = ''g1'', ps_max_attempts = 2, ps_max_strikes = 5, ps_window = 100,
     ps_retention_hours = 1, ps_bucket = ''models'', ps_ttl = 60\<rparr>"

definition rid_sha :: "string \<Rightarrow> string" where
  "rid_sha s = sample_rid"

definition answers :: net where
  "answers c = Answered"

definition activate_signal :: "int \<Rightarrow> private_signal" where
  "activate_signal b = \<lparr>sg_kind = Activate, sg_netuid = 1, sg_uid = Some 3, sg_hotkey = sample_hotkey,
     sg_coldkey = None, sg_block_number = b, sg_block_hash = None,
     sg_payload = ''r2activate:v1:'' @ b64encode (replicate 32 (CHR ''k''))\<rparr>"

definition ready_signal :: private_signal where
  "ready_signal = \<lparr>sg_kind = Ready, sg_netuid = 1, sg_uid = Some 3, sg_hotkey = sample_hotkey,
     sg_coldkey = None, sg_block_number = 20, sg_block_hash = None, sg_payload = ''r2ready:v1:'' @ sample_rid\<rparr>"

definition store0 :: world where
  "store0 = \<lparr>w_db = empty_db, w_tokens = [], w_next_token = 0, w_mailbox = [], w_status = [], w_cache = [],
     w_bucket = sample_objects, w_multiparts = []\<rparr>"

abbreviation ticked :: "int \<Rightarrow> world \<Rightarrow> world" where
  "ticked t \<equiv> \<lambda>w. snd (tick answers rid_sha (\<lambda>r p t. Inr ''box'') (\<lambda>a b c. None)
     (\<lambda>r p. Inl (ServiceError ''later'')) (store_env t) store_cfg w)"

abbreviation signalled :: "private_signal \<Rightarrow> world \<Rightarrow> world" where
  "signalled s \<equiv> \<lambda>w. snd (handle_signals rid_sha (store_env 5) store_cfg [s] w)"

definition store1 :: world where "store1 = signalled (activate_signal 10) store0"
definition store2 :: world where "store2 = ticked 100 store1"
definition store3 :: world where "store3 = signalled ready_signal store2"
definition store4 :: world where "store4 = ticked 200 store3"

definition row_in :: "world \<Rightarrow> registration" where
  "row_in w = hd (registrations (w_db w))"

text \<open>The steps are evaluated on what they do to the database and the tokens, without the status texts.\<close>

lemma publish_frame:
  "fst (publish_status net env cfg r step reason deadline retryable blocked w) = Inr ()"
  "w_db (snd (publish_status net env cfg r step reason deadline retryable blocked w)) = w_db w"
  "w_tokens (snd (publish_status net env cfg r step reason deadline retryable blocked w)) = w_tokens w"
  "w_next_token (snd (publish_status net env cfg r step reason deadline retryable blocked w)) = w_next_token w"
  "w_mailbox (snd (publish_status net env cfg r step reason deadline retryable blocked w)) = w_mailbox w"
  "w_bucket (snd (publish_status net env cfg r step reason deadline retryable blocked w)) = w_bucket w"
  by (auto simp: publish_status_def Let_def act put_status_def remote_def split: sum.splits prod.splits reply.splits)

lemma sample_texts:
  "hex_text 64 sample_rid" "generation_key (''mailbox/v1/'' @ sample_rid @ ''/generations/'' @ pad20 (show_nat 1) @ ''.bin'')"
  "parse_activation_pubkey (sg_payload (activate_signal 10)) = Inr (replicate 32 (CHR ''k''))"
  "parse_ready_signal (sg_payload ready_signal) = Inr sample_rid"
  "registration_id rid_sha 1 sample_hotkey ''g1'' = Inr sample_rid"
  by code_simp+

definition row1 :: registration where
  "row1 = new_registration (store_env 5) (activate_signal 10) sample_rid (hex_of (replicate 32 (CHR ''k''))) 0"

definition row2 :: registration where
  "row2 = credentialed (store_env 100) store_cfg (token_text 0) first_prefix row1"

definition row3 :: registration where
  "row3 = ready_registration (store_env 5) ready_signal sample_rid row2"

lemma prefix1: "model_prefix sample_rid (Suc 0) = Inr first_prefix"
  by (simp add: model_prefix_def require_hash_def ensure_def sample_texts first_prefix_def first_root_def)

lemma key1: "mailbox_object_key sample_rid (Suc 0) =
    Inr (''mailbox/v1/'' @ sample_rid @ ''/generations/'' @ pad20 (show_nat 1) @ ''.bin'')"
  by (simp add: mailbox_object_key_def require_hash_def ensure_def sample_texts)

lemma store1_rows: "w_db store1 = empty_db\<lparr>next_id := 1, registrations := [row1]\<rparr> \<and> w_tokens store1 = [] \<and>
    w_next_token store1 = 0 \<and> w_mailbox store1 = [] \<and> w_bucket store1 = sample_objects"
  using sample_texts(3,5)
  by (simp add: store1_def store0_def apply_signal_def apply_activate_def activate_signal_def act store_cfg_def
      activate_registration_def act_db_def tx_bind_def tx_then_def tx_return_def tx_gets_def tx_fresh_def
      stmt_regs_def tx_stmt_def empty_db_def is_used_def regs_ok_def unique_by_def row1_def)

lemma credential_world:
  assumes "registrations (w_db w) = [row1]" "w_tokens w = []" "w_next_token w = 0" "w_mailbox w = []"
  shows "\<exists>v. credential answers rid_sha (\<lambda>r p t. Inr ''box'') (store_env 100) store_cfg row1 w = (Inr (), v) \<and>
    registrations (w_db v) = [row2] \<and> w_tokens v = [(token_text 0, token_name sample_rid)] \<and> w_bucket v = w_bucket w \<and>
    used_hotkeys (w_db v) = used_hotkeys (w_db w)"
proof -
  have row: "pr_registration_id row1 = sample_rid" "pr_attempt_count row1 = 1" "parent_token row1 = None" "pr_id row1 = 0"
    "pr_hotkey row1 = sample_hotkey" "pr_netuid row1 = 1"
    by (simp_all add: row1_def new_registration_def activate_signal_def parent_token_def)
  have "regs_ok [row2]" by (simp add: regs_ok_def unique_by_def)
  then show ?thesis
    using assms row
    by (simp add: credential_def Let_def act prefix1 key1 revoke_parent_def create_parent_token_def existing_token_ids_def
        remote_def answers_def with_token_def mailbox_delete_def sample_texts(2) [simplified] batches.simps mailbox_publish_def
        set_reg_def upd_reg_def stmt_regs_def act_db_def tx_stmt_def update_where_def row2_def [symmetric] prod_eq_iff publish_frame
        )
qed

lemma row_states: "pr_state row1 = ACTIVATED" "pr_state row2 = CREDENTIALED" "pr_state row3 = READY"
  by (simp_all add: row1_def row2_def row3_def new_registration_def credentialed_def ready_registration_def)

lemma row_keys: "pr_id row1 = 0" "pr_id row2 = 0" "pr_id row3 = 0" "pr_registration_id row1 = sample_rid"
  "pr_registration_id row2 = sample_rid" "pr_registration_id row3 = sample_rid"
  by (simp_all add: row1_def row2_def row3_def new_registration_def credentialed_def ready_registration_def)

lemma one_row: "registrations d = [r] \<Longrightarrow> in_progress r \<Longrightarrow> next_registration (store_env t) d = Some r"
  by (simp add: next_registration_def store_env_def limit1_def)

lemma store2_rows: "registrations (w_db store2) = [row2] \<and> w_tokens store2 = [(token_text 0, token_name sample_rid)] \<and>
    w_bucket store2 = sample_objects \<and> used_hotkeys (w_db store2) = []"
proof -
  obtain v where v: "credential answers rid_sha (\<lambda>r p t. Inr ''box'') (store_env 100) store_cfg row1 store1 = (Inr (), v)"
    "registrations (w_db v) = [row2]" "w_tokens v = [(token_text 0, token_name sample_rid)]" "w_bucket v = w_bucket store1"
    "used_hotkeys (w_db v) = []"
    using credential_world [of store1] store1_rows by (auto simp: empty_db_def)
  have "next_registration (store_env 100) (w_db store1) = Some row1"
    using store1_rows by (intro one_row) (simp_all add: in_progress_def row_states)
  then show ?thesis using v store1_rows by (simp add: store2_def tick_def take_step_def row_states)
qed

lemma store3_rows: "registrations (w_db store3) = [row3] \<and> w_tokens store3 = w_tokens store2 \<and>
    used_hotkeys (w_db store3) = []"
proof -
  have "becomes_ready ready_signal sample_rid row2"
    by (simp add: becomes_ready_def row_states row_keys, simp add: row2_def row1_def credentialed_def
        new_registration_def ready_signal_def activate_signal_def)
  then show ?thesis
    using store2_rows sample_texts(4,5)
    by (simp add: store3_def apply_signal_def apply_ready_def ready_signal_def act store_cfg_def act_db_def
        tx_bind_def tx_then_def tx_return_def tx_gets_def stmt_regs_def tx_stmt_def regs_ok_def unique_by_def
        update_where_def row3_def count_regs_def)
qed

lemma store3_reached: "(store_step store_cfg)\<^sup>*\<^sup>* store0 store3" "(store_step store_cfg)\<^sup>*\<^sup>* store0 store2"
proof -
  have "store_step store_cfg store0 store1" unfolding store1_def by (rule signals)
  moreover have "store_step store_cfg store1 store2" unfolding store2_def by (rule ticks)
  moreover have "store_step store_cfg store2 store3" unfolding store3_def by (rule signals)
  ultimately show "(store_step store_cfg)\<^sup>*\<^sup>* store0 store3" "(store_step store_cfg)\<^sup>*\<^sup>* store0 store2"
    by (simp_all add: rtranclp.rtrancl_into_rtrancl [OF rtranclp.rtrancl_into_rtrancl] r_into_rtranclp
        rtranclp.rtrancl_into_rtrancl [OF r_into_rtranclp])
qed

lemma store0_empty: "empty_store store0" "1 \<le> ps_max_attempts store_cfg"
  by (simp_all add: empty_store_def store0_def empty_db_def store_cfg_def)

definition row4 :: registration where
  "row4 = row3\<lparr>pr_state := REVOKED, pr_updated_at := 200\<rparr>"

lemma store4_rows: "registrations (w_db store4) = [row4]"
proof -
  have row: "parent_token row3 = Some (token_text 0)"
    by (simp add: parent_token_def row3_def row2_def ready_registration_def credentialed_def)
  have "next_registration (store_env 200) (w_db store3) = Some row3"
    using store3_rows by (intro one_row) (simp_all add: in_progress_def row_states)
  then show ?thesis
    using store3_rows row row_keys
    by (simp add: store4_def tick_def take_step_def row_states revoke_def act revoke_parent_def revoke_parent_token_def
        remote_def answers_def key1 mailbox_delete_def Let_def sample_texts(2) [simplified] batches.simps set_reg_def upd_reg_def
        stmt_regs_def act_db_def tx_stmt_def update_where_def regs_ok_def unique_by_def without_token_def
        row4_def store_env_def publish_frame prod_eq_iff case_prod_beta split: sum.split)
qed

theorem no_token_after_freeze_witness:
  "pr_state row4 = REVOKED \<and> (\<forall>i. (i, token_name sample_rid) \<notin> set (w_tokens store4)) \<and> w_tokens store3 \<noteq> []"
proof -
  have "store_step store_cfg store3 store4" unfolding store4_def by (rule ticks)
  with store3_reached(1) have reached: "(store_step store_cfg)\<^sup>*\<^sup>* store0 store4" by simp
  have "row4 \<in> set (registrations (w_db store4))" by (simp add: store4_rows)
  from no_token_after_freeze [OF reached store0_empty this] show ?thesis
    using store3_rows store2_rows by (simp add: row4_def row_keys)
qed

definition store5 :: world where
  "store5 = snd (close_upload_window answers (store_env 300) store_cfg row2 ''expired'' store3)"

lemma store_multiparts: "w_multiparts (snd (publish_status net env cfg r step reason deadline retryable blocked w)) = w_multiparts w"
  by (auto simp: publish_status_def Let_def act put_status_def remote_def split: sum.splits prod.splits reply.splits)

lemma publish_returns: "publish_status net env cfg r step reason deadline retryable blocked w = (Inr (), v) \<longleftrightarrow>
    v = snd (publish_status net env cfg r step reason deadline retryable blocked w)"
  using publish_frame(1) by (metis prod.collapse prod.inject)

lemma close_run:
  assumes "registrations (w_db w) = [row3]"
  shows "\<exists>v. close_upload_window answers (store_env 300) store_cfg row2 ''expired'' w = (Inr (), v) \<and>
    registrations (w_db v) = [failed_registration (store_env 300) ''expired'' row3] \<and>
    used_hotkeys (w_db v) = used_hotkeys (w_db w)"
proof -
  have row: "parent_token row2 = Some (token_text 0)" "prefix_of row2 = Inr first_prefix"
    by (simp_all add: parent_token_def prefix_of_def or_text_def row2_def credentialed_def first_prefix_def)
  have canonical: "canonical_model_prefix first_prefix"
    using sample_steps(1) unfolding parse_model_prefix_def canonical_model_prefix_def by (auto split: option.splits)
  have abort: "\<exists>n u. abort_multipart_uploads answers first_prefix v = (Inr n, u) \<and> w_db u = w_db v" for v
  proof -
    have each: "\<exists>u. act_for ks (\<lambda>k. remote Answered (\<lambda>w. w\<lparr>w_multiparts := remove1 k (w_multiparts w)\<rparr>) ()) v =
        (Inr (), u) \<and> w_db u = w_db v" for ks v
    proof (induction ks arbitrary: v)
      case (Cons k ks)
      from Cons [of "v\<lparr>w_multiparts := remove1 k (w_multiparts v)\<rparr>"] show ?case by (simp add: act remote_def)
    qed (simp add: act)
    from each [of "filter (starts_with first_prefix) (w_multiparts v)" v] canonical show ?thesis
      by (auto simp: abort_multipart_uploads_def answers_def act remote_def)
  qed
  let ?w = "\<lambda>m. w\<lparr>w_tokens := filter (\<lambda>(j, _). j \<noteq> token_text 0) (w_tokens w), w_mailbox := m\<rparr>"
  let ?m = "filter (\<lambda>(k, _). k \<noteq> ''mailbox/v1/'' @ sample_rid @ ''/generations/'' @ pad20 (show_nat 1) @ ''.bin'') (w_mailbox w)"
  obtain n u where u: "abort_multipart_uploads answers first_prefix (?w ?m) = (Inr n, u)" "w_db u = w_db w"
    using abort [of "?w ?m"] by auto
  have ok: "regs_ok [failed_registration (store_env 300) ''expired'' row3]" by (simp add: regs_ok_def unique_by_def)
  show ?thesis
    using u assms row row_keys ok
    by (simp add: close_upload_window_def act revoke_parent_def revoke_parent_token_def remote_def answers_def key1
        mailbox_delete_def Let_def sample_texts(2) [simplified] batches.simps set_reg_def upd_reg_def stmt_regs_def
        act_db_def tx_stmt_def update_where_def without_token_def publish_returns publish_frame)
qed

lemma store5_rows: "close_upload_window answers (store_env 300) store_cfg row2 ''expired'' store3 = (Inr (), store5)"
  "registrations (w_db store5) = [failed_registration (store_env 300) ''expired'' row3]"
  "used_hotkeys (w_db store5) = []"
  using close_run [of store3] store3_rows by (auto simp: store5_def)

theorem stale_close_fails_ready_witness:
  "pr_state row3 = READY \<and> map pr_state (registrations (w_db store5)) = [FAILED]"
proof -
  have "row3 \<in> set (registrations (w_db store3))" using store3_rows by simp
  from stale_close_fails_ready [OF store5_rows(1) this] show ?thesis
    using store5_rows(2) by (simp add: row_states row_keys)
qed

theorem retry_offer_is_honoured_witness:
  "\<exists>w'. apply_signal rid_sha (store_env 400) store_cfg (activate_signal 30) store5 = (Inr 1, w') \<and>
     (\<exists>q \<in> set (registrations (w_db w')). pr_state q = ACTIVATED \<and> pr_attempt_count q = 2)"
proof -
  let ?r = "failed_registration (store_env 300) ''expired'' row3"
  have step: "store_step store_cfg store2 store5"
    using closes [of row2 store2 store_cfg answers "store_env 300" "''expired''" rid_sha "store_env 5" "[ready_signal]"]
      store2_rows by (simp add: store5_def store3_def row_states del: handle_signals.simps)
  have reached: "(store_step store_cfg)\<^sup>*\<^sup>* store0 store5"
    by (rule rtranclp.rtrancl_into_rtrancl [OF store3_reached(2) step])
  have inv: "store_inv store_cfg store5"
    by (rule store_steps_inv [OF reached empty_store_inv [OF store0_empty(1)] store0_empty(2)])
  have row: "?r \<in> set (registrations (w_db store5))" "pr_state ?r = FAILED" "pr_attempt_count ?r = 1"
    "pr_activation_block ?r < sg_block_number (activate_signal 30)" "pr_registration_id ?r = sample_rid"
    "pr_extra_attempts ?r = 0"
    by (simp_all add: store5_rows(2), simp_all add: failed_registration_def row3_def row2_def row1_def
        ready_registration_def credentialed_def new_registration_def activate_signal_def)
  have signal: "sg_kind (activate_signal 30) = Activate" "sg_uid (activate_signal 30) \<noteq> None"
    "parse_activation_pubkey (sg_payload (activate_signal 30)) = Inr (replicate 32 (CHR ''k''))"
    "registration_id rid_sha (sg_netuid (activate_signal 30)) (sg_hotkey (activate_signal 30))
       (ps_chain_generation store_cfg) = Inr (pr_registration_id ?r)"
    using sample_texts(3,5) row(5) by (simp_all add: activate_signal_def store_cfg_def)
  have unused: "\<not> is_used (sg_hotkey (activate_signal 30)) (w_db store5)"
    by (simp add: is_used_def store5_rows(3))
  have offer: "next_step store_cfg ?r True [] \<noteq> ''no upload attempts left for this hotkey''"
    using row(3,6) by (simp add: next_step_def attempts_left_def attempts_allowed_def store_cfg_def)
  have more: "pr_state (next_attempt (store_env 400) (activate_signal 30) k ?r) = ACTIVATED"
    "pr_attempt_count (next_attempt (store_env 400) (activate_signal 30) k ?r) = 2" for k
    using row(3) by (simp_all add: next_attempt_def)
  show ?thesis
    using retry_offer_is_honoured [OF inv row(1,2) signal row(4) unused, of "store_env 400"] offer more by auto
qed

theorem reaper_spares_needed_uploads_witness:
  "hd sample_objects \<in> set (w_bucket (snd (reap_expired answers (store_env 1000000) store_cfg store2)))"
proof -
  have row: "row2 \<in> set (registrations (w_db store2))" "needs_upload (w_db store2) row2" "pr_model_prefix row2 = Some first_prefix"
    using store2_rows by (simp_all add: needs_upload_def row_states) (simp_all add: row2_def row1_def credentialed_def new_registration_def)
  have object: "hd sample_objects \<in> set (w_bucket store2)" "starts_with first_prefix (ob_key (hd sample_objects))"
    using store2_rows by (simp_all add: sample_objects_def sample_object_def)
  show ?thesis by (rule reaper_spares_needed_uploads [OF store3_reached(2) store0_empty row object])
qed

end
