(* ===== verification/Sampling.thy ===== *)
theory Sampling
  imports Prelude Floats "HOL-Library.Multiset"
begin

text \<open>
  The choice of the evaluation's samples: src/src/albedo_eval_service/shared/sampling.py. The random
  generator, seeded with the block hash, is an argument: drawing an index below a number and drawing
  a permutation, each giving the next state of the generator.
\<close>

section \<open>The manifest\<close>

definition name_char :: "char \<Rightarrow> bool" where
  "name_char c \<longleftrightarrow> word_char c \<or> c = CHR ''.'' \<or> c = CHR ''-''"

text \<open>\<open>data/train-[A-Za-z0-9_.-]*\.parquet\<close>, with one directory before it or none.\<close>

definition train_file :: "string \<Rightarrow> bool" where
  "train_file s \<longleftrightarrow> (let r = drop 11 s in starts_with ''data/train-'' s \<and> 8 \<le> length r \<and>
     drop (length r - 8) r = ''.parquet'' \<and> list_all name_char (take (length r - 8) r))"

definition shard_name :: "string \<Rightarrow> bool" where
  "shard_name s \<longleftrightarrow> dollar (\<lambda>t. train_file t \<or> (let d = before_first (CHR ''/'') t in
     d \<noteq> [] \<and> word_char (hd d) \<and> list_all name_char d \<and> train_file (after_first (CHR ''/'') t))) s"

record shard =
  sh_name :: string
  sh_rows :: int
  sh_meta :: "json list"

record source =
  so_name :: string
  so_shards :: "shard list"

fun int_instance :: "json \<Rightarrow> int option" where
  "int_instance (JInt i) = Some i"
| "int_instance (JBool b) = Some (if b then 1 else 0)"
| "int_instance _ = None"

definition shard_of :: "json \<Rightarrow> py_error + shard" where
  "shard_of v = (case v of JObj _ \<Rightarrow>
     (case jor (jget ''name'' v) (jget ''path'' v) of
       JStr name \<Rightarrow> and_then (ensure (shard_name name)
           (ValueError ''manifest shards must be (<source>/)data/train-*.parquet files'')) (\<lambda>_.
         case int_instance (jget ''rows'' v) of
           None \<Rightarrow> Inl (ValueError ''manifest shard rows must be non-negative integers'')
         | Some rows \<Rightarrow> and_then (ensure (0 \<le> rows)
             (ValueError ''manifest shard rows must be non-negative integers'')) (\<lambda>_.
           case jget ''rows_meta'' v of
             JList metas \<Rightarrow> and_then (ensure (int (length metas) = rows)
               (ValueError (''manifest shard '' @ name @ '' must carry rows_meta''))) (\<lambda>_.
               Inr \<lparr>sh_name = name, sh_rows = rows, sh_meta = metas\<rparr>)
           | _ \<Rightarrow> Inl (ValueError (''manifest shard '' @ name @ '' must carry rows_meta''))))
     | _ \<Rightarrow> Inl (ValueError ''manifest shards must be (<source>/)data/train-*.parquet files''))
   | _ \<Rightarrow> Inl (ValueError ''manifest shard entries must be objects''))"

text \<open>A declared total, absent or null, or equal to the sum of the rows.\<close>

definition total_fits :: "json \<Rightarrow> int \<Rightarrow> bool" where
  "total_fits v n \<longleftrightarrow> v = JNull \<or> equals_int v n"

definition normalized_shards :: "json \<Rightarrow> py_error + shard list" where
  "normalized_shards source = (case jget ''shards'' source of
     JList vs \<Rightarrow> and_then (all_of shard_of vs) (\<lambda>shards.
       and_then (ensure (total_fits (jget ''total_rows'' source) (sum_list (map sh_rows shards)))
         (ValueError ''manifest total_rows does not match shard rows'')) (\<lambda>_. Inr shards))
   | _ \<Rightarrow> Inl (ValueError ''manifest.shards must be a list''))"

fun sources_of :: "json list \<Rightarrow> string list \<Rightarrow> py_error + source list" where
  "sources_of [] seen = Inr []"
| "sources_of (JObj kvs # vs) seen = (let v = JObj kvs in
     case jget ''name'' v of
       JStr name \<Rightarrow>
         and_then (ensure (name \<noteq> []) (ValueError ''manifest source name must be a non-empty string'')) (\<lambda>_.
         and_then (ensure (name \<notin> set seen) (ValueError (''duplicate manifest source name: '' @ name))) (\<lambda>_.
         and_then (normalized_shards v) (\<lambda>shards.
         and_then (ensure (total_fits (jget ''total_rows'' v) (sum_list (map sh_rows shards)))
           (ValueError (''manifest source '' @ name @ '' total_rows does not match shard rows''))) (\<lambda>_.
         and_then (sources_of vs (name # seen)) (\<lambda>rest.
         Inr (\<lparr>so_name = name, so_shards = shards\<rparr> # rest))))))
     | _ \<Rightarrow> Inl (ValueError ''manifest source name must be a non-empty string''))"
| "sources_of (v # vs) seen = Inl (ValueError ''manifest source entries must be objects'')"

definition normalized_sources :: "json \<Rightarrow> py_error + source list" where
  "normalized_sources manifest = (case jget ''sources'' manifest of
     JList vs \<Rightarrow> and_then (ensure (vs \<noteq> []) (ValueError ''manifest.sources must be a non-empty list'')) (\<lambda>_.
       and_then (sources_of vs []) (\<lambda>sources.
       and_then (ensure (total_fits (jget ''total_rows'' manifest)
           (sum_list (map sh_rows (concat (map so_shards sources)))))
         (ValueError ''manifest total_rows does not match source rows'')) (\<lambda>_.
       Inr (sort_key so_name sources))))
   | _ \<Rightarrow> Inl (ValueError ''manifest.sources must be a non-empty list''))"

section \<open>The pool\<close>

record entry =
  en_asst :: int
  en_first_edit :: int
  en_family :: string
  en_repo :: string
  en_language :: string
  en_chars_at :: int
  en_chars_pre :: int
  en_shard :: string
  en_row :: nat
  en_used :: bool

definition BENCHMARK_LANGUAGE :: string where
  "BENCHMARK_LANGUAGE = ''python''"

definition item :: "string \<Rightarrow> json \<Rightarrow> py_error + json" where
  "item k v = (case v of JObj kvs \<Rightarrow> (case map_of kvs k of None \<Rightarrow> Inl (KeyError k) | Some x \<Rightarrow> Inr x)
     | _ \<Rightarrow> Inl (TypeError k))"

definition entry_of :: "string \<Rightarrow> nat \<Rightarrow> json \<Rightarrow> py_error + string \<times> entry" where
  "entry_of shard row meta =
     and_then (item ''iid'' meta) (\<lambda>iid.
     and_then (and_then (item ''asst'' meta) py_int) (\<lambda>asst.
     and_then (py_int (jor (jget ''first_edit'' meta) (JInt 0))) (\<lambda>first_edit.
     and_then (py_int (jor (jget ''chars_at'' meta) (JInt 0))) (\<lambda>chars_at.
     and_then (py_int (jor (jget ''chars_pre'' meta) (JInt 0))) (\<lambda>chars_pre.
     Inr (py_str iid, \<lparr>en_asst = asst, en_first_edit = first_edit,
       en_family = py_str (jor (jget ''family'' meta) (JStr ''mechanical'')),
       en_repo = py_str (jor (jget ''repo'' meta) (JStr (before_first (CHR ''.'') (py_str iid)))),
       en_language = py_str (jor (jget ''language'' meta) (JStr BENCHMARK_LANGUAGE)),
       en_chars_at = chars_at, en_chars_pre = chars_pre, en_shard = shard, en_row = row,
       en_used = False\<rparr>))))))"

text \<open>\<open>setdefault(iid, []).append(entry)\<close>.\<close>

definition add_instance :: "string \<times> entry \<Rightarrow> (string \<times> entry list) list \<Rightarrow> (string \<times> entry list) list" where
  "add_instance x d = (case x of (iid, e) \<Rightarrow>
     dict_put iid ((case map_of d iid of None \<Rightarrow> [] | Some es \<Rightarrow> es) @ [e]) d)"

fun add_rows :: "string \<Rightarrow> nat \<Rightarrow> json list \<Rightarrow> (string \<times> entry list) list \<Rightarrow>
    py_error + (string \<times> entry list) list" where
  "add_rows shard row [] d = Inr d"
| "add_rows shard row (JObj kvs # metas) d =
     (if truthy (jget ''blocked'' (JObj kvs)) then add_rows shard (Suc row) metas d
      else and_then (entry_of shard row (JObj kvs)) (\<lambda>x. add_rows shard (Suc row) metas (add_instance x d)))"
| "add_rows shard row (meta # metas) d = Inl (AttributeError ''get'')"

primrec add_shards :: "shard list \<Rightarrow> (string \<times> entry list) list \<Rightarrow> py_error + (string \<times> entry list) list" where
  "add_shards [] d = Inr d"
| "add_shards (s # ss) d = and_then (add_rows (sh_name s) 0 (sh_meta s) d) (add_shards ss)"

record 'r rng =
  rn_pick :: "'r \<Rightarrow> nat \<Rightarrow> nat \<times> 'r"
  rn_perm :: "'r \<Rightarrow> nat \<Rightarrow> nat list \<times> 'r"

definition rng_choice :: "'r rng \<Rightarrow> 'a list \<Rightarrow> 'r \<Rightarrow> 'a \<times> 'r" where
  "rng_choice g xs r = (case rn_pick g r (length xs) of (i, r') \<Rightarrow> (xs ! i, r'))"

definition rng_shuffle :: "'r rng \<Rightarrow> 'a list \<Rightarrow> 'r \<Rightarrow> 'a list \<times> 'r" where
  "rng_shuffle g xs r = (case rn_perm g r (length xs) of (p, r') \<Rightarrow> (map (\<lambda>i. xs ! i) p, r'))"

primrec choose_each :: "'r rng \<Rightarrow> 'a list list \<Rightarrow> 'r \<Rightarrow> 'a list \<times> 'r" where
  "choose_each g [] r = ([], r)"
| "choose_each g (xs # xss) r = (case rng_choice g xs r of (x, r') \<Rightarrow>
     (case choose_each g xss r' of (ys, r'') \<Rightarrow> (x # ys, r'')))"

definition instance_pool :: "'r rng \<Rightarrow> source list \<Rightarrow> 'r \<Rightarrow> py_error + entry list \<times> 'r" where
  "instance_pool g sources r =
     and_then (add_shards (concat (map so_shards sources)) []) (\<lambda>d.
     Inr (case choose_each g (map snd (sort_key fst d)) r of (pool, r') \<Rightarrow> rng_shuffle g pool r'))"

section \<open>Quotas\<close>

definition STEP_TRIM :: "(string \<times> int) list" where
  "STEP_TRIM = [(''cold'', 65), (''pre_edit'', 15), (''at_edit'', 20)]"

definition FAMILY_MIX :: "(string \<times> int) list" where
  "FAMILY_MIX = [(''pr'', 50), (''lm'', 15), (''combine'', 10), (''mechanical'', 25)]"

text \<open>\<open>xs[:n]\<close>: a negative bound counts from the end.\<close>

definition slice_to :: "int \<Rightarrow> 'a list \<Rightarrow> 'a list" where
  "slice_to n xs = (if 0 \<le> n then take (nat n) xs else take (length xs - nat (- n)) xs)"

text \<open>\<open>x % 1\<close>.\<close>

definition frac_part :: "rat \<Rightarrow> rat" where
  "frac_part x = fl (x - of_int \<lfloor>x\<rfloor>)"

definition bump :: "(string \<times> int) list \<Rightarrow> string \<Rightarrow> (string \<times> int) list" where
  "bump d k = dict_put k ((case map_of d k of None \<Rightarrow> 0 | Some n \<Rightarrow> n) + 1) d"

definition exact_shares :: "(string \<times> int) list \<Rightarrow> int \<Rightarrow> (string \<times> rat) list" where
  "exact_shares spec n = map (\<lambda>(name, share).
     (name, fl (of_int (n * share) / of_int (sum_list (map snd spec))))) spec"

definition apportion :: "(string \<times> int) list \<Rightarrow> int \<Rightarrow> py_error + (string \<times> int) list" where
  "apportion spec n =
     (if sum_list (map snd spec) \<le> 0 then Inl (ValueError ''apportion shares must sum to a positive value'')
      else let exact = exact_shares spec n;
        out = dict_of (map (\<lambda>(name, value). (name, \<lfloor>value\<rfloor>)) exact);
        remainder = n - sum_list (map snd out);
        order = sort_key (\<lambda>(i, name, value). (- frac_part value, i)) (enumerate 0 exact)
      in Inr (foldl bump out (map (\<lambda>(i, name, value). name) (slice_to remainder order))))"

definition amount :: "(string \<times> int) list \<Rightarrow> string \<Rightarrow> int" where
  "amount d k = (case map_of d k of None \<Rightarrow> 0 | Some n \<Rightarrow> n)"

text \<open>The rows of the grid, from the phases left, what is allocated and the running sum.\<close>

fun grid_rows :: "(string \<times> int) list \<Rightarrow> (string \<Rightarrow> int) \<Rightarrow> int \<Rightarrow>
    py_error + (string \<times> (string \<times> int) list) list" where
  "grid_rows [] allocated cumulative = Inr []"
| "grid_rows ((phase, want) # phases) allocated cumulative =
     and_then (apportion FAMILY_MIX (cumulative + want)) (\<lambda>target.
     let row = map (\<lambda>(name, _). (name, max 0 (amount target name - allocated name))) FAMILY_MIX in
     and_then (grid_rows phases (\<lambda>name. allocated name + amount row name) (cumulative + want)) (\<lambda>grid.
     Inr ((phase, row) # grid)))"

definition family_grid :: "int \<Rightarrow> (string \<times> int) list \<Rightarrow> py_error + (string \<times> (string \<times> int) list) list" where
  "family_grid n trim = and_then (apportion trim n) (\<lambda>phases. grid_rows phases (\<lambda>_. 0) 0)"

section \<open>Selecting\<close>

definition REPO_CAP :: nat where
  "REPO_CAP = 2"

definition MAX_PREFIX_CHARS :: int where
  "MAX_PREFIX_CHARS = 54000"

text \<open>\<open>round(sample_count * 0.30)\<close>.\<close>

definition language_budget :: "int \<Rightarrow> int" where
  "language_budget n = round_even (fl (of_int n * fl (3 / 10)))"

definition prefix_chars :: "string \<Rightarrow> entry \<Rightarrow> int" where
  "prefix_chars phase e = (if phase = ''cold'' then 0
     else if phase = ''at_edit'' then en_chars_at e else en_chars_pre e)"

definition turn_idx :: "'r rng \<Rightarrow> string \<Rightarrow> entry \<Rightarrow> 'r \<Rightarrow> int \<times> 'r" where
  "turn_idx g phase e r =
     (if phase = ''cold'' then rng_choice g [1, 2] r
      else if en_first_edit e \<le> 0 then (1, r)
      else (if phase = ''pre_edit'' then max 1 (en_first_edit e - 2) else en_first_edit e, r))"

record 'r sampler =
  sp_rng :: 'r
  sp_repos :: "string \<Rightarrow> nat"
  sp_budget :: int
  sp_taken :: int
  sp_selected :: "string list"

definition sample_id :: "entry \<Rightarrow> int \<Rightarrow> string" where
  "sample_id e t = en_shard e @ '':'' @ show_nat (en_row e) @ '':'' @ show_int t"

text \<open>The conditions under which the loop passes over an entry before it draws a turn.\<close>

definition skipped :: "string \<Rightarrow> string \<Rightarrow> 'r sampler \<Rightarrow> entry \<Rightarrow> bool" where
  "skipped phase family s e \<longleftrightarrow> en_used e \<or> en_family e \<noteq> family \<or> REPO_CAP \<le> sp_repos s (en_repo e) \<or>
     MAX_PREFIX_CHARS < prefix_chars phase e \<or> (en_language e \<noteq> BENCHMARK_LANGUAGE \<and> sp_budget s \<le> 0)"

definition take_entry :: "entry \<Rightarrow> int \<Rightarrow> 'r sampler \<Rightarrow> 'r sampler" where
  "take_entry e t s = s\<lparr>sp_repos := (sp_repos s)(en_repo e := Suc (sp_repos s (en_repo e))),
     sp_budget := sp_budget s - (if en_language e \<noteq> BENCHMARK_LANGUAGE then 1 else 0),
     sp_taken := sp_taken s + 1, sp_selected := sp_selected s @ [sample_id e t]\<rparr>"

fun scan :: "'r rng \<Rightarrow> string \<Rightarrow> string \<Rightarrow> int \<Rightarrow> entry list \<Rightarrow> 'r sampler \<Rightarrow> entry list \<times> 'r sampler" where
  "scan g phase family want [] s = ([], s)"
| "scan g phase family want (e # es) s =
     (if sp_taken s = want then (e # es, s)
      else if skipped phase family s e
      then (case scan g phase family want es s of (es', s') \<Rightarrow> (e # es', s'))
      else (case turn_idx g phase e (sp_rng s) of (t, r) \<Rightarrow>
        if en_asst e \<le> t
        then (case scan g phase family want es (s\<lparr>sp_rng := r\<rparr>) of (es', s') \<Rightarrow> (e # es', s'))
        else (case scan g phase family want es (take_entry e t (s\<lparr>sp_rng := r\<rparr>)) of (es', s') \<Rightarrow>
          (e\<lparr>en_used := True\<rparr> # es', s'))))"

definition infeasible :: "string \<Rightarrow> string \<Rightarrow> int \<Rightarrow> int \<Rightarrow> string" where
  "infeasible phase family want taken = ''infeasible stratum: phase='' @ phase @ '' family='' @ family @
     '' needs '' @ show_int want @ '', only '' @ show_int taken @ '' feasible instances remain (REPO_CAP='' @
     show_nat REPO_CAP @ '', MAX_PREFIX_CHARS='' @ show_int MAX_PREFIX_CHARS @ '')''"

text \<open>One stratum after the other: (phase, family, want).\<close>

primrec fill :: "'r rng \<Rightarrow> (string \<times> string \<times> int) list \<Rightarrow> entry list \<Rightarrow> 'r sampler \<Rightarrow>
    py_error + string list" where
  "fill g [] pool s = Inr (sp_selected s)"
| "fill g (x # strata) pool s = (case x of (phase, family, want) \<Rightarrow>
     (case scan g phase family want pool (s\<lparr>sp_taken := 0\<rparr>) of (pool', s') \<Rightarrow>
        if sp_taken s' < want then Inl (ValueError (infeasible phase family want (sp_taken s')))
        else fill g strata pool' s'))"

definition strata_of :: "(string \<times> (string \<times> int) list) list \<Rightarrow> (string \<times> string \<times> int) list" where
  "strata_of grid = concat (map (\<lambda>(phase, row). map (\<lambda>(family, want). (phase, family, want)) row) grid)"

definition multi_source_manifest_sample_ids ::
  "'r rng \<Rightarrow> (string \<Rightarrow> 'r) \<Rightarrow> json \<Rightarrow> string \<Rightarrow> int \<Rightarrow> (string \<times> int) list \<Rightarrow> py_error + string list" where
  "multi_source_manifest_sample_ids g seed manifest block_hash n trim =
     and_then (ensure (case manifest of JObj kvs \<Rightarrow> map_of kvs ''sources'' \<noteq> None | _ \<Rightarrow> False)
       (ValueError ''dataset manifest must define a sources array'')) (\<lambda>_.
     and_then (ensure (block_hash \<noteq> []) (ValueError ''block_hash is required for eval dataset sampling'')) (\<lambda>_.
     and_then (ensure (0 < n) (ValueError ''sample_count must be positive'')) (\<lambda>_.
     and_then (normalized_sources manifest) (\<lambda>sources.
     if sources = [] then Inr []
     else and_then (instance_pool g sources (seed block_hash)) (\<lambda>(pool, r).
       and_then (family_grid n (if trim = [] then STEP_TRIM else trim)) (\<lambda>grid.
       fill g (strata_of grid) pool \<lparr>sp_rng = r, sp_repos = (\<lambda>_. 0), sp_budget = language_budget n,
         sp_taken = 0, sp_selected = []\<rparr>))))))"

section \<open>Quotas add up\<close>

text \<open>The float quotient of two integers of ordinary size has the floor of the exact one.\<close>

lemma floor_fl_quotient:
  assumes "0 \<le> k" "k < 2 ^ 52" "0 < t"
  shows "\<lfloor>fl (of_int k / of_int t)\<rfloor> = k div t"
proof -
  let ?x = "of_int k / of_int t :: rat"
  have q: "of_int (k div t) \<le> ?x" "?x + 1 / of_int t \<le> of_int (k div t) + 1"
  proof -
    have "k div t * t \<le> k" "k + 1 \<le> (k div t + 1) * t"
      using pos_mod_bound [OF assms(3), of k] pos_mod_sign [OF assms(3), of k] div_mult_mod_eq [of k t]
      unfolding distrib_right mult_1 by linarith+
    then have "of_int (k div t * t) \<le> (of_int k :: rat)" "of_int (k + 1) \<le> (of_int ((k div t + 1) * t) :: rat)"
      by (simp_all only: of_int_le_iff)
    then show "of_int (k div t) \<le> ?x" "?x + 1 / of_int t \<le> of_int (k div t) + 1"
      using assms(3) by (simp_all add: le_divide_eq divide_le_eq flip: add_divide_distrib)
  qed
  have small: "\<bar>k div t\<bar> < 2 ^ 53"
  proof -
    have "0 \<le> k div t" using assms by (simp add: pos_imp_zdiv_nonneg_iff)
    moreover have "k div t \<le> k" using zdiv_mono2 [of k 1 t] assms by simp
    ultimately show ?thesis using assms(2) by simp
  qed
  have "of_int (k div t) \<le> fl ?x" using fl_mono [OF q(1)] fl_of_int [OF small] by simp
  moreover have "fl ?x < of_int (k div t) + 1"
  proof -
    have "fl ?x \<le> ?x + ?x / 2 ^ 53" using fl_error [of ?x] assms by (simp add: abs_le_iff)
    moreover have "?x / 2 ^ 53 < 1 / of_int t"
      using assms by (simp add: divide_less_eq) 
    ultimately show ?thesis using q(2) by linarith
  qed
  ultimately show ?thesis by (intro floor_unique) simp_all
qed

lemma amount_bump: "amount (bump d k) j = amount d j + (if j = k then 1 else 0)"
  by (simp add: amount_def bump_def map_of_dict_put)

lemma dict_put_known: "k \<in> fst ` set d \<Longrightarrow> map fst (dict_put k v d) = map fst d"
  by (induction k v d rule: dict_put.induct) auto

lemma sum_dict_put:
  "distinct (map fst d) \<Longrightarrow> k \<in> fst ` set d \<Longrightarrow>
     sum_list (map snd (dict_put k v d)) = sum_list (map snd d) - amount d k + v"
proof (induction k v d rule: dict_put.induct)
  case (2 k v j u d)
  then show ?case by (cases "j = k") (simp_all add: amount_def)
qed simp

lemma fold_bump:
  assumes "distinct (map fst d)" "set ks \<subseteq> fst ` set d" "distinct ks"
  shows "map fst (foldl bump d ks) = map fst d \<and> sum_list (map snd (foldl bump d ks)) = sum_list (map snd d) + int (length ks) \<and>
    (\<forall>j. amount (foldl bump d ks) j = amount d j + (if j \<in> set ks then 1 else 0))"
  using assms
proof (induction ks arbitrary: d)
  case (Cons k ks)
  have keys: "map fst (bump d k) = map fst d" using Cons.prems by (simp add: bump_def dict_put_known)
  have "sum_list (map snd (bump d k)) = sum_list (map snd d) + 1"
    using Cons.prems sum_dict_put [of d k] by (simp add: bump_def amount_def)
  moreover have "set ks \<subseteq> fst ` set (bump d k)" using Cons.prems keys by (metis list.set_map set_subset_Cons subset_trans)
  ultimately show ?case using Cons.IH [of "bump d k"] Cons.prems keys by (auto simp: amount_bump)
qed simp

lemma sum_shares: "sum_list (map (\<lambda>(k, v). n * v) spec) = n * sum_list (map snd spec)" for n :: int
  by (induction spec) (auto simp: algebra_simps)

lemma remainder_bounds:
  fixes n t :: int
  assumes "0 < t" "0 \<le> n" "t = sum_list (map snd spec)"
  defines "q \<equiv> sum_list (map (\<lambda>(k, v). n * v div t) spec)"
  shows "0 \<le> n - q" "n - q \<le> int (length spec)"
proof -
  have bounds: "t * sum_list (map (\<lambda>(k, v). n * v div t) xs) \<le> sum_list (map (\<lambda>(k, v). n * v) xs) \<and>
      sum_list (map (\<lambda>(k, v). n * v) xs) \<le> t * sum_list (map (\<lambda>(k, v). n * v div t) xs) + t * int (length xs)" for xs :: "('b \<times> int) list"
  proof (induction xs)
    case (Cons x xs)
    have "t * (n * snd x div t) \<le> n * snd x" "n * snd x \<le> t * (n * snd x div t) + t"
      using assms(1) pos_mod_bound [OF assms(1), of "n * snd x"] pos_mod_sign [OF assms(1), of "n * snd x"]
        mult_div_mod_eq [of t "n * snd x"] by linarith+
    then show ?case using Cons by (simp add: case_prod_beta algebra_simps)
  qed simp
  have "t * q \<le> n * t" "n * t \<le> t * q + t * int (length spec)"
    using bounds [of spec] sum_shares [of n spec] assms(3) by (simp_all add: q_def)
  then have "0 \<le> t * (n - q)" "t * (n - q) \<le> t * int (length spec)" by (simp_all add: algebra_simps)
  then show "0 \<le> n - q" "n - q \<le> int (length spec)" using assms(1) by (simp_all add: zero_le_mult_iff)
qed

text \<open>
  Apportioning by largest remainders in floating point is sound: the amounts add up to the count
  and each is the exact quota rounded down or one more, for every count whose products stay below
  2^52.
\<close>

theorem apportion_adds_up:
  assumes "distinct (map fst spec)" and "\<forall>(k, v) \<in> set spec. 0 \<le> v" and "0 < sum_list (map snd spec)"
    and "0 \<le> n" and "n * sum_list (map snd spec) < 2 ^ 52"
  shows "\<exists>d. apportion spec n = Inr d \<and> map fst d = map fst spec \<and> sum_list (map snd d) = n \<and>
    (\<forall>(k, v) \<in> set spec. amount d k = n * v div sum_list (map snd spec) \<or>
       amount d k = n * v div sum_list (map snd spec) + 1)"
proof -
  define t where "t = sum_list (map snd spec)"
  define d0 where "d0 = map (\<lambda>(k, v). (k, n * v div t)) spec"
  have small: "0 \<le> n * v \<and> n * v < 2 ^ 52" if "(k, v) \<in> set spec" for k v
  proof -
    have "v \<le> t" using that assms(2) unfolding t_def by (intro member_le_sum_list) force+
    then have "n * v \<le> n * t" using assms(4) by (rule mult_left_mono)
    then show ?thesis using that assms(2,4,5) by (auto simp: t_def)
  qed
  have floors: "map (\<lambda>(name, value). (name, \<lfloor>value\<rfloor>)) (exact_shares spec n) = d0"
  proof -
    have "\<lfloor>fl (of_int (n * v) / of_int t)\<rfloor> = n * v div t" if "(k, v) \<in> set spec" for k v
      using small [OF that] assms(3) by (intro floor_fl_quotient) (simp_all add: t_def)
    then show ?thesis by (auto simp: exact_shares_def d0_def t_def [symmetric] simp del: of_int_mult)
  qed
  have keys: "map fst d0 = map fst spec" by (simp add: d0_def case_prod_beta o_def)
  then have out: "dict_of d0 = d0" using assms(1) by (intro dict_of_distinct) simp
  let ?order = "sort_key (\<lambda>(i, name, value). (- frac_part value, i)) (enumerate 0 (exact_shares spec n))"
  define r where "r = n - sum_list (map snd d0)"
  define ks where "ks = map (\<lambda>(i, name, value). name) (slice_to r ?order)"
  have "sum_list (map snd d0) = sum_list (map (\<lambda>(k, v). n * v div t) spec)"
    by (simp add: d0_def case_prod_unfold o_def)
  then have r: "0 \<le> r" "r \<le> int (length spec)"
    using remainder_bounds [of t n spec] assms(3,4) by (simp_all add: r_def t_def)
  have "mset (map (\<lambda>(i, name, value). name) ?order) = mset (map (\<lambda>(i, name, value). name) (enumerate 0 (exact_shares spec n)))"
    by simp
  moreover have "map (\<lambda>(i, name, value). name) (enumerate 0 (exact_shares spec n)) = map fst spec"
  proof -
    have "map (\<lambda>(i, name, value). name) (enumerate k xs) = map fst xs" for k and xs :: "(string \<times> rat) list"
      by (induction xs arbitrary: k) auto
    then show ?thesis by (simp add: exact_shares_def case_prod_beta o_def)
  qed
  ultimately have names_mset: "mset (map (\<lambda>(i, name, value). name) ?order) = mset (map fst spec)" by simp
  have taken: "ks = take (nat r) (map (\<lambda>(i, name, value). name) ?order)"
    using r(1) by (simp add: ks_def slice_to_def take_map)
  define names where "names = map (\<lambda>(i, name, value). name) ?order"
  have "distinct names" "set names = fst ` set d0" "length names = length spec"
    using mset_eq_imp_distinct_iff [OF names_mset] mset_eq_setD [OF names_mset] mset_eq_length [OF names_mset]
      assms(1) arg_cong [OF keys, of set] by (simp_all add: names_def [symmetric])
  then have ks: "distinct ks" "set ks \<subseteq> fst ` set d0" "length ks = nat r"
    using r set_take_subset [of "nat r" names] unfolding taken names_def [symmetric] by simp_all
  have run: "apportion spec n = Inr (foldl bump d0 ks)"
    using assms(3) by (simp add: apportion_def Let_def floors out flip: r_def ks_def)
  have "distinct (map fst d0)" using assms(1) keys by simp
  note result = fold_bump [OF this ks(2,1)]
  have "amount d0 k = n * v div t" if "(k, v) \<in> set spec" for k v
  proof -
    have "map_of spec k = Some v" using assms(1) that by simp
    then show ?thesis by (simp add: d0_def amount_def map_of_map)
  qed
  then show ?thesis using run result keys ks(3) r by (auto simp: t_def r_def)
qed

section \<open>What is selected\<close>

text \<open>A pick: the place of the entry in the pool, the entry, and the turn.\<close>

definition allowed :: "string \<Rightarrow> string \<Rightarrow> entry \<Rightarrow> int \<Rightarrow> bool" where
  "allowed phase family e t \<longleftrightarrow> en_family e = family \<and> prefix_chars phase e \<le> MAX_PREFIX_CHARS \<and> t < en_asst e"

definition other_language :: "entry \<Rightarrow> bool" where
  "other_language e \<longleftrightarrow> en_language e \<noteq> BENCHMARK_LANGUAGE"

text \<open>The effect of a scan from place \<open>k\<close> on, told by its picks.\<close>

definition scanned :: "string \<Rightarrow> string \<Rightarrow> nat \<Rightarrow> entry list \<Rightarrow> 'r sampler \<Rightarrow> entry list \<Rightarrow> 'r sampler \<Rightarrow>
    (nat \<times> entry \<times> int) list \<Rightarrow> bool" where
  "scanned phase family k pool s pool' s' picks \<longleftrightarrow>
     distinct (map fst picks) \<and>
     (\<forall>(i, e, t) \<in> set picks. k \<le> i \<and> i < k + length pool \<and> pool ! (i - k) = e \<and> \<not> en_used e \<and>
        allowed phase family e t) \<and>
     length pool' = length pool \<and>
     (\<forall>j < length pool. pool' ! j = (if k + j \<in> fst ` set picks then (pool ! j)\<lparr>en_used := True\<rparr> else pool ! j)) \<and>
     sp_selected s' = sp_selected s @ map (\<lambda>(i, e, t). sample_id e t) picks \<and>
     (\<forall>q. sp_repos s' q = sp_repos s q + length (filter (\<lambda>(i, e, t). en_repo e = q) picks)) \<and>
     sp_budget s' = sp_budget s - int (length (filter (\<lambda>(i, e, t). other_language e) picks)) \<and>
     sp_taken s' = sp_taken s + int (length picks)"

lemma scanned_stop: "\<exists>picks. scanned phase family k pool s pool s picks"
  by (rule exI [of _ "[]"]) (simp add: scanned_def)

lemma scanned_pass:
  assumes "scanned phase family (Suc k) pool s pool' s' picks"
  shows "scanned phase family k (e # pool) s (e # pool') s' picks"
proof -
  have k: "k \<notin> fst ` set picks" using assms by (force simp: scanned_def)
  have places: "\<forall>(i, e', t') \<in> set picks. k \<le> i \<and> i < k + length (e # pool) \<and> (e # pool) ! (i - k) = e' \<and> \<not> en_used e' \<and>
      allowed phase family e' t'"
    using assms by (fastforce simp: scanned_def nth_Cons')
  have entries: "(e # pool') ! j = (if k + j \<in> fst ` set picks
      then ((e # pool) ! j)\<lparr>en_used := True\<rparr> else (e # pool) ! j)" if "j < length (e # pool)" for j
    using assms that k by (cases j) (auto simp: scanned_def)
  show ?thesis using assms places entries by (auto simp: scanned_def)
qed

lemma scanned_take:
  assumes "scanned phase family (Suc k) pool (take_entry e t s) pool' s' picks" "\<not> en_used e" "allowed phase family e t"
  shows "scanned phase family k (e # pool) s (e\<lparr>en_used := True\<rparr> # pool') s' ((k, e, t) # picks)"
proof -
  have k: "k \<notin> fst ` set picks" using assms(1) by (force simp: scanned_def)
  have places: "\<forall>(i, e', t') \<in> set picks. k \<le> i \<and> i < k + length (e # pool) \<and> (e # pool) ! (i - k) = e' \<and> \<not> en_used e' \<and>
      allowed phase family e' t'"
    using assms(1) by (fastforce simp: scanned_def nth_Cons')
  have entries: "(e\<lparr>en_used := True\<rparr> # pool') ! j = (if k + j \<in> fst ` set ((k, e, t) # picks)
      then ((e # pool) ! j)\<lparr>en_used := True\<rparr> else (e # pool) ! j)" if "j < length (e # pool)" for j
    using assms(1) that k by (cases j) (auto simp: scanned_def)
  show ?thesis
    using assms k places entries by (auto simp: scanned_def take_entry_def other_language_def)
qed

lemma scanned_rng: "scanned phase family k pool (s\<lparr>sp_rng := r\<rparr>) pool' s' picks \<longleftrightarrow> scanned phase family k pool s pool' s' picks"
  by (simp add: scanned_def)

lemma take_entry_rng: "take_entry e t (s\<lparr>sp_rng := r\<rparr>) = (take_entry e t s)\<lparr>sp_rng := r\<rparr>"
  by (simp add: take_entry_def)

text \<open>A scan keeps within the want, the repository cap and the language budget.\<close>

definition in_bounds :: "int \<Rightarrow> 'r sampler \<Rightarrow> bool" where
  "in_bounds want s \<longleftrightarrow> sp_taken s \<le> want \<and> 0 \<le> sp_budget s \<and> (\<forall>q. sp_repos s q \<le> REPO_CAP)"

lemma scan_picks:
  assumes "scan g phase family want pool s = (pool', s')" "in_bounds want s"
  shows "in_bounds want s' \<and> (\<exists>picks. scanned phase family k pool s pool' s' picks)"
  using assms
proof (induction pool arbitrary: s pool' s' k)
  case Nil
  then show ?case using scanned_stop by auto
next
  case (Cons e pool)
  consider (stop) "sp_taken s = want" | (skip) "sp_taken s \<noteq> want" "skipped phase family s e"
    | (go) "sp_taken s \<noteq> want" "\<not> skipped phase family s e" by blast
  then show ?case
  proof cases
    case stop
    then show ?thesis using Cons.prems scanned_stop by auto
  next
    case skip
    obtain p u where pu: "scan g phase family want pool s = (p, u)" by fastforce
    obtain picks where "in_bounds want u" "scanned phase family (Suc k) pool s p u picks"
      using Cons.IH [OF pu Cons.prems(2), of "Suc k"] by blast
    then show ?thesis using Cons.prems(1) skip pu by (auto intro!: exI [of _ picks] scanned_pass)
  next
    case go
    obtain t r where t: "turn_idx g phase e (sp_rng s) = (t, r)" by fastforce
    let ?s = "if en_asst e \<le> t then s\<lparr>sp_rng := r\<rparr> else take_entry e t (s\<lparr>sp_rng := r\<rparr>)"
    obtain p u where pu: "scan g phase family want pool ?s = (p, u)" by fastforce
    have ok: "in_bounds want ?s"
      using Cons.prems(2) go by (auto simp: in_bounds_def take_entry_def skipped_def not_le Suc_le_eq)
    from Cons.IH [OF pu ok, of "Suc k"] obtain picks where
      u: "in_bounds want u" "scanned phase family (Suc k) pool ?s p u picks" by blast
    show ?thesis
    proof (cases "en_asst e \<le> t")
      case True
      then show ?thesis using Cons.prems(1) go t pu u by (auto simp: scanned_rng intro!: exI [of _ picks] scanned_pass)
    next
      case False
      then have "allowed phase family e t" "\<not> en_used e" using go by (auto simp: allowed_def skipped_def)
      moreover have "scanned phase family (Suc k) pool (take_entry e t s) p u picks"
        using u(2) False by (simp add: take_entry_rng scanned_rng)
      ultimately have "scanned phase family k (e # pool) s (e\<lparr>en_used := True\<rparr> # p) u ((k, e, t) # picks)"
        by (intro scanned_take)
      then show ?thesis using Cons.prems(1) go t pu u(1) False by auto
    qed
  qed
qed

text \<open>A pick of a stratum, and the pool with the entries at some places used.\<close>

type_synonym pick = "string \<times> string \<times> nat \<times> entry \<times> int"

definition with_used :: "nat set \<Rightarrow> entry list \<Rightarrow> entry list \<Rightarrow> bool" where
  "with_used used pool0 pool \<longleftrightarrow> length pool = length pool0 \<and>
     (\<forall>j < length pool0. pool ! j = (if j \<in> used then (pool0 ! j)\<lparr>en_used := True\<rparr> else pool0 ! j))"

definition picks_fit :: "entry list \<Rightarrow> (string \<times> string \<times> int) list \<Rightarrow> pick list \<Rightarrow> bool" where
  "picks_fit pool strata picks \<longleftrightarrow>
     distinct (map (\<lambda>(p, f, i, e, t). i) picks) \<and>
     (\<forall>(p, f, i, e, t) \<in> set picks. i < length pool \<and> pool ! i = e \<and> allowed p f e t) \<and>
     map (\<lambda>(p, f, i, e, t). (p, f)) picks = concat (map (\<lambda>(p, f, want). replicate (nat want) (p, f)) strata)"

lemma fill_picks:
  assumes "fill g strata pool s = Inr ids" "with_used used pool0 pool" "0 \<le> sp_budget s" "\<forall>q. sp_repos s q \<le> REPO_CAP"
    and "\<forall>(p, f, want) \<in> set strata. 0 \<le> want"
  shows "\<exists>picks. picks_fit pool0 strata picks \<and> (\<forall>(p, f, i, e, t) \<in> set picks. i \<notin> used) \<and>
    ids = sp_selected s @ map (\<lambda>(p, f, i, e, t). sample_id e t) picks \<and>
    (\<forall>q. sp_repos s q + length (filter (\<lambda>(p, f, i, e, t). en_repo e = q) picks) \<le> REPO_CAP) \<and>
    int (length (filter (\<lambda>(p, f, i, e, t). other_language e) picks)) \<le> sp_budget s"
  using assms
proof (induction strata arbitrary: pool s used)
  case Nil
  then show ?case by (intro exI [of _ "[]"]) (simp add: picks_fit_def)
next
  case (Cons x strata)
  obtain p f want where x: "x = (p, f, want)" by (cases x)
  obtain pool' s' where scan: "scan g p f want pool (s\<lparr>sp_taken := 0\<rparr>) = (pool', s')" by fastforce
  have "in_bounds want (s\<lparr>sp_taken := 0\<rparr>)" using Cons.prems by (simp add: in_bounds_def x)
  from scan_picks [OF scan this, of 0] obtain picks where
    s': "in_bounds want s'" "scanned p f 0 pool (s\<lparr>sp_taken := 0\<rparr>) pool' s' picks" by blast
  then have enough: "sp_taken s' = want" "fill g strata pool' s' = Inr ids"
    using Cons.prems(1) scan x by (auto simp: in_bounds_def split: if_splits)
  define used' where "used' = used \<union> fst ` set picks"
  have places: "i < length pool0 \<and> i \<notin> used \<and> pool0 ! i = e \<and> allowed p f e t" if "(i, e, t) \<in> set picks" for i e t
  proof -
    have *: "i < length pool" "pool ! i = e" "\<not> en_used e" "allowed p f e t" using s'(2) that by (auto simp: scanned_def)
    then have "i < length pool0" using Cons.prems(2) by (simp add: with_used_def)
    moreover from this have "i \<notin> used" using Cons.prems(2) * by (auto simp: with_used_def)
    ultimately show ?thesis using Cons.prems(2) * by (simp add: with_used_def)
  qed
  have pool': "with_used used' pool0 pool'"
    using Cons.prems(2) s'(2) by (auto simp: with_used_def used'_def scanned_def)
  have bounds: "0 \<le> sp_budget s'" "\<forall>q. sp_repos s' q \<le> REPO_CAP" using s'(1) by (simp_all add: in_bounds_def)
  have wants: "\<forall>(p, f, want) \<in> set strata. 0 \<le> want" using Cons.prems(5) by simp
  obtain rest where rest: "picks_fit pool0 strata rest" "\<forall>(p, f, i, e, t) \<in> set rest. i \<notin> used'"
    "ids = sp_selected s' @ map (\<lambda>(p, f, i, e, t). sample_id e t) rest"
    "\<forall>q. sp_repos s' q + length (filter (\<lambda>(p, f, i, e, t). en_repo e = q) rest) \<le> REPO_CAP"
    "int (length (filter (\<lambda>(p, f, i, e, t). other_language e) rest)) \<le> sp_budget s'"
    using Cons.IH [OF enough(2) pool' bounds wants] by blast
  define mine where "mine = map (\<lambda>(i, e, t). (p, f, i, e, t)) picks"
  have "distinct (map (\<lambda>(p, f, i, e, t). i) (mine @ rest))"
  proof -
    have "map (\<lambda>(p, f, i, e, t). i) mine = map fst picks" by (simp add: mine_def case_prod_unfold o_def)
    then show ?thesis
      using s'(2) rest(1,2) by (auto simp: scanned_def picks_fit_def used'_def)
  qed
  moreover have "map (\<lambda>(p, f, i, e, t). (p, f)) mine = replicate (nat want) (p, f)"
    using s'(2) enough(1) by (intro replicate_eqI) (auto simp: mine_def scanned_def)
  moreover have "\<forall>(p, f, i, e, t) \<in> set mine. i < length pool0 \<and> pool0 ! i = e \<and> allowed p f e t \<and> i \<notin> used"
    using places by (auto simp: mine_def)
  ultimately have fit: "picks_fit pool0 (x # strata) (mine @ rest)" "\<forall>(p, f, i, e, t) \<in> set (mine @ rest). i \<notin> used"
    using rest(1,2) by (auto simp: picks_fit_def x used'_def)
  have count: "length (filter (\<lambda>(p, f, i, e, t). P e) mine) = length (filter (\<lambda>(i, e, t). P e) picks)" for P
    unfolding mine_def by (induction picks) auto
  show ?case
    using fit rest(3-5) s'(2) count
    by (intro exI [of _ "mine @ rest"]) (auto simp: scanned_def mine_def case_prod_unfold o_def add.assoc)
qed

lemma language_budget_nonneg: "0 \<le> n \<Longrightarrow> 0 \<le> language_budget n"
  unfolding language_budget_def by (intro round_even_ge) (simp add: fl_nonneg)

lemma grid_rows_nonneg: "grid_rows phases allocated c = Inr grid \<Longrightarrow> (p, f, want) \<in> set (strata_of grid) \<Longrightarrow> 0 \<le> want"
proof (induction phases allocated c arbitrary: grid rule: grid_rows.induct)
  case (2 phase w phases allocated c)
  from "2.prems"(1) obtain target rest where t: "apportion FAMILY_MIX (c + w) = Inr target"
    and rest: "grid_rows phases (\<lambda>name. allocated name + amount (map (\<lambda>(name, _). (name, max 0 (amount target name - allocated name))) FAMILY_MIX) name)
        (c + w) = Inr rest"
    and grid: "grid = (phase, map (\<lambda>(name, _). (name, max 0 (amount target name - allocated name))) FAMILY_MIX) # rest"
    by (auto simp: Let_def)
  show ?case using "2.prems"(2) "2.IH" [OF refl rest] by (auto simp: grid strata_of_def)
qed (simp add: strata_of_def)

text \<open>
  C23. A sample that is drawn obeys every quota, whatever the random generator does: it takes pairwise
  different entries of the pool, as many for each phase and family as the grid says and in its order,
  each of that family, within the prefix limit and with the turn inside the trajectory, at most two
  per repository and at most the budget of 30 percent in other languages.
\<close>

theorem samples_respect_quotas:
  assumes "multi_source_manifest_sample_ids g seed manifest block_hash n trim = Inr ids"
  shows "\<exists>sources pool r grid picks. normalized_sources manifest = Inr sources \<and>
    (sources = [] \<and> ids = [] \<or>
     instance_pool g sources (seed block_hash) = Inr (pool, r) \<and>
     family_grid n (if trim = [] then STEP_TRIM else trim) = Inr grid \<and>
     ids = map (\<lambda>(p, f, i, e, t). sample_id e t) picks \<and>
     distinct (map (\<lambda>(p, f, i, e, t). i) picks) \<and>
     (\<forall>(p, f, i, e, t) \<in> set picks. i < length pool \<and> e = pool ! i \<and> en_family e = f \<and>
        prefix_chars p e \<le> 54000 \<and> t < en_asst e) \<and>
     map (\<lambda>(p, f, i, e, t). (p, f)) picks =
       concat (map (\<lambda>(p, f, want). replicate (nat want) (p, f)) (strata_of grid)) \<and>
     (\<forall>q. length (filter (\<lambda>(p, f, i, e, t). en_repo e = q) picks) \<le> 2) \<and>
     int (length (filter (\<lambda>(p, f, i, e, t). en_language e \<noteq> ''python'') picks)) \<le> language_budget n)"
proof -
  obtain sources where n: "0 < n" and sources: "normalized_sources manifest = Inr sources"
    and run: "(if sources = [] then Inr [] else and_then (instance_pool g sources (seed block_hash)) (\<lambda>(pool, r).
       and_then (family_grid n (if trim = [] then STEP_TRIM else trim)) (\<lambda>grid.
       fill g (strata_of grid) pool \<lparr>sp_rng = r, sp_repos = (\<lambda>_. 0), sp_budget = language_budget n,
         sp_taken = 0, sp_selected = []\<rparr>))) = Inr ids"
    using assms by (auto simp: multi_source_manifest_sample_ids_def)
  show ?thesis
  proof (cases "sources = []")
    case True
    then show ?thesis using sources run by auto
  next
    case False
    with run obtain pool r grid where pool: "instance_pool g sources (seed block_hash) = Inr (pool, r)"
      and grid: "family_grid n (if trim = [] then STEP_TRIM else trim) = Inr grid"
      and fill: "fill g (strata_of grid) pool \<lparr>sp_rng = r, sp_repos = (\<lambda>_. 0), sp_budget = language_budget n,
         sp_taken = 0, sp_selected = []\<rparr> = Inr ids"
      by (auto split: prod.splits)
    have wants: "\<forall>(p, f, want) \<in> set (strata_of grid). 0 \<le> want"
      using grid grid_rows_nonneg by (fastforce simp: family_grid_def)
    have "with_used {} pool pool" by (simp add: with_used_def)
    from fill_picks [OF fill this _ _ wants] language_budget_nonneg [of n] n
    obtain picks where "picks_fit pool (strata_of grid) picks" "ids = map (\<lambda>(p, f, i, e, t). sample_id e t) picks"
      "\<forall>q. length (filter (\<lambda>(p, f, i, e, t). en_repo e = q) picks) \<le> 2"
      "int (length (filter (\<lambda>(p, f, i, e, t). other_language e) picks)) \<le> language_budget n"
      by (auto simp: REPO_CAP_def)
    then show ?thesis
      using sources pool grid
      by (intro exI [of _ sources] exI [of _ pool] exI [of _ r] exI [of _ grid] exI [of _ picks])
        (fastforce simp: picks_fit_def allowed_def other_language_def BENCHMARK_LANGUAGE_def MAX_PREFIX_CHARS_def)
  qed
qed

end
