(* ===== verification/Scoring.thy ===== *)
theory Scoring
  imports Prelude Floats
begin

text \<open>
  The arithmetic of a verdict: src/src/albedo_eval_service/judge_core.py and the letters of
  src/src/albedo_eval_service/shared/verdict_levels.py. Scores are floats (theory Floats). \<open>sum\<close> adds
  floats from the left, as Python 3.11 does, the lowest version the project admits.
\<close>

section \<open>Letters\<close>

definition LETTERS :: string where
  "LETTERS = ''ABCDEFGHIJKLMNOPQRST''"

definition ANCHORS :: "(char \<times> rat) list" where
  "ANCHORS = [(CHR ''A'', 0), (CHR ''E'', fl (15 / 100)), (CHR ''J'', fl (35 / 100)),
     (CHR ''O'', fl (70 / 100)), (CHR ''T'', 1)]"

fun index_of :: "'a \<Rightarrow> 'a list \<Rightarrow> nat" where
  "index_of x [] = 0"
| "index_of x (y # ys) = (if x = y then 0 else Suc (index_of x ys))"

definition between_anchors :: "nat \<times> rat \<Rightarrow> nat \<times> rat \<Rightarrow> (char \<times> rat) list" where
  "between_anchors a b = (case (a, b) of ((i0, v0), (i1, v1)) \<Rightarrow>
     map (\<lambda>i. (LETTERS ! i, round6 (fl (v0 + fl (fl (fl (v1 - v0) * of_nat (i - i0)) / of_nat (i1 - i0))))))
       [i0..<Suc i1])"

definition interpolate :: "(char \<times> rat) list" where
  "interpolate = (let anchors = sort_key fst (map (\<lambda>(l, v). (index_of l LETTERS, v)) ANCHORS)
     in dict_of (concat (map (\<lambda>(a, b). between_anchors a b) (zip anchors (tl anchors)))))"

definition PHI :: "(char \<times> rat) list" where
  "PHI = interpolate"

text \<open>\<open>value in PHI\<close>: the keys are the letters.\<close>

definition verdict_letter :: "string \<Rightarrow> bool" where
  "verdict_letter s \<longleftrightarrow> length s = 1 \<and> hd s \<in> fst ` set PHI"

section \<open>Answers\<close>

text \<open>An item of the reply that counts: the question it names, its letter and its reason.\<close>

definition read_item :: "string list \<Rightarrow> json \<Rightarrow> (string \<times> string \<times> string) option" where
  "read_item ids item = (case item of
     JObj kvs \<Rightarrow>
       let qid = strip (py_str (jor (jor (jget ''asked'' item) (jget ''id'' item)) (JStr '''')));
         letter = upper (strip (py_str (jget_or (jget_or (JStr '''') ''answer'' item) ''verdict'' item)))
       in if qid \<in> set ids \<and> verdict_letter letter
          then Some (qid, letter,
            strip (py_str (jor (jor (jget ''reason'' item) (jget ''explanation'' item)) (JStr ''''))))
          else None
   | _ \<Rightarrow> None)"

type_synonym answers = "(string \<times> string option) list"

text \<open>The last valid item of a question wins. The reply is the JSON value read from the text.\<close>

definition parse_answers :: "json \<Rightarrow> string list \<Rightarrow> answers \<times> (string \<times> string) list \<times> bool" where
  "parse_answers obj ids =
     (let items = (case obj of JObj _ \<Rightarrow> jget ''answers'' obj | _ \<Rightarrow> obj);
        read = (case items of JList vs \<Rightarrow> List.map_filter (read_item ids) vs | _ \<Rightarrow> []);
        answers = foldl (\<lambda>d (q, l, r). dict_put q (Some l) d) (dict_of (map (\<lambda>q. (q, None)) ids)) read;
        explanations = foldl (\<lambda>d (q, l, r). dict_put q r d) (dict_of (map (\<lambda>q. (q, '''')) ids)) read
      in (answers, explanations, list_all (\<lambda>(q, a). a \<noteq> None) answers))"

text \<open>\<open>max(votes, key=votes.count)\<close>: the first of the most frequent.\<close>

definition most_common :: "'a list \<Rightarrow> 'a \<Rightarrow> 'a" where
  "most_common vs v0 = foldl (\<lambda>best v. if count_list vs best < count_list vs v then v else best) v0 vs"

definition valid_vote :: "string option \<Rightarrow> bool" where
  "valid_vote a \<longleftrightarrow> (case a of None \<Rightarrow> False | Some s \<Rightarrow> verdict_letter s)"

definition votes :: "answers list \<Rightarrow> string \<Rightarrow> string option list" where
  "votes repeats qid = filter valid_vote (map (\<lambda>r. case map_of r qid of None \<Rightarrow> None | Some a \<Rightarrow> a) repeats)"

definition majority_answers :: "answers list \<Rightarrow> answers" where
  "majority_answers repeats = (case repeats of [] \<Rightarrow> []
   | first # _ \<Rightarrow> map (\<lambda>(qid, a). (qid, case votes repeats qid of [] \<Rightarrow> a | v # vs \<Rightarrow> most_common (v # vs) v)) first)"

section \<open>Scores\<close>

definition MILESTONE_TAGS :: "string list" where
  "MILESTONE_TAGS = [''reference:claims'', ''reference:explore'', ''reference:action'', ''reference:verification'']"

definition TAG_WEIGHTS :: "(string \<times> rat) list" where
  "TAG_WEIGHTS = map (\<lambda>t. (t, 1)) MILESTONE_TAGS"

record question =
  qu_id :: string
  qu_tag :: string

definition question_weight :: "question \<Rightarrow> rat" where
  "question_weight q = (case map_of TAG_WEIGHTS (qu_tag q) of
     Some w \<Rightarrow> w | None \<Rightarrow> if starts_with ''reference:'' (qu_tag q) then 1 / 2 else 0)"

type_synonym scores = "(string \<times> rat option) list"

definition given :: "scores \<Rightarrow> (string \<times> rat) list" where
  "given ss = List.map_filter (\<lambda>(q, s). map_option (Pair q) s) ss"

definition weight_of :: "question list \<Rightarrow> string \<Rightarrow> rat" where
  "weight_of qs qid = (case map_of (rev (map (\<lambda>q. (qu_id q, question_weight q)) qs)) qid of None \<Rightarrow> 0 | Some w \<Rightarrow> w)"

definition mean6 :: "rat list \<Rightarrow> rat option" where
  "mean6 xs = (if xs = [] then None else Some (round6 (fmean xs)))"

definition judge_yes_rate :: "scores \<Rightarrow> question list \<Rightarrow> rat option" where
  "judge_yes_rate ss qs =
     (let num = fsum (map (\<lambda>(qid, s). fl (weight_of qs qid * s)) (given ss));
        den = fsum (map (\<lambda>(qid, s). weight_of qs qid) (given ss))
      in if qs \<noteq> [] \<and> den \<noteq> 0 then Some (round6 (fdiv num den)) else mean6 (map snd (given ss)))"

text \<open>Each repeat names the questions of the first.\<close>

definition mean_scores :: "scores list \<Rightarrow> scores" where
  "mean_scores repeats = (case repeats of [] \<Rightarrow> []
   | first # _ \<Rightarrow> map (\<lambda>(qid, s0). (qid, mean6 (List.map_filter (\<lambda>r. case map_of r qid of Some s \<Rightarrow> s | None \<Rightarrow> None) repeats))) first)"

definition response_score :: "(string \<times> scores) list \<Rightarrow> question list \<Rightarrow> rat option" where
  "response_score per_judge qs = mean6 (List.map_filter (\<lambda>(judge, ss). judge_yes_rate ss qs) per_judge)"

definition CHALLENGER_WIN_MARGIN :: rat where
  "CHALLENGER_WIN_MARGIN = fl (25 / 1000)"

definition challenger_beats_king :: "rat \<Rightarrow> rat \<Rightarrow> bool" where
  "challenger_beats_king challenger king \<longleftrightarrow> CHALLENGER_WIN_MARGIN \<le> fsub challenger king"

section \<open>The verdict\<close>

record judge_result =
  jr_model :: string
  jr_side :: string
  jr_parse_ok :: bool
  jr_yes_rate :: "rat option"

record sample_record =
  sr_scored :: bool
  sr_challenger :: rat
  sr_king :: rat
  sr_judges :: "judge_result list"

record summary =
  su_state :: string
  su_challenger :: "rat option"
  su_king :: "rat option"
  su_won :: "bool option"
  su_margin :: "rat option"
  su_valid :: nat
  su_total :: nat
  su_judge_errors :: nat
  su_by_judge :: "(string \<times> rat) list"
  su_mode :: "string option"
  su_fault :: "(string \<times> string \<times> string) option"
  su_retryable :: "bool option"

definition SCORING_MODE :: string where
  "SCORING_MODE = ''graded_20''"

definition MIN_VALID_FRACTION :: rat where
  "MIN_VALID_FRACTION = fl (8 / 10)"

text \<open>\<open>f"{x:.0%}"\<close>.\<close>

definition show_percent :: "rat \<Rightarrow> string" where
  "show_percent x = show_int (round_even (fl (x * 100))) @ ''%''"

definition rates_of :: "sample_record list \<Rightarrow> string \<Rightarrow> rat list" where
  "rates_of records model = List.map_filter jr_yes_rate
     (filter (\<lambda>j. jr_side j = ''challenger'' \<and> jr_model j = model) (concat (map sr_judges records)))"

definition judges_of :: "sample_record list \<Rightarrow> string list" where
  "judges_of records = sort (remdups (map jr_model
     (filter (\<lambda>j. jr_side j = ''challenger'' \<and> jr_parse_ok j) (concat (map sr_judges records)))))"

definition by_judge :: "sample_record list \<Rightarrow> (string \<times> rat) list" where
  "by_judge records = List.map_filter (\<lambda>m. map_option (Pair m) (mean6 (rates_of records m))) (judges_of records)"

definition aggregate_scores :: "sample_record list \<Rightarrow> rat \<Rightarrow> nat option \<Rightarrow> summary" where
  "aggregate_scores records min_valid_fraction declared =
     (let total = (case declared of None \<Rightarrow> length records | Some n \<Rightarrow> if n = 0 then length records else n);
        scored = filter sr_scored records;
        valid_count = length scored;
        errors = length (filter (\<lambda>j. \<not> jr_parse_ok j) (concat (map sr_judges records)))
      in if total = 0 \<or> fdiv (of_nat valid_count) (of_nat total) < min_valid_fraction
      then \<lparr>su_state = ''failed'', su_challenger = None, su_king = None, su_won = None, su_margin = None,
        su_valid = valid_count, su_total = total, su_judge_errors = errors, su_by_judge = [], su_mode = None,
        su_fault = Some (''PROVIDER_FAULT'', ''scoring_invalid'',
          ''Only '' @ show_nat valid_count @ ''/'' @ show_nat total @ '' samples valid (< '' @
            show_percent min_valid_fraction @ '')''),
        su_retryable = Some True\<rparr>
      else let challenger = round6 (fmean (map sr_challenger scored)); king = round6 (fmean (map sr_king scored))
      in \<lparr>su_state = ''succeeded'', su_challenger = Some challenger, su_king = Some king,
        su_won = Some (challenger_beats_king challenger king), su_margin = Some CHALLENGER_WIN_MARGIN,
        su_valid = valid_count, su_total = total, su_judge_errors = errors, su_by_judge = by_judge scored,
        su_mode = Some SCORING_MODE, su_fault = None, su_retryable = None\<rparr>)"

lemma phi_letters: "fst ` set PHI = set LETTERS"
proof -
  have places: "map (\<lambda>(l, v). (index_of l LETTERS, v)) ANCHORS =
      [(0, 0), (4, fl (15 / 100)), (9, fl (35 / 100)), (14, fl (70 / 100)), (19, 1)]"
    by (simp add: ANCHORS_def LETTERS_def)
  have all: "fst ` set (between_anchors (i, u) (j, v)) = set (map ((!) LETTERS) [i..<Suc j])" for i j u v
    by (simp add: between_anchors_def image_image)
  have "fst ` set PHI = set (map ((!) LETTERS) ([0..<5] @ [4..<10] @ [9..<15] @ [14..<20]))"
    unfolding PHI_def interpolate_def Let_def keys_dict_of places
    by (simp add: image_Un all del: upt_Suc, blast)
  also have "\<dots> = set LETTERS"
    by (simp add: LETTERS_def upt_rec) 
  finally show ?thesis .
qed

lemma verdict_letter_iff: "verdict_letter s \<longleftrightarrow> (\<exists>c \<in> set LETTERS. s = [c])"
  unfolding verdict_letter_def phi_letters by (cases s) auto

section \<open>The margin\<close>

lemma fl_near:
  assumes "\<bar>x\<bar> \<le> b"
  shows "fl x \<le> x + b / 2 ^ 53" "x \<le> fl x + b / 2 ^ 53"
proof -
  have "\<bar>fl x - x\<bar> \<le> b / 2 ^ 53"
    by (rule order_trans [OF fl_error]) (use assms in \<open>simp add: divide_right_mono\<close>)
  then show "fl x \<le> x + b / 2 ^ 53" "x \<le> fl x + b / 2 ^ 53" by linarith+
qed

definition micros :: "rat \<Rightarrow> int" where
  "micros x = round_even (x * 1000000)"

lemma round6_micros: "round6 x = fl (of_int (micros x) / 1000000)"
  by (simp add: round6_def micros_def)

text \<open>On scores of six decimals the float comparison is the decimal one, the exact tie apart.\<close>

lemma margin_decimal:
  assumes "0 \<le> i" "i \<le> 1000000" "0 \<le> j" "j \<le> 1000000" "i - j \<noteq> 25000"
  shows "challenger_beats_king (fl (of_int i / 1000000)) (fl (of_int j / 1000000)) \<longleftrightarrow> 25000 < i - j"
proof -
  let ?a = "of_int i / 1000000 :: rat" and ?b = "of_int j / 1000000 :: rat"
  let ?e = "1 / 2 ^ 53 :: rat"
  have "\<bar>?a\<bar> \<le> 1" "\<bar>?b\<bar> \<le> 1" using assms by simp_all
  note ab = fl_near [OF this(1)] fl_near [OF this(2)]
  have "\<bar>fl ?a - fl ?b\<bar> \<le> 2"
    using fl_unit [of ?a] fl_unit [of ?b] assms by (auto simp: abs_le_iff)
  note d = fl_near [OF this]
  have "\<bar>25 / 1000 :: rat\<bar> \<le> 1" by simp
  note m = fl_near [OF this]
  have small: "8 * ?e < 1 / 1000000" by simp
  have gap: "?a - ?b = of_int (i - j) / 1000000" by (simp add: diff_divide_distrib)
  have num: "25 / 1000 + 1 / 1000000 = (25001 / 1000000 :: rat)" "25 / 1000 - 1 / 1000000 = (24999 / 1000000 :: rat)" by simp_all
  show ?thesis
  proof (cases "25000 < i - j")
    case True
    then have "(25001 :: rat) \<le> of_int (i - j)" using of_int_le_iff [of 25001 "i - j", where 'a = rat] by simp
    then have "25001 / 1000000 \<le> ?a - ?b" unfolding gap by (rule divide_right_mono) simp
    then have "fl (25 / 1000) \<le> fl (fl ?a - fl ?b)" using ab d m small num by linarith
    then show ?thesis using True by (simp only: challenger_beats_king_def fsub_def CHALLENGER_WIN_MARGIN_def)
  next
    case False
    then have "i - j \<le> 24999" using assms(5) by simp
    then have "of_int (i - j) \<le> (24999 :: rat)" using of_int_le_iff [of "i - j" 24999, where 'a = rat] by simp
    then have "?a - ?b \<le> 24999 / 1000000" unfolding gap by (rule divide_right_mono) simp
    then have "\<not> fl (25 / 1000) \<le> fl (fl ?a - fl ?b)" using ab d m small num by linarith
    then show ?thesis using False by (simp only: challenger_beats_king_def fsub_def CHALLENGER_WIN_MARGIN_def)
  qed
qed

lemma fraction_below:
  assumes "0 < t" "t < 2 ^ 50"
  shows "fdiv (of_nat v) (of_nat t) < MIN_VALID_FRACTION \<longleftrightarrow> 5 * v < 4 * t"
proof (cases "5 * v < 4 * t")
  case True
  let ?x = "of_nat v / of_nat t :: rat" and ?m = "8 / 10 :: rat"
  have t: "(0 :: rat) < of_nat t" "(of_nat t :: rat) < 2 ^ 50"
    using assms of_nat_less_iff [of t "2 ^ 50", where 'a = rat] by simp_all
  have "5 * of_nat v + 1 \<le> (4 * of_nat t :: rat)"
    using True by (metis Suc_leI of_nat_le_iff of_nat_mult of_nat_numeral of_nat_Suc add.commute)
  then have gap: "?x + 1 / (5 * of_nat t) \<le> ?m" using t by (simp add: field_simps)
  have "8 / 5 / 2 ^ 53 < 1 / (5 * of_nat t :: rat)" using t by (simp add: field_simps)
  moreover have x: "\<bar>?x\<bar> \<le> ?m"
  proof -
    have "0 \<le> ?x" "0 \<le> 1 / (5 * of_nat t :: rat)" by simp_all
    then show ?thesis using gap by linarith
  qed
  moreover have "\<bar>?m\<bar> \<le> ?m" by simp
  moreover have "?m / 2 ^ 53 + ?m / 2 ^ 53 = 8 / 5 / 2 ^ 53" by simp
  ultimately have "fl ?x < fl ?m" using gap fl_near [OF x] fl_near [of ?m ?m] by linarith
  then show ?thesis using True by (simp add: fdiv_def MIN_VALID_FRACTION_def)
next
  case False
  then have "4 * t \<le> 5 * v" by simp
  then have "4 * of_nat t \<le> (5 * of_nat v :: rat)" by (metis of_nat_le_iff of_nat_mult of_nat_numeral)
  then have "8 / 10 \<le> (of_nat v / of_nat t :: rat)" using assms(1) by (simp add: field_simps)
  from fl_mono [OF this] show ?thesis using False by (simp add: fdiv_def MIN_VALID_FRACTION_def)
qed

section \<open>Verdicts\<close>

text \<open>Every score of a scored record is a fraction of full credit.\<close>

definition unit_scores :: "sample_record list \<Rightarrow> bool" where
  "unit_scores records \<longleftrightarrow> (\<forall>r \<in> set records. sr_scored r \<longrightarrow>
     0 \<le> sr_challenger r \<and> sr_challenger r \<le> 1 \<and> 0 \<le> sr_king r \<and> sr_king r \<le> 1)"

definition mean_of :: "(sample_record \<Rightarrow> rat) \<Rightarrow> sample_record list \<Rightarrow> rat" where
  "mean_of f records = fmean (map f (filter sr_scored records))"

lemma micros_unit: "0 \<le> x \<Longrightarrow> x \<le> 1 \<Longrightarrow> 0 \<le> micros x \<and> micros x \<le> 1000000"
  using round_even_ge [of 0 "x * 1000000"] round_even_le [of "x * 1000000" 1000000] by (simp add: micros_def)

lemma mean_of_unit:
  assumes "filter sr_scored records \<noteq> []" "\<forall>r \<in> set records. sr_scored r \<longrightarrow> 0 \<le> f r \<and> f r \<le> 1"
  shows "0 \<le> mean_of f records \<and> mean_of f records \<le> 1"
  unfolding mean_of_def using assms by (intro fmean_unit) auto

definition quorum :: "nat \<Rightarrow> nat \<Rightarrow> bool" where
  "quorum v t \<longleftrightarrow> 0 < t \<and> 4 * t \<le> 5 * v"

lemma aggregate_cases:
  fixes records declared
  defines "s \<equiv> aggregate_scores records MIN_VALID_FRACTION declared"
  assumes "su_total s < 2 ^ 50"
  shows "su_valid s = length (filter sr_scored records)"
    "quorum (su_valid s) (su_total s) \<Longrightarrow> su_state s = ''succeeded'' \<and>
       su_challenger s = Some (round6 (mean_of sr_challenger records)) \<and>
       su_king s = Some (round6 (mean_of sr_king records)) \<and>
       su_won s = Some (challenger_beats_king (round6 (mean_of sr_challenger records)) (round6 (mean_of sr_king records))) \<and>
       su_retryable s = None"
    "\<not> quorum (su_valid s) (su_total s) \<Longrightarrow>
       su_state s = ''failed'' \<and> su_challenger s = None \<and> su_king s = None \<and> su_won s = None \<and> su_retryable s = Some True"
proof -
  define t where "t = (case declared of None \<Rightarrow> length records | Some n \<Rightarrow> if n = 0 then length records else n)"
  have total: "su_total s = t" and v: "su_valid s = length (filter sr_scored records)"
    by (simp_all add: s_def aggregate_scores_def Let_def t_def)
  have test: "(t = 0 \<or> fdiv (of_nat (length (filter sr_scored records))) (of_nat t) < MIN_VALID_FRACTION) \<longleftrightarrow>
      \<not> quorum (su_valid s) (su_total s)"
    using fraction_below [of t "length (filter sr_scored records)"] assms(2) unfolding total v quorum_def by auto
  show "su_valid s = length (filter sr_scored records)" by (rule v)
  have s: "s = aggregate_scores records MIN_VALID_FRACTION declared" by (simp add: s_def)
  note full = s [unfolded aggregate_scores_def Let_def, folded t_def, unfolded test]
  { assume q: "quorum (su_valid s) (su_total s)"
    show "su_state s = ''succeeded'' \<and>
       su_challenger s = Some (round6 (mean_of sr_challenger records)) \<and>
       su_king s = Some (round6 (mean_of sr_king records)) \<and>
       su_won s = Some (challenger_beats_king (round6 (mean_of sr_challenger records)) (round6 (mean_of sr_king records))) \<and>
       su_retryable s = None"
      by (subst (1 2 3 4 5) full) (simp add: q mean_of_def) }
  { assume q: "\<not> quorum (su_valid s) (su_total s)"
    show "su_state s = ''failed'' \<and> su_challenger s = None \<and> su_king s = None \<and> su_won s = None \<and> su_retryable s = Some True"
      by (subst (1 2 3 4 5) full) (simp add: q) }
qed

text \<open>
  C28. A run is decided exactly when at least four fifths of its samples were scored, the float test of
  the fraction notwithstanding: then both sides have a score between 0 and 1, and otherwise there are
  no scores and no winner but a failure that is retried.
\<close>

theorem verdict_needs_quorum:
  assumes "su_total (aggregate_scores records MIN_VALID_FRACTION declared) < 2 ^ 50" and "unit_scores records"
  shows "let s = aggregate_scores records MIN_VALID_FRACTION declared in
    if 0 < su_total s \<and> 4 * su_total s \<le> 5 * su_valid s
    then su_state s = ''succeeded'' \<and> su_won s \<noteq> None \<and>
      (\<exists>c k. su_challenger s = Some c \<and> su_king s = Some k \<and> 0 \<le> c \<and> c \<le> 1 \<and> 0 \<le> k \<and> k \<le> 1)
    else su_state s = ''failed'' \<and> su_challenger s = None \<and> su_king s = None \<and> su_won s = None \<and>
      su_retryable s = Some True"
proof -
  let ?s = "aggregate_scores records MIN_VALID_FRACTION declared"
  note cases = aggregate_cases [OF assms(1)]
  show ?thesis
  proof (cases "quorum (su_valid ?s) (su_total ?s)")
    case True
    then have some: "filter sr_scored records \<noteq> []" using cases(1) by (auto simp: quorum_def)
    have "0 \<le> round6 (mean_of sr_challenger records) \<and> round6 (mean_of sr_challenger records) \<le> 1"
      "0 \<le> round6 (mean_of sr_king records) \<and> round6 (mean_of sr_king records) \<le> 1"
      using assms(2) mean_of_unit [OF some] round6_unit by (auto simp: unit_scores_def)
    then show ?thesis using cases(2) [OF True] True by (simp add: quorum_def Let_def)
  next
    case False
    then show ?thesis using cases(3) [OF False] by (simp add: quorum_def Let_def del: not_less not_le)
  qed
qed

text \<open>
  C29. The winner is the one decimal arithmetic gives: with the two mean scores read as whole
  millionths, the challenger wins if it is more than 25000 ahead and does not win if it is less than
  25000 ahead. (Exactly 25000 ahead the binary rounding decides, see \<open>margin_tie_is_uneven\<close>.)
\<close>

theorem verdict_is_decimal:
  assumes "su_total (aggregate_scores records MIN_VALID_FRACTION declared) < 2 ^ 50" and "unit_scores records"
    and "su_won (aggregate_scores records MIN_VALID_FRACTION declared) = Some won"
    and "micros (mean_of sr_challenger records) - micros (mean_of sr_king records) \<noteq> 25000"
  shows "won \<longleftrightarrow> 25000 < micros (mean_of sr_challenger records) - micros (mean_of sr_king records)"
proof -
  let ?s = "aggregate_scores records MIN_VALID_FRACTION declared"
  note cases = aggregate_cases [OF assms(1)]
  have q: "quorum (su_valid ?s) (su_total ?s)" using cases(3) assms(3) by fastforce
  then have some: "filter sr_scored records \<noteq> []" using cases(1) by (auto simp: quorum_def)
  have "0 \<le> micros (mean_of sr_challenger records) \<and> micros (mean_of sr_challenger records) \<le> 1000000"
    "0 \<le> micros (mean_of sr_king records) \<and> micros (mean_of sr_king records) \<le> 1000000"
    using assms(2) mean_of_unit [OF some] micros_unit by (auto simp: unit_scores_def)
  with margin_decimal assms(4) show ?thesis
    using cases(2) [OF q] assms(3) by (simp add: round6_micros)
qed

text \<open>
  At exactly the margin the outcome depends on where the scores lie: 0.525 against 0.5 wins, 0.125
  against 0.1 does not.
\<close>

lemma margin_tie_is_uneven:
  "challenger_beats_king (fl (525 / 1000)) (fl (500 / 1000))" "\<not> challenger_beats_king (fl (125 / 1000)) (fl (100 / 1000))"
proof -
  have fl: "fl (21 / 40) = 4728779608739021 / 9007199254740992" "fl (1 / 2) = 1 / 2" "fl (1 / 8) = 1 / 8"
    "fl (1 / 10) = 3602879701896397 / 36028797018963968" "fl (1 / 40) = 3602879701896397 / 144115188075855872"
    using fl_nearest [of "21 / 40" 53 4728779608739021] fl_nearest [of "1 / 2" 53 4503599627370496]
      fl_nearest [of "1 / 8" 55 4503599627370496] fl_nearest [of "1 / 10" 56 7205759403792794]
      fl_nearest [of "1 / 40" 58 7205759403792794] by simp_all
  have diff: "fl (225179981368525 / 9007199254740992) = 225179981368525 / 9007199254740992"
    "fl (900719925474099 / 36028797018963968) = 900719925474099 / 36028797018963968"
    using fl_nearest [of "225179981368525 / 9007199254740992" 58 7205759403792800]
      fl_nearest [of "900719925474099 / 36028797018963968" 58 7205759403792792] by simp_all
  show "challenger_beats_king (fl (525 / 1000)) (fl (500 / 1000))" "\<not> challenger_beats_king (fl (125 / 1000)) (fl (100 / 1000))"
    by (simp_all add: challenger_beats_king_def CHALLENGER_WIN_MARGIN_def fsub_def fl diff)
qed

section \<open>Means and votes\<close>

lemma most_common_first:
  assumes "v0 = vs ! 0" "vs \<noteq> []"
  shows "\<exists>i < length vs. most_common vs v0 = vs ! i \<and> (\<forall>w \<in> set vs. count_list vs w \<le> count_list vs (vs ! i)) \<and>
    (\<forall>j < i. count_list vs (vs ! j) < count_list vs (vs ! i))"
proof -
  define c where "c = count_list vs"
  define step where "step = (\<lambda>best v. if c best < c v then v else best)"
  have "\<exists>i < length vs. foldl step (vs ! 0) (take n vs) = vs ! i \<and> (\<forall>w \<in> set (take n vs). c w \<le> c (vs ! i)) \<and>
      (\<forall>j < i. c (vs ! j) < c (vs ! i))" if "n \<le> length vs" for n
    using that
  proof (induction n)
    case 0
    then show ?case using assms(2) by (intro exI [of _ 0]) simp
  next
    case (Suc n)
    then obtain i where i: "i < length vs" "foldl step (vs ! 0) (take n vs) = vs ! i"
      "\<forall>w \<in> set (take n vs). c w \<le> c (vs ! i)" "\<forall>j < i. c (vs ! j) < c (vs ! i)" by auto
    have n: "n < length vs" using Suc.prems by simp
    have before: "c (vs ! j) \<le> c (vs ! i)" if "j < n" for j
      using i(3) that n by (metis in_set_conv_nth length_take min.absorb4 nth_take)
    show ?case
    proof (cases "c (vs ! i) < c (vs ! n)")
      case True
      then show ?thesis using i n before by (intro exI [of _ n]) (fastforce simp: take_Suc_conv_app_nth step_def)
    next
      case False
      then show ?thesis using i n by (intro exI [of _ i]) (auto simp: take_Suc_conv_app_nth step_def)
    qed
  qed
  from this [of "length vs"] show ?thesis
    using assms(1) by (simp add: most_common_def step_def c_def)
qed

lemma yes_terms:
  assumes "\<forall>(q, s) \<in> set gs. 0 \<le> s \<and> s \<le> 1" "0 \<le> a" "a \<le> b"
  shows "0 \<le> foldl (\<lambda>s x. fl (s + x)) a (map (\<lambda>(q, s). fl (weight_of qs q * s)) gs) \<and>
    foldl (\<lambda>s x. fl (s + x)) a (map (\<lambda>(q, s). fl (weight_of qs q * s)) gs) \<le>
      foldl (\<lambda>s x. fl (s + x)) b (map (\<lambda>(q, s). weight_of qs q) gs)"
  using assms
proof (induction gs arbitrary: a b)
  case (Cons x gs)
  obtain q s where x: "x = (q, s)" by (cases x)
  have half: "fl (1 / 2) = 1 / 2" using fl_nearest [of "1 / 2" 53 4503599627370496] by simp
  have w: "0 \<le> weight_of qs q" "fl (weight_of qs q) = weight_of qs q"
  proof -
    have weight: "question_weight y \<in> {0, 1 / 2, 1}" for y
      by (auto simp: question_weight_def TAG_WEIGHTS_def MILESTONE_TAGS_def split: option.splits if_splits)
    have "weight_of qs q \<in> {0, 1 / 2, 1}"
    proof (cases "map_of (rev (map (\<lambda>q. (qu_id q, question_weight q)) qs)) q")
      case (Some w)
      from map_of_SomeD [OF this] obtain y where "w = question_weight y" by auto
      then show ?thesis using weight [of y] Some by (simp add: weight_of_def)
    qed (simp add: weight_of_def)
    then consider "weight_of qs q = 0" | "weight_of qs q = 1 / 2" | "weight_of qs q = 1" by blast
    then have "0 \<le> weight_of qs q \<and> fl (weight_of qs q) = weight_of qs q"
    proof cases
      case 2
      then show ?thesis unfolding 2 half by simp
    qed simp_all
    then show "0 \<le> weight_of qs q" "fl (weight_of qs q) = weight_of qs q" by simp_all
  qed
  have "0 \<le> weight_of qs q * s" "weight_of qs q * s \<le> weight_of qs q"
    using Cons.prems(1) w(1) by (auto simp: x mult_left_le)
  then have "0 \<le> fl (weight_of qs q * s)" "fl (weight_of qs q * s) \<le> weight_of qs q"
    using fl_nonneg fl_mono w(2) by fastforce+
  then have "0 \<le> fl (a + fl (weight_of qs q * s))" "fl (a + fl (weight_of qs q * s)) \<le> fl (b + weight_of qs q)"
    using Cons.prems(2,3) fl_nonneg [of "a + fl (weight_of qs q * s)"] by (auto intro!: fl_mono)
  with Cons.IH [of "fl (a + fl (weight_of qs q * s))" "fl (b + weight_of qs q)"] Cons.prems(1)
  show ?case by (simp add: x)
qed simp

lemma mean6_unit: "mean6 xs = Some r \<Longrightarrow> \<forall>x \<in> set xs. 0 \<le> x \<and> x \<le> 1 \<Longrightarrow> 0 \<le> r \<and> r \<le> 1"
  using fmean_unit [of xs] round6_unit [of "fmean xs"] by (auto simp: mean6_def split: if_splits)

lemma yes_rate_unit:
  assumes "judge_yes_rate ss qs = Some r" "\<forall>(q, s) \<in> set (given ss). 0 \<le> s \<and> s \<le> 1"
  shows "0 \<le> r \<and> r \<le> 1"
proof -
  let ?num = "fsum (map (\<lambda>(qid, s). fl (weight_of qs qid * s)) (given ss))"
  let ?den = "fsum (map (\<lambda>(qid, s). weight_of qs qid) (given ss))"
  have nd: "0 \<le> ?num" "?num \<le> ?den" using yes_terms [OF assms(2), of 0 0 qs] by (simp_all add: fsum_def)
  show ?thesis
  proof (cases "qs \<noteq> [] \<and> ?den \<noteq> 0")
    case True
    then have "0 < ?den" using nd by linarith
    then have "0 \<le> ?num / ?den" "?num / ?den \<le> 1" using nd by simp_all
    then show ?thesis using True assms(1) fl_unit round6_unit by (auto simp: judge_yes_rate_def fdiv_def)
  next
    case False
    then have "mean6 (map snd (given ss)) = Some r" using assms(1) by (auto simp: judge_yes_rate_def Let_def)
    then show ?thesis by (rule mean6_unit) (use assms(2) in auto)
  qed
qed

text \<open>
  C30. Whatever the judges answered and however the questions are weighted, the score of a response is
  a fraction of full credit, and there is none only when no judge gave a score.
\<close>

theorem response_score_unit:
  assumes "\<forall>(judge, ss) \<in> set per_judge. \<forall>(q, s) \<in> set ss. \<forall>x. s = Some x \<longrightarrow> 0 \<le> x \<and> x \<le> 1"
  shows "case response_score per_judge qs of
      None \<Rightarrow> \<forall>(judge, ss) \<in> set per_judge. given ss = []
    | Some r \<Rightarrow> 0 \<le> r \<and> r \<le> 1"
proof (cases "response_score per_judge qs")
  case None
  have "given ss = []" if "(judge, ss) \<in> set per_judge" for judge ss
  proof (rule ccontr)
    assume "given ss \<noteq> []"
    then have "judge_yes_rate ss qs \<noteq> None" by (simp add: judge_yes_rate_def Let_def mean6_def)
    then obtain r where "judge_yes_rate ss qs = Some r" by blast
    with that have "r \<in> set (List.map_filter (\<lambda>(judge, ss). judge_yes_rate ss qs) per_judge)"
      by (force simp: map_filter_def)
    then show False using None by (auto simp: response_score_def mean6_def split: if_splits)
  qed
  with None show ?thesis by auto
next
  case (Some r)
  have "\<forall>x \<in> set (List.map_filter (\<lambda>(judge, ss). judge_yes_rate ss qs) per_judge). 0 \<le> x \<and> x \<le> 1"
  proof
    fix x assume "x \<in> set (List.map_filter (\<lambda>(judge, ss). judge_yes_rate ss qs) per_judge)"
    then obtain judge ss where "(judge, ss) \<in> set per_judge" and rate: "judge_yes_rate ss qs = Some x"
      by (force simp: map_filter_def)
    with assms have "\<forall>(q, s) \<in> set (given ss). 0 \<le> s \<and> s \<le> 1" by (fastforce simp: given_def map_filter_def)
    with rate show "0 \<le> x \<and> x \<le> 1" by (rule yes_rate_unit)
  qed
  with Some have "0 \<le> r \<and> r \<le> 1" by (intro mean6_unit) (auto simp: response_score_def)
  with Some show ?thesis by simp
qed

text \<open>
  Repeated judgings of a question are settled by the first of the most frequent valid answers; a
  question nobody answered validly keeps what the first judging says.
\<close>

theorem majority_is_first_plurality:
  assumes "repeats = first # others" and "distinct (map fst first)" and "(qid, a) \<in> set first"
  shows "let vs = votes repeats qid; answer = map_of (majority_answers repeats) qid in
    if vs = [] then answer = Some a
    else \<exists>i < length vs. answer = Some (vs ! i) \<and> valid_vote (vs ! i) \<and>
      list_all (\<lambda>w. count_list vs w \<le> count_list vs (vs ! i)) vs \<and>
      list_all (\<lambda>w. count_list vs w < count_list vs (vs ! i)) (take i vs)"
proof -
  let ?f = "\<lambda>qid a. case votes repeats qid of [] \<Rightarrow> a | v # vs \<Rightarrow> most_common (v # vs) v"
  have "majority_answers repeats = map (\<lambda>(qid, a). (qid, ?f qid a)) first"
    by (simp add: majority_answers_def assms(1))
  moreover have "(qid, ?f qid a) \<in> set (map (\<lambda>(qid, a). (qid, ?f qid a)) first)" 
    using assms(3) unfolding set_map by (rule rev_image_eqI) simp
  moreover have "distinct (map fst (map (\<lambda>(qid, a). (qid, ?f qid a)) first))"
    using assms(2) by (simp add: case_prod_unfold o_def)
  ultimately have answer: "map_of (majority_answers repeats) qid = Some (?f qid a)" by (simp only: map_of_eq_Some_iff)
  let ?vs = "votes repeats qid"
  show ?thesis
  proof (cases "?vs = []")
    case True
    then show ?thesis using answer by simp
  next
    case False
    then have f: "?f qid a = most_common ?vs (?vs ! 0)" by (cases ?vs) simp_all
    from most_common_first [OF refl False] obtain i where i: "i < length ?vs" "most_common ?vs (?vs ! 0) = ?vs ! i"
      "\<forall>w \<in> set ?vs. count_list ?vs w \<le> count_list ?vs (?vs ! i)"
      "\<forall>j < i. count_list ?vs (?vs ! j) < count_list ?vs (?vs ! i)" by auto
    have "valid_vote (?vs ! i)" using nth_mem [OF i(1)] by (simp add: votes_def)
    moreover have "list_all (\<lambda>w. count_list ?vs w < count_list ?vs (?vs ! i)) (take i ?vs)"
      using i(1,4) by (auto simp: list_all_length)
    moreover have "list_all (\<lambda>w. count_list ?vs w \<le> count_list ?vs (?vs ! i)) ?vs"
      using i(3) by (simp add: list_all_iff)
    ultimately show ?thesis using answer f i(1,2) False by (auto simp: Let_def)
  qed
qed

end
