(* ===== verification/Alignment.thy ===== *)
theory Alignment
  imports Prelude Floats "HOL-Library.Product_Lexorder" "HOL-Library.Multiset"
begin

text \<open>
  Aligning several readings of one task: src/src/albedo_eval_service/evaluator/reference/
  vector_merge.py. A reading is a list of milestones (or questions), each a dict of JSON values; a
  cluster is a list of places (reading, index). Texts are ASCII where the code asks for letters or
  digits; Unicode's NFKC folding is an argument.
\<close>

section \<open>Texts\<close>

text \<open>The smart quotes and dashes, as UTF-8, and what they revert to.\<close>

fun smart :: "string \<Rightarrow> string" where
  "smart (a # b # c # s) =
     (if of_char a = (0xE2 :: nat) \<and> of_char b = (0x80 :: nat) then
        (let n = (of_char c :: nat) in
          if n = 0x98 \<or> n = 0x99 then CHR 0x27 # smart s
          else if n = 0x9C \<or> n = 0x9D then CHR 0x22 # smart s
          else if n = 0x93 \<or> n = 0x94 then CHR ''-'' # smart s
          else a # b # c # smart s)
      else a # smart (b # c # s))"
| "smart s = s"

definition path_char :: "char \<Rightarrow> bool" where
  "path_char c \<longleftrightarrow> word_char c \<or> c = CHR ''.'' \<or> c = CHR ''/'' \<or> c = CHR ''-''"

text \<open>One to six digits and a character that ends them: what follows.\<close>

definition after_number :: "(char \<Rightarrow> bool) \<Rightarrow> string \<Rightarrow> string option" where
  "after_number ends s = (let d = takeWhile is_digit s; r = dropWhile is_digit s in
     if 1 \<le> length d \<and> length d \<le> 6 \<and> r \<noteq> [] \<and> ends (hd r) then Some (tl r) else None)"

text \<open>\<open>^\s*\d{1,6}[\t:]\<close> and \<open>^[\w./-]+\.\w+:\d{1,6}:\s?\<close> at the start of a line.\<close>

definition numbered_line :: "string \<Rightarrow> string option" where
  "numbered_line s = after_number (\<lambda>c. c = CHR 0x09 \<or> c = CHR '':'') (dropWhile is_space s)"

definition located_line :: "string \<Rightarrow> string option" where
  "located_line s = (let p = takeWhile path_char s; r = dropWhile path_char s; x = after_last (CHR ''.'') p in
     if r \<noteq> [] \<and> hd r = CHR '':'' \<and> x \<noteq> [] \<and> list_all word_char x \<and> length x + 2 \<le> length p
     then map_option (\<lambda>t. if t \<noteq> [] \<and> is_space (hd t) then tl t else t) (after_number (\<lambda>c. c = CHR '':'') (tl r))
     else None)"

definition line_prefix :: "string \<Rightarrow> string option" where
  "line_prefix s = (case numbered_line s of Some t \<Rightarrow> Some t | None \<Rightarrow> located_line s)"

lemma dropWhile_length: "length (dropWhile p s) \<le> length s"
  by (induction s) auto

lemma after_number_shorter:
  assumes "after_number e s = Some t"
  shows "length t < length s"
proof -
  from assms have "dropWhile is_digit s \<noteq> []" "t = tl (dropWhile is_digit s)"
    by (auto simp: after_number_def Let_def split: if_splits)
  then have "length t < length (dropWhile is_digit s)" by simp
  then show ?thesis using dropWhile_length [of is_digit s] by simp
qed

lemma line_prefix_shorter: "line_prefix s = Some t \<Longrightarrow> length t < length s"
proof -
  have num: "length t < length s" if "numbered_line s = Some t" for t
    using that after_number_shorter dropWhile_length [of is_space s] by (fastforce simp: numbered_line_def)
  have loc: "length t < length s" if "located_line s = Some t" for t
  proof -
    from that obtain u where u: "after_number (\<lambda>c. c = CHR '':'') (tl (dropWhile path_char s)) = Some u"
      and t: "length t \<le> length u"
      by (auto simp: located_line_def Let_def split: if_splits)
    from after_number_shorter [OF u] have "length u < length (dropWhile path_char s)" by simp
    then show ?thesis using t dropWhile_length [of path_char s] by simp
  qed
  show "line_prefix s = Some t \<Longrightarrow> length t < length s"
    using num loc by (auto simp: line_prefix_def split: option.splits)
qed

text \<open>\<open>re.sub\<close> of the prefix; the flag says whether the place starts a line.\<close>

function drop_prefixes :: "bool \<Rightarrow> string \<Rightarrow> string" where
  "drop_prefixes start [] = []"
| "drop_prefixes start (c # s) =
     (case (if start then line_prefix (c # s) else None) of
       Some t \<Rightarrow> drop_prefixes ((c # s) ! (length (c # s) - length t - 1) = CHR 0x0A) t
     | None \<Rightarrow> c # drop_prefixes (c = CHR 0x0A) s)"
  by pat_completeness auto

termination
  by (relation "measure (length \<circ> snd)") (auto dest: line_prefix_shorter split: if_splits)

text \<open>\<open>" ".join(text.split())\<close>.\<close>

fun words :: "string \<Rightarrow> string list" where
  "words [] = []"
| "words (c # s) = (if is_space c then words s
     else if s = [] \<or> is_space (hd s) then [c] # words s
     else case words s of [] \<Rightarrow> [[c]] | w # ws \<Rightarrow> (c # w) # ws)"

fun join_with :: "string \<Rightarrow> string list \<Rightarrow> string" where
  "join_with sep [] = []"
| "join_with sep [w] = w"
| "join_with sep (w # v # ws) = w @ sep @ join_with sep (v # ws)"

definition normalise_span :: "(string \<Rightarrow> string) \<Rightarrow> string \<Rightarrow> string" where
  "normalise_span nfkc text = join_with '' '' (words (drop_prefixes True (smart (nfkc text))))"

section \<open>Places\<close>

type_synonym ref = "nat \<times> nat"

definition reading_label :: "nat \<Rightarrow> string" where
  "reading_label r = [char_of (65 + r)]"

definition member_id :: "nat \<Rightarrow> nat \<Rightarrow> string" where
  "member_id r i = reading_label r @ show_nat (i + 1)"

definition letter_index :: "char \<Rightarrow> nat option" where
  "letter_index c = (let n = (of_char c :: nat) in
     if 65 \<le> n \<and> n \<le> 90 then Some (n - 65) else if 97 \<le> n \<and> n \<le> 122 then Some (n - 97) else None)"

text \<open>\<open>isdigit\<close> lets through what \<open>int\<close> does not read: then the ValueError leaves the aligner.\<close>

definition parse_member :: "string \<Rightarrow> jdict list list \<Rightarrow> py_error + ref option" where
  "parse_member member readings = (case strip member of
     [] \<Rightarrow> Inr None
   | c # ds \<Rightarrow> (case letter_index c of
       None \<Rightarrow> Inr None
     | Some r \<Rightarrow> if \<not> number_text ds then Inr None
         else and_then (int_of_text ds) (\<lambda>n. Inr
           (if r < length readings \<and> 1 \<le> n \<and> n \<le> length (readings ! r) then Some (r, n - 1) else None))))"

definition exact_key :: "(string \<Rightarrow> string) \<Rightarrow> jdict \<Rightarrow> string" where
  "exact_key nfkc d = lower (normalise_span nfkc (py_str (jor (jor (dget ''statement'' d) (dget ''text'' d)) (JStr ''''))))"

text \<open>Every place of the readings, in order.\<close>

definition places :: "jdict list list \<Rightarrow> ref list" where
  "places readings = concat (map (\<lambda>(r, ms). map (Pair r) [0..<length ms]) (enumerate 0 readings))"

definition milestone_at :: "jdict list list \<Rightarrow> ref \<Rightarrow> jdict" where
  "milestone_at readings ref = readings ! fst ref ! snd ref"

text \<open>\<open>setdefault(k, []).append(x)\<close>.\<close>

definition put_more :: "'k \<Rightarrow> 'a \<Rightarrow> ('k \<times> 'a list) list \<Rightarrow> ('k \<times> 'a list) list" where
  "put_more k x d = dict_put k ((case map_of d k of None \<Rightarrow> [] | Some xs \<Rightarrow> xs) @ [x]) d"

definition exact_groups :: "(string \<Rightarrow> string) \<Rightarrow> jdict list list \<Rightarrow> ref list list" where
  "exact_groups nfkc readings =
     map snd (foldl (\<lambda>d p. put_more (exact_key nfkc (milestone_at readings p)) p d) [] (places readings))"

definition readings_reached :: "ref list \<Rightarrow> nat" where
  "readings_reached cluster = length (remdups (map fst cluster))"

definition needs_alignment :: "ref list list \<Rightarrow> jdict list list \<Rightarrow> bool" where
  "needs_alignment clusters readings \<longleftrightarrow> 1 < length readings \<and>
     list_ex (\<lambda>c. readings_reached c < length readings) clusters"

section \<open>The aligner's clusters\<close>

fun take_members :: "jdict list list \<Rightarrow> json list \<Rightarrow> ref list \<Rightarrow> py_error + ref list \<times> ref list" where
  "take_members readings [] seen = Inr ([], seen)"
| "take_members readings (m # ms) seen = and_then (parse_member (py_str m) readings) (\<lambda>parsed. case parsed of
     None \<Rightarrow> take_members readings ms seen
   | Some p \<Rightarrow> if p \<in> set seen then take_members readings ms seen
       else and_then (take_members readings ms (p # seen)) (\<lambda>(g, seen'). Inr (p # g, seen')))"

fun take_clusters :: "jdict list list \<Rightarrow> json list \<Rightarrow> ref list \<Rightarrow> py_error + ref list list \<times> ref list" where
  "take_clusters readings [] seen = Inr ([], seen)"
| "take_clusters readings (c # cs) seen =
     and_then (items_of (case c of JObj _ \<Rightarrow> jget ''members'' c | _ \<Rightarrow> c)) (\<lambda>ms.
     and_then (take_members readings ms seen) (\<lambda>(g, seen').
     and_then (take_clusters readings cs seen') (\<lambda>(gs, seen'').
     Inr (if g = [] then gs else g # gs, seen''))))"

definition parse_clusters :: "json \<Rightarrow> jdict list list \<Rightarrow> py_error + ref list list option" where
  "parse_clusters payload readings =
     (case (case payload of JObj _ \<Rightarrow> jget ''clusters'' payload | _ \<Rightarrow> payload) of
       JList raw \<Rightarrow> and_then (take_clusters readings raw []) (\<lambda>(clusters, seen).
         Inr (if clusters = [] then None
           else Some (clusters @ map (\<lambda>p. [p]) (filter (\<lambda>p. p \<notin> set seen) (places readings)))))
     | _ \<Rightarrow> Inr None)"

section \<open>One vector\<close>

definition position :: "jdict list list \<Rightarrow> ref list \<Rightarrow> rat" where
  "position readings cluster = fdiv (fsum (map (\<lambda>(r, i). fdiv (of_nat i) (of_nat (max 1 (length (readings ! r))))) cluster))
     (of_nat (length cluster))"

definition cluster_of :: "jdict list list \<Rightarrow> ref list list \<Rightarrow> nat \<Rightarrow> string \<Rightarrow> nat option" where
  "cluster_of readings kept r mid = map_of (rev (concat (map (\<lambda>(n, c).
     map (\<lambda>p. ((fst p, py_str (dget ''id'' (milestone_at readings p))), n)) c) (enumerate 0 kept)))) (r, mid)"

text \<open>The first of the places with the most runs in its consensus.\<close>

definition best_of :: "(ref \<times> nat) list \<Rightarrow> (ref \<times> nat) \<Rightarrow> ref \<times> nat" where
  "best_of xs x0 = foldl (\<lambda>best x. if snd best < snd x then x else best) x0 xs"

definition counted :: "jdict list list \<Rightarrow> ref \<Rightarrow> py_error + ref \<times> nat" where
  "counted readings p = and_then (items_of (dget ''consensus'' (milestone_at readings p))) (\<lambda>xs. Inr (p, length xs))"

definition representative :: "jdict list list \<Rightarrow> ref list \<Rightarrow> py_error + ref" where
  "representative readings ordered = and_then (all_of (counted readings) ordered) (\<lambda>xs.
     case xs of [] \<Rightarrow> Inl (ValueError ''max() arg is an empty sequence'') | x # xs' \<Rightarrow> Inr (fst (best_of xs' x)))"

text \<open>The entries of one milestone's evidence, the first of each run kept.\<close>

fun pool_entries :: "json list \<Rightarrow> int list \<times> json list \<Rightarrow> py_error + int list \<times> json list" where
  "pool_entries [] acc = Inr acc"
| "pool_entries (e # es) acc = and_then (as_jdict e) (\<lambda>d.
     and_then (py_int (jor (dget ''run'' d) (JInt 0))) (\<lambda>run.
     pool_entries es (if run \<in> set (fst acc) then acc else (fst acc @ [run], snd acc @ [e]))))"

fun pool_evidence :: "jdict list list \<Rightarrow> ref list \<Rightarrow> int list \<times> json list \<Rightarrow> py_error + int list \<times> json list" where
  "pool_evidence readings [] acc = Inr acc"
| "pool_evidence readings (p # ps) acc =
     and_then (items_of (dget ''evidence'' (milestone_at readings p))) (\<lambda>es.
     and_then (pool_entries es acc) (pool_evidence readings ps))"

definition merged_id :: "nat \<Rightarrow> string" where
  "merged_id n = ''m'' @ show_nat (n + 1)"

definition merged_deps :: "jdict list list \<Rightarrow> ref list list \<Rightarrow> nat \<Rightarrow> nat \<Rightarrow> json list \<Rightarrow> string list" where
  "merged_deps readings kept number r deps = List.map_filter (\<lambda>d. case cluster_of readings kept r (py_str d) of
     None \<Rightarrow> None | Some t \<Rightarrow> if t \<noteq> number then Some (merged_id t) else None) deps"

definition merge_one :: "jdict list list \<Rightarrow> ref list list \<Rightarrow> nat \<times> ref list \<Rightarrow> py_error + jdict" where
  "merge_one readings kept nc = (case nc of (number, cluster) \<Rightarrow>
     let ordered = sort cluster in
     and_then (representative readings ordered) (\<lambda>best.
     let rep = milestone_at readings best in
     and_then (pool_evidence readings (best # filter (\<lambda>p. p \<noteq> best) ordered) ([], [])) (\<lambda>(runs, evidence).
     and_then (items_of (dget ''depends_on'' rep)) (\<lambda>deps.
     Inr (foldl (\<lambda>d (k, v). dict_put k v d) rep
       [(''id'', JStr (merged_id number)), (''consensus'', JList (map JInt (sort runs))),
        (''evidence'', JList evidence),
        (''depends_on'', JList (map JStr (merged_deps readings kept number (fst best) deps))),
        (''readings'', JList (map (\<lambda>r. JStr (reading_label r)) (sort (remdups (map fst cluster))))),
        (''merged_from'', JInt (int (length cluster)))])))))"

definition merge_vectors :: "jdict list list \<Rightarrow> ref list list \<Rightarrow> py_error + jdict list" where
  "merge_vectors readings clusters = (let kept = sort_key (position readings) clusters in
     all_of (merge_one readings kept) (enumerate 0 kept))"

section \<open>Questions\<close>

definition least :: "ref list \<Rightarrow> ref" where
  "least c = foldl min (hd c) (tl c)"

definition chosen_of :: "jdict list list \<Rightarrow> ref list list \<Rightarrow> (bool \<times> string \<times> jdict) list" where
  "chosen_of readings clusters = map (\<lambda>c. let q = milestone_at readings (least c) in
     (min 2 (length readings) \<le> readings_reached c, py_str (dget ''milestone'' q), q)) (sort_key least clusters)"

definition grouped :: "(string \<times> jdict) list \<Rightarrow> (string \<times> jdict list) list" where
  "grouped qs = foldl (\<lambda>d (mid, q). put_more mid q d) [] qs"

definition top_up :: "nat \<Rightarrow> (string \<times> jdict list) list \<Rightarrow> string \<times> jdict list \<Rightarrow> (string \<times> jdict list) list" where
  "top_up ladder_min d x = (case x of (mid, extra) \<Rightarrow>
     let group = (case map_of d mid of None \<Rightarrow> [] | Some g \<Rightarrow> g)
     in dict_put mid (group @ take (ladder_min - length group) extra) d)"

definition with_rung :: "jdict \<Rightarrow> py_error + int \<times> jdict" where
  "with_rung q = and_then (py_int (jor (dget ''rung'' q) (JInt 0))) (\<lambda>n. Inr (n, q))"

definition by_rung :: "string \<times> jdict list \<Rightarrow> py_error + string \<times> jdict list" where
  "by_rung x = (case x of (mid, qs) \<Rightarrow> and_then (all_of with_rung qs) (\<lambda>rs. Inr (mid, map snd (sort_key fst rs))))"

definition select_questions :: "jdict list list \<Rightarrow> ref list list \<Rightarrow> nat \<Rightarrow> py_error + (string \<times> jdict list) list" where
  "select_questions readings clusters ladder_min =
     (let chosen = chosen_of readings clusters;
        by_id = grouped (map snd (filter fst chosen));
        spare = grouped (map snd (filter (\<lambda>x. \<not> fst x) chosen))
      in all_of by_rung (foldl (top_up ladder_min) by_id spare))"

section \<open>Alignments are partitions\<close>

lemma set_places: "set (places readings) = {(r, i). r < length readings \<and> i < length (readings ! r)}"
  by (fastforce simp: places_def in_set_enumerate_eq)

lemma distinct_places: "distinct (places readings)"
proof -
  have "distinct (concat (map (\<lambda>(r, ms). map (Pair r) [0..<length ms]) (enumerate k readings)))" for k
    by (induction readings arbitrary: k) (auto simp: distinct_map inj_on_def in_set_enumerate_eq)
  then show ?thesis by (simp add: places_def)
qed

definition partition_of :: "jdict list list \<Rightarrow> ref list list \<Rightarrow> bool" where
  "partition_of readings cs \<longleftrightarrow> [] \<notin> set cs \<and> distinct (concat cs) \<and> set (concat cs) = set (places readings)"

lemma mset_put_more: "mset (concat (map snd (put_more k x d))) = add_mset x (mset (concat (map snd d)))"
proof -
  have "mset (concat (map snd (dict_put k (xs @ [x]) d))) = add_mset x (mset (concat (map snd d)))"
    if "map_of d k = Some xs" for xs
    using that
  proof (induction k "xs @ [x]" d rule: dict_put.induct)
    case (2 k j u d)
    then show ?case by (cases "k = j") (simp_all add: union_mset_add_mset_right flip: union_mset_add_mset_left)
  qed simp
  moreover have "mset (concat (map snd (dict_put k [x] d))) = add_mset x (mset (concat (map snd d)))"
    if "map_of d k = None"
    using that by (simp add: dict_put_new map_of_eq_None_iff)
  ultimately show ?thesis by (simp add: put_more_def split: option.split)
qed

lemma put_more_nonempty: "[] \<notin> set (map snd d) \<Longrightarrow> [] \<notin> set (map snd (put_more k x d))"
proof -
  have "xs \<noteq> [] \<Longrightarrow> [] \<notin> set (map snd d) \<Longrightarrow> [] \<notin> set (map snd (dict_put k xs d))" for xs :: "'a list"
    by (induction k xs d rule: dict_put.induct) auto
  then show "[] \<notin> set (map snd d) \<Longrightarrow> [] \<notin> set (map snd (put_more k x d))" by (simp add: put_more_def)
qed

lemma group_partition:
  "mset (concat (map snd (foldl (\<lambda>d p. put_more (f p) p d) d ps))) = mset (concat (map snd d)) + mset ps"
  "[] \<notin> set (map snd d) \<Longrightarrow> [] \<notin> set (map snd (foldl (\<lambda>d p. put_more (f p) p d) d ps))"
proof -
  show "mset (concat (map snd (foldl (\<lambda>d p. put_more (f p) p d) d ps))) = mset (concat (map snd d)) + mset ps"
    by (induction ps arbitrary: d) (simp, simp only: foldl_Cons mset_put_more mset.simps union_mset_add_mset_right union_mset_add_mset_left)
  show "[] \<notin> set (map snd d) \<Longrightarrow> [] \<notin> set (map snd (foldl (\<lambda>d p. put_more (f p) p d) d ps))"
  proof (induction ps arbitrary: d)
    case (Cons p ps)
    show ?case unfolding foldl_Cons by (rule Cons.IH [OF put_more_nonempty [OF Cons.prems]])
  qed simp
qed

lemma exact_groups_partition: "partition_of readings (exact_groups nfkc readings)"
proof -
  let ?cs = "exact_groups nfkc readings"
  have "mset (concat ?cs) = mset (places readings)" by (simp only: exact_groups_def group_partition list.map concat.simps mset.simps add_0)
  then have "distinct (concat ?cs)" "set (concat ?cs) = set (places readings)"
    using distinct_places mset_eq_imp_distinct_iff mset_eq_setD by blast+
  moreover have "[] \<notin> set ?cs" unfolding exact_groups_def by (rule group_partition) simp
  ultimately show ?thesis by (simp add: partition_of_def)
qed

lemma parse_member_place: "parse_member m readings = Inr (Some p) \<Longrightarrow> p \<in> set (places readings)"
  by (auto simp: parse_member_def set_places split: list.splits option.splits if_splits)

lemma take_members_fresh:
  "take_members readings ms seen = Inr (g, seen') \<Longrightarrow> distinct g \<and> set g \<inter> set seen = {} \<and>
     set seen' = set seen \<union> set g \<and> set g \<subseteq> set (places readings)"
proof (induction ms arbitrary: g seen seen')
  case (Cons m ms)
  then obtain parsed where parsed: "parse_member (py_str m) readings = Inr parsed" by auto
  show ?case
  proof (cases "\<exists>p. parsed = Some p \<and> p \<notin> set seen")
    case False
    then have "take_members readings ms seen = Inr (g, seen')" using Cons.prems parsed by (auto split: option.splits if_splits)
    then show ?thesis by (rule Cons.IH)
  next
    case True
    then obtain p h where p: "parsed = Some p" "p \<notin> set seen" and h: "take_members readings ms (p # seen) = Inr (h, seen')" "g = p # h"
      using Cons.prems parsed by auto
    show ?thesis using Cons.IH [OF h(1)] parse_member_place [OF parsed [unfolded p(1)]] p(2) h(2) by auto
  qed
qed simp

lemma take_clusters_fresh:
  "take_clusters readings cs seen = Inr (gs, seen') \<Longrightarrow> [] \<notin> set gs \<and> distinct (concat gs) \<and>
     set (concat gs) \<inter> set seen = {} \<and> set seen' = set seen \<union> set (concat gs) \<and>
     set (concat gs) \<subseteq> set (places readings)"
proof (induction cs arbitrary: seen gs)
  case (Cons c cs)
  obtain ms g seen1 gs1 where "take_members readings ms seen = Inr (g, seen1)"
    and "take_clusters readings cs seen1 = Inr (gs1, seen')" "gs = (if g = [] then gs1 else g # gs1)"
    using Cons.prems by auto
  with take_members_fresh [OF this(1)] Cons.IH [OF this(2)] show ?case by auto
qed simp

lemma parse_clusters_partition:
  assumes "parse_clusters payload readings = Inr (Some cs)"
  shows "partition_of readings cs"
proof -
  from assms obtain raw gs seen where run: "take_clusters readings raw [] = Inr (gs, seen)"
    and cs: "cs = gs @ map (\<lambda>p. [p]) (filter (\<lambda>p. p \<notin> set seen) (places readings))"
    by (auto simp: parse_clusters_def split: json.splits if_splits)
  have "concat (map (\<lambda>p. [p]) ps) = ps" for ps :: "ref list" by (induction ps) auto
  with take_clusters_fresh [OF run] show ?thesis by (auto simp: partition_of_def cs distinct_places)
qed

text \<open>
  C31. Whatever the aligner answers, its clusters as they are used are a partition of the statements:
  every statement of every reading is in exactly one place of exactly one cluster, and no cluster is
  empty. So are the exact groups that stand in for them.
\<close>

theorem alignment_is_partition:
  assumes "cs = exact_groups nfkc readings \<or> parse_clusters payload readings = Inr (Some cs)"
  shows "[] \<notin> set cs \<and> distinct (concat cs) \<and>
    set (concat cs) = {(r, i). r < length readings \<and> i < length (readings ! r)}"
  using assms exact_groups_partition [of readings nfkc] parse_clusters_partition [of payload readings cs]
  unfolding partition_of_def set_places by blast

section \<open>Member ids\<close>

lemma digit_not_space: "is_digit c \<Longrightarrow> \<not> is_space c"
  by (simp add: is_digit_def is_space_def Let_def)

text \<open>
  The id under which a statement is shown to the aligner reads back as its place, for the 26
  readings a letter can name and the places \<open>int\<close> reads.
\<close>

lemma member_id_round_trip:
  assumes "r < length readings" and "i < length (readings ! r)" and "r < 26"
    and "length (show_nat (i + 1)) \<le> int_max_str_digits"
  shows "parse_member (member_id r i) readings = Inr (Some (r, i))"
proof -
  have label: "(of_char (char_of (65 + r) :: char) :: nat) = 65 + r" using assms(3) by (simp add: of_char_of)
  have ds: "list_all is_digit (show_nat (i + 1))" "show_nat (i + 1) \<noteq> []"
    using show_nat_digits show_nat_nonempty by (auto simp: list_all_iff)
  have "strip (c # s) = c # s" if "\<not> is_space c" "s \<noteq> []" "\<not> is_space (last s)" for c s
  proof -
    have "dropWhile is_space (rev (c # s)) = rev (c # s)"
      using that by (subst dropWhile_eq_self_iff) (simp add: hd_append hd_rev)
    then show ?thesis using that(1) by (simp add: strip_def)
  qed
  moreover have "\<not> is_space (last (show_nat (i + 1)))" using ds by (metis digit_not_space last_in_set list.pred_set)
  moreover have "\<not> is_space (char_of (65 + r))" using assms(3) label by (simp add: is_space_def Let_def)
  ultimately have "strip (member_id r i) = char_of (65 + r) # show_nat (i + 1)"
    using ds(2) by (simp add: member_id_def reading_label_def)
  moreover have "letter_index (char_of (65 + r)) = Some r" using assms(3) label by (simp add: letter_index_def Let_def)
  moreover have "number_text (show_nat (i + 1))" using ds by (auto simp: number_text_def list_all_iff)
  moreover have "int_of_text (show_nat (i + 1)) = Inr (i + 1)"
    using le_trans [OF length_takeWhile_le assms(4)] read_show_nat ds(1) by (simp add: int_of_text_def not_less)
  ultimately show ?thesis using assms by (simp add: parse_member_def)
qed

section \<open>The merged vector\<close>

text \<open>The run of an entry of evidence, and the runs a milestone has evidence from.\<close>

definition entry_run :: "json \<Rightarrow> py_error + int" where
  "entry_run e = and_then (as_jdict e) (\<lambda>d. py_int (jor (dget ''run'' d) (JInt 0)))"

definition runs_of :: "jdict \<Rightarrow> int set" where
  "runs_of d = (case items_of (dget ''evidence'' d) of Inl e \<Rightarrow> {} | Inr es \<Rightarrow> {r. \<exists>e \<in> set es. entry_run e = Inr r})"

definition pooled :: "int list \<times> json list \<Rightarrow> bool" where
  "pooled acc \<longleftrightarrow> distinct (fst acc) \<and> list_all2 (\<lambda>r e. entry_run e = Inr r) (fst acc) (snd acc)"

lemma pool_entries_runs:
  "pool_entries es acc = Inr acc' \<Longrightarrow> pooled acc \<Longrightarrow>
     pooled acc' \<and> set (fst acc') = set (fst acc) \<union> {r. \<exists>e \<in> set es. entry_run e = Inr r}"
proof (induction es arbitrary: acc)
  case (Cons e es)
  from Cons.prems(1) obtain run where run: "entry_run e = Inr run"
    and rest: "pool_entries es (if run \<in> set (fst acc) then acc else (fst acc @ [run], snd acc @ [e])) = Inr acc'"
    by (auto simp: entry_run_def)
  have "pooled (if run \<in> set (fst acc) then acc else (fst acc @ [run], snd acc @ [e]))"
    using Cons.prems(2) run by (simp add: pooled_def list_all2_appendI)
  from Cons.IH [OF rest this] run show ?case by (auto split: if_splits)
qed simp

lemma pool_evidence_runs:
  "pool_evidence readings ps acc = Inr acc' \<Longrightarrow> pooled acc \<Longrightarrow>
     pooled acc' \<and> set (fst acc') = set (fst acc) \<union> (\<Union>p \<in> set ps. runs_of (milestone_at readings p))"
proof (induction ps arbitrary: acc)
  case (Cons p ps)
  from Cons.prems(1) obtain es mid where es: "items_of (dget ''evidence'' (milestone_at readings p)) = Inr es"
    and mid: "pool_entries es acc = Inr mid" and rest: "pool_evidence readings ps mid = Inr acc'" by auto
  from pool_entries_runs [OF mid Cons.prems(2)] Cons.IH [OF rest] es show ?case by (auto simp: runs_of_def)
qed simp

lemma best_of_in: "best_of xs x0 \<in> set (x0 # xs)"
proof -
  have "foldl (\<lambda>best x. if snd best < snd x then x else best) x0 xs \<in> set (x0 # xs)" for x0
    by (induction xs arbitrary: x0) (auto split: if_splits)
  then show ?thesis by (simp add: best_of_def)
qed

lemma representative_in:
  assumes "representative readings ordered = Inr best"
  shows "best \<in> set ordered"
proof -
  from assms obtain ys where all: "all_of (counted readings) ordered = Inr ys"
    and "(case ys of [] \<Rightarrow> Inl (ValueError ''max() arg is an empty sequence'') | x # xs \<Rightarrow> Inr (fst (best_of xs x))) = Inr best"
    by (auto simp: representative_def)
  then obtain x xs where ys: "ys = x # xs" and best: "best = fst (best_of xs x)" by (cases ys) simp_all
  have "fst y \<in> set ordered" if "y \<in> set (x # xs)" for y
  proof -
    from that obtain i where "i < length (x # xs)" "y = (x # xs) ! i" by (metis in_set_conv_nth)
    with all_of_Inr [OF all [unfolded ys]] have "i < length ordered" "counted readings (ordered ! i) = Inr y" by auto
    then show ?thesis by (auto simp: counted_def)
  qed
  with best best_of_in [of xs x] show ?thesis by blast
qed

lemma cluster_of_bound:
  assumes "cluster_of readings kept r mid = Some t"
  shows "t < length kept"
proof -
  from map_of_SomeD [OF assms [unfolded cluster_of_def]] obtain n c where "(n, c) \<in> set (enumerate 0 kept)" "t = n" by auto
  then show ?thesis by (simp add: in_set_enumerate_eq)
qed

lemma merged_deps_known:
  "\<exists>ts. merged_deps readings kept number r deps = map merged_id ts \<and> (\<forall>t \<in> set ts. t < length kept \<and> t \<noteq> number)"
proof -
  define f where "f = (\<lambda>d. case cluster_of readings kept r (py_str d) of
     None \<Rightarrow> None | Some t \<Rightarrow> if t \<noteq> number then Some t else None)"
  have "merged_deps readings kept number r deps = map merged_id (List.map_filter f deps)"
    unfolding merged_deps_def f_def by (induction deps) (auto simp: map_filter_simps split: option.splits)
  moreover have "\<forall>t \<in> set (List.map_filter f deps). t < length kept \<and> t \<noteq> number"
    by (auto simp: map_filter_def f_def dest: cluster_of_bound split: option.splits if_splits)
  ultimately show ?thesis by blast
qed

definition well_merged :: "jdict list list \<Rightarrow> nat \<Rightarrow> nat \<Rightarrow> ref list \<Rightarrow> jdict \<Rightarrow> bool" where
  "well_merged readings n_all n cluster m \<longleftrightarrow>
     dget ''id'' m = JStr (''m'' @ show_nat (n + 1)) \<and>
     (\<exists>runs es. dget ''consensus'' m = JList (map JInt (sort runs)) \<and> dget ''evidence'' m = JList es \<and>
        distinct runs \<and> list_all2 (\<lambda>r e. entry_run e = Inr r) runs es \<and>
        set runs = (\<Union>p \<in> set cluster. runs_of (milestone_at readings p))) \<and>
     (\<exists>ts. dget ''depends_on'' m = JList (map (\<lambda>t. JStr (''m'' @ show_nat (t + 1))) ts) \<and>
        set ts \<subseteq> {..< n_all} - {n}) \<and>
     (\<exists>p \<in> set cluster. dget ''statement'' m = dget ''statement'' (milestone_at readings p))"

lemma merge_one_ok:
  assumes "merge_one readings kept (n, cluster) = Inr m"
  shows "well_merged readings (length kept) n cluster m"
proof -
  from assms obtain best runs evidence deps where best: "representative readings (sort cluster) = Inr best"
    and pool: "pool_evidence readings (best # filter (\<lambda>p. p \<noteq> best) (sort cluster)) ([], []) = Inr (runs, evidence)"
    and m: "m = foldl (\<lambda>d (k, v). dict_put k v d) (milestone_at readings best)
       [(''id'', JStr (merged_id n)), (''consensus'', JList (map JInt (sort runs))),
        (''evidence'', JList evidence),
        (''depends_on'', JList (map JStr (merged_deps readings kept n (fst best) deps))),
        (''readings'', JList (map (\<lambda>r. JStr (reading_label r)) (sort (remdups (map fst cluster))))),
        (''merged_from'', JInt (int (length cluster)))]"
    unfolding merge_one_def Let_def prod.case and_then_Inr by (auto split: prod.splits)
  have in_cluster: "best \<in> set cluster" using representative_in [OF best] by simp
  then have members: "set (best # filter (\<lambda>p. p \<noteq> best) (sort cluster)) = set cluster" by auto
  have "pooled ([], [])" by (simp add: pooled_def)
  from pool_evidence_runs [OF pool this] have runs: "distinct runs" "list_all2 (\<lambda>r e. entry_run e = Inr r) runs evidence"
    "set runs = (\<Union>p \<in> set cluster. runs_of (milestone_at readings p))" unfolding members by (simp_all add: pooled_def)
  obtain ts where ts: "merged_deps readings kept n (fst best) deps = map merged_id ts"
    "\<forall>t \<in> set ts. t < length kept \<and> t \<noteq> n" using merged_deps_known by blast
  have fields: "dget ''id'' m = JStr (''m'' @ show_nat (n + 1))" "dget ''consensus'' m = JList (map JInt (sort runs))"
    "dget ''evidence'' m = JList evidence" "dget ''depends_on'' m = JList (map (\<lambda>t. JStr (''m'' @ show_nat (t + 1))) ts)"
    "dget ''statement'' m = dget ''statement'' (milestone_at readings best)"
    by (simp_all add: m dget_put merged_id_def ts(1))
  have "set ts \<subseteq> {..< length kept} - {n}" using ts(2) by auto
  then show ?thesis unfolding well_merged_def using fields runs in_cluster by blast
qed

text \<open>
  Merging gives one milestone per cluster, numbered in its order, with the statement of a member
  of the cluster; its consensus is exactly the runs any member has evidence from, with one entry of
  evidence for each; and what it depends on are other milestones of the merged vector.
\<close>

theorem merge_keeps_evidence:
  assumes "merge_vectors readings clusters = Inr merged"
  shows "\<exists>kept. mset kept = mset clusters \<and> list_all2 (\<lambda>(n, cluster) m.
    dget ''id'' m = JStr (''m'' @ show_nat (n + 1)) \<and>
    (\<exists>runs es. dget ''consensus'' m = JList (map JInt (sort runs)) \<and> dget ''evidence'' m = JList es \<and>
       distinct runs \<and> list_all2 (\<lambda>r e. entry_run e = Inr r) runs es \<and>
       set runs = (\<Union>p \<in> set cluster. runs_of (milestone_at readings p))) \<and>
    (\<exists>ts. dget ''depends_on'' m = JList (map (\<lambda>t. JStr (''m'' @ show_nat (t + 1))) ts) \<and>
       set ts \<subseteq> {..< length merged} - {n}) \<and>
    (\<exists>p \<in> set cluster. dget ''statement'' m = dget ''statement'' (milestone_at readings p)))
   (enumerate 0 kept) merged"
proof -
  let ?kept = "sort_key (position readings) clusters"
  from assms have all: "all_of (merge_one readings ?kept) (enumerate 0 ?kept) = Inr merged"
    by (simp add: merge_vectors_def Let_def)
  have "well_merged readings (length merged) n c (merged ! i)"
    if "i < length merged" "enumerate 0 ?kept ! i = (n, c)" for i n c
    using all_of_Inr [OF all] that merge_one_ok [of readings ?kept n c "merged ! i"] by auto
  then have "list_all2 (\<lambda>(n, cluster) m. well_merged readings (length merged) n cluster m) (enumerate 0 ?kept) merged"
    using all_of_Inr [OF all] by (auto simp: list_all2_conv_all_nth split: prod.split)
  then show ?thesis unfolding well_merged_def by (intro exI [of _ ?kept]) simp
qed

end
