(* ===== verification/Milestones.thy ===== *)
theory Milestones
  imports Alignment
begin

text \<open>
  What the evaluator keeps of a model's milestones and questions: \<open>validate_vector\<close> of
  src/src/albedo_eval_service/evaluator/reference/prompt_milestones.py and \<open>parse_ladder\<close> of
  prompt_ladder.py. The texts of the drop records (statement and detail) are left out; their reasons
  and ids are kept.
\<close>

section \<open>Search spaces\<close>

record run_step =
  st_assistant :: "string option"
  st_observation :: "string option"

record trajectory =
  tj_run :: "int option"
  tj_steps :: "run_step list"

text \<open>Up to the next fence or the end, and what follows.\<close>

fun upto_fence :: "string \<Rightarrow> string \<times> string" where
  "upto_fence [] = ([], [])"
| "upto_fence (c # s) = (if starts_with ''```'' (c # s) then ([], drop 3 (c # s))
     else case upto_fence s of (body, rest) \<Rightarrow> (c # body, rest))"

lemma upto_fence_length: "length (snd (upto_fence s)) \<le> length s"
  by (induction s rule: upto_fence.induct) (auto split: prod.splits)

text \<open>The text with each fenced block replaced by a space, and the blocks.\<close>

function split_fences :: "string \<Rightarrow> string \<times> string list" where
  "split_fences [] = ([], [])"
| "split_fences (c # s) =
     (let after = dropWhile (\<lambda>x. x \<noteq> CHR 0x0A) (drop 2 s) in
      if starts_with ''```'' (c # s) \<and> after \<noteq> []
      then (case split_fences (snd (upto_fence (tl after))) of (text, blocks) \<Rightarrow>
        (CHR '' '' # text, fst (upto_fence (tl after)) # blocks))
      else (case split_fences s of (text, blocks) \<Rightarrow> (c # text, blocks)))"
  by pat_completeness auto

termination
proof (relation "measure length")
  fix c :: char and s after :: string
  assume "after = dropWhile (\<lambda>x. x \<noteq> CHR 0x0A) (drop 2 s)"
  then have "length after \<le> length s" using dropWhile_length [of "\<lambda>x. x \<noteq> CHR 0x0A" "drop 2 s"] by simp
  then show "(snd (upto_fence (tl after)), c # s) \<in> measure length"
    using upto_fence_length [of "tl after"] by simp
qed simp_all

type_synonym haystack = "(string \<times> string) list"

definition haystacks :: "(string \<Rightarrow> string) \<Rightarrow> run_step list \<Rightarrow> haystack" where
  "haystacks nfkc steps =
     (let assistant = join_with '' '' (map (\<lambda>s. case st_assistant s of None \<Rightarrow> [] | Some t \<Rightarrow> t) steps);
        observation = join_with '' '' (map (\<lambda>s. case st_observation s of None \<Rightarrow> [] | Some t \<Rightarrow> t) steps);
        fenced = join_with '' '' (snd (split_fences assistant))
      in [(''output'', normalise_span nfkc observation),
        (''stated'', normalise_span nfkc (fst (split_fences assistant))),
        (''edit'', normalise_span nfkc fenced), (''command'', normalise_span nfkc fenced)])"

definition EVIDENCE_SOURCES :: "string list" where
  "EVIDENCE_SOURCES = [''output'', ''stated'', ''edit'', ''command'']"

definition SOURCES_BY_CATEGORY :: "(string \<times> string list) list" where
  "SOURCES_BY_CATEGORY = [(''claims'', [''output'', ''stated'', ''command'']), (''explore'', [''output'', ''stated'']),
     (''action'', [''edit'', ''output'', ''command'']), (''verification'', [''command'', ''stated''])]"

definition SPAN_FROM_TASK_CHECKED :: "string list" where
  "SPAN_FROM_TASK_CHECKED = [''explore'']"

definition NEVER_OPTIONAL :: "string list" where
  "NEVER_OPTIONAL = [''verification'']"

definition hay_at :: "(int \<times> haystack) list \<Rightarrow> int \<Rightarrow> string \<Rightarrow> string" where
  "hay_at hay run kind = (case map_of hay run of None \<Rightarrow> [] | Some h \<Rightarrow>
     (case map_of h kind of None \<Rightarrow> [] | Some t \<Rightarrow> t))"

definition locate :: "string \<Rightarrow> int \<Rightarrow> string \<Rightarrow> string list \<Rightarrow> (int \<times> haystack) list \<Rightarrow> (int \<times> string) option" where
  "locate body run source allowed hay =
     (let kinds = (if source \<in> set allowed then source # filter (\<lambda>s. s \<noteq> source) allowed else allowed);
        runs = run # filter (\<lambda>r. r \<noteq> run) (sort (map fst hay))
      in find (\<lambda>(other, kind). str_contains body (hay_at hay other kind))
        (concat (map (\<lambda>other. map (Pair other) kinds) runs)))"

section \<open>Validation\<close>

text \<open>What a pass leaves: the reasons and ids of its drops.\<close>

type_synonym drops = "(string \<times> string) list"

definition drop_as :: "jdict \<Rightarrow> string \<Rightarrow> string \<times> string" where
  "drop_as m reason = (reason, py_str (case map_of m ''id'' of None \<Rightarrow> JStr '''' | Some v \<Rightarrow> v))"

definition or_blank :: "jdict \<Rightarrow> string \<Rightarrow> string" where
  "or_blank d k = py_str (case map_of d k of None \<Rightarrow> JStr '''' | Some v \<Rightarrow> v)"

record evidence_state =
  ev_runs :: "int list"
  ev_kept :: "jdict list"
  ev_drops :: drops

definition check_entry :: "(string \<Rightarrow> string) \<Rightarrow> string \<Rightarrow> (int \<times> haystack) list \<Rightarrow> jdict \<Rightarrow> string \<Rightarrow> string list \<Rightarrow>
    json \<Rightarrow> evidence_state \<Rightarrow> py_error + evidence_state" where
  "check_entry nfkc task_hay hay m category allowed e st =
     and_then (as_jdict e) (\<lambda>d.
     and_then (py_int (jor (dget ''run'' d) (JInt 0))) (\<lambda>run.
     let sp = normalise_span nfkc (or_blank d ''span''); source = or_blank d ''source'';
       dropped = (\<lambda>reason. Inr (st\<lparr>ev_drops := ev_drops st @ [drop_as m reason]\<rparr>))
     in if sp = [] then dropped ''empty_span''
     else if category \<in> set SPAN_FROM_TASK_CHECKED \<and> str_contains sp task_hay then dropped ''span_from_task''
     else case locate sp run source allowed hay of
       None \<Rightarrow> dropped (if locate sp run source EVIDENCE_SOURCES hay \<noteq> None
         then ''span_inadmissible_for_'' @ category else ''span_not_in_corpus'')
     | Some (found_run, found_source) \<Rightarrow>
         if found_run \<in> set (ev_runs st) then Inr st
         else Inr (st\<lparr>ev_runs := ev_runs st @ [found_run],
           ev_kept := ev_kept st @ [dict_put ''source'' (JStr found_source) (dict_put ''run'' (JInt found_run) d)]\<rparr>)))"

fun check_entries :: "(string \<Rightarrow> string) \<Rightarrow> string \<Rightarrow> (int \<times> haystack) list \<Rightarrow> jdict \<Rightarrow> string \<Rightarrow> string list \<Rightarrow>
    json list \<Rightarrow> evidence_state \<Rightarrow> py_error + evidence_state" where
  "check_entries nfkc task_hay hay m category allowed [] st = Inr st"
| "check_entries nfkc task_hay hay m category allowed (e # es) st =
     and_then (check_entry nfkc task_hay hay m category allowed e st)
       (check_entries nfkc task_hay hay m category allowed es)"

text \<open>One milestone: kept with its evidence, or only the reasons why it is not.\<close>

definition check_milestone :: "(string \<Rightarrow> string) \<Rightarrow> string \<Rightarrow> (int \<times> haystack) list \<Rightarrow> jdict \<Rightarrow>
    py_error + jdict option \<times> drops" where
  "check_milestone nfkc task_hay hay m0 =
     (let category = py_str (dget ''category'' m0) in
      if \<not> truthy (dget ''necessary'' m0) \<and> category \<notin> set NEVER_OPTIONAL then Inr (None, [drop_as m0 ''optional''])
      else let quote = normalise_span nfkc (py_str (jor (dget ''prefix_quote'' m0) (JStr ''''))) in
      if truthy (dget ''in_prefix'' m0) \<and> quote \<noteq> [] \<and> str_contains quote task_hay
      then Inr (None, [drop_as m0 ''given_by_task''])
      else let m = (if truthy (dget ''in_prefix'' m0)
          then dict_put ''prefix_claim_unsupported'' (JBool True) (dict_put ''in_prefix'' (JBool False) m0) else m0)
      in case map_of SOURCES_BY_CATEGORY category of
        None \<Rightarrow> Inr (None, [drop_as m ''unknown_category''])
      | Some allowed \<Rightarrow>
          and_then (items_of (dget ''evidence'' m)) (\<lambda>es.
          and_then (check_entries nfkc task_hay hay m category allowed es
            \<lparr>ev_runs = [], ev_kept = [], ev_drops = []\<rparr>) (\<lambda>st.
          if ev_kept st = [] then Inr (None, ev_drops st @ [drop_as m ''unreached''])
          else Inr (Some (dict_put ''consensus'' (JList (map JInt (sort (ev_runs st))))
              (dict_put ''evidence'' (JList (map JObj (ev_kept st))) m)), ev_drops st))))"

fun check_milestones :: "(string \<Rightarrow> string) \<Rightarrow> string \<Rightarrow> (int \<times> haystack) list \<Rightarrow> json list \<Rightarrow>
    py_error + jdict list \<times> drops" where
  "check_milestones nfkc task_hay hay [] = Inr ([], [])"
| "check_milestones nfkc task_hay hay (JObj m # ms) =
     and_then (check_milestone nfkc task_hay hay m) (\<lambda>(k, ds).
     and_then (check_milestones nfkc task_hay hay ms) (\<lambda>(ks, dss).
     Inr ((case k of None \<Rightarrow> ks | Some x \<Rightarrow> x # ks), ds @ dss)))"
| "check_milestones nfkc task_hay hay (_ # ms) = check_milestones nfkc task_hay hay ms"

definition item_id :: "jdict \<Rightarrow> py_error + string" where
  "item_id m = (case map_of m ''id'' of None \<Rightarrow> Inl (KeyError ''id'') | Some v \<Rightarrow> Inr (py_str v))"

text \<open>\<open>d in surviving\<close>: a list or dict cannot be looked up in a set.\<close>

definition survives :: "string list \<Rightarrow> json \<Rightarrow> py_error + bool" where
  "survives surviving d = (case d of JStr s \<Rightarrow> Inr (s \<in> set surviving)
     | JList _ \<Rightarrow> Inl (TypeError ''unhashable type'') | JObj _ \<Rightarrow> Inl (TypeError ''unhashable type'') | _ \<Rightarrow> Inr False)"

definition prune_deps :: "string list \<Rightarrow> jdict \<Rightarrow> py_error + jdict" where
  "prune_deps surviving m = and_then (items_of (dget ''depends_on'' m)) (\<lambda>deps.
     and_then (all_of (\<lambda>d. and_then (survives surviving d) (\<lambda>b. Inr (b, d))) deps) (\<lambda>bds.
     Inr (dict_put ''depends_on'' (JList (map snd (filter fst bds))) m)))"

definition hay_of :: "(string \<Rightarrow> string) \<Rightarrow> trajectory list \<Rightarrow> (int \<times> haystack) list" where
  "hay_of nfkc trajectories = dict_of (map (\<lambda>(i, t).
     (case tj_run t of None \<Rightarrow> int i | Some r \<Rightarrow> if r = 0 then int i else r, haystacks nfkc (tj_steps t)))
     (enumerate 1 trajectories))"

definition validate_vector :: "(string \<Rightarrow> string) \<Rightarrow> json list \<Rightarrow> trajectory list \<Rightarrow> string \<Rightarrow>
    py_error + jdict list \<times> drops" where
  "validate_vector nfkc milestones trajectories task =
     and_then (check_milestones nfkc (normalise_span nfkc task) (hay_of nfkc trajectories) milestones) (\<lambda>(kept, drops).
     and_then (all_of item_id kept) (\<lambda>surviving.
     and_then (all_of (prune_deps surviving) kept) (\<lambda>pruned. Inr (pruned, drops))))"

section \<open>The ladder\<close>

definition RUNGS_MAX :: nat where
  "RUNGS_MAX = 6"

definition QUESTIONS_MAX :: nat where
  "QUESTIONS_MAX = 60"

definition LADDER_TAG :: string where
  "LADDER_TAG = ''reference:milestone''"

record ladder_row =
  lr_milestone :: string
  lr_rung :: int
  lr_tag :: string
  lr_text :: string
  lr_unearned :: string

definition ladder_row_of :: "string list option \<Rightarrow> json \<Rightarrow> ladder_row option" where
  "ladder_row_of known v = (case v of
     JObj d \<Rightarrow>
       let text = strip (py_str (jor (dget ''text'' d) (JStr ''''))); mid = strip (py_str (jor (dget ''milestone'' d) (JStr '''')))
       in if text = [] \<or> mid = [] \<or> (case known of None \<Rightarrow> False | Some ids \<Rightarrow> mid \<notin> set ids) then None
       else Some \<lparr>lr_milestone = mid,
         lr_rung = (case dget ''rung'' d of JInt i \<Rightarrow> i | JBool b \<Rightarrow> if b then 1 else 0 | _ \<Rightarrow> 0),
         lr_tag = LADDER_TAG, lr_text = text,
         lr_unearned = strip (py_str (jor (dget ''unearned'' d) (JStr '''')))\<rparr>
   | _ \<Rightarrow> None)"

definition ladder_of :: "ladder_row list \<Rightarrow> string \<Rightarrow> ladder_row list" where
  "ladder_of rows mid = map (\<lambda>(height, row). row\<lparr>lr_rung := int height\<rparr>)
     (enumerate 1 (sort_key lr_rung (take RUNGS_MAX (filter (\<lambda>r. lr_milestone r = mid) rows))))"

text \<open>The first occurrences of a list, in order: \<open>dict.fromkeys\<close>.\<close>

definition first_of_each :: "'a list \<Rightarrow> 'a list" where
  "first_of_each xs = rev (remdups (rev xs))"

text \<open>From the JSON value that is read from the reply.\<close>

definition parse_ladder :: "json \<Rightarrow> string list option \<Rightarrow> py_error + ladder_row list" where
  "parse_ladder payload known =
     (let read = (\<lambda>questions. and_then (items_of questions) (\<lambda>items.
        let rows = List.map_filter (ladder_row_of known) items in
        Inr (take QUESTIONS_MAX (concat (map (ladder_of rows) (first_of_each (map lr_milestone rows)))))))
      in case payload of JList vs \<Rightarrow> read (JList vs) | JObj d \<Rightarrow> read (dget ''questions'' d) | _ \<Rightarrow> Inr [])"

section \<open>What is kept\<close>

lemma locate_admissible:
  assumes "locate body run source allowed hay = Some (r, kind)"
  shows "kind \<in> set allowed \<and> str_contains body (hay_at hay r kind)"
proof -
  from assms obtain xs where xs: "find (\<lambda>(other, kind). str_contains body (hay_at hay other kind)) xs = Some (r, kind)"
    and "xs = concat (map (\<lambda>other. map (Pair other) (if source \<in> set allowed then source # filter (\<lambda>s. s \<noteq> source) allowed else allowed))
      (run # filter (\<lambda>r. r \<noteq> run) (sort (map fst hay))))"
    by (simp add: locate_def Let_def)
  moreover from xs have "(r, kind) \<in> set xs" "str_contains body (hay_at hay r kind)"
    by (auto simp: find_Some_iff in_set_conv_nth)
  ultimately show ?thesis by (auto split: if_splits)
qed

text \<open>An entry whose quoted span occurs, normalised, in a block of a kind its category admits.\<close>

definition grounded :: "(string \<Rightarrow> string) \<Rightarrow> (int \<times> haystack) list \<Rightarrow> string list \<Rightarrow> int \<Rightarrow> jdict \<Rightarrow> bool" where
  "grounded nfkc hay allowed r d \<longleftrightarrow> dget ''run'' d = JInt r \<and>
     (\<exists>kind \<in> set allowed. dget ''source'' d = JStr kind \<and> normalise_span nfkc (or_blank d ''span'') \<noteq> [] \<and>
        str_contains (normalise_span nfkc (or_blank d ''span'')) (hay_at hay r kind))"

definition evidence_ok :: "(string \<Rightarrow> string) \<Rightarrow> (int \<times> haystack) list \<Rightarrow> string list \<Rightarrow> evidence_state \<Rightarrow> bool" where
  "evidence_ok nfkc hay allowed st \<longleftrightarrow> distinct (ev_runs st) \<and>
     list_all2 (grounded nfkc hay allowed) (ev_runs st) (ev_kept st)"

lemma check_entry_ok:
  assumes "check_entry nfkc task_hay hay m category allowed e st = Inr st'" and "evidence_ok nfkc hay allowed st"
  shows "evidence_ok nfkc hay allowed st'"
proof -
  from assms(1) obtain d run where "as_jdict e = Inr d"
    and run: "(let sp = normalise_span nfkc (or_blank d ''span''); source = or_blank d ''source'';
       dropped = (\<lambda>reason. Inr (st\<lparr>ev_drops := ev_drops st @ [drop_as m reason]\<rparr>))
     in if sp = [] then dropped ''empty_span''
     else if category \<in> set SPAN_FROM_TASK_CHECKED \<and> str_contains sp task_hay then dropped ''span_from_task''
     else case locate sp run source allowed hay of
       None \<Rightarrow> dropped (if locate sp run source EVIDENCE_SOURCES hay \<noteq> None
         then ''span_inadmissible_for_'' @ category else ''span_not_in_corpus'')
     | Some (found_run, found_source) \<Rightarrow>
         if found_run \<in> set (ev_runs st) then Inr st
         else Inr (st\<lparr>ev_runs := ev_runs st @ [found_run],
           ev_kept := ev_kept st @ [dict_put ''source'' (JStr found_source) (dict_put ''run'' (JInt found_run) d)]\<rparr>)) = (Inr st' :: py_error + evidence_state)"
    unfolding check_entry_def and_then_Inr by blast
  have same: "evidence_ok nfkc hay allowed (st\<lparr>ev_drops := ds\<rparr>)" for ds
    using assms(2) by (simp add: evidence_ok_def)
  show ?thesis
  proof (cases "st' = st \<or> (\<exists>ds. st' = st\<lparr>ev_drops := ds\<rparr>)")
    case True
    then show ?thesis using assms(2) same by auto
  next
    case False
    then obtain r k where found: "locate (normalise_span nfkc (or_blank d ''span'')) run (or_blank d ''source'') allowed hay = Some (r, k)"
      and new: "r \<notin> set (ev_runs st)" "normalise_span nfkc (or_blank d ''span'') \<noteq> []"
      and st': "st' = st\<lparr>ev_runs := ev_runs st @ [r],
           ev_kept := ev_kept st @ [dict_put ''source'' (JStr k) (dict_put ''run'' (JInt r) d)]\<rparr>"
      using run unfolding Let_def by (auto split: if_splits option.splits)
    have "grounded nfkc hay allowed r (dict_put ''source'' (JStr k) (dict_put ''run'' (JInt r) d))"
      using locate_admissible [OF found] new(2) by (simp add: grounded_def dget_put or_blank_def map_of_dict_put)
    then show ?thesis using assms(2) new(1) by (simp add: st' evidence_ok_def list_all2_appendI)
  qed
qed

lemma check_entries_ok:
  "check_entries nfkc task_hay hay m category allowed es st = Inr st' \<Longrightarrow> evidence_ok nfkc hay allowed st \<Longrightarrow>
     evidence_ok nfkc hay allowed st'"
  by (induction es arbitrary: st) (auto dest: check_entry_ok)

definition well_grounded :: "(string \<Rightarrow> string) \<Rightarrow> (int \<times> haystack) list \<Rightarrow> jdict \<Rightarrow> bool" where
  "well_grounded nfkc hay m \<longleftrightarrow> (\<exists>allowed runs ds.
     map_of SOURCES_BY_CATEGORY (py_str (dget ''category'' m)) = Some allowed \<and>
     (truthy (dget ''necessary'' m) \<or> py_str (dget ''category'' m) = ''verification'') \<and>
     dget ''evidence'' m = JList (map JObj ds) \<and> ds \<noteq> [] \<and> distinct runs \<and>
     dget ''consensus'' m = JList (map JInt (sort runs)) \<and> list_all2 (grounded nfkc hay allowed) runs ds)"

lemma check_milestone_grounded:
  assumes "check_milestone nfkc task_hay hay m0 = Inr (Some m, ds)"
  shows "well_grounded nfkc hay m"
proof -
  let ?category = "py_str (dget ''category'' m0)"
  let ?m = "if truthy (dget ''in_prefix'' m0)
    then dict_put ''prefix_claim_unsupported'' (JBool True) (dict_put ''in_prefix'' (JBool False) m0) else m0"
  from assms obtain allowed es st where cat: "map_of SOURCES_BY_CATEGORY ?category = Some allowed"
    and nec: "truthy (dget ''necessary'' m0) \<or> ?category = ''verification''"
    and es: "check_entries nfkc task_hay hay ?m ?category allowed es \<lparr>ev_runs = [], ev_kept = [], ev_drops = []\<rparr> = Inr st"
    and some: "ev_kept st \<noteq> []"
    and m: "m = dict_put ''consensus'' (JList (map JInt (sort (ev_runs st)))) (dict_put ''evidence'' (JList (map JObj (ev_kept st))) ?m)"
    unfolding check_milestone_def Let_def NEVER_OPTIONAL_def
    by (auto split: if_splits option.splits)
  have "evidence_ok nfkc hay allowed st" by (rule check_entries_ok [OF es]) (simp add: evidence_ok_def)
  moreover have "dget ''category'' m = dget ''category'' m0" "dget ''necessary'' m = dget ''necessary'' m0"
    "dget ''consensus'' m = JList (map JInt (sort (ev_runs st)))" "dget ''evidence'' m = JList (map JObj (ev_kept st))"
    by (simp_all add: m dget_put)
  ultimately show ?thesis using cat nec some unfolding well_grounded_def evidence_ok_def by metis
qed

lemma check_milestones_grounded:
  "check_milestones nfkc task_hay hay ms = Inr (kept, ds) \<Longrightarrow> m \<in> set kept \<Longrightarrow> well_grounded nfkc hay m"
proof (induction ms arbitrary: kept ds)
  case (Cons x ms)
  show ?case
  proof (cases x)
    case (JObj d)
    then obtain k ds1 ks ds2 where k: "check_milestone nfkc task_hay hay d = Inr (k, ds1)"
      and ks: "check_milestones nfkc task_hay hay ms = Inr (ks, ds2)" and kept: "kept = (case k of None \<Rightarrow> ks | Some y \<Rightarrow> y # ks)"
      using Cons.prems(1) by (auto split: prod.splits)
    show ?thesis
    proof (cases "k = Some m")
      case True
      then show ?thesis using k check_milestone_grounded by blast
    next
      case False
      then have "m \<in> set ks" using Cons.prems(2) kept by (auto split: option.splits)
      then show ?thesis by (rule Cons.IH [OF ks])
    qed
  qed (use Cons in auto)
qed simp

lemma prune_deps_known:
  assumes "prune_deps surviving m = Inr m'"
  shows "(\<exists>ids. dget ''depends_on'' m' = JList (map JStr ids) \<and> set ids \<subseteq> set surviving) \<and>
    (\<forall>k. k \<noteq> ''depends_on'' \<longrightarrow> map_of m' k = map_of m k)"
proof -
  from assms obtain deps bds where all: "all_of (\<lambda>d. and_then (survives surviving d) (\<lambda>b. Inr (b, d))) deps = Inr bds"
    and m': "m' = dict_put ''depends_on'' (JList (map snd (filter fst bds))) m" by (auto simp: prune_deps_def)
  have each: "\<exists>s \<in> set surviving. d = JStr s" if "(True, d) \<in> set bds" for d
  proof -
    from that obtain i where "i < length bds" "bds ! i = (True, d)" by (metis in_set_conv_nth)
    with all_of_Inr [OF all] have "survives surviving d = Inr True" by auto
    then show ?thesis by (auto simp: survives_def split: json.splits)
  qed
  have "\<exists>ids. map snd (filter fst bds) = map JStr ids \<and> set ids \<subseteq> set surviving"
    using each
  proof (induction bds)
    case (Cons x bds)
    then obtain ids where ids: "map snd (filter fst bds) = map JStr ids" "set ids \<subseteq> set surviving" by auto
    show ?case
    proof (cases "fst x")
      case True
      then obtain s where "s \<in> set surviving" "snd x = JStr s" using Cons.prems [of "snd x"] by (cases x) auto
      with ids True show ?thesis by (intro exI [of _ "s # ids"]) simp
    qed (use ids in auto)
  qed simp
  then show ?thesis by (auto simp: m' dget_put map_of_dict_put)
qed

text \<open>
  C32. Every milestone that survives validation is licensed and grounded: its category is one of the
  four and it is necessary or a verification; it has evidence from each run of its consensus and one
  entry for each; each entry quotes a span that occurs, normalised, in that run in a block of a kind
  the category admits; and it depends only on milestones that survive too.
\<close>

theorem validated_milestones_grounded:
  assumes "validate_vector nfkc milestones trajectories task = Inr (kept, drops)" and "m \<in> set kept"
  shows "(\<exists>allowed runs ds.
     map_of SOURCES_BY_CATEGORY (py_str (dget ''category'' m)) = Some allowed \<and>
     (truthy (dget ''necessary'' m) \<or> py_str (dget ''category'' m) = ''verification'') \<and>
     dget ''evidence'' m = JList (map JObj ds) \<and> ds \<noteq> [] \<and> distinct runs \<and>
     dget ''consensus'' m = JList (map JInt (sort runs)) \<and>
     list_all2 (grounded nfkc (hay_of nfkc trajectories) allowed) runs ds) \<and>
   (\<exists>ids. dget ''depends_on'' m = JList (map JStr ids) \<and> set ids \<subseteq> (\<lambda>k. py_str (dget ''id'' k)) ` set kept)"
proof -
  from assms(1) obtain pre surviving where pre: "check_milestones nfkc (normalise_span nfkc task) (hay_of nfkc trajectories) milestones = Inr (pre, drops)"
    and ids: "all_of item_id pre = Inr surviving" and pruned: "all_of (prune_deps surviving) pre = Inr kept"
    by (auto simp: validate_vector_def split: prod.splits)
  have other: "dget k (kept ! i) = dget k (pre ! i)" if "i < length pre" "k \<noteq> ''depends_on''" for i k
    using all_of_Inr [OF pruned] prune_deps_known that by (auto simp: dget_def)
  have surviving: "set surviving \<subseteq> (\<lambda>k. py_str (dget ''id'' k)) ` set kept"
  proof
    fix s assume "s \<in> set surviving"
    then obtain i where "i < length surviving" "s = surviving ! i" by (metis in_set_conv_nth)
    with all_of_Inr [OF ids] have i: "i < length pre" "item_id (pre ! i) = Inr s" by auto
    then have "s = py_str (dget ''id'' (pre ! i))" by (auto simp: item_id_def dget_def split: option.splits)
    also have "\<dots> = py_str (dget ''id'' (kept ! i))" using other i(1) by simp
    finally show "s \<in> (\<lambda>k. py_str (dget ''id'' k)) ` set kept" using i(1) all_of_Inr [OF pruned] by auto
  qed
  obtain i where i: "i < length kept" "m = kept ! i" using assms(2) by (metis in_set_conv_nth)
  then have len: "i < length pre" and prune: "prune_deps surviving (pre ! i) = Inr m" using all_of_Inr [OF pruned] by auto
  have "well_grounded nfkc (hay_of nfkc trajectories) (pre ! i)" using check_milestones_grounded [OF pre] len by simp
  then have "well_grounded nfkc (hay_of nfkc trajectories) m"
    unfolding well_grounded_def using other [OF len] i(2) by simp
  moreover obtain ds where "dget ''depends_on'' m = JList (map JStr ds)" "set ds \<subseteq> set surviving"
    using prune_deps_known [OF prune] by blast
  ultimately show ?thesis using surviving unfolding well_grounded_def by blast
qed

section \<open>Ladders\<close>

lemma ladder_of_rungs: "map lr_rung (ladder_of rows mid) = map int [1..<Suc (length (ladder_of rows mid))]"
  by (rule nth_equalityI) (auto simp: ladder_of_def nth_enumerate_eq simp del: upt_Suc)

lemma ladder_of_milestone:
  assumes "r \<in> set (ladder_of rows mid)"
  shows "lr_milestone r = mid"
proof -
  from assms obtain row h where "row \<in> set (sort_key lr_rung (take RUNGS_MAX (filter (\<lambda>r. lr_milestone r = mid) rows)))"
    "r = row\<lparr>lr_rung := int h\<rparr>" by (auto simp: ladder_of_def enumerate_eq_zip dest: set_zip_rightD)
  then show ?thesis by (auto dest: in_set_takeD)
qed

lemma filter_concat_ladders:
  "distinct mids \<Longrightarrow> filter (\<lambda>r. lr_milestone r = mid) (concat (map (ladder_of rows) mids)) =
     (if mid \<in> set mids then ladder_of rows mid else [])"
proof (induction mids)
  case (Cons m mids)
  have "filter (\<lambda>r. lr_milestone r = mid) (ladder_of rows m) = (if m = mid then ladder_of rows m else [])"
    by (auto simp: filter_empty_conv filter_id_conv dest: ladder_of_milestone)
  with Cons show ?case by auto
qed simp

text \<open>
  A reply's questions come back as at most sixty rungs: every milestone has at most six, numbered
  from 1 without gaps in their order, whatever numbers the model gave them.
\<close>

theorem ladder_rungs_contiguous:
  assumes "parse_ladder payload known = Inr rows"
  shows "length rows \<le> 60 \<and>
    (let ladder = filter (\<lambda>r. lr_milestone r = mid) rows in
      length ladder \<le> 6 \<and> map lr_rung ladder = map int [1..<Suc (length ladder)])"
proof -
  have "distinct (first_of_each xs)" for xs :: "string list" by (simp add: first_of_each_def)
  with assms have "rows = [] \<or> (\<exists>read mids. distinct mids \<and> rows = take QUESTIONS_MAX (concat (map (ladder_of read) mids)))"
    unfolding parse_ladder_def Let_def by (cases payload) (simp_all, blast+)
  then consider "rows = []" | read mids where "distinct mids" "rows = take QUESTIONS_MAX (concat (map (ladder_of read) mids))"
    by blast
  then show ?thesis
  proof cases
    case 2
    let ?all = "concat (map (ladder_of read) mids)"
    let ?mine = "filter (\<lambda>r. lr_milestone r = mid)"
    have "?mine ?all = ?mine rows @ ?mine (drop QUESTIONS_MAX ?all)"
      unfolding 2 by (metis append_take_drop_id filter_append)
    then obtain rest where whole: "(if mid \<in> set mids then ladder_of read mid else []) = ?mine rows @ rest"
      using filter_concat_ladders [OF 2(1)] by metis
    show ?thesis
    proof (cases "mid \<in> set mids")
      case True
      then have split: "ladder_of read mid = ?mine rows @ rest" using whole by simp
      have "length (ladder_of read mid) \<le> 6" by (simp add: ladder_of_def RUNGS_MAX_def)
      moreover have "map lr_rung (?mine rows) = take (length (?mine rows)) (map lr_rung (ladder_of read mid))"
        by (simp add: split)
      then have "map lr_rung (?mine rows) = map int [1..<Suc (length (?mine rows))]"
        
        unfolding ladder_of_rungs by (simp only: take_map take_upt split length_append) (simp add: take_map take_upt del: upt_Suc)
      moreover have "length (?mine rows) \<le> length (ladder_of read mid)" by (simp add: split)
      moreover have "length rows \<le> 60" using 2(2) by (simp add: QUESTIONS_MAX_def)
      ultimately show ?thesis unfolding Let_def by linarith
    next
      case False
      then show ?thesis using whole 2(2) by (simp add: QUESTIONS_MAX_def)
    qed
  qed simp
qed

end
