(* ===== verification/ScoreWitnesses.thy ===== *)
theory ScoreWitnesses
  imports Sampling Scoring Milestones
begin

text \<open>Concrete pools, verdicts and readings, and each property of the scoring applied to one of them.\<close>

theorem apportion_adds_up_witness:
  "\<exists>d. apportion STEP_TRIM 100 = Inr d \<and> sum_list (map snd d) = 100"
proof -
  have spec: "distinct (map fst STEP_TRIM)" "\<forall>(k, v) \<in> set STEP_TRIM. 0 \<le> v" "0 < sum_list (map snd STEP_TRIM)"
    "(0 :: int) \<le> 100" "100 * sum_list (map snd STEP_TRIM) < 2 ^ 52"
    by (simp_all add: STEP_TRIM_def)
  from apportion_adds_up [OF spec] show ?thesis by blast
qed

definition first_rng :: "unit rng" where
  "first_rng = \<lparr>rn_pick = (\<lambda>r n. (0, r)), rn_perm = (\<lambda>r n. ([0..<n], r))\<rparr>"

definition pool_row :: json where
  "pool_row = JObj [(''iid'', JStr ''org.a''), (''asst'', JInt 9), (''family'', JStr ''pr'')]"

definition draw_manifest :: json where
  "draw_manifest = JObj [(''sources'', JList [JObj [(''name'', JStr ''s''), (''shards'', JList [JObj
     [(''name'', JStr ''data/train-0.parquet''), (''rows'', JInt 2), (''rows_meta'', JList
        [JObj [(''iid'', JStr ''org.b''), (''blocked'', JBool True)], pool_row])]])]])]"

definition pool_sources :: "source list" where
  "pool_sources = [\<lparr>so_name = ''s'', so_shards = [\<lparr>sh_name = ''data/train-0.parquet'', sh_rows = 2,
     sh_meta = [JObj [(''iid'', JStr ''org.b''), (''blocked'', JBool True)], pool_row]\<rparr>]\<rparr>]"

definition pool_entry :: entry where
  "pool_entry = \<lparr>en_asst = 9, en_first_edit = 0, en_family = ''pr'', en_repo = ''org'',
     en_language = ''python'', en_chars_at = 0, en_chars_pre = 0, en_shard = ''data/train-0.parquet'', en_row = 1,
     en_used = False\<rparr>"

lemma draw_parts:
  "normalized_sources draw_manifest = Inr pool_sources"
  "instance_pool first_rng pool_sources () = Inr ([pool_entry], ())"
  "sample_id pool_entry 1 = ''data/train-0.parquet:1:1''"
  by code_simp+

lemma frac_part_unit: "0 \<le> x \<Longrightarrow> x < 1 \<Longrightarrow> frac_part x = fl x"
  by (simp add: frac_part_def floor_unique [of 0])

lemma draw_grid: "family_grid 1 [(''cold'', 1)] =
    Inr [(''cold'', [(''pr'', 1), (''lm'', 0), (''combine'', 0), (''mechanical'', 0)])]"
proof -
  have fl: "fl (1 / 2) = 1 / 2" "fl (1 / 4) = 1 / 4"
    using fl_nearest [of "1 / 2" 53 4503599627370496] fl_nearest [of "1 / 4" 54 4503599627370496] by simp_all
  have fl2: "fl (3 / 20) = 5404319552844595 / 36028797018963968" "fl (1 / 10) = 3602879701896397 / 36028797018963968"
    using fl_nearest [of "3 / 20" 55 5404319552844595] fl_nearest [of "1 / 10" 56 7205759403792794] by simp_all
  have fl': "fl (5404319552844595 / 36028797018963968) = 5404319552844595 / 36028797018963968"
    "fl (3602879701896397 / 36028797018963968) = 3602879701896397 / 36028797018963968"
    using fl_nearest [of "5404319552844595 / 36028797018963968" 55 5404319552844595]
      fl_nearest [of "3602879701896397 / 36028797018963968" 56 7205759403792794] by simp_all
  have phases: "apportion [(''cold'', 1)] 1 = Inr [(''cold'', 1)]"
    by (simp add: apportion_def exact_shares_def slice_to_def dict_of_def)
  have shares: "exact_shares FAMILY_MIX 1 = [(''pr'', 1 / 2), (''lm'', 5404319552844595 / 36028797018963968),
      (''combine'', 3602879701896397 / 36028797018963968), (''mechanical'', 1 / 4)]"
    by (simp add: exact_shares_def FAMILY_MIX_def fl fl2)
  have frac: "frac_part (1 / 2) = 1 / 2" "frac_part (1 / 4) = 1 / 4"
    "frac_part (5404319552844595 / 36028797018963968) = 5404319552844595 / 36028797018963968"
    "frac_part (3602879701896397 / 36028797018963968) = 3602879701896397 / 36028797018963968"
    by (subst frac_part_unit; simp only: fl fl'; simp)+
  have order: "sort_key (\<lambda>(i, name, value). (- frac_part value, i)) (enumerate 0 (exact_shares FAMILY_MIX 1)) =
      [(0, ''pr'', 1 / 2), (3, ''mechanical'', 1 / 4), (1, ''lm'', 5404319552844595 / 36028797018963968),
       (2, ''combine'', 3602879701896397 / 36028797018963968)]"
    unfolding shares by (simp add: frac del: divide_minus_left) 
  have floors: "\<lfloor>1 / 2 :: rat\<rfloor> = 0" "\<lfloor>1 / 4 :: rat\<rfloor> = 0" "\<lfloor>5404319552844595 / 36028797018963968 :: rat\<rfloor> = 0"
    "\<lfloor>3602879701896397 / 36028797018963968 :: rat\<rfloor> = 0"
    by (simp_all add: floor_eq_iff)
  have target: "apportion FAMILY_MIX 1 = Inr [(''pr'', 1), (''lm'', 0), (''combine'', 0), (''mechanical'', 0)]"
    unfolding apportion_def Let_def order unfolding shares by (simp add: FAMILY_MIX_def dict_of_def bump_def slice_to_def floors)
  show ?thesis
    by (simp add: family_grid_def phases target) (simp add: FAMILY_MIX_def amount_def)
qed

lemma draw_fill: "fill first_rng [(''cold'', ''pr'', 1), (''cold'', ''lm'', 0), (''cold'', ''combine'', 0), (''cold'', ''mechanical'', 0)]
    [pool_entry] \<lparr>sp_rng = (), sp_repos = (\<lambda>_. 0), sp_budget = b, sp_taken = 0, sp_selected = []\<rparr> =
    Inr [sample_id pool_entry 1]"
  by (simp add: skipped_def turn_idx_def rng_choice_def first_rng_def take_entry_def REPO_CAP_def MAX_PREFIX_CHARS_def
      prefix_chars_def BENCHMARK_LANGUAGE_def pool_entry_def)

lemma draw_run: "multi_source_manifest_sample_ids first_rng (\<lambda>_. ()) draw_manifest ''0xab'' 1 [(''cold'', 1)] =
    Inr [''data/train-0.parquet:1:1'']"
proof -
  have first: "(case draw_manifest of JObj kvs \<Rightarrow> map_of kvs ''sources'' \<noteq> None | _ \<Rightarrow> False) = True"
    by (simp add: draw_manifest_def)
  have some: "(pool_sources = []) = False" by (simp add: pool_sources_def)
  have strata: "strata_of [(''cold'', [(''pr'', 1), (''lm'', 0), (''combine'', 0), (''mechanical'', 0)])] =
      [(''cold'', ''pr'', 1), (''cold'', ''lm'', 0), (''cold'', ''combine'', 0), (''cold'', ''mechanical'', 0)]"
    by (simp add: strata_of_def)
  show ?thesis
    unfolding multi_source_manifest_sample_ids_def
    apply (simp only: first if_True ensure_def and_then.simps)
    apply (simp only: draw_parts(1) list.distinct not_False_eq_True zero_less_one if_True and_then.simps some if_False)
    apply (simp only: draw_parts(2) and_then.simps prod.case)
    apply (simp only: list.distinct if_False draw_grid and_then.simps strata)
    apply (simp only: draw_fill draw_parts(3))
    done
qed

theorem samples_respect_quotas_witness:
  "\<exists>grid (picks :: pick list). family_grid 1 [(''cold'', 1)] = Inr grid \<and>
    [''data/train-0.parquet:1:1''] = map (\<lambda>(p, f, i, e, t). sample_id e t) picks \<and>
    map (\<lambda>(p, f, i, e, t). (p, f)) picks =
      concat (map (\<lambda>(p, f, want). replicate (nat want) (p, f)) (strata_of grid))"
  using samples_respect_quotas [OF draw_run]
proof (elim exE conjE disjE)
  assume "[''data/train-0.parquet:1:1''] = []"
  then show ?thesis by simp
next
  fix grid :: "(string \<times> (string \<times> int) list) list" and picks :: "pick list"
  assume "family_grid 1 (if [(''cold'', 1)] = [] then STEP_TRIM else [(''cold'', 1)]) = Inr grid"
    and *: "[''data/train-0.parquet:1:1''] = map (\<lambda>(p, f, i, e, t). sample_id e t) picks"
      "map (\<lambda>(p, f, i, e, t). (p, f)) picks =
        concat (map (\<lambda>(p, f, want). replicate (nat want) (p, f)) (strata_of grid))"
  then have "family_grid 1 [(''cold'', 1)] = Inr grid" by simp
  with * show ?thesis by (intro exI [of _ grid] exI [of _ picks] conjI)
qed

definition clear_win :: "sample_record list" where
  "clear_win = [\<lparr>sr_scored = True, sr_challenger = 1, sr_king = 0, sr_judges = []\<rparr>]"

lemma clear_win_total: "su_total (aggregate_scores clear_win MIN_VALID_FRACTION None) = 1"
  "su_valid (aggregate_scores clear_win MIN_VALID_FRACTION None) = 1" "unit_scores clear_win"
  by (simp_all add: aggregate_scores_def Let_def clear_win_def unit_scores_def)

lemma clear_win_means: "mean_of sr_challenger clear_win = 1" "mean_of sr_king clear_win = 0"
  by (simp_all add: mean_of_def clear_win_def fmean_def)

theorem verdict_needs_quorum_witness:
  "su_state (aggregate_scores clear_win MIN_VALID_FRACTION None) = ''succeeded''"
  using verdict_needs_quorum [of clear_win None] by (simp add: clear_win_total Let_def)

theorem verdict_is_decimal_witness:
  "\<exists>won. su_won (aggregate_scores clear_win MIN_VALID_FRACTION None) = Some won \<and> won"
proof -
  obtain won where won: "su_won (aggregate_scores clear_win MIN_VALID_FRACTION None) = Some won"
    using aggregate_cases(2) [of clear_win None] by (auto simp: clear_win_total quorum_def)
  have "micros 1 = 1000000" "micros 0 = 0" using round_even_int [of 1000000] round_even_int [of 0] by (simp_all add: micros_def)
  with verdict_is_decimal [OF _ clear_win_total(3) won] have won by (simp add: clear_win_total clear_win_means)
  with won show ?thesis by blast
qed

theorem response_score_unit_witness:
  "case response_score [(''judge'', [(''m1-1'', Some 1), (''m1-2'', None)])] [\<lparr>qu_id = ''m1-1'', qu_tag = ''reference:action''\<rparr>] of
     None \<Rightarrow> False | Some r \<Rightarrow> 0 \<le> r \<and> r \<le> 1"
  using response_score_unit [of "[(''judge'', [(''m1-1'', Some 1), (''m1-2'', None)])]"
    "[\<lparr>qu_id = ''m1-1'', qu_tag = ''reference:action''\<rparr>]"]
  by (simp add: given_def map_filter_def split: option.splits)

theorem majority_is_first_plurality_witness:
  "map_of (majority_answers [[(''q'', Some ''A'')], [(''q'', Some ''B'')], [(''q'', Some ''B'')]]) ''q'' = Some (Some ''B'')"
proof -
  have "verdict_letter ''A''" "verdict_letter ''B''" by (simp_all add: verdict_letter_iff LETTERS_def)
  then have votes: "votes [[(''q'', Some ''A'')], [(''q'', Some ''B'')], [(''q'', Some ''B'')]] ''q'' = [Some ''A'', Some ''B'', Some ''B'']"
    by (simp add: votes_def valid_vote_def)
  from majority_is_first_plurality [of "[[(''q'', Some ''A'')], [(''q'', Some ''B'')], [(''q'', Some ''B'')]]" "[(''q'', Some ''A'')]"
    "[[(''q'', Some ''B'')], [(''q'', Some ''B'')]]" "''q''" "Some ''A''"]
  show ?thesis by (auto simp: votes Let_def less_Suc_eq)
qed

definition one_milestone :: "string \<Rightarrow> int \<Rightarrow> jdict" where
  "one_milestone text run = [(''id'', JStr ''m1''), (''category'', JStr ''claims''), (''statement'', JStr text), (''necessary'', JBool True),
     (''evidence'', JList [JObj [(''run'', JInt run), (''source'', JStr ''output''), (''span'', JStr ''ok'')]]),
     (''consensus'', JList [JInt run]), (''depends_on'', JList [JStr ''m1''])]"

definition two_readings :: "jdict list list" where
  "two_readings = [[one_milestone ''The size omits a field.'' 1], [one_milestone ''A field is missing.'' 2]]"

text \<open>An answer that names the first statement, twice, and one that is not there.\<close>

lemma one_named: "parse_clusters (JObj [(''clusters'', JList [JObj [(''members'', JList [JStr ''A1'', JStr '' a1'', JStr ''C1''])]])]) two_readings =
  Inr (Some [[(0, 0)], [(1, 0)]])"
  by code_simp

theorem alignment_is_partition_witness:
  "distinct (concat (exact_groups id two_readings)) \<and> (1, 0) \<in> set (concat (exact_groups id two_readings)) \<and>
   set (concat [[(0, 0)], [(1, 0)]]) = {(r, i). r < length two_readings \<and> i < length (two_readings ! r)}"
  using alignment_is_partition [OF disjI1 [OF refl], of id two_readings] alignment_is_partition [OF disjI2 [OF one_named]]
  by (simp add: two_readings_def)

lemma two_merged: "\<exists>merged. merge_vectors two_readings [[(0, 0), (1, 0)]] = Inr merged"
  by (simp add: merge_vectors_def merge_one_def representative_def counted_def items_of_def milestone_at_def
      two_readings_def one_milestone_def dget_def best_of_def jor_def)

theorem merge_keeps_evidence_witness:
  "\<exists>m. merge_vectors two_readings [[(0, 0), (1, 0)]] = Inr [m] \<and> dget ''id'' m = JStr (''m'' @ show_nat 1)"
proof -
  obtain merged where merged: "merge_vectors two_readings [[(0, 0), (1, 0)]] = Inr merged" using two_merged by blast
  from merge_keeps_evidence [OF merged] obtain kept where kept: "mset kept = mset [[(0 :: nat, 0 :: nat), (1, 0)]]"
    "list_all2 (\<lambda>(n, cluster) m. dget ''id'' m = JStr (''m'' @ show_nat (n + 1))) (enumerate 0 kept) merged"
    by (elim exE conjE) (rule that, assumption, erule list_all2_mono, simp add: case_prod_beta)
  from kept(1) have "kept = [[(0, 0), (1, 0)]]" by simp
  with kept(2) merged show ?thesis by (auto simp: list_all2_Cons1)
qed

definition one_run :: "trajectory list" where
  "one_run = [\<lparr>tj_run = None, tj_steps = [\<lparr>st_assistant = None, st_observation = Some ''all ok''\<rparr>]\<rparr>]"

lemma one_validated: "\<exists>m ds. validate_vector id [JObj (one_milestone ''The size omits a field.'' 1)] one_run ''task'' = Inr ([m], ds)"
proof -
  have "case validate_vector id [JObj (one_milestone ''The size omits a field.'' 1)] one_run ''task'' of Inr ([m], ds) \<Rightarrow> True | _ \<Rightarrow> False"
    by code_simp
  then show ?thesis by (auto split: sum.splits prod.splits list.splits)
qed

theorem validated_milestones_grounded_witness:
  "\<exists>m ds. validate_vector id [JObj (one_milestone ''The size omits a field.'' 1)] one_run ''task'' = Inr ([m], ds) \<and>
     (\<exists>allowed. map_of SOURCES_BY_CATEGORY (py_str (dget ''category'' m)) = Some allowed)"
proof -
  obtain m ds where m: "validate_vector id [JObj (one_milestone ''The size omits a field.'' 1)] one_run ''task'' = Inr ([m], ds)"
    using one_validated by blast
  from validated_milestones_grounded [OF m, of m] m show ?thesis by auto
qed

definition ladder_reply :: json where
  "ladder_reply = JList [JObj [(''milestone'', JStr ''m1''), (''rung'', JInt 7), (''text'', JStr ''Did it?'')]]"

theorem ladder_rungs_contiguous_witness:
  "\<exists>rows. parse_ladder ladder_reply None = Inr rows \<and> length rows \<le> 60"
proof -
  have "parse_ladder ladder_reply None \<noteq> Inl e" for e
    by (simp add: parse_ladder_def ladder_reply_def items_of_def Let_def)
  then obtain rows where rows: "parse_ladder ladder_reply None = Inr rows" by (cases "parse_ladder ladder_reply None") auto
  from ladder_rungs_contiguous [OF rows] rows show ?thesis by (simp add: Let_def)
qed

end
