(* ===== verification/Overlay.thy ===== *)
theory Overlay
  imports Prelude "HOL-Library.Sublist"
begin

text \<open>
  The simulated checkout: the class Overlay of src/src/repo_context_service/overlay.py, and the paths
  of command_search.py. The base listing and what reads a file of it come from outside. Of the fields
  those the file operations do not use (git, columns, layouts, editor) are left out. A text counts as
  long by its bytes.
\<close>

section \<open>Paths\<close>

fun join_on :: "char \<Rightarrow> string list \<Rightarrow> string" where
  "join_on c [] = []"
| "join_on c [w] = w"
| "join_on c (w # v # ws) = w @ [c] @ join_on c (v # ws)"

text \<open>\<open>rpartition("/")\<close>: what is before the last slash, and after it.\<close>

definition base_name :: "string \<Rightarrow> string" where
  "base_name s = after_last (CHR ''/'') s"

definition parent_of :: "string \<Rightarrow> string" where
  "parent_of s = (if CHR ''/'' \<in> set s then take (length s - length (base_name s) - 1) s else [])"

definition lstrip_slash :: "string \<Rightarrow> string" where
  "lstrip_slash s = dropWhile (\<lambda>c. c = CHR ''/'') s"

definition rstrip_slash :: "string \<Rightarrow> string" where
  "rstrip_slash s = rev (lstrip_slash (rev s))"

text \<open>\<open>posixpath.normpath\<close> of an absolute path.\<close>

fun norm_parts :: "string list \<Rightarrow> string list \<Rightarrow> string list" where
  "norm_parts done [] = done"
| "norm_parts done (p # ps) =
     (if p = [] \<or> p = ''.'' then norm_parts done ps
      else if p = ''..'' then norm_parts (butlast done) ps
      else norm_parts (done @ [p]) ps)"

definition normpath :: "string \<Rightarrow> string" where
  "normpath s = (if starts_with ''//'' s \<and> \<not> starts_with ''///'' s then ''//'' else ''/'') @
     join_on (CHR ''/'') (norm_parts [] (split_on (CHR ''/'') s))"

definition root_char :: "char \<Rightarrow> bool" where
  "root_char c \<longleftrightarrow> word_char c \<or> c = CHR ''.'' \<or> c = CHR ''+'' \<or> c = CHR ''-''"

definition double_underscore :: "string \<Rightarrow> bool" where
  "double_underscore r \<longleftrightarrow> list_ex (\<lambda>i. r ! i = CHR ''_'' \<and> r ! Suc i = CHR ''_'') [1..<length r - 2]"

text \<open>The checkout root a path begins with.\<close>

definition checkout_root :: "string \<Rightarrow> string option" where
  "checkout_root s =
     (if starts_with ''/testbed'' s \<and> (case drop 8 s of [] \<Rightarrow> True | c # _ \<Rightarrow> \<not> root_char c) then Some ''/testbed''
      else if starts_with ''/workspace/'' s then
        (let r = takeWhile root_char (drop 11 s) in if double_underscore r then Some (''/workspace/'' @ r) else None)
      else None)"

fun walk_parts :: "string list \<Rightarrow> string list \<Rightarrow> string list option" where
  "walk_parts parts [] = Some parts"
| "walk_parts parts (seg # segs) =
     (if seg = ''..'' then (if parts = [] then None else walk_parts (butlast parts) segs)
      else if seg = [] \<or> seg = ''.'' then walk_parts parts segs
      else walk_parts (parts @ [seg]) segs)"

definition walk :: "string \<Rightarrow> string \<Rightarrow> string option" where
  "walk cwd target = map_option (join_on (CHR ''/''))
     (walk_parts (if cwd = [] then [] else split_on (CHR ''/'') cwd) (split_on (CHR ''/'') target))"

definition absolute :: "string \<Rightarrow> bool" where
  "absolute s \<longleftrightarrow> starts_with ''/'' s"

definition inside_root :: "string \<Rightarrow> string \<Rightarrow> string option" where
  "inside_root rt target0 = (let target = normpath target0;
       prefix = (if rt \<noteq> [] \<and> (target = rt \<or> starts_with (rt @ ''/'') target) then Some rt else checkout_root target)
     in case prefix of None \<Rightarrow> None | Some p \<Rightarrow> walk [] (drop (length p) target))"

definition repo_path :: "string \<Rightarrow> string option \<Rightarrow> string \<Rightarrow> string option" where
  "repo_path target cwd rt =
     (if absolute target then inside_root rt target
      else case cwd of
        None \<Rightarrow> None
      | Some d \<Rightarrow> if absolute d then inside_root rt (rstrip_slash d @ ''/'' @ target) else walk d target)"

definition session_path :: "string \<Rightarrow> string option \<Rightarrow> string \<Rightarrow> string option" where
  "session_path target cwd rt = (case repo_path target cwd rt of
     Some p \<Rightarrow> Some p
   | None \<Rightarrow> if absolute target then Some (''/'' @ lstrip_slash (normpath target))
       else case cwd of
         None \<Rightarrow> None
       | Some d \<Rightarrow> if absolute d then Some (''/'' @ lstrip_slash (normpath (d @ ''/'' @ target))) else None)"

definition TMP :: string where
  "TMP = ''/tmp''"

text \<open>\<open>q.startswith(p + "/")\<close>, and that or the path itself.\<close>

definition under :: "string \<Rightarrow> string \<Rightarrow> bool" where
  "under p q \<longleftrightarrow> starts_with (p @ ''/'') q"

definition at_or_under :: "string \<Rightarrow> string \<Rightarrow> bool" where
  "at_or_under p q \<longleftrightarrow> q = p \<or> under p q"

section \<open>The overlay\<close>

record overlay =
  ov_base :: "string list"
  ov_read_base :: "string \<Rightarrow> string option"
  ov_root :: string
  ov_content :: "string \<Rightarrow> string option"
  ov_created :: "string set"
  ov_dirty :: "string set"
  ov_deleted :: "string set"
  ov_dirs :: "string set"
  ov_maybe :: "string set"
  ov_unsure :: "string set"
  ov_cwd :: "string option"
  ov_tmp_open :: bool
  ov_pycache :: bool
  ov_errors :: string
  ov_shell :: string

datatype path_kind = FILE | DIRECTORY | UNKNOWN

text \<open>\<open>bisect.bisect_left\<close>.\<close>

function bisect :: "string list \<Rightarrow> string \<Rightarrow> nat \<Rightarrow> nat \<Rightarrow> nat" where
  "bisect xs x lo hi =
     (if lo < hi then (let mid = (lo + hi) div 2 in
        if xs ! mid < x then bisect xs x (Suc mid) hi else bisect xs x lo mid)
      else lo)"
  by pat_completeness auto

termination
  by (relation "measure (\<lambda>(xs, x, lo, hi). hi - lo)") auto

declare bisect.simps [simp del]

definition bisect_left :: "string list \<Rightarrow> string \<Rightarrow> nat" where
  "bisect_left xs x = bisect xs x 0 (length xs)"

definition in_base :: "overlay \<Rightarrow> string \<Rightarrow> bool" where
  "in_base ov path = (let i = bisect_left (ov_base ov) path in i < length (ov_base ov) \<and> ov_base ov ! i = path)"

definition has_file :: "overlay \<Rightarrow> string \<Rightarrow> bool" where
  "has_file ov path \<longleftrightarrow> path \<in> ov_created ov \<or> (path \<notin> ov_deleted ov \<and> in_base ov path)"

definition base_under :: "overlay \<Rightarrow> string \<Rightarrow> string list" where
  "base_under ov directory = (let base = ov_base ov in
     if directory = [] then base
     else (let low = bisect_left base (directory @ ''/'') in
       take (bisect_left base (directory @ ''0'') - low) (drop low base)))"

definition files_under :: "overlay \<Rightarrow> string \<Rightarrow> string list" where
  "files_under ov directory =
     (let held = filter (\<lambda>p. p \<notin> ov_deleted ov) (base_under ov directory);
        extra = sorted_list_of_set {p \<in> ov_created ov. if directory = [] then \<not> absolute p else under directory p}
      in if extra = [] then held else sort (held @ extra))"

definition machine :: "overlay \<Rightarrow> string \<Rightarrow> bool" where
  "machine ov path \<longleftrightarrow> absolute path \<and> (ov_tmp_open ov \<or> \<not> at_or_under TMP path)"

definition unsure_over :: "overlay \<Rightarrow> string \<Rightarrow> bool" where
  "unsure_over ov path \<longleftrightarrow> (\<exists>u \<in> ov_unsure ov. u = [] \<or> at_or_under u path)"

definition maybe_over :: "overlay \<Rightarrow> string \<Rightarrow> bool" where
  "maybe_over ov path \<longleftrightarrow> (\<exists>m \<in> ov_maybe ov. at_or_under m path)"

definition holds :: "overlay \<Rightarrow> string \<Rightarrow> bool" where
  "holds ov directory \<longleftrightarrow>
     list_ex (\<lambda>p. p \<notin> ov_deleted ov)
       (takeWhile (under directory) (drop (bisect_left (ov_base ov) (directory @ ''/'')) (ov_base ov))) \<or>
     (\<exists>p \<in> ov_created ov. under directory p) \<or> (\<exists>d \<in> ov_dirs ov. under directory d)"

definition pycache_in :: "overlay \<Rightarrow> string \<Rightarrow> string option" where
  "pycache_in ov directory = (if \<not> ov_pycache ov then None
     else (let start = (if directory = [] then 0 else Suc (length directory)) in
       map_option (\<lambda>p. take (length p - 3 - start) (drop start p))
         (find (\<lambda>p. drop (length p - 3) p = ''.py'' \<and> CHR ''/'' \<notin> set (drop start p)) (files_under ov directory))))"

definition kind_of :: "overlay \<Rightarrow> string \<Rightarrow> path_kind option" where
  "kind_of ov path =
     (if path = [] \<or> path = TMP then Some DIRECTORY
      else if unsure_over ov path \<or> maybe_over ov path then Some UNKNOWN
      else if has_file ov path then Some FILE
      else if path \<in> ov_dirs ov \<or> holds ov path then Some DIRECTORY
      else if (\<exists>e \<in> ov_maybe ov. under path e) \<or> machine ov path then Some UNKNOWN
      else if base_name path = ''__pycache__'' \<and> pycache_in ov (parent_of path) \<noteq> None then Some UNKNOWN
      else None)"

definition covered :: "string \<Rightarrow> string \<Rightarrow> bool" where
  "covered path e \<longleftrightarrow> (if path = [] then \<not> absolute e else at_or_under path e)"

definition doubt :: "overlay \<Rightarrow> string \<Rightarrow> bool" where
  "doubt ov path \<longleftrightarrow> machine ov path \<or> unsure_over ov path \<or>
     (\<exists>u \<in> ov_unsure ov. covered path u) \<or> (\<exists>m \<in> ov_maybe ov. covered path m)"

text \<open>The names in a directory, each with whether it is a directory; in no particular order.\<close>

definition entry_of_path :: "overlay \<Rightarrow> string \<Rightarrow> string \<Rightarrow> string \<times> bool" where
  "entry_of_path ov rest path = (before_first (CHR ''/'') rest, after_first (CHR ''/'') rest \<noteq> [] \<or> path \<in> ov_dirs ov)"

definition entries :: "overlay \<Rightarrow> string \<Rightarrow> (string \<times> bool) list" where
  "entries ov directory =
     (let pre = (if directory = [] then [] else directory @ ''/'');
        made = sorted_list_of_set {d \<in> ov_dirs ov. starts_with pre d};
        found = filter (\<lambda>(n, _). n \<noteq> []) (map (\<lambda>p. entry_of_path ov (drop (length pre) p) p) (files_under ov directory @ made))
      in foldl (\<lambda>names (n, b). dict_put n ((case map_of names n of None \<Rightarrow> False | Some old \<Rightarrow> old) \<or> b) names) [] found)"

definition text_of :: "overlay \<Rightarrow> string \<Rightarrow> string option" where
  "text_of ov path = (if path \<in> ov_dirty ov \<or> kind_of ov path \<noteq> Some FILE then None
     else case ov_content ov path of
       Some held \<Rightarrow> Some held
     | None \<Rightarrow> if absolute path then None else ov_read_base ov path)"

definition MAX_TEXT_CHARS :: nat where
  "MAX_TEXT_CHARS = 8 * 1024 * 1024"

definition forget :: "string \<Rightarrow> overlay \<Rightarrow> overlay" where
  "forget path ov = ov\<lparr>ov_content := (ov_content ov)(path := None), ov_dirty := insert path (ov_dirty ov)\<rparr>"

definition know :: "string \<Rightarrow> string \<Rightarrow> overlay \<Rightarrow> overlay" where
  "know path t ov = (if MAX_TEXT_CHARS < length t then forget path ov
     else ov\<lparr>ov_content := (ov_content ov)(path := Some t), ov_dirty := ov_dirty ov - {path}\<rparr>)"

definition put :: "string \<Rightarrow> string option \<Rightarrow> bool \<Rightarrow> overlay \<Rightarrow> overlay" where
  "put path t certain ov =
     (if \<not> certain then
        (if kind_of ov path = Some FILE then forget path ov else ov\<lparr>ov_maybe := insert path (ov_maybe ov)\<rparr>)
      else let ov1 = ov\<lparr>ov_maybe := ov_maybe ov - {path}, ov_deleted := ov_deleted ov - {path}\<rparr>;
        ov2 = (if in_base ov1 path then ov1 else ov1\<lparr>ov_created := insert path (ov_created ov1)\<rparr>)
      in case t of None \<Rightarrow> forget path ov2 | Some s \<Rightarrow> know path s ov2)"

definition within_path :: "string \<Rightarrow> string \<Rightarrow> bool" where
  "within_path path e \<longleftrightarrow> path = [] \<or> at_or_under path e"

definition drop_path :: "string \<Rightarrow> bool \<Rightarrow> overlay \<Rightarrow> overlay" where
  "drop_path path certain ov =
     (let doomed = set (files_under ov path) \<union> (if has_file ov path then {path} else {}) in
      if \<not> certain then
        ov\<lparr>ov_maybe := ov_maybe ov \<union> (if kind_of ov path \<noteq> None then {path} else {}) \<union> doomed \<union>
          {d \<in> ov_dirs ov. within_path path d}\<rparr>
      else ov\<lparr>ov_content := (\<lambda>q. if q \<in> doomed then None else ov_content ov q),
        ov_dirty := ov_dirty ov - doomed, ov_created := ov_created ov - doomed,
        ov_deleted := ov_deleted ov \<union> {q \<in> doomed. in_base ov q},
        ov_dirs := {d \<in> ov_dirs ov. \<not> within_path path d} \<union> (if parent_of path \<noteq> [] then {parent_of path} else {}),
        ov_maybe := {m \<in> ov_maybe ov. \<not> within_path path m},
        ov_unsure := {u \<in> ov_unsure ov. \<not> within_path path u}\<rparr>)"

definition make_dir :: "string \<Rightarrow> bool \<Rightarrow> overlay \<Rightarrow> overlay" where
  "make_dir path certain ov =
     (if certain then ov\<lparr>ov_maybe := ov_maybe ov - {path}, ov_dirs := insert path (ov_dirs ov)\<rparr>
      else ov\<lparr>ov_maybe := insert path (ov_maybe ov)\<rparr>)"

definition all_unsure :: "overlay \<Rightarrow> overlay" where
  "all_unsure ov = ov\<lparr>ov_unsure := insert [] (ov_unsure ov)\<rparr>"

section \<open>The sorted listing\<close>

lemma bisect_spec:
  assumes "sorted xs" "lo \<le> hi" "hi \<le> length xs" "\<forall>i < lo. xs ! i < x" "\<forall>i. hi \<le> i \<and> i < length xs \<longrightarrow> x \<le> xs ! i"
  shows "bisect xs x lo hi \<le> length xs \<and> (\<forall>i < bisect xs x lo hi. xs ! i < x) \<and>
    (\<forall>i. bisect xs x lo hi \<le> i \<and> i < length xs \<longrightarrow> x \<le> xs ! i)"
  using assms
proof (induction xs x lo hi rule: bisect.induct)
  case (1 xs x lo hi)
  show ?case
  proof (cases "lo < hi")
    case True
    define mid where "mid = (lo + hi) div 2"
    have mid: "lo \<le> mid" "mid < hi" using True by (auto simp: mid_def)
    show ?thesis
    proof (cases "xs ! mid < x")
      case less: True
      have below: "\<forall>i < Suc mid. xs ! i < x"
      proof (intro allI impI)
        fix i assume "i < Suc mid"
        then have "xs ! i \<le> xs ! mid" using "1.prems"(1,3) mid by (intro sorted_nth_mono) auto
        then show "xs ! i < x" using less by simp
      qed
      have "bisect xs x lo hi = bisect xs x (Suc mid) hi"
        using True less by (subst bisect.simps) (simp add: Let_def mid_def)
      then show ?thesis using "1.IH"(1) [OF True mid_def less "1.prems"(1) _ "1.prems"(3) below "1.prems"(5)] mid by simp
    next
      case False
      have above: "\<forall>i. mid \<le> i \<and> i < length xs \<longrightarrow> x \<le> xs ! i"
      proof (intro allI impI)
        fix i assume "mid \<le> i \<and> i < length xs"
        then have "xs ! mid \<le> xs ! i" using "1.prems"(1) by (intro sorted_nth_mono) auto
        then show "x \<le> xs ! i" using False by simp
      qed
      have "bisect xs x lo hi = bisect xs x lo mid"
        using True False by (subst bisect.simps) (simp add: Let_def mid_def)
      then show ?thesis using "1.IH"(2) [OF True mid_def False "1.prems"(1) _ _ "1.prems"(4) above] mid "1.prems"(3) by simp
    qed
  next
    case False
    then have "bisect xs x lo hi = lo" by (subst bisect.simps) simp
    then show ?thesis using "1.prems" False by simp
  qed
qed

lemma bisect_left_spec:
  assumes "sorted xs"
  shows "bisect_left xs x \<le> length xs" "\<forall>y \<in> set (take (bisect_left xs x) xs). y < x"
    "\<forall>y \<in> set (drop (bisect_left xs x) xs). x \<le> y"
proof -
  have "bisect_left xs x \<le> length xs \<and> (\<forall>i < bisect_left xs x. xs ! i < x) \<and>
      (\<forall>i. bisect_left xs x \<le> i \<and> i < length xs \<longrightarrow> x \<le> xs ! i)"
    unfolding bisect_left_def by (rule bisect_spec) (use assms in auto)
  then show "bisect_left xs x \<le> length xs" "\<forall>y \<in> set (take (bisect_left xs x) xs). y < x"
    "\<forall>y \<in> set (drop (bisect_left xs x) xs). x \<le> y"
    by (auto simp: in_set_conv_nth)
qed

lemma slice_filter:
  assumes "sorted xs" "a \<le> b"
  shows "take (bisect_left xs b - bisect_left xs a) (drop (bisect_left xs a) xs) = filter (\<lambda>y. a \<le> y \<and> y < b) xs"
proof -
  let ?l = "bisect_left xs a" and ?h = "bisect_left xs b"
  note l = bisect_left_spec [OF assms(1), of a] and h = bisect_left_spec [OF assms(1), of b]
  have "?l \<le> ?h"
  proof (rule ccontr)
    assume "\<not> ?l \<le> ?h"
    then have "xs ! ?h \<in> set (take ?l xs)" "xs ! ?h \<in> set (drop ?h xs)"

      using l(1) by (auto simp: in_set_conv_nth intro: exI [of _ ?h], auto simp: in_set_conv_nth intro!: exI [of _ 0])
    then show False using l(2) h(3) assms(2) by fastforce
  qed
  then have "xs = take ?l xs @ take (?h - ?l) (drop ?l xs) @ drop ?h xs"
    by (metis append_assoc append_take_drop_id le_add_diff_inverse take_add)
  then have "filter (\<lambda>y. a \<le> y \<and> y < b) xs =
      filter (\<lambda>y. a \<le> y \<and> y < b) (take ?l xs) @ filter (\<lambda>y. a \<le> y \<and> y < b) (take (?h - ?l) (drop ?l xs)) @
      filter (\<lambda>y. a \<le> y \<and> y < b) (drop ?h xs)"
    by (metis filter_append)
  moreover have "filter (\<lambda>y. a \<le> y \<and> y < b) (take ?l xs) = []" using l(2) by (auto simp: filter_empty_conv)
  moreover have "filter (\<lambda>y. a \<le> y \<and> y < b) (drop ?h xs) = []" using h(3) by (auto simp: filter_empty_conv)
  moreover have "filter (\<lambda>y. a \<le> y \<and> y < b) (take (?h - ?l) (drop ?l xs)) = take (?h - ?l) (drop ?l xs)"
  proof -
    have "y < b" if "y \<in> set (take (?h - ?l) (drop ?l xs))" for y
    proof -
      have "take (?h - ?l) (drop ?l xs) = drop ?l (take ?h xs)" by (simp add: drop_take)
      then show ?thesis using that h(2) by (auto dest: in_set_dropD)
    qed
    moreover have "a \<le> y" if "y \<in> set (take (?h - ?l) (drop ?l xs))" for y using that l(3) by (auto dest: in_set_takeD)
    ultimately show ?thesis by (simp add: filter_id_conv)
  qed
  ultimately show ?thesis by simp
qed

lemma under_range: "under d q \<longleftrightarrow> d @ ''/'' \<le> q \<and> q < d @ ''0''"
proof (induction d arbitrary: q)
  case Nil
  show ?case
  proof (cases q)
    case (Cons c r)
    have "(CHR ''/'' \<le> c \<and> c < CHR ''0'') \<longleftrightarrow> c = CHR ''/''"
    proof -
      have "(of_char c :: nat) = of_char (CHR ''/'') \<longleftrightarrow> c = CHR ''/''" by (rule of_char_eq_iff)
      then have "(of_char c :: nat) = 47 \<longleftrightarrow> c = CHR ''/''" by simp
      then show ?thesis unfolding less_eq_char_def less_char_def by simp linarith
    qed
    then show ?thesis by (auto simp: Cons under_def starts_with_def)
  qed (simp add: under_def starts_with_def)
next
  case (Cons x d)
  show ?case
  proof (cases q)
    case (Cons c r)
    then show ?thesis using Cons.IH [of r] by (auto simp: under_def starts_with_def)
  qed (simp add: under_def starts_with_def)
qed

text \<open>The base is a sorted listing of relative paths, and the sets are finite.\<close>

definition listed :: "overlay \<Rightarrow> bool" where
  "listed ov \<longleftrightarrow> sorted (ov_base ov) \<and> (\<forall>p \<in> set (ov_base ov). p \<noteq> [] \<and> \<not> absolute p) \<and>
     finite (ov_created ov) \<and> finite (ov_dirs ov)"

lemma in_base_iff:
  assumes "listed ov"
  shows "in_base ov path \<longleftrightarrow> path \<in> set (ov_base ov)"
proof
  show "in_base ov path \<Longrightarrow> path \<in> set (ov_base ov)" unfolding in_base_def Let_def using nth_mem by metis
next
  assume "path \<in> set (ov_base ov)"
  let ?i = "bisect_left (ov_base ov) path"
  have sorted: "sorted (ov_base ov)" using assms by (simp add: listed_def)
  note spec = bisect_left_spec [OF this, of path]
  from \<open>path \<in> set (ov_base ov)\<close> have "path \<in> set (drop ?i (ov_base ov))"
    using spec(2) by (metis append_take_drop_id Un_iff less_irrefl set_append)
  then obtain k where k: "?i + k < length (ov_base ov)" "ov_base ov ! (?i + k) = path"
    by (auto simp: in_set_conv_nth less_diff_conv add.commute)
  then have "ov_base ov ! ?i \<le> path" using sorted_nth_mono [OF sorted, of ?i "?i + k"] by simp
  moreover have "ov_base ov ! ?i \<in> set (drop ?i (ov_base ov))" using k(1) by (auto simp: in_set_conv_nth intro!: exI [of _ 0])
  then have "path \<le> ov_base ov ! ?i" using spec(3) by blast
  ultimately show "in_base ov path" using k(1) by (simp add: in_base_def Let_def)
qed

lemma base_under_filter:
  assumes "listed ov" "directory \<noteq> []"
  shows "base_under ov directory = filter (under directory) (ov_base ov)"
proof -
  have "directory @ ''/'' \<le> directory @ ''0''" by (induction directory) (simp_all add: less_char_def)
  moreover have "sorted (ov_base ov)" using assms by (simp add: listed_def)
  moreover have "under directory = (\<lambda>y. directory @ ''/'' \<le> y \<and> y < directory @ ''0'')" using under_range by blast
  ultimately show ?thesis using slice_filter [of "ov_base ov" "directory @ ''/''" "directory @ ''0''"] assms(2)
    by (simp only: base_under_def Let_def if_False)
qed

lemma takeWhile_sorted:
  "sorted xs \<Longrightarrow> (\<And>x y. x \<in> set xs \<Longrightarrow> y \<in> set xs \<Longrightarrow> x \<le> y \<Longrightarrow> P y \<Longrightarrow> P x) \<Longrightarrow> takeWhile P xs = filter P xs"
proof (induction xs)
  case (Cons x xs)
  show ?case
  proof (cases "P x")
    case True
    have "takeWhile P xs = filter P xs"
      using Cons.prems(1) by (intro Cons.IH) (simp, metis Cons.prems(2) list.set_intros(2))
    then show ?thesis using True by simp
  next
    case False
    then have "\<not> P y" if "y \<in> set xs" for y using Cons.prems(1) Cons.prems(2) [of x y] that by auto
    then show ?thesis using False by (auto simp: filter_empty_conv)
  qed
qed simp

lemma holds_iff:
  assumes "listed ov"
  shows "holds ov d \<longleftrightarrow> (\<exists>p. has_file ov p \<and> under d p) \<or> (\<exists>p \<in> ov_dirs ov. under d p)"
proof -
  let ?i = "bisect_left (ov_base ov) (d @ ''/'')"
  have sorted: "sorted (ov_base ov)" using assms by (simp add: listed_def)
  note spec = bisect_left_spec [OF this, of "d @ ''/''"]
  have "takeWhile (under d) (drop ?i (ov_base ov)) = filter (under d) (drop ?i (ov_base ov))"
  proof (rule takeWhile_sorted)
    show "sorted (drop ?i (ov_base ov))" using sorted by (rule sorted_wrt_drop)
    fix x y assume "x \<in> set (drop ?i (ov_base ov))" "x \<le> y" "under d y"
    then show "under d x" using spec(3) unfolding under_range by (meson le_less_trans)
  qed
  moreover have "filter (under d) (drop ?i (ov_base ov)) = filter (under d) (ov_base ov)"
  proof -
    have "filter (under d) (take ?i (ov_base ov)) = []"
      using spec(2) unfolding filter_empty_conv under_range by (meson linorder_not_less)
    then show ?thesis by (metis append_Nil append_take_drop_id filter_append)
  qed
  ultimately have "list_ex (\<lambda>p. p \<notin> ov_deleted ov) (takeWhile (under d) (drop ?i (ov_base ov))) \<longleftrightarrow>
      (\<exists>p. p \<in> set (ov_base ov) \<and> p \<notin> ov_deleted ov \<and> under d p)"
    by (auto simp: list_ex_iff)
  then show ?thesis by (auto simp: holds_def has_file_def in_base_iff [OF assms])
qed

text \<open>
  C34. The slice the bisection cuts out of the sorted listing is what a plain search would find: the
  files under a directory are exactly the files present whose path begins with it and a slash, in
  order.
\<close>

theorem files_under_exact:
  assumes "listed ov"
  shows "set (files_under ov directory) =
      {p. has_file ov p \<and> (if directory = [] then \<not> absolute p else starts_with (directory @ ''/'') p)} \<and>
    sorted (files_under ov directory)"
proof -
  let ?P = "\<lambda>p. if directory = [] then \<not> absolute p else under directory p"
  let ?held = "filter (\<lambda>p. p \<notin> ov_deleted ov) (base_under ov directory)"
  have finite: "finite {p \<in> ov_created ov. ?P p}" using assms by (simp add: listed_def)
  have whole: "base_under ov [] = ov_base ov" by (simp add: base_under_def Let_def)
  have "set (base_under ov directory) = {p \<in> set (ov_base ov). ?P p}"
    using base_under_filter [OF assms, of directory] assms
    by (cases "directory = []") (auto simp: listed_def whole)
  then have "set ?held = {p. p \<in> set (ov_base ov) \<and> p \<notin> ov_deleted ov \<and> ?P p}" by auto
  moreover have "sorted (base_under ov directory)"
    using base_under_filter [OF assms, of directory] assms
    by (cases "directory = []") (auto simp: listed_def whole sorted_wrt_filter)
  then have "sorted ?held" by (rule sorted_wrt_filter)
  ultimately show ?thesis
    using finite by (auto simp: files_under_def Let_def has_file_def in_base_iff [OF assms] under_def sorted_list_of_set_eq_Nil_iff)
qed

end
