(* ===== verification/ShellParser.thy ===== *)
theory ShellParser
  imports Prelude "HOL-Library.Sublist"
begin

text \<open>
  The parser of shell commands, src/src/repo_context_service/shell.py, class \<open>_Parser\<close>. The cursor is
  what is left to read; a position is the length already read. Commands being read are kept in a list
  and named by their place in it, since a heredoc fills in a command that may by then be part of a
  stage. A text is one of the 256 characters of Latin-1.
\<close>

section \<open>What a command is parsed into\<close>

record shell_word =
  sw_text :: string
  sw_expands :: bool
  sw_globs :: bool
  sw_braces :: bool

definition plain_word :: "string \<Rightarrow> shell_word" where
  "plain_word t = \<lparr>sw_text = t, sw_expands = False, sw_globs = False, sw_braces = False\<rparr>"

datatype redirect_mode = RD_WRITE | RD_APPEND | RD_READ | RD_DUPLICATE

record redirect =
  rd_fd :: nat
  rd_mode :: redirect_mode
  rd_target :: shell_word

definition writes_file :: "redirect \<Rightarrow> bool" where
  "writes_file r \<longleftrightarrow> (rd_mode r = RD_WRITE \<or> rd_mode r = RD_APPEND) \<and> sw_text (rd_target r) \<noteq> ''/dev/null''"

record heredoc =
  hd_delimiter :: string
  hd_body :: string
  hd_expands :: bool
  hd_terminated :: bool

record simple_command =
  sc_words :: "shell_word list"
  sc_assignments :: "string list"
  sc_redirects :: "redirect list"
  sc_heredoc :: "heredoc option"
  sc_text :: string

datatype separator = SEP_NONE | SEP_AND | SEP_OR | SEP_SEQUENCE

record stage =
  st_separator :: separator
  st_pipeline :: "simple_command list"
  st_text :: string

text \<open>What a call of \<open>parse_command\<close> ends with: one of its two results, or an exception it lets out.\<close>

datatype parse_result = Parsed "stage list" | Unsupported string | Raised py_error

definition argv :: "simple_command \<Rightarrow> string list" where
  "argv c = map sw_text (sc_words c)"

definition command_name :: "simple_command \<Rightarrow> string" where
  "command_name c = (case sc_words c of [] \<Rightarrow> [] | w # _ \<Rightarrow> after_last (CHR ''/'') (sw_text w))"

definition command_args :: "simple_command \<Rightarrow> string list" where
  "command_args c = tl (argv c)"

definition command_expands :: "simple_command \<Rightarrow> bool" where
  "command_expands c \<longleftrightarrow> list_ex sw_expands (sc_words c) \<or> list_ex (\<lambda>r. sw_expands (rd_target r)) (sc_redirects c)"

section \<open>Characters\<close>

abbreviation newline :: char where "newline \<equiv> CHR 0x0A"
abbreviation tab :: char where "tab \<equiv> CHR 0x09"
abbreviation carriage_return :: char where "carriage_return \<equiv> CHR 0x0D"
abbreviation single_quote :: char where "single_quote \<equiv> CHR 0x27"
abbreviation double_quote :: char where "double_quote \<equiv> CHR 0x22"
abbreviation backslash :: char where "backslash \<equiv> CHR 0x5C"
abbreviation backtick :: char where "backtick \<equiv> CHR 0x60"

definition word_end :: "char \<Rightarrow> bool" where
  "word_end c \<longleftrightarrow> c \<in> {CHR '' '', tab, carriage_return, CHR ''|'', CHR ''&'', CHR '';'', CHR ''<'', CHR ''>'', CHR ''('', CHR '')'', newline}"

definition parameter_marks :: string where
  "parameter_marks = ''_{@*#?!$-''"

text \<open>\<open>isalnum\<close>.\<close>

definition alnum :: "char \<Rightarrow> bool" where
  "alnum c \<longleftrightarrow> (word_char c \<and> c \<noteq> CHR ''_'') \<or> (let n = (of_char c :: nat) in
     n \<in> {170, 178, 179, 181, 185, 186, 188, 189, 190} \<or> (192 \<le> n \<and> n \<noteq> 215 \<and> n \<noteq> 247))"

definition starts_parameter :: "string \<Rightarrow> bool" where
  "starts_parameter following = (case following of [] \<Rightarrow> False | c # _ \<Rightarrow> alnum c \<or> c \<in> set parameter_marks)"

definition reserved_words :: "string list" where
  "reserved_words = [''if'', ''then'', ''elif'', ''else'', ''fi'', ''for'', ''while'', ''until'', ''do'', ''done'', ''case'',
     ''esac'', ''function'', ''select'', ''{'', ''}'', ''!'', ''[['', '']]'', ''coproc'']"

text \<open>\<open>[A-Za-z_][A-Za-z0-9_]*\+?=\<close> at the cursor.\<close>

definition assignment_at :: "string \<Rightarrow> bool" where
  "assignment_at s = (case s of [] \<Rightarrow> False
   | c # r \<Rightarrow> word_char c \<and> \<not> is_digit c \<and>
       (case dropWhile word_char r of [] \<Rightarrow> False
        | d # q \<Rightarrow> d = CHR ''='' \<or> (d = CHR ''+'' \<and> q \<noteq> [] \<and> hd q = CHR ''='')))"

text \<open>\<open>\$[\w{(@*#?!$-]|`|\\[$`\\\n]\<close> somewhere in the body.\<close>

fun expands_in_heredoc :: "string \<Rightarrow> bool" where
  "expands_in_heredoc [] = False"
| "expands_in_heredoc (c # r) =
     (c = backtick \<or>
      (c = CHR ''$'' \<and> r \<noteq> [] \<and> (alnum (hd r) \<or> hd r \<in> set ''_{(@*#?!$-'')) \<or>
      (c = backslash \<and> r \<noteq> [] \<and> hd r \<in> {CHR ''$'', backtick, backslash, newline}) \<or>
      expands_in_heredoc r)"

definition literal_body :: "heredoc \<Rightarrow> string option" where
  "literal_body h = (if hd_expands h \<and> expands_in_heredoc (hd_body h) then None else Some (hd_body h))"

section \<open>Words\<close>

definition rest_of_word :: "string \<Rightarrow> string" where
  "rest_of_word s = takeWhile (\<lambda>c. \<not> word_end c) s"

definition refused_dollar :: "string \<Rightarrow> string \<Rightarrow> string option" where
  "refused_dollar s following =
     (case following of [] \<Rightarrow> None
      | f # _ \<Rightarrow> if f = CHR ''('' then Some ''command_substitution''
          else if f = single_quote \<or> f = double_quote then Some ''locale_or_ansi_quoting''
          else if f = CHR ''{'' \<and> CHR ''}'' \<notin> set (rest_of_word s) then Some ''parameter_expansion'' else None)"

definition brace_expansion_follows :: "string \<Rightarrow> bool" where
  "brace_expansion_follows s = (let r = rest_of_word s; inside = takeWhile (\<lambda>c. c \<noteq> CHR ''}'') r in
     CHR ''}'' \<in> set r \<and> (CHR '','' \<in> set inside \<or> str_contains ''..'' inside))"

text \<open>A double-quoted span after its opening quote: its text, whether it expands, what follows.\<close>

function double_quoted :: "string \<Rightarrow> string + (string \<times> bool \<times> string)" where
  "double_quoted [] = Inl ''unterminated_quote''"
| "double_quoted (c # r) =
     (if c = double_quote then Inr ([], False, r)
      else if c = backslash \<and> r \<noteq> [] \<and> hd r \<in> {double_quote, backslash, CHR ''$'', backtick, newline} then
        and_then (double_quoted (tl r)) (\<lambda>(s, e, q). Inr ((if hd r = newline then s else hd r # s), e, q))
      else if c = backtick \<or> (c = CHR ''$'' \<and> r \<noteq> [] \<and> hd r = CHR ''('') then Inl ''command_substitution''
      else and_then (double_quoted r) (\<lambda>(s, e, q). Inr (c # s, e \<or> (c = CHR ''$'' \<and> starts_parameter r), q)))"
  by pat_completeness auto

termination
  by (relation "measure length") auto

record word_parts =
  wp_parts :: "string list"
  wp_expands :: bool
  wp_globs :: bool
  wp_braces :: bool
  wp_quoted :: bool

definition no_parts :: word_parts where
  "no_parts = \<lparr>wp_parts = [], wp_expands = False, wp_globs = False, wp_braces = False, wp_quoted = False\<rparr>"

definition add_part :: "string \<Rightarrow> word_parts \<Rightarrow> word_parts" where
  "add_part s w = w\<lparr>wp_parts := wp_parts w @ [s]\<rparr>"

definition add_quoted :: "string \<Rightarrow> word_parts \<Rightarrow> word_parts" where
  "add_quoted s w = (add_part s w)\<lparr>wp_quoted := True\<rparr>"

definition word_of :: "word_parts \<Rightarrow> shell_word" where
  "word_of w = \<lparr>sw_text = concat (wp_parts w), sw_expands = wp_expands w, sw_globs = wp_globs w, sw_braces = wp_braces w\<rparr>"

lemma double_quoted_shorter: "double_quoted s = Inr (t, e, q) \<Longrightarrow> length q < length s"
proof (induction s arbitrary: t e q rule: double_quoted.induct)
  case (2 c r)
  show ?case
  proof (cases "c = double_quote")
    case True
    then show ?thesis using "2.prems" by simp
  next
    case plain: False
    show ?thesis
    proof (cases "c = backslash \<and> r \<noteq> [] \<and> hd r \<in> {double_quote, backslash, CHR ''$'', backtick, newline}")
      case True
      with plain "2.prems" obtain s' e' where "double_quoted (tl r) = Inr (s', e', q)"
        by (cases "double_quoted (tl r)") (auto split: prod.splits)
      from "2.IH"(1) [OF plain True this] show ?thesis by simp
    next
      case False
      with plain "2.prems" obtain s' e' where "double_quoted r = Inr (s', e', q)"
        by (cases "double_quoted r") (auto split: prod.splits if_split_asm)
      moreover have "\<not> (c = backtick \<or> (c = CHR ''$'' \<and> r \<noteq> [] \<and> hd r = CHR ''(''))"
        using plain False "2.prems" by (auto split: if_split_asm)
      ultimately show ?thesis using "2.IH"(2) [OF plain False] by simp
    qed
  qed
qed simp

lemma after_first_length: "length (after_first c r) \<le> length r"
  using length_dropWhile_le [of "\<lambda>x. x \<noteq> c" r] by (simp add: after_first_def)

text \<open>The word at the cursor.\<close>

function read_word :: "word_parts \<Rightarrow> string \<Rightarrow> string + (word_parts \<times> string)" where
  "read_word w [] = Inr (w, [])"
| "read_word w (c # r) =
     (if word_end c then Inr (w, c # r)
      else if c = single_quote then
        (if single_quote \<in> set r
         then read_word (add_quoted (before_first single_quote r) w) (after_first single_quote r)
         else Inl ''unterminated_quote'')
      else if c = double_quote then
        (case double_quoted r of Inl e \<Rightarrow> Inl e
         | Inr (s, e, q) \<Rightarrow> read_word ((add_quoted s w)\<lparr>wp_expands := wp_expands w \<or> e\<rparr>) q)
      else if c = backslash then
        (case r of [] \<Rightarrow> Inr (add_part [c] w, [])
         | f # q \<Rightarrow> read_word (if f = newline then w else add_quoted [f] w) q)
      else if c = backtick then Inl ''command_substitution''
      else if c = CHR ''$'' then
        (case refused_dollar (c # r) r of Some e \<Rightarrow> Inl e
         | None \<Rightarrow> read_word ((add_part [c] w)\<lparr>wp_expands := wp_expands w \<or> starts_parameter r\<rparr>) r)
      else read_word ((add_part [c] w)\<lparr>wp_expands := wp_expands w \<or> (c = CHR ''~'' \<and> wp_parts w = []),
          wp_globs := wp_globs w \<or> c \<in> {CHR ''*'', CHR ''?'', CHR ''[''},
          wp_braces := wp_braces w \<or> (c = CHR ''{'' \<and> brace_expansion_follows (c # r))\<rparr>) r)"
  by pat_completeness auto

termination
  by (relation "measure (\<lambda>(w, s). length s)") (auto simp: less_Suc_eq_le after_first_length dest: double_quoted_shorter)

section \<open>The state of the parser\<close>

record command_draft =
  cd_start :: nat
  cd_end :: nat
  cd_words :: "shell_word list"
  cd_assignments :: "string list"
  cd_redirects :: "redirect list"
  cd_heredoc :: "heredoc option"
  cd_heredoc_start :: nat
  cd_pending :: bool

definition empty_draft :: "command_draft \<Rightarrow> bool" where
  "empty_draft c \<longleftrightarrow> cd_words c = [] \<and> cd_assignments c = [] \<and> cd_redirects c = [] \<and> \<not> cd_pending c"

record pending_heredoc =
  pd_owner :: nat
  pd_delimiter :: string
  pd_strip_tabs :: bool
  pd_expands :: bool

record parser =
  ps_rest :: string
  ps_drafts :: "command_draft list"
  ps_stages :: "(separator \<times> nat list) list"
  ps_pipeline :: "nat list"
  ps_command :: "nat option"
  ps_separator :: separator
  ps_pending :: "pending_heredoc list"

definition start_parser :: "string \<Rightarrow> parser" where
  "start_parser t = \<lparr>ps_rest = t, ps_drafts = [], ps_stages = [], ps_pipeline = [], ps_command = None,
     ps_separator = SEP_NONE, ps_pending = []\<rparr>"

definition position_in :: "string \<Rightarrow> parser \<Rightarrow> nat" where
  "position_in t st = length t - length (ps_rest st)"

definition on_draft :: "nat \<Rightarrow> (command_draft \<Rightarrow> command_draft) \<Rightarrow> parser \<Rightarrow> parser" where
  "on_draft i f st = st\<lparr>ps_drafts := (ps_drafts st)[i := f (ps_drafts st ! i)]\<rparr>"

definition at_word_start :: "string \<Rightarrow> parser \<Rightarrow> bool" where
  "at_word_start t st \<longleftrightarrow> position_in t st = 0 \<or> word_end (t ! (position_in t st - 1))"

definition skip_comment :: "string \<Rightarrow> string" where
  "skip_comment s = dropWhile (\<lambda>c. c \<noteq> newline) s"

definition skip_spaces :: "string \<Rightarrow> string" where
  "skip_spaces s = dropWhile (\<lambda>c. c = CHR '' '' \<or> c = tab) s"

text \<open>The lines of a heredoc, whether its delimiter was found, and what follows.\<close>

function body_lines :: "bool \<Rightarrow> string \<Rightarrow> string \<Rightarrow> string list \<times> bool \<times> string" where
  "body_lines strip_tabs delimiter s =
     (if s = [] then ([], False, [])
      else let line0 = takeWhile (\<lambda>c. c \<noteq> newline) s; rest = drop (Suc (length line0)) s;
          line = (if strip_tabs then dropWhile (\<lambda>c. c = tab) line0 else line0)
        in if rev (dropWhile (\<lambda>c. c = carriage_return) (rev line)) = delimiter then ([], True, rest)
           else case body_lines strip_tabs delimiter rest of (ls, found, r) \<Rightarrow> (line # ls, found, r))"
  by pat_completeness auto

termination
  by (relation "measure (\<lambda>(_, _, s). length s)") auto

declare body_lines.simps [simp del]

definition read_body :: "string \<Rightarrow> pending_heredoc \<Rightarrow> parser \<Rightarrow> parser" where
  "read_body t p st =
     (case body_lines (pd_strip_tabs p) (pd_delimiter p) (ps_rest st) of (ls, found, r) \<Rightarrow>
       (on_draft (pd_owner p) (\<lambda>c. c\<lparr>
          cd_heredoc := Some \<lparr>hd_delimiter = pd_delimiter p, hd_body = concat (map (\<lambda>l. l @ [newline]) ls),
            hd_expands = pd_expands p, hd_terminated = found\<rparr>,
          cd_heredoc_start := position_in t st, cd_pending := False\<rparr>) st)\<lparr>ps_rest := r\<rparr>)"

definition read_heredoc_bodies :: "string \<Rightarrow> parser \<Rightarrow> parser" where
  "read_heredoc_bodies t st = (fold (read_body t) (ps_pending st) st)\<lparr>ps_pending := []\<rparr>"

definition consume_newline :: "string \<Rightarrow> parser \<Rightarrow> parser" where
  "consume_newline t st = read_heredoc_bodies t (st\<lparr>ps_rest := tl (ps_rest st)\<rparr>)"

lemma body_lines_length: "body_lines b d s = (ls, found, r) \<Longrightarrow> length r \<le> length s"
proof (induction b d s arbitrary: ls found r rule: body_lines.induct)
  case (1 b d s)
  let ?line0 = "takeWhile (\<lambda>c. c \<noteq> newline) s"
  let ?rest = "drop (Suc (length ?line0)) s"
  let ?line = "if b then dropWhile (\<lambda>c. c = tab) ?line0 else ?line0"
  consider (nil) "s = []" | (found) "s \<noteq> []" "rev (dropWhile (\<lambda>c. c = carriage_return) (rev ?line)) = d"
    | (more) "s \<noteq> []" "rev (dropWhile (\<lambda>c. c = carriage_return) (rev ?line)) \<noteq> d" by blast
  then show ?case
  proof cases
    case more
    then obtain ls' where "body_lines b d ?rest = (ls', found, r)"
      using "1.prems" by (subst (asm) body_lines.simps) (auto simp: Let_def split: prod.splits)
    from "1.IH" [OF more(1) refl refl refl more(2) this] show ?thesis by simp
  qed (use "1.prems" in \<open>subst (asm) body_lines.simps, auto simp: Let_def\<close>)+
qed

lemma read_body_rest: "length (ps_rest (read_body t p st)) \<le> length (ps_rest st)"
  using body_lines_length by (simp add: read_body_def split: prod.split)

lemma read_bodies_rest: "length (ps_rest (read_heredoc_bodies t st)) \<le> length (ps_rest st)"
proof -
  have "length (ps_rest (fold (read_body t) ps st)) \<le> length (ps_rest st)" for ps
    by (induction ps arbitrary: st) (auto intro: order_trans read_body_rest)
  then show ?thesis by (simp add: read_heredoc_bodies_def)
qed

lemma consume_newline_rest: "ps_rest st \<noteq> [] \<Longrightarrow> length (ps_rest (consume_newline t st)) < length (ps_rest st)"
  using read_bodies_rest [of t "st\<lparr>ps_rest := tl (ps_rest st)\<rparr>"]
  by (cases "ps_rest st") (auto simp: consume_newline_def)

lemma skip_comment_rest: "s \<noteq> [] \<Longrightarrow> hd s = CHR ''#'' \<Longrightarrow> length (skip_comment s) < length s"
  using length_dropWhile_le [of "\<lambda>c. c \<noteq> newline" "tl s"]
  by (cases s) (simp_all add: skip_comment_def)

text \<open>After \<open>&&\<close>, \<open>||\<close> or \<open>|\<close> the list goes on, however many blank or comment lines follow.\<close>

function continue_on_next_lines :: "string \<Rightarrow> parser \<Rightarrow> parser" where
  "continue_on_next_lines t st =
     (if ps_rest st = [] then st
      else let c = hd (ps_rest st) in
        if c \<in> {CHR '' '', tab, carriage_return} then continue_on_next_lines t (st\<lparr>ps_rest := tl (ps_rest st)\<rparr>)
        else if c = newline then continue_on_next_lines t (consume_newline t st)
        else if c = CHR ''#'' then continue_on_next_lines t (st\<lparr>ps_rest := skip_comment (ps_rest st)\<rparr>)
        else st)"
  by pat_completeness auto

termination
  by (relation "measure (\<lambda>(t, st). length (ps_rest st))") (auto simp: consume_newline_rest skip_comment_rest)

declare continue_on_next_lines.simps [simp del]

section \<open>Steps\<close>

type_synonym 'a parse = "string + 'a"

text \<open>The command being read, begun if there is none.\<close>

definition current_command :: "string \<Rightarrow> parser \<Rightarrow> nat \<times> parser" where
  "current_command t st = (case ps_command st of
     Some i \<Rightarrow> (i, st)
   | None \<Rightarrow> (let p = position_in t st; i = length (ps_drafts st) in
       (i, st\<lparr>ps_drafts := ps_drafts st @ [\<lparr>cd_start = p, cd_end = p, cd_words = [], cd_assignments = [],
           cd_redirects = [], cd_heredoc = None, cd_heredoc_start = 0, cd_pending = False\<rparr>],
         ps_command := Some i\<rparr>)))"

definition end_pipeline_element :: "parser \<Rightarrow> parser parse" where
  "end_pipeline_element st = (case ps_command st of
     None \<Rightarrow> Inl ''empty_pipeline_element''
   | Some i \<Rightarrow> if empty_draft (ps_drafts st ! i) then Inl ''empty_pipeline_element''
       else Inr (st\<lparr>ps_pipeline := ps_pipeline st @ [i], ps_command := None\<rparr>))"

definition end_stage :: "separator \<Rightarrow> bool \<Rightarrow> parser \<Rightarrow> parser parse" where
  "end_stage next_separator explicit st =
     (let ready = (case ps_command st of None \<Rightarrow> None
        | Some i \<Rightarrow> if empty_draft (ps_drafts st ! i) then None else Some i) in
      if ready = None \<and> ps_pipeline st \<noteq> [] then Inl ''empty_pipeline_element''
      else let pipeline = (case ready of None \<Rightarrow> [] | Some i \<Rightarrow> ps_pipeline st @ [i]) in
        if pipeline \<noteq> [] then Inr (st\<lparr>ps_command := None, ps_pipeline := [],
            ps_stages := ps_stages st @ [(ps_separator st, pipeline)], ps_separator := next_separator\<rparr>)
        else if explicit \<or> ps_separator st = SEP_AND \<or> ps_separator st = SEP_OR then Inl ''list_operator_without_command''
        else Inr (st\<lparr>ps_command := None\<rparr>))"

definition eat :: "nat \<Rightarrow> parser \<Rightarrow> parser" where
  "eat n st = st\<lparr>ps_rest := drop n (ps_rest st)\<rparr>"

definition list_operator :: "string \<Rightarrow> parser \<Rightarrow> parser parse" where
  "list_operator t st =
     (let c = hd (ps_rest st); follows = (\<lambda>d. tl (ps_rest st) \<noteq> [] \<and> hd (tl (ps_rest st)) = d) in
      if c = CHR ''('' \<or> c = CHR '')'' then Inl ''subshell''
      else if c = CHR '';'' then
        (if follows (CHR '';'') then Inl ''compound_command''
         else and_then (end_stage SEP_SEQUENCE True st) (\<lambda>st. Inr (eat 1 st)))
      else if c = CHR ''&'' then
        (if \<not> follows (CHR ''&'') then Inl ''background_job''
         else and_then (end_stage SEP_AND True st) (\<lambda>st. Inr (continue_on_next_lines t (eat 2 st))))
      else if follows (CHR ''|'') then
        and_then (end_stage SEP_OR True st) (\<lambda>st. Inr (continue_on_next_lines t (eat 2 st)))
      else and_then (end_pipeline_element st) (\<lambda>st.
        Inr (continue_on_next_lines t (eat (if follows (CHR ''&'') then 2 else 1)
          (if follows (CHR ''&'')
           then on_draft (last (ps_pipeline st)) (\<lambda>c. c\<lparr>cd_redirects := cd_redirects c @
             [\<lparr>rd_fd = 2, rd_mode = RD_DUPLICATE, rd_target = plain_word ''1''\<rparr>]\<rparr>) st
           else st)))))"

definition redirect_target :: "parser \<Rightarrow> (shell_word \<times> parser) parse" where
  "redirect_target st =
     (let s = skip_spaces (ps_rest st) in
      if s \<noteq> [] \<and> hd s = CHR ''#'' then Inl ''redirect_without_target''
      else and_then (read_word no_parts s) (\<lambda>(w, r).
        if sw_text (word_of w) = [] then Inl ''redirect_without_target'' else Inr (word_of w, st\<lparr>ps_rest := r\<rparr>)))"

definition open_heredoc :: "string \<Rightarrow> nat \<Rightarrow> parser \<Rightarrow> parser parse" where
  "open_heredoc t i st =
     (if cd_pending (ps_drafts st ! i) \<or> cd_heredoc (ps_drafts st ! i) \<noteq> None then Inl ''several_heredocs_for_one_command''
      else let strip_tabs = (2 < length (ps_rest st) \<and> ps_rest st ! 2 = CHR ''-'');
          s = skip_spaces (drop (if strip_tabs then 3 else 2) (ps_rest st))
        in and_then (read_word no_parts s) (\<lambda>(w, r).
          if sw_text (word_of w) = [] then Inl ''heredoc_without_delimiter''
          else let st' = st\<lparr>ps_rest := r\<rparr> in
            Inr ((on_draft i (\<lambda>c. c\<lparr>cd_end := position_in t st', cd_pending := True\<rparr>) st')\<lparr>ps_pending := ps_pending st @
              [\<lparr>pd_owner = i, pd_delimiter = sw_text (word_of w), pd_strip_tabs = strip_tabs, pd_expands = \<not> wp_quoted w\<rparr>]\<rparr>)))"

definition redirect_operator :: "string \<Rightarrow> string \<times> redirect_mode" where
  "redirect_operator s =
     (if starts_with ''>>'' s then (''>>'', RD_APPEND) else if starts_with ''>&'' s then (''>&'', RD_DUPLICATE)
      else if starts_with ''<&'' s then (''<&'', RD_DUPLICATE) else if starts_with ''>|'' s then (''>|'', RD_WRITE)
      else if starts_with ''>'' s then (''>'', RD_WRITE) else (''<'', RD_READ))"

definition add_redirects :: "string \<Rightarrow> nat \<Rightarrow> redirect list \<Rightarrow> parser \<Rightarrow> parser" where
  "add_redirects t i rs st = on_draft i (\<lambda>c. c\<lparr>cd_redirects := cd_redirects c @ rs, cd_end := position_in t st\<rparr>) st"

definition redirect_at :: "string \<Rightarrow> nat option \<Rightarrow> parser \<Rightarrow> parser parse" where
  "redirect_at t fd st0 =
     (case current_command t st0 of (i, st) \<Rightarrow>
      let s = ps_rest st; both = [\<lparr>rd_fd = 2, rd_mode = RD_DUPLICATE, rd_target = plain_word ''1''\<rparr>] in
      if starts_with ''<<<'' s then Inl ''here_string''
      else if 1 < length s \<and> s ! 1 = CHR ''('' then Inl ''process_substitution''
      else if starts_with ''<<'' s then
        (if fd \<noteq> None \<and> fd \<noteq> Some 0 then Inl ''heredoc_on_another_descriptor'' else open_heredoc t i st)
      else if starts_with ''&>'' s then
        (let app = starts_with ''&>>'' s in
         and_then (redirect_target (eat (if app then 3 else 2) st)) (\<lambda>(target, st).
           Inr (add_redirects t i (\<lparr>rd_fd = 1, rd_mode = (if app then RD_APPEND else RD_WRITE), rd_target = target\<rparr> # both) st)))
      else case redirect_operator s of (operator, mode) \<Rightarrow>
        and_then (redirect_target (eat (length operator) st)) (\<lambda>(target, st).
          if mode = RD_DUPLICATE \<and> \<not> (number_text (sw_text target) \<or> sw_text target = ''-'') then
            (if operator \<noteq> ''>&'' \<or> (fd \<noteq> None \<and> fd \<noteq> Some 1) then Inl ''ambiguous_redirect''
             else Inr (add_redirects t i (\<lparr>rd_fd = 1, rd_mode = RD_WRITE, rd_target = target\<rparr> # both) st))
          else Inr (add_redirects t i [\<lparr>rd_fd = (case fd of None \<Rightarrow> if starts_with ''<'' operator then 0 else 1 | Some n \<Rightarrow> n),
              rd_mode = mode, rd_target = target\<rparr>] st)))"

text \<open>Reading a word may also end with the ValueError of \<open>int\<close>, which nothing catches.\<close>

datatype parse_stop = Refusal string | Uncaught py_error

definition word_at :: "string \<Rightarrow> parser \<Rightarrow> parse_stop + parser" where
  "word_at t st0 =
     (case current_command t st0 of (i, st) \<Rightarrow>
      and_then (retell Refusal (read_word no_parts (ps_rest st))) (\<lambda>(w, r).
        let text = sw_text (word_of w); st' = st\<lparr>ps_rest := r\<rparr>; words = cd_words (ps_drafts st ! i) in
        if number_text text \<and> \<not> wp_quoted w \<and> r \<noteq> [] \<and> (hd r = CHR ''<'' \<or> hd r = CHR ''>'')
        then and_then (retell Uncaught (int_of_text text)) (\<lambda>fd. retell Refusal (redirect_at t (Some fd) st'))
        else if words = [] \<and> assignment_at (ps_rest st)
        then Inr (on_draft i (\<lambda>c. c\<lparr>cd_assignments := cd_assignments c @ [text], cd_end := position_in t st'\<rparr>) st')
        else if words = [] \<and> \<not> wp_quoted w \<and> text \<in> set reserved_words then Inl (Refusal ''compound_command'')
        else Inr (on_draft i (\<lambda>c. c\<lparr>cd_words := cd_words c @ [word_of w], cd_end := position_in t st'\<rparr>) st')))"

definition parse_step :: "string \<Rightarrow> parser \<Rightarrow> parse_stop + parser" where
  "parse_step t st =
     (let c = hd (ps_rest st); follows = (\<lambda>d. tl (ps_rest st) \<noteq> [] \<and> hd (tl (ps_rest st)) = d) in
      if c \<in> {CHR '' '', tab, carriage_return} then Inr (eat 1 st)
      else if c = backslash \<and> follows newline then Inr (eat 2 st)
      else if c = CHR ''#'' \<and> at_word_start t st then Inr (st\<lparr>ps_rest := skip_comment (ps_rest st)\<rparr>)
      else if c = newline
      then and_then (retell Refusal (end_stage SEP_SEQUENCE False st)) (\<lambda>st. Inr (consume_newline t st))
      else if c = CHR ''<'' \<or> c = CHR ''>'' \<or> (c = CHR ''&'' \<and> follows (CHR ''>'')) then retell Refusal (redirect_at t None st)
      else if c \<in> {CHR ''|'', CHR ''&'', CHR '';'', CHR ''('', CHR '')''} then retell Refusal (list_operator t st)
      else word_at t st)"

partial_function (option) parse_loop :: "string \<Rightarrow> parser \<Rightarrow> (parse_stop + parser) option" where
  "parse_loop t st = (if ps_rest st = [] then Some (Inr st)
     else case parse_step t st of Inl e \<Rightarrow> Some (Inl e) | Inr st' \<Rightarrow> parse_loop t st')"

declare parse_loop.simps [code]

section \<open>The result\<close>

definition slice :: "string \<Rightarrow> nat \<Rightarrow> nat \<Rightarrow> string" where
  "slice t a b = take (b - a) (drop a t)"

definition build_command :: "string \<Rightarrow> command_draft \<Rightarrow> simple_command" where
  "build_command t c = \<lparr>sc_words = cd_words c, sc_assignments = cd_assignments c, sc_redirects = cd_redirects c,
     sc_heredoc = cd_heredoc c, sc_text = strip (slice t (cd_start c) (cd_end c))\<rparr>"

definition heredoc_after :: "nat \<Rightarrow> command_draft \<Rightarrow> string" where
  "heredoc_after last_end c = (case cd_heredoc c of None \<Rightarrow> []
   | Some h \<Rightarrow> if last_end \<le> cd_heredoc_start c
       then newline # hd_body h @ (if hd_terminated h then hd_delimiter h else []) else [])"

definition build_stage :: "string \<Rightarrow> command_draft list \<Rightarrow> separator \<times> nat list \<Rightarrow> stage" where
  "build_stage t drafts = (\<lambda>(sep, is).
     let cs = map ((!) drafts) is; last_end = cd_end (last cs);
       source = strip (slice t (cd_start (hd cs)) last_end) @ concat (map (heredoc_after last_end) cs)
     in \<lparr>st_separator = sep, st_pipeline = map (build_command t) cs,
         st_text = rev (dropWhile (\<lambda>c. c = newline) (rev source))\<rparr>)"

definition parse_command :: "string \<Rightarrow> parse_result option" where
  "parse_command t = (case parse_loop t (start_parser t) of
     None \<Rightarrow> None
   | Some (Inl (Refusal e)) \<Rightarrow> Some (Unsupported e)
   | Some (Inl (Uncaught e)) \<Rightarrow> Some (Raised e)
   | Some (Inr st) \<Rightarrow> (case end_stage SEP_NONE False st of
       Inl e \<Rightarrow> Some (Unsupported e)
     | Inr st' \<Rightarrow> (let st'' = read_heredoc_bodies t st' in
         Some (Parsed (map (build_stage t (ps_drafts st'')) (ps_stages st''))))))"

section \<open>The parser stops\<close>




lemma on_draft_rest [simp]: "ps_rest (on_draft i f st) = ps_rest st"
  by (simp add: on_draft_def)

lemma add_redirects_rest [simp]: "ps_rest (add_redirects t i rs st) = ps_rest st"
  by (simp add: add_redirects_def)

lemma eat_rest [simp]: "ps_rest (eat n st) = drop n (ps_rest st)"
  by (simp add: eat_def)













section \<open>What the parser reads is part of the text\<close>


























section \<open>Quoting\<close>

text \<open>A word in single quotes, each quote of its own escaped outside them; a command of such words.\<close>

fun quote_chars :: "string \<Rightarrow> string" where
  "quote_chars [] = []"
| "quote_chars (c # s) = (if c = single_quote then [single_quote, backslash, single_quote, single_quote] else [c]) @ quote_chars s"

definition quote_word :: "string \<Rightarrow> string" where
  "quote_word s = single_quote # quote_chars s @ [single_quote]"

fun quote_words :: "string list \<Rightarrow> string" where
  "quote_words [] = []"
| "quote_words [w] = quote_word w"
| "quote_words (w # v # ws) = quote_word w @ CHR '' '' # quote_words (v # ws)"

lemma not_ends: "\<not> word_end single_quote" "\<not> word_end backslash" "word_end (CHR '' '')"
  by (simp_all add: word_end_def)

text \<open>Reading a quoted word adds its text in parts and nothing else.\<close>

definition extends :: "word_parts \<Rightarrow> string \<Rightarrow> word_parts \<Rightarrow> bool" where
  "extends w s w' \<longleftrightarrow> concat (wp_parts w') = concat (wp_parts w) @ s \<and> wp_quoted w' \<and>
     wp_expands w' = wp_expands w \<and> wp_globs w' = wp_globs w \<and> wp_braces w' = wp_braces w"

lemma quote_chars_plain: "single_quote \<notin> set s \<Longrightarrow> quote_chars s = s"
  by (induction s) auto

lemma quote_chars_append: "quote_chars (a @ b) = quote_chars a @ quote_chars b"
  by (induction a) auto

lemma first_quote: "single_quote \<notin> set a \<Longrightarrow>
    before_first single_quote (a @ single_quote # b) = a \<and> after_first single_quote (a @ single_quote # b) = b"
  by (induction a) (auto simp: before_first_def after_first_def)

lemma read_quoted:
  assumes "tail = [] \<or> word_end (hd tail)"
  shows "\<exists>w'. read_word w (single_quote # quote_chars s @ single_quote # tail) = Inr (w', tail) \<and> extends w s w'"
proof (induction s arbitrary: w rule: measure_induct_rule [where f = length])
  case (less s)
  show ?case
  proof (cases "single_quote \<in> set s")
    case False
    have "read_word w' tail = Inr (w', tail)" for w' using assms by (cases tail) auto
    then show ?thesis
      using first_quote [OF False, of tail] quote_chars_plain [OF False] not_ends
      by (simp add: extends_def add_quoted_def add_part_def)
  next
    case True
    then obtain a b where s: "s = a @ single_quote # b" and a: "single_quote \<notin> set a" by (meson split_list_first)
    let ?w = "add_quoted [single_quote] (add_quoted a w)"
    from less.IH [of b ?w] s obtain w' where
      w': "read_word ?w (single_quote # quote_chars b @ single_quote # tail) = Inr (w', tail)" "extends ?w b w'" by auto
    have "quote_chars s @ single_quote # tail =
        a @ single_quote # backslash # single_quote # single_quote # quote_chars b @ single_quote # tail"
      by (simp add: s quote_chars_append quote_chars_plain [OF a])
    then have "read_word w (single_quote # quote_chars s @ single_quote # tail) =
        read_word (add_quoted a w) (backslash # single_quote # single_quote # quote_chars b @ single_quote # tail)"
      using first_quote [OF a] not_ends by simp
    also have "\<dots> = Inr (w', tail)" using w'(1) not_ends by simp
    finally show ?thesis using w'(2) by (auto simp: extends_def add_quoted_def add_part_def s)
  qed
qed

lemma read_quote_word:
  assumes "tail = [] \<or> word_end (hd tail)"
  obtains w where "read_word no_parts (quote_word s @ tail) = Inr (w, tail)" "word_of w = plain_word s" "wp_quoted w"
  using read_quoted [OF assms, of no_parts s]
  by (auto simp: quote_word_def extends_def no_parts_def word_of_def plain_word_def)

lemma quote_word_not: "\<not> assignment_at (quote_word s @ tail)"
  by (simp add: assignment_at_def quote_word_def word_char_def)

text \<open>A parser in the middle of a command of plain words.\<close>

definition draft_of :: "string list \<Rightarrow> nat \<Rightarrow> command_draft" where
  "draft_of ws e = \<lparr>cd_start = 0, cd_end = e, cd_words = map plain_word ws, cd_assignments = [], cd_redirects = [],
     cd_heredoc = None, cd_heredoc_start = 0, cd_pending = False\<rparr>"

definition reading :: "string list \<Rightarrow> nat \<Rightarrow> string \<Rightarrow> parser" where
  "reading ws e r = \<lparr>ps_rest = r, ps_drafts = [draft_of ws e], ps_stages = [], ps_pipeline = [], ps_command = Some 0,
     ps_separator = SEP_NONE, ps_pending = []\<rparr>"

lemma step_word:
  assumes "tail = [] \<or> word_end (hd tail)" "ps_rest st = quote_word s @ tail"
  shows "parse_step t st = word_at t st"
  using assms(2) by (simp add: parse_step_def quote_word_def Let_def)

lemma step_quoted:
  assumes "tail = [] \<or> word_end (hd tail)"
  shows "parse_step t (reading ws e (quote_word s @ tail)) = Inr (reading (ws @ [s]) (length t - length tail) tail)"
proof -
  obtain w where w: "read_word no_parts (quote_word s @ tail) = Inr (w, tail)" "word_of w = plain_word s" "wp_quoted w"
    using read_quote_word [OF assms] .
  show ?thesis
    by (subst step_word [OF assms])
      (simp_all add: reading_def word_at_def current_command_def w quote_word_not Let_def on_draft_def draft_of_def position_in_def)
qed

lemma step_first:
  assumes "tail = [] \<or> word_end (hd tail)" "t = quote_word s @ tail"
  shows "parse_step t (start_parser t) = Inr (reading [s] (length t - length tail) tail)"
proof -
  obtain w where w: "read_word no_parts (quote_word s @ tail) = Inr (w, tail)" "word_of w = plain_word s" "wp_quoted w"
    using read_quote_word [OF assms(1)] .
  have "ps_rest (start_parser t) = quote_word s @ tail" by (simp add: start_parser_def assms(2))
  then show ?thesis
    by (subst step_word [OF assms(1)])
      (simp_all add: start_parser_def word_at_def current_command_def w quote_word_not Let_def on_draft_def draft_of_def position_in_def reading_def assms(2))
qed

lemma step_blank: "parse_step t (reading ws e (CHR '' '' # r)) = Inr (reading ws e r)"
  by (simp add: parse_step_def reading_def eat_def)

lemma loop_reads:
  "parse_loop t (reading ws e (concat (map (\<lambda>v. CHR '' '' # quote_word v) vs))) =
     Some (Inr (reading (ws @ vs) (if vs = [] then e else length t) []))"
proof (induction vs arbitrary: ws e)
  case Nil
  show ?case by (simp add: parse_loop.simps reading_def)
next
  case (Cons v vs)
  let ?tail = "concat (map (\<lambda>v. CHR '' '' # quote_word v) vs)"
  have tail: "?tail = [] \<or> word_end (hd ?tail)" by (cases vs) (simp_all add: not_ends)
  have "parse_loop t (reading ws e (CHR '' '' # quote_word v @ ?tail)) = parse_loop t (reading ws e (quote_word v @ ?tail))"
    by (subst parse_loop.simps) (simp add: step_blank, simp add: reading_def)
  also have "\<dots> = parse_loop t (reading (ws @ [v]) (length t - length ?tail) ?tail)"
    by (subst parse_loop.simps) (simp add: step_quoted [OF tail], simp add: reading_def quote_word_def)
  also have "\<dots> = Some (Inr (reading ((ws @ [v]) @ vs) (if vs = [] then length t - length ?tail else length t) []))"
    by (rule Cons.IH)
  finally show ?case by (cases vs) simp_all
qed

lemma quote_words_tail: "quote_words (w # vs) = quote_word w @ concat (map (\<lambda>v. CHR '' '' # quote_word v) vs)"
  by (induction vs arbitrary: w) simp_all

text \<open>
  C37. Whatever words a command is made of, blanks, quotes, newlines and all, written in single quotes
  it is parsed as one stage of one command with exactly those words, none of which expands or globs.
\<close>

theorem quoted_command_roundtrip:
  assumes "ws \<noteq> []"
  shows "\<exists>stage command. parse_command (quote_words ws) = Some (Parsed [stage]) \<and> st_separator stage = SEP_NONE \<and>
    st_pipeline stage = [command] \<and> sc_words command = map plain_word ws \<and> argv command = ws \<and>
    sc_assignments command = [] \<and> sc_redirects command = [] \<and> sc_heredoc command = None \<and>
    sc_text command = quote_words ws \<and> st_text stage = quote_words ws"
proof -
  obtain w vs where ws: "ws = w # vs" using assms by (cases ws) auto
  let ?t = "quote_words ws" and ?tail = "concat (map (\<lambda>v. CHR '' '' # quote_word v) vs)"
  have t: "?t = quote_word w @ ?tail" by (simp only: ws quote_words_tail)
  have tail: "?tail = [] \<or> word_end (hd ?tail)" by (cases vs) (simp_all add: not_ends)
  have "ps_rest (start_parser ?t) \<noteq> []" by (simp add: start_parser_def t quote_word_def)
  then have "parse_loop ?t (start_parser ?t) = parse_loop ?t (reading [w] (length ?t - length ?tail) ?tail)"
    by (subst parse_loop.simps) (simp add: step_first [OF tail t])
  also have "\<dots> = Some (Inr (reading ws (length ?t) []))"
    unfolding loop_reads using t by (cases vs) (simp_all add: ws)
  finally have loop: "parse_loop ?t (start_parser ?t) = Some (Inr (reading ws (length ?t) []))" .
  have last_quote: "last ?t = single_quote \<and> hd ?t = single_quote \<and> ?t \<noteq> []"
  proof -
    have "last (concat (map (\<lambda>v. CHR '' '' # quote_word v) vs)) = single_quote" if "vs \<noteq> []"
      using that by (induction vs rule: rev_induct) (simp_all add: quote_word_def)
    then show ?thesis unfolding t by (cases "vs = []") (auto simp: quote_word_def)
  qed
  have not_space: "\<not> is_space single_quote" by (simp add: is_space_def)
  have "dropWhile is_space ?t = ?t" "dropWhile is_space (rev ?t) = rev ?t"
    using last_quote not_space by (simp_all add: hd_rev dropWhile_eq_self_iff)
  then have strip: "strip ?t = ?t" by (simp add: strip_def)
  have "dropWhile (\<lambda>c. c = newline) (rev ?t) = rev ?t" using last_quote by (simp add: dropWhile_eq_self_iff hd_rev)
  then have trimmed: "rev (dropWhile (\<lambda>c. c = newline) (rev ?t)) = ?t" by simp
  let ?stage = "build_stage ?t [draft_of ws (length ?t)] (SEP_NONE, [0])"
  have "parse_command ?t = Some (Parsed [?stage])"
    using assms by (simp add: parse_command_def loop reading_def end_stage_def empty_draft_def draft_of_def
        read_heredoc_bodies_def Let_def)
  moreover have "?stage = \<lparr>st_separator = SEP_NONE, st_pipeline = [build_command ?t (draft_of ws (length ?t))], st_text = ?t\<rparr>"
    using strip trimmed by (simp add: build_stage_def draft_of_def slice_def heredoc_after_def)
  moreover have "build_command ?t (draft_of ws (length ?t)) =
      \<lparr>sc_words = map plain_word ws, sc_assignments = [], sc_redirects = [], sc_heredoc = None, sc_text = ?t\<rparr>"
    using strip by (simp add: build_command_def draft_of_def slice_def)
  moreover have "map (sw_text \<circ> plain_word) ws = ws" by (simp add: plain_word_def comp_def)
  ultimately show ?thesis by (simp add: argv_def)
qed

end
