(* ===== verification/Globs.thy ===== *)
theory Globs
  imports Prelude
begin

text \<open>
  Python's \<open>fnmatch.fnmatchcase\<close>, which both the simulated repository (file globs of a command) and
  model validation (the globs of the files a model repository may hold) match names with; on the
  POSIX hosts the program runs on \<open>fnmatch.fnmatch\<close> is the same function.
\<close>

fun in_range_set :: "string \<Rightarrow> char \<Rightarrow> bool" where
  "in_range_set (a # m # b # r) c =
     (if m = CHR ''-'' then (a \<le> c \<and> c \<le> b) \<or> in_range_set r c else a = c \<or> in_range_set (m # b # r) c)"
| "in_range_set (a # r) c = (a = c \<or> in_range_set r c)"
| "in_range_set [] c = False"

text \<open>The set a bracket opens and what follows it, when it is closed.\<close>

definition bracket :: "string \<Rightarrow> (bool \<times> string \<times> string) option" where
  "bracket s = (let neg = starts_with ''!'' s; r = (if neg then tl s else s);
       first = (if starts_with '']'' r then '']'' else []); r' = drop (length first) r;
       body = takeWhile (\<lambda>c. c \<noteq> CHR '']'') r'; rest = dropWhile (\<lambda>c. c \<noteq> CHR '']'') r'
     in if rest = [] then None else Some (neg, first @ body, tl rest))"

lemma bracket_shorter:
  assumes "bracket s = Some (neg, body, rest)"
  shows "length rest < length s"
proof -
  define q where "q = (if starts_with ''!'' s then tl s else s)"
  define r where "r = drop (length (if starts_with '']'' q then '']'' else [])) q"
  have "(if dropWhile (\<lambda>c. c \<noteq> CHR '']'') r = [] then None
      else Some (starts_with ''!'' s, (if starts_with '']'' q then '']'' else []) @ takeWhile (\<lambda>c. c \<noteq> CHR '']'') r,
        tl (dropWhile (\<lambda>c. c \<noteq> CHR '']'') r))) = Some (neg, body, rest)"
    using assms unfolding bracket_def Let_def q_def r_def .
  then have "dropWhile (\<lambda>c. c \<noteq> CHR '']'') r \<noteq> []" and rest: "rest = tl (dropWhile (\<lambda>c. c \<noteq> CHR '']'') r)"
    by (simp_all split: if_split_asm)
  have len: "length r \<le> length s" by (simp add: r_def q_def)
  from \<open>dropWhile (\<lambda>c. c \<noteq> CHR '']'') r \<noteq> []\<close> rest have "length rest < length (dropWhile (\<lambda>c. c \<noteq> CHR '']'') r)" by simp
  with length_dropWhile_le [of "\<lambda>c. c \<noteq> CHR '']''" r] len show ?thesis by simp
qed

text \<open>\<open>fnmatch.fnmatchcase\<close>.\<close>

function fnmatch :: "string \<Rightarrow> string \<Rightarrow> bool" where
  "fnmatch [] s = (s = [])"
| "fnmatch (p # ps) s =
     (if p = CHR ''*'' then (if fnmatch ps s then True else case s of [] \<Rightarrow> False | c # r \<Rightarrow> fnmatch (p # ps) r)
      else case s of [] \<Rightarrow> False
      | c # r \<Rightarrow>
          if p = CHR ''?'' then fnmatch ps r
          else if p = CHR ''['' then (case bracket ps of
              None \<Rightarrow> c = p \<and> fnmatch ps r
            | Some (neg, body, rest) \<Rightarrow> in_range_set body c \<noteq> neg \<and> fnmatch rest r)
          else c = p \<and> fnmatch ps r)"
  by pat_completeness auto

termination
  by (relation "measures [\<lambda>(p, s). length p, \<lambda>(p, s). length s]") (auto dest: bracket_shorter)

end
