(* ===== verification/FileCommands.thy ===== *)
theory FileCommands
  imports Overlay ShellParser Globs
begin

text \<open>
  The commands that change files, on the overlay: \<open>_paths\<close>, \<open>_options\<close>, \<open>_write\<close>, \<open>_rm\<close>, \<open>_rmdir\<close>,
  \<open>_transfer\<close>, \<open>_mkdir\<close>, \<open>_touch\<close>, \<open>_tee\<close>, \<open>_ln\<close>, \<open>_truncate\<close> and the predictions of success of
  src/src/repo_context_service/overlay.py. The loop body of a command over its paths is a definition
  of its own (\<open>rm_path\<close>, \<open>mkdir_path\<close>, and so on).
\<close>

section \<open>Words\<close>

definition MAX_BRACE_WORDS :: int where
  "MAX_BRACE_WORDS = 256"

text \<open>The first innermost pair of braces: what is before it, in it and after it.\<close>

definition brace_match :: "string \<Rightarrow> (string \<times> string \<times> string) option" where
  "brace_match w = (case find (\<lambda>i. w ! i = CHR ''{'' \<and>
       (let r = dropWhile (\<lambda>c. c \<noteq> CHR ''{'' \<and> c \<noteq> CHR ''}'') (drop (Suc i) w) in r \<noteq> [] \<and> hd r = CHR ''}'')) [0..<length w] of
     None \<Rightarrow> None
   | Some i \<Rightarrow> (let r = drop (Suc i) w; b = takeWhile (\<lambda>c. c \<noteq> CHR ''}'') r in Some (take i w, b, drop (Suc (length b)) r)))"

definition signed_number :: "string \<Rightarrow> int option" where
  "signed_number s = (let neg = starts_with ''-'' s; d = (if neg then tl s else s) in
     if d \<noteq> [] \<and> list_all is_digit d then Some (if neg then - int (read_nat d) else int (read_nat d)) else None)"

text \<open>\<open>(-?\d+)\.\.(-?\d+)\<close>.\<close>

definition brace_sequence :: "string \<Rightarrow> (int \<times> int) option" where
  "brace_sequence b = (case find (\<lambda>i. take 2 (drop i b) = ''..'') [0..<length b] of
     None \<Rightarrow> None
   | Some i \<Rightarrow> (case (signed_number (take i b), signed_number (drop (i + 2) b)) of
       (Some x, Some y) \<Rightarrow> Some (x, y) | _ \<Rightarrow> None))"

definition brace_items :: "string \<Rightarrow> string list option option" where
  "brace_items b = (case brace_sequence b of
     Some (x, y) \<Rightarrow> if MAX_BRACE_WORDS \<le> \<bar>y - x\<bar> then Some None
       else Some (Some (map show_int (if x \<le> y then [x..y] else rev [y..x])))
   | None \<Rightarrow> if CHR '','' \<in> set b then Some (Some (split_on (CHR '','') b)) else None)"

text \<open>Each expansion uses up one pair of braces: the count of opening braces is fuel enough.\<close>

fun expand_with :: "nat \<Rightarrow> string \<Rightarrow> string list option"
and expand_items :: "nat \<Rightarrow> string \<Rightarrow> string \<Rightarrow> string list \<Rightarrow> string list \<Rightarrow> string list option" where
  "expand_with 0 w = Some [w]"
| "expand_with (Suc n) w = (case brace_match w of
     None \<Rightarrow> Some [w]
   | Some (h, b, t) \<Rightarrow> (case brace_items b of
       None \<Rightarrow> Some [w]
     | Some None \<Rightarrow> None
     | Some (Some items) \<Rightarrow> expand_items n h t items []))"
| "expand_items n h t [] out = Some out"
| "expand_items n h t (i # is) out = (case expand_with n (h @ i @ t) of
     None \<Rightarrow> None
   | Some ws \<Rightarrow> if MAX_BRACE_WORDS < int (length out + length ws) then None else expand_items n h t is (out @ ws))"

definition expand_braces :: "string \<Rightarrow> string list option" where
  "expand_braces w = expand_with (count_list w (CHR ''{'')) w"

section \<open>Globs\<close>

definition glob_char :: "char \<Rightarrow> bool" where
  "glob_char c \<longleftrightarrow> c = CHR ''*'' \<or> c = CHR ''?'' \<or> c = CHR ''[''"

text \<open>The directories and names one segment of the pattern leads to from a directory.\<close>

definition glob_step :: "overlay \<Rightarrow> bool \<Rightarrow> string \<Rightarrow> string \<Rightarrow> string list option" where
  "glob_step ov last_one seg directory =
     (let joined = (if directory = [] then seg else rstrip_slash directory @ ''/'' @ seg) in
      if \<not> list_ex glob_char seg then Some (if kind_of ov joined \<noteq> None then [joined] else [])
      else if doubt ov directory then None
      else Some (map (\<lambda>(n, d). if directory = [] then n else directory @ ''/'' @ n)
        (filter (\<lambda>(n, is_dir). \<not> (starts_with ''.'' n \<and> \<not> starts_with ''.'' seg) \<and> fnmatch seg n \<and> (last_one \<or> is_dir))
          (sort_key fst (entries ov directory)))))"

fun all_some :: "'a option list \<Rightarrow> 'a list option" where
  "all_some [] = Some []"
| "all_some (x # xs) = (case (x, all_some xs) of (Some y, Some ys) \<Rightarrow> Some (y # ys) | _ \<Rightarrow> None)"

fun glob_walk :: "overlay \<Rightarrow> string list \<Rightarrow> string list \<Rightarrow> string list option" where
  "glob_walk ov [] current = Some current"
| "glob_walk ov (seg # segs) current = (case all_some (map (glob_step ov (segs = []) seg) current) of
     None \<Rightarrow> None
   | Some found \<Rightarrow> glob_walk ov segs (concat found))"

definition glob_paths :: "overlay \<Rightarrow> string \<Rightarrow> string list option" where
  "glob_paths ov pattern =
     (if absolute pattern then glob_walk ov (split_on (CHR ''/'') (lstrip_slash pattern)) [''/'']
      else glob_walk ov (split_on (CHR ''/'') pattern) [[]])"

definition ends_slash :: "string \<Rightarrow> bool" where
  "ends_slash s \<longleftrightarrow> s \<noteq> [] \<and> last s = CHR ''/''"

fun word_paths :: "overlay \<Rightarrow> shell_word \<Rightarrow> string option \<Rightarrow> string list \<Rightarrow> string list option" where
  "word_paths ov w cwd [] = Some []"
| "word_paths ov w cwd (t # ts) = (case session_path t cwd (ov_root ov) of
     None \<Rightarrow> if cwd = None \<and> \<not> absolute t then None else word_paths ov w cwd ts
   | Some path \<Rightarrow>
       (case (if sw_globs w \<and> list_ex glob_char t then
           (case glob_paths ov path of None \<Rightarrow> None
            | Some ms \<Rightarrow> (let ms' = (if ends_slash t then filter (\<lambda>m. kind_of ov m = Some DIRECTORY) ms else ms)
                in Some (if ms' = [] then [path] else ms')))
           else Some [path]) of
         None \<Rightarrow> None
       | Some ps \<Rightarrow> map_option ((@) ps) (word_paths ov w cwd ts)))"

definition paths_of :: "overlay \<Rightarrow> shell_word \<Rightarrow> string option \<Rightarrow> string list option" where
  "paths_of ov w cwd = (if sw_expands w then None
     else case (if sw_braces w then expand_braces (sw_text w) else Some [sw_text w]) of
       None \<Rightarrow> None
     | Some ts \<Rightarrow> word_paths ov w cwd ts)"

section \<open>Options\<close>

record parsed_options =
  po_flags :: "string set"
  po_values :: "(string \<times> string) list"
  po_operands :: "shell_word list"

definition add_option :: "string set \<Rightarrow> (string \<times> string) list \<Rightarrow> parsed_options \<Rightarrow> parsed_options" where
  "add_option fs vs o' = o'\<lparr>po_flags := fs \<union> po_flags o',
     po_values := vs @ po_values o'\<rparr>"

text \<open>The values are kept latest last; \<open>value_of\<close> reads the latest.\<close>

fun options_of :: "string set \<Rightarrow> shell_word list \<Rightarrow> parsed_options" where
  "options_of value_options [] = \<lparr>po_flags = {}, po_values = [], po_operands = []\<rparr>"
| "options_of value_options (w # ws) =
     (let t = sw_text w in
      if t = ''--'' then \<lparr>po_flags = {}, po_values = [], po_operands = ws\<rparr>
      else if starts_with ''--'' t then
        (let name = before_first (CHR ''='') t; equals = CHR ''='' \<in> set t; v = after_first (CHR ''='') t in
         if \<not> equals \<and> name \<in> value_options \<and> ws \<noteq> [] then
           add_option {name} [(name, sw_text (hd ws))] (options_of value_options (tl ws))
         else add_option {name} [(name, v)] (options_of value_options ws))
      else if starts_with ''-'' t \<and> 1 < length t then
        (if take 2 t \<in> value_options then
           (if drop 2 t = [] \<and> ws \<noteq> [] then
              add_option {take 2 t} [(take 2 t, sw_text (hd ws))] (options_of value_options (tl ws))
            else add_option {take 2 t} [(take 2 t, drop 2 t)] (options_of value_options ws))
         else add_option (set (map (\<lambda>c. [c]) (tl t))) [] (options_of value_options ws))
      else (let o' = options_of value_options ws in o'\<lparr>po_operands := w # po_operands o'\<rparr>))"

definition value_of :: "parsed_options \<Rightarrow> string \<Rightarrow> string option" where
  "value_of o' k = map_of (rev (po_values o')) k"

section \<open>Commands\<close>

text \<open>The last part of a word, trailing slashes aside, is a dot or two dots.\<close>

definition dots :: "shell_word \<Rightarrow> bool" where
  "dots w \<longleftrightarrow> base_name (rstrip_slash (sw_text w)) \<in> {''.'', ''..''}"

definition slashed_file :: "overlay \<Rightarrow> shell_word \<Rightarrow> string \<Rightarrow> bool" where
  "slashed_file ov w path \<longleftrightarrow> ends_slash (sw_text w) \<and> kind_of ov path = Some FILE"

text \<open>A command runs over its words, a word over its paths; a word without known paths leaves
  everything unsure.\<close>

definition over_paths :: "(string \<Rightarrow> overlay \<Rightarrow> overlay) \<Rightarrow> string list option \<Rightarrow> overlay \<Rightarrow> overlay" where
  "over_paths f ps ov = (case ps of None \<Rightarrow> all_unsure ov | Some paths \<Rightarrow> fold f paths ov)"

definition over_words :: "(shell_word \<Rightarrow> string \<Rightarrow> overlay \<Rightarrow> overlay) \<Rightarrow> shell_word list \<Rightarrow> string option \<Rightarrow> overlay \<Rightarrow> overlay" where
  "over_words f ws cwd ov = fold (\<lambda>w ov. over_paths (f w) (paths_of ov w cwd) ov) ws ov"

text \<open>\<open>_write\<close>.\<close>

definition write_path :: "string option \<Rightarrow> bool \<Rightarrow> bool \<Rightarrow> string \<Rightarrow> overlay \<Rightarrow> overlay" where
  "write_path t app certain path ov =
     (let kind = kind_of ov path; parent = kind_of ov (parent_of path) in
      if kind = Some DIRECTORY \<or> parent = None \<or> parent = Some FILE then ov
      else let t' = (if app \<and> kind \<noteq> None
          then (case (text_of ov path, t) of (Some held, Some s) \<Rightarrow> Some (held @ s) | _ \<Rightarrow> None) else t)
        in put path t' (certain \<and> (machine ov path \<or> (kind \<noteq> Some UNKNOWN \<and> parent \<noteq> Some UNKNOWN))) ov)"

definition write_word :: "shell_word \<Rightarrow> string option \<Rightarrow> string option \<Rightarrow> bool \<Rightarrow> bool \<Rightarrow> overlay \<Rightarrow> overlay" where
  "write_word w cwd t app certain ov =
     (if sw_text w = ''/dev/null'' then ov
      else case paths_of ov w cwd of
        None \<Rightarrow> all_unsure ov
      | Some [] \<Rightarrow> ov
      | Some [path] \<Rightarrow> write_path t app certain path ov
      | Some _ \<Rightarrow> all_unsure ov)"

text \<open>\<open>_rmdir\<close>: the directory, and with \<open>-p\<close> those above it.\<close>

definition chain_of :: "string \<Rightarrow> string list" where
  "chain_of path = (let parts = split_on (CHR ''/'') path in
     map (\<lambda>n. join_on (CHR ''/'') (take n parts)) [1..<Suc (length parts)])"

fun rmdir_chain :: "bool \<Rightarrow> string list \<Rightarrow> overlay \<Rightarrow> overlay" where
  "rmdir_chain certain [] ov = ov"
| "rmdir_chain certain (d # ds) ov =
     (let kind = kind_of ov d in
      if kind = Some UNKNOWN \<or> (kind = Some DIRECTORY \<and> doubt ov d) then rmdir_chain certain ds (drop_path d False ov)
      else if kind = Some DIRECTORY \<and> entries ov d = [] then rmdir_chain certain ds (drop_path d certain ov)
      else ov)"

definition rmdir_path :: "bool \<Rightarrow> bool \<Rightarrow> string \<Rightarrow> overlay \<Rightarrow> overlay" where
  "rmdir_path parents certain path ov = rmdir_chain certain (if parents then rev (chain_of path) else [path]) ov"

text \<open>One path of \<open>rm\<close> or \<open>unlink\<close>.\<close>

definition rm_path :: "bool \<Rightarrow> bool \<Rightarrow> bool \<Rightarrow> string \<Rightarrow> overlay \<Rightarrow> overlay" where
  "rm_path recursive only_empty certain path ov =
     (let kind = kind_of ov path in
      if kind = None then ov
      else if kind = Some DIRECTORY \<and> \<not> recursive then
        (if only_empty \<and> entries ov path = [] \<and> \<not> doubt ov path then drop_path path certain ov else ov)
      else drop_path path (certain \<and> kind \<noteq> Some UNKNOWN) ov)"

definition rm_flags :: "string set" where
  "rm_flags = {''f'', ''r'', ''R'', ''v'', ''d'', ''I'', ''--force'', ''--recursive'', ''--verbose'', ''--dir''}"

definition recursive_flags :: "string set" where
  "recursive_flags = {''r'', ''R'', ''--recursive''}"

definition rm :: "string \<Rightarrow> shell_word list \<Rightarrow> string option \<Rightarrow> bool \<Rightarrow> overlay \<Rightarrow> overlay" where
  "rm name words cwd certain ov =
     (let o' = options_of {} words; flags = po_flags o' in
      if name = ''rm'' \<and> \<not> flags \<subseteq> rm_flags then all_unsure ov
      else let recursive = (flags \<inter> recursive_flags \<noteq> {}) in
        over_words (\<lambda>w path ov.
          if (name = ''unlink'' \<and> kind_of ov path = Some DIRECTORY) \<or> kind_of ov path = None \<or> slashed_file ov w path then ov
          else if name = ''rmdir'' then rmdir_path (''p'' \<in> flags) certain path ov
          else rm_path recursive (''d'' \<in> flags) certain path ov)
        (filter (\<lambda>w. \<not> dots w) (po_operands o')) cwd ov)"

text \<open>One path of \<open>mkdir\<close>.\<close>

definition mkdir_path :: "bool \<Rightarrow> bool \<Rightarrow> string \<Rightarrow> overlay \<Rightarrow> overlay" where
  "mkdir_path parents certain path ov =
     (let chain = chain_of path; kinds = map (kind_of ov) chain in
      if Some FILE \<in> set kinds \<or> (\<not> parents \<and> last kinds \<noteq> None) then ov
      else if \<not> parents \<and> 1 < length chain \<and> last (butlast kinds) = None then ov
      else let sure = (certain \<and> Some UNKNOWN \<notin> set kinds) in
        fold (\<lambda>(d, kind) ov. if kind \<noteq> Some DIRECTORY then make_dir d sure ov else ov)
          (if parents then zip chain kinds else [(path, last kinds)]) ov)"

definition mkdir :: "shell_word list \<Rightarrow> string option \<Rightarrow> bool \<Rightarrow> overlay \<Rightarrow> overlay" where
  "mkdir words cwd certain ov =
     (let o' = options_of {''-m'', ''--mode''} words in
      over_words (\<lambda>w. mkdir_path (po_flags o' \<inter> {''p'', ''--parents''} \<noteq> {}) certain) (po_operands o') cwd ov)"

definition touch_path :: "bool \<Rightarrow> string \<Rightarrow> overlay \<Rightarrow> overlay" where
  "touch_path certain path ov =
     (let kind = kind_of ov path; parent = kind_of ov (parent_of path) in
      if kind = Some FILE \<or> kind = Some DIRECTORY \<or> parent = None \<or> parent = Some FILE then ov
      else put path (Some []) (certain \<and> kind = None \<and> parent = Some DIRECTORY) ov)"

definition touch :: "shell_word list \<Rightarrow> string option \<Rightarrow> bool \<Rightarrow> overlay \<Rightarrow> overlay" where
  "touch words cwd certain ov =
     (let o' = options_of {''-t'', ''-d'', ''-r'', ''--date'', ''--reference''} words in
      if po_flags o' \<inter> {''c'', ''--no-create''} \<noteq> {} then ov
      else over_words (\<lambda>w. touch_path certain) (po_operands o') cwd ov)"

text \<open>\<open>tee\<close> with what it reads, when that is known.\<close>

definition tee :: "shell_word list \<Rightarrow> string option \<Rightarrow> bool \<Rightarrow> string option \<Rightarrow> overlay \<Rightarrow> overlay" where
  "tee words cwd certain input ov =
     (let o' = options_of {} words in
      fold (\<lambda>w. write_word w cwd input (po_flags o' \<inter> {''a'', ''--append''} \<noteq> {}) certain) (po_operands o') ov)"

definition ln_file :: "shell_word list \<Rightarrow> string option \<Rightarrow> bool \<Rightarrow> overlay \<Rightarrow> overlay" where
  "ln_file words cwd certain ov =
     (let ops = po_operands (options_of {''-t'', ''-S''} words) in
      case (if length ops = 2 then paths_of ov (last ops) cwd else None) of
        Some [path] \<Rightarrow> if kind_of ov path = Some DIRECTORY then all_unsure ov else put path None certain ov
      | _ \<Rightarrow> all_unsure ov)"

definition truncate_file :: "shell_word list \<Rightarrow> string option \<Rightarrow> bool \<Rightarrow> overlay \<Rightarrow> overlay" where
  "truncate_file words cwd certain ov =
     (let o' = options_of {''-s'', ''--size'', ''-r''} words;
        size_is = (case value_of o' ''-s'' of Some v \<Rightarrow> Some v | None \<Rightarrow> value_of o' ''--size'')
      in fold (\<lambda>w ov. fold (\<lambda>path. put path (if size_is = Some ''0'' then Some [] else None) certain)
           (case paths_of ov w cwd of None \<Rightarrow> [] | Some ps \<Rightarrow> ps) ov) (po_operands o') ov)"

section \<open>Copying and moving\<close>

definition copy_tree :: "string \<Rightarrow> string \<Rightarrow> bool \<Rightarrow> overlay \<Rightarrow> overlay" where
  "copy_tree source target certain ov =
     (if kind_of ov source = Some FILE then put target (text_of ov source) certain ov
      else let ov1 = make_dir target certain ov in
      if doubt ov1 source then ov1\<lparr>ov_unsure := insert target (ov_unsure ov1)\<rparr>
      else let ov2 = fold (\<lambda>path o'. put (target @ drop (length source) path) (text_of o' path) certain o')
            (files_under ov1 source) ov1
        in fold (\<lambda>d. make_dir (target @ drop (length source) d) certain)
          (sorted_list_of_set {d \<in> ov_dirs ov2. under source d}) ov2)"

record transfer_mode =
  tm_contents :: bool
  tm_into :: bool
  tm_slash :: bool
  tm_no_target_dir :: bool
  tm_move :: bool
  tm_recursive :: bool

text \<open>Where one source goes, if anywhere.\<close>

definition transfer_target :: "transfer_mode \<Rightarrow> path_kind option \<Rightarrow> string \<Rightarrow> string \<Rightarrow> path_kind option \<Rightarrow> string option" where
  "transfer_target m kind source destination dest_kind =
     (if tm_contents m then Some destination
      else if dest_kind = Some DIRECTORY \<and> \<not> tm_no_target_dir m
      then Some (if destination \<noteq> [] then destination @ ''/'' @ base_name source else base_name source)
      else if tm_into m \<or> (tm_slash m \<and> (kind = Some FILE \<or> dest_kind \<noteq> None)) then None
      else if dest_kind = Some FILE \<and> kind = Some DIRECTORY then None
      else Some destination)"

definition transfer_one :: "transfer_mode \<Rightarrow> bool \<Rightarrow> string option \<Rightarrow> path_kind option \<Rightarrow> string \<Rightarrow> overlay \<Rightarrow> overlay" where
  "transfer_one m certain destination dest_kind source ov =
     (let kind = kind_of ov source; sure = (certain \<and> kind \<noteq> Some UNKNOWN \<and> dest_kind \<noteq> Some UNKNOWN) in
      if kind = None \<or> (kind = Some DIRECTORY \<and> \<not> tm_recursive m) then ov
      else case destination of
        None \<Rightarrow> if tm_move m then drop_path source sure ov else ov
      | Some dest \<Rightarrow>
          if dest_kind = Some UNKNOWN then
            (let ov1 = ov\<lparr>ov_unsure := insert dest (ov_unsure ov)\<rparr> in if tm_move m then drop_path source False ov1 else ov1)
          else case transfer_target m kind source dest dest_kind of
            None \<Rightarrow> ov
          | Some target \<Rightarrow>
              if target = source then ov
              else if under source target then
                (if tm_move m then ov
                 else (let ov1 = make_dir target sure ov in ov1\<lparr>ov_unsure := insert target (ov_unsure ov1)\<rparr>))
              else if kind_of ov (parent_of target) \<in> {None, Some FILE} then ov
              else let ov1 = (if tm_contents m \<and> kind = Some DIRECTORY
                  then fold (\<lambda>(n, b) o'. copy_tree (source @ ''/'' @ n) (target @ ''/'' @ n) sure o')
                    (entries (make_dir target sure ov) source) (make_dir target sure ov)
                  else copy_tree source target sure ov)
                in if tm_move m then drop_path source sure ov1 else ov1)"

definition transfer_flags :: "string set" where
  "transfer_flags = {''f'', ''i'', ''p'', ''r'', ''R'', ''a'', ''n'', ''u'', ''v'', ''T'', ''L'', ''H'', ''P'', ''d'',
     ''-t'', ''--force'', ''--recursive'', ''--archive'', ''--verbose'', ''--no-clobber'', ''--update'',
     ''--target-directory'', ''--no-target-directory''}"

definition ends_slash_dot :: "string \<Rightarrow> bool" where
  "ends_slash_dot s \<longleftrightarrow> 2 \<le> length s \<and> drop (length s - 2) s = ''/.''"

text \<open>The words after brace expansion.\<close>

definition expanded_words :: "shell_word list \<Rightarrow> shell_word list option" where
  "expanded_words ws = map_option concat (all_some (map (\<lambda>w.
     map_option (map (\<lambda>t. w\<lparr>sw_text := t, sw_braces := False\<rparr>))
       (if sw_braces w then expand_braces (sw_text w) else Some [sw_text w])) ws))"

definition transfer_from :: "transfer_mode \<Rightarrow> bool \<Rightarrow> string option \<Rightarrow> path_kind option \<Rightarrow> bool \<Rightarrow> string \<Rightarrow> overlay \<Rightarrow> overlay" where
  "transfer_from m certain destination dest_kind contents source ov =
     (case destination of
        Some dest \<Rightarrow> if absolute source \<and> kind_of ov source = None \<and> dest \<noteq> []
          then put (if dest_kind = Some DIRECTORY then dest @ ''/'' @ base_name source else dest) None False ov
          else transfer_one (m\<lparr>tm_contents := contents\<rparr>) certain destination dest_kind source ov
      | None \<Rightarrow> transfer_one (m\<lparr>tm_contents := contents\<rparr>) certain destination dest_kind source ov)"

definition transfer_all :: "transfer_mode \<Rightarrow> bool \<Rightarrow> (shell_word \<times> string list) list \<Rightarrow> string option \<Rightarrow> overlay \<Rightarrow> overlay" where
  "transfer_all m certain sources destination ov =
     (let dest_kind = (case destination of None \<Rightarrow> None | Some d \<Rightarrow> kind_of ov d) in
      fold (\<lambda>(w, paths). fold (transfer_from m certain destination dest_kind (ends_slash_dot (sw_text w))) paths) sources ov)"

definition transfer :: "bool \<Rightarrow> shell_word list \<Rightarrow> string option \<Rightarrow> bool \<Rightarrow> overlay \<Rightarrow> overlay" where
  "transfer move words cwd certain ov =
     (let o' = options_of {''-t'', ''--target-directory''} words; flags = po_flags o' in
      if \<not> flags \<subseteq> transfer_flags then all_unsure ov
      else case expanded_words (po_operands o') of
        None \<Rightarrow> all_unsure ov
      | Some ws \<Rightarrow>
          let target_dir = (case value_of o' ''-t'' of Some v \<Rightarrow> Some v | None \<Rightarrow> value_of o' ''--target-directory'');
            recursive = (move \<or> flags \<inter> {''r'', ''R'', ''a'', ''--recursive'', ''--archive''} \<noteq> {});
            conditional = (flags \<inter> {''n'', ''i'', ''u'', ''--no-clobber'', ''--update''} \<noteq> {})
          in if target_dir = None \<and> length ws < 2 then ov
          else let dest_word = (case target_dir of Some t \<Rightarrow> plain_word t | None \<Rightarrow> last ws);
              sources = (case target_dir of Some _ \<Rightarrow> ws | None \<Rightarrow> butlast ws)
            in case all_some (map (\<lambda>w. paths_of ov w cwd) sources) of
              None \<Rightarrow> all_unsure ov
            | Some found \<Rightarrow>
                let into = (target_dir \<noteq> None \<or> 1 < sum_list (map length found)) in
                (case paths_of ov dest_word cwd of
                  None \<Rightarrow> all_unsure ov
                | Some dests \<Rightarrow> if 1 < length dests then all_unsure ov
                    else transfer_all \<lparr>tm_contents = False, tm_into = into, tm_slash = ends_slash (sw_text dest_word),
                        tm_no_target_dir = (''T'' \<in> flags), tm_move = move, tm_recursive = recursive\<rparr>
                      (certain \<and> \<not> conditional) (zip sources found) (if dests = [] then None else Some (hd dests)) ov))"

section \<open>Predictions\<close>

definition writable :: "overlay \<Rightarrow> shell_word \<Rightarrow> string option \<Rightarrow> bool" where
  "writable ov w cwd \<longleftrightarrow> sw_text w = ''/dev/null'' \<or> (case paths_of ov w cwd of
     Some [path] \<Rightarrow> kind_of ov (parent_of path) = Some DIRECTORY \<and> kind_of ov path \<in> {Some FILE, None}
   | _ \<Rightarrow> False)"

text \<open>The paths of words with their kinds, when all are known and at least one each.\<close>

fun known_paths :: "overlay \<Rightarrow> shell_word list \<Rightarrow> string option \<Rightarrow> (string \<times> path_kind option) list option" where
  "known_paths ov [] cwd = Some []"
| "known_paths ov (w # ws) cwd = (case paths_of ov w cwd of
     None \<Rightarrow> None
   | Some ps \<Rightarrow> if ps = [] \<or> Some UNKNOWN \<in> kind_of ov ` set ps then None
       else map_option ((@) (map (\<lambda>p. (p, kind_of ov p)) ps)) (known_paths ov ws cwd))"

definition rm_succeeds :: "overlay \<Rightarrow> string \<Rightarrow> shell_word list \<Rightarrow> string option \<Rightarrow> bool" where
  "rm_succeeds ov name words cwd \<longleftrightarrow>
     (let o' = options_of {} words; flags = po_flags o' in
      flags \<subseteq> {''f'', ''r'', ''R'', ''--force'', ''--recursive''} \<and> name = ''rm'' \<and> \<not> list_ex dots (po_operands o') \<and>
      (case known_paths ov (po_operands o') cwd of
        None \<Rightarrow> False
      | Some found \<Rightarrow> list_all (\<lambda>(_, kind).
          (kind \<noteq> None \<or> flags \<inter> {''f'', ''--force''} \<noteq> {}) \<and>
          (kind \<noteq> Some DIRECTORY \<or> flags \<inter> recursive_flags \<noteq> {})) found))"

definition mkdir_path_succeeds :: "overlay \<Rightarrow> bool \<Rightarrow> string \<Rightarrow> bool" where
  "mkdir_path_succeeds ov parents path \<longleftrightarrow>
     (let kinds = map (kind_of ov) (chain_of path) in
      Some FILE \<notin> set kinds \<and> Some UNKNOWN \<notin> set kinds \<and>
      (parents \<or> (last kinds = None \<and> (1 < length kinds \<longrightarrow> last (butlast kinds) \<noteq> None))))"

definition mkdir_succeeds :: "overlay \<Rightarrow> shell_word list \<Rightarrow> string option \<Rightarrow> bool" where
  "mkdir_succeeds ov words cwd \<longleftrightarrow>
     (let o' = options_of {''-m'', ''--mode''} words in
      po_operands o' \<noteq> [] \<and> list_all (\<lambda>w. case paths_of ov w cwd of
          None \<Rightarrow> False
        | Some ps \<Rightarrow> ps \<noteq> [] \<and> list_all (mkdir_path_succeeds ov (po_flags o' \<inter> {''p'', ''--parents''} \<noteq> {})) ps) (po_operands o'))"

definition touch_succeeds :: "overlay \<Rightarrow> shell_word list \<Rightarrow> string option \<Rightarrow> bool" where
  "touch_succeeds ov words cwd \<longleftrightarrow>
     (case known_paths ov (po_operands (options_of {''-t'', ''-d'', ''-r''} words)) cwd of
       None \<Rightarrow> False
     | Some found \<Rightarrow> list_all (\<lambda>(path, kind). kind \<noteq> None \<or> kind_of ov (parent_of path) = Some DIRECTORY) found)"

definition transfer_succeeds :: "overlay \<Rightarrow> bool \<Rightarrow> shell_word list \<Rightarrow> string option \<Rightarrow> bool" where
  "transfer_succeeds ov move words cwd \<longleftrightarrow>
     (let o' = options_of {''-t''} words; flags = po_flags o' in
      flags \<subseteq> {''f'', ''r'', ''R'', ''a'', ''p'', ''--force'', ''--recursive'', ''--archive''} \<and> value_of o' ''-t'' = None \<and>
      (case known_paths ov (po_operands o') cwd of
        None \<Rightarrow> False
      | Some found \<Rightarrow>
          let (destination, dest_kind) = last found; sources = butlast found;
            recursive = (move \<or> flags \<inter> {''r'', ''R'', ''a'', ''--recursive'', ''--archive''} \<noteq> {})
          in 2 \<le> length found \<and> \<not> list_ex (\<lambda>(_, kind). kind = None \<or> (kind = Some DIRECTORY \<and> \<not> recursive)) sources \<and>
            (if 1 < length sources \<or> ends_slash (sw_text (last (po_operands o'))) then dest_kind = Some DIRECTORY
             else kind_of ov (parent_of destination) = Some DIRECTORY \<and>
               \<not> (dest_kind = Some FILE \<and> snd (hd sources) = Some DIRECTORY) \<and> destination \<noteq> fst (hd sources))))"

definition chmod_succeeds :: "overlay \<Rightarrow> shell_word list \<Rightarrow> string option \<Rightarrow> bool" where
  "chmod_succeeds ov words cwd \<longleftrightarrow>
     (case known_paths ov (tl (po_operands (options_of {} words))) cwd of
       None \<Rightarrow> False
     | Some found \<Rightarrow> found \<noteq> [] \<and> list_all (\<lambda>(_, kind). kind \<noteq> None) found)"

definition rm_status :: "overlay \<Rightarrow> shell_word list \<Rightarrow> string option \<Rightarrow> int option" where
  "rm_status ov words cwd =
     (let o' = options_of {} words; flags = po_flags o'; ops = po_operands o' in
      if ops = [] \<or> \<not> flags \<subseteq> {''f'', ''r'', ''R'', ''v'', ''d'', ''--force'', ''--recursive'', ''--verbose'', ''--dir''} then None
      else if list_ex dots ops then Some 1
      else case all_some (map (\<lambda>w. map_option (map (\<lambda>p. if slashed_file ov w p then None else kind_of ov p)) (paths_of ov w cwd)) ops) of
        None \<Rightarrow> None
      | Some kss \<Rightarrow>
          let kinds = concat kss; force = (flags \<inter> {''f'', ''--force''} \<noteq> {}) in
          if Some UNKNOWN \<in> set kinds then None
          else if None \<in> set kinds \<and> \<not> force then Some 1
          else if Some DIRECTORY \<in> set kinds \<and> flags \<inter> recursive_flags = {}
          then (if flags \<inter> {''d'', ''--dir''} \<noteq> {} then None else Some 1)
          else if force then Some 0 else None)"

end
