(* ===== verification/OverlaySound.thy ===== *)
theory OverlaySound
  imports FileCommands
begin

text \<open>
  What the overlay answers against what the machine holds: a world is the tree of files the session
  really has, an overlay agrees with it when everything it claims to know is so, and every change of
  the overlay keeps it in agreement with the change the command makes to the world.
\<close>

section \<open>Paths below paths\<close>

lemma under_prefix: "under p q \<longleftrightarrow> prefix (p @ ''/'') q"
proof
  assume "under p q"
  then have "q = (p @ ''/'') @ drop (length (p @ ''/'')) q"
    by (metis append_take_drop_id starts_with_def under_def)
  then show "prefix (p @ ''/'') q" by (rule prefixI)
next
  assume "prefix (p @ ''/'') q"
  then show "under p q" by (auto simp: under_def starts_with_def prefix_def)
qed

lemma under_trans: "under a b \<Longrightarrow> under b c \<Longrightarrow> under a c"
  unfolding under_prefix by (meson append_prefixD prefix_order.trans)

lemma at_or_under_trans: "at_or_under a b \<Longrightarrow> at_or_under b c \<Longrightarrow> at_or_under a c"
  unfolding at_or_under_def using under_trans by blast

lemma under_longer: "under p q \<Longrightarrow> length p < length q"
  unfolding under_prefix by (drule prefix_length_le) simp

lemma not_under_self [simp]: "\<not> under p p"
  using under_longer by blast

lemma under_chain:
  assumes "under a c" "under b c"
  shows "a = b \<or> under a b \<or> under b a"
proof -
  from assms have "prefix (a @ ''/'') (b @ ''/'') \<or> prefix (b @ ''/'') (a @ ''/'')"
    unfolding under_prefix by (rule prefix_same_cases)
  then show ?thesis unfolding under_prefix
    by (metis butlast_snoc prefix_order.eq_iff prefix_snoc)
qed

definition relative :: "string \<Rightarrow> bool" where
  "relative p \<longleftrightarrow> p \<noteq> [] \<and> \<not> absolute p"

lemma relative_under: "under a p \<Longrightarrow> relative p \<Longrightarrow> relative a"
  unfolding under_prefix by (cases a) (auto simp: relative_def absolute_def starts_with_def prefix_def)

lemma parent_split:
  assumes "CHR ''/'' \<in> set p"
  shows "p = parent_of p @ ''/'' @ base_name p" "CHR ''/'' \<notin> set (base_name p)"
proof -
  let ?r = "rev p"
  have "?r = takeWhile (\<lambda>x. x \<noteq> CHR ''/'') ?r @ dropWhile (\<lambda>x. x \<noteq> CHR ''/'') ?r" by simp
  moreover have "dropWhile (\<lambda>x. x \<noteq> CHR ''/'') ?r \<noteq> []" using assms by (simp add: dropWhile_eq_Nil_conv)
  then obtain d where d: "dropWhile (\<lambda>x. x \<noteq> CHR ''/'') ?r = CHR ''/'' # d"
    using hd_dropWhile [of "\<lambda>x. x \<noteq> CHR ''/''" ?r] by (cases "dropWhile (\<lambda>x. x \<noteq> CHR ''/'') ?r") auto
  ultimately have "?r = takeWhile (\<lambda>x. x \<noteq> CHR ''/'') ?r @ CHR ''/'' # d" by simp
  then have "rev ?r = rev (takeWhile (\<lambda>x. x \<noteq> CHR ''/'') ?r @ CHR ''/'' # d)" by (rule arg_cong)
  then have p: "p = rev d @ ''/'' @ base_name p" by (simp add: base_name_def after_last_def)
  have "take (length p - length (base_name p) - 1) p = rev d"
  proof -
    have "length p - length (base_name p) - 1 = length (rev d)" by (subst p) simp
    moreover have "take (length (rev d)) p = rev d" by (subst p) simp
    ultimately show ?thesis by simp
  qed
  with p assms show "p = parent_of p @ ''/'' @ base_name p" by (simp add: parent_of_def)
  show "CHR ''/'' \<notin> set (base_name p)" by (auto simp: base_name_def after_last_def dest: set_takeWhileD)
qed

lemma under_parent: "under a p \<longleftrightarrow> CHR ''/'' \<in> set p \<and> (a = parent_of p \<or> under a (parent_of p))"
proof (cases "CHR ''/'' \<in> set p")
  case False
  then show ?thesis by (auto simp: under_prefix prefix_def)
next
  case True
  note split = parent_split [OF True]
  have "prefix (a @ ''/'') p \<longleftrightarrow> prefix (a @ ''/'') (parent_of p @ ''/'')"
  proof
    assume "prefix (a @ ''/'') p"
    then obtain r where r: "p = a @ ''/'' @ r" by (auto simp: prefix_def)
    have "prefix (a @ ''/'') (parent_of p @ ''/'') \<or> prefix (parent_of p @ ''/'') (a @ ''/'')"
      by (rule prefix_same_cases [of _ p]) (metis prefixI r append_assoc, metis prefixI split(1) append_assoc)
    moreover have "prefix (a @ ''/'') (parent_of p @ ''/'')" if pre: "prefix (parent_of p @ ''/'') (a @ ''/'')"
    proof -
      from pre obtain s where s: "a @ ''/'' = parent_of p @ ''/'' @ s" by (auto simp: prefix_def)
      have "base_name p = s @ r" using split(1) r s by (metis append_assoc same_append_eq)
      then have "CHR ''/'' \<notin> set s" using split(2) by auto
      then have "s = []" using s by (metis append_is_Nil_conv last_appendR last_in_set last_snoc)
      then show ?thesis using s by simp
    qed
    ultimately show "prefix (a @ ''/'') (parent_of p @ ''/'')" by blast
  next
    assume "prefix (a @ ''/'') (parent_of p @ ''/'')"
    moreover have "prefix (parent_of p @ ''/'') p" using split(1) by (metis append_assoc prefixI)
    ultimately show "prefix (a @ ''/'') p" by (rule prefix_order.trans)
  qed
  moreover have "prefix (a @ ''/'') (parent_of p @ ''/'') \<longleftrightarrow> a = parent_of p \<or> prefix (a @ ''/'') (parent_of p)"
    by (metis butlast_snoc prefix_snoc)
  ultimately show ?thesis using True by (simp add: under_prefix)
qed

section \<open>Agreement\<close>

datatype node = Dir | File string

type_synonym world = "string \<Rightarrow> node option"

definition world_ok :: "world \<Rightarrow> bool" where
  "world_ok w \<longleftrightarrow> (\<forall>p a. relative p \<and> w p \<noteq> None \<and> under a p \<longrightarrow> w a = Some Dir)"

definition agrees_at :: "overlay \<Rightarrow> world \<Rightarrow> string \<Rightarrow> bool" where
  "agrees_at ov w p \<longleftrightarrow> (case kind_of ov p of
     Some FILE \<Rightarrow> \<exists>t. w p = Some (File t) \<and> (\<forall>s. text_of ov p = Some s \<longrightarrow> s = t)
   | Some DIRECTORY \<Rightarrow> w p = Some Dir
   | Some UNKNOWN \<Rightarrow> True
   | None \<Rightarrow> w p = None)"

definition agrees :: "overlay \<Rightarrow> world \<Rightarrow> bool" where
  "agrees ov w \<longleftrightarrow> (\<forall>p. relative p \<longrightarrow> agrees_at ov w p)"

lemma agrees_at_same:
  "kind_of ov' p = kind_of ov p \<Longrightarrow> (kind_of ov p = Some FILE \<Longrightarrow> text_of ov' p = text_of ov p) \<Longrightarrow> w' p = w p \<Longrightarrow>
     agrees_at ov' w' p \<longleftrightarrow> agrees_at ov w p"
  by (simp add: agrees_at_def split: option.split path_kind.split)

text \<open>No Python ran, so no \<open>__pycache__\<close> is in question.\<close>

definition tracked :: "overlay \<Rightarrow> bool" where
  "tracked ov \<longleftrightarrow> listed ov \<and> \<not> ov_pycache ov"

definition blurred :: "overlay \<Rightarrow> string \<Rightarrow> bool" where
  "blurred ov p \<longleftrightarrow> unsure_over ov p \<or> maybe_over ov p"

lemma kind_cases:
  assumes "tracked ov" "relative p"
  shows "kind_of ov p = (if blurred ov p then Some UNKNOWN else if has_file ov p then Some FILE
     else if p \<in> ov_dirs ov \<or> holds ov p then Some DIRECTORY
     else if \<exists>e \<in> ov_maybe ov. under p e then Some UNKNOWN else None)"
  using assms by (auto simp: kind_of_def blurred_def relative_def absolute_def TMP_def starts_with_def machine_def
      pycache_in_def tracked_def)

lemma blurred_below: "blurred ov a \<Longrightarrow> at_or_under a p \<Longrightarrow> blurred ov p"
  by (auto simp: blurred_def unsure_over_def maybe_over_def dest: at_or_under_trans)

lemma holds_tracked:
  "tracked ov \<Longrightarrow> holds ov d \<longleftrightarrow> (\<exists>p. has_file ov p \<and> under d p) \<or> (\<exists>p \<in> ov_dirs ov. under d p)"
  by (simp add: holds_iff tracked_def)

lemma agrees_kind:
  assumes "agrees ov w" "relative p"
  shows "kind_of ov p = Some FILE \<Longrightarrow> \<exists>t. w p = Some (File t)"
    "kind_of ov p = Some DIRECTORY \<Longrightarrow> w p = Some Dir" "kind_of ov p = None \<Longrightarrow> w p = None"
proof -
  have at: "agrees_at ov w p" using assms by (simp add: agrees_def)
  show "kind_of ov p = Some FILE \<Longrightarrow> \<exists>t. w p = Some (File t)" using at by (auto simp: agrees_at_def)
  show "kind_of ov p = Some DIRECTORY \<Longrightarrow> w p = Some Dir" "kind_of ov p = None \<Longrightarrow> w p = None"
    using at by (simp_all add: agrees_at_def)
qed

text \<open>Everything on the way to a directory that is known is a directory that is known.\<close>

lemma known_above:
  assumes "tracked ov" "agrees ov w" "world_ok w" "relative p" "kind_of ov p = Some DIRECTORY" "under a p"
  shows "kind_of ov a = Some DIRECTORY"
proof -
  note rel = relative_under [OF assms(6,4)]
  note kp = kind_cases [OF assms(1,4)] and ka = kind_cases [OF assms(1) rel]
  have "\<not> blurred ov p" using assms(5) unfolding kp by (simp split: if_split_asm)
  then have clear: "\<not> blurred ov a" using blurred_below [of ov a p] assms(6) by (auto simp: at_or_under_def)
  have "p \<in> ov_dirs ov \<or> holds ov p" using assms(5) unfolding kp by (simp split: if_split_asm)
  then have "holds ov a"
    unfolding holds_tracked [OF assms(1)] using under_trans [OF assms(6)] assms(6) by blast
  moreover have "\<not> has_file ov a"
  proof
    assume "has_file ov a"
    then have "kind_of ov a = Some FILE" using ka clear by simp
    with agrees_kind(1) [OF assms(2) rel] obtain t where "w a = Some (File t)" by blast
    moreover have "w a = Some Dir"
      using assms(3,4,6) agrees_kind(2) [OF assms(2,4,5)] unfolding world_ok_def by force
    ultimately show False by simp
  qed
  ultimately show ?thesis using ka clear by simp
qed

text \<open>A path whose directory is known to be there, or that needs none.\<close>

definition homed :: "overlay \<Rightarrow> string \<Rightarrow> bool" where
  "homed ov p \<longleftrightarrow> kind_of ov (parent_of p) = Some DIRECTORY"

lemma homed_above:
  assumes "tracked ov" "agrees ov w" "world_ok w" "relative p" "homed ov p" "under a p"
  shows "kind_of ov a = Some DIRECTORY"
proof (cases "a = parent_of p")
  case True
  then show ?thesis using assms(5) by (simp add: homed_def)
next
  case False
  then have "under a (parent_of p)" "under (parent_of p) p" using assms(6) under_parent by blast+
  then show ?thesis using known_above [OF assms(1-3) _ _ \<open>under a (parent_of p)\<close>] assms(4,5) relative_under
    by (auto simp: homed_def)
qed

text \<open>Doubt is always sound: more may be in question, and the world may differ where it is.\<close>

lemma blur_agrees:
  assumes "tracked ov" "agrees ov w" "ov_maybe ov \<subseteq> M" "ov_unsure ov \<subseteq> U"
    and "\<And>p. relative p \<Longrightarrow> w' p \<noteq> w p \<Longrightarrow> (\<exists>m \<in> M. at_or_under m p) \<or> (\<exists>u \<in> U. u = [] \<or> at_or_under u p)"
  shows "agrees (ov\<lparr>ov_maybe := M, ov_unsure := U\<rparr>) w'"
proof -
  let ?ov = "ov\<lparr>ov_maybe := M, ov_unsure := U\<rparr>"
  have tracked: "tracked ?ov" using assms(1) by (simp add: tracked_def listed_def)
  have files: "has_file ?ov p = has_file ov p" for p by (simp add: has_file_def in_base_def)
  have held: "holds ?ov p = holds ov p" for p by (simp add: holds_def)
  show ?thesis unfolding agrees_def
  proof (intro allI impI)
    fix p assume rel: "relative p"
    note k = kind_cases [OF assms(1) rel] and k' = kind_cases [OF tracked rel]
    show "agrees_at ?ov w' p"
    proof (cases "kind_of ?ov p = Some UNKNOWN")
      case True
      then show ?thesis by (simp add: agrees_at_def)
    next
      case False
      then have clear: "\<not> blurred ?ov p" using k' by (auto split: if_splits)
      then have same: "w' p = w p" using assms(5) [OF rel] by (auto simp: blurred_def unsure_over_def maybe_over_def)
      have "\<not> blurred ov p" using clear assms(3,4) by (auto simp: blurred_def unsure_over_def maybe_over_def)
      then have kind: "kind_of ?ov p = kind_of ov p"
        using False k k' clear assms(3) by (auto simp: files held split: if_splits)
      moreover have "ov_read_base ?ov = ov_read_base ov" by simp
      then have "text_of ?ov p = text_of ov p" unfolding text_of_def kind by (cases "ov_content ov p") simp_all
      ultimately have "agrees_at ?ov w' p \<longleftrightarrow> agrees_at ov w p" using same by (intro agrees_at_same) simp_all
      then show ?thesis using assms(2) rel by (simp add: agrees_def)
    qed
  qed
qed

section \<open>The changes\<close>

lemma text_of_put: "q \<noteq> p \<Longrightarrow> kind_of (put p t True ov) q = kind_of ov q \<Longrightarrow> text_of (put p t True ov) q = text_of ov q"
  by (cases "ov_content ov q") (auto simp: text_of_def put_def forget_def know_def Let_def split: option.splits)

lemma put_fields:
  "ov_base (put p t True ov) = ov_base ov" "ov_unsure (put p t True ov) = ov_unsure ov"
  "ov_maybe (put p t True ov) = ov_maybe ov - {p}" "ov_dirs (put p t True ov) = ov_dirs ov"
  "ov_pycache (put p t True ov) = ov_pycache ov"
  by (auto simp: put_def forget_def know_def Let_def split: option.splits)

lemma in_base_cong: "ov_base ov' = ov_base ov \<Longrightarrow> in_base ov' = in_base ov"
  by (intro ext) (simp add: in_base_def)

lemma has_file_put: "has_file (put p t True ov) q \<longleftrightarrow> q = p \<or> has_file ov q"
proof -
  have base: "in_base (ov\<lparr>ov_maybe := M, ov_deleted := D\<rparr>) r = in_base ov r" for M D r by (simp add: in_base_def)
  have "in_base (put p t True ov) r = in_base ov r" for r using in_base_cong [OF put_fields(1)] by metis
  then show ?thesis
    by (cases "in_base ov p") (auto simp: has_file_def put_def forget_def know_def Let_def base split: option.splits)
qed

lemma tracked_put: "tracked ov \<Longrightarrow> tracked (put p t True ov)"
  by (auto simp: tracked_def listed_def put_def forget_def know_def Let_def split: option.splits)

definition fits :: "string option \<Rightarrow> string \<Rightarrow> bool" where
  "fits t s \<longleftrightarrow> (case t of None \<Rightarrow> True | Some r \<Rightarrow> r = s)"

lemma fits_iff: "fits t s \<longleftrightarrow> (\<forall>r. t = Some r \<longrightarrow> r = s)"
  by (simp add: fits_def split: option.split)

lemma put_agrees:
  assumes "tracked ov" "agrees ov w" "world_ok w" "relative p" "homed ov p"
    and "kind_of ov p = Some FILE \<or> kind_of ov p = None" "fits t s"
  shows "agrees (put p t True ov) (w(p \<mapsto> File s))"
  unfolding agrees_def
proof (intro allI impI)
  let ?ov = "put p t True ov" and ?w = "w(p \<mapsto> File s)"
  fix q assume rel: "relative q"
  note tracked = tracked_put [OF assms(1), of p t]
  note k = kind_cases [OF assms(1) rel] and k' = kind_cases [OF tracked rel] and kp = kind_cases [OF assms(1,4)]
  have clear: "\<not> blurred ov p" using assms(6) unfolding kp by (auto split: if_split_asm)
  then have "p \<notin> ov_maybe ov" by (auto simp: blurred_def maybe_over_def at_or_under_def)
  then have maybe: "ov_maybe ?ov = ov_maybe ov" by (simp add: put_fields)
  have blur: "blurred ?ov r = blurred ov r" for r
    by (simp add: blurred_def unsure_over_def maybe_over_def maybe put_fields(2))
  have held: "holds ?ov q \<longleftrightarrow> holds ov q \<or> under q p"
    by (auto simp: holds_tracked [OF assms(1)] holds_tracked [OF tracked] has_file_put put_fields)
  show "agrees_at ?ov ?w q"
  proof (cases "q = p")
    case True
    then have "kind_of ?ov q = Some FILE" using k' clear by (simp add: blur has_file_put)
    moreover have "text_of ?ov q = Some r \<Longrightarrow> r = s" for r
      using assms(7) True
      by (auto simp: fits_iff text_of_def put_def forget_def know_def Let_def split: option.splits if_splits)
    ultimately show ?thesis by (simp add: agrees_at_def True)
  next
    case False
    have "kind_of ?ov q = kind_of ov q"
    proof (cases "under q p")
      case True
      then have "kind_of ov q = Some DIRECTORY" using homed_above [OF assms(1-5)] by blast
      then show ?thesis unfolding k k' blur has_file_put put_fields held using False True by (simp split: if_split_asm)
    next
      case not_above: False
      then show ?thesis unfolding k k' blur has_file_put put_fields(4) held maybe using False by simp
    qed
    with agrees_at_same [of ?ov q ov ?w w] text_of_put [OF False] False
    show ?thesis using assms(2) rel by (simp add: agrees_def)
  qed
qed

lemma world_put:
  assumes "world_ok w" "\<And>a. under a p \<Longrightarrow> w a = Some Dir" "n = Dir \<or> (\<forall>q. under p q \<and> relative q \<longrightarrow> w q = None)"
  shows "world_ok (w(p \<mapsto> n))"
  using assms unfolding world_ok_def by auto

lemma text_forget: "text_of (forget p ov) p = None"
  by (simp add: text_of_def forget_def)

lemma kind_cong:
  assumes "ov_base ov' = ov_base ov" "ov_created ov' = ov_created ov" "ov_deleted ov' = ov_deleted ov" "ov_dirs ov' = ov_dirs ov"
    "ov_maybe ov' = ov_maybe ov" "ov_unsure ov' = ov_unsure ov" "ov_tmp_open ov' = ov_tmp_open ov" "ov_pycache ov' = ov_pycache ov"
  shows "kind_of ov' q = kind_of ov q"
  unfolding kind_of_def unsure_over_def maybe_over_def has_file_def in_base_def holds_def machine_def pycache_in_def
    files_under_def base_under_def Let_def assms ..

lemma kind_forget: "kind_of (forget p ov) q = kind_of ov q"
  by (rule kind_cong) (simp_all add: forget_def)

lemma forget_agrees:
  assumes "agrees ov w" "\<And>q. q \<noteq> p \<Longrightarrow> w' q = w q" "kind_of ov p = Some FILE" "w' p = Some (File s)"
  shows "agrees (forget p ov) w'"
  unfolding agrees_def
proof (intro allI impI)
  fix q assume rel: "relative q"
  show "agrees_at (forget p ov) w' q"
  proof (cases "q = p")
    case True
    then show ?thesis using assms(3,4) by (simp add: agrees_at_def kind_forget text_forget)
  next
    case False
    have "text_of (forget p ov) q = text_of ov q"
      using False by (cases "ov_content ov q") (simp_all add: text_of_def kind_forget, simp_all add: forget_def)
    then have "agrees_at (forget p ov) w' q \<longleftrightarrow> agrees_at ov w q"
      using False assms(2) by (intro agrees_at_same) (simp_all add: kind_forget)
    then show ?thesis using assms(1) rel by (simp add: agrees_def)
  qed
qed

text \<open>An uncertain write, whether it happened or not.\<close>

lemma put_unsure_agrees:
  assumes "tracked ov" "agrees ov w" "\<And>q. q \<noteq> p \<Longrightarrow> w' q = w q" "kind_of ov p = Some FILE \<Longrightarrow> \<exists>s. w' p = Some (File s)"
  shows "agrees (put p t False ov) w'"
proof (cases "kind_of ov p = Some FILE")
  case True
  with assms(4) obtain s where "w' p = Some (File s)" by blast
  with forget_agrees [OF assms(2,3) True] True show ?thesis by (simp add: put_def)
next
  case False
  have "agrees (ov\<lparr>ov_maybe := insert p (ov_maybe ov), ov_unsure := ov_unsure ov\<rparr>) w'"
    by (rule blur_agrees [OF assms(1,2)]) (auto simp: at_or_under_def dest: assms(3))
  then show ?thesis using False by (simp add: put_def)
qed

definition remove_tree :: "string \<Rightarrow> world \<Rightarrow> world" where
  "remove_tree p w = (\<lambda>q. if at_or_under p q then None else w q)"

lemma world_remove: "world_ok w \<Longrightarrow> world_ok (remove_tree p w)"
  unfolding world_ok_def remove_tree_def by (metis at_or_under_def under_trans)

lemma exists_known:
  assumes "tracked ov" "agrees ov w" "world_ok w" "relative p" "kind_of ov p = Some FILE \<or> kind_of ov p = Some DIRECTORY" "under a p"
  shows "kind_of ov a = Some DIRECTORY"
proof (cases "kind_of ov p = Some DIRECTORY")
  case True
  then show ?thesis using known_above [OF assms(1-4) _ assms(6)] by simp
next
  case False
  note rel = relative_under [OF assms(6,4)]
  note kp = kind_cases [OF assms(1,4)] and ka = kind_cases [OF assms(1) rel]
  have f: "kind_of ov p = Some FILE" using False assms(5) by simp
  then have p: "\<not> blurred ov p" "has_file ov p" unfolding kp by (simp_all split: if_split_asm)
  then have "\<not> blurred ov a" using blurred_below [of ov a p] assms(6) by (auto simp: at_or_under_def)
  moreover have "holds ov a" unfolding holds_tracked [OF assms(1)] using p(2) assms(6) by blast
  moreover have "\<not> has_file ov a"
  proof
    assume "has_file ov a"
    then have "kind_of ov a = Some FILE" using ka \<open>\<not> blurred ov a\<close> by simp
    with agrees_kind(1) [OF assms(2) rel] obtain t where "w a = Some (File t)" by blast
    moreover have "w a = Some Dir"
      using assms(3,4,6) agrees_kind(1) [OF assms(2,4) f] unfolding world_ok_def by force
    ultimately show False by simp
  qed
  ultimately show ?thesis using ka by simp
qed

lemma doomed_files:
  assumes "tracked ov" "p \<noteq> []"
  shows "set (files_under ov p) \<union> (if has_file ov p then {p} else {}) = {q. has_file ov q \<and> at_or_under p q}"
  using files_under_exact [of ov p] assms by (auto simp: tracked_def at_or_under_def under_def)

lemma within_tree: "p \<noteq> [] \<Longrightarrow> within_path p e = at_or_under p e"
  by (simp add: within_path_def)

lemma drop_fields:
  assumes "tracked ov" "p \<noteq> []"
  shows "ov_base (drop_path p True ov) = ov_base ov" "ov_read_base (drop_path p True ov) = ov_read_base ov"
    "ov_unsure (drop_path p True ov) = {u \<in> ov_unsure ov. \<not> at_or_under p u}"
    "ov_maybe (drop_path p True ov) = {u \<in> ov_maybe ov. \<not> at_or_under p u}"
    "ov_dirs (drop_path p True ov) = {d \<in> ov_dirs ov. \<not> at_or_under p d} \<union> (if parent_of p \<noteq> [] then {parent_of p} else {})"
    "ov_dirty (drop_path p True ov) = ov_dirty ov - {q. has_file ov q \<and> at_or_under p q}"
    "ov_content (drop_path p True ov) = (\<lambda>q. if has_file ov q \<and> at_or_under p q then None else ov_content ov q)"
    "ov_created (drop_path p True ov) = ov_created ov - {q. has_file ov q \<and> at_or_under p q}"
    "ov_deleted (drop_path p True ov) = ov_deleted ov \<union> {q. has_file ov q \<and> at_or_under p q \<and> in_base ov q}"
    "ov_pycache (drop_path p True ov) = ov_pycache ov"
  unfolding drop_path_def Let_def doomed_files [OF assms] by (simp_all add: within_tree [OF assms(2)] conj_assoc)

lemma tracked_drop: "tracked ov \<Longrightarrow> p \<noteq> [] \<Longrightarrow> tracked (drop_path p True ov)"
  by (auto simp: tracked_def listed_def drop_fields [unfolded tracked_def listed_def])

lemma has_file_drop:
  assumes "tracked ov" "p \<noteq> []"
  shows "has_file (drop_path p True ov) q \<longleftrightarrow> has_file ov q \<and> \<not> at_or_under p q"
  using in_base_cong [OF drop_fields(1) [OF assms]] by (auto simp: has_file_def drop_fields [OF assms])

lemma drop_agrees:
  assumes "tracked ov" "agrees ov w" "world_ok w" "relative p" "kind_of ov p = Some FILE \<or> kind_of ov p = Some DIRECTORY"
  shows "agrees (drop_path p True ov) (remove_tree p w)"
  unfolding agrees_def
proof (intro allI impI)
  let ?ov = "drop_path p True ov" and ?w = "remove_tree p w"
  fix q assume rel: "relative q"
  have ne: "p \<noteq> []" using assms(4) by (simp add: relative_def)
  note fields = drop_fields [OF assms(1) ne] and files = has_file_drop [OF assms(1) ne]
  note tracked = tracked_drop [OF assms(1) ne]
  note k = kind_cases [OF assms(1) rel] and k' = kind_cases [OF tracked rel] and kp = kind_cases [OF assms(1,4)]
  have clear: "\<not> blurred ov p" using assms(5) unfolding kp by (auto split: if_split_asm)
  then have sure: "[] \<notin> ov_unsure ov" "\<And>u. u \<in> ov_unsure ov \<union> ov_maybe ov \<Longrightarrow> \<not> at_or_under u p"
    by (auto simp: blurred_def unsure_over_def maybe_over_def)
  have held: "holds ?ov q \<longleftrightarrow> (\<exists>r. has_file ov r \<and> \<not> at_or_under p r \<and> under q r) \<or>
      (\<exists>d \<in> ov_dirs ov. \<not> at_or_under p d \<and> under q d) \<or> (parent_of p \<noteq> [] \<and> under q (parent_of p))"
    by (auto simp: holds_tracked [OF tracked] files fields(5))
  have above: "parent_of p \<noteq> [] \<Longrightarrow> under (parent_of p) p" using under_parent [of "parent_of p" p] by (auto simp: parent_of_def split: if_splits)
  show "agrees_at ?ov ?w q"
  proof (cases "at_or_under p q")
    case True
    have "\<not> at_or_under u q" if "u \<in> ov_unsure ov \<union> ov_maybe ov" "\<not> at_or_under p u" for u
      using that sure(2) [OF that(1)] True under_chain [of u q p] under_trans by (auto simp: at_or_under_def)
    then have "\<not> blurred ?ov q"
      using sure(1) by (auto simp: blurred_def unsure_over_def maybe_over_def fields)
    moreover have "\<not> has_file ?ov q" using True files by simp
    moreover have "q \<notin> ov_dirs ?ov"
    proof
      assume "q \<in> ov_dirs ?ov"
      then have "parent_of p \<noteq> []" "q = parent_of p" using True by (auto simp: fields(5) split: if_split_asm)
      with above have "length q < length p" using under_longer by blast
      moreover have "length p \<le> length q" using True under_longer [of p q] by (auto simp: at_or_under_def)
      ultimately show False by simp
    qed
    moreover have "\<not> holds ?ov q"
    proof -
      have "at_or_under p r" if "under q r" for r
        using True that at_or_under_trans [of p q r] by (simp add: at_or_under_def)
      moreover have "\<not> under q (parent_of p)" if "parent_of p \<noteq> []"
        using above [OF that] True by (auto simp: at_or_under_def dest!: under_longer)
      ultimately show ?thesis unfolding held by blast
    qed
    moreover have "\<not> (\<exists>e \<in> ov_maybe ?ov. under q e)"
      using True at_or_under_trans [of p q] by (auto simp: fields(4) at_or_under_def)
    ultimately have "kind_of ?ov q = None" unfolding k' by simp
    then show ?thesis using True by (simp add: agrees_at_def remove_tree_def)
  next
    case False
    have "\<not> at_or_under p u" if "at_or_under u q" for u using that False at_or_under_trans by blast
    then have blur: "blurred ?ov q \<longleftrightarrow> blurred ov q"
      using sure(1) by (auto simp: blurred_def unsure_over_def maybe_over_def fields)
    have same: "kind_of ?ov q = kind_of ov q"
    proof (cases "under q p")
      case True
      then have kq: "kind_of ov q = Some DIRECTORY" using exists_known [OF assms] by blast
      have "parent_of p \<noteq> []" using True relative_under [OF True assms(4)] under_parent [of q p]
        by (auto simp: relative_def under_prefix)
      then have "q \<in> ov_dirs ?ov \<or> holds ?ov q"
        using True under_parent [of q p] unfolding held by (auto simp: fields(5))
      then show ?thesis using kq blur files unfolding k k' by (auto split: if_split_asm)
    next
      case not_above: False
      have apart: "\<not> at_or_under p r" if "under q r" for r
        using that False not_above under_chain [of q r p] under_trans by (auto simp: at_or_under_def)
      have "parent_of p \<noteq> q" using above not_above rel by (auto simp: relative_def)
      then have "q \<in> ov_dirs ?ov \<longleftrightarrow> q \<in> ov_dirs ov" using False by (auto simp: fields(5))
      moreover have "holds ?ov q \<longleftrightarrow> holds ov q"
        using apart above not_above under_trans unfolding held holds_tracked [OF assms(1)] by blast
      moreover have "(\<exists>e \<in> ov_maybe ?ov. under q e) \<longleftrightarrow> (\<exists>e \<in> ov_maybe ov. under q e)" using apart by (auto simp: fields(4))
      ultimately show ?thesis unfolding k k' blur files using False by simp
    qed
    have "text_of ?ov q = text_of ov q" unfolding text_of_def same fields using False by simp
    with agrees_at_same [OF same, of ?w w] False show ?thesis using assms(2) rel by (simp add: agrees_def remove_tree_def)
  qed
qed

lemma nothing_below: "world_ok w \<Longrightarrow> w p = None \<Longrightarrow> relative q \<Longrightarrow> at_or_under p q \<Longrightarrow> w q = None"
  unfolding world_ok_def at_or_under_def by force

lemma drop_unsure_agrees:
  assumes "tracked ov" "agrees ov w" "world_ok w" "relative p" "w' = w \<or> w' = remove_tree p w"
  shows "agrees (drop_path p False ov) w'"
proof -
  have "agrees (ov\<lparr>ov_maybe := ov_maybe ov \<union> (if kind_of ov p \<noteq> None then {p} else {}) \<union>
        (set (files_under ov p) \<union> (if has_file ov p then {p} else {})) \<union> {d \<in> ov_dirs ov. within_path p d}, ov_unsure := ov_unsure ov\<rparr>) w'"
  proof (rule blur_agrees [OF assms(1,2)])
    fix q assume q: "relative q" "w' q \<noteq> w q"
    then have below: "at_or_under p q" "w q \<noteq> None"
      using assms(5) by (cases "w q"; auto simp: remove_tree_def split: if_splits)+
    have "kind_of ov p \<noteq> None"
    proof
      assume "kind_of ov p = None"
      then have "w p = None" by (rule agrees_kind(3) [OF assms(2,4)])
      then show False using nothing_below [OF assms(3) _ q(1) below(1)] below(2) by simp
    qed
    then show "(\<exists>m \<in> ov_maybe ov \<union> (if kind_of ov p \<noteq> None then {p} else {}) \<union>
        (set (files_under ov p) \<union> (if has_file ov p then {p} else {})) \<union> {d \<in> ov_dirs ov. within_path p d}. at_or_under m q) \<or>
        (\<exists>u \<in> ov_unsure ov. u = [] \<or> at_or_under u q)" using below(1) by auto
  qed auto
  then show ?thesis by (simp add: drop_path_def Let_def Un_assoc)
qed

lemma tracked_make_dir: "tracked ov \<Longrightarrow> tracked (make_dir p certain ov)"
  by (simp add: tracked_def listed_def make_dir_def)

lemma make_dir_kind:
  assumes "tracked ov" "agrees ov w" "world_ok w" "relative p" "homed ov p"
    and "kind_of ov p = Some DIRECTORY \<or> kind_of ov p = None" "relative q"
  shows "kind_of (make_dir p True ov) q = (if q = p then Some DIRECTORY else kind_of ov q)"
proof -
  let ?ov = "make_dir p True ov"
  note k = kind_cases [OF assms(1,7)] and k' = kind_cases [OF tracked_make_dir [OF assms(1)] assms(7)]
  note kp = kind_cases [OF assms(1,4)]
  have clear: "\<not> blurred ov p" and nofile: "\<not> has_file ov p" using assms(6) unfolding kp by (auto split: if_split_asm)
  then have "p \<notin> ov_maybe ov" by (auto simp: blurred_def maybe_over_def at_or_under_def)
  then have maybe: "ov_maybe ?ov = ov_maybe ov" by (simp add: make_dir_def)
  have blur: "blurred ?ov r = blurred ov r" for r
    using maybe by (simp add: blurred_def unsure_over_def maybe_over_def, simp add: make_dir_def)
  have files: "has_file ?ov r = has_file ov r" for r by (simp add: has_file_def in_base_def make_dir_def)
  have dirs: "ov_dirs ?ov = insert p (ov_dirs ov)" by (simp add: make_dir_def)
  have held: "holds ?ov q \<longleftrightarrow> holds ov q \<or> under q p"
    by (auto simp: holds_tracked [OF assms(1)] holds_tracked [OF tracked_make_dir [OF assms(1)]] files dirs)
  show ?thesis
  proof (cases "q = p")
    case True
    then show ?thesis using k' clear nofile by (simp add: blur files dirs)
  next
    case False
    show ?thesis
    proof (cases "under q p")
      case True
      then have "kind_of ov q = Some DIRECTORY" using homed_above [OF assms(1-5)] by blast
      then show ?thesis unfolding k k' blur files dirs held using False True by (simp split: if_split_asm)
    next
      case not_above: False
      then show ?thesis unfolding k k' blur files dirs held maybe using False by simp
    qed
  qed
qed

lemma make_dir_agrees:
  assumes "tracked ov" "agrees ov w" "world_ok w" "relative p" "homed ov p"
    and "kind_of ov p = Some DIRECTORY \<or> kind_of ov p = None"
  shows "agrees (make_dir p True ov) (w(p \<mapsto> Dir))"
  unfolding agrees_def
proof (intro allI impI)
  let ?ov = "make_dir p True ov" and ?w = "w(p \<mapsto> Dir)"
  fix q assume rel: "relative q"
  note kind = make_dir_kind [OF assms rel]
  show "agrees_at ?ov ?w q"
  proof (cases "q = p")
    case False
    then have "text_of ?ov q = text_of ov q"
      by (cases "ov_content ov q") (simp_all add: text_of_def kind, simp_all add: make_dir_def)
    with agrees_at_same [of ?ov q ov ?w w] kind False show ?thesis using assms(2) rel by (simp add: agrees_def)
  next
    case True
    with kind have "kind_of ?ov q = Some DIRECTORY" by simp
    then show ?thesis by (simp add: agrees_at_def True)
  qed
qed

text \<open>A directory that may have been made, or not.\<close>

lemma make_dirs_unsure:
  assumes "tracked ov" "agrees ov w" "\<And>q. relative q \<Longrightarrow> w' q \<noteq> w q \<Longrightarrow> q \<in> set ds"
  shows "agrees (fold (\<lambda>d. make_dir d False) ds ov) w' \<and> tracked (fold (\<lambda>d. make_dir d False) ds ov)"
proof -
  have "fold (\<lambda>d. make_dir d False) ds ov = ov\<lparr>ov_maybe := ov_maybe ov \<union> set ds\<rparr>"
    by (induction ds arbitrary: ov) (simp_all add: make_dir_def)
  moreover have "agrees (ov\<lparr>ov_maybe := ov_maybe ov \<union> set ds, ov_unsure := ov_unsure ov\<rparr>) w'"
    using assms(3) by (intro blur_agrees [OF assms(1,2)]) (auto simp: at_or_under_def)
  ultimately show ?thesis using assms(1) by (simp add: tracked_def listed_def)
qed

section \<open>The chain of a path\<close>

lemma split_on_plain: "c \<notin> set s \<Longrightarrow> split_on c s = [s]"
  by (induction s) auto

lemma path_split_append: "split_on c (a @ c # b) = split_on c a @ split_on c b"
proof (induction a)
  case (Cons x a)
  then show ?case by (cases "split_on c a") auto
qed simp

lemma join_on_Cons: "ws \<noteq> [] \<Longrightarrow> join_on c ((x # w) # ws) = x # join_on c (w # ws)"
  by (cases ws) auto

lemma join_split [simp]: "join_on c (split_on c s) = s"
proof (induction s)
  case (Cons x s)
  then show ?case
    by (cases "split_on c s"; cases "tl (split_on c s)") auto
qed simp

lemma split_on_parent:
  "split_on (CHR ''/'') p = (if CHR ''/'' \<in> set p then split_on (CHR ''/'') (parent_of p) @ [base_name p] else [p])"
proof (cases "CHR ''/'' \<in> set p")
  case True
  note split = parent_split [OF True]
  have "split_on (CHR ''/'') (parent_of p @ CHR ''/'' # base_name p) = split_on (CHR ''/'') (parent_of p) @ [base_name p]"
    unfolding path_split_append using split_on_plain [OF split(2)] by simp
  then show ?thesis using split(1) True by simp
qed (simp add: split_on_plain)

lemma chain_of_parent: "chain_of p = (if CHR ''/'' \<in> set p then chain_of (parent_of p) else []) @ [p]"
proof (cases "CHR ''/'' \<in> set p")
  case True
  let ?xs = "split_on (CHR ''/'') (parent_of p)"
  have xs: "split_on (CHR ''/'') p = ?xs @ [base_name p]" using split_on_parent [of p] True by simp
  then have "join_on (CHR ''/'') (?xs @ [base_name p]) = p" using join_split [of "CHR ''/''" p] by simp
  moreover have "[1..<Suc (length (?xs @ [base_name p]))] = [1..<Suc (length ?xs)] @ [Suc (length ?xs)]" by simp
  moreover have "map (\<lambda>n. join_on (CHR ''/'') (take n (?xs @ [base_name p]))) [1..<Suc (length ?xs)] =
      map (\<lambda>n. join_on (CHR ''/'') (take n ?xs)) [1..<Suc (length ?xs)]"
    by (rule map_cong) auto
  ultimately show ?thesis using True unfolding chain_of_def Let_def xs by (simp only: map_append if_True) simp
next
  case False
  then show ?thesis by (simp add: chain_of_def split_on_plain)
qed

lemma parent_shorter: "CHR ''/'' \<in> set p \<Longrightarrow> length (parent_of p) < length p"
  by (metis under_longer under_parent)

lemma chain_induct [case_names chain]:
  assumes "\<And>p. (CHR ''/'' \<in> set p \<Longrightarrow> P (parent_of p)) \<Longrightarrow> P p"
  shows "P p"
  by (induction p rule: measure_induct_rule [where f = length]) (meson assms parent_shorter)

lemma in_chain: "q \<in> set (chain_of p) \<longleftrightarrow> at_or_under q p"
proof (induction p rule: chain_induct)
  case (chain p)
  show ?case unfolding chain_of_parent [of p] at_or_under_def under_parent [of q p]
    using chain by (auto simp: at_or_under_def)
qed

lemma last_chain [simp]: "last (chain_of p) = p" "chain_of p \<noteq> []"
  by (subst chain_of_parent, simp)+

lemma length_chain: "1 < length (chain_of p) \<longleftrightarrow> CHR ''/'' \<in> set p"
  by (subst chain_of_parent) (simp add: last_chain(2))

lemma butlast_chain: "butlast (chain_of p) = (if CHR ''/'' \<in> set p then chain_of (parent_of p) else [])"
  by (subst chain_of_parent) simp

section \<open>The commands on the machine\<close>

definition dir_at :: "world \<Rightarrow> string \<Rightarrow> bool" where
  "dir_at w d \<longleftrightarrow> d = [] \<or> w d = Some Dir"

definition real_write :: "bool \<Rightarrow> string \<Rightarrow> string \<Rightarrow> world \<Rightarrow> world" where
  "real_write app s p w = (if w p = Some Dir \<or> \<not> dir_at w (parent_of p) then w
     else w(p \<mapsto> File ((case w p of Some (File old) \<Rightarrow> if app then old else [] | _ \<Rightarrow> []) @ s)))"

definition real_rm :: "bool \<Rightarrow> string \<Rightarrow> world \<Rightarrow> world" where
  "real_rm recursive p w = (if w p = None \<or> (w p = Some Dir \<and> \<not> recursive) then w else remove_tree p w)"

definition make_one :: "string \<Rightarrow> world \<Rightarrow> world" where
  "make_one p w = (if w p = None \<and> dir_at w (parent_of p) then w(p \<mapsto> Dir) else w)"

definition real_mkdir :: "bool \<Rightarrow> string \<Rightarrow> world \<Rightarrow> world" where
  "real_mkdir parents p w = fold make_one (if parents then chain_of p else [p]) w"

definition real_touch :: "string \<Rightarrow> world \<Rightarrow> world" where
  "real_touch p w = (if w p = None \<and> dir_at w (parent_of p) then w(p \<mapsto> File []) else w)"

text \<open>
  When the commands themselves succeed: \<open>rm\<close> needs its operand there unless forced, and not a
  directory unless recursive; an operand written with a slash at its end is not a file.
\<close>

definition mkdir_works :: "string \<Rightarrow> world \<Rightarrow> bool" where
  "mkdir_works p w \<longleftrightarrow> w p = None \<and> dir_at w (parent_of p)"

definition slash_fits :: "string \<Rightarrow> string \<Rightarrow> world \<Rightarrow> bool" where
  "slash_fits operand p w \<longleftrightarrow> ends_slash operand \<longrightarrow> \<not> (\<exists>s. w p = Some (File s))"

definition rm_works :: "bool \<Rightarrow> bool \<Rightarrow> string \<Rightarrow> string \<Rightarrow> world \<Rightarrow> bool" where
  "rm_works recursive force operand p w \<longleftrightarrow>
     slash_fits operand p w \<and> (w p = None \<longrightarrow> force) \<and> (w p = Some Dir \<longrightarrow> recursive)"


text \<open>A change with what it was asked to do; a write knows its text or does not.\<close>

datatype change =
    Write bool "string option" string string
  | Remove bool string
  | Mkdir bool string
  | Touch string

fun changed_path :: "change \<Rightarrow> string" where
  "changed_path (Write app t s p) = p"
| "changed_path (Remove recursive p) = p"
| "changed_path (Mkdir parents p) = p"
| "changed_path (Touch p) = p"

fun known_text :: "change \<Rightarrow> bool" where
  "known_text (Write app t s p) = fits t s"
| "known_text _ = True"

fun on_overlay :: "change \<Rightarrow> bool \<Rightarrow> overlay \<Rightarrow> overlay" where
  "on_overlay (Write app t s p) certain = write_path t app certain p"
| "on_overlay (Remove recursive p) certain = rm_path recursive False certain p"
| "on_overlay (Mkdir parents p) certain = mkdir_path parents certain p"
| "on_overlay (Touch p) certain = touch_path certain p"

fun on_world :: "change \<Rightarrow> world \<Rightarrow> world" where
  "on_world (Write app t s p) = real_write app s p"
| "on_world (Remove recursive p) = real_rm recursive p"
| "on_world (Mkdir parents p) = real_mkdir parents p"
| "on_world (Touch p) = real_touch p"

text \<open>Whether the session is sure that the change runs, and whether it really runs.\<close>

type_synonym moment = "change \<times> bool \<times> bool"

definition step_overlay :: "moment \<Rightarrow> overlay \<Rightarrow> overlay" where
  "step_overlay = (\<lambda>(c, certain, runs). on_overlay c certain)"

definition step_world :: "moment \<Rightarrow> world \<Rightarrow> world" where
  "step_world = (\<lambda>(c, certain, runs) w. if runs then on_world c w else w)"

definition fair :: "moment \<Rightarrow> bool" where
  "fair = (\<lambda>(c, certain, runs). relative (changed_path c) \<and> known_text c \<and> (certain \<longrightarrow> runs))"

section \<open>The machine stays a tree\<close>

lemma dirs_above:
  assumes "world_ok w" "relative p" "dir_at w (parent_of p)" "under a p"
  shows "w a = Some Dir"
proof -
  have rel: "relative a" using relative_under assms(2,4) by blast
  show ?thesis
  proof (cases "a = parent_of p")
    case True
    then show ?thesis using assms(3) rel by (simp add: dir_at_def relative_def)
  next
    case False
    then have a: "under a (parent_of p)" "under (parent_of p) p" using under_parent assms(4) by blast+
    then have "relative (parent_of p)" using relative_under assms(2) by blast
    then show ?thesis using a(1) assms(1,3) unfolding world_ok_def dir_at_def relative_def by force
  qed
qed

lemma no_dir_no_tree: "world_ok w \<Longrightarrow> w p \<noteq> Some Dir \<Longrightarrow> under p q \<Longrightarrow> relative q \<Longrightarrow> w q = None"
  unfolding world_ok_def by (meson option.distinct(1))

lemma world_set:
  assumes "world_ok w" "relative p" "dir_at w (parent_of p)" "n = Dir \<or> w p \<noteq> Some Dir"
  shows "world_ok (w(p \<mapsto> n))"
  using assms(4) by (intro world_put [OF assms(1) dirs_above [OF assms(1-3)]])
    (auto intro: no_dir_no_tree [OF assms(1)])

lemma world_make_one: "world_ok w \<Longrightarrow> relative p \<Longrightarrow> world_ok (make_one p w)"
  by (simp add: make_one_def world_set)

lemma world_makes: "world_ok w \<Longrightarrow> \<forall>p \<in> set ps. relative p \<Longrightarrow> world_ok (fold make_one ps w)"
  by (induction ps arbitrary: w) (simp_all add: world_make_one)

lemma chain_relative: "relative p \<Longrightarrow> q \<in> set (chain_of p) \<Longrightarrow> relative q"
  unfolding in_chain at_or_under_def using relative_under by blast

lemma world_change: "world_ok w \<Longrightarrow> relative (changed_path c) \<Longrightarrow> world_ok (on_world c w)"
  by (cases c) (auto simp: real_write_def real_rm_def real_touch_def real_mkdir_def world_remove
      intro: world_set world_makes world_make_one chain_relative)

section \<open>One change\<close>

lemma kinds: "k = None \<or> k = Some FILE \<or> k = Some DIRECTORY \<or> k = Some UNKNOWN"
  by (metis option.exhaust path_kind.exhaust)

lemma tracked_put_any: "tracked ov \<Longrightarrow> tracked (put p t certain ov)"
  by (cases certain) (simp_all add: tracked_put, simp add: tracked_def listed_def put_def forget_def)

lemma tracked_drop_any: "tracked ov \<Longrightarrow> p \<noteq> [] \<Longrightarrow> tracked (drop_path p certain ov)"
  by (cases certain) (simp_all add: tracked_drop, simp add: tracked_def listed_def drop_path_def Let_def)

lemma dir_known:
  assumes "agrees ov w" "relative p"
  shows "kind_of ov (parent_of p) = Some DIRECTORY \<Longrightarrow> dir_at w (parent_of p)"
    "kind_of ov (parent_of p) = None \<or> kind_of ov (parent_of p) = Some FILE \<Longrightarrow> \<not> dir_at w (parent_of p)"
proof -
  have rel: "parent_of p \<noteq> [] \<Longrightarrow> relative (parent_of p)"
    using relative_under [OF _ assms(2)] under_parent [of "parent_of p" p] by (auto simp: parent_of_def split: if_splits)
  have top: "kind_of ov [] = Some DIRECTORY" by (simp add: kind_of_def)
  show "kind_of ov (parent_of p) = Some DIRECTORY \<Longrightarrow> dir_at w (parent_of p)"
    using agrees_kind(2) [OF assms(1) rel] by (auto simp: dir_at_def)
  show "kind_of ov (parent_of p) = None \<or> kind_of ov (parent_of p) = Some FILE \<Longrightarrow> \<not> dir_at w (parent_of p)"
    using agrees_kind(1,3) [OF assms(1) rel] top by (fastforce simp: dir_at_def)
qed

lemma relative_machine: "relative p \<Longrightarrow> \<not> machine ov p"
  by (simp add: relative_def machine_def)

lemma write_text:
  assumes "agrees_at ov w p" "fits t s" "kind_of ov p = Some FILE \<or> kind_of ov p = None"
  shows "fits (if app \<and> kind_of ov p \<noteq> None
      then (case (text_of ov p, t) of (Some held, Some s) \<Rightarrow> Some (held @ s) | _ \<Rightarrow> None) else t)
    ((case w p of Some (File old) \<Rightarrow> if app then old else [] | _ \<Rightarrow> []) @ s)"
proof (cases "kind_of ov p = None")
  case True
  then have "w p = None" using assms(1) by (simp add: agrees_at_def)
  then show ?thesis using True assms(2) by simp
next
  case False
  then have "kind_of ov p = Some FILE" using assms(3) by argo
  then obtain old where "w p = Some (File old)" "\<And>r. text_of ov p = Some r \<Longrightarrow> r = old"
    using assms(1) by (auto simp: agrees_at_def)
  then show ?thesis using assms(2) False by (cases "text_of ov p"; cases t) (auto simp: fits_iff)
qed

lemma write_agrees:
  assumes "tracked ov" "agrees ov w" "world_ok w" "relative p" "fits t s" "certain \<Longrightarrow> runs"
  shows "agrees (write_path t app certain p ov) (if runs then real_write app s p w else w) \<and>
    tracked (write_path t app certain p ov)"
proof -
  let ?w = "if runs then real_write app s p w else w"
  let ?t = "if app \<and> kind_of ov p \<noteq> None
      then (case (text_of ov p, t) of (Some held, Some s) \<Rightarrow> Some (held @ s) | _ \<Rightarrow> None) else t"
  have apart: "q \<noteq> p \<Longrightarrow> ?w q = w q" for q by (simp add: real_write_def)
  have held: "kind_of ov p = Some FILE \<Longrightarrow> \<exists>s. ?w p = Some (File s)"
    using agrees_kind(1) [OF assms(2,4)] by (auto simp: real_write_def)
  consider (refused) "kind_of ov p = Some DIRECTORY \<or> kind_of ov (parent_of p) = None \<or> kind_of ov (parent_of p) = Some FILE"
    | (sure) "certain" "kind_of ov p = Some FILE \<or> kind_of ov p = None" "kind_of ov (parent_of p) = Some DIRECTORY"
    | (unsure) "write_path t app certain p ov = put p ?t False ov"
    using kinds [of "kind_of ov p"] kinds [of "kind_of ov (parent_of p)"]
    by (cases certain; auto simp: write_path_def Let_def relative_machine [OF assms(4)])
  then show ?thesis
  proof cases
    case refused
    then have "write_path t app certain p ov = ov" by (simp add: write_path_def)
    moreover have "?w = w" using refused agrees_kind(2) [OF assms(2,4)] dir_known(2) [OF assms(2,4)] by (auto simp: real_write_def)
    ultimately show ?thesis using assms(1,2) by simp
  next
    case sure
    then have wp: "write_path t app certain p ov = put p ?t True ov" by (auto simp: write_path_def Let_def)
    have not_dir: "w p \<noteq> Some Dir" using sure(2) agrees_kind(1,3) [OF assms(2,4)] by auto
    have at: "agrees_at ov w p" using assms(2,4) by (simp add: agrees_def)
    have w': "?w = w(p \<mapsto> File ((case w p of Some (File old) \<Rightarrow> if app then old else [] | _ \<Rightarrow> []) @ s))"
      using sure(1) assms(6) not_dir dir_known(1) [OF assms(2,4) sure(3)] by (simp add: real_write_def)
    have "agrees (put p ?t True ov) ?w" unfolding w'
      by (rule put_agrees [OF assms(1-4) _ sure(2) write_text [OF at assms(5) sure(2)]]) (simp add: homed_def sure(3))
    then show ?thesis using tracked_put_any [OF assms(1)] unfolding wp by blast
  next
    case unsure
    show ?thesis unfolding unsure using put_unsure_agrees [OF assms(1,2) apart held] tracked_put_any [OF assms(1)] by blast
  qed
qed

lemma touch_agrees:
  assumes "tracked ov" "agrees ov w" "world_ok w" "relative p" "certain \<Longrightarrow> runs"
  shows "agrees (touch_path certain p ov) (if runs then real_touch p w else w) \<and> tracked (touch_path certain p ov)"
proof -
  let ?w = "if runs then real_touch p w else w"
  have apart: "q \<noteq> p \<Longrightarrow> ?w q = w q" for q by (simp add: real_touch_def)
  consider (kept) "kind_of ov p = Some FILE \<or> kind_of ov p = Some DIRECTORY \<or> kind_of ov (parent_of p) = None \<or> kind_of ov (parent_of p) = Some FILE"
    | (sure) "certain" "kind_of ov p = None" "kind_of ov (parent_of p) = Some DIRECTORY"
    | (unsure) "touch_path certain p ov = put p (Some []) False ov" "kind_of ov p \<noteq> Some FILE"
    using kinds [of "kind_of ov p"] kinds [of "kind_of ov (parent_of p)"] by (cases certain; auto simp: touch_path_def Let_def)
  then show ?thesis
  proof cases
    case kept
    then have "touch_path certain p ov = ov" by (auto simp: touch_path_def)
    moreover have "?w = w" using kept agrees_kind(1,2) [OF assms(2,4)] dir_known(2) [OF assms(2,4)] by (auto simp: real_touch_def)
    ultimately show ?thesis using assms(1,2) by simp
  next
    case sure
    then have tp: "touch_path certain p ov = put p (Some []) True ov" by (auto simp: touch_path_def Let_def)
    have w': "?w = w(p \<mapsto> File [])"
      using sure(1) assms(5) agrees_kind(3) [OF assms(2,4) sure(2)] dir_known(1) [OF assms(2,4) sure(3)] by (simp add: real_touch_def)
    have "agrees (put p (Some []) True ov) ?w" unfolding w'
      by (rule put_agrees [OF assms(1-4)]) (simp_all add: homed_def sure fits_iff)
    then show ?thesis using tracked_put_any [OF assms(1)] unfolding tp by blast
  next
    case unsure
    have "agrees (put p (Some []) False ov) ?w"
      by (rule put_unsure_agrees [OF assms(1,2) apart]) (use unsure(2) in simp_all)
    then show ?thesis unfolding unsure(1) using tracked_put_any [OF assms(1)] by blast
  qed
qed

lemma rm_agrees:
  assumes "tracked ov" "agrees ov w" "world_ok w" "relative p" "certain \<Longrightarrow> runs"
  shows "agrees (rm_path recursive False certain p ov) (if runs then real_rm recursive p w else w) \<and>
    tracked (rm_path recursive False certain p ov)"
proof -
  let ?w = "if runs then real_rm recursive p w else w"
  have ne: "p \<noteq> []" using assms(4) by (simp add: relative_def)
  note drop_tracked = tracked_drop_any [OF assms(1) ne]
  have either: "?w = w \<or> ?w = remove_tree p w" by (simp add: real_rm_def)
  consider (kept) "kind_of ov p = None \<or> (kind_of ov p = Some DIRECTORY \<and> \<not> recursive)"
    | (sure) "certain" "kind_of ov p = Some FILE \<or> (kind_of ov p = Some DIRECTORY \<and> recursive)"
    | (unsure) "rm_path recursive False certain p ov = drop_path p False ov"
    using kinds [of "kind_of ov p"] by (cases certain; cases recursive; auto simp: rm_path_def Let_def)
  then show ?thesis
  proof cases
    case kept
    then have "rm_path recursive False certain p ov = ov" by (auto simp: rm_path_def)
    moreover have "?w = w" using kept agrees_kind(2,3) [OF assms(2,4)] by (auto simp: real_rm_def)
    ultimately show ?thesis using assms(1,2) by simp
  next
    case sure
    then have "rm_path recursive False certain p ov = drop_path p True ov" by (auto simp: rm_path_def Let_def)
    moreover have "?w = remove_tree p w"
      using sure assms(5) agrees_kind(1,2) [OF assms(2,4)] by (auto simp: real_rm_def)
    ultimately show ?thesis using drop_agrees [OF assms(1-4)] sure(2) drop_tracked by auto
  next
    case unsure
    show ?thesis unfolding unsure using drop_unsure_agrees [OF assms(1-4) either] drop_tracked by blast
  qed
qed

text \<open>A file on the way, or a parent that is not there, and nothing is made.\<close>

lemma make_one_blocked: "\<not> (w p = None \<and> dir_at w (parent_of p)) \<Longrightarrow> make_one p w = w"
  by (auto simp: make_one_def)

lemma makes_nothing: "\<forall>p \<in> set ps. \<not> (w p = None \<and> dir_at w (parent_of p)) \<Longrightarrow> fold make_one ps w = w"
  by (induction ps) (simp_all add: make_one_blocked)

lemma file_blocks:
  assumes "world_ok w" "relative p" "at_or_under f p" "w f = Some (File s)" "at_or_under q p"
  shows "\<not> (w q = None \<and> dir_at w (parent_of q))"
proof
  assume q: "w q = None \<and> dir_at w (parent_of q)"
  have rel: "relative f" "relative q" using assms(2,3,5) relative_under unfolding at_or_under_def by blast+
  have "q = f \<or> under q f \<or> under f q" using assms(3,5) under_chain [of q p f] by (auto simp: at_or_under_def)
  moreover have "\<not> under q f" using assms(1,4) q rel(1) unfolding world_ok_def by force
  moreover have "\<not> under f q" using dirs_above [OF assms(1) rel(2)] q assms(4) by force
  ultimately show False using q assms(4) by simp
qed

lemma makes_only: "fold make_one ps w q \<noteq> w q \<Longrightarrow> q \<in> set ps \<and> w q = None"
proof (induction ps arbitrary: w)
  case (Cons p ps)
  show ?case
  proof (cases "make_one p w q = w q")
    case True
    then show ?thesis using Cons.IH [of "make_one p w"] Cons.prems by simp
  next
    case False
    then show ?thesis by (simp add: make_one_def split: if_split_asm)
  qed
qed simp

definition make_missing :: "(string \<Rightarrow> path_kind option) \<Rightarrow> bool \<Rightarrow> string \<Rightarrow> overlay \<Rightarrow> overlay" where
  "make_missing k sure d ov = (if k d \<noteq> Some DIRECTORY then make_dir d sure ov else ov)"

lemma fold_zip_kinds:
  "fold (\<lambda>(d, kind) ov. if kind \<noteq> Some DIRECTORY then make_dir d sure ov else ov) (zip ps (map k ps)) ov =
     fold (make_missing k sure) ps ov"
  by (induction ps arbitrary: ov) (simp_all add: make_missing_def)

lemma make_missing_unsure: "fold (make_missing k False) ps = fold (\<lambda>d. make_dir d False) (filter (\<lambda>d. k d \<noteq> Some DIRECTORY) ps)"
  by (induction ps) (auto simp: make_missing_def)

lemma makes_agree:
  assumes "tracked ov" "agrees ov w" "world_ok w" "relative p"
    and "\<And>q. at_or_under q p \<Longrightarrow> kind_of ov q = None \<or> kind_of ov q = Some DIRECTORY"
  shows "let ov' = fold (make_missing (kind_of ov) True) (chain_of p) ov; w' = fold make_one (chain_of p) w in
    tracked ov' \<and> agrees ov' w' \<and> world_ok w' \<and>
    (\<forall>q. relative q \<longrightarrow> kind_of ov' q = (if at_or_under q p then Some DIRECTORY else kind_of ov q))"
  using assms(4,5)
proof (induction p rule: chain_induct)
  case (chain p)
  let ?par = "if CHR ''/'' \<in> set p then chain_of (parent_of p) else []"
  let ?ov = "fold (make_missing (kind_of ov) True) ?par ov" and ?w = "fold make_one ?par w"
  let ?below = "\<lambda>q. CHR ''/'' \<in> set p \<and> at_or_under q (parent_of p)"
  have below: "at_or_under q p \<longleftrightarrow> q = p \<or> ?below q" for q
    unfolding at_or_under_def under_parent [of q p] by blast
  have before: "tracked ?ov \<and> agrees ?ov ?w \<and> world_ok ?w \<and>
      (\<forall>q. relative q \<longrightarrow> kind_of ?ov q = (if ?below q then Some DIRECTORY else kind_of ov q))"
  proof (cases "CHR ''/'' \<in> set p")
    case True
    have "under (parent_of p) p" using under_parent True by blast
    then have "relative (parent_of p)" using relative_under chain.prems(1) by blast
    then show ?thesis using chain.IH [OF True] chain.prems(2) True below by (simp add: Let_def)
  qed (use assms(1-3) in simp)
  then have tr: "tracked ?ov" and ag: "agrees ?ov ?w" and ok: "world_ok ?w"
    and kind: "\<And>q. relative q \<Longrightarrow> kind_of ?ov q = (if ?below q then Some DIRECTORY else kind_of ov q)" by blast+
  have "\<not> ?below p" using parent_shorter [of p] under_longer [of p "parent_of p"] by (auto simp: at_or_under_def)
  then have kp: "kind_of ?ov p = kind_of ov p" using kind [OF chain.prems(1)] by (simp only: if_False)
  have "kind_of ?ov (parent_of p) = Some DIRECTORY"
  proof (cases "CHR ''/'' \<in> set p")
    case True
    then have "relative (parent_of p)" using relative_under chain.prems(1) under_parent by blast
    then show ?thesis using kind True by (simp add: at_or_under_def)
  qed (simp add: parent_of_def kind_of_def)
  then have home: "homed ?ov p" and at: "dir_at ?w (parent_of p)"
    using dir_known(1) [OF ag chain.prems(1)] by (simp_all add: homed_def)
  have "kind_of ov p = None \<or> kind_of ov p = Some DIRECTORY" using chain.prems(2) by (simp add: at_or_under_def)
  then consider (new) "kind_of ov p = None" | (old) "kind_of ov p = Some DIRECTORY" by metis
  then have "tracked (make_missing (kind_of ov) True p ?ov) \<and> agrees (make_missing (kind_of ov) True p ?ov) (make_one p ?w) \<and>
      world_ok (make_one p ?w) \<and>
      (\<forall>q. relative q \<longrightarrow> kind_of (make_missing (kind_of ov) True p ?ov) q = (if at_or_under q p then Some DIRECTORY else kind_of ov q))"
  proof cases
    case new
    then have k: "kind_of ?ov p = Some DIRECTORY \<or> kind_of ?ov p = None" using kp by simp
    have "?w p = None" using agrees_kind(3) [OF ag chain.prems(1)] new kp by simp
    then have "make_one p ?w = ?w(p \<mapsto> Dir)" using at by (simp add: make_one_def)
    moreover have "make_missing (kind_of ov) True p ?ov = make_dir p True ?ov" using new by (simp add: make_missing_def)
    ultimately show ?thesis
      using make_dir_agrees [OF tr ag ok chain.prems(1) home k] make_dir_kind [OF tr ag ok chain.prems(1) home k]
        tracked_make_dir [OF tr] world_make_one [OF ok chain.prems(1)] kind below by auto
  next
    case old
    then have "?w p = Some Dir" using agrees_kind(2) [OF ag chain.prems(1)] kp by simp
    then have "make_one p ?w = ?w" by (simp add: make_one_def)
    moreover have "make_missing (kind_of ov) True p ?ov = ?ov" using old by (simp add: make_missing_def)
    ultimately show ?thesis using tr ag ok kind below old by auto
  qed
  then show ?case by (subst (1 2) chain_of_parent) (simp add: Let_def)
qed

text \<open>The world may differ where the overlay does not know.\<close>

lemma agrees_unknown:
  assumes "agrees ov w" "\<And>q. relative q \<Longrightarrow> w' q \<noteq> w q \<Longrightarrow> kind_of ov q = Some UNKNOWN"
  shows "agrees ov w'"
  unfolding agrees_def
proof (intro allI impI)
  fix q assume rel: "relative q"
  show "agrees_at ov w' q"
  proof (cases "kind_of ov q = Some UNKNOWN")
    case True
    then show ?thesis by (simp add: agrees_at_def)
  next
    case False
    then have "w' q = w q" using assms(2) rel by blast
    with agrees_at_same [of ov q ov w' w] assms(1) rel show ?thesis by (simp add: agrees_def)
  qed
qed

lemma kind_present: "agrees ov w \<Longrightarrow> relative p \<Longrightarrow> w p = None \<Longrightarrow> kind_of ov p = None \<or> kind_of ov p = Some UNKNOWN"
  using kinds [of "kind_of ov p"] agrees_kind(1,2) [of ov w p] by auto

definition refuses_mkdir :: "bool \<Rightarrow> string \<Rightarrow> overlay \<Rightarrow> bool" where
  "refuses_mkdir parents p ov \<longleftrightarrow> (\<exists>q. at_or_under q p \<and> kind_of ov q = Some FILE) \<or>
     (\<not> parents \<and> (kind_of ov p \<noteq> None \<or> kind_of ov (parent_of p) = None))"

lemma mkdir_path_cases:
  "mkdir_path parents certain p ov = (if refuses_mkdir parents p ov then ov
     else fold (make_missing (kind_of ov) (certain \<and> (\<forall>q. at_or_under q p \<longrightarrow> kind_of ov q \<noteq> Some UNKNOWN)))
       (if parents then chain_of p else [p]) ov)"
proof -
  let ?kinds = "map (kind_of ov) (chain_of p)"
  have last_kind: "last ?kinds = kind_of ov p" by (simp add: last_map)
  have kin: "Some k \<in> set ?kinds \<longleftrightarrow> (\<exists>q. at_or_under q p \<and> kind_of ov q = Some k)" for k
    unfolding set_map image_iff in_chain Bex_def by (metis in_chain)
  have "1 < length (chain_of p) \<and> last (butlast ?kinds) = None \<longleftrightarrow> kind_of ov (parent_of p) = None"
  proof (cases "CHR ''/'' \<in> set p")
    case True
    then show ?thesis using length_chain [of p] by (simp add: map_butlast [symmetric] butlast_chain last_map)
  next
    case False
    then have "\<not> 1 < length (chain_of p)" using length_chain [of p] by simp
    moreover have "kind_of ov (parent_of p) = Some DIRECTORY" using False by (simp add: parent_of_def kind_of_def)
    ultimately show ?thesis by simp
  qed
  then have refused: "Some FILE \<in> set ?kinds \<or> (\<not> parents \<and> last ?kinds \<noteq> None) \<or>
      (\<not> parents \<and> 1 < length (chain_of p) \<and> last (butlast ?kinds) = None) \<longleftrightarrow> refuses_mkdir parents p ov"
    unfolding kin last_kind refuses_mkdir_def by argo
  have loop: "fold (\<lambda>(d, kind) ov. if kind \<noteq> Some DIRECTORY then make_dir d sure ov else ov)
      (if parents then zip (chain_of p) ?kinds else [(p, last ?kinds)]) ov =
    fold (make_missing (kind_of ov) sure) (if parents then chain_of p else [p]) ov" for sure
    using fold_zip_kinds [of sure "chain_of p" "kind_of ov" ov] by (simp add: last_kind make_missing_def)
  have sure: "(Some UNKNOWN \<notin> set ?kinds) = (\<forall>q. at_or_under q p \<longrightarrow> kind_of ov q \<noteq> Some UNKNOWN)" unfolding kin by blast
  show ?thesis unfolding mkdir_path_def Let_def loop sure using refused by argo
qed

lemma mkdir_agrees:
  assumes "tracked ov" "agrees ov w" "world_ok w" "relative p" "certain \<Longrightarrow> runs"
  shows "agrees (mkdir_path parents certain p ov) (if runs then real_mkdir parents p w else w) \<and>
    tracked (mkdir_path parents certain p ov)"
proof -
  let ?w = "if runs then real_mkdir parents p w else w"
  let ?ps = "if parents then chain_of p else [p]"
  let ?sure = "certain \<and> (\<forall>q. at_or_under q p \<longrightarrow> kind_of ov q \<noteq> Some UNKNOWN)"
  have rel: "at_or_under q p \<Longrightarrow> relative q" for q using assms(4) relative_under by (auto simp: at_or_under_def)
  have made: "?w q \<noteq> w q \<Longrightarrow> q \<in> set ?ps \<and> w q = None" for q
    using makes_only [of ?ps w q] by (simp add: real_mkdir_def split: if_split_asm)
  consider (refused) "refuses_mkdir parents p ov" | (unsure) "\<not> refuses_mkdir parents p ov" "\<not> ?sure"
    | (one) "\<not> refuses_mkdir parents p ov" "?sure" "\<not> parents"
    | (all) "\<not> refuses_mkdir parents p ov" "?sure" parents by blast
  then show ?thesis
  proof cases
    case refused
    have "agrees ov ?w"
    proof (rule agrees_unknown [OF assms(2)])
      fix q assume q: "relative q" "?w q \<noteq> w q"
      then have run: "real_mkdir parents p w \<noteq> w" by (auto split: if_split_asm)
      then obtain r where r: "r \<in> set ?ps" "w r = None" "dir_at w (parent_of r)"
        using makes_nothing [of ?ps w] by (auto simp: real_mkdir_def)
      then have "at_or_under r p" using in_chain [of r p] by (auto simp: at_or_under_def split: if_split_asm)
      then have "\<not> (\<exists>f. at_or_under f p \<and> kind_of ov f = Some FILE)"
        using file_blocks [OF assms(3,4)] agrees_kind(1) [OF assms(2) rel] r(2,3) by metis
      moreover have "kind_of ov (parent_of p) \<noteq> None" if "\<not> parents"
        using that r dir_known(2) [OF assms(2,4)] by (metis empty_iff insert_iff list.set(1,2))
      ultimately have "\<not> parents" "kind_of ov p \<noteq> None" using refused by (auto simp: refuses_mkdir_def)
      then show "kind_of ov q = Some UNKNOWN" using made [OF q(2)] kind_present [OF assms(2) q(1)] by auto
    qed
    then show ?thesis using refused assms(1) by (simp add: mkdir_path_cases)
  next
    case unsure
    have "kind_of ov q \<noteq> Some DIRECTORY" if "relative q" "w q = None" for q
      using kind_present [OF assms(2) that] by auto
    then have made': "relative q \<Longrightarrow> ?w q \<noteq> w q \<Longrightarrow> q \<in> set (filter (\<lambda>d. kind_of ov d \<noteq> Some DIRECTORY) ?ps)" for q
      using made [of q] unfolding set_filter mem_Collect_eq by metis
    have "mkdir_path parents certain p ov = fold (\<lambda>d. make_dir d False) (filter (\<lambda>d. kind_of ov d \<noteq> Some DIRECTORY) ?ps) ov"
      unfolding mkdir_path_cases make_missing_unsure [symmetric] using unsure by (simp only: if_False)
    then show ?thesis using make_dirs_unsure [OF assms(1,2) made'] by simp
  next
    case one
    then have k: "kind_of ov p = None" "kind_of ov (parent_of p) \<noteq> None" by (simp_all add: refuses_mkdir_def)
    have par: "parent_of p \<noteq> [] \<Longrightarrow> at_or_under (parent_of p) p"
      using under_parent [of "parent_of p" p] by (auto simp: at_or_under_def parent_of_def split: if_splits)
    have "kind_of ov (parent_of p) = Some DIRECTORY"
    proof (cases "parent_of p = []")
      case False
      then show ?thesis using kinds [of "kind_of ov (parent_of p)"] k(2) one(1,2) par by (auto simp: refuses_mkdir_def)
    qed (simp add: kind_of_def)
    then have home: "homed ov p" "dir_at w (parent_of p)" using dir_known(1) [OF assms(2,4)] by (simp_all add: homed_def)
    have "?w = w(p \<mapsto> Dir)"
      using one assms(5) home(2) agrees_kind(3) [OF assms(2,4) k(1)] by (simp add: real_mkdir_def make_one_def)
    moreover have "mkdir_path parents certain p ov = make_dir p True ov"
      unfolding mkdir_path_cases using one k(1) by (simp add: make_missing_def)
    ultimately show ?thesis using make_dir_agrees [OF assms(1-4) home(1)] tracked_make_dir [OF assms(1)] k(1) by simp
  next
    case all
    have "kind_of ov q = None \<or> kind_of ov q = Some DIRECTORY" if "at_or_under q p" for q
      using kinds [of "kind_of ov q"] all(1,2) that by (auto simp: refuses_mkdir_def)
    note makes_agree [OF assms(1-4) this]
    moreover have "mkdir_path parents certain p ov = fold (make_missing (kind_of ov) True) (chain_of p) ov"
      unfolding mkdir_path_cases using all by simp
    moreover have "?w = fold make_one (chain_of p) w" using all assms(5) by (simp add: real_mkdir_def)
    ultimately show ?thesis by (simp add: Let_def)
  qed
qed

section \<open>A session\<close>

lemma change_agrees:
  assumes "tracked ov" "agrees ov w" "world_ok w" "fair m"
  shows "tracked (step_overlay m ov) \<and> agrees (step_overlay m ov) (step_world m w) \<and> world_ok (step_world m w)"
proof -
  obtain c certain runs where m: "m = (c, certain, runs)" by (cases m)
  have ok: "relative (changed_path c)" "known_text c" "certain \<Longrightarrow> runs" using assms(4) by (simp_all add: fair_def m)
  have "world_ok (step_world m w)" using world_change [OF assms(3) ok(1)] assms(3) by (simp add: step_world_def m)
  moreover have "tracked (step_overlay m ov) \<and> agrees (step_overlay m ov) (step_world m w)"
  proof (cases c)
    case (Write app t s p)
    have "agrees (write_path t app certain p ov) (if runs then real_write app s p w else w) \<and> tracked (write_path t app certain p ov)"
      by (rule write_agrees [OF assms(1-3)]) (use ok Write in simp_all)
    then show ?thesis by (cases runs) (simp_all add: step_overlay_def step_world_def m Write)
  next
    case (Remove recursive p)
    have "agrees (rm_path recursive False certain p ov) (if runs then real_rm recursive p w else w) \<and>
        tracked (rm_path recursive False certain p ov)"
      by (rule rm_agrees [OF assms(1-3)]) (use ok Remove in simp_all)
    then show ?thesis by (cases runs) (simp_all add: step_overlay_def step_world_def m Remove)
  next
    case (Mkdir parents p)
    have "agrees (mkdir_path parents certain p ov) (if runs then real_mkdir parents p w else w) \<and>
        tracked (mkdir_path parents certain p ov)"
      by (rule mkdir_agrees [OF assms(1-3)]) (use ok Mkdir in simp_all)
    then show ?thesis by (cases runs) (simp_all add: step_overlay_def step_world_def m Mkdir)
  next
    case (Touch p)
    have "agrees (touch_path certain p ov) (if runs then real_touch p w else w) \<and> tracked (touch_path certain p ov)"
      by (rule touch_agrees [OF assms(1-3)]) (use ok Touch in simp_all)
    then show ?thesis by (cases runs) (simp_all add: step_overlay_def step_world_def m Touch)
  qed
  ultimately show ?thesis by blast
qed

text \<open>A run is mirrored when each of its steps is.\<close>

locale simulation =
  fixes mirrors :: "'a \<Rightarrow> 'w \<Rightarrow> bool" and step_model :: "'m \<Rightarrow> 'a \<Rightarrow> 'a" and step_real :: "'m \<Rightarrow> 'w \<Rightarrow> 'w"
    and allowed :: "'m \<Rightarrow> bool"
  assumes matched: "mirrors a w \<Longrightarrow> allowed m \<Longrightarrow> mirrors (step_model m a) (step_real m w)"
begin

lemma run_matched: "mirrors a w \<Longrightarrow> list_all allowed ms \<Longrightarrow> mirrors (fold step_model ms a) (fold step_real ms w)"
  by (induction ms arbitrary: a w) (simp_all add: matched)

lemma run_then: "mirrors a w \<Longrightarrow> list_all allowed ms \<Longrightarrow> (\<And>a w. mirrors a w \<Longrightarrow> P a w) \<Longrightarrow>
    P (fold step_model ms a) (fold step_real ms w)"
  using run_matched by blast

end

definition mirrors_session :: "overlay \<Rightarrow> world \<Rightarrow> bool" where
  "mirrors_session ov w \<longleftrightarrow> tracked ov \<and> agrees ov w \<and> world_ok w"

interpretation session: simulation mirrors_session step_overlay step_world fair
  by unfold_locales (use change_agrees in \<open>auto simp: mirrors_session_def\<close>)

text \<open>A checkout as it was made: the listing is that of the files there are.\<close>

definition checkout :: "string list \<Rightarrow> (string \<Rightarrow> string) \<Rightarrow> overlay" where
  "checkout base content = \<lparr>ov_base = base, ov_read_base = (\<lambda>p. if p \<in> set base then Some (content p) else None),
     ov_root = ''/testbed'', ov_content = (\<lambda>_. None), ov_created = {}, ov_dirty = {}, ov_deleted = {}, ov_dirs = {},
     ov_maybe = {}, ov_unsure = {}, ov_cwd = Some [], ov_tmp_open = False, ov_pycache = False, ov_errors = [], ov_shell = ''bash''\<rparr>"

definition files_of :: "string list \<Rightarrow> (string \<Rightarrow> string) \<Rightarrow> world" where
  "files_of base content = (\<lambda>p. if p \<in> set base then Some (File (content p))
     else if list_ex (under p) base then Some Dir else None)"

text \<open>No file is listed below another.\<close>

definition good_listing :: "string list \<Rightarrow> bool" where
  "good_listing base \<longleftrightarrow> sorted base \<and> list_all relative base \<and> list_all (\<lambda>p. \<not> list_ex (under p) base) base"

lemma checkout_agrees:
  assumes "good_listing base"
  shows "tracked (checkout base content) \<and> agrees (checkout base content) (files_of base content) \<and> world_ok (files_of base content)"
proof -
  let ?ov = "checkout base content" and ?w = "files_of base content"
  have tr: "tracked ?ov" using assms by (auto simp: tracked_def listed_def checkout_def good_listing_def relative_def list_all_iff)
  then have held: "has_file ?ov p \<longleftrightarrow> p \<in> set base" for p
    using in_base_iff [of ?ov p] by (simp add: has_file_def tracked_def, simp add: checkout_def)
  have "agrees_at ?ov ?w p" if rel: "relative p" for p
  proof -
    have "holds ?ov p \<longleftrightarrow> list_ex (under p) base"
      unfolding holds_tracked [OF tr] held by (auto simp: list_ex_iff checkout_def)
    moreover have "\<not> blurred ?ov p" by (simp add: blurred_def unsure_over_def maybe_over_def checkout_def)
    moreover have "ov_dirs ?ov = {}" "ov_maybe ?ov = {}" by (simp_all add: checkout_def)
    ultimately have kind: "kind_of ?ov p = (if p \<in> set base then Some FILE else if list_ex (under p) base then Some DIRECTORY else None)"
      using kind_cases [OF tr rel] held by simp
    have "p \<in> set base \<Longrightarrow> text_of ?ov p = Some s \<Longrightarrow> s = content p" for s
      using rel by (simp add: text_of_def relative_def kind) (simp add: checkout_def)
    then show ?thesis by (simp add: agrees_at_def kind files_of_def)
  qed
  moreover have "?w a = Some Dir" if "?w p \<noteq> None" "under a p" for a p
  proof -
    from that(1) have "p \<in> set base \<or> list_ex (under p) base" by (auto simp: files_of_def split: if_split_asm)
    then have "list_ex (under a) base" using that(2) under_trans by (auto simp: list_ex_iff)
    moreover have "a \<notin> set base" using calculation assms by (auto simp: good_listing_def list_all_iff)
    ultimately show ?thesis by (simp add: files_of_def)
  qed
  then have "world_ok ?w" unfolding world_ok_def by blast
  ultimately show ?thesis using tr by (simp add: agrees_def)
qed

text \<open>
  C3. What the session believes of its files is so: from a checkout whose listing is right, after
  any run of writes, removals, directories made and files touched, of which those it holds for
  certain do run, every path the overlay calls a file is a file, with the text it has for it, every
  path it calls a directory is a directory, and every path it calls absent is not there.
\<close>

theorem overlay_simulates_machine:
  assumes "good_listing base" "list_all fair ms" "relative p"
  shows "(case kind_of (fold step_overlay ms (checkout base content)) p of
      Some FILE \<Rightarrow> \<exists>t. fold step_world ms (files_of base content) p = Some (File t) \<and>
        text_of (fold step_overlay ms (checkout base content)) p \<in> {None, Some t}
    | Some DIRECTORY \<Rightarrow> fold step_world ms (files_of base content) p = Some Dir
    | Some UNKNOWN \<Rightarrow> True
    | None \<Rightarrow> fold step_world ms (files_of base content) p = None)"
proof -
  let ?ov = "fold step_overlay ms (checkout base content)" and ?w = "fold step_world ms (files_of base content)"
  have "agrees_at ?ov ?w p"
    using session.run_matched [OF _ assms(2), of "checkout base content" "files_of base content"] checkout_agrees [OF assms(1)] assms(3)
    by (simp add: agrees_def mirrors_session_def)
  then show ?thesis unfolding agrees_at_def by (cases "text_of ?ov p") (auto split: option.splits path_kind.splits)
qed

lemma session_mirrored:
  assumes "good_listing base" "list_all fair ms"
  shows "tracked (fold step_overlay ms (checkout base content))"
    "agrees (fold step_overlay ms (checkout base content)) (fold step_world ms (files_of base content))"
    "world_ok (fold step_world ms (files_of base content))"
proof -
  have "mirrors_session (checkout base content) (files_of base content)"
    using checkout_agrees [OF assms(1)] by (simp add: mirrors_session_def)
  from session.run_matched [OF this assms(2)]
  show "tracked (fold step_overlay ms (checkout base content))"
    "agrees (fold step_overlay ms (checkout base content)) (fold step_world ms (files_of base content))"
    "world_ok (fold step_world ms (files_of base content))" unfolding mirrors_session_def by blast+
qed

section \<open>What the session predicts\<close>

lemma known_paths_kinds:
  "known_paths ov ws cwd = Some found \<Longrightarrow> (p, k) \<in> set found \<Longrightarrow> k = kind_of ov p \<and> k \<noteq> Some UNKNOWN"
proof (induction ws arbitrary: found)
  case (Cons w ws)
  then obtain ps rest where "paths_of ov w cwd = Some ps" "Some UNKNOWN \<notin> kind_of ov ` set ps"
    "known_paths ov ws cwd = Some rest" "found = map (\<lambda>p. (p, kind_of ov p)) ps @ rest"
    by (auto split: option.splits if_split_asm)
  then show ?case using Cons.IH [of rest] Cons.prems(2) by (auto simp: image_iff)
qed simp

lemma mkdir_prediction:
  assumes "tracked ov" "agrees ov w" "world_ok w" "relative p" "mkdir_path_succeeds ov parents p"
  shows "real_mkdir parents p w p = Some Dir \<and> (\<not> parents \<longrightarrow> mkdir_works p w)"
proof -
  let ?kinds = "map (kind_of ov) (chain_of p)"
  have rel: "at_or_under q p \<Longrightarrow> relative q" for q using assms(4) relative_under by (auto simp: at_or_under_def)
  have last_kind: "last ?kinds = kind_of ov p" by (simp add: last_map)
  have clear: "kind_of ov q = None \<or> kind_of ov q = Some DIRECTORY" if "at_or_under q p" for q
  proof -
    have "kind_of ov q \<in> set ?kinds" using in_chain [of q p] that by simp
    then show ?thesis using kinds [of "kind_of ov q"] assms(5) by (auto simp: mkdir_path_succeeds_def Let_def)
  qed
  show ?thesis
  proof (cases parents)
    case True
    note makes_agree [OF assms(1-4) clear]
    then have "kind_of (fold (make_missing (kind_of ov) True) (chain_of p) ov) p = Some DIRECTORY"
      "agrees (fold (make_missing (kind_of ov) True) (chain_of p) ov) (fold make_one (chain_of p) w)"
      using assms(4) by (simp_all add: Let_def at_or_under_def)
    from agrees_kind(2) [OF this(2) assms(4) this(1)] show ?thesis using True by (simp add: real_mkdir_def)
  next
    case False
    then have none: "kind_of ov p = None" using assms(5) last_kind by (simp add: mkdir_path_succeeds_def Let_def)
    have "dir_at w (parent_of p)"
    proof (cases "CHR ''/'' \<in> set p")
      case True
      then have "last (butlast ?kinds) = kind_of ov (parent_of p)" using butlast_chain [of p]
        by (simp add: map_butlast [symmetric] last_map)
      moreover have "1 < length ?kinds" using True length_chain [of p] by simp
      ultimately have "kind_of ov (parent_of p) \<noteq> None"
        using assms(5) False by (simp add: mkdir_path_succeeds_def Let_def)
      moreover have "at_or_under (parent_of p) p" using True under_parent [of "parent_of p" p] by (simp add: at_or_under_def)
      ultimately show ?thesis using clear [of "parent_of p"] dir_known(1) [OF assms(2,4)] by metis
    qed (simp add: dir_at_def parent_of_def)
    then show ?thesis using False agrees_kind(3) [OF assms(2,4) none] by (simp add: real_mkdir_def make_one_def mkdir_works_def)
  qed
qed

text \<open>An operand whose text is the path the machine reads: no braces, and no step back up.\<close>

definition direct :: "shell_word \<Rightarrow> bool" where
  "direct op \<longleftrightarrow> \<not> sw_braces op \<and> ''..'' \<notin> set (split_on (CHR ''/'') (sw_text op))"

lemma known_paths_in:
  "known_paths ov ws cwd = Some found \<Longrightarrow> op \<in> set ws \<Longrightarrow> paths_of ov op cwd = Some ps \<Longrightarrow> p \<in> set ps \<Longrightarrow>
     (p, kind_of ov p) \<in> set found"
proof (induction ws arbitrary: found)
  case (Cons w ws)
  then obtain qs rest where "paths_of ov w cwd = Some qs" "known_paths ov ws cwd = Some rest"
    "found = map (\<lambda>p. (p, kind_of ov p)) qs @ rest"
    by (auto split: option.splits if_split_asm)
  then show ?case using Cons.IH [of rest] Cons.prems(2-4) by auto
qed simp

lemma rm_prediction:
  assumes "agrees ov w" "rm_succeeds ov name words cwd" "relative p"
    and "op \<in> set (po_operands (options_of {} words))" "paths_of ov op cwd = Some ps" "p \<in> set ps" "\<not> slashed_file ov op p"
  defines "flags \<equiv> po_flags (options_of {} words)"
  shows "rm_works (flags \<inter> recursive_flags \<noteq> {}) (flags \<inter> {''f'', ''--force''} \<noteq> {}) (sw_text op) p w \<and>
    real_rm (flags \<inter> recursive_flags \<noteq> {}) p w p = None"
proof -
  obtain found where found: "known_paths ov (po_operands (options_of {} words)) cwd = Some found"
    using assms(2) by (auto simp: rm_succeeds_def Let_def split: option.splits)
  note inside = known_paths_in [OF found assms(4-6)]
  then have k: "kind_of ov p \<noteq> Some UNKNOWN" using known_paths_kinds [OF found] by blast
  have "(kind_of ov p \<noteq> None \<or> flags \<inter> {''f'', ''--force''} \<noteq> {}) \<and> (kind_of ov p \<noteq> Some DIRECTORY \<or> flags \<inter> recursive_flags \<noteq> {})"
    using assms(2) inside unfolding rm_succeeds_def Let_def found list_all_iff flags_def by auto
  moreover have "w p = None \<longleftrightarrow> kind_of ov p = None" "w p = Some Dir \<longleftrightarrow> kind_of ov p = Some DIRECTORY"
    "(\<exists>s. w p = Some (File s)) \<longleftrightarrow> kind_of ov p = Some FILE"
    using agrees_kind [OF assms(1,3)] kinds [of "kind_of ov p"] k by auto
  ultimately show ?thesis using assms(7)
    by (auto simp: real_rm_def remove_tree_def at_or_under_def rm_works_def slash_fits_def slashed_file_def)
qed



section \<open>Where the overlay is wrong\<close>

lemma plain_options:
  "list_all (\<lambda>op. \<not> starts_with ''-'' (sw_text op)) ws \<Longrightarrow>
     options_of vs ws = \<lparr>po_flags = {}, po_values = [], po_operands = ws\<rparr>"
proof (induction ws)
  case (Cons op ws)
  then have "sw_text op \<noteq> ''--''" "\<not> starts_with ''--'' (sw_text op)" "\<not> starts_with ''-'' (sw_text op)"
    by (cases "sw_text op"; auto simp: starts_with_def)+
  then show ?case using Cons by (simp add: Let_def)
qed simp

text \<open>The paths of an operand without globs do not depend on the files.\<close>

lemma paths_without_globs:
  assumes "\<not> sw_globs op" "ov_root ov = ov_root ov'"
  shows "paths_of ov op cwd = paths_of ov' op cwd"
proof -
  have "word_paths ov op cwd ts = word_paths ov' op cwd ts" for ts
  proof (induction ts)
    case (Cons t ts)
    then show ?case using assms by (cases "session_path t cwd (ov_root ov')") auto
  qed simp
  then have "word_paths ov op cwd = word_paths ov' op cwd" by (rule ext)
  then show ?thesis by (simp only: paths_of_def)
qed

lemma root_make_dir [simp]: "ov_root (make_dir p c ov) = ov_root ov"
  by (simp add: make_dir_def Let_def)

lemma root_drop_path [simp]: "ov_root (drop_path p c ov) = ov_root ov"
  by (simp add: drop_path_def Let_def)

lemma root_mkdir_path: "ov_root (mkdir_path False c p ov) = ov_root ov"
  by (simp add: mkdir_path_cases make_missing_def)

lemma root_rm_path: "ov_root (rm_path r d c p ov) = ov_root ov"
  by (simp add: rm_path_def Let_def)

text \<open>
  C35. An operand named twice is predicted from what was there before the command began: after any such
  run, an \<open>mkdir\<close> or \<open>rm\<close> of one path that is predicted to succeed is predicted to succeed with that
  operand twice, though once its first operand is done the second fails on the machine, and is not
  predicted to succeed from the overlay that first operand leaves.
\<close>

theorem operands_read_once:
  fixes content
  assumes "good_listing base" "list_all fair ms"
  defines "ov \<equiv> fold step_overlay ms (checkout base content)" and "w \<equiv> fold step_world ms (files_of base content)"
  assumes "\<not> starts_with ''-'' (sw_text op)" "direct op" "\<not> sw_globs op" "paths_of ov op cwd = Some [p]" "relative p"
  shows "(mkdir_succeeds ov [op] cwd \<longrightarrow> mkdir_succeeds ov [op, op] cwd \<and>
      mkdir_works p w \<and> \<not> mkdir_works p (real_mkdir False p w) \<and>
      \<not> mkdir_succeeds (mkdir_path False True p ov) [op] cwd) \<and>
    (rm_succeeds ov ''rm'' [op] cwd \<and> \<not> slashed_file ov op p \<longrightarrow> rm_succeeds ov ''rm'' [op, op] cwd \<and>
      rm_works False False (sw_text op) p w \<and> \<not> rm_works False False (sw_text op) p (real_rm False p w) \<and>
      \<not> rm_succeeds (rm_path False False True p ov) ''rm'' [op] cwd)"
proof -
  note s = session_mirrored [OF assms(1,2), of content, folded ov_def w_def]
  have opts: "options_of vs [op] = \<lparr>po_flags = {}, po_values = [], po_operands = [op]\<rparr>"
    "options_of vs [op, op] = \<lparr>po_flags = {}, po_values = [], po_operands = [op, op]\<rparr>" for vs
    using plain_options [of "[op]" vs] plain_options [of "[op, op]" vs] assms(5) by simp_all
  have made: "mkdir_succeeds ov [op, op] cwd \<and> mkdir_works p w \<and> \<not> mkdir_works p (real_mkdir False p w) \<and>
      \<not> mkdir_succeeds (mkdir_path False True p ov) [op] cwd" if "mkdir_succeeds ov [op] cwd"
  proof -
    have one: "mkdir_path_succeeds ov False p" using that assms(8) by (simp add: mkdir_succeeds_def opts del: options_of.simps)
    then have two: "mkdir_succeeds ov [op, op] cwd" using assms(8) by (simp add: mkdir_succeeds_def opts del: options_of.simps)
    note real = mkdir_prediction [OF s assms(9) one]
    have "agrees (mkdir_path False True p ov) (real_mkdir False p w)"
      using mkdir_agrees [OF s assms(9), of True True False] by simp
    then have "kind_of (mkdir_path False True p ov) p \<noteq> None" using agrees_kind(3) [OF _ assms(9)] real by fastforce
    then have "\<not> mkdir_path_succeeds (mkdir_path False True p ov) False p" by (simp add: mkdir_path_succeeds_def Let_def last_map)
    moreover have "paths_of (mkdir_path False True p ov) op cwd = Some [p]"
      using paths_without_globs [OF assms(7) root_mkdir_path] assms(8) by simp
    ultimately show ?thesis using two real by (simp add: mkdir_succeeds_def opts mkdir_works_def del: options_of.simps)
  qed
  have gone: "rm_succeeds ov ''rm'' [op, op] cwd \<and> rm_works False False (sw_text op) p w \<and>
      \<not> rm_works False False (sw_text op) p (real_rm False p w) \<and> \<not> rm_succeeds (rm_path False False True p ov) ''rm'' [op] cwd"
    if "rm_succeeds ov ''rm'' [op] cwd" "\<not> slashed_file ov op p"
  proof -
    have two: "rm_succeeds ov ''rm'' [op, op] cwd"
      using that(1) assms(8) by (auto simp: rm_succeeds_def opts Let_def simp del: options_of.simps split: if_split_asm)
    have real: "rm_works False False (sw_text op) p w \<and> real_rm False p w p = None"
      using rm_prediction [OF s(2) that(1) assms(9) _ assms(8) _ that(2)] by (simp add: opts del: options_of.simps)
    have "agrees (rm_path False False True p ov) (real_rm False p w)"
      using rm_agrees [OF s assms(9), of True True False] by simp
    then have "kind_of (rm_path False False True p ov) p = None \<or> kind_of (rm_path False False True p ov) p = Some UNKNOWN"
      using kind_present [OF _ assms(9)] real by blast
    moreover have "paths_of (rm_path False False True p ov) op cwd = Some [p]"
      using paths_without_globs [OF assms(7) root_rm_path] assms(8) by simp
    ultimately show ?thesis using two real by (auto simp: rm_succeeds_def opts Let_def rm_works_def simp del: options_of.simps)
  qed
  show ?thesis using made gone by blast
qed

text \<open>
  C39. A file named with a slash at its end is predicted to be removed: after any such run, an \<open>rm\<close> of
  such an operand is predicted to succeed, though the machine refuses it, and though the session itself
  leaves the file in the overlay and elsewhere gives the command status 1.
\<close>

theorem slashed_file_mispredicted:
  fixes content
  assumes "good_listing base" "list_all fair ms"
  defines "ov \<equiv> fold step_overlay ms (checkout base content)" and "w \<equiv> fold step_world ms (files_of base content)"
  assumes "\<not> starts_with ''-'' (sw_text op)" "\<not> dots op" "paths_of ov op cwd = Some [p]" "relative p" "slashed_file ov op p"
  shows "rm_succeeds ov ''rm'' [op] cwd \<and> (\<exists>s. w p = Some (File s)) \<and> \<not> rm_works False False (sw_text op) p w \<and>
    rm ''rm'' [op] cwd certain ov = ov \<and> rm_status ov [op] cwd = Some 1"
proof -
  note s = session_mirrored [OF assms(1,2), of content, folded ov_def w_def]
  have opts: "options_of vs [op] = \<lparr>po_flags = {}, po_values = [], po_operands = [op]\<rparr>" for vs
    using plain_options [of "[op]" vs] assms(5) by simp
  have filed: "ends_slash (sw_text op)" "kind_of ov p = Some FILE" using assms(9) by (simp_all add: slashed_file_def)
  then have "\<exists>s. w p = Some (File s)" using agrees_kind(1) [OF s(2) assms(8)] by blast
  then show ?thesis using assms(6,7,9) filed
    by (auto simp: rm_succeeds_def rm_status_def rm_def over_words_def over_paths_def opts Let_def rm_works_def slash_fits_def simp del: options_of.simps)
qed

text \<open>
  The kind of the target itself is never looked at: \<open>cp -r a d\<close> where d/a is a file, which the command
  refuses, leaves the overlay with a file d/a and a file below it, which no machine can hold.
\<close>

lemma copied_onto_file:
  "let ov = transfer False [plain_word ''-r'', plain_word ''a'', plain_word ''d''] (Some []) True
      ((checkout [''a/x'', ''d/a''] content)\<lparr>ov_read_base := \<lambda>_. None\<rparr>)
   in kind_of ov ''d/a'' = Some FILE \<and> kind_of ov ''d/a/x'' = Some FILE"
  by code_simp

text \<open>
  An \<open>rm\<close> of an empty directory with \<open>--dir\<close>, which the command removes as it does with \<open>-d\<close>,
  leaves the directory in the overlay: only the short flag is looked for, though the list of options
  understood names both.
\<close>

lemma long_dir_option_ignored:
  "(let ov = mkdir_path False True ''a'' (checkout [] content) in
    kind_of (rm ''rm'' [plain_word ''-d'', plain_word ''a''] (Some []) True ov) ''a'' = None \<and>
    kind_of (rm ''rm'' [plain_word ''--dir'', plain_word ''a''] (Some []) True ov) ''a'' = Some DIRECTORY)"
  by code_simp

end
