(* ===== verification/ShellRuns.thy ===== *)
theory ShellRuns
  imports Overlay ShellParser
begin

text \<open>
  How a shell runs a list of pipelines, after the grammar and the rules of the bash manual and apart
  from the code under src/: the reference the inferences of \<open>Schedule\<close> are measured against. \<open>&&\<close> and
  \<open>||\<close> bind alike and to the left and make and-or lists, which \<open>;\<close> and a newline put in sequence. The
  status each stage ends with, should it run, is given with the stage. Of the builtins that change the
  shell itself \<open>cd\<close>, \<open>pushd\<close>, \<open>popd\<close>, \<open>set\<close> and \<open>exit\<close> are modelled; a list with another one has no run,
  nor has one with a command whose name, or a \<open>set\<close> whose options, the shell expands.
\<close>

section \<open>The shell\<close>

record shell =
  sh_dir :: string
  sh_errexit :: bool

text \<open>The builtin a command names: only by its plain name, a path names a program.\<close>

definition first_word :: "simple_command \<Rightarrow> string" where
  "first_word c = (case sc_words c of [] \<Rightarrow> [] | w # _ \<Rightarrow> sw_text w)"

definition other_builtins :: "string list" where
  "other_builtins = [''source'', ''.'', ''eval'', ''exec'', ''command'', ''builtin'', ''return'', ''trap'', ''shopt'', ''enable'',
     ''logout'', ''kill'', ''suspend'', ''alias'']"

text \<open>The operands of \<open>cd\<close>, after its options, and where it lands: at home, in the directory it names
  seen from where the shell is, or where only the shell knows (\<open>cd -\<close>, a variable, a pattern).\<close>

fun cd_arguments :: "shell_word list \<Rightarrow> shell_word list" where
  "cd_arguments [] = []"
| "cd_arguments (w # ws) = (if sw_text w = ''-P'' \<or> sw_text w = ''-L'' then cd_arguments ws
     else if sw_text w = ''--'' then ws else w # ws)"

definition literal_word :: "shell_word \<Rightarrow> bool" where
  "literal_word w \<longleftrightarrow> \<not> sw_expands w \<and> \<not> sw_globs w \<and> \<not> sw_braces w"

definition lands :: "(simple_command \<Rightarrow> string \<Rightarrow> string) \<Rightarrow> simple_command \<Rightarrow> string \<Rightarrow> string" where
  "lands elsewhere c d = (case cd_arguments (tl (sc_words c)) of
     [] \<Rightarrow> ''/root''
   | w # others \<Rightarrow> if others = [] \<and> literal_word w \<and> sw_text w \<noteq> ''-''
       then (case session_path (sw_text w) (Some d) [] of Some p \<Rightarrow> p | None \<Rightarrow> elsewhere c d)
       else elsewhere c d)"

text \<open>The options of \<open>set\<close>: clusters of letters up to the first operand, an \<open>o\<close> taking the next word.\<close>

fun set_options :: "string list \<Rightarrow> bool \<Rightarrow> bool" where
  "set_options [] e = e"
| "set_options (a # as) e =
     (if a = [] \<or> a = ''-'' \<or> a = ''--'' \<or> hd a \<notin> {CHR ''-'', CHR ''+''} then e
      else let e' = (if CHR ''e'' \<in> set (tl a) then hd a = CHR ''-'' else e) in
        if CHR ''o'' \<in> set (tl a)
        then (case as of [] \<Rightarrow> e' | name # as' \<Rightarrow> set_options as' (if name = ''errexit'' then hd a = CHR ''-'' else e'))
        else set_options as e')"

definition all_literal :: "simple_command \<Rightarrow> bool" where
  "all_literal c \<longleftrightarrow> list_all literal_word (sc_words c)"

text \<open>What a stage that runs does to the shell, and whether it ends it: a pipeline of several commands
  runs in shells of its own.\<close>

inductive stage_effect ::
  "(simple_command \<Rightarrow> string \<Rightarrow> string) \<Rightarrow> stage \<Rightarrow> int \<Rightarrow> shell \<Rightarrow> shell \<Rightarrow> bool \<Rightarrow> bool" for elsewhere where
  Subshells: "length (st_pipeline s) \<noteq> 1 \<Longrightarrow> stage_effect elsewhere s code sh sh False"
| Cd: "st_pipeline s = [c] \<Longrightarrow> first_word c = ''cd'' \<Longrightarrow> code = 0 \<Longrightarrow>
    stage_effect elsewhere s code sh (sh\<lparr>sh_dir := lands elsewhere c (sh_dir sh)\<rparr>) False"
| Cd_fails: "st_pipeline s = [c] \<Longrightarrow> first_word c = ''cd'' \<Longrightarrow> code \<noteq> 0 \<Longrightarrow> stage_effect elsewhere s code sh sh False"
| Stack: "st_pipeline s = [c] \<Longrightarrow> first_word c \<in> {''pushd'', ''popd''} \<Longrightarrow>
    stage_effect elsewhere s code sh (sh\<lparr>sh_dir := d\<rparr>) False"
| Set: "st_pipeline s = [c] \<Longrightarrow> first_word c = ''set'' \<Longrightarrow> all_literal c \<Longrightarrow> code = 0 \<Longrightarrow>
    stage_effect elsewhere s code sh (sh\<lparr>sh_errexit := set_options (command_args c) (sh_errexit sh)\<rparr>) False"
| Set_fails: "st_pipeline s = [c] \<Longrightarrow> first_word c = ''set'' \<Longrightarrow> code \<noteq> 0 \<Longrightarrow> stage_effect elsewhere s code sh sh False"
| Exit: "st_pipeline s = [c] \<Longrightarrow> first_word c = ''exit'' \<Longrightarrow> length (command_args c) \<le> 1 \<Longrightarrow> stage_effect elsewhere s code sh sh True"
| Exit_refused: "st_pipeline s = [c] \<Longrightarrow> first_word c = ''exit'' \<Longrightarrow> 1 < length (command_args c) \<or> (sc_redirects c \<noteq> [] \<and> code \<noteq> 0) \<Longrightarrow>
    stage_effect elsewhere s code sh sh False"
| Program: "st_pipeline s = [c] \<Longrightarrow> first_word c \<notin> {''cd'', ''pushd'', ''popd'', ''set'', ''exit''} \<union> set other_builtins \<Longrightarrow>
    list_all literal_word (take 1 (sc_words c)) \<Longrightarrow> stage_effect elsewhere s code sh sh False"

section \<open>And-or lists\<close>

type_synonym stage_status = "stage \<times> int"

datatype and_or = Pipeline stage_status | And_then and_or stage_status | Or_else and_or stage_status

fun width :: "and_or \<Rightarrow> nat" where
  "width (Pipeline x) = 1"
| "width (And_then l x) = width l + 1"
| "width (Or_else l x) = width l + 1"

text \<open>The and-or lists a flat list stands for, given the one being read.\<close>

fun grouped :: "and_or \<Rightarrow> stage_status list \<Rightarrow> and_or list" where
  "grouped l [] = [l]"
| "grouped l (x # xs) = (case st_separator (fst x) of
     SEP_AND \<Rightarrow> grouped (And_then l x) xs
   | SEP_OR \<Rightarrow> grouped (Or_else l x) xs
   | _ \<Rightarrow> l # grouped (Pipeline x) xs)"

fun shell_list :: "stage_status list \<Rightarrow> and_or list" where
  "shell_list [] = []"
| "shell_list (x # xs) = grouped (Pipeline x) xs"

text \<open>
  A run gives for each stage the directory it ran in and its status, or None when it is not run; the
  status of the list; the shell after it; and whether it was left. A failure ends the shell under
  \<open>set -e\<close> when \<open>checked\<close>: not left of an \<open>&&\<close> or \<open>||\<close>.
\<close>

type_synonym stage_trace = "(string \<times> int) option"

inductive and_or_runs ::
  "(simple_command \<Rightarrow> string \<Rightarrow> string) \<Rightarrow> bool \<Rightarrow> and_or \<Rightarrow> shell \<Rightarrow> stage_trace list \<Rightarrow> int \<Rightarrow> shell \<Rightarrow> bool \<Rightarrow> bool"
  for elsewhere where
  Pipeline_runs: "stage_effect elsewhere s code sh sh' left \<Longrightarrow>
    and_or_runs elsewhere checked (Pipeline (s, code)) sh [Some (sh_dir sh, code)] code sh'
      (left \<or> (checked \<and> sh_errexit sh' \<and> code \<noteq> 0))"
| And_goes_on: "and_or_runs elsewhere False l sh tr 0 sh1 False \<Longrightarrow>
    and_or_runs elsewhere checked (Pipeline x) sh1 tr' status sh2 left \<Longrightarrow>
    and_or_runs elsewhere checked (And_then l x) sh (tr @ tr') status sh2 left"
| And_stops: "and_or_runs elsewhere False l sh tr status sh1 False \<Longrightarrow> status \<noteq> 0 \<Longrightarrow>
    and_or_runs elsewhere checked (And_then l x) sh (tr @ [None]) status sh1 False"
| And_left: "and_or_runs elsewhere False l sh tr status sh1 True \<Longrightarrow>
    and_or_runs elsewhere checked (And_then l x) sh (tr @ [None]) status sh1 True"
| Or_goes_on: "and_or_runs elsewhere False l sh tr status sh1 False \<Longrightarrow> status \<noteq> 0 \<Longrightarrow>
    and_or_runs elsewhere checked (Pipeline x) sh1 tr' status' sh2 left \<Longrightarrow>
    and_or_runs elsewhere checked (Or_else l x) sh (tr @ tr') status' sh2 left"
| Or_stops: "and_or_runs elsewhere False l sh tr 0 sh1 False \<Longrightarrow>
    and_or_runs elsewhere checked (Or_else l x) sh (tr @ [None]) 0 sh1 False"
| Or_left: "and_or_runs elsewhere False l sh tr status sh1 True \<Longrightarrow>
    and_or_runs elsewhere checked (Or_else l x) sh (tr @ [None]) status sh1 True"

text \<open>A sequence, after one that ended with a status: the last that runs gives the status of all.\<close>

inductive sequence_runs ::
  "(simple_command \<Rightarrow> string \<Rightarrow> string) \<Rightarrow> int \<Rightarrow> and_or list \<Rightarrow> shell \<Rightarrow> stage_trace list \<Rightarrow> int \<Rightarrow> shell \<Rightarrow> bool"
  for elsewhere where
  Empty: "sequence_runs elsewhere status [] sh [] status sh"
| Next: "and_or_runs elsewhere True l sh tr status' sh1 False \<Longrightarrow>
    sequence_runs elsewhere status' ls sh1 tr' final sh2 \<Longrightarrow>
    sequence_runs elsewhere status (l # ls) sh (tr @ tr') final sh2"
| Left: "and_or_runs elsewhere True l sh tr status' sh1 True \<Longrightarrow>
    sequence_runs elsewhere status (l # ls) sh (tr @ replicate (sum_list (map width ls)) None) status' sh1"

definition shell_runs ::
  "(simple_command \<Rightarrow> string \<Rightarrow> string) \<Rightarrow> stage_status list \<Rightarrow> shell \<Rightarrow> stage_trace list \<Rightarrow> int \<Rightarrow> shell \<Rightarrow> bool" where
  "shell_runs elsewhere xs sh trace final sh' \<longleftrightarrow> sequence_runs elsewhere 0 (shell_list xs) sh trace final sh'"

inductive_cases effect_cases: "stage_effect elsewhere s code sh sh' left"

section \<open>The same run, stage by stage\<close>

definition joined :: "stage_status list \<Rightarrow> bool" where
  "joined xs \<longleftrightarrow> xs \<noteq> [] \<and> st_separator (fst (hd xs)) \<in> {SEP_AND, SEP_OR}"

text \<open>What is left of a list, when the stage before it ended with a status.\<close>

inductive rest_runs ::
  "(simple_command \<Rightarrow> string \<Rightarrow> string) \<Rightarrow> int \<Rightarrow> stage_status list \<Rightarrow> shell \<Rightarrow> stage_trace list \<Rightarrow> int \<Rightarrow> shell \<Rightarrow> bool"
  for elsewhere where
  Over: "rest_runs elsewhere status [] sh [] status sh"
| Skipped: "(st_separator s = SEP_AND \<and> status \<noteq> 0) \<or> (st_separator s = SEP_OR \<and> status = 0) \<Longrightarrow>
    rest_runs elsewhere status xs sh tr final sh' \<Longrightarrow> rest_runs elsewhere status ((s, code) # xs) sh (None # tr) final sh'"
| Runs: "\<not> ((st_separator s = SEP_AND \<and> status \<noteq> 0) \<or> (st_separator s = SEP_OR \<and> status = 0)) \<Longrightarrow>
    stage_effect elsewhere s code sh sh1 False \<Longrightarrow> \<not> (\<not> joined xs \<and> sh_errexit sh1 \<and> code \<noteq> 0) \<Longrightarrow>
    rest_runs elsewhere code xs sh1 tr final sh' \<Longrightarrow>
    rest_runs elsewhere status ((s, code) # xs) sh (Some (sh_dir sh, code) # tr) final sh'"
| Last: "\<not> ((st_separator s = SEP_AND \<and> status \<noteq> 0) \<or> (st_separator s = SEP_OR \<and> status = 0)) \<Longrightarrow>
    stage_effect elsewhere s code sh sh1 left \<Longrightarrow> left \<or> (\<not> joined xs \<and> sh_errexit sh1 \<and> code \<noteq> 0) \<Longrightarrow>
    rest_runs elsewhere status ((s, code) # xs) sh (Some (sh_dir sh, code) # replicate (length xs) None) code sh1"

lemma grouped_width: "sum_list (map width (grouped l xs)) = width l + length xs"
  by (induction l xs rule: grouped.induct) (auto split: separator.split)

text \<open>A stage after the status of what is before it in its and-or list.\<close>

lemma stage_then_rest:
  assumes "and_or_runs elsewhere (\<not> joined xs) (Pipeline x) sh1 tr2 status sh2 left"
    and "\<not> ((st_separator (fst x) = SEP_AND \<and> before \<noteq> 0) \<or> (st_separator (fst x) = SEP_OR \<and> before = 0))"
    and "left \<Longrightarrow> T = replicate (length xs) None \<and> final = status \<and> sh' = sh2"
    and "\<not> left \<Longrightarrow> rest_runs elsewhere status xs sh2 T final sh'"
  shows "rest_runs elsewhere before (x # xs) sh1 (tr2 @ T) final sh'"
  using assms(1)
proof cases
  case (Pipeline_runs s left')
  then show ?thesis using assms(2-4) by (cases left) (auto intro: Last Runs)
qed

lemma grouped_runs:
  assumes "sequence_runs elsewhere status0 (grouped l xs) sh tr final sh'"
  shows "\<exists>tr1 status sh1 left T. and_or_runs elsewhere (\<not> joined xs) l sh tr1 status sh1 left \<and> tr = tr1 @ T \<and>
    (if left then T = replicate (length xs) None \<and> final = status \<and> sh' = sh1
     else rest_runs elsewhere status xs sh1 T final sh')"
  using assms
proof (induction xs arbitrary: l status0 sh tr)
  case Nil
  from Nil.prems have "sequence_runs elsewhere status0 [l] sh tr final sh'" by simp
  then show ?case
  proof (cases)
    case (Next tr1 status sh1 T)
    from Next(3) have "T = []" "final = status" "sh' = sh1" by (auto elim: sequence_runs.cases)
    with Next show ?thesis by (fastforce simp: joined_def intro: Over)
  next
    case (Left tr1)
    then show ?thesis by (fastforce simp: joined_def)
  qed
next
  case (Cons x xs)
  let ?before = "\<lambda>status. (st_separator (fst x) = SEP_AND \<and> status \<noteq> 0) \<or> (st_separator (fst x) = SEP_OR \<and> status = 0)"
  consider (conj) "st_separator (fst x) = SEP_AND" | (disj) "st_separator (fst x) = SEP_OR"
    | (seq) "\<not> joined (x # xs)" by (auto simp: joined_def)
  then show ?case
  proof cases
    case conj
    then have open_list: "joined (x # xs)" by (simp add: joined_def)
    from Cons.prems conj have "sequence_runs elsewhere status0 (grouped (And_then l x) xs) sh tr final sh'" by simp
    from Cons.IH [OF this] obtain tr1 status sh1 left T where run: "and_or_runs elsewhere (\<not> joined xs) (And_then l x) sh tr1 status sh1 left"
      and tr: "tr = tr1 @ T" and rest: "left \<Longrightarrow> T = replicate (length xs) None \<and> final = status \<and> sh' = sh1"
        "\<not> left \<Longrightarrow> rest_runs elsewhere status xs sh1 T final sh'" by (metis (full_types))
    from run show ?thesis
    proof (cases)
      case (And_goes_on tr2 sh2 tr3)
      have "rest_runs elsewhere 0 (x # xs) sh2 (tr3 @ T) final sh'"
        by (rule stage_then_rest [OF And_goes_on(3)]) (use conj rest in auto)
      then show ?thesis using And_goes_on tr open_list by (intro exI [of _ tr2] exI [of _ 0] exI [of _ sh2] exI [of _ False] exI [of _ "tr3 @ T"]) simp
    next
      case (And_stops tr2)
      have "rest_runs elsewhere status (x # xs) sh1 (None # T) final sh'"
        using And_stops conj rest Skipped [of "fst x" status elsewhere xs sh1 T final sh' "snd x"] by simp
      then show ?thesis using And_stops tr open_list by (intro exI [of _ tr2] exI [of _ status] exI [of _ sh1] exI [of _ False] exI [of _ "None # T"]) simp
    next
      case (And_left tr2)
      then show ?thesis using And_left tr rest open_list
        by (intro exI [of _ tr2] exI [of _ status] exI [of _ sh1] exI [of _ True] exI [of _ "None # T"]) simp
    qed
  next
    case disj
    then have open_list: "joined (x # xs)" by (simp add: joined_def)
    from Cons.prems disj have "sequence_runs elsewhere status0 (grouped (Or_else l x) xs) sh tr final sh'" by simp
    from Cons.IH [OF this] obtain tr1 status sh1 left T where run: "and_or_runs elsewhere (\<not> joined xs) (Or_else l x) sh tr1 status sh1 left"
      and tr: "tr = tr1 @ T" and rest: "left \<Longrightarrow> T = replicate (length xs) None \<and> final = status \<and> sh' = sh1"
        "\<not> left \<Longrightarrow> rest_runs elsewhere status xs sh1 T final sh'" by (metis (full_types))
    from run show ?thesis
    proof (cases)
      case (Or_goes_on tr2 status1 sh2 tr3)
      have "rest_runs elsewhere status1 (x # xs) sh2 (tr3 @ T) final sh'"
        by (rule stage_then_rest [OF Or_goes_on(4)]) (use Or_goes_on disj rest in auto)
      then show ?thesis using Or_goes_on tr open_list by (intro exI [of _ tr2] exI [of _ status1] exI [of _ sh2] exI [of _ False] exI [of _ "tr3 @ T"]) simp
    next
      case (Or_stops tr2)
      have "rest_runs elsewhere 0 (x # xs) sh1 (None # T) final sh'"
        using Or_stops disj rest Skipped [of "fst x" 0 elsewhere xs sh1 T final sh' "snd x"] by simp
      then show ?thesis using Or_stops tr open_list by (intro exI [of _ tr2] exI [of _ 0] exI [of _ sh1] exI [of _ False] exI [of _ "None # T"]) simp
    next
      case (Or_left tr2)
      then show ?thesis using tr rest open_list
        by (intro exI [of _ tr2] exI [of _ status] exI [of _ sh1] exI [of _ True] exI [of _ "None # T"]) simp
    qed
  next
    case seq
    then have "grouped l (x # xs) = l # grouped (Pipeline x) xs" by (simp add: joined_def split: separator.split)
    with Cons.prems have "sequence_runs elsewhere status0 (l # grouped (Pipeline x) xs) sh tr final sh'" by simp
    then show ?thesis
    proof (cases)
      case (Next tr1 status1 sh1 tr2)
      from Cons.IH [OF Next(3)] obtain tr3 status sh2 left T where
        run: "and_or_runs elsewhere (\<not> joined xs) (Pipeline x) sh1 tr3 status sh2 left"
        and tr: "tr2 = tr3 @ T" and rest: "left \<Longrightarrow> T = replicate (length xs) None \<and> final = status \<and> sh' = sh2"
          "\<not> left \<Longrightarrow> rest_runs elsewhere status xs sh2 T final sh'" by (metis (full_types))
      have "rest_runs elsewhere status1 (x # xs) sh1 (tr3 @ T) final sh'"
        by (rule stage_then_rest [OF run]) (use seq rest in \<open>auto simp: joined_def\<close>)
      then show ?thesis using Next tr seq by (intro exI [of _ tr1] exI [of _ status1] exI [of _ sh1] exI [of _ False] exI [of _ tr2]) simp
    next
      case (Left tr1)
      then show ?thesis using seq grouped_width [of "Pipeline x" xs]
        by (intro exI [of _ tr1] exI [of _ final] exI [of _ sh'] exI [of _ True] exI [of _ "replicate (length (x # xs)) None"]) simp
    qed
  qed
qed

lemma shell_runs_rest:
  assumes "shell_runs elsewhere xs sh tr final sh'" "\<not> joined xs"
  shows "rest_runs elsewhere 0 xs sh tr final sh'"
proof (cases xs)
  case Nil
  then show ?thesis using assms(1) by (auto simp: shell_runs_def elim: sequence_runs.cases intro: Over)
next
  case (Cons x ys)
  with assms(1) have "sequence_runs elsewhere 0 (grouped (Pipeline x) ys) sh tr final sh'" by (simp add: shell_runs_def)
  from grouped_runs [OF this] obtain tr1 status sh1 left T where
    run: "and_or_runs elsewhere (\<not> joined ys) (Pipeline x) sh tr1 status sh1 left"
    and tr: "tr = tr1 @ T" and rest: "left \<Longrightarrow> T = replicate (length ys) None \<and> final = status \<and> sh' = sh1"
      "\<not> left \<Longrightarrow> rest_runs elsewhere status ys sh1 T final sh'" by (metis (full_types))
  show ?thesis unfolding Cons tr
    by (rule stage_then_rest [OF run]) (use assms(2) Cons rest in \<open>auto simp: joined_def\<close>)
qed

end
