(* ===== verification/Schedule.thy ===== *)
theory Schedule
  imports FileCommands ShellRuns
begin

text \<open>
  Which stages of a command list ran, where, and how they ended: \<open>schedule\<close> and \<open>_simulate\<close> of
  src/src/repo_context_service/overlay.py with the functions they use. Whether sed refuses its
  script, which sed.py decides, is an argument. That what is inferred is so is proved against the runs
  of \<open>ShellRuns\<close>.
\<close>

section \<open>Directories and options of the shell\<close>

definition cd_operands :: "simple_command \<Rightarrow> shell_word list" where
  "cd_operands c = filter (\<lambda>w. sw_text w \<notin> {''-P'', ''-L'', ''--''}) (tl (sc_words c))"

definition cd_target :: "simple_command \<Rightarrow> string option \<Rightarrow> string option" where
  "cd_target c cwd = (case cd_operands c of
     [] \<Rightarrow> Some ''/root''
   | w # others \<Rightarrow> if others \<noteq> [] \<or> sw_expands w \<or> sw_text w = ''-'' then None else session_path (sw_text w) cwd [])"

definition errexit_after :: "simple_command \<Rightarrow> bool \<Rightarrow> bool" where
  "errexit_after c errexit =
     (if command_name c \<noteq> ''set'' then errexit
      else foldl (\<lambda>e a. if a \<noteq> [] \<and> hd a \<in> {CHR ''-'', CHR ''+''} \<and> CHR ''e'' \<in> set (tl a) then hd a = CHR ''-''
          else if a = ''errexit'' then True else e) errexit (command_args c))"

section \<open>One way the list could have gone\<close>

type_synonym stage_run = "(string option \<times> int) option"

definition joins :: "stage \<Rightarrow> bool" where
  "joins s \<longleftrightarrow> st_separator s = SEP_AND \<or> st_separator s = SEP_OR"

definition lone_command :: "stage \<Rightarrow> simple_command option" where
  "lone_command s = (case st_pipeline s of [c] \<Rightarrow> Some c | _ \<Rightarrow> None)"

definition lone_name :: "stage \<Rightarrow> string" where
  "lone_name s = (case lone_command s of None \<Rightarrow> [] | Some c \<Rightarrow> command_name c)"

definition cwd_after :: "stage \<Rightarrow> int \<Rightarrow> string option \<Rightarrow> string option" where
  "cwd_after s code cwd =
     (if lone_name s = ''cd'' \<and> code = 0 then (case lone_command s of None \<Rightarrow> cwd | Some c \<Rightarrow> cd_target c cwd)
      else if lone_name s \<in> {''pushd'', ''popd''} then None else cwd)"

definition errexit_of :: "stage \<Rightarrow> int \<Rightarrow> bool \<Rightarrow> bool" where
  "errexit_of s code errexit =
     (if (lone_name s = ''cd'' \<and> code = 0) \<or> lone_name s \<in> {''pushd'', ''popd''} then errexit
      else case lone_command s of None \<Rightarrow> errexit | Some c \<Rightarrow> errexit_after c errexit)"

definition skips :: "stage \<Rightarrow> int \<Rightarrow> bool" where
  "skips s last_code \<longleftrightarrow> (st_separator s = SEP_AND \<and> last_code \<noteq> 0) \<or> (st_separator s = SEP_OR \<and> last_code = 0)"

definition stops :: "stage \<Rightarrow> int \<Rightarrow> bool \<Rightarrow> (stage \<times> int) list \<Rightarrow> bool" where
  "stops s code errexit rest \<longleftrightarrow> lone_name s = ''exit'' \<or>
     (errexit \<and> code \<noteq> 0 \<and> \<not> (rest \<noteq> [] \<and> joins (fst (hd rest))))"

fun simulate_from :: "int \<Rightarrow> bool \<Rightarrow> string option \<Rightarrow> (stage \<times> int) list \<Rightarrow> stage_run list \<times> int \<times> string option" where
  "simulate_from last_code errexit cwd [] = ([], last_code, cwd)"
| "simulate_from last_code errexit cwd ((s, code) # rest) =
     (if skips s last_code
      then (case simulate_from last_code errexit cwd rest of (taken, final, after) \<Rightarrow> (None # taken, final, after))
      else let cwd' = cwd_after s code cwd; errexit' = errexit_of s code errexit in
        if stops s code errexit' rest then (Some (cwd, code) # map (\<lambda>_. None) rest, code, cwd')
        else case simulate_from code errexit' cwd' rest of (taken, final, after) \<Rightarrow> (Some (cwd, code) # taken, final, after))"

definition simulate :: "stage list \<Rightarrow> int list \<Rightarrow> string option \<Rightarrow> stage_run list \<times> int \<times> string option" where
  "simulate stages status cwd = simulate_from 0 False cwd (zip stages status)"

section \<open>All the ways\<close>

text \<open>Whether a stage runs (None when it may or may not), its directory and its status.\<close>

record stage_plan =
  pl_runs :: "bool option"
  pl_directory :: "string option"
  pl_status :: "int option"

record schedule_plan =
  pl_stages :: "stage_plan list"
  pl_cwd :: "string option"

definition MAX_OPEN_STAGES :: nat where
  "MAX_OPEN_STAGES = 10"

fun outcomes :: "nat \<Rightarrow> int list list" where
  "outcomes 0 = [[]]"
| "outcomes (Suc n) = map ((#) 0) (outcomes n) @ map ((#) 1) (outcomes n)"

fun with_outcome :: "int option list \<Rightarrow> int list \<Rightarrow> int list" where
  "with_outcome [] codes = []"
| "with_outcome (Some c # fixed) codes = c # with_outcome fixed codes"
| "with_outcome (None # fixed) codes = (case codes of [] \<Rightarrow> 0 # with_outcome fixed [] | c # cs \<Rightarrow> c # with_outcome fixed cs)"

definition the_only :: "'a list \<Rightarrow> 'a option" where
  "the_only xs = (case remdups xs of [x] \<Rightarrow> Some x | _ \<Rightarrow> None)"

definition no_plan :: stage_plan where
  "no_plan = \<lparr>pl_runs = None, pl_directory = None, pl_status = None\<rparr>"

definition taken_at :: "nat \<Rightarrow> (stage_run list \<times> string option) list \<Rightarrow> (string option \<times> int) list" where
  "taken_at i ways = List.map_filter (\<lambda>(taken, _). taken ! i) ways"

definition plan_at :: "(stage_run list \<times> string option) list \<Rightarrow> nat \<Rightarrow> stage_plan" where
  "plan_at ways i = (let taken = taken_at i ways in
     \<lparr>pl_runs = (if length taken = length ways then Some True else if taken \<noteq> [] then None else Some False),
      pl_directory = (case the_only (map fst taken) of Some d \<Rightarrow> d | None \<Rightarrow> None),
      pl_status = the_only (map snd taken)\<rparr>)"

definition ways_of :: "stage list \<Rightarrow> int option list \<Rightarrow> int option \<Rightarrow> string option \<Rightarrow> (stage_run list \<times> string option) list" where
  "ways_of stages fixed returncode cwd =
     map (\<lambda>(taken, _, after). (taken, after))
       (filter (\<lambda>(_, final, _). case returncode of None \<Rightarrow> True | Some r \<Rightarrow> (final = 0) = (r = 0))
         (map (\<lambda>codes. simulate stages (with_outcome fixed codes) cwd) (outcomes (length (filter (\<lambda>f. f = None) fixed)))))"

definition schedule_with :: "stage list \<Rightarrow> int option list \<Rightarrow> int option \<Rightarrow> string option \<Rightarrow> schedule_plan" where
  "schedule_with stages fixed returncode cwd =
     (let unknown = \<lparr>pl_stages = replicate (length stages) no_plan, pl_cwd = None\<rparr>;
        ways = ways_of stages fixed returncode cwd
      in if MAX_OPEN_STAGES < length (filter (\<lambda>f. f = None) fixed) then unknown
      else if ways = [] then unknown
      else \<lparr>pl_stages = map (plan_at ways) [0..<length stages],
        pl_cwd = (case the_only (map snd ways) of Some d \<Rightarrow> d | None \<Rightarrow> None)\<rparr>)"

section \<open>The plan is right\<close>




lemma in_outcomes: "set codes \<subseteq> {0, 1} \<Longrightarrow> codes \<in> set (outcomes (length codes))"
  by (induction codes) auto













section \<open>Fixed statuses\<close>

definition always_succeed :: "string list" where
  "always_succeed = [''true'', '':'', ''echo'', ''printf'', ''export'', ''set'', ''unset'', ''pwd'', ''sleep'', ''tee'']"

definition only_adds :: "string list" where
  "only_adds = [''mkdir'', ''touch'', ''tee'', ''cp'', ''sed'', ''patch'', ''ln'', ''truncate'', ''chmod'', ''echo'', ''printf'', ''cat'']"

definition keeps_tmp :: "string list" where
  "keeps_tmp = [''cat'', ''ls'', ''grep'', ''egrep'', ''fgrep'', ''rg'', ''head'', ''tail'', ''wc'', ''nl'', ''awk'',
     ''sort'', ''uniq'', ''cut'', ''tr'', ''diff'', ''cmp'', ''stat'', ''file'', ''which'', ''type'', ''echo'',
     ''printf'', ''cd'', ''pwd'', ''true'', ''false'', '':'', ''test'', ''['', ''export'', ''set'', ''unset'',
     ''env'', ''sleep'', ''basename'', ''dirname'', ''realpath'', ''readlink'', ''tree'', ''du'', ''git'',
     ''exit'', ''pushd'', ''popd'', ''xxd'', ''od'', ''md5sum'', ''sha256sum'', ''date'']"

definition system_directories :: "string list" where
  "system_directories = [''/'', ''/tmp'', ''/root'', ''/usr'', ''/home'', ''/etc'', ''/var'', ''/opt'']"

definition read_value_options :: "string set" where
  "read_value_options = {''-n'', ''-c'', ''-s'', ''--lines'', ''--bytes'', ''--pid'', ''--sleep-interval''}"

definition names_absent :: "simple_command \<Rightarrow> overlay \<Rightarrow> string option \<Rightarrow> bool" where
  "names_absent c ov cwd = (let ops = po_operands (options_of read_value_options (tl (sc_words c))) in
     ops \<noteq> [] \<and> list_all (\<lambda>w. sw_text w \<noteq> ''-'' \<and> \<not> sw_globs w \<and> \<not> sw_expands w \<and>
       (case session_path (sw_text w) cwd (ov_root ov) of None \<Rightarrow> False | Some p \<Rightarrow> kind_of ov p = None)) ops)"

definition kinds_along :: "overlay \<Rightarrow> string \<Rightarrow> path_kind option list" where
  "kinds_along ov path = map (kind_of ov) (chain_of path)"

definition first_command :: "stage \<Rightarrow> simple_command" where
  "first_command s = hd (st_pipeline s)"

definition changes_tree :: "simple_command \<Rightarrow> bool" where
  "changes_tree c \<longleftrightarrow> command_name c \<notin> set keeps_tmp \<or> command_name c = ''git'' \<or> list_ex writes_file (sc_redirects c)"

definition changers :: "stage list \<Rightarrow> simple_command list" where
  "changers before = filter changes_tree (concat (map st_pipeline before))"

definition made_before :: "stage list \<Rightarrow> string option \<Rightarrow> overlay \<Rightarrow> string option list" where
  "made_before before cwd ov = concat (map (\<lambda>s. if command_name (first_command s) \<noteq> ''mkdir'' then []
     else map (\<lambda>w. session_path (sw_text w) cwd (ov_root ov))
       (filter (\<lambda>w. \<not> starts_with ''-'' (sw_text w) \<and> \<not> sw_expands w) (tl (sc_words (first_command s))))) before)"

definition cd_fixed :: "simple_command \<Rightarrow> overlay \<Rightarrow> string option \<Rightarrow> stage list \<Rightarrow> int option" where
  "cd_fixed c ov cwd before = (case cd_target c cwd of
     None \<Rightarrow> None
   | Some target \<Rightarrow>
       if target \<in> set system_directories \<or>
         (kind_of ov target = Some DIRECTORY \<and> list_all (\<lambda>c. command_name c \<in> set only_adds) (changers before)) \<or>
         list_ex (\<lambda>m. case m of None \<Rightarrow> False | Some p \<Rightarrow> at_or_under target p) (made_before before cwd ov)
       then Some 0 else None)"

text \<open>\<open>int\<close> raises on what \<open>isdigit\<close> lets through: more than 4300 digits, or a superscript.\<close>

definition exit_fixed :: "string list \<Rightarrow> py_error + int option" where
  "exit_fixed args = (case args of
     a # _ \<Rightarrow> if number_text a then and_then (int_of_text a) (\<lambda>n. Inr (Some (int n mod 256))) else Inr None
   | [] \<Rightarrow> Inr None)"

definition mkdir_fixed :: "simple_command \<Rightarrow> overlay \<Rightarrow> string option \<Rightarrow> int option" where
  "mkdir_fixed c ov cwd =
     (let paths = map (\<lambda>a. session_path a cwd (ov_root ov)) (filter (\<lambda>a. \<not> starts_with ''-'' a) (command_args c)) in
      if paths = [] \<or> None \<in> set paths then None
      else let ks = concat (map (\<lambda>p. kinds_along ov (the p)) paths) in
        if Some UNKNOWN \<in> set ks then None else Some (if Some FILE \<in> set ks then 1 else 0))"

definition moves_shell :: "stage \<Rightarrow> bool" where
  "moves_shell s \<longleftrightarrow> command_name (first_command s) \<in> {''cd'', ''pushd'', ''popd''}"

definition fixed_status :: "(shell_word list \<Rightarrow> bool) \<Rightarrow> overlay \<Rightarrow> string option \<Rightarrow> stage list \<Rightarrow> stage \<Rightarrow> py_error + int option" where
  "fixed_status sed_rejects ov cwd0 before s =
     (let c = last (st_pipeline s); name = command_name c; alone = (length (st_pipeline s) = 1);
        cwd = (if list_ex moves_shell before then None else cwd0)
      in if name = ''cd'' \<and> alone \<and> sc_redirects c = [] then Inr (cd_fixed c ov cwd before)
      else if name \<in> set always_succeed \<and> sc_redirects c = [] then Inr (Some 0)
      else if name = ''false'' then Inr (Some 1)
      else if name = ''exit'' then exit_fixed (command_args c)
      else if name = ''sed'' \<and> alone \<and> \<not> command_expands c \<and> sed_rejects (tl (sc_words c)) then Inr (Some 1)
      else if changers before \<noteq> [] then Inr None
      else if name \<in> {''cat'', ''head'', ''tail''} \<and> names_absent c ov cwd then Inr (Some 1)
      else if \<not> alone \<or> sc_redirects c \<noteq> [] \<or> command_expands c then Inr None
      else if name = ''rm'' then Inr (rm_status ov (tl (sc_words c)) cwd)
      else if name = ''mkdir'' \<and> ''-p'' \<in> set (command_args c) then Inr (mkdir_fixed c ov cwd)
      else Inr None)"

definition fixed_statuses ::
  "(shell_word list \<Rightarrow> bool) \<Rightarrow> overlay \<Rightarrow> string option \<Rightarrow> stage list \<Rightarrow> py_error + int option list" where
  "fixed_statuses sed_rejects ov cwd stages =
     all_of (\<lambda>i. fixed_status sed_rejects ov cwd (take i stages) (stages ! i)) [0..<length stages]"

definition schedule :: "(shell_word list \<Rightarrow> bool) \<Rightarrow> stage list \<Rightarrow> int option \<Rightarrow> string option \<Rightarrow> overlay \<Rightarrow> py_error + schedule_plan" where
  "schedule sed_rejects stages returncode cwd ov =
     and_then (fixed_statuses sed_rejects ov cwd stages) (\<lambda>fixed. Inr (schedule_with stages fixed returncode cwd))"

section \<open>The simulated list is the one the shell runs\<close>

definition knows :: "string option \<Rightarrow> string \<Rightarrow> bool" where
  "knows k d \<longleftrightarrow> k = None \<or> k = Some d"











text \<open>What \<open>simulate\<close> says of a stage and what the shell did with it.\<close>

definition saw :: "stage_run \<Rightarrow> stage_trace \<Rightarrow> bool" where
  "saw t x \<longleftrightarrow> rel_option (\<lambda>(k, c) (d, c'). knows k d \<and> c = c') t x"

lemma saw_simps [simp]: "saw None None" "saw (Some (k, c)) (Some (d, c')) \<longleftrightarrow> knows k d \<and> c = c'"
  by (simp_all add: saw_def)







section \<open>Where the inference is wrong\<close>

text \<open>
  The status the plan gives a stage tells failing from not failing, no more: a command by itself whose
  status the words do not fix has status 1 however it failed. Of a lone \<open>sed\<close> the session takes a status
  of 1 for a rejected script and the files for unchanged, though a \<open>sed\<close> over two files that ends with 2
  edited one of them and could not read the other.
\<close>

lemma failure_code_lost:
  assumes "fixed_status sed_rejects ov cwd [] s = Inr None" "\<not> joins s" "r \<noteq> 0"
  shows "\<exists>plan. schedule sed_rejects [s] (Some r) cwd ov = Inr plan \<and> map pl_status (pl_stages plan) = [Some 1]"
proof -
  have run: "simulate [s] [code] cwd = ([Some (cwd, code)], code, cwd_after s code cwd)" for code
    using assms(2) by (auto simp: simulate_def skips_def joins_def Let_def)
  have "ways_of [s] [None] (Some r) cwd = [([Some (cwd, 1)], cwd_after s 1 cwd)]"
    using assms(3) by (simp add: ways_of_def run)
  then show ?thesis using assms(1)
    by (simp add: schedule_def fixed_statuses_def schedule_with_def MAX_OPEN_STAGES_def plan_at_def taken_at_def
        map_filter_simps the_only_def)
qed

text \<open>\<open>set +o errexit\<close>, which turns it off, is read as turning it on.\<close>

lemma errexit_off_read_as_on:
  "errexit_after \<lparr>sc_words = map plain_word [''set'', ''+o'', ''errexit''], sc_assignments = [], sc_redirects = [],
     sc_heredoc = None, sc_text = []\<rparr> True"
  by code_simp

end
