(* ===== verification/OverlayWitnesses.thy ===== *)
theory OverlayWitnesses
  imports OverlaySound Schedule
begin

text \<open>The properties of the simulated checkout, each applied where its hypotheses hold.\<close>

theorem files_under_exact_witness:
  "files_under (checkout [''a'', ''d/b'', ''d/c'', ''da''] (\<lambda>_. [])) ''d'' = [''d/b'', ''d/c''] \<and>
   set (files_under (checkout [''a'', ''d/b'', ''d/c'', ''da''] (\<lambda>_. [])) ''d'') =
     {p. has_file (checkout [''a'', ''d/b'', ''d/c'', ''da''] (\<lambda>_. [])) p \<and> (if ''d'' = [] then \<not> absolute p else starts_with (''d'' @ ''/'') p)}"
proof -
  have "listed (checkout [''a'', ''d/b'', ''d/c'', ''da''] (\<lambda>_. []))"
    by (simp add: listed_def checkout_def absolute_def starts_with_def less_eq_char_def less_char_def)
  note exact = files_under_exact [OF this, of "''d''"]
  have "files_under (checkout [''a'', ''d/b'', ''d/c'', ''da''] (\<lambda>_. [])) ''d'' = [''d/b'', ''d/c'']" by code_simp
  with exact show ?thesis by blast
qed

definition sample_run :: "moment list" where
  "sample_run = [(Mkdir True ''d/e'', True, True), (Write False None ''x'' ''d/e/f'', True, True),
     (Touch ''n'', False, False), (Remove True ''a'', True, True)]"

theorem overlay_simulates_machine_witness:
  "good_listing [''a'', ''d/b''] \<and> list_all fair sample_run \<and> relative ''d/e/f'' \<and>
   kind_of (fold step_overlay sample_run (checkout [''a'', ''d/b''] (\<lambda>_. []))) ''d/e/f'' = Some FILE \<and>
   (\<exists>t. fold step_world sample_run (files_of [''a'', ''d/b''] (\<lambda>_. [])) ''d/e/f'' = Some (File t))"
proof -
  have g: "good_listing [''a'', ''d/b'']" by code_simp
  have f: "list_all fair sample_run" by code_simp
  have r: "relative ''d/e/f''" by code_simp
  have k: "kind_of (fold step_overlay sample_run (checkout [''a'', ''d/b''] (\<lambda>_. []))) ''d/e/f'' = Some FILE" by code_simp
  from overlay_simulates_machine [OF g f r, of "\<lambda>_. []"] k g f r show ?thesis by auto
qed


theorem quoted_command_roundtrip_witness:
  "\<exists>stage command. parse_command (quote_words [''echo'', ''a'' @ [single_quote] @ '' > b'', []]) = Some (Parsed [stage]) \<and>
     st_pipeline stage = [command] \<and> argv command = [''echo'', ''a'' @ [single_quote] @ '' > b'', []] \<and> sc_redirects command = []"
  using quoted_command_roundtrip [of "[''echo'', ''a'' @ [single_quote] @ '' > b'', []]"] by blast







text \<open>An operand named twice, and a file with a slash at its end.\<close>

theorem operands_read_once_witness:
  "mkdir_succeeds (fold step_overlay [] (checkout [''a'', ''d/b''] (\<lambda>_. []))) [plain_word ''e'', plain_word ''e''] (Some []) \<and>
   \<not> mkdir_works ''e'' (real_mkdir False ''e'' (fold step_world [] (files_of [''a'', ''d/b''] (\<lambda>_. [])))) \<and>
   rm_succeeds (fold step_overlay [] (checkout [''a'', ''d/b''] (\<lambda>_. []))) ''rm'' [plain_word ''a'', plain_word ''a''] (Some []) \<and>
   \<not> rm_works False False ''a'' ''a'' (real_rm False ''a'' (fold step_world [] (files_of [''a'', ''d/b''] (\<lambda>_. []))))"
proof -
  let ?ov = "fold step_overlay [] (checkout [''a'', ''d/b''] (\<lambda>_. []))"
  have g: "good_listing [''a'', ''d/b'']" "list_all fair []" by code_simp+
  have e: "\<not> starts_with ''-'' (sw_text (plain_word ''e''))" "direct (plain_word ''e'')" "\<not> sw_globs (plain_word ''e'')"
    "paths_of ?ov (plain_word ''e'') (Some []) = Some [''e'']" "relative ''e''" "mkdir_succeeds ?ov [plain_word ''e''] (Some [])"
    by code_simp+
  have a: "\<not> starts_with ''-'' (sw_text (plain_word ''a''))" "direct (plain_word ''a'')" "\<not> sw_globs (plain_word ''a'')"
    "paths_of ?ov (plain_word ''a'') (Some []) = Some [''a'']" "relative ''a''"
    "rm_succeeds ?ov ''rm'' [plain_word ''a''] (Some [])" "\<not> slashed_file ?ov (plain_word ''a'') ''a''" by code_simp+
  have t: "sw_text (plain_word ''a'') = ''a''" by (simp add: plain_word_def)
  show ?thesis
    using operands_read_once [OF g e(1-5)] e(6) operands_read_once [OF g a(1-5)] a(6,7) unfolding t by blast
qed

theorem slashed_file_mispredicted_witness:
  "rm_succeeds (fold step_overlay [] (checkout [''a'', ''d/b''] (\<lambda>_. []))) ''rm'' [plain_word ''a/''] (Some []) \<and>
   \<not> rm_works False False ''a/'' ''a'' (fold step_world [] (files_of [''a'', ''d/b''] (\<lambda>_. []))) \<and>
   rm_status (fold step_overlay [] (checkout [''a'', ''d/b''] (\<lambda>_. []))) [plain_word ''a/''] (Some []) = Some 1"
proof -
  let ?ov = "fold step_overlay [] (checkout [''a'', ''d/b''] (\<lambda>_. []))"
  have g: "good_listing [''a'', ''d/b'']" "list_all fair []" by code_simp+
  have a: "\<not> starts_with ''-'' (sw_text (plain_word ''a/''))" "\<not> dots (plain_word ''a/'')"
    "paths_of ?ov (plain_word ''a/'') (Some []) = Some [''a'']" "relative ''a''" "slashed_file ?ov (plain_word ''a/'') ''a''"
    by code_simp+
  have t: "sw_text (plain_word ''a/'') = ''a/''" by (simp add: plain_word_def)
  show ?thesis using slashed_file_mispredicted [OF g a] unfolding t by blast
qed

end
