(* ===== verification/ModelChecks.thy ===== *)
theory ModelChecks
  imports Globs
begin

text \<open>
  The checks of a model repository that need no weights, src/src/model_validation/validate/: the
  files it may hold, the types of its tensors, the files that must be those of genesis, the chat
  template, the shards its index names and the shapes of the seed; with the byte ranges
  (src/src/model_validation/storage/preflight.py) over which the header of a shard is read without
  its weights. Each check returns, as the code's, whether it passed and a message.

  Outside are the disk, the parser of JSON and SHA-256: the files of a directory are a function from
  names to what reading gives, \<open>Inl\<close> the text of the exception.
\<close>

section \<open>Python's text of a list of texts\<close>

definition hex_digit :: "nat \<Rightarrow> char" where
  "hex_digit n = ''0123456789abcdef'' ! n"

definition repr_char :: "char \<Rightarrow> char \<Rightarrow> string" where
  "repr_char q c = (if c = CHR 0x5C \<or> c = q then [CHR 0x5C, c]
     else if c = CHR 0x0A then [CHR 0x5C, CHR ''n''] else if c = CHR 0x0D then [CHR 0x5C, CHR ''r'']
     else if c = CHR 0x09 then [CHR 0x5C, CHR ''t'']
     else if of_char c < (32 :: nat) \<or> of_char c = (127 :: nat)
       then [CHR 0x5C, CHR ''x'', hex_digit (of_char c div 16), hex_digit (of_char c mod 16)]
     else [c])"

definition repr_text :: "string \<Rightarrow> string" where
  "repr_text s = (let q = (if CHR 0x27 \<in> set s \<and> CHR 0x22 \<notin> set s then CHR 0x22 else CHR 0x27)
     in [q] @ concat (map (repr_char q) s) @ [q])"

fun joined :: "string \<Rightarrow> string list \<Rightarrow> string" where
  "joined sep [] = []"
| "joined sep [x] = x"
| "joined sep (x # y # xs) = x @ sep @ joined sep (y # xs)"

definition repr_texts :: "string list \<Rightarrow> string" where
  "repr_texts xs = ''['' @ joined '', '' (map repr_text xs) @ '']''"

text \<open>\<open>sorted(set(xs))\<close> and \<open>s.endswith(t)\<close>.\<close>

definition sorted_set :: "string list \<Rightarrow> string list" where
  "sorted_set xs = sort (remdups xs)"

definition ends_in :: "string \<Rightarrow> string \<Rightarrow> bool" where
  "ends_in t s \<longleftrightarrow> length t \<le> length s \<and> drop (length s - length t) s = t"

lemma set_sorted_set [simp]: "set (sorted_set xs) = set xs"
  by (simp add: sorted_set_def)

lemma sorted_set_Nil [simp]: "sorted_set xs = [] \<longleftrightarrow> xs = []"
  by (metis set_empty set_sorted_set)

section \<open>The files of the repository\<close>

definition REQUIRED_FILES :: "string list" where
  "REQUIRED_FILES = [''config.json'', ''generation_config.json'', ''tokenizer_config.json'',
     ''tokenizer.json'', ''chat_template.jinja'', ''preprocessor_config.json'',
     ''video_preprocessor_config.json'']"

definition ALLOWED_FILES :: "string list" where
  "ALLOWED_FILES = [''model.safetensors.index.json'', ''.gitattributes'', ''LICENSE'', ''README.md'']"

definition ALLOWED_GLOBS :: "string list" where
  "ALLOWED_GLOBS = [''model-*-of-*.safetensors'', ''model.safetensors'']"

definition FORBIDDEN_GLOBS :: "string list" where
  "FORBIDDEN_GLOBS = [''*.py'']"

definition matches_any :: "string \<Rightarrow> string list \<Rightarrow> bool" where
  "matches_any name globs = list_ex (\<lambda>g. fnmatch g name) globs"

definition missing_files :: "string list \<Rightarrow> string list" where
  "missing_files files = filter (\<lambda>f. f \<notin> set files) REQUIRED_FILES @
     (if list_ex (ends_in ''.safetensors'') files then [] else [''*.safetensors''])"

definition forbidden_files :: "string list \<Rightarrow> string list" where
  "forbidden_files files = sorted_set (filter (\<lambda>f. matches_any f FORBIDDEN_GLOBS) files)"

definition extra_files :: "string list \<Rightarrow> string list" where
  "extra_files files = sorted_set (filter (\<lambda>f. f \<notin> set (REQUIRED_FILES @ ALLOWED_FILES) \<and>
     \<not> matches_any f ALLOWED_GLOBS \<and> \<not> matches_any f FORBIDDEN_GLOBS) files)"

definition check_repo :: "string list \<Rightarrow> bool \<times> string" where
  "check_repo files =
     (let missing = missing_files files; forbidden = forbidden_files files; extras = extra_files files
      in if missing \<noteq> [] \<or> forbidden \<noteq> [] \<or> extras \<noteq> []
         then (False, joined ''; ''
           ((if missing \<noteq> [] then [''missing required: '' @ repr_texts missing] else []) @
            (if forbidden \<noteq> [] then [''forbidden present: '' @ repr_texts (take 10 forbidden)] else []) @
            (if extras \<noteq> [] then [''unexpected extras: '' @ repr_texts (take 10 extras)] else [])))
         else (True, []))"

lemma check_repo_passes:
  "fst (check_repo files) \<longleftrightarrow>
     set REQUIRED_FILES \<subseteq> set files \<and> (\<exists>f \<in> set files. ends_in ''.safetensors'' f) \<and>
     (\<forall>f \<in> set files. \<not> matches_any f FORBIDDEN_GLOBS \<and>
        (f \<in> set (REQUIRED_FILES @ ALLOWED_FILES) \<or> matches_any f ALLOWED_GLOBS))"
  by (auto simp: check_repo_def Let_def missing_files_def forbidden_files_def extra_files_def
      filter_empty_conv list_ex_iff)

section \<open>Headers: types and shapes\<close>

text \<open>
  The headers of the shards by name, each a dict from tensor names to JSON. \<open>info["dtype"]\<close> raises
  a KeyError without the key and a TypeError on what is no dict; a type that is not a text is taken
  to raise one too (the code would carry it into the set of types). The same for \<open>info["shape"]\<close>.
\<close>

type_synonym headers = "(string \<times> jdict) list"

fun item_of :: "string \<Rightarrow> json \<Rightarrow> py_error + json" where
  "item_of k (JObj d) = (case map_of d k of None \<Rightarrow> Inl (KeyError k) | Some v \<Rightarrow> Inr v)"
| "item_of k _ = Inl (TypeError ''not subscriptable with a text'')"

fun as_text :: "json \<Rightarrow> py_error + string" where
  "as_text (JStr s) = Inr s"
| "as_text _ = Inl (TypeError ''not a text'')"

definition dtype_of :: "json \<Rightarrow> py_error + string" where
  "dtype_of info = and_then (item_of ''dtype'' info) as_text"

definition tensors_of :: "jdict \<Rightarrow> jdict" where
  "tensors_of header = filter (\<lambda>(k, _). k \<noteq> ''__metadata__'') header"

definition dtypes_from_headers :: "headers \<Rightarrow> py_error + (string \<times> string list) list" where
  "dtypes_from_headers hs = all_of (\<lambda>(shard, header).
     and_then (all_of (\<lambda>(_, info). dtype_of info) (tensors_of header)) (\<lambda>ds. Inr (shard, ds))) hs"

definition ALLOWED_DTYPES :: "string list" where
  "ALLOWED_DTYPES = [''F16'', ''BF16'']"

definition bad_dtypes :: "string list \<Rightarrow> string list" where
  "bad_dtypes ds = sorted_set (filter (\<lambda>d. d \<notin> set ALLOWED_DTYPES) ds)"

definition check_dtypes :: "(string \<times> string list) list \<Rightarrow> bool \<times> string" where
  "check_dtypes shards =
     (case find (\<lambda>(_, ds). bad_dtypes ds \<noteq> []) (sort_key fst shards) of
        Some (name, ds) \<Rightarrow> (False, ''model weights must be 16-bit (F16/BF16); shard '' @ name @
          '' has dtype(s): '' @ repr_texts (bad_dtypes ds))
      | None \<Rightarrow> (True, []))"

lemma check_dtypes_passes:
  "fst (check_dtypes shards) \<longleftrightarrow> (\<forall>(_, ds) \<in> set shards. set ds \<subseteq> set ALLOWED_DTYPES)"
proof -
  have "fst (check_dtypes shards) \<longleftrightarrow> find (\<lambda>(_, ds). bad_dtypes ds \<noteq> []) (sort_key fst shards) = None"
    by (simp add: check_dtypes_def split: option.splits)
  also have "\<dots> \<longleftrightarrow> (\<forall>(_, ds) \<in> set shards. set ds \<subseteq> set ALLOWED_DTYPES)"
    by (auto simp: find_None_iff bad_dtypes_def filter_empty_conv)
  finally show ?thesis .
qed

text \<open>A shape is a JSON list; the dict of all shards, a name met twice with its last shape.\<close>

fun as_shape :: "json \<Rightarrow> py_error + json list" where
  "as_shape (JList ns) = Inr ns"
| "as_shape _ = Inl (TypeError ''not a list'')"

definition shape_of :: "json \<Rightarrow> py_error + json list" where
  "shape_of info = and_then (item_of ''shape'' info) as_shape"

definition shapes_from_headers :: "headers \<Rightarrow> py_error + (string \<times> json list) list" where
  "shapes_from_headers hs = and_then (all_of (\<lambda>(name, info).
       and_then (shape_of info) (\<lambda>s. Inr (name, s))) (concat (map (tensors_of \<circ> snd) hs)))
     (\<lambda>kvs. Inr (dict_of kvs))"

definition SHOW_SHAPES :: nat where
  "SHOW_SHAPES = 5"

definition shape_text :: "json list \<Rightarrow> string" where
  "shape_text ns = ''['' @ joined '', '' (map py_str ns) @ '']''"

definition wrong_shapes ::
  "(string \<times> json list) list \<Rightarrow> (string \<times> json list) list \<Rightarrow> string list" where
  "wrong_shapes cand seed = sorted_set (filter (\<lambda>n. n \<in> set (map fst cand) \<and>
     map_of cand n \<noteq> map_of seed n) (map fst seed))"

definition missing_keys :: "(string \<times> 'v) list \<Rightarrow> (string \<times> 'v) list \<Rightarrow> string list" where
  "missing_keys cand seed = sorted_set (filter (\<lambda>n. n \<notin> set (map fst cand)) (map fst seed))"

definition check_shapes ::
  "(string \<times> json list) list \<Rightarrow> (string \<times> json list) list \<Rightarrow> bool \<times> string" where
  "check_shapes cand seed =
     (let missing = missing_keys cand seed; extra = missing_keys seed cand;
          wrong = wrong_shapes cand seed;
          shown = (\<lambda>n. n @ '' is '' @ shape_text (the (map_of cand n)) @ '', expected '' @
            shape_text (the (map_of seed n)))
      in if missing = [] \<and> extra = [] \<and> wrong = [] then (True, [])
         else (False, ''model tensors do not match the genesis seed: '' @ joined ''; ''
           ((if wrong \<noteq> [] then [show_nat (length wrong) @ '' tensor(s) with the wrong shape ('' @
               joined '', '' (map shown (take SHOW_SHAPES wrong)) @ '')''] else []) @
            (if missing \<noteq> [] then [show_nat (length missing) @ '' missing tensor(s) ('' @
               joined '', '' (take SHOW_SHAPES missing) @ '')''] else []) @
            (if extra \<noteq> [] then [show_nat (length extra) @ '' unexpected tensor(s) ('' @
               joined '', '' (take SHOW_SHAPES extra) @ '')''] else []))))"

lemma missing_keys_Nil: "missing_keys cand seed = [] \<longleftrightarrow> dom (map_of seed) \<subseteq> dom (map_of cand)"
  by (auto simp: missing_keys_def filter_empty_conv dom_map_of_conv_image_fst)

text \<open>The check passes exactly on the seed's own inventory.\<close>

lemma check_shapes_passes: "fst (check_shapes cand seed) \<longleftrightarrow> map_of cand = map_of seed"
proof
  assume "fst (check_shapes cand seed)"
  then have "missing_keys cand seed = []" "missing_keys seed cand = []" "wrong_shapes cand seed = []"
    by (auto simp: check_shapes_def Let_def split: if_splits)
  then have dom: "dom (map_of cand) = dom (map_of seed)"
    and same: "\<And>n. n \<in> dom (map_of seed) \<Longrightarrow> n \<in> dom (map_of cand) \<Longrightarrow> map_of cand n = map_of seed n"
    by (auto simp: missing_keys_Nil wrong_shapes_def filter_empty_conv dom_map_of_conv_image_fst)
  show "map_of cand = map_of seed"
  proof
    fix n show "map_of cand n = map_of seed n"
      using dom same [of n] by (cases "n \<in> dom (map_of seed)") (auto simp: domIff)
  qed
next
  assume same: "map_of cand = map_of seed"
  then have "missing_keys cand seed = []" "missing_keys seed cand = []" by (simp_all add: missing_keys_Nil)
  moreover have "wrong_shapes cand seed = []" by (simp add: wrong_shapes_def same)
  ultimately show "fst (check_shapes cand seed)" by (simp add: check_shapes_def)
qed

section \<open>The files of genesis and the chat template\<close>

type_synonym reader = "string \<Rightarrow> string + string"

definition GENESIS_MODEL :: string where
  "GENESIS_MODEL = ''dendriteholdings/albedo-qwen3.6-35b-king-genesis''"

definition GENESIS_SHA256 :: "(string \<times> string) list" where
  "GENESIS_SHA256 =
     [(''config.json'', ''93a4693fa9d8392fbfccd4b3c9873f4bfdcb14fdede978b123d07d19675efe99''),
      (''generation_config.json'', ''e70c136c1b78ddc1fb0905bac8e733a4dc448d4f852a5dd75143fffc70be550e''),
      (''preprocessor_config.json'', ''27225450ac9c6529872ee1924fcb0962ff5634834f817040f444118116f4e516''),
      (''tokenizer_config.json'', ''5186f0defcd7f232382c7f0aebcd2252d073bb921ab240e407b7ae8745d2b29b''),
      (''tokenizer.json'', ''5f9e4d4901a92b997e463c1f46055088b6cca5ca61a6522d1b9f64c4bb81cb42''),
      (''video_preprocessor_config.json'', ''7768af27c1fafa9cc9011c1dc20067e03f8915e03b63504550e11d5066986d13'')]"

definition genesis_problem ::
  "(string \<Rightarrow> string) \<Rightarrow> reader \<Rightarrow> string list \<Rightarrow> string \<times> string \<Rightarrow> string list" where
  "genesis_problem sha256 read files = (\<lambda>(name, expected).
     if name \<notin> set files then [''missing required genesis file '' @ name]
     else case read name of
       Inl e \<Rightarrow> [''could not read '' @ name @ '': '' @ e]
     | Inr bytes \<Rightarrow> if sha256 bytes \<noteq> expected
         then [name @ '' sha256 '' @ sha256 bytes @ '' != '' @ expected @
           '' (does not match genesis '' @ GENESIS_MODEL @ '')''] else [])"

definition check_genesis :: "(string \<Rightarrow> string) \<Rightarrow> reader \<Rightarrow> string list \<Rightarrow> bool \<times> string" where
  "check_genesis sha256 read files =
     (let problems = concat (map (genesis_problem sha256 read files) GENESIS_SHA256)
      in (problems = [], joined ''; '' problems))"

lemma check_genesis_passes:
  "fst (check_genesis sha256 read files) \<longleftrightarrow> (\<forall>(name, expected) \<in> set GENESIS_SHA256.
     name \<in> set files \<and> (\<exists>bytes. read name = Inr bytes \<and> sha256 bytes = expected))"
proof -
  have "genesis_problem sha256 read files x = [] \<longleftrightarrow>
      (case x of (name, expected) \<Rightarrow>
        name \<in> set files \<and> (\<exists>bytes. read name = Inr bytes \<and> sha256 bytes = expected))" for x
    by (auto simp: genesis_problem_def split: prod.splits sum.splits if_splits)
  then show ?thesis by (simp add: check_genesis_def)
qed

definition EXPECTED_CHAT_TEMPLATE_SHA256 :: string where
  "EXPECTED_CHAT_TEMPLATE_SHA256 = ''e84f32a23fdda27689f868aa4a1a5621f41133e51a48d7f3efcbea2839574259''"

definition template_problem :: "(string \<Rightarrow> string) \<Rightarrow> string \<Rightarrow> string \<Rightarrow> string list" where
  "template_problem sha256 what bytes = (if sha256 bytes \<noteq> EXPECTED_CHAT_TEMPLATE_SHA256
     then [what @ '' sha256 '' @ sha256 bytes @ '' != '' @ EXPECTED_CHAT_TEMPLATE_SHA256] else [])"

text \<open>
  \<open>tokenizer_config.get\<close> raises an AttributeError on what is no dict; only errors of reading and of
  the JSON are caught.
\<close>

definition tokenizer_problem :: "(string \<Rightarrow> string) \<Rightarrow> json \<Rightarrow> py_error + string list" where
  "tokenizer_problem sha256 v = and_then (as_jdict v) (\<lambda>d. Inr (case dget ''chat_template'' d of
       JStr t \<Rightarrow> if t = [] then [''tokenizer_config.json missing string chat_template'']
         else template_problem sha256 ''tokenizer_config.json chat_template'' t
     | _ \<Rightarrow> [''tokenizer_config.json missing string chat_template'']))"

definition check_chat_template ::
  "(string \<Rightarrow> string) \<Rightarrow> (string \<Rightarrow> string + json) \<Rightarrow> reader \<Rightarrow> string list \<Rightarrow> py_error + bool \<times> string" where
  "check_chat_template sha256 loads read files =
     (let jinja = (if ''chat_template.jinja'' \<notin> set files then Inr [''missing required chat_template.jinja'']
            else retell (\<lambda>e. ''could not read chat_template.jinja: '' @ e)
              (and_then (read ''chat_template.jinja'') (\<lambda>b. Inr (template_problem sha256 ''chat_template.jinja'' b))));
          config = and_then (retell (\<lambda>e. ''could not read tokenizer_config.json: '' @ e) (read ''tokenizer_config.json''))
            (\<lambda>t. retell (\<lambda>e. ''invalid tokenizer_config.json: '' @ e) (loads t))
      in case jinja of Inl msg \<Rightarrow> Inr (False, msg)
         | Inr problems \<Rightarrow> (case config of Inl msg \<Rightarrow> Inr (False, msg)
           | Inr v \<Rightarrow> and_then (tokenizer_problem sha256 v) (\<lambda>more.
               Inr (problems @ more = [], joined ''; '' (problems @ more)))))"

section \<open>The shards and their index\<close>

text \<open>
  The downloaded directory: its shards, the index file when there is one, and the names of the
  tensors in the header of a shard (without its metadata key).
\<close>

record model_dir =
  md_shards :: "string list"
  md_index :: "(string + string) option"
  md_tensors :: "string \<Rightarrow> string + string list"

definition INDEX_NAME :: string where
  "INDEX_NAME = ''model.safetensors.index.json''"

text \<open>
  The index and its weight map, or the text of what is wrong with it. The texts of the exceptions
  Python raises on a value of another kind are abridged.
\<close>

definition read_index :: "(string \<Rightarrow> string + json) \<Rightarrow> string + string \<Rightarrow> string + jdict \<times> jdict" where
  "read_index loads r = and_then (and_then r loads) (\<lambda>v. case v of
       JObj index \<Rightarrow> (case map_of index ''weight_map'' of
           None \<Rightarrow> Inl (repr_text ''weight_map'')
         | Some (JObj wm) \<Rightarrow> if wm = [] then Inl ''empty or non-object weight_map'' else Inr (index, wm)
         | Some _ \<Rightarrow> Inl ''empty or non-object weight_map'')
     | _ \<Rightarrow> Inl ''not subscriptable with a text'')"

fun first_some :: "('a \<Rightarrow> 'b option) \<Rightarrow> 'a list \<Rightarrow> 'b option" where
  "first_some f [] = None"
| "first_some f (x # xs) = (case f x of None \<Rightarrow> first_some f xs | Some y \<Rightarrow> Some y)"

lemma first_some_None [simp]: "first_some f xs = None \<longleftrightarrow> (\<forall>x \<in> set xs. f x = None)"
  by (induction xs) (auto split: option.splits)

definition shard_problem :: "model_dir \<Rightarrow> jdict \<Rightarrow> string \<Rightarrow> string option" where
  "shard_problem d wm shard =
     (let index_keys = map fst (filter (\<lambda>(_, v). v = JStr shard) wm)
      in case md_tensors d shard of
        Inl e \<Rightarrow> Some (''could not read safetensors header of '' @ shard @ '': '' @ e)
      | Inr header_keys \<Rightarrow>
          (let dead = sorted_set (filter (\<lambda>k. k \<notin> set index_keys) header_keys);
               absent = sorted_set (filter (\<lambda>k. k \<notin> set header_keys) index_keys)
           in if dead \<noteq> [] then Some (''shard '' @ shard @
                  '' contains tensors not referenced by the index: '' @ repr_texts (take 10 dead))
              else if absent \<noteq> [] then Some (INDEX_NAME @ '' maps tensors not present in shard '' @
                  shard @ '': '' @ repr_texts (take 10 absent))
              else None))"

text \<open>
  A value of the weight map that is no text is taken to raise a TypeError, as an object or a list
  does (the code reports a number as a missing shard).
\<close>

definition check_index :: "(string \<Rightarrow> string + json) \<Rightarrow> model_dir \<Rightarrow> py_error + bool \<times> string" where
  "check_index loads d =
     (case md_index d of
        None \<Rightarrow> Inr (if set (md_shards d) = {''model.safetensors''} then (True, [])
          else (False, ''sharded checkpoint missing '' @ INDEX_NAME))
      | Some r \<Rightarrow> (case read_index loads r of
          Inl e \<Rightarrow> Inr (False, ''malformed '' @ INDEX_NAME @ '': '' @ e)
        | Inr (index, wm) \<Rightarrow>
            (let extra_keys = sorted_set (filter (\<lambda>k. k \<notin> {''metadata'', ''weight_map''}) (map fst index))
             in if extra_keys \<noteq> []
                then Inr (False, INDEX_NAME @ '' has disallowed top-level keys '' @ repr_texts extra_keys @
                  ''; only 'metadata' and 'weight_map' are allowed'')
                else and_then (all_of as_text (map snd wm)) (\<lambda>referenced.
                  let extra = sorted_set (filter (\<lambda>f. f \<notin> set referenced) (md_shards d));
                      missing = sorted_set (filter (\<lambda>f. f \<notin> set (md_shards d)) referenced)
                  in if extra \<noteq> [] then Inr (False, ''repo contains '' @ show_nat (length extra) @
                       '' safetensors not used by the model (not referenced in '' @ INDEX_NAME @ ''): '' @
                       repr_texts (take 10 extra))
                     else if missing \<noteq> [] then Inr (False, INDEX_NAME @ '' references missing shard(s): '' @
                       repr_texts (take 10 missing))
                     else case first_some (shard_problem d wm) (sorted_set referenced) of
                       Some msg \<Rightarrow> Inr (False, msg) | None \<Rightarrow> Inr (True, [])))))"

lemma shard_problem_None:
  "shard_problem d wm shard = None \<longleftrightarrow>
     (\<exists>keys. md_tensors d shard = Inr keys \<and> set keys = {k. (k, JStr shard) \<in> set wm})"
proof -
  have "set (map fst (filter (\<lambda>(_, v). v = JStr shard) wm)) = {k. (k, JStr shard) \<in> set wm}" by force
  then show ?thesis
    unfolding shard_problem_def Let_def
    by (auto simp: filter_empty_conv split: sum.splits if_splits)
qed

text \<open>What a passed check says: every tensor of every shard is the one the index names.\<close>

lemma check_index_sound:
  assumes "check_index loads d = Inr (True, msg)" and "md_index d = Some r"
  obtains index wm where "read_index loads r = Inr (index, wm)"
    and "set (map fst index) \<subseteq> {''metadata'', ''weight_map''}"
    and "snd ` set wm = JStr ` set (md_shards d)"
    and "\<And>shard. shard \<in> set (md_shards d) \<Longrightarrow>
      \<exists>keys. md_tensors d shard = Inr keys \<and> set keys = {k. (k, JStr shard) \<in> set wm}"
proof -
  from assms obtain index wm where read: "read_index loads r = Inr (index, wm)"
    by (auto simp: check_index_def split: sum.splits)
  from assms read have pass: "\<forall>k \<in> set (map fst index). k = ''metadata'' \<or> k = ''weight_map''"
    and "\<exists>referenced. all_of as_text (map snd wm) = Inr referenced \<and> set (md_shards d) = set referenced \<and>
      first_some (shard_problem d wm) (sorted_set referenced) = None"
    by (auto simp: check_index_def Let_def filter_empty_conv split: if_splits option.splits)
  then obtain referenced where refs: "all_of as_text (map snd wm) = Inr referenced"
    and same: "set (md_shards d) = set referenced"
    and none: "first_some (shard_problem d wm) (sorted_set referenced) = None" by blast
  from pass have keys: "set (map fst index) \<subseteq> {''metadata'', ''weight_map''}" by blast
  have texts: "map snd wm = map JStr referenced"
  proof (rule nth_equalityI)
    show "length (map snd wm) = length (map JStr referenced)" using all_of_Inr [OF refs] by simp
    fix i assume "i < length (map snd wm)"
    with all_of_Inr [OF refs] have "as_text (map snd wm ! i) = Inr (referenced ! i)" "i < length referenced" by auto
    then show "map snd wm ! i = map JStr referenced ! i" by (cases "map snd wm ! i") auto
  qed
  then have "snd ` set wm = JStr ` set (md_shards d)" by (metis list.set_map same)
  with read keys none show thesis by (intro that) (auto simp: shard_problem_None same)
qed

section \<open>Reading a header over byte ranges\<close>

text \<open>
  A file stored in packs: its chunks in order, each a range of a pack. \<open>_chunk_segments\<close> gives the
  ranges of the packs (digest, first and last byte) that hold the bytes from \<open>start\<close> to \<open>end\<close>.
\<close>

record chunk_ref =
  cr_pack :: string
  cr_offset :: int
  cr_size :: int

fun segments_from ::
  "chunk_ref list \<Rightarrow> int \<Rightarrow> int \<Rightarrow> int \<Rightarrow> (string \<times> int \<times> int) list \<Rightarrow> py_error + (string \<times> int \<times> int) list" where
  "segments_from [] start stop offset segments = Inl (ValueError (''byte range ['' @ show_int start @ '', '' @
     show_int stop @ ''] exceeds chunked file size '' @ show_int offset))"
| "segments_from (r # rs) start stop offset segments =
     (let lo = offset; hi = offset + cr_size r - 1;
          first = max start lo - lo; final = min stop hi - lo;
          segments' = (if start \<le> hi \<and> lo \<le> stop
            then segments @ [(cr_pack r, cr_offset r + first, cr_offset r + final)] else segments);
          offset' = offset + cr_size r
      in if stop < offset' then Inr segments' else segments_from rs start stop offset' segments')"

definition chunk_segments ::
  "chunk_ref list \<Rightarrow> int \<Rightarrow> int \<Rightarrow> py_error + (string \<times> int \<times> int) list" where
  "chunk_segments refs start stop = segments_from refs start stop 0 []"

text \<open>
  A range request, both ends included. The server is an argument: for a url and the two ends of the
  \<open>Range\<close> header, the status and the body of its answer.
\<close>

type_synonym 'b blob_server = "string \<Rightarrow> int \<Rightarrow> int \<Rightarrow> nat \<times> 'b list"

definition ranged :: "'b blob_server \<Rightarrow> string \<Rightarrow> int \<Rightarrow> int \<Rightarrow> py_error + 'b list" where
  "ranged server url start stop = (case server url start stop of (status, body) \<Rightarrow>
     if status \<noteq> 206
     then Inl (RuntimeError (''server did not honor Range (status '' @ show_nat status @ '') for '' @ url))
     else Inr body)"

definition read_range ::
  "'b blob_server \<Rightarrow> string \<Rightarrow> chunk_ref list \<Rightarrow> int \<Rightarrow> int \<Rightarrow> py_error + 'b list" where
  "read_range server blobs_base refs start stop = and_then (chunk_segments refs start stop) (\<lambda>segs.
     and_then (all_of (\<lambda>(digest, a, b). ranged server (blobs_base @ ''/'' @ digest) a b) segs)
       (\<lambda>parts. Inr (concat parts)))"

text \<open>The header: its length in the first eight bytes, least significant first, then its text.\<close>

definition little_endian :: "char list \<Rightarrow> int" where
  "little_endian bs = foldr (\<lambda>b n. of_char b + 256 * n) bs 0"

definition read_header ::
  "(string \<Rightarrow> py_error + json) \<Rightarrow> char blob_server \<Rightarrow> string \<Rightarrow> py_error + json" where
  "read_header loads server url = and_then (ranged server url 0 7) (\<lambda>len.
     and_then (ranged server url 8 (8 + little_endian len - 1)) loads)"

definition read_header_chunked ::
  "(string \<Rightarrow> py_error + json) \<Rightarrow> char blob_server \<Rightarrow> string \<Rightarrow> chunk_ref list \<Rightarrow> py_error + json" where
  "read_header_chunked loads server blobs_base refs = and_then (read_range server blobs_base refs 0 7) (\<lambda>len.
     and_then (read_range server blobs_base refs 8 (8 + little_endian len - 1)) loads)"



















end
