(* ===== verification/Dedup.thy ===== *)
theory Dedup
  imports Prelude
begin

text \<open>
  Deduplication, src/src/model_validation/dedup/: the bank of fingerprints in OpenSearch (bank.py),
  the verdict on a candidate's fingerprint against the bank (verdict.py, and reuse_table of
  signals.py), the gate that looks up, decides and indexes (gate.py), what is shown to the miner, and
  the secret of the sketches (secret.py).

  Outside are the fingerprint itself, computed with torch on a GPU, and the arithmetic of numpy on
  the sketches: the signals are functions, the fields of \<open>signals\<close>. The sketches are of any type. A
  distance is a float of which only the order matters, or infinite. The texts in which a verdict
  renders its floats are given by two functions, \<open>text_of_message\<close> and \<open>text_of_note\<close>.
\<close>

section \<open>Distances\<close>

datatype dist = Dist rat | Infinite

instantiation dist :: linorder
begin

fun less_eq_dist :: "dist \<Rightarrow> dist \<Rightarrow> bool" where
  "less_eq_dist (Dist a) (Dist b) = (a \<le> b)"
| "less_eq_dist _ Infinite = True"
| "less_eq_dist Infinite (Dist _) = False"

definition less_dist :: "dist \<Rightarrow> dist \<Rightarrow> bool" where
  "less_dist a b \<longleftrightarrow> a \<le> b \<and> \<not> b \<le> (a :: dist)"

instance
proof
  fix x y z :: dist
  show "x < y \<longleftrightarrow> x \<le> y \<and> \<not> y \<le> x" by (rule less_dist_def)
  show "x \<le> x" by (cases x) auto
  show "x \<le> y \<Longrightarrow> y \<le> z \<Longrightarrow> x \<le> z" by (cases x; cases y; cases z) auto
  show "x \<le> y \<Longrightarrow> y \<le> x \<Longrightarrow> x = y" by (cases x; cases y) auto
  show "x \<le> y \<or> y \<le> x" by (cases x; cases y) auto
qed

end

section \<open>Verdicts\<close>

type_synonym reason = string

definition EXACT_REASONS :: "reason list" where
  "EXACT_REASONS = [''COPY'', ''OWN-COPY'']"

definition HEURISTIC_REASONS :: "reason list" where
  "HEURISTIC_REASONS =
     [''NOISE-COPY'', ''NOISED-COPY'', ''LINEAR-COMBO'', ''SPARSE-EDIT'', ''TRIVIAL-EDIT'']"

definition ALL_REASONS :: "reason list" where
  "ALL_REASONS = EXACT_REASONS @ HEURISTIC_REASONS"

record thresholds =
  th_copy_rel :: dist
  th_linear_resid :: rat
  th_alpha_min :: rat
  th_f_noise :: rat
  th_embed_ratio_noise :: rat
  th_dens_min :: rat
  th_kurt_max :: rat
  th_rel_trivial :: rat
  th_lora_max_spikes :: rat
  th_lora_min_f :: rat
  th_head_scale_max :: rat
  th_global_scale_max :: rat
  th_reuse_cos :: rat
  th_topk_partners :: nat
  th_permuted_max_ident :: rat

datatype message =
    IdenticalWeights
  | IdenticalSketch dist dist
  | SpectralBulk rat rat
  | NoisedEmbeddings rat rat
  | Blend "(string \<times> rat) list" rat rat nat
  | SmallChange rat rat
  | SparseDelta rat rat rat rat
  | Trained string string rat rat
  | NobodyElse

datatype remark =
    PermutedLayout "string list"
  | HeadRescale rat
  | GlobalRescale rat
  | DeltaReuse string string rat rat
  | Kind string
  | ExpertsRealigned nat

datatype status = PASS | REJECT

text \<open>The metrics are a dict of JSON values; of a distance the number, or the text of infinity.\<close>

record verdict =
  vd_status :: status
  vd_reason :: "reason option"
  vd_ancestor :: string
  vd_message :: message
  vd_notes :: "remark list"
  vd_metrics :: jdict

definition rejected :: "verdict \<Rightarrow> bool" where
  "rejected v \<longleftrightarrow> vd_status v = REJECT"

fun dist_json :: "dist \<Rightarrow> json" where
  "dist_json (Dist d) = JNum d"
| "dist_json Infinite = JStr ''inf''"

definition pairs_json :: "(string \<times> dist) list \<Rightarrow> json" where
  "pairs_json ps = JList (map (\<lambda>(b, d). JList [JStr b, dist_json d]) ps)"

definition texts_json :: "(string \<times> string) list \<Rightarrow> json" where
  "texts_json kvs = JObj (map (\<lambda>(k, v). (k, JStr v)) kvs)"

definition set_metric :: "string \<Rightarrow> json \<Rightarrow> verdict \<Rightarrow> verdict" where
  "set_metric k x v = v\<lparr>vd_metrics := dict_put k x (vd_metrics v)\<rparr>"

section \<open>Signals\<close>

text \<open>What \<open>spectral\<close>, \<open>sample_stats\<close> and \<open>combo_fit\<close> return, and one row of \<open>reuse_table\<close>.\<close>

record spectrum =
  sp_F :: rat
  sp_rel :: rat
  sp_rel_struct :: rat
  sp_touched :: nat
  sp_spikes_med :: rat
  sp_embed_ratio :: rat
  sp_head_scale :: rat
  sp_global_scale :: rat
  sp_by_type :: json

record stats =
  ss_density :: rat
  ss_kurtosis :: rat

record combo =
  co_partners :: "string list"
  co_alpha :: "rat list"
  co_resid :: rat

record reuse_row =
  ru_ancestor :: string
  ru_model :: string
  ru_ref :: string
  ru_cos :: rat
  ru_scale :: rat

text \<open>
  \<open>sg_fit c a ps\<close> is the non-negative fit of the delta of \<open>c\<close> from \<open>a\<close> by those of the partners and
  its residual, None when the delta is zero; \<open>sg_delta\<close> is \<open>delta_vec\<close>, \<open>sg_norm\<close> the norm of a delta,
  \<open>sg_cos\<close> the cosine of two and \<open>sg_ratio\<close> the quotient of two norms.
\<close>

record ('m, 'd) signals =
  sg_rel_dist :: "'m \<Rightarrow> 'm \<Rightarrow> dist"
  sg_spectral :: "'m \<Rightarrow> 'm \<Rightarrow> spectrum"
  sg_stats :: "'m \<Rightarrow> 'm \<Rightarrow> stats"
  sg_fit :: "'m \<Rightarrow> 'm \<Rightarrow> 'm list \<Rightarrow> (rat list \<times> rat) option"
  sg_delta :: "'m \<Rightarrow> 'm \<Rightarrow> 'd"
  sg_norm :: "'d \<Rightarrow> rat"
  sg_cos :: "'d \<Rightarrow> 'd \<Rightarrow> rat"
  sg_ratio :: "rat \<Rightarrow> rat \<Rightarrow> rat"

text \<open>The models looked at: a dict from their names to their sketches, never empty.\<close>

type_synonym 'm models = "(string \<times> 'm) list"

definition model_at :: "'m models \<Rightarrow> string \<Rightarrow> 'm" where
  "model_at bank b = the (map_of bank b)"

definition combo_fit ::
  "('m, 'd) signals \<Rightarrow> 'm \<Rightarrow> 'm models \<Rightarrow> string \<Rightarrow> string list \<Rightarrow> combo option" where
  "combo_fit sg cand bank ancestor partners =
     (if partners = [] then None
      else map_option (\<lambda>(alpha, resid). \<lparr>co_partners = partners, co_alpha = alpha, co_resid = resid\<rparr>)
        (sg_fit sg cand (model_at bank ancestor) (map (model_at bank) partners)))"

definition reuse_rows ::
  "('m, 'd) signals \<Rightarrow> 'm \<Rightarrow> string \<Rightarrow> 'm models \<Rightarrow> string option \<Rightarrow> string \<Rightarrow> reuse_row list" where
  "reuse_rows sg cand ancestor bank base model =
     (let cand_delta = sg_delta sg cand (model_at bank ancestor); cand_norm = sg_norm sg cand_delta;
          others = filter (\<lambda>(n, _). n \<noteq> model) bank; mats = model_at bank model
      in if model = ancestor \<or> Some model = base \<or> others = [] then []
         else let nearest = fst (hd (sort_key (\<lambda>(_, m). sg_rel_dist sg mats m) others));
                  refs = (case base of None \<Rightarrow> []
                      | Some r \<Rightarrow> if r \<in> set (map fst others) then [r] else []) @
                    (if Some nearest = base \<or> nearest = ancestor then [] else [nearest])
              in List.map_filter (\<lambda>ref. let d = sg_delta sg mats (model_at bank ref); n = sg_norm sg d
                   in if n = 0 then None
                      else Some \<lparr>ru_ancestor = ancestor, ru_model = model, ru_ref = ref,
                        ru_cos = sg_cos sg cand_delta d, ru_scale = sg_ratio sg cand_norm n\<rparr>) refs)"

definition reuse_table ::
  "('m, 'd) signals \<Rightarrow> 'm \<Rightarrow> string list \<Rightarrow> 'm models \<Rightarrow> string option \<Rightarrow> reuse_row list" where
  "reuse_table sg cand order bank base =
     (let ancestor = hd order
      in if sg_norm sg (sg_delta sg cand (model_at bank ancestor)) = 0 then []
         else sort_key (\<lambda>r. - \<bar>ru_cos r\<bar>)
           (concat (map (reuse_rows sg cand ancestor bank base \<circ> fst) bank)))"

section \<open>The decision\<close>

definition spectrum_metrics :: "spectrum \<Rightarrow> jdict" where
  "spectrum_metrics sp = [(''F'', JNum (sp_F sp)), (''rel'', JNum (sp_rel sp)),
     (''rel_struct'', JNum (sp_rel_struct sp)), (''touched'', JInt (int (sp_touched sp))),
     (''spikes_med'', JNum (sp_spikes_med sp)), (''embed_ratio'', JNum (sp_embed_ratio sp)),
     (''head_scale'', JNum (sp_head_scale sp)), (''global_scale'', JNum (sp_global_scale sp)),
     (''by_type'', sp_by_type sp)]"

definition combo_json :: "combo \<Rightarrow> json" where
  "combo_json c = JObj [(''partners'', JList (map JStr (co_partners c))),
     (''alpha'', JList (map JNum (co_alpha c))), (''resid'', JNum (co_resid c))]"

definition reuse_json :: "reuse_row \<Rightarrow> json" where
  "reuse_json r = JObj [(''anc'', JStr (ru_ancestor r)), (''model'', JStr (ru_model r)),
     (''ref'', JStr (ru_ref r)), (''cos'', JNum (ru_cos r)), (''scale'', JNum (ru_scale r))]"

text \<open>
  \<open>sorted(dist, key=dist.get)\<close> keeps the order of the dict among equal distances. The names of the
  partners of a fit are those of \<open>order\<close>, so that \<open>zip\<close> pairs them with their coefficients.
\<close>

definition distances :: "('m, 'd) signals \<Rightarrow> 'm \<Rightarrow> 'm models \<Rightarrow> (string \<times> dist) list" where
  "distances sg cand bank = sort_key snd (map (\<lambda>(b, m). (b, sg_rel_dist sg cand m)) bank)"

definition partners_of :: "nat \<Rightarrow> string list \<Rightarrow> 'm models \<Rightarrow> string option \<Rightarrow> string list" where
  "partners_of topk order bank base =
     (let ps = take topk (drop 1 order)
      in case base of None \<Rightarrow> ps
         | Some r \<Rightarrow> if r \<in> set (map fst bank) \<and> r \<noteq> hd order \<and> r \<notin> set ps then ps @ [r] else ps)"

definition permuted_types :: "thresholds \<Rightarrow> (string \<times> rat) list \<Rightarrow> string list" where
  "permuted_types th ident = map fst (filter (\<lambda>(_, v). v < th_permuted_max_ident th) ident)"

text \<open>The first test that rejects, in the order of the code, with its message.\<close>

definition heuristic_reject ::
  "thresholds \<Rightarrow> spectrum \<Rightarrow> stats \<Rightarrow> combo option \<Rightarrow> (reason \<times> message) option" where
  "heuristic_reject th sp ss cf =
     (if sp_F sp < th_f_noise th then Some (''NOISE-COPY'', SpectralBulk (sp_F sp) (th_f_noise th))
      else if sp_embed_ratio sp > th_embed_ratio_noise th
        then Some (''NOISED-COPY'', NoisedEmbeddings (sp_embed_ratio sp) (th_embed_ratio_noise th))
      else case (case cf of None \<Rightarrow> None
          | Some c \<Rightarrow> if co_resid c < th_linear_resid th \<and> list_ex (\<lambda>al. al > th_alpha_min th) (co_alpha c)
             then Some (''LINEAR-COMBO'', Blend (filter (\<lambda>(_, al). al > th_alpha_min th) (zip (co_partners c) (co_alpha c)))
               (co_resid c) (th_linear_resid th) (length (co_partners c)))
             else None) of
        Some r \<Rightarrow> Some r
      | None \<Rightarrow>
          if sp_rel_struct sp < th_rel_trivial th
            then Some (''TRIVIAL-EDIT'', SmallChange (sp_rel_struct sp) (th_rel_trivial th))
          else if ss_density ss < th_dens_min th \<or> ss_kurtosis ss > th_kurt_max th
            then Some (''SPARSE-EDIT'', SparseDelta (ss_density ss) (th_dens_min th) (ss_kurtosis ss) (th_kurt_max th))
          else None)"

definition decide ::
  "('m, 'd) signals \<Rightarrow> thresholds \<Rightarrow> 'm \<Rightarrow> 'm models \<Rightarrow> string option \<Rightarrow> (string \<times> rat) list \<Rightarrow> verdict" where
  "decide sg th cand bank base ident =
     (let ds = distances sg cand bank; order = map fst ds; a = hd order;
          permuted = permuted_types th ident;
          notes0 = (if permuted \<noteq> [] then [PermutedLayout permuted] else []);
          metrics0 = (''distances'', pairs_json ds) #
            (if permuted \<noteq> [] then [(''identity_frac'', JObj (map (\<lambda>(k, v). (k, JNum v)) ident))] else [])
      in if snd (hd ds) < th_copy_rel th
         then \<lparr>vd_status = REJECT, vd_reason = Some ''COPY'', vd_ancestor = a,
                vd_message = IdenticalSketch (snd (hd ds)) (th_copy_rel th),
                vd_notes = notes0, vd_metrics = metrics0\<rparr>
         else
         (let sp = sg_spectral sg cand (model_at bank a);
              ss = sg_stats sg cand (model_at bank a);
              cf = combo_fit sg cand bank a (partners_of (th_topk_partners th) order bank base);
              ru = reuse_table sg cand order bank base;
              metrics = metrics0 @ spectrum_metrics sp @
                [(''density'', JNum (ss_density ss)), (''kurtosis'', JNum (ss_kurtosis ss))] @
                (case cf of None \<Rightarrow> [] | Some c \<Rightarrow> [(''linear'', combo_json c)]) @
                (if ru \<noteq> [] then [(''reuse'', JList (map reuse_json (take 4 ru)))] else []);
              notes = notes0 @
                (if \<bar>sp_head_scale sp - 1\<bar> > th_head_scale_max th then [HeadRescale (sp_head_scale sp)] else []) @
                (if \<bar>sp_global_scale sp - 1\<bar> > th_global_scale_max th
                 then [GlobalRescale (sp_global_scale sp)] else []) @
                (case ru of [] \<Rightarrow> [] | r # _ \<Rightarrow> if \<bar>ru_cos r\<bar> > th_reuse_cos th
                   then [DeltaReuse (ru_model r) (ru_ref r) \<bar>ru_cos r\<bar> (ru_scale r)] else [])
          in case heuristic_reject th sp ss cf of
               Some (why, msg) \<Rightarrow> \<lparr>vd_status = REJECT, vd_reason = Some why, vd_ancestor = a,
                  vd_message = msg, vd_notes = notes, vd_metrics = metrics\<rparr>
             | None \<Rightarrow>
                 (let kind = (if sp_spikes_med sp \<le> th_lora_max_spikes th \<and> sp_F sp > th_lora_min_f th
                      then ''LORA-like'' else ''TRAINED'')
                  in \<lparr>vd_status = PASS, vd_reason = None, vd_ancestor = a,
                       vd_message = Trained kind a (sp_F sp) (sp_rel_struct sp),
                       vd_notes = notes @ [Kind kind], vd_metrics = metrics\<rparr>)))"

lemma heuristic_reject_reason:
  "heuristic_reject th sp ss cf = Some (why, msg) \<Longrightarrow> why \<in> set HEURISTIC_REASONS"
  by (auto simp: heuristic_reject_def HEURISTIC_REASONS_def split: if_splits option.splits)

lemma decide_reason:
  "rejected (decide sg th cand bank base ident) \<longleftrightarrow>
     (\<exists>why \<in> set ALL_REASONS. vd_reason (decide sg th cand bank base ident) = Some why)"
  using heuristic_reject_reason
  by (auto simp: decide_def Let_def rejected_def ALL_REASONS_def EXACT_REASONS_def split: option.splits)

section \<open>The bank\<close>

text \<open>
  A fingerprint, its sketches being what \<open>mats\<close> rehydrates, and a document of the index. The index
  is the list of its documents, the one indexed last at the end: indexing replaces the document with
  the same id, the model's URI. Of a query that is only a filter the hits have no order of their
  own; the model takes the order of the list, and the nearest ones by \<open>l2\<close>, the distance of two
  vectors. A search sees what was indexed before (the index refreshes every second, a model takes
  minutes).
\<close>

record 'm fingerprint =
  fp_model_uri :: string
  fp_ws_version :: string
  fp_key_id :: string
  fp_arch_key :: string
  fp_tensors_hash :: string
  fp_identity_frac :: "(string \<times> rat) list"
  fp_realigned :: "string list"
  fp_vec :: "rat list"
  fp_sketches :: 'm

datatype bank_status = BANK | AUDIT

record 'm banked =
  bd_doc :: "'m fingerprint"
  bd_hotkey :: string
  bd_coldkey :: string
  bd_repo :: string
  bd_digest :: string
  bd_status :: bank_status
  bd_is_root :: bool
  bd_verdict :: "verdict option"
  bd_block :: "int option"

type_synonym 'm bank = "'m banked list"

abbreviation uri_of :: "'m banked \<Rightarrow> string" where
  "uri_of b \<equiv> fp_model_uri (bd_doc b)"

definition in_scope :: "'m fingerprint \<Rightarrow> 'm banked \<Rightarrow> bool" where
  "in_scope doc b \<longleftrightarrow> fp_arch_key (bd_doc b) = fp_arch_key doc \<and>
     fp_ws_version (bd_doc b) = fp_ws_version doc \<and> fp_key_id (bd_doc b) = fp_key_id doc"

definition own_of :: "string \<Rightarrow> string \<Rightarrow> 'm banked \<Rightarrow> bool" where
  "own_of hotkey coldkey b \<longleftrightarrow> (hotkey \<noteq> [] \<and> bd_hotkey b = hotkey) \<or> (coldkey \<noteq> [] \<and> bd_coldkey b = coldkey)"

text \<open>A document without a block is not in the range that must not match.\<close>

definition before_block :: "int option \<Rightarrow> 'm banked \<Rightarrow> bool" where
  "before_block block b \<longleftrightarrow> (case block of None \<Rightarrow> True
     | Some n \<Rightarrow> (case bd_block b of None \<Rightarrow> True | Some m \<Rightarrow> m < n))"

definition same_hash :: "'m fingerprint \<Rightarrow> 'm banked \<Rightarrow> bool" where
  "same_hash doc b \<longleftrightarrow> fp_tensors_hash (bd_doc b) = fp_tensors_hash doc"

definition find_exact :: "'m fingerprint \<Rightarrow> string \<Rightarrow> string \<Rightarrow> int option \<Rightarrow> 'm bank \<Rightarrow> 'm banked option" where
  "find_exact doc hotkey coldkey block ix = find (\<lambda>b. same_hash doc b \<and> bd_status b = BANK \<and>
     before_block block b \<and> \<not> own_of hotkey coldkey b) ix"

definition find_exact_own :: "'m fingerprint \<Rightarrow> string \<Rightarrow> 'm bank \<Rightarrow> 'm banked option" where
  "find_exact_own doc coldkey ix =
     find (\<lambda>b. same_hash doc b \<and> bd_status b = BANK \<and> bd_coldkey b = coldkey) ix"

definition count_scope :: "'m fingerprint \<Rightarrow> 'm bank \<Rightarrow> nat" where
  "count_scope doc ix = length (filter (\<lambda>b. in_scope doc b \<and> bd_status b = BANK) ix)"

definition nearest_of ::
  "(rat list \<Rightarrow> rat list \<Rightarrow> dist) \<Rightarrow> 'm fingerprint \<Rightarrow> nat \<Rightarrow> 'm bank \<Rightarrow> (string \<times> dist) list" where
  "nearest_of l2 doc k hits = take k (sort_key snd
     (map (\<lambda>b. (uri_of b, l2 (fp_vec doc) (fp_vec (bd_doc b)))) hits))"

definition nearest ::
  "(rat list \<Rightarrow> rat list \<Rightarrow> dist) \<Rightarrow> 'm fingerprint \<Rightarrow> string \<Rightarrow> nat \<Rightarrow> string \<Rightarrow> int option \<Rightarrow>
     'm bank \<Rightarrow> (string \<times> dist) list" where
  "nearest l2 doc hotkey k coldkey block ix = nearest_of l2 doc k (filter (\<lambda>b. in_scope doc b \<and>
     bd_status b = BANK \<and> before_block block b \<and> \<not> own_of hotkey coldkey b) ix)"

definition nearest_own ::
  "(rat list \<Rightarrow> rat list \<Rightarrow> dist) \<Rightarrow> 'm fingerprint \<Rightarrow> string \<Rightarrow> nat \<Rightarrow> 'm bank \<Rightarrow> (string \<times> dist) list" where
  "nearest_own l2 doc coldkey k ix = nearest_of l2 doc k (filter (\<lambda>b. in_scope doc b \<and>
     bd_status b = BANK \<and> bd_coldkey b = coldkey) ix)"

definition root_id :: "'m fingerprint \<Rightarrow> 'm bank \<Rightarrow> string option" where
  "root_id doc ix = map_option uri_of (find (\<lambda>b. in_scope doc b \<and> bd_is_root b) ix)"

definition fetch :: "string list \<Rightarrow> 'm bank \<Rightarrow> (string \<times> 'm banked) list" where
  "fetch ids ix = List.map_filter (\<lambda>i. map_option (Pair i) (find (\<lambda>b. uri_of b = i) ix)) (remdups ids)"

record submitter =
  su_hotkey :: string
  su_coldkey :: string
  su_repo :: string
  su_digest :: string
  su_block :: "int option"

definition put_doc :: "bank_status \<Rightarrow> verdict \<Rightarrow> submitter \<Rightarrow> 'm fingerprint \<Rightarrow> 'm bank \<Rightarrow> 'm bank" where
  "put_doc st v who doc ix = filter (\<lambda>b. uri_of b \<noteq> fp_model_uri doc) ix @
     [\<lparr>bd_doc = doc, bd_hotkey = su_hotkey who, bd_coldkey = su_coldkey who, bd_repo = su_repo who,
       bd_digest = su_digest who, bd_status = st, bd_is_root = False, bd_verdict = Some v,
       bd_block = su_block who\<rparr>]"

section \<open>The secret of the sketches\<close>

record exn =
  ex_type :: string
  ex_text :: string

definition runtime_error :: "string \<Rightarrow> exn" where
  "runtime_error s = \<lparr>ex_type = ''RuntimeError'', ex_text = s\<rparr>"

definition MIN_SECRET_BYTES :: nat where
  "MIN_SECRET_BYTES = 32"

definition byte_space :: "char \<Rightarrow> bool" where
  "byte_space c \<longleftrightarrow> (let n = (of_char c :: nat) in n = 32 \<or> (9 \<le> n \<and> n \<le> 13))"

definition strip_bytes :: "string \<Rightarrow> string" where
  "strip_bytes s = rev (dropWhile byte_space (rev (dropWhile byte_space s)))"

text \<open>\<open>stat\<close> gives the mode and the bytes of a regular file.\<close>

definition load_secret :: "(string \<Rightarrow> (nat \<times> string) option) \<Rightarrow> string \<Rightarrow> string \<Rightarrow> exn + string" where
  "load_secret stat value path = and_then
     (if value \<noteq> [] then Inr value
      else if path = [] then Inl (runtime_error ''set ALBEDO_DEDUP_SECRET or ALBEDO_DEDUP_SECRET_FILE'')
      else case stat path of
        None \<Rightarrow> Inl (runtime_error (''dedup secret file not found: '' @ path))
      | Some (mode, bytes) \<Rightarrow>
          if mode mod 64 \<noteq> 0
          then Inl (runtime_error (''dedup secret file '' @ path @ '' must not be group/other readable''))
          else Inr (strip_bytes bytes))
     (\<lambda>raw. if length raw < MIN_SECRET_BYTES
        then Inl (runtime_error (''dedup secret must be at least '' @ show_nat MIN_SECRET_BYTES @ '' bytes''))
        else Inr raw)"

definition key_id :: "(string \<Rightarrow> string) \<Rightarrow> string \<Rightarrow> string \<Rightarrow> string" where
  "key_id sha256 secret text_set_sha = take 8 (sha256 (secret @ text_set_sha))"

section \<open>The gate\<close>

record gate_config =
  gc_enforce :: bool
  gc_enforce_reasons :: string
  gc_nearest_k :: nat
  gc_thresholds :: thresholds
  gc_secret :: string
  gc_secret_file :: string

text \<open>
  What the gate finds around it: whether there is a GPU, the secret file, the fingerprint under a
  secret, the distance of OpenSearch, and which call to OpenSearch fails, with its exception.
\<close>

datatype store_call = FIND_EXACT | FIND_EXACT_OWN | NEAREST_OWN | FETCH_OWN | COUNT_SCOPE | NEAREST
  | ROOT_ID | FETCH | PUT_DOC

record 'm surroundings =
  en_gpu :: bool
  en_stat :: "string \<Rightarrow> (nat \<times> string) option"
  en_fingerprint :: "string \<Rightarrow> exn + 'm fingerprint"
  en_l2 :: "rat list \<Rightarrow> rat list \<Rightarrow> dist"
  en_down :: "store_call \<Rightarrow> exn option"

definition asking :: "'m surroundings \<Rightarrow> store_call \<Rightarrow> 'a \<Rightarrow> exn + 'a" where
  "asking en c x = (case en_down en c of None \<Rightarrow> Inr x | Some e \<Rightarrow> Inl e)"

record 'm gate_result =
  gr_verdict :: "verdict option"
  gr_doc :: "'m fingerprint option"
  gr_exact_of :: "'m banked option"
  gr_infra_error :: "string option"

definition gr_rejected :: "'m gate_result \<Rightarrow> bool" where
  "gr_rejected res \<longleftrightarrow> gr_exact_of res \<noteq> None \<or>
     (case gr_verdict res of None \<Rightarrow> False | Some v \<Rightarrow> rejected v)"

definition infra_result :: "'m fingerprint option \<Rightarrow> string \<Rightarrow> 'm gate_result" where
  "infra_result doc msg =
     \<lparr>gr_verdict = None, gr_doc = doc, gr_exact_of = None, gr_infra_error = Some msg\<rparr>"

definition verdict_result :: "verdict \<Rightarrow> 'm fingerprint \<Rightarrow> 'm banked option \<Rightarrow> 'm gate_result" where
  "verdict_result v doc exact =
     \<lparr>gr_verdict = Some v, gr_doc = Some doc, gr_exact_of = exact, gr_infra_error = None\<rparr>"

definition fingerprint_of :: "gate_config \<Rightarrow> 'm surroundings \<Rightarrow> exn + 'm fingerprint" where
  "fingerprint_of cfg en =
     (if \<not> en_gpu en then Inl (runtime_error (''dedup needs a CUDA device'' @ dash @ ''torch reports no GPU available''))
      else and_then (load_secret (en_stat en) (gc_secret cfg) (gc_secret_file cfg)) (en_fingerprint en))"

definition own_verdict :: "string \<Rightarrow> message \<Rightarrow> jdict \<Rightarrow> verdict" where
  "own_verdict uri msg metrics = \<lparr>vd_status = REJECT, vd_reason = Some ''OWN-COPY'',
     vd_ancestor = uri, vd_message = msg, vd_notes = [], vd_metrics = metrics\<rparr>"

definition own_copy ::
  "gate_config \<Rightarrow> ('m, 'd) signals \<Rightarrow> 'm surroundings \<Rightarrow> 'm fingerprint \<Rightarrow> string \<Rightarrow> 'm bank \<Rightarrow>
     exn + verdict option" where
  "own_copy cfg sg en doc coldkey ix =
     (if coldkey = [] then Inr None
      else and_then (asking en FIND_EXACT_OWN (find_exact_own doc coldkey ix)) (\<lambda>hit. case hit of
        Some b \<Rightarrow> Inr (Some (own_verdict (uri_of b) IdenticalWeights
          [(''ancestor_hotkey'', JStr (bd_hotkey b))]))
      | None \<Rightarrow> and_then (asking en NEAREST_OWN (nearest_own (en_l2 en) doc coldkey 3 ix)) (\<lambda>near.
          if near = [] then Inr None
          else and_then (asking en FETCH_OWN (fetch (map fst near) ix)) (\<lambda>docs.
            let copy_rel = th_copy_rel (gc_thresholds cfg);
                d = (\<lambda>b. sg_rel_dist sg (fp_sketches doc) (fp_sketches (bd_doc b)))
            in Inr (map_option (\<lambda>(uri, b). own_verdict uri (IdenticalSketch (d b) copy_rel)
                 [(''ancestor_hotkey'', JStr (bd_hotkey b)), (''rel_dist'', dist_json (d b))])
               (find (\<lambda>(uri, b). d b < copy_rel) docs))))))"

definition with_layout_notes :: "'m fingerprint \<Rightarrow> verdict \<Rightarrow> verdict" where
  "with_layout_notes doc v = (if fp_realigned doc \<noteq> []
     then v\<lparr>vd_notes := ExpertsRealigned (length (fp_realigned doc)) # vd_notes v\<rparr> else v)"

text \<open>
  The block of \<open>run\<close> whose exceptions are one infrastructure fault: what is found around the
  candidate, in the order of the look-ups.
\<close>

datatype 'm found =
    Exact "'m banked"
  | Own verdict
  | EmptyScope
  | Neighbours "(string \<times> dist) list" "string option" "(string \<times> 'm banked) list"

definition look_up ::
  "gate_config \<Rightarrow> ('m, 'd) signals \<Rightarrow> 'm surroundings \<Rightarrow> submitter \<Rightarrow> 'm fingerprint \<Rightarrow> 'm bank \<Rightarrow>
     exn + 'm found" where
  "look_up cfg sg en who doc ix =
     and_then (asking en FIND_EXACT (find_exact doc (su_hotkey who) (su_coldkey who) (su_block who) ix)) (\<lambda>exact.
       case exact of Some b \<Rightarrow> Inr (Exact b)
     | None \<Rightarrow> and_then (own_copy cfg sg en doc (su_coldkey who) ix) (\<lambda>own.
       case own of Some v \<Rightarrow> Inr (Own v)
     | None \<Rightarrow> and_then (asking en COUNT_SCOPE (count_scope doc ix)) (\<lambda>n.
       if n = 0 then Inr EmptyScope
       else and_then (asking en NEAREST (nearest (en_l2 en) doc (su_hotkey who) (gc_nearest_k cfg)
           (su_coldkey who) (su_block who) ix)) (\<lambda>near.
         and_then (asking en ROOT_ID (root_id doc ix)) (\<lambda>base.
           let ids = map fst near;
               ids' = (case base of None \<Rightarrow> ids | Some r \<Rightarrow> if r \<noteq> [] \<and> r \<notin> set ids then ids @ [r] else ids)
           in if ids' = [] then Inr (Neighbours near base [])
              else and_then (asking en FETCH (fetch ids' ix)) (\<lambda>docs.
                Inr (Neighbours near base docs)))))))"

definition exact_verdict :: "'m fingerprint \<Rightarrow> 'm banked \<Rightarrow> verdict" where
  "exact_verdict doc b = with_layout_notes doc \<lparr>vd_status = REJECT, vd_reason = Some ''COPY'',
     vd_ancestor = uri_of b, vd_message = IdenticalWeights, vd_notes = [], vd_metrics = []\<rparr>"

definition lonely_verdict :: "'m fingerprint \<Rightarrow> string option \<Rightarrow> verdict" where
  "lonely_verdict doc base = with_layout_notes doc \<lparr>vd_status = PASS, vd_reason = None,
     vd_ancestor = (case base of None \<Rightarrow> [] | Some r \<Rightarrow> r), vd_message = NobodyElse,
     vd_notes = [], vd_metrics = []\<rparr>"

definition judged ::
  "gate_config \<Rightarrow> ('m, 'd) signals \<Rightarrow> 'm fingerprint \<Rightarrow> (string \<times> dist) list \<Rightarrow> string option \<Rightarrow>
     (string \<times> 'm banked) list \<Rightarrow> verdict" where
  "judged cfg sg doc near base docs =
     (let v = decide sg (gc_thresholds cfg) (fp_sketches doc)
            (map (\<lambda>(m, b). (m, fp_sketches (bd_doc b))) docs) base (fp_identity_frac doc);
          hotkeys = map (\<lambda>(m, b). (m, bd_hotkey b)) docs
      in with_layout_notes doc (set_metric ''hotkeys_by_model'' (texts_json hotkeys)
           (set_metric ''ancestor_hotkey''
             (JStr (case map_of hotkeys (vd_ancestor v) of None \<Rightarrow> [] | Some h \<Rightarrow> h))
             (set_metric ''opensearch_nearest'' (pairs_json near) v))))"

definition status_for :: "verdict \<Rightarrow> bank_status" where
  "status_for v = (if vd_status v = PASS then BANK else AUDIT)"

text \<open>
  \<open>run\<close>: the result or an exception that escapes (indexing a model that has nobody to be compared
  with is outside of every handler), and the index.
\<close>

definition gate_run ::
  "gate_config \<Rightarrow> ('m, 'd) signals \<Rightarrow> 'm surroundings \<Rightarrow> submitter \<Rightarrow> 'm bank \<Rightarrow>
     (exn + 'm gate_result) \<times> 'm bank" where
  "gate_run cfg sg en who ix =
     (case fingerprint_of cfg en of
        Inl e \<Rightarrow> (Inr (infra_result None (''dedup fingerprint failed: '' @ ex_type e @ '': '' @ ex_text e)), ix)
      | Inr doc \<Rightarrow>
        (let failed = (\<lambda>e. (Inr (infra_result (Some doc) (''dedup opensearch failed: '' @ ex_text e)), ix));
             indexed = (\<lambda>st v exact. (Inr (verdict_result v doc exact), put_doc st v who doc ix))
         in case look_up cfg sg en who doc ix of
              Inl e \<Rightarrow> failed e
            | Inr (Exact b) \<Rightarrow> (case en_down en PUT_DOC of
                Some e \<Rightarrow> failed e | None \<Rightarrow> indexed AUDIT (exact_verdict doc b) (Some b))
            | Inr (Own v) \<Rightarrow> (case en_down en PUT_DOC of
                Some e \<Rightarrow> failed e | None \<Rightarrow> indexed AUDIT v None)
            | Inr EmptyScope \<Rightarrow> (Inr (infra_result (Some doc) (''dedup bank is empty for arch_key='' @
                fp_arch_key doc @ '' key_id='' @ fp_key_id doc @ dash @ ''bootstrap the bank first'')), ix)
            | Inr (Neighbours near base docs) \<Rightarrow>
                if docs = []
                then (Inr (infra_result (Some doc) ''dedup nearest search returned no documents''), ix)
                else if near = []
                then (case en_down en PUT_DOC of
                    Some e \<Rightarrow> (Inl e, ix) | None \<Rightarrow> indexed BANK (lonely_verdict doc base) None)
                else (let v = judged cfg sg doc near base docs
                  in case en_down en PUT_DOC of
                    Some e \<Rightarrow> (Inr ((verdict_result v doc None)
                      \<lparr>gr_infra_error := Some (''dedup opensearch index failed: '' @ ex_text e)\<rparr>), ix)
                  | None \<Rightarrow> indexed (status_for v) v None)))"

section \<open>What the gate finds\<close>

lemma asking_Inr [simp]: "asking en c x = Inr y \<longleftrightarrow> en_down en c = None \<and> y = x"
  by (auto simp: asking_def split: option.splits)

lemma set_find_None: "find p xs = None \<longleftrightarrow> (\<forall>x \<in> set xs. \<not> p x)"
  by (auto simp: find_None_iff)

lemma find_append_None: "find p xs = None \<Longrightarrow> find p (xs @ ys) = find p ys"
  by (induction xs) (auto split: if_splits)

text \<open>Past the look-up of exact copies, no earlier model of another miner has the candidate's weights.\<close>

lemma look_up_no_exact:
  assumes "look_up cfg sg en who doc ix = Inr f" and "\<nexists>b. f = Exact b"
  shows "find_exact doc (su_hotkey who) (su_coldkey who) (su_block who) ix = None"
  using assms by (auto simp: look_up_def split: option.splits)

text \<open>Past the look-up of the miner's own models, none of them has the candidate's weights.\<close>

lemma own_copy_None:
  "own_copy cfg sg en doc coldkey ix = Inr None \<Longrightarrow> coldkey \<noteq> [] \<Longrightarrow> find_exact_own doc coldkey ix = None"
  by (auto simp: own_copy_def split: option.splits)

lemma look_up_no_own:
  assumes "look_up cfg sg en who doc ix = Inr f" and "f = EmptyScope \<or> f = Neighbours near base docs"
  shows "own_copy cfg sg en doc (su_coldkey who) ix = Inr None"
  using assms by (auto simp: look_up_def Let_def split: option.splits if_splits)

lemma own_copy_rejects: "own_copy cfg sg en doc coldkey ix = Inr (Some v) \<Longrightarrow> rejected v \<and> vd_reason v = Some ''OWN-COPY''"
  by (auto simp: own_copy_def own_verdict_def rejected_def Let_def split: option.splits if_splits)

lemma look_up_own: "look_up cfg sg en who doc ix = Inr (Own v) \<Longrightarrow> rejected v \<and> vd_reason v = Some ''OWN-COPY''"
  using own_copy_rejects by (fastforce simp: look_up_def Let_def split: option.splits if_splits)

lemma layout_notes_simps [simp]:
  "vd_status (with_layout_notes doc v) = vd_status v"
  "vd_reason (with_layout_notes doc v) = vd_reason v"
  "vd_ancestor (with_layout_notes doc v) = vd_ancestor v"
  "rejected (with_layout_notes doc v) = rejected v"
  by (simp_all add: with_layout_notes_def rejected_def)

lemma set_metric_simps [simp]:
  "vd_status (set_metric k x v) = vd_status v"
  "vd_reason (set_metric k x v) = vd_reason v"
  "vd_ancestor (set_metric k x v) = vd_ancestor v"
  by (simp_all add: set_metric_def)

lemma exact_verdict_rejected [simp]: "rejected (exact_verdict doc b)"
  by (simp add: exact_verdict_def) (simp add: rejected_def)

lemma lonely_verdict_passes [simp]: "vd_status (lonely_verdict doc base) = PASS"
  by (simp add: lonely_verdict_def)

text \<open>
  A run leaves the index as it was, or indexes the candidate: for audit when the result is a
  rejection, in the bank when it is not; then the look-up found no copy.
\<close>

lemma gate_run_cases:
  assumes "gate_run cfg sg en who ix = (r, ix')"
  obtains (unchanged) "ix' = ix" "\<And>res. r = Inr res \<Longrightarrow> gr_infra_error res \<noteq> None"
  | (audit) doc v exact where "fingerprint_of cfg en = Inr doc" "rejected v"
      "r = Inr (verdict_result v doc exact)" "ix' = put_doc AUDIT v who doc ix"
  | (bank) doc v near base docs where "fingerprint_of cfg en = Inr doc" "vd_status v = PASS"
      "r = Inr (verdict_result v doc None)" "ix' = put_doc BANK v who doc ix"
      "look_up cfg sg en who doc ix = Inr (Neighbours near base docs)"
proof (cases "fingerprint_of cfg en")
  case (Inl e)
  with assms show thesis by (intro unchanged) (auto simp: gate_run_def infra_result_def)
next
  case (Inr doc)
  show thesis
  proof (cases "look_up cfg sg en who doc ix")
    case l: (Inl e)
    with assms Inr show thesis by (intro unchanged) (auto simp: gate_run_def infra_result_def)
  next
    case l: (Inr f)
    show thesis
    proof (cases f)
      case (Exact b)
      with assms Inr l show thesis
        by (cases "en_down en PUT_DOC")
          (auto simp: gate_run_def infra_result_def Let_def intro: unchanged audit [of doc "exact_verdict doc b" "Some b"])
    next
      case (Own v)
      with assms Inr l look_up_own [of cfg sg en who doc ix v] show thesis
        by (cases "en_down en PUT_DOC")
          (auto simp: gate_run_def infra_result_def Let_def intro: unchanged audit [of doc v None])
    next
      case EmptyScope
      with assms Inr l show thesis by (intro unchanged) (auto simp: gate_run_def infra_result_def)
    next
      case (Neighbours near base docs)
      define v where "v = judged cfg sg doc near base docs"
      show thesis
      proof (cases "docs = [] \<or> en_down en PUT_DOC \<noteq> None")
        case True
        with assms Inr l Neighbours show thesis
          by (intro unchanged) (auto simp: gate_run_def infra_result_def Let_def verdict_result_def split: if_splits)
      next
        case False
        show thesis
        proof (cases "near = []")
          case True
          with False assms Inr l Neighbours show thesis
            by (intro bank [of doc "lonely_verdict doc base" near base docs]) (auto simp: gate_run_def Let_def)
        next
          case nonempty: False
          with False assms Inr l Neighbours
          have r: "r = Inr (verdict_result v doc None)" "ix' = put_doc (status_for v) v who doc ix"
            by (auto simp: gate_run_def Let_def v_def)
          show thesis
          proof (cases "vd_status v")
            case PASS
            with r Inr l Neighbours show thesis by (intro bank [of doc v near base docs]) (simp_all add: status_for_def)
          next
            case REJECT
            with r Inr show thesis by (intro audit [of doc v None]) (simp_all add: status_for_def rejected_def)
          qed
        qed
      qed
    qed
  qed
qed

text \<open>What it took to be put into the bank.\<close>

lemma banked_no_copy:
  assumes "look_up cfg sg en who doc ix = Inr (Neighbours near base docs)" and "su_coldkey who \<noteq> []"
  shows "find_exact doc (su_hotkey who) (su_coldkey who) (su_block who) ix = None"
    and "find_exact_own doc (su_coldkey who) ix = None"
  using look_up_no_exact [OF assms(1)] own_copy_None [OF look_up_no_own [OF assms(1)] assms(2)] by auto

section \<open>The bank over many submissions\<close>

text \<open>Submissions one after the other, whatever fails around them, and the bank they leave.\<close>

fun bank_after ::
  "(gate_config \<times> ('m, 'd) signals \<times> 'm surroundings \<times> submitter) list \<Rightarrow> 'm bank \<Rightarrow> 'm bank" where
  "bank_after [] ix = ix"
| "bank_after ((cfg, sg, en, who) # runs) ix = bank_after runs (snd (gate_run cfg sg en who ix))"

text \<open>
  Two banked models with the same weights: the one indexed later was committed no later than the
  other, or both are of one hotkey that changed its owner.
\<close>

definition earlier_claim :: "'m banked \<Rightarrow> 'm banked \<Rightarrow> bool" where
  "earlier_claim x y \<longleftrightarrow> (\<exists>m n. bd_block x = Some m \<and> bd_block y = Some n \<and> n \<le> m) \<or>
     (bd_hotkey x = bd_hotkey y \<and> bd_coldkey x \<noteq> bd_coldkey y)"

definition copies_claimed :: "'m bank \<Rightarrow> bool" where
  "copies_claimed ix \<longleftrightarrow> sorted_wrt (\<lambda>x y. bd_status x = BANK \<and> bd_status y = BANK \<and>
     fp_tensors_hash (bd_doc x) = fp_tensors_hash (bd_doc y) \<longrightarrow> earlier_claim x y) ix"

definition passed :: "'m banked \<Rightarrow> bool" where
  "passed b \<longleftrightarrow> (case bd_verdict b of None \<Rightarrow> False | Some v \<Rightarrow> vd_status v = PASS)"

lemma sorted_wrt_filterI: "sorted_wrt P xs \<Longrightarrow> sorted_wrt P (filter q xs)"
  by (induction xs) auto

lemma gate_run_claims:
  assumes "copies_claimed ix" and "su_coldkey who \<noteq> []" and "gate_run cfg sg en who ix = (r, ix')"
  shows "copies_claimed ix'"
  using assms(3)
proof (cases rule: gate_run_cases)
  case unchanged
  with assms(1) show ?thesis by simp
next
  case (audit doc v exact)
  with assms(1) show ?thesis
    by (auto simp: copies_claimed_def put_doc_def sorted_wrt_append intro: sorted_wrt_filterI)
next
  case (bank doc v near base docs)
  have "earlier_claim x y" if "x \<in> set ix" "bd_status x = BANK" "fp_tensors_hash (bd_doc x) = fp_tensors_hash doc"
      and y: "bd_block y = su_block who" "bd_hotkey y = su_hotkey who" "bd_coldkey y = su_coldkey who" for x y :: "'a banked"
  proof -
    from banked_no_copy [OF bank(5) assms(2)] that(1-3)
    have "\<not> before_block (su_block who) x \<or> own_of (su_hotkey who) (su_coldkey who) x" "bd_coldkey x \<noteq> su_coldkey who"
      by (auto simp: find_exact_def find_exact_own_def set_find_None same_hash_def)
    then show ?thesis
      by (auto simp: earlier_claim_def before_block_def own_of_def y split: option.splits)
  qed
  with assms(1) bank(4) show ?thesis
    by (auto simp: copies_claimed_def put_doc_def sorted_wrt_append intro: sorted_wrt_filterI)
qed

lemma gate_run_banked:
  assumes "gate_run cfg sg en who ix = (r, ix')" and "b \<in> set ix'"
  shows "b \<in> set ix \<or> bd_status b = AUDIT \<or> passed b"
  using assms(1)
proof (cases rule: gate_run_cases)
  case unchanged
  with assms(2) show ?thesis by simp
next
  case audit
  with assms(2) show ?thesis by (auto simp: put_doc_def)
next
  case bank
  with assms(2) show ?thesis by (auto simp: put_doc_def passed_def)
qed

text \<open>
  C6. Over any submissions of known owners, whatever calls fail in between, a model with exactly the
  weights of a banked one enters the bank only on an earlier or equal commit block (or for a hotkey
  that changed hands), and whatever the bank gains has passed every test.
\<close>

theorem copies_stay_out:
  assumes "copies_claimed ix" and "\<forall>(cfg, sg, en, who) \<in> set runs. su_coldkey who \<noteq> []"
  shows "copies_claimed (bank_after runs ix) \<and>
    (\<forall>b \<in> set (bank_after runs ix). bd_status b = BANK \<longrightarrow> b \<in> set ix \<or> passed b)"
  using assms
proof (induction runs ix rule: bank_after.induct)
  case (1 ix)
  then show ?case by simp
next
  case (2 cfg sg en who runs ix)
  obtain r ix' where run: "gate_run cfg sg en who ix = (r, ix')" by fastforce
  with "2.prems" gate_run_claims have "copies_claimed ix'" by fastforce
  with "2.IH" "2.prems" run gate_run_banked [OF run] show ?case by fastforce
qed

section \<open>A model met again\<close>

text \<open>
  A candidate put into the bank and looked at once more, as after a worker that died before it
  recorded the outcome, finds itself.
\<close>

lemma second_look_finds_itself:
  assumes run: "gate_run cfg sg en who ix = (Inr res, ix')" "\<not> gr_rejected res" "gr_infra_error res = None"
    and owner: "su_coldkey who \<noteq> []"
    and again: "fingerprint_of cfg en2 = fingerprint_of cfg en" "\<forall>c. en_down en2 c = None"
  obtains doc v where "fingerprint_of cfg en = Inr doc"
    and "v = own_verdict (fp_model_uri doc) IdenticalWeights [(''ancestor_hotkey'', JStr (su_hotkey who))]"
    and "gate_run cfg sg en2 who ix' = (Inr (verdict_result v doc None), put_doc AUDIT v who doc ix')"
  using run(1)
proof (cases rule: gate_run_cases)
  case unchanged
  with run(3) show thesis by simp
next
  case (audit doc v exact)
  with run(2) show thesis by (simp add: gr_rejected_def verdict_result_def)
next
  case (bank doc v near base docs)
  define b where "b = \<lparr>bd_doc = doc, bd_hotkey = su_hotkey who, bd_coldkey = su_coldkey who,
     bd_repo = su_repo who, bd_digest = su_digest who, bd_status = BANK, bd_is_root = False,
     bd_verdict = Some v, bd_block = su_block who\<rparr>"
  let ?old = "filter (\<lambda>b. uri_of b \<noteq> fp_model_uri doc) ix"
  have ix': "ix' = ?old @ [b]" using bank(4) by (simp add: put_doc_def b_def)
  note no_copy = banked_no_copy [OF bank(5) owner]
  have exact: "find_exact doc (su_hotkey who) (su_coldkey who) (su_block who) ix' = None"
    using no_copy(1) owner by (auto simp: ix' find_exact_def set_find_None b_def own_of_def)
  have "find_exact_own doc (su_coldkey who) ?old = None"
    using no_copy(2) by (auto simp: find_exact_own_def set_find_None)
  then have own: "find_exact_own doc (su_coldkey who) ix' = Some b"
    by (simp add: ix' find_exact_own_def find_append_None) (simp add: same_hash_def b_def)
  have own_copy: "own_copy cfg sg en2 doc (su_coldkey who) ix' =
      Inr (Some (own_verdict (fp_model_uri doc) IdenticalWeights [(''ancestor_hotkey'', JStr (su_hotkey who))]))"
    using again(2) owner own by (simp add: own_copy_def asking_def) (simp add: b_def)
  have "look_up cfg sg en2 who doc ix' =
      Inr (Own (own_verdict (fp_model_uri doc) IdenticalWeights [(''ancestor_hotkey'', JStr (su_hotkey who))]))"
    using again(2) exact own_copy by (simp add: look_up_def asking_def)
  then show thesis using bank(1) again by (intro that [of doc]) (simp_all add: gate_run_def)
qed

end
