(* ===== verification/ModelGate.thy ===== *)
theory ModelGate
  imports Validation ModelChecks Dedup
begin

text \<open>
  What the validation worker does with one model: \<open>process_model\<close> of
  src/src/model_validation/validate_worker.py, the checks of \<open>ModelChecks\<close> in order and the gate of
  \<open>Dedup\<close> with its enforcement and what it tells the miner (gate.py), and the room made in the cache
  before a download (storage/download.py). The outcome is what \<open>finalize\<close> of \<open>Validation\<close> records.
\<close>

section \<open>Which rejections fault the miner\<close>

definition enforced_reasons :: "string \<Rightarrow> reason list" where
  "enforced_reasons setting =
     (let raw = strip setting
      in if upper raw \<in> {''*'', ''ALL''} then ALL_REASONS
         else filter (\<lambda>r. r \<in> set (map (upper \<circ> strip)
           (filter (\<lambda>p. strip p \<noteq> []) (split_on (CHR '','') raw)))) ALL_REASONS)"

definition enforces :: "gate_config \<Rightarrow> reason option \<Rightarrow> string \<Rightarrow> bool" where
  "enforces cfg reason coldkey \<longleftrightarrow> (case reason of None \<Rightarrow> False
     | Some r \<Rightarrow> gc_enforce cfg \<and> r \<noteq> [] \<and> coldkey \<noteq> [] \<and>
         upper r \<in> set (enforced_reasons (gc_enforce_reasons cfg)))"

definition dedup_fault_code :: "reason option \<Rightarrow> string" where
  "dedup_fault_code reason = (case reason of None \<Rightarrow> ''duplicate''
     | Some r \<Rightarrow> if upper r = ''OWN-COPY'' then ''duplicate_own'' else ''duplicate'')"

section \<open>What the miner is told\<close>

text \<open>The texts of the messages and notes, in which Python formats floats.\<close>

record renderer =
  text_of_message :: "message \<Rightarrow> string"
  text_of_note :: "remark \<Rightarrow> string"

definition PUBLIC_METRICS :: "string list" where
  "PUBLIC_METRICS = [''F'', ''rel'', ''rel_struct'', ''embed_ratio'', ''density'', ''kurtosis'',
     ''spikes_med'', ''touched'', ''head_scale'', ''global_scale'', ''identity_frac'', ''linear'',
     ''reuse'', ''distances'']"

definition metric_or :: "json \<Rightarrow> string \<Rightarrow> verdict \<Rightarrow> json" where
  "metric_or d k v = (case map_of (vd_metrics v) k of None \<Rightarrow> d | Some x \<Rightarrow> x)"

definition public_summary :: "renderer \<Rightarrow> 'm gate_result \<Rightarrow> json" where
  "public_summary rn res = (case gr_verdict res of
       None \<Rightarrow> JObj [(''dedup'', JStr ''pass'')]
     | Some v \<Rightarrow> if \<not> gr_rejected res then JObj [(''dedup'', JStr ''pass'')]
         else JObj ([(''dedup'', JStr ''reject''), (''reason'', jstr (vd_reason v)),
             (''duplicate_of'', JStr (vd_ancestor v)),
             (''notes'', JList (map (JStr \<circ> text_of_note rn) (vd_notes v)))] @
           (case gr_exact_of res of
              Some b \<Rightarrow> [(''duplicate_of_hotkey'', JStr (bd_hotkey b)), (''exact_weights_match'', JBool True)]
            | None \<Rightarrow> (''duplicate_of_hotkey'', metric_or (JStr []) ''ancestor_hotkey'' v) #
                (if vd_reason v = Some ''OWN-COPY'' then [(''own_model'', JBool True)]
                 else [(''metrics'', JObj (List.map_filter (\<lambda>k. map_option (Pair k)
                   (map_of (vd_metrics v) k)) PUBLIC_METRICS))]))))"

text \<open>
  The letters of a king's name at the end of a repository: the run of letters before the end (or
  before a final line feed) that follows the prefix of the kings, case aside.
\<close>

definition is_alpha :: "char \<Rightarrow> bool" where
  "is_alpha c \<longleftrightarrow> (let n = (of_char (lower_char c) :: nat) in 97 \<le> n \<and> n \<le> 122)"

definition king_name :: "string \<Rightarrow> string option" where
  "king_name repo =
     (let s = (if repo \<noteq> [] \<and> last repo = CHR 0x0A then butlast repo else repo);
          name = rev (takeWhile is_alpha (rev s));
          before = take (length s - length name) s
      in if name \<noteq> [] \<and> ends_in ''albedo-qwen3.6-35b-king-'' (lower before) then Some name else None)"

definition model_label :: "string \<Rightarrow> string \<Rightarrow> string \<Rightarrow> string" where
  "model_label seed_repo uri hotkey =
     (let repo = before_first (CHR ''@'') (removeprefix ''hf://'' uri); king = king_name repo
      in if (seed_repo \<noteq> [] \<and> repo = seed_repo) \<or> map_option lower king = Some ''genesis'' then ''genesis''
         else case king of Some name \<Rightarrow> ''ALBEDO-'' @ upper name
           | None \<Rightarrow> if hotkey \<noteq> [] then ''hotkey '' @ hotkey else ''another miner's model'')"

text \<open>\<open>s.replace(old, new)\<close> of a text that is not empty.\<close>

function replace_text :: "string \<Rightarrow> string \<Rightarrow> string \<Rightarrow> string" where
  "replace_text old new [] = []"
| "replace_text old new (c # s) =
     (if old \<noteq> [] \<and> starts_with old (c # s)
      then new @ replace_text old new (drop (length old) (c # s))
      else c # replace_text old new s)"
  by pat_completeness auto

termination
  by (relation "measure (\<lambda>(old, new, s). length s)") (auto simp: neq_Nil_conv)

fun json_text :: "json \<Rightarrow> string" where
  "json_text (JStr s) = s"
| "json_text _ = []"

definition named_hotkeys :: "'m gate_result \<Rightarrow> verdict \<Rightarrow> (string \<times> string) list" where
  "named_hotkeys res v =
     (let hotkeys = (case map_of (vd_metrics v) ''hotkeys_by_model'' of
            Some (JObj kvs) \<Rightarrow> map (\<lambda>(k, x). (k, json_text x)) kvs | _ \<Rightarrow> []);
          known = json_text (metric_or (JStr []) ''ancestor_hotkey'' v);
          exact = (case gr_exact_of res of None \<Rightarrow> [] | Some b \<Rightarrow> bd_hotkey b);
          listed = (case map_of hotkeys (vd_ancestor v) of None \<Rightarrow> [] | Some h \<Rightarrow> h)
      in if vd_ancestor v = [] then hotkeys
         else dict_put (vd_ancestor v)
           (if known \<noteq> [] then known else if exact \<noteq> [] then exact else listed) hotkeys)"

definition public_message :: "renderer \<Rightarrow> string \<Rightarrow> 'm gate_result \<Rightarrow> string" where
  "public_message rn seed_repo res = (case gr_verdict res of None \<Rightarrow> []
     | Some v \<Rightarrow>
        (let hotkeys = named_hotkeys res v;
             label = (\<lambda>uri. model_label seed_repo uri (case map_of hotkeys uri of None \<Rightarrow> [] | Some h \<Rightarrow> h));
             uris = sort_key (\<lambda>u. - int (length u)) (filter (\<lambda>u. u \<noteq> []) (map fst hotkeys));
             detail = foldl (\<lambda>d uri. replace_text uri (label uri) d) (text_of_message rn (vd_message v)) uris;
             who = label (vd_ancestor v);
             who' = (if vd_reason v = Some ''OWN-COPY'' then ''your own model from '' @ who else who);
             reason = (case vd_reason v of None \<Rightarrow> ''None'' | Some r \<Rightarrow> r)
         in ''duplicate ('' @ reason @ '') of '' @ who' @ '': '' @ detail))"

section \<open>Room in the cache\<close>

text \<open>The cached models: the directory's time and path, <backend>/<owner>/<name>/<digest>.\<close>

record cached =
  ch_mtime :: rat
  ch_backend :: string
  ch_owner :: string
  ch_name :: string
  ch_digest :: string

definition cache_path :: "cached \<Rightarrow> string \<times> string \<times> string \<times> string" where
  "cache_path m = (ch_backend m, ch_owner m, ch_name m, ch_digest m)"

text \<open>\<open>guarded\<close> are the cache directories (owner and name) of the protected repositories.\<close>

definition evictable :: "cached \<Rightarrow> string list \<Rightarrow> cached \<Rightarrow> bool" where
  "evictable keep guarded m \<longleftrightarrow> cache_path m \<noteq> cache_path keep \<and> ch_owner m @ ''/'' @ ch_name m \<notin> set guarded"

text \<open>The newest go first, until with the model to come the limit is met.\<close>

definition make_room :: "(string \<Rightarrow> string) \<Rightarrow> nat \<Rightarrow> cached \<Rightarrow> string list \<Rightarrow> cached list \<Rightarrow> cached list" where
  "make_room cache_repo max_cached keep protected_repos ms =
     (let models = sort_key (\<lambda>m. (ch_mtime m, cache_path m))
            (filter (evictable keep (map cache_repo protected_repos)) ms)
      in filter (\<lambda>m. m \<notin> set (drop (max_cached - 1) models)) ms)"

lemma make_room_protects:
  assumes "m \<in> set ms" "\<not> evictable keep (map cache_repo protected_repos) m"
  shows "m \<in> set (make_room cache_repo max_cached keep protected_repos ms)"
  using assms by (auto simp: make_room_def Let_def dest: in_set_dropD)

lemma make_room_limit:
  "card {m \<in> set (make_room cache_repo max_cached keep protected_repos ms).
     evictable keep (map cache_repo protected_repos) m} \<le> max_cached - 1"
proof -
  let ?g = "map cache_repo protected_repos"
  let ?models = "sort_key (\<lambda>m. (ch_mtime m, cache_path m)) (filter (evictable keep ?g) ms)"
  have "m \<in> set (take (max_cached - 1) ?models)"
    if "m \<in> set ms" "evictable keep ?g m" "m \<notin> set (drop (max_cached - 1) ?models)" for m
    using that set_sort [of "\<lambda>m. (ch_mtime m, cache_path m)" "filter (evictable keep ?g) ms"]
      set_append [of "take (max_cached - 1) ?models" "drop (max_cached - 1) ?models"]
    by auto
  then have "{m \<in> set (make_room cache_repo max_cached keep protected_repos ms). evictable keep ?g m} \<subseteq>
      set (take (max_cached - 1) ?models)"
    by (auto simp: make_room_def Let_def)
  then have "card {m \<in> set (make_room cache_repo max_cached keep protected_repos ms). evictable keep ?g m} \<le>
      card (set (take (max_cached - 1) ?models))" by (intro card_mono) auto
  also have "\<dots> \<le> max_cached - 1" by (rule order.trans [OF card_length]) simp
  finally show ?thesis .
qed

section \<open>One model\<close>

text \<open>
  What the storage answers for the model: whether its reference is malformed, its files, the headers
  of its shards, the directory with its configuration, the downloaded directory, and the shapes of
  the seed; \<open>Inl\<close> the text of an exception.
\<close>

record candidate =
  ca_ref_error :: "string option"
  ca_backend :: string
  ca_files :: "string + string list"
  ca_headers :: "string + headers"
  ca_config :: "string + reader"
  ca_download :: "string + model_dir"
  ca_seed :: "string + (string \<times> json list) list"

record tools =
  to_sha256 :: "string \<Rightarrow> string"
  to_loads :: "string \<Rightarrow> string + json"
  to_renderer :: renderer
  to_seed_repo :: string
  to_shape_enforce :: bool

definition not_found_markers :: "string list" where
  "not_found_markers = [''not found'', ''404'', ''no such'', ''does not exist'', ''nosuchkey'',
     ''no revision'', ''not exist'', ''norepo'', ''gated'', ''restricted'']"

definition is_not_found :: "string \<Rightarrow> bool" where
  "is_not_found e \<longleftrightarrow> list_ex (\<lambda>m. str_contains m (lower e)) not_found_markers"

definition miner_fault :: "string \<Rightarrow> string \<Rightarrow> json \<Rightarrow> outcome" where
  "miner_fault code msg summary = Rejected MINER_FAULT code msg summary"

definition infra_fault :: "string \<Rightarrow> string \<Rightarrow> outcome" where
  "infra_fault code msg = Retryable INFRA_FAULT code msg"

text \<open>
  A step of the function goes on with a value, returns an outcome, or raises: the exceptions of the
  checks are not caught here.
\<close>

type_synonym 'a step = "(py_error + outcome) + 'a"

definition returning :: "outcome \<Rightarrow> 'a step" where
  "returning out = Inl (Inr out)"

definition raising :: "py_error + 'a \<Rightarrow> 'a step" where
  "raising m = retell Inl m"

definition from_storage :: "candidate \<Rightarrow> string \<Rightarrow> string \<Rightarrow> string + 'a \<Rightarrow> 'a step" where
  "from_storage ca code what m = (case m of
       Inr x \<Rightarrow> Inr x
     | Inl e \<Rightarrow> returning (if is_not_found e
         then miner_fault ''repo_not_found'' (''repo/revision not found on '' @ ca_backend ca @ '': '' @ e) (JObj [])
         else infra_fault code (what @ e)))"

definition require :: "string \<Rightarrow> json \<Rightarrow> bool \<times> string \<Rightarrow> unit step" where
  "require code summary = (\<lambda>(ok, msg). if ok then Inr () else returning (miner_fault code msg summary))"

text \<open>The text of an exception.\<close>

fun error_text :: "py_error \<Rightarrow> string" where
  "error_text (ValueError s) = s"
| "error_text (KeyError s) = repr_text s"
| "error_text (TypeError s) = s"
| "error_text (RuntimeError s) = s"
| "error_text (AttributeError s) = s"

definition shape_outcome :: "tools \<Rightarrow> candidate \<Rightarrow> headers \<Rightarrow> outcome option" where
  "shape_outcome to ca hs =
     (case and_then (retell error_text (shapes_from_headers hs)) (\<lambda>shapes.
         and_then (ca_seed ca) (\<lambda>seed. Inr (check_shapes shapes seed))) of
        Inl e \<Rightarrow> if to_shape_enforce to
          then Some (infra_fault ''seed_shapes_failed'' (''could not read genesis seed tensor shapes: '' @ e)) else None
      | Inr (ok, msg) \<Rightarrow> if ok \<or> \<not> to_shape_enforce to then None
          else Some (miner_fault ''tensor_shape'' msg (JObj [])))"

definition preflight :: "tools \<Rightarrow> candidate \<Rightarrow> unit step" where
  "preflight to ca =
     and_then (case ca_ref_error ca of None \<Rightarrow> Inr () | Some e \<Rightarrow>
         returning (miner_fault ''invalid_ref'' (''malformed on-chain model reference: '' @ e) (JObj []))) (\<lambda>_.
     and_then (from_storage ca ''list_files_failed'' ''could not list repo files: '' (ca_files ca)) (\<lambda>files.
     and_then (require ''empty_repo'' (JObj []) (files \<noteq> [], ''model repo has no files'')) (\<lambda>_.
     and_then (require ''file_manifest'' (JObj [(''files'', JList (map JStr (take 50 (sort files))))])
         (check_repo files)) (\<lambda>_.
     and_then (from_storage ca ''preflight_failed'' ''could not read safetensors headers: '' (ca_headers ca)) (\<lambda>hs.
     and_then (raising (dtypes_from_headers hs)) (\<lambda>dtypes.
     and_then (require ''weight_dtype'' (JObj []) (check_dtypes dtypes)) (\<lambda>_.
     and_then (from_storage ca ''download_config_failed'' ''model config download failed: '' (ca_config ca)) (\<lambda>read.
     and_then (raising (check_chat_template (to_sha256 to) (to_loads to) read files)) (\<lambda>r.
     and_then (require ''chat_template_hash'' (JObj []) r) (\<lambda>_.
     and_then (require ''metadata_hash'' (JObj []) (check_genesis (to_sha256 to) read files)) (\<lambda>_.
     case shape_outcome to ca hs of None \<Rightarrow> Inr () | Some out \<Rightarrow> returning out)))))))))))"

definition downloaded_checks :: "tools \<Rightarrow> candidate \<Rightarrow> unit step" where
  "downloaded_checks to ca =
     and_then (from_storage ca ''download_failed'' ''model download failed: '' (ca_download ca)) (\<lambda>d.
     and_then (require ''incomplete_repo'' (JObj [])
         (md_shards d \<noteq> [], ''downloaded repo is missing *.safetensors'')) (\<lambda>_.
     and_then (raising (check_index (to_loads to) d)) (require ''safetensors_index'' (JObj []))))"

definition dedup_stage ::
  "tools \<Rightarrow> gate_config \<Rightarrow> ('m, 'd) signals \<Rightarrow> 'm surroundings \<Rightarrow> submitter \<Rightarrow> 'm bank \<Rightarrow> outcome \<times> 'm bank" where
  "dedup_stage to cfg sg en who ix =
     (case gate_run cfg sg en who ix of
        (Inl e, ix') \<Rightarrow> (infra_fault ''dedup_failed'' (''dedup stage failed: '' @ ex_type e @ '': '' @ ex_text e), ix')
      | (Inr res, ix') \<Rightarrow>
          (case gr_infra_error res of Some e \<Rightarrow> infra_fault ''dedup_failed'' e
           | None \<Rightarrow>
              (let summary = public_summary (to_renderer to) res;
                   reason = Option.bind (gr_verdict res) vd_reason
               in if gr_rejected res
                  then if enforces cfg reason (su_coldkey who)
                    then miner_fault (dedup_fault_code reason)
                      (public_message (to_renderer to) (to_seed_repo to) res) summary
                    else Done (JObj [(''dedup'', JStr ''pass'')])
                  else Done summary), ix'))"

definition process_model ::
  "tools \<Rightarrow> gate_config \<Rightarrow> ('m, 'd) signals \<Rightarrow> 'm surroundings \<Rightarrow> candidate \<Rightarrow> submitter \<Rightarrow> 'm bank \<Rightarrow>
     (py_error + outcome) \<times> 'm bank" where
  "process_model to cfg sg en ca who ix =
     (case and_then (preflight to ca) (\<lambda>_. downloaded_checks to ca) of
        Inl stopped \<Rightarrow> (stopped, ix)
      | Inr _ \<Rightarrow> (case dedup_stage to cfg sg en who ix of (out, ix') \<Rightarrow> (Inr out, ix')))"

text \<open>The worker's call: an exception becomes an infrastructure fault.\<close>

definition processed :: "py_error + outcome \<Rightarrow> outcome" where
  "processed r = (case r of Inr out \<Rightarrow> out
     | Inl e \<Rightarrow> infra_fault ''unexpected''
         ((case e of ValueError _ \<Rightarrow> ''ValueError'' | KeyError _ \<Rightarrow> ''KeyError''
           | TypeError _ \<Rightarrow> ''TypeError'' | RuntimeError _ \<Rightarrow> ''RuntimeError'' | AttributeError _ \<Rightarrow> ''AttributeError'') @ '': '' @ error_text e))"

text \<open>The submitter of a claimed attempt, and the coldkey the worker gives the gate.\<close>

definition submitter_of :: "hippius_claim \<Rightarrow> string \<Rightarrow> submitter" where
  "submitter_of cl coldkey = (let uri = ms_model_uri (hc_submission cl)
     in \<lparr>su_hotkey = ms_hotkey (hc_submission cl), su_coldkey = coldkey,
         su_repo = before_first (CHR ''@'') uri, su_digest = after_first (CHR ''@'') uri,
         su_block = Some (cc_block_number (hc_commit cl))\<rparr>)"

definition worker_coldkey :: "hippius_claim \<Rightarrow> db \<Rightarrow> string" where
  "worker_coldkey cl d = (case or_text (hc_coldkey cl) (coldkey_of (ms_hotkey (hc_submission cl)) d) of
     None \<Rightarrow> [] | Some k \<Rightarrow> k)"

section \<open>The steps\<close>

lemma raising_Inr [simp]: "raising m = Inr x \<longleftrightarrow> m = Inr x"
  by (simp add: raising_def)

lemma from_storage_Inr [simp]: "from_storage ca code what m = Inr x \<longleftrightarrow> m = Inr x"
  by (auto simp: from_storage_def returning_def split: sum.splits)

lemma require_Inr [simp]: "require code summary r = Inr u \<longleftrightarrow> fst r"
  by (cases r) (simp add: require_def returning_def)

lemma preflight_passes:
  assumes "preflight to ca = Inr u"
  obtains files hs dtypes read msg where "ca_files ca = Inr files" "files \<noteq> []" "fst (check_repo files)"
    "ca_headers ca = Inr hs" "dtypes_from_headers hs = Inr dtypes" "fst (check_dtypes dtypes)"
    "ca_config ca = Inr read" "check_chat_template (to_sha256 to) (to_loads to) read files = Inr (True, msg)"
    "fst (check_genesis (to_sha256 to) read files)" "shape_outcome to ca hs = None"
  using assms unfolding preflight_def
  by (auto simp: returning_def simp del: check_repo_passes check_dtypes_passes check_genesis_passes
      split: option.splits)

lemma shape_outcome_None:
  assumes "shape_outcome to ca hs = None" and "to_shape_enforce to"
  obtains shapes seed where "shapes_from_headers hs = Inr shapes" "ca_seed ca = Inr seed" "map_of shapes = map_of seed"
proof -
  from assms obtain shapes seed where h: "shapes_from_headers hs = Inr shapes" "ca_seed ca = Inr seed"
    and ok: "fst (check_shapes shapes seed)"
    by (cases "shapes_from_headers hs"; cases "ca_seed ca")
      (auto simp: shape_outcome_def retell_def split: prod.splits if_splits)
  from that [OF h] ok show thesis by (simp add: check_shapes_passes)
qed

lemma dtypes_from_headers_sound:
  assumes "dtypes_from_headers hs = Inr dtypes" and "fst (check_dtypes dtypes)"
    and "(shard, header) \<in> set hs" and "(name, info) \<in> set header" and "name \<noteq> ''__metadata__''"
  shows "dtype_of info = Inr ''F16'' \<or> dtype_of info = Inr ''BF16''"
proof -
  define one where "one = (\<lambda>(shard :: string, header). and_then (all_of (\<lambda>(_ :: string, info). dtype_of info) (tensors_of header))
     (\<lambda>ds. Inr (shard, ds)))"
  have all: "all_of one hs = Inr dtypes" using assms(1) by (simp add: dtypes_from_headers_def one_def)
  obtain i where i: "i < length hs" "hs ! i = (shard, header)" using assms(3) by (auto simp: in_set_conv_nth)
  with all_of_Inr [OF all] have "one (shard, header) = Inr (dtypes ! i)" "dtypes ! i \<in> set dtypes" by auto
  then obtain ds where ds: "all_of (\<lambda>(_, info). dtype_of info) (tensors_of header) = Inr ds" "(shard, ds) \<in> set dtypes"
    by (auto simp: one_def)
  have "(name, info) \<in> set (tensors_of header)" using assms(4,5) by (simp add: tensors_of_def)
  then obtain j where j: "j < length (tensors_of header)" "tensors_of header ! j = (name, info)"
    by (auto simp: in_set_conv_nth)
  with all_of_Inr [OF ds(1)] have "dtype_of info = Inr (ds ! j)" "ds ! j \<in> set ds" by auto
  moreover have "set ds \<subseteq> set ALLOWED_DTYPES" using assms(2) ds(2) by (auto simp: check_dtypes_passes)
  ultimately show ?thesis by (auto simp: ALLOWED_DTYPES_def)
qed

lemma downloaded_passes:
  assumes "downloaded_checks to ca = Inr u"
  obtains d msg where "ca_download ca = Inr d" "md_shards d \<noteq> []" "check_index (to_loads to) d = Inr (True, msg)"
  using assms by (auto simp: downloaded_checks_def)

text \<open>No step before the gate lets a model through on its own.\<close>

definition never_done :: "'a step \<Rightarrow> bool" where
  "never_done m \<longleftrightarrow> (\<forall>s. m \<noteq> Inl (Inr (Done s)))"

lemma never_done_bind: "never_done m \<Longrightarrow> (\<And>x. never_done (f x)) \<Longrightarrow> never_done (and_then m f)"
  by (cases m) (auto simp: never_done_def)

lemma never_done_steps:
  "never_done (Inr x)" "never_done (raising r)" "never_done (returning (miner_fault code msg summary))"
  "never_done (returning (infra_fault code msg))" "never_done (require code summary r')"
  "never_done (from_storage ca code what t)"
  by (auto simp: never_done_def raising_def retell_def returning_def miner_fault_def infra_fault_def
      require_def from_storage_def split: sum.splits prod.splits)

lemma never_done_shape: "never_done (case shape_outcome to ca hs of None \<Rightarrow> Inr () | Some out \<Rightarrow> returning out)"
  by (auto simp: shape_outcome_def intro: never_done_steps split: option.splits sum.splits prod.splits)

lemma never_done_preflight: "never_done (preflight to ca)"
  unfolding preflight_def
  by (intro never_done_bind never_done_steps never_done_shape)
    (auto intro: never_done_steps split: option.splits)

lemma never_done_downloaded: "never_done (downloaded_checks to ca)"
  unfolding downloaded_checks_def by (intro never_done_bind never_done_steps)

lemma process_model_done:
  assumes "process_model to cfg sg en ca who ix = (Inr (Done summary), ix')"
  shows "preflight to ca = Inr ()" "downloaded_checks to ca = Inr ()"
    "dedup_stage to cfg sg en who ix = (Done summary, ix')"
proof -
  have "never_done (and_then (preflight to ca) (\<lambda>_. downloaded_checks to ca))"
    by (intro never_done_bind never_done_preflight never_done_downloaded)
  with assms have "\<exists>u. and_then (preflight to ca) (\<lambda>_. downloaded_checks to ca) = Inr u"
    by (auto simp: process_model_def never_done_def split: sum.splits)
  then show "preflight to ca = Inr ()" "downloaded_checks to ca = Inr ()" by auto
  with assms show "dedup_stage to cfg sg en who ix = (Done summary, ix')"
    by (auto simp: process_model_def split: prod.splits)
qed

lemma process_model_checked:
  assumes "preflight to ca = Inr ()" "downloaded_checks to ca = Inr ()"
  shows "process_model to cfg sg en ca who ix = (case dedup_stage to cfg sg en who ix of (out, ix') \<Rightarrow> (Inr out, ix'))"
  using assms by (simp add: process_model_def)

section \<open>Accepted models\<close>

text \<open>What an accepted model has passed, over the files the storage gave.\<close>

definition right_files :: "string list \<Rightarrow> bool" where
  "right_files files \<longleftrightarrow> set REQUIRED_FILES \<subseteq> set files \<and> (\<forall>f \<in> set files. \<not> matches_any f FORBIDDEN_GLOBS \<and>
     (f \<in> set (REQUIRED_FILES @ ALLOWED_FILES) \<or> matches_any f ALLOWED_GLOBS))"

definition sixteen_bit :: "headers \<Rightarrow> bool" where
  "sixteen_bit hs \<longleftrightarrow> (\<forall>(shard, header) \<in> set hs. \<forall>(name, info) \<in> set header. name \<noteq> ''__metadata__'' \<longrightarrow>
     dtype_of info = Inr ''F16'' \<or> dtype_of info = Inr ''BF16'')"

definition genesis_files :: "(string \<Rightarrow> string) \<Rightarrow> reader \<Rightarrow> bool" where
  "genesis_files sha256 read \<longleftrightarrow> (\<forall>(name, expected) \<in> set GENESIS_SHA256.
     \<exists>bytes. read name = Inr bytes \<and> sha256 bytes = expected)"

definition seed_shaped :: "candidate \<Rightarrow> headers \<Rightarrow> bool" where
  "seed_shaped ca hs \<longleftrightarrow> (case (shapes_from_headers hs, ca_seed ca) of
     (Inr shapes, Inr seed) \<Rightarrow> map_of shapes = map_of seed | _ \<Rightarrow> False)"

text \<open>
  C4. A model the worker lets through holds the required files and no forbidden or unknown one, only
  16-bit tensors, the files of genesis byte for byte (up to SHA-256), with enforcement the tensor
  shapes of the seed, and no shard or tensor its index does not name; and the gate put it into the
  bank with a passing verdict, or rejected it for a reason that is not enforced for its owner.
\<close>

theorem accepted_model_checks_out:
  assumes "process_model to cfg sg en ca who ix = (Inr (Done summary), ix')"
  shows "\<exists>files hs read d. ca_files ca = Inr files \<and> ca_headers ca = Inr hs \<and> ca_config ca = Inr read \<and>
    ca_download ca = Inr d \<and> right_files files \<and> sixteen_bit hs \<and> genesis_files (to_sha256 to) read \<and>
    (to_shape_enforce to \<longrightarrow> seed_shaped ca hs) \<and>
    (\<forall>r. md_index d = Some r \<longrightarrow> (\<exists>index wm. read_index (to_loads to) r = Inr (index, wm) \<and>
       set (map fst index) \<subseteq> {''metadata'', ''weight_map''} \<and> snd ` set wm = JStr ` set (md_shards d) \<and>
       (\<forall>shard \<in> set (md_shards d). \<exists>keys. md_tensors d shard = Inr keys \<and>
          set keys = {k. (k, JStr shard) \<in> set wm}))) \<and>
    (\<exists>doc v. fingerprint_of cfg en = Inr doc \<and>
       (vd_status v = PASS \<and> ix' = put_doc BANK v who doc ix \<or>
        rejected v \<and> \<not> enforces cfg (vd_reason v) (su_coldkey who) \<and> ix' = put_doc AUDIT v who doc ix))"
proof -
  note let_in = process_model_done [OF assms]
  obtain files hs dtypes read msg where pre: "ca_files ca = Inr files" "fst (check_repo files)"
    "ca_headers ca = Inr hs" "dtypes_from_headers hs = Inr dtypes" "fst (check_dtypes dtypes)"
    "ca_config ca = Inr read" "fst (check_genesis (to_sha256 to) read files)" "shape_outcome to ca hs = None"
    using let_in(1) by (rule preflight_passes)
  obtain d msg' where dl: "ca_download ca = Inr d" "check_index (to_loads to) d = Inr (True, msg')"
    using let_in(2) by (rule downloaded_passes)
  have "right_files files" using pre(2) by (auto simp: right_files_def check_repo_passes)
  moreover have "sixteen_bit hs"
    unfolding sixteen_bit_def split_beta using dtypes_from_headers_sound [OF pre(4,5)] by (metis prod.collapse)
  moreover have "genesis_files (to_sha256 to) read"
    using pre(7) by (auto simp: genesis_files_def check_genesis_passes)
  moreover have "seed_shaped ca hs" if enforce: "to_shape_enforce to"
  proof -
    obtain shapes seed where "shapes_from_headers hs = Inr shapes" "ca_seed ca = Inr seed" "map_of shapes = map_of seed"
      using pre(8) enforce by (rule shape_outcome_None)
    then show ?thesis by (simp add: seed_shaped_def)
  qed
  moreover have "\<exists>index wm. read_index (to_loads to) r = Inr (index, wm) \<and>
      set (map fst index) \<subseteq> {''metadata'', ''weight_map''} \<and> snd ` set wm = JStr ` set (md_shards d) \<and>
      (\<forall>shard \<in> set (md_shards d). \<exists>keys. md_tensors d shard = Inr keys \<and>
         set keys = {k. (k, JStr shard) \<in> set wm})" if index: "md_index d = Some r" for r
  proof -
    obtain index wm where "read_index (to_loads to) r = Inr (index, wm)"
      "set (map fst index) \<subseteq> {''metadata'', ''weight_map''}" "snd ` set wm = JStr ` set (md_shards d)"
      "\<And>shard. shard \<in> set (md_shards d) \<Longrightarrow>
         \<exists>keys. md_tensors d shard = Inr keys \<and> set keys = {k. (k, JStr shard) \<in> set wm}"
      by (rule check_index_sound [OF dl(2) index]) blast
    then show ?thesis by blast
  qed
  moreover have "\<exists>doc v. fingerprint_of cfg en = Inr doc \<and>
       (vd_status v = PASS \<and> ix' = put_doc BANK v who doc ix \<or>
        rejected v \<and> \<not> enforces cfg (vd_reason v) (su_coldkey who) \<and> ix' = put_doc AUDIT v who doc ix)"
  proof -
    obtain r ix2 where run: "gate_run cfg sg en who ix = (r, ix2)" by fastforce
    from run show ?thesis
    proof (cases rule: gate_run_cases)
      case unchanged
      with let_in(3) run show ?thesis
        by (auto simp: dedup_stage_def infra_fault_def split: sum.splits option.splits)
    next
      case (audit doc v exact)
      with let_in(3) run show ?thesis
        by (auto simp: dedup_stage_def verdict_result_def gr_rejected_def Let_def miner_fault_def split: if_splits)
    next
      case (bank doc v near base docs)
      with let_in(3) run show ?thesis
        by (auto simp: dedup_stage_def verdict_result_def gr_rejected_def Let_def miner_fault_def split: if_splits)
    qed
  qed
  ultimately show ?thesis using pre(1,3,6) dl(1) by blast
qed

section \<open>Copies\<close>

lemma enforces_all: "''COPY'' \<in> set (enforced_reasons s) \<Longrightarrow> gc_enforce cfg \<Longrightarrow> gc_enforce_reasons cfg = s \<Longrightarrow>
    coldkey \<noteq> [] \<Longrightarrow> enforces cfg (Some ''COPY'') coldkey"
  by (simp add: enforces_def upper_def upper_char_def)

text \<open>
  C7. A model with exactly the weights of an earlier model of another owner in the bank is rejected
  as a copy when the calls to the bank succeed and COPY is enforced, stays out of the bank, and the
  recorded outcome blocks its hotkey from then on.
\<close>

theorem copy_blocks_hotkey:
  fixes cl :: hippius_claim
  assumes "preflight to ca = Inr ()" "downloaded_checks to ca = Inr ()"
    and "fingerprint_of cfg en = Inr doc" and "\<forall>c. en_down en c = None"
    and "b \<in> set ix" "bd_status b = BANK" "same_hash doc b" "before_block (su_block (submitter_of cl coldkey)) b"
      "\<not> own_of (ms_hotkey (hc_submission cl)) coldkey b"
    and "gc_enforce cfg" "''COPY'' \<in> set (enforced_reasons (gc_enforce_reasons cfg))" "coldkey \<noteq> []"
    and "ledger d" "holds HIPPIUS (hc_attempt_id cl) (ms_id r) d" "r \<in> set (submissions d)"
    and "\<forall>q \<in> set (submissions d). ms_fault_code q = Some ''duplicate'' \<longrightarrow> ms_fault_message q \<noteq> None"
  shows "\<exists>out ix' d'. process_model to cfg sg en ca (submitter_of cl coldkey) ix = (Inr out, ix') \<and>
    (\<forall>x \<in> set ix'. uri_of x = fp_model_uri doc \<longrightarrow> bd_status x = AUDIT) \<and>
    finalize env max_attempts max_fails cl uri out d = (Inr (), d') \<and> ledger d' \<and>
    hotkey_duplicate_block_reason (ms_hotkey r) d' \<noteq> None"
proof -
  define who where "who = submitter_of cl coldkey"
  have who: "su_hotkey who = ms_hotkey (hc_submission cl)" "su_coldkey who = coldkey"
    by (simp_all add: who_def submitter_of_def Let_def)
  have "find_exact doc (su_hotkey who) coldkey (su_block who) ix \<noteq> None"
    using assms(5-9) unfolding find_exact_def set_find_None who who_def [symmetric] by blast
  then obtain e where e: "find_exact doc (su_hotkey who) coldkey (su_block who) ix = Some e" by blast
  let ?res = "verdict_result (exact_verdict doc e) doc (Some e)"
  have run: "gate_run cfg sg en who ix = (Inr ?res, put_doc AUDIT (exact_verdict doc e) who doc ix)"
    using assms(3,4) e by (simp add: gate_run_def look_up_def asking_def who)
  have reason: "vd_reason (exact_verdict doc e) = Some ''COPY''" by (simp add: exact_verdict_def)
  define msg where "msg = public_message (to_renderer to) (to_seed_repo to) ?res"
  define summary where "summary = public_summary (to_renderer to) ?res"
  have stage: "dedup_stage to cfg sg en who ix =
      (Rejected MINER_FAULT ''duplicate'' msg summary, put_doc AUDIT (exact_verdict doc e) who doc ix)"
    using enforces_all [OF assms(11,10) refl assms(12)] reason
    by (simp add: dedup_stage_def run verdict_result_def gr_rejected_def Let_def who miner_fault_def
        dedup_fault_code_def upper_def upper_char_def msg_def summary_def)
  obtain d' where d': "mark_failed env (hc_attempt_id cl) MINER_FAULT ''duplicate'' msg
      (jmerge summary (JObj [(''fault_uri'', uri)])) d = Inr ((), d')" "ledger d'"
    "submissions d' = update_where (\<lambda>s. ms_id s = ms_id r)
       (failed_submission env MINER_FAULT ''duplicate'' msg) (submissions d)"
    by (rule mark_failed_outcome [OF assms(13-15)])
  have fin: "finalize env max_attempts max_fails cl uri (Rejected MINER_FAULT ''duplicate'' msg summary) d = (Inr (), d')"
    using d'(1) by (simp add: finalize_def Let_def run_tx_def)
  define dups where "dups = filter (\<lambda>q. ms_hotkey q = ms_hotkey r \<and> ms_state q = TERMINAL_INVALID \<and>
    ms_fault_class q = Some MINER_FAULT \<and> ms_fault_code q = Some ''duplicate'') (submissions d')"
  have "failed_submission env MINER_FAULT ''duplicate'' msg r \<in> set dups"
    using update_where_hit [OF assms(15), of "\<lambda>s. ms_id s = ms_id r" "failed_submission env MINER_FAULT ''duplicate'' msg"]
    unfolding dups_def d'(3) by (simp add: failed_submission_def)
  then obtain q where q: "limit1 (sort_key (\<lambda>r. - ms_created_at r) dups) = Some q"
    by (metis empty_iff limit1_None list.set(1) not_None_eq set_sort)
  then have "q \<in> set dups" using limit1_Some [OF q] by simp
  then have "ms_fault_message q \<noteq> None"
    using assms(16) by (auto simp: dups_def d'(3) failed_submission_def set_fault_def elim!: update_whereE)
  then have "hotkey_duplicate_block_reason (ms_hotkey r) d' \<noteq> None"
    using q by (simp add: hotkey_duplicate_block_reason_def dups_def)
  moreover have "process_model to cfg sg en ca who ix =
      (Inr (Rejected MINER_FAULT ''duplicate'' msg summary), put_doc AUDIT (exact_verdict doc e) who doc ix)"
    by (simp add: process_model_checked [OF assms(1,2)] stage)
  moreover have "\<forall>x \<in> set (put_doc AUDIT (exact_verdict doc e) who doc ix).
      uri_of x = fp_model_uri doc \<longrightarrow> bd_status x = AUDIT" by (auto simp: put_doc_def)
  ultimately show ?thesis using d'(2) fin unfolding who_def by blast
qed

section \<open>Validated twice\<close>

text \<open>
  C8. A model that passed and went into the bank is rejected when it is validated again, as happens
  when the worker dies before it records the outcome and the lease expires: the gate finds the model
  itself among its owner's models and, with OWN-COPY enforced, the honest miner gets the fault
  \<open>duplicate_own\<close>; the model leaves the bank.
\<close>

theorem retried_model_is_own_copy:
  assumes "process_model to cfg sg en ca who ix = (Inr (Done summary), ix')"
    and "\<forall>b \<in> set ix'. uri_of b = fp_model_uri doc \<longrightarrow> bd_status b = BANK" "fingerprint_of cfg en = Inr doc"
    and "fingerprint_of cfg en2 = fingerprint_of cfg en" "\<forall>c. en_down en2 c = None"
    and "gc_enforce cfg" "''OWN-COPY'' \<in> set (enforced_reasons (gc_enforce_reasons cfg))" "su_coldkey who \<noteq> []"
  shows "\<exists>msg summary' ix2. process_model to cfg sg en2 ca who ix' =
      (Inr (Rejected MINER_FAULT ''duplicate_own'' msg summary'), ix2) \<and>
    (\<forall>b \<in> set ix2. uri_of b = fp_model_uri doc \<longrightarrow> bd_status b = AUDIT)"
proof -
  note let_in = process_model_done [OF assms(1)]
  obtain r ix1 where run: "gate_run cfg sg en who ix = (r, ix1)" by fastforce
  have ix1: "ix1 = ix'" using let_in(3) run by (auto simp: dedup_stage_def split: sum.splits)
  from run have "\<exists>res. r = Inr res \<and> \<not> gr_rejected res \<and> gr_infra_error res = None"
  proof (cases rule: gate_run_cases)
    case unchanged
    with let_in(3) run show ?thesis
      by (auto simp: dedup_stage_def infra_fault_def split: sum.splits option.splits)
  next
    case (audit doc2 v exact)
    with assms(2,3) ix1 show ?thesis by (auto simp: put_doc_def)
  next
    case (bank doc v near base docs)
    then show ?thesis by (auto simp: verdict_result_def gr_rejected_def rejected_def)
  qed
  then obtain res where res: "gate_run cfg sg en who ix = (Inr res, ix')" "\<not> gr_rejected res" "gr_infra_error res = None"
    using run ix1 by auto
  obtain doc2 v where again: "fingerprint_of cfg en = Inr doc2"
    "v = own_verdict (fp_model_uri doc2) IdenticalWeights [(''ancestor_hotkey'', JStr (su_hotkey who))]"
    "gate_run cfg sg en2 who ix' = (Inr (verdict_result v doc2 None), put_doc AUDIT v who doc2 ix')"
    by (rule second_look_finds_itself [OF res assms(8,4,5)])
  have "doc2 = doc" using again(1) assms(3) by simp
  moreover have "enforces cfg (Some ''OWN-COPY'') (su_coldkey who)"
    using assms(6-8) by (simp add: enforces_def upper_def upper_char_def)
  ultimately show ?thesis
    using process_model_checked [OF let_in(1,2), of cfg sg en2 who ix'] again(2,3)
    by (auto simp: dedup_stage_def verdict_result_def gr_rejected_def Let_def own_verdict_def rejected_def
        miner_fault_def dedup_fault_code_def upper_def upper_char_def put_doc_def)
qed

section \<open>A malformed header\<close>

text \<open>
  A tensor without its type in the header of a shard raises a KeyError that nothing catches before the
  worker's loop: the malformed repository is retried as an infrastructure fault, without a strike.
\<close>

lemma malformed_header_is_retried:
  assumes "ca_ref_error ca = None" "ca_files ca = Inr files" "files \<noteq> []" "fst (check_repo files)"
    and "ca_headers ca = Inr hs" "dtypes_from_headers hs = Inl e"
  shows "process_model to cfg sg en ca who ix = (Inl e, ix)"
    and "\<exists>msg. processed (fst (process_model to cfg sg en ca who ix)) = Retryable INFRA_FAULT ''unexpected'' msg"
proof -
  have pass: "require code summary r = Inr ()" if "fst r" for code summary r
    using that by simp
  have "preflight to ca = Inl (Inl e)"
    using assms by (simp add: pass preflight_def from_storage_def raising_def retell_def)
  then show "process_model to cfg sg en ca who ix = (Inl e, ix)" by (simp add: process_model_def)
  then show "\<exists>msg. processed (fst (process_model to cfg sg en ca who ix)) = Retryable INFRA_FAULT ''unexpected'' msg"
    by (simp add: processed_def infra_fault_def)
qed

end
