(* ===== verification/ValidationLoop.thy ===== *)
theory ValidationLoop
  imports Validation
begin

text \<open>
  The loop of the validation worker, \<open>run\<close> of src/src/model_validation/validate_worker.py: one turn
  claims an attempt, admits it or rejects its hotkey, judges the model and records the outcome. What
  the checks and the gate say of a model is an argument here, so that what is shown holds whatever
  they say; \<open>ModelGate\<close> models them.
\<close>

section \<open>A turn of the worker\<close>

text \<open>
  What a turn meets: the database session, the fault document's URI and the judgement of the claimed
  model. Expired leases are swept first; with nothing to claim the chain commits are enqueued. A
  sweep, claim or enqueueing that raises ends the worker.
\<close>

type_synonym turn_input = "sess \<times> json \<times> (hippius_claim \<Rightarrow> outcome)"

definition take_claim ::
  "nat \<Rightarrow> nat \<Rightarrow> sess \<Rightarrow> json \<Rightarrow> (hippius_claim \<Rightarrow> outcome) \<Rightarrow> hippius_claim \<Rightarrow> db \<Rightarrow> db" where
  "take_claim max_attempts max_fails env uri judge cl d =
     (case admission max_fails cl d of
        Some (code, msg, summary) \<Rightarrow>
          snd (run_tx (mark_failed env (hc_attempt_id cl) MINER_FAULT code msg summary) d)
      | None \<Rightarrow> snd (finalize env max_attempts max_fails cl uri (judge cl) d))"

definition worker_turn :: "int \<Rightarrow> string \<Rightarrow> int \<Rightarrow> nat \<Rightarrow> nat \<Rightarrow> turn_input \<Rightarrow> db \<Rightarrow> db" where
  "worker_turn netuid worker lease max_attempts max_fails = (\<lambda>(env, uri, judge) d.
     case run_tx (sweep_expired env) d of
       (Inl e, d0) \<Rightarrow> d0
     | (Inr _, d0) \<Rightarrow>
         (case run_tx (claim_next env worker lease) d0 of
            (Inl e, d1) \<Rightarrow> d1
          | (Inr None, d1) \<Rightarrow> snd (run_tx (enqueue_from_commits env netuid) d1)
          | (Inr (Some cl), d1) \<Rightarrow> take_claim max_attempts max_fails env uri judge cl d1))"

fun worker_turns :: "int \<Rightarrow> string \<Rightarrow> int \<Rightarrow> nat \<Rightarrow> nat \<Rightarrow> turn_input list \<Rightarrow> db \<Rightarrow> db" where
  "worker_turns netuid worker lease max_attempts max_fails [] d = d"
| "worker_turns netuid worker lease max_attempts max_fails (t # ts) d =
     worker_turns netuid worker lease max_attempts max_fails ts
       (worker_turn netuid worker lease max_attempts max_fails t d)"

section \<open>Recording an outcome always settles the attempt\<close>

definition settled :: "sub_state \<Rightarrow> bool" where
  "settled st \<longleftrightarrow> st = HIPPIUS_VALIDATED \<or> st = TERMINAL_INVALID \<or> st = TERMINAL_INFRA_FAILED"

definition number_row :: "attempt \<Rightarrow> nat \<times> stage \<times> nat" where
  "number_row a = (sa_submission_id a, sa_stage a, sa_number a)"

text \<open>
  The submission \<open>k\<close> is settled, or put back into the queue where \<open>again\<close> says so; nothing else
  changes that a later claim looks at.
\<close>

definition settles :: "nat \<Rightarrow> bool \<Rightarrow> db \<Rightarrow> db \<Rightarrow> bool" where
  "settles k again d d' \<longleftrightarrow> ledger d' \<and>
     (\<exists>g. submissions d' = update_where (\<lambda>s. ms_id s = k) g (submissions d) \<and> keeps_id g \<and>
        (\<forall>s. ms_chain_commit_id (g s) = ms_chain_commit_id s \<and> ms_hotkey (g s) = ms_hotkey s \<and>
           (settled (ms_state (g s)) \<or> (again \<and> ms_state (g s) = HIPPIUS_RETRYABLE)))) \<and>
     map number_row (attempts d') = map number_row (attempts d) \<and>
     miners d' = miners d \<and> commits d' = commits d"

lemma number_row_closes: "closes f \<Longrightarrow> map number_row (update_where p f as) = map number_row as"
  by (rule map_update_where) (simp add: closes_def number_row_def)

lemma settlesI:
  assumes "ledger d'" "submissions d' = update_where (\<lambda>s. ms_id s = k) g (submissions d)" "keeps_id g"
    and "\<And>s. ms_chain_commit_id (g s) = ms_chain_commit_id s" "\<And>s. ms_hotkey (g s) = ms_hotkey s"
    and "\<And>s. settled (ms_state (g s)) \<or> (again \<and> ms_state (g s) = HIPPIUS_RETRYABLE)"
    and "attempts d' = update_where p f (attempts d)" "closes f"
    and "miners d' = miners d" "commits d' = commits d"
  shows "settles k again d d'"
  using assms(1-6,9,10) number_row_closes [OF assms(8)] unfolding settles_def assms(7) by blast

lemma closes_ok: "ledger d \<Longrightarrow> closes f \<Longrightarrow> attempts_ok (update_where p f (attempts d))"
  using ledgerD(3) by (simp add: attempts_ok_update)

lemma mark_failed_settles:
  assumes "ledger d" "holds HIPPIUS i (ms_id r) d" "r \<in> set (submissions d)"
  obtains d' where "mark_failed env i cls code msg summary d = Inr ((), d')" "settles (ms_id r) again d d'"
proof -
  have "mark_failed env i cls code msg summary d \<noteq> Inl e" for e
    using attempt_submission_held [OF assms] ledger_subs_keys [OF assms(1)] closes_ok [OF assms(1)]
    by (simp add: mark_failed_def tx upd_sub_def upd_attempt_def closes_def keeps_keys_def
      open_attempt_def failed_submission_def)
  then obtain d' where run: "mark_failed env i cls code msg summary d = Inr ((), d')"
    by (cases "mark_failed env i cls code msg summary d") auto
  have "settles (ms_id r) again d d'"
    using run attempt_submission_held [OF assms] mark_failed_ledger [OF assms(1,2) run]
    by (auto simp: mark_failed_def tx upd_sub_def upd_attempt_def keeps_id_def failed_submission_def settled_def
        closes_def open_attempt_def intro!: settlesI [where g = "failed_submission env cls code msg" and
          f = "\<lambda>a. a\<lparr>sa_state := SA_FAILED_TERMINAL, sa_finished_at := Some (se_now env),
            sa_lease_expires_at := None, sa_fault_class := Some cls, sa_fault_code := Some code,
            sa_fault_message := Some msg, sa_result_summary := summary\<rparr>"])
  with run that show thesis by blast
qed

lemma mark_retry_settles:
  assumes "ledger d" "holds HIPPIUS i (ms_id r) d" "r \<in> set (submissions d)"
  obtains x d' where "mark_retry env i n m cls code msg d = Inr (x, d')" "settles (ms_id r) (n < m) d d'"
proof -
  have "mark_retry env i n m cls code msg d \<noteq> Inl e" for e
    using attempt_submission_held [OF assms] ledger_subs_keys [OF assms(1)] closes_ok [OF assms(1)]
    by (simp add: mark_retry_def Let_def tx upd_sub_def upd_attempt_def closes_def keeps_keys_def open_attempt_def)
  then obtain x d' where run: "mark_retry env i n m cls code msg d = Inr (x, d')"
    by (cases "mark_retry env i n m cls code msg d") auto
  define st where "st = (if m \<le> n then TERMINAL_INFRA_FAILED else HIPPIUS_RETRYABLE)"
  define g where "g = (\<lambda>s :: submission. (set_fault cls code msg s)\<lparr>ms_state := st,
     ms_retry_count := Suc (ms_retry_count s), ms_updated_at := se_now env,
     ms_finished_at := (if st = TERMINAL_INFRA_FAILED then Some (se_now env) else ms_finished_at s)\<rparr>)"
  define f where "f = (\<lambda>a :: attempt. a\<lparr>sa_state := (if m \<le> n then SA_FAILED_TERMINAL else SA_FAILED_RETRYABLE),
     sa_worker_id := None, sa_lease_expires_at := None, sa_finished_at := Some (se_now env),
     sa_fault_class := Some cls, sa_fault_code := Some code, sa_fault_message := Some msg\<rparr>)"
  have d': "submissions d' = update_where (\<lambda>s. ms_id s = ms_id r) g (submissions d)"
    "attempts d' = update_where (\<lambda>a. sa_id a = i) f (attempts d)" "miners d' = miners d" "commits d' = commits d"
    using run attempt_submission_held [OF assms]
    by (auto simp: mark_retry_def Let_def tx upd_sub_def upd_attempt_def g_def f_def st_def split: if_splits)
  have "settles (ms_id r) (n < m) d d'"
    by (rule settlesI [OF mark_retry_ledger [OF assms(1,2) run] d'(1) _ _ _ _ d'(2) _ d'(3,4)])
      (auto simp: g_def f_def st_def keeps_id_def set_fault_def settled_def closes_def open_attempt_def)
  with run that show thesis by blast
qed

lemma mark_done_settles:
  assumes "ledger d" "holds HIPPIUS i (ms_id r) d" "r \<in> set (submissions d)"
  shows "(\<exists>d'. mark_done env i summary d = Inr ((), d') \<and> settles (ms_id r) again d d') \<or>
    (\<exists>e. mark_done env i summary d = Inl (UniqueViolation e))"
proof (cases "mark_done env i summary d")
  case (Inl e)
  then have "\<exists>t. e = UniqueViolation t"
    using attempt_submission_held [OF assms] closes_ok [OF assms(1)] record_model_manifest_artifact_frame
    by (auto simp: mark_done_def Let_def tx upd_sub_def upd_attempt_def closes_def open_attempt_def)
  then show ?thesis using Inl by blast
next
  case (Inr x)
  then obtain d' where run: "mark_done env i summary d = Inr ((), d')" by (cases x) auto
  define h where "h = or_text (text_col (jget ''model_hash'' summary)) (or_text (ms_model_hash r) (ms_commit_hash r))"
  define g where "g = (\<lambda>s :: submission. (clear_fault s)\<lparr>ms_state := HIPPIUS_VALIDATED,
     ms_model_hash := coalesce (ms_model_hash s) h, ms_retry_count := 0, ms_updated_at := se_now env\<rparr>)"
  define f where "f = (\<lambda>a :: attempt. a\<lparr>sa_state := SA_SUCCEEDED, sa_finished_at := Some (se_now env),
     sa_lease_expires_at := None, sa_result_summary := jmerge summary (JObj [(''model_manifest_uri'',
       JStr (model_manifest_uri (ms_model_uri r)))])\<rparr>)"
  obtain d1 where d1: "record_model_manifest_artifact env r i h (model_manifest_uri (ms_model_uri r)) d = Inr ((), d1)"
    "submissions d' = update_where (\<lambda>s. ms_id s = ms_id r) g (submissions d1)"
    "attempts d' = update_where (\<lambda>a. sa_id a = i) f (attempts d1)" "miners d' = miners d1" "commits d' = commits d1"
    using run attempt_submission_held [OF assms]
    by (auto simp: mark_done_def Let_def tx upd_sub_def upd_attempt_def g_def f_def h_def)
  have same: "submissions d1 = submissions d" "attempts d1 = attempts d" "miners d1 = miners d" "commits d1 = commits d"
    using d1(1) by (auto simp: record_model_manifest_artifact_def tx split: if_splits)
  have "settles (ms_id r) again d d'"
    by (rule settlesI [OF mark_done_ledger [OF assms(1,2) run] d1(2) [unfolded same] _ _ _ _
        d1(3) [unfolded same] _ d1(4) [unfolded same] d1(5) [unfolded same]])
      (auto simp: g_def f_def keeps_id_def clear_fault_def settled_def closes_def open_attempt_def)
  with run show ?thesis by blast
qed

lemma finalize_settles:
  assumes "ledger d" "holds HIPPIUS (hc_attempt_id cl) (ms_id r) d" "r \<in> set (submissions d)"
  obtains d' where "finalize env max_attempts max_fails cl uri out d = (Inr (), d')"
    "settles (ms_id r) (hc_attempt_number cl < max_attempts) d d'"
proof (cases out)
  case (Done summary)
  let ?msg = "''exact duplicate: this model's digest already belongs to another submission''"
  obtain d2 where d2: "mark_failed env (hc_attempt_id cl) MINER_FAULT ''duplicate'' ?msg summary d = Inr ((), d2)"
    "settles (ms_id r) (hc_attempt_number cl < max_attempts) d d2" by (rule mark_failed_settles [OF assms])
  from mark_done_settles [OF assms, of env summary "hc_attempt_number cl < max_attempts"] show thesis
  proof
    assume "\<exists>d'. mark_done env (hc_attempt_id cl) summary d = Inr ((), d') \<and>
      settles (ms_id r) (hc_attempt_number cl < max_attempts) d d'"
    then show thesis using that by (auto simp: Done finalize_def run_tx_def)
  next
    assume "\<exists>e. mark_done env (hc_attempt_id cl) summary d = Inl (UniqueViolation e)"
    then show thesis using that d2 by (auto simp: Done finalize_def run_tx_def)
  qed
next
  case (Retryable cls code msg)
  obtain x d' where "mark_retry env (hc_attempt_id cl) (hc_attempt_number cl) max_attempts cls code msg d = Inr (x, d')"
    "settles (ms_id r) (hc_attempt_number cl < max_attempts) d d'" by (rule mark_retry_settles [OF assms])
  then show thesis using that by (simp add: Retryable finalize_def run_tx_def)
next
  case (Rejected cls code msg summary)
  define msg' where "msg' = (if code \<noteq> ''duplicate''
    then msg @ ban_suffix (hotkey_preeval_fail_count (ms_hotkey (hc_submission cl)) d + 1) max_fails else msg)"
  obtain d' where "mark_failed env (hc_attempt_id cl) cls code msg'
      (jmerge summary (JObj [(''fault_uri'', uri)])) d = Inr ((), d')"
    "settles (ms_id r) (hc_attempt_number cl < max_attempts) d d'" by (rule mark_failed_settles [OF assms])
  then show thesis using that by (simp add: Rejected finalize_def Let_def run_tx_def msg'_def)
qed

section \<open>Progress\<close>

definition waiting_state :: "sub_state \<Rightarrow> bool" where
  "waiting_state st \<longleftrightarrow> st = SUBMITTED \<or> st = HIPPIUS_RETRYABLE"

text \<open>Every waiting submission has its commit and a known owner, so that it can be claimed.\<close>

definition all_claimable :: "db \<Rightarrow> bool" where
  "all_claimable d \<longleftrightarrow> (\<forall>r \<in> set (submissions d). waiting_state (ms_state r) \<longrightarrow>
     find_commit (ms_chain_commit_id r) d \<noteq> None \<and> coldkey_of (ms_hotkey r) d \<noteq> None)"

text \<open>The turns a submission can still take: its attempts up to the limit, and always one.\<close>

definition turns_left :: "nat \<Rightarrow> nat \<Rightarrow> nat" where
  "turns_left max_attempts n = max 1 (Suc max_attempts - n)"

definition turns_of :: "nat \<Rightarrow> db \<Rightarrow> submission \<Rightarrow> nat" where
  "turns_of max_attempts d r = (if waiting_state (ms_state r)
     then turns_left max_attempts (next_attempt_number (ms_id r) HIPPIUS d) else 0)"

definition turns_needed :: "nat \<Rightarrow> db \<Rightarrow> nat" where
  "turns_needed max_attempts d = sum_list (map (turns_of max_attempts d) (submissions d))"

lemma sum_list_update_less:
  fixes w w' :: "'r \<Rightarrow> nat"
  assumes "distinct (map key rs)" "r \<in> set rs" "w' (f r) < w r"
    and "\<And>s. s \<in> set rs \<Longrightarrow> key s \<noteq> key r \<Longrightarrow> w' s = w s"
  shows "sum_list (map w' (update_where (\<lambda>s. key s = key r) f rs)) < sum_list (map w rs)"
  using assms
proof (induction rs)
  case (Cons q rs)
  show ?case
  proof (cases "key q = key r")
    case True
    with Cons.prems have q: "q = r" by (auto simp: image_iff)
    with Cons.prems(1) have none: "key s \<noteq> key r" if "s \<in> set rs" for s using that by (force simp: image_iff)
    then have "update_where (\<lambda>s. key s = key r) f rs = rs" by (intro update_where_id) auto
    moreover have "sum_list (map w' rs) = sum_list (map w rs)"
      using Cons.prems(4) none by (intro arg_cong [where f = sum_list] map_cong) auto
    ultimately show ?thesis using q Cons.prems(3) by (simp add: update_where_Cons)
  next
    case False
    then have "r \<in> set rs" "w' q = w q" using Cons.prems by auto
    with False Cons show ?thesis by (simp add: update_where_Cons)
  qed
qed simp

lemma foldr_max_snoc: "foldr max (ns @ [n]) 0 = max (foldr max ns 0) (n :: nat)"
  by (induction ns) (auto simp: max.assoc max.left_commute)

lemma next_number_snoc: "next_number (ns @ [next_number ns]) = Suc (next_number ns)"
  using foldr_max_snoc [of ns "next_number ns"] by (simp add: next_number_def del: foldr_append)

lemma attempt_numbers_rows:
  "attempt_numbers i st as = map (snd \<circ> snd) (filter (\<lambda>(k, t, _). k = i \<and> t = st) (map number_row as))"
  by (induction as) (auto simp: attempt_numbers_def number_row_def)

text \<open>A claim: the submission it takes, and what it changes.\<close>

lemma claim_next_effect:
  assumes "ledger d" "claim_next env w l d = Inr (Some cl, d')"
  obtains r g where "r \<in> set (submissions d)" "waiting_state (ms_state r)"
    "hc_attempt_number cl = next_attempt_number (ms_id r) HIPPIUS d"
    "submissions d' = update_where (\<lambda>s. ms_id s = ms_id r) g (submissions d)" "keeps_id g"
    "\<And>s. ms_chain_commit_id (g s) = ms_chain_commit_id s \<and> ms_hotkey (g s) = ms_hotkey s"
    "map number_row (attempts d') = map number_row (attempts d) @ [(ms_id r, HIPPIUS, hc_attempt_number cl)]"
    "miners d' = miners d" "commits d' = commits d" "holds HIPPIUS (hc_attempt_id cl) (ms_id r) d'" "ledger d'"
proof (cases rule: claim_next_cases [of env d w l])
  case Empty
  with assms(2) show thesis by simp
next
  case (Row r c)
  define g where "g = (\<lambda>s :: submission. (clear_fault s)\<lparr>ms_state := HIPPIUS_RUNNING, ms_updated_at := se_now env\<rparr>)"
  show thesis
  proof (rule that [of r g])
    show "r \<in> set (submissions d)" "waiting_state (ms_state r)"
      using set_hippius_claimable [OF Row(1)] by (auto simp: waiting_state_def)
    show "hc_attempt_number cl = next_attempt_number (ms_id r) HIPPIUS d"
      "submissions d' = update_where (\<lambda>s. ms_id s = ms_id r) g (submissions d)"
      "map number_row (attempts d') = map number_row (attempts d) @ [(ms_id r, HIPPIUS, hc_attempt_number cl)]"
      "miners d' = miners d" "commits d' = commits d" "holds HIPPIUS (hc_attempt_id cl) (ms_id r) d'"
      using assms(2) Row(4)
      by (auto simp: claim_next_def tx ins_attempt_def upd_sub_def holds_def number_row_def g_def)
    show "keeps_id g" by (simp add: keeps_id_def g_def clear_fault_def)
    show "ms_chain_commit_id (g s) = ms_chain_commit_id s \<and> ms_hotkey (g s) = ms_hotkey s" for s
      by (simp add: g_def clear_fault_def)
    show "ledger d'" using claim_next_ledger [OF assms] .
  qed
qed

text \<open>
  What a turn that claims something does: the submission it takes, after attempt \<open>n\<close>, is settled or,
  below the limit, back in the queue.
\<close>

definition takes_turn :: "nat \<Rightarrow> submission \<Rightarrow> db \<Rightarrow> db \<Rightarrow> bool" where
  "takes_turn max_attempts r d d' \<longleftrightarrow> ledger d' \<and> r \<in> set (submissions d) \<and> waiting_state (ms_state r) \<and>
     (let n = next_attempt_number (ms_id r) HIPPIUS d
      in (\<exists>g. submissions d' = update_where (\<lambda>s. ms_id s = ms_id r) g (submissions d) \<and> keeps_id g \<and>
           (\<forall>s. ms_chain_commit_id (g s) = ms_chain_commit_id s \<and> ms_hotkey (g s) = ms_hotkey s \<and>
              (settled (ms_state (g s)) \<or> (n < max_attempts \<and> ms_state (g s) = HIPPIUS_RETRYABLE)))) \<and>
         map number_row (attempts d') = map number_row (attempts d) @ [(ms_id r, HIPPIUS, n)] \<and>
         miners d' = miners d \<and> commits d' = commits d)"

lemma takes_turnI:
  assumes "r \<in> set (submissions d)" "waiting_state (ms_state r)" "n = next_attempt_number (ms_id r) HIPPIUS d"
    and "submissions d1 = update_where (\<lambda>s. ms_id s = ms_id r) g (submissions d)" "keeps_id g"
    and "\<And>s. ms_chain_commit_id (g s) = ms_chain_commit_id s \<and> ms_hotkey (g s) = ms_hotkey s"
    and "map number_row (attempts d1) = map number_row (attempts d) @ [(ms_id r, HIPPIUS, n)]"
    and "miners d1 = miners d" "commits d1 = commits d" and "settles (ms_id r) (n < max_attempts) d1 d'"
  shows "takes_turn max_attempts r d d'"
proof -
  from assms(10) obtain h where h: "submissions d' = update_where (\<lambda>s. ms_id s = ms_id r) h (submissions d1)"
    "keeps_id h" "\<And>s. ms_chain_commit_id (h s) = ms_chain_commit_id s \<and> ms_hotkey (h s) = ms_hotkey s \<and>
       (settled (ms_state (h s)) \<or> (n < max_attempts \<and> ms_state (h s) = HIPPIUS_RETRYABLE))"
    and rest: "ledger d'" "map number_row (attempts d') = map number_row (attempts d1)" "miners d' = miners d1" "commits d' = commits d1"
    unfolding settles_def by blast
  have "submissions d' = update_where (\<lambda>s. ms_id s = ms_id r) (\<lambda>s. h (g s)) (submissions d)"
    unfolding h(1) assms(4) by (rule update_where_twice) (use assms(5) in \<open>simp add: keeps_id_def\<close>)
  moreover have "keeps_id (\<lambda>s. h (g s))" using h(2) assms(5) by (simp add: keeps_id_def)
  ultimately show ?thesis
    unfolding takes_turn_def Let_def assms(3) [symmetric]
    using assms(1,2,6-9) h(3) rest by metis
qed

text \<open>Nothing is being validated, and no commit waits to be enqueued.\<close>

definition at_rest :: "int \<Rightarrow> db \<Rightarrow> bool" where
  "at_rest netuid d \<longleftrightarrow> (\<forall>r \<in> set (submissions d). ms_state r \<noteq> HIPPIUS_RUNNING) \<and> pending_commits netuid d = []"

lemma sweep_at_rest: "ledger d \<Longrightarrow> at_rest netuid d \<Longrightarrow> sweep_expired env d = Inr (0, d)"
proof -
  assume "ledger d" "at_rest netuid d"
  then have "hippius_expired env d = []"
    by (auto simp: hippius_expired_def at_rest_def sub_in_state_def list_ex_iff filter_empty_conv)
  then show ?thesis using ledgerD(3) [OF \<open>ledger d\<close>] by (simp add: sweep_expired_def tx)
qed

lemma enqueue_at_rest: "at_rest netuid d \<Longrightarrow> enqueue_from_commits env netuid d = Inr (0, d)"
  by (simp add: at_rest_def enqueue_from_commits_def enqueueable_def upsert_miners_def tx List.map_filter_def)

lemma takes_turn_at_rest:
  assumes "takes_turn ma r d d'" "at_rest netuid d"
  shows "at_rest netuid d'"
proof -
  obtain g where g: "submissions d' = update_where (\<lambda>s. ms_id s = ms_id r) g (submissions d)"
    "\<And>s. settled (ms_state (g s)) \<or> ms_state (g s) = HIPPIUS_RETRYABLE" "commits d' = commits d"
    using assms(1) unfolding takes_turn_def Let_def by blast
  have "ms_state (g s) \<noteq> HIPPIUS_RUNNING" for s using g(2) [of s] by (auto simp: settled_def)
  then show ?thesis
    using assms(2) by (auto simp: at_rest_def g(1,3) pending_commits_def elim!: update_whereE)
qed

lemma worker_turn_effect:
  assumes "ledger d" and rest: "at_rest netuid d"
  shows "(hippius_claimable env d = [] \<and> worker_turn netuid w l ma mf (env, uri, judge) d = d) \<or>
    (\<exists>r. takes_turn ma r d (worker_turn netuid w l ma mf (env, uri, judge) d))"
proof -
  obtain res d1 where claim: "claim_next env w l d = Inr (res, d1)"
    using claim_next_total [OF assms(1), of env w l] by auto
  note sweep = sweep_at_rest [OF assms] enqueue_at_rest [OF rest]
  show ?thesis
  proof (cases res)
    case None
    with claim have "hippius_claimable env d = [] \<and> d1 = d"
      by (cases rule: claim_next_cases [of env d w l]) (auto simp: claim_next_def tx)
    with claim None show ?thesis by (simp add: worker_turn_def run_tx_def sweep)
  next
    case (Some cl)
    from claim have claim': "claim_next env w l d = Inr (Some cl, d1)" by (simp add: Some)
    obtain r g where e: "r \<in> set (submissions d)" "waiting_state (ms_state r)"
      "hc_attempt_number cl = next_attempt_number (ms_id r) HIPPIUS d"
      "submissions d1 = update_where (\<lambda>s. ms_id s = ms_id r) g (submissions d)" "keeps_id g"
      "\<And>s. ms_chain_commit_id (g s) = ms_chain_commit_id s \<and> ms_hotkey (g s) = ms_hotkey s"
      "map number_row (attempts d1) = map number_row (attempts d) @ [(ms_id r, HIPPIUS, hc_attempt_number cl)]"
      "miners d1 = miners d" "commits d1 = commits d" "holds HIPPIUS (hc_attempt_id cl) (ms_id r) d1" "ledger d1"
      by (rule claim_next_effect [OF assms(1) claim']) blast
    have gr: "g r \<in> set (submissions d1)" "ms_id (g r) = ms_id r"
      using update_where_hit [OF e(1), of "\<lambda>s. ms_id s = ms_id r" g] e(5) by (simp_all add: e(4) keeps_id_def)
    note held = e(11) e(10) [folded gr(2)] gr(1)
    note turn = takes_turnI [OF e(1-9)]
    show ?thesis
    proof (cases "admission mf cl d1")
      case None
      obtain d' where "finalize env ma mf cl uri (judge cl) d1 = (Inr (), d')"
        "settles (ms_id (g r)) (hc_attempt_number cl < ma) d1 d'" by (rule finalize_settles [OF held])
      then show ?thesis
        using claim' None turn gr(2) by (auto simp: worker_turn_def take_claim_def run_tx_def sweep)
    next
      case (Some rej)
      obtain code msg summary where rej: "rej = (code, msg, summary)" by (cases rej)
      obtain d' where "mark_failed env (hc_attempt_id cl) MINER_FAULT code msg summary d1 = Inr ((), d')"
        "settles (ms_id (g r)) (hc_attempt_number cl < ma) d1 d'" by (rule mark_failed_settles [OF held])
      then show ?thesis
        using claim' Some rej turn gr(2) by (auto simp: worker_turn_def take_claim_def run_tx_def sweep)
    qed
  qed
qed

lemma next_attempt_rows:
  assumes "map number_row (attempts d') = map number_row (attempts d) @ [(k, HIPPIUS, next_attempt_number k HIPPIUS d)]"
  shows "next_attempt_number i HIPPIUS d' =
    (if i = k then Suc (next_attempt_number k HIPPIUS d) else next_attempt_number i HIPPIUS d)"
  using next_number_snoc [of "attempt_numbers k HIPPIUS (attempts d)"]
  by (simp add: next_attempt_number_def attempt_numbers_rows assms [unfolded next_attempt_number_def attempt_numbers_rows])

text \<open>A turn that claims something takes one of the turns needed, and keeps what makes claims possible.\<close>

lemma takes_turn_progress:
  assumes "ledger d" "takes_turn ma r d d'"
  shows "turns_needed ma d' < turns_needed ma d"
proof -
  let ?n = "next_attempt_number (ms_id r) HIPPIUS d"
  obtain g where g: "r \<in> set (submissions d)" "waiting_state (ms_state r)"
    "submissions d' = update_where (\<lambda>s. ms_id s = ms_id r) g (submissions d)" "keeps_id g"
    "settled (ms_state (g r)) \<or> (?n < ma \<and> ms_state (g r) = HIPPIUS_RETRYABLE)"
    "map number_row (attempts d') = map number_row (attempts d) @ [(ms_id r, HIPPIUS, ?n)]"
    using assms(2) unfolding takes_turn_def Let_def by blast
  note numbers = next_attempt_rows [OF g(6)]
  have id: "ms_id (g r) = ms_id r" using g(4) by (simp add: keeps_id_def)
  have "turns_of ma d' (g r) < turns_of ma d r"
    using g(2,5) by (auto simp: turns_of_def numbers id turns_left_def settled_def waiting_state_def)
  moreover have "turns_of ma d' s = turns_of ma d s" if "ms_id s \<noteq> ms_id r" for s
    using that by (simp add: turns_of_def numbers)
  ultimately show ?thesis
    unfolding turns_needed_def g(3)
    by (intro sum_list_update_less [OF keys_below_distinct [OF ledgerD(2) [OF assms(1)]] g(1)])
qed

lemma takes_turn_claimable:
  assumes "takes_turn ma r d d'" "all_claimable d" "ledger d"
  shows "all_claimable d'"
proof -
  obtain g where g: "r \<in> set (submissions d)" "waiting_state (ms_state r)"
    "submissions d' = update_where (\<lambda>s. ms_id s = ms_id r) g (submissions d)"
    "\<And>s. ms_chain_commit_id (g s) = ms_chain_commit_id s \<and> ms_hotkey (g s) = ms_hotkey s"
    "miners d' = miners d" "commits d' = commits d" "ledger d'" "keeps_id g"
    using assms(1) unfolding takes_turn_def Let_def by blast
  have same: "find_commit c d' = find_commit c d" "coldkey_of h d' = coldkey_of h d" for c h
    by (simp_all add: find_commit_def coldkey_of_def find_miner_def g(5,6))
  show ?thesis
    unfolding all_claimable_def same
  proof (intro ballI impI)
    fix q assume q: "q \<in> set (submissions d')" "waiting_state (ms_state q)"
    have "ms_chain_commit_id q = ms_chain_commit_id r \<and> ms_hotkey q = ms_hotkey r" if "q = g r" using g(4) that by simp
    moreover have "q = g r \<or> q \<in> set (submissions d)"
      using q(1) updated_row [OF assms(3) g(1,3,8) q(1)] g(8)
      by (auto simp: g(3) keeps_id_def elim!: update_whereE)
    ultimately show "find_commit (ms_chain_commit_id q) d \<noteq> None \<and> coldkey_of (ms_hotkey q) d \<noteq> None"
      using assms(2) g(1,2) q(2) unfolding all_claimable_def by metis
  qed
qed

lemma claimable_waiting:
  assumes "all_claimable d" "\<forall>i. se_free env i" "hippius_claimable env d = []" "r \<in> set (submissions d)"
  shows "\<not> waiting_state (ms_state r)"
  using assms by (fastforce simp: all_claimable_def hippius_claimable_def waiting_state_def List.map_filter_def
      filter_empty_conv split: option.splits)

text \<open>The submissions met so far are still waiting, or settled.\<close>

definition served :: "db \<Rightarrow> db \<Rightarrow> bool" where
  "served d d' \<longleftrightarrow> (\<forall>r \<in> set (submissions d). waiting_state (ms_state r) \<or> settled (ms_state r) \<longrightarrow>
     (\<exists>r' \<in> set (submissions d'). ms_id r' = ms_id r \<and> (waiting_state (ms_state r') \<or> settled (ms_state r'))))"

lemma served_refl: "served d d"
  by (auto simp: served_def)

lemma served_trans: "served d d1 \<Longrightarrow> served d1 d2 \<Longrightarrow> served d d2"
  unfolding served_def by metis

lemma takes_turn_served:
  assumes "takes_turn ma r d d'"
  shows "served d d'"
proof -
  obtain g where g: "submissions d' = update_where (\<lambda>s. ms_id s = ms_id r) g (submissions d)" "keeps_id g"
    "\<And>s. settled (ms_state (g s)) \<or> ms_state (g s) = HIPPIUS_RETRYABLE"
    using assms unfolding takes_turn_def Let_def by blast
  have "\<exists>q' \<in> set (submissions d'). ms_id q' = ms_id q \<and> (waiting_state (ms_state q') \<or> settled (ms_state q'))"
    if "q \<in> set (submissions d)" "waiting_state (ms_state q) \<or> settled (ms_state q)" for q
    unfolding g(1)
    by (rule bexI [OF _ update_where_hit [OF that(1)]])
      (use that(2) g(2) g(3) [of q] in \<open>auto simp: keeps_id_def waiting_state_def\<close>)
  then show ?thesis by (simp add: served_def)
qed

text \<open>
  C5. The queue drains: from a ledger in order, nothing being validated, no commit to come, with every
  waiting submission claimable and no row locked by others, after as many turns as the waiting submissions have attempts left nobody waits,
  and each of them is validated or finally failed, whatever the checks say at each turn, whatever
  the database refuses, and in whatever order they come.
\<close>

theorem validation_queue_drains:
  assumes "ledger d" and "all_claimable d" and "at_rest netuid d" and "\<forall>(env, uri, judge) \<in> set ts. \<forall>i. se_free env i"
    and "turns_needed max_attempts d \<le> length ts"
  shows "(\<forall>r \<in> set (submissions (worker_turns netuid w lease max_attempts max_fails ts d)). \<not> waiting_state (ms_state r)) \<and>
    (\<forall>r \<in> set (submissions d). waiting_state (ms_state r) \<longrightarrow>
       (\<exists>r' \<in> set (submissions (worker_turns netuid w lease max_attempts max_fails ts d)).
          ms_id r' = ms_id r \<and> settled (ms_state r')))"
proof -
  let ?final = "worker_turns netuid w lease max_attempts max_fails ts d"
  have "(\<forall>r \<in> set (submissions ?final). \<not> waiting_state (ms_state r)) \<and> served d ?final"
    using assms
  proof (induction ts arbitrary: d)
    case Nil
    have "turns_of max_attempts d r = 0" if "r \<in> set (submissions d)" for r
      using Nil.prems(5) that by (auto simp: turns_needed_def)
    then have "\<not> waiting_state (ms_state r)" if "r \<in> set (submissions d)" for r
      using that by (force simp: turns_of_def turns_left_def split: if_splits)
    then show ?case by (simp add: served_refl)
  next
    case (Cons t ts)
    obtain env uri judge where t: "t = (env, uri, judge)" by (cases t)
    define d' where "d' = worker_turn netuid w lease max_attempts max_fails t d"
    from worker_turn_effect [OF Cons.prems(1,3), of env w lease max_attempts max_fails uri judge] show ?case
    proof
      assume "hippius_claimable env d = [] \<and> worker_turn netuid w lease max_attempts max_fails (env, uri, judge) d = d"
      then have "\<not> waiting_state (ms_state r)" if "r \<in> set (submissions d)" for r
        using claimable_waiting [OF Cons.prems(2) _ _ that, of env] Cons.prems(4) by (auto simp: t)
      then have "turns_needed max_attempts d = 0" by (simp add: turns_needed_def turns_of_def)
      then show ?thesis using Cons.IH [of d] Cons.prems
          \<open>hippius_claimable env d = [] \<and> worker_turn netuid w lease max_attempts max_fails (env, uri, judge) d = d\<close>
        by (simp add: t)
    next
      assume "\<exists>r. takes_turn max_attempts r d (worker_turn netuid w lease max_attempts max_fails (env, uri, judge) d)"
      then obtain r where turn: "takes_turn max_attempts r d d'" by (auto simp: d'_def t)
      have "ledger d'" using turn by (simp add: takes_turn_def)
      moreover note takes_turn_claimable [OF turn Cons.prems(2,1)] takes_turn_at_rest [OF turn Cons.prems(3)]
      moreover have "turns_needed max_attempts d' \<le> length ts"
        using takes_turn_progress [OF Cons.prems(1) turn] Cons.prems(5) by simp
      ultimately show ?thesis
        using Cons.IH [of d'] Cons.prems(4) served_trans [OF takes_turn_served [OF turn]]
        by (simp add: d'_def)
    qed
  qed
  then show ?thesis unfolding served_def by blast
qed

end
