(* ===== verification/ModelWitnesses.thy ===== *)
theory ModelWitnesses
  imports Witnesses ModelGate ValidationLoop
begin

text \<open>
  Concrete inputs at which the hypotheses of the properties of \<open>ModelChecks\<close>, \<open>Dedup\<close>, \<open>ModelGate\<close>
  and \<open>ValidationLoop\<close> hold: a file in two packs, a model that passes every check (SHA-256 stands for
  the identity, each file for its own hash), a bank that holds genesis, and a queue of one submission.
\<close>

section \<open>A file in two packs\<close>





section \<open>A bank and a candidate\<close>

definition sample_thresholds :: thresholds where
  "sample_thresholds = \<lparr>th_copy_rel = Dist (1 / 100000), th_linear_resid = 1 / 5, th_alpha_min = 1 / 50,
     th_f_noise = 1 / 10, th_embed_ratio_noise = 4 / 5, th_dens_min = 1 / 5, th_kurt_max = 100,
     th_rel_trivial = 1 / 400, th_lora_max_spikes = 40, th_lora_min_f = 9 / 10, th_head_scale_max = 1 / 50,
     th_global_scale_max = 1 / 200, th_reuse_cos = 4 / 5, th_topk_partners = 5, th_permuted_max_ident = 1 / 2\<rparr>"

definition sample_config :: gate_config where
  "sample_config = \<lparr>gc_enforce = True, gc_enforce_reasons = ''COPY,OWN-COPY'', gc_nearest_k = 10,
     gc_thresholds = sample_thresholds, gc_secret = ''0123456789abcdef0123456789abcdef'', gc_secret_file = []\<rparr>"

text \<open>Sketches that are one number each.\<close>

definition sample_signals :: "(rat, rat) signals" where
  "sample_signals = \<lparr>sg_rel_dist = \<lambda>a b. Dist \<bar>a - b\<bar>,
     sg_spectral = \<lambda>a b. \<lparr>sp_F = 1 / 2, sp_rel = 1, sp_rel_struct = 1, sp_touched = 3, sp_spikes_med = 1,
       sp_embed_ratio = 0, sp_head_scale = 1, sp_global_scale = 1, sp_by_type = JObj []\<rparr>,
     sg_stats = \<lambda>a b. \<lparr>ss_density = 1, ss_kurtosis = 0\<rparr>, sg_fit = \<lambda>a b ms. None,
     sg_delta = \<lambda>a b. a - b, sg_norm = abs, sg_cos = \<lambda>a b. 0, sg_ratio = \<lambda>a b. 1\<rparr>"

definition sample_print :: "string \<Rightarrow> string \<Rightarrow> rat \<Rightarrow> rat fingerprint" where
  "sample_print uri hash x = \<lparr>fp_model_uri = uri, fp_ws_version = ''w'', fp_key_id = ''k'', fp_arch_key = ''a'',
     fp_tensors_hash = hash, fp_identity_frac = [], fp_realigned = [], fp_vec = [x], fp_sketches = x\<rparr>"

definition genesis_doc :: "rat banked" where
  "genesis_doc = \<lparr>bd_doc = sample_print ''seed@0'' ''h0'' 0, bd_hotkey = ''hk0'', bd_coldkey = ''ck0'', bd_repo = ''seed'',
     bd_digest = ''0'', bd_status = BANK, bd_is_root = True, bd_verdict = None, bd_block = None\<rparr>"

definition surroundings_of :: "rat fingerprint \<Rightarrow> rat surroundings" where
  "surroundings_of doc = \<lparr>en_gpu = True, en_stat = \<lambda>_. None, en_fingerprint = \<lambda>_. Inr doc,
     en_l2 = \<lambda>a b. Dist \<bar>hd a - hd b\<bar>, en_down = \<lambda>_. None\<rparr>"

definition sample_submitter :: submitter where
  "sample_submitter = \<lparr>su_hotkey = ''hk1'', su_coldkey = ''ck1'', su_repo = ''m'', su_digest = ''1'', su_block = Some 7\<rparr>"

abbreviation fresh_model :: "rat fingerprint" where
  "fresh_model \<equiv> sample_print ''m@1'' ''h1'' 5"

theorem copies_stay_out_witness:
  "copies_claimed (bank_after [(sample_config, sample_signals, surroundings_of fresh_model, sample_submitter)] [genesis_doc])"
  using copies_stay_out [of "[genesis_doc]" "[(sample_config, sample_signals, surroundings_of fresh_model, sample_submitter)]"]
  by (simp add: copies_claimed_def sample_submitter_def)

section \<open>A model that passes every check\<close>

definition sample_tools :: tools where
  "sample_tools = \<lparr>to_sha256 = \<lambda>b. b,
     to_loads = \<lambda>_. Inr (JObj [(''chat_template'', JStr EXPECTED_CHAT_TEMPLATE_SHA256)]),
     to_renderer = \<lparr>text_of_message = \<lambda>_. ''m'', text_of_note = \<lambda>_. ''n''\<rparr>,
     to_seed_repo = ''seed'', to_shape_enforce = True\<rparr>"

definition sample_reader :: reader where
  "sample_reader f = (case map_of ((''chat_template.jinja'', EXPECTED_CHAT_TEMPLATE_SHA256) # GENESIS_SHA256) f of
     None \<Rightarrow> Inl ''absent'' | Some s \<Rightarrow> Inr s)"

definition sample_candidate :: candidate where
  "sample_candidate = \<lparr>ca_ref_error = None, ca_backend = ''hf'',
     ca_files = Inr (REQUIRED_FILES @ [''model.safetensors'']),
     ca_headers = Inr [(''model.safetensors'', [(''w'', JObj [(''dtype'', JStr ''BF16''), (''shape'', JList [JInt 2])])])],
     ca_config = Inr sample_reader,
     ca_download = Inr \<lparr>md_shards = [''model.safetensors''], md_index = None, md_tensors = \<lambda>_. Inr [''w'']\<rparr>,
     ca_seed = Inr [(''w'', [JInt 2])]\<rparr>"

lemma sample_preflight: "preflight sample_tools sample_candidate = Inr ()"
  by code_simp

lemma sample_downloaded: "downloaded_checks sample_tools sample_candidate = Inr ()"
  by code_simp

lemma sample_dedup:
  "fst (dedup_stage sample_tools sample_config sample_signals (surroundings_of fresh_model) sample_submitter [genesis_doc]) =
     Done (JObj [(''dedup'', JStr ''pass'')])"
  by code_simp

abbreviation sample_run ::
  "rat fingerprint \<Rightarrow> submitter \<Rightarrow> rat bank \<Rightarrow> (py_error + outcome) \<times> rat bank" where
  "sample_run doc \<equiv> process_model sample_tools sample_config sample_signals (surroundings_of doc) sample_candidate"

lemma sample_accepted:
  obtains ix' where "sample_run fresh_model sample_submitter [genesis_doc] =
    (Inr (Done (JObj [(''dedup'', JStr ''pass'')])), ix')"
proof -
  obtain ix' where "dedup_stage sample_tools sample_config sample_signals (surroundings_of fresh_model)
      sample_submitter [genesis_doc] = (Done (JObj [(''dedup'', JStr ''pass'')]), ix')"
    using sample_dedup by (metis prod.collapse)
  then show thesis by (intro that) (simp add: process_model_checked [OF sample_preflight sample_downloaded])
qed

theorem accepted_model_checks_out_witness:
  "\<exists>hs. ca_headers sample_candidate = Inr hs \<and> sixteen_bit hs \<and> seed_shaped sample_candidate hs"
proof -
  obtain ix' where "sample_run fresh_model sample_submitter [genesis_doc] =
    (Inr (Done (JObj [(''dedup'', JStr ''pass'')])), ix')" by (rule sample_accepted)
  from accepted_model_checks_out [OF this] show ?thesis by (auto simp: sample_tools_def)
qed

lemma sample_print_of: "fingerprint_of sample_config (surroundings_of doc) = Inr doc"
proof -
  have "load_secret (\<lambda>_. None) (gc_secret sample_config) (gc_secret_file sample_config) = Inr (gc_secret sample_config)"
    by code_simp
  then show ?thesis by (simp add: fingerprint_of_def surroundings_of_def)
qed

lemma sample_enforced:
  "gc_enforce sample_config" "''COPY'' \<in> set (enforced_reasons (gc_enforce_reasons sample_config))"
  "''OWN-COPY'' \<in> set (enforced_reasons (gc_enforce_reasons sample_config))"
  by code_simp+

theorem retried_model_is_own_copy_witness:
  "\<exists>ix' ix2 msg summary. sample_run fresh_model sample_submitter [genesis_doc] =
      (Inr (Done (JObj [(''dedup'', JStr ''pass'')])), ix') \<and>
    sample_run fresh_model sample_submitter ix' = (Inr (Rejected MINER_FAULT ''duplicate_own'' msg summary), ix2)"
proof -
  obtain ix' where run: "sample_run fresh_model sample_submitter [genesis_doc] =
    (Inr (Done (JObj [(''dedup'', JStr ''pass'')])), ix')" by (rule sample_accepted)
  have "list_all (\<lambda>b. uri_of b = fp_model_uri fresh_model \<longrightarrow> bd_status b = BANK)
     (snd (sample_run fresh_model sample_submitter [genesis_doc]))" by code_simp
  then have "\<forall>b \<in> set ix'. uri_of b = fp_model_uri fresh_model \<longrightarrow> bd_status b = BANK"
    by (simp add: run list_all_iff)
  from retried_model_is_own_copy [OF run this sample_print_of refl _ sample_enforced(1,3)]
  have "\<exists>msg summary ix2. sample_run fresh_model sample_submitter ix' =
      (Inr (Rejected MINER_FAULT ''duplicate_own'' msg summary), ix2)"
    by (auto simp: surroundings_of_def sample_submitter_def)
  with run show ?thesis by blast
qed

section \<open>A copy, and a queue\<close>

theorem copy_blocks_hotkey_witness:
  "\<exists>out ix' d'. sample_run (sample_print ''c@2'' ''h0'' 0) (submitter_of sample_claim ''ck1'') [genesis_doc] = (Inr out, ix') \<and>
    finalize sample_env 3 3 sample_claim JNull out validating = (Inr (), d') \<and>
    hotkey_duplicate_block_reason ''hk1'' d' \<noteq> None"
proof -
  let ?doc = "sample_print ''c@2'' ''h0'' 0"
  have up: "\<forall>c. en_down (surroundings_of ?doc) c = None" by (simp add: surroundings_of_def)
  have copied: "genesis_doc \<in> set [genesis_doc]" "bd_status genesis_doc = BANK" "same_hash ?doc genesis_doc"
    "before_block (su_block (submitter_of sample_claim ''ck1'')) genesis_doc"
    "\<not> own_of (ms_hotkey (hc_submission sample_claim)) ''ck1'' genesis_doc"
    by (simp_all add: genesis_doc_def same_hash_def sample_print_def before_block_def own_of_def sample_claim_def
        sample_sub_def split: option.split)
  have "ledger validating" by (simp add: validating_def sample_simps)
  moreover have "holds HIPPIUS (hc_attempt_id sample_claim) (ms_id (sample_sub 1 ''hk1'' HIPPIUS_RUNNING)) validating"
    "sample_sub 1 ''hk1'' HIPPIUS_RUNNING \<in> set (submissions validating)"
    "\<forall>q \<in> set (submissions validating). ms_fault_code q = Some ''duplicate'' \<longrightarrow> ms_fault_message q \<noteq> None"
    by (simp_all add: validating_def sample_claim_def sample_simps)
  ultimately show ?thesis
    using copy_blocks_hotkey [OF sample_preflight sample_downloaded sample_print_of up copied sample_enforced(1,2), of
        validating "sample_sub 1 ''hk1'' HIPPIUS_RUNNING" sample_signals sample_env 3 3 JNull]
    by (auto simp: sample_sub_def)
qed

definition sample_miner :: miner where
  "sample_miner = \<lparr>mi_id = 1, mi_hotkey = ''hk1'', mi_coldkey = Some ''ck1'', mi_uid = Some 1, mi_netuid = Some 1,
     mi_registration_block = None, mi_updated_at = 0\<rparr>"

definition queued :: db where
  "queued = (sample_db [sample_sub 1 ''hk1'' SUBMITTED] [])\<lparr>miners := [sample_miner]\<rparr>"

text \<open>The two attempts the limit allows, both retryable: the submission is finally failed.\<close>

theorem validation_queue_drains_witness:
  "\<exists>r' \<in> set (submissions (worker_turns 1 ''w'' 60 2 3
      (replicate 2 (sample_env, JNull, \<lambda>_. Retryable INFRA_FAULT ''busy'' ''no storage'')) queued)).
    ms_id r' = 1 \<and> settled (ms_state r')"
proof -
  let ?ts = "replicate 2 (sample_env, JNull, \<lambda>_ :: hippius_claim. Retryable INFRA_FAULT ''busy'' ''no storage'')"
  have rest: "ledger queued" "at_rest 1 queued" "all_claimable queued" "turns_needed 2 queued \<le> length ?ts"
    by (simp_all add: queued_def sample_miner_def sample_simps at_rest_def pending_commits_def all_claimable_def
        find_commit_def coldkey_of_def find_miner_def turns_needed_def turns_of_def turns_left_def waiting_state_def
        next_attempt_number_def attempt_numbers_def next_number_def)
  have "\<forall>(env, uri, judge) \<in> set ?ts. \<forall>i. se_free env i" by (simp add: sample_env_def)
  from validation_queue_drains [OF rest(1,3,2) this rest(4), of "''w''" 60 3]
  have "\<forall>r \<in> set (submissions queued). waiting_state (ms_state r) \<longrightarrow>
      (\<exists>r' \<in> set (submissions (worker_turns 1 ''w'' 60 2 3 ?ts queued)). ms_id r' = ms_id r \<and> settled (ms_state r'))" by blast
  then show ?thesis by (simp add: queued_def sample_db_def waiting_state_def sample_sub_def)
qed

end
