(* ===== verification/TurnText.thy ===== *)
theory TurnText
  imports Prelude
begin

text \<open>
  What the evaluation host reads in the text of a turn: the command a model issues
  (src/src/albedo_eval_service/shared/submit_protocol.py), whether the turn is usable and what the
  model is told when it is not (shared/observation_format.py), and whether a submission cats a patch
  that no command made (shared/patch_lint.py). The regular expressions are matchers on ASCII text: from
  the text at a position to the group and the text behind the match.
\<close>

section \<open>Matchers\<close>

type_synonym matcher = "string \<Rightarrow> (string \<times> string) option"

text \<open>\<open>(.*?)p\<close> under DOTALL, \<open>p\<close> a test that gives the text behind it.\<close>

fun lazily :: "(string \<Rightarrow> string option) \<Rightarrow> matcher" where
  "lazily p s = (case p s of Some r \<Rightarrow> Some ([], r)
     | None \<Rightarrow> (case s of [] \<Rightarrow> None | c # cs \<Rightarrow> map_option (\<lambda>(g, r). (c # g, r)) (lazily p cs)))"

declare lazily.simps [simp del]

definition literal :: "string \<Rightarrow> string \<Rightarrow> string option" where
  "literal p s = (if starts_with p s then Some (drop (length p) s) else None)"

definition literal_ci :: "string \<Rightarrow> string \<Rightarrow> string option" where
  "literal_ci p s = (if starts_with (lower p) (lower s) then Some (drop (length p) s) else None)"

fun first_of :: "('a \<Rightarrow> 'b option) \<Rightarrow> 'a list \<Rightarrow> 'b option" where
  "first_of f [] = None"
| "first_of f (x # xs) = (case f x of Some y \<Rightarrow> Some y | None \<Rightarrow> first_of f xs)"

text \<open>\<open>finditer\<close>: the groups of the matches, from the left, none overlapping.\<close>

function finditer :: "matcher \<Rightarrow> string \<Rightarrow> string list" where
  "finditer m [] = []"
| "finditer m (c # cs) = (case m (c # cs) of None \<Rightarrow> finditer m cs
     | Some (g, r) \<Rightarrow> g # finditer m (if length r \<le> length cs then r else cs))"
  by pat_completeness auto
termination by (relation "measure (\<lambda>(m, s). length s)") (auto split: if_splits)

text \<open>\<open>search\<close>: the position of the first match and its group.\<close>

fun search_from :: "matcher \<Rightarrow> nat \<Rightarrow> string \<Rightarrow> (nat \<times> string) option" where
  "search_from m i s = (case m s of Some (g, r) \<Rightarrow> Some (i, g)
     | None \<Rightarrow> (case s of [] \<Rightarrow> None | c # cs \<Rightarrow> search_from m (Suc i) cs))"

declare search_from.simps [simp del]

definition is_blank :: "char \<Rightarrow> bool" where
  "is_blank c \<longleftrightarrow> c = CHR '' '' \<or> c = CHR 0x09"

text \<open>\<open>[ \t]*\n\<close>, and \<open>\s*\n\<close> with the choices of its backtracking, the longest first.\<close>

definition blank_line :: "string \<Rightarrow> string list" where
  "blank_line s = (case dropWhile is_blank s of [] \<Rightarrow> [] | c # r \<Rightarrow> if c = CHR 0x0A then [r] else [])"

definition space_line :: "string \<Rightarrow> string list" where
  "space_line s = map (\<lambda>i. drop (Suc i) s)
     (filter (\<lambda>i. s ! i = CHR 0x0A) (rev [0..<length (takeWhile is_space s)]))"

definition ticks :: string where
  "ticks = [CHR 0x60, CHR 0x60, CHR 0x60]"

text \<open>A fence of a shell: three backticks, the language, an end of line, the body and what closes it.\<close>

definition shell_fence :: "(string \<Rightarrow> string list) \<Rightarrow> string \<Rightarrow> matcher" where
  "shell_fence eol close s = (case literal ticks s of None \<Rightarrow> None
     | Some r \<Rightarrow> first_of (\<lambda>lang. case literal_ci lang r of None \<Rightarrow> None
         | Some r' \<Rightarrow> first_of (lazily (literal close)) (eol r')) [''bash'', ''sh'', ''shell''])"

definition tag_char :: "char \<Rightarrow> bool" where
  "tag_char c \<longleftrightarrow> c = CHR ''_'' \<or> (let n = (of_char (lower_char c) :: nat) in 97 \<le> n \<and> n \<le> 122)"

text \<open>\<open><([a-z_]*bash[a-z_]*)>(.*?)</\1>\<close> without regard to case.\<close>

definition bash_tag :: matcher where
  "bash_tag s = (case s of [] \<Rightarrow> None | c # r \<Rightarrow>
     (let name = takeWhile tag_char r; behind = drop (length name) r
      in if c = CHR ''<'' \<and> str_contains ''bash'' (lower name) \<and> starts_with ''>'' behind
         then lazily (literal_ci (''</'' @ name @ ''>'')) (tl behind) else None))"

definition either_matcher :: "matcher \<Rightarrow> matcher \<Rightarrow> matcher" where
  "either_matcher m n s = (case m s of Some x \<Rightarrow> Some x | None \<Rightarrow> n s)"

section \<open>The command of a turn\<close>

definition bash_fence :: matcher where
  "bash_fence = shell_fence blank_line ticks"

definition first_bash_script :: "string \<Rightarrow> string" where
  "first_bash_script s = (case (search_from bash_fence 0 s, search_from bash_tag 0 s) of
     (Some (i, body), None) \<Rightarrow> body
   | (Some (i, body), Some (j, inner)) \<Rightarrow> if i \<le> j then body else inner
   | (None, Some (j, inner)) \<Rightarrow> inner
   | (None, None) \<Rightarrow> [])"

lemma comment_shorter:
  assumes "dropWhile is_blank s = c # r"
  shows "length (tl (dropWhile p r)) < length s"
proof -
  have "length (tl (dropWhile p r)) \<le> length r" using length_dropWhile_le [of p r] by simp
  moreover have "Suc (length r) \<le> length s" using length_dropWhile_le [of is_blank s] assms by simp
  ultimately show ?thesis by simp
qed

function leading_comments :: "string \<Rightarrow> string" where
  "leading_comments s = (case dropWhile is_blank s of [] \<Rightarrow> s | c # r \<Rightarrow>
     if c = CHR ''#'' then leading_comments (tl (dropWhile (\<lambda>x. x \<noteq> CHR 0x0A) r)) else s)"
  by pat_completeness auto
termination by (relation "measure length") (auto simp del: length_tl intro: comment_shorter)

declare leading_comments.simps [simp del]

definition strip_leading_comments :: "string \<Rightarrow> string" where
  "strip_leading_comments command =
     (let stripped = strip (leading_comments command) in if stripped = [] then strip command else stripped)"

definition first_bash_block :: "string \<Rightarrow> string" where
  "first_bash_block output =
     (let script = first_bash_script output in if script = [] then [] else strip_leading_comments script)"

section \<open>Usable turns\<close>

definition TRUNCATION_SENTINEL :: string where
  "TRUNCATION_SENTINEL = ''MODEL_RESPONSE_TOKEN_LIMIT_EXCEEDED''"

definition UNCLOSED_THINK_BLOCK_SENTINEL :: string where
  "UNCLOSED_THINK_BLOCK_SENTINEL = ''MODEL_UNCLOSED_THINK_BLOCK''"

definition ABANDONMENT_SENTINEL :: string where
  "ABANDONMENT_SENTINEL = ''CONSECUTIVE_BAD_TURNS_LIMIT_EXCEEDED''"

definition MAX_CONSECUTIVE_BAD_TURNS :: nat where
  "MAX_CONSECUTIVE_BAD_TURNS = 3"

definition truncation_notice :: "nat \<Rightarrow> string" where
  "truncation_notice token_limit = TRUNCATION_SENTINEL @ '': Model returned over '' @ show_nat token_limit @
     '' tokens in one response, stopping conversation.''"

definition is_truncated :: "string \<Rightarrow> bool" where
  "is_truncated s \<longleftrightarrow> str_contains TRUNCATION_SENTINEL s"

definition has_unclosed_think_block :: "string \<Rightarrow> bool" where
  "has_unclosed_think_block s \<longleftrightarrow> str_contains UNCLOSED_THINK_BLOCK_SENTINEL s"

definition action_fence :: matcher where
  "action_fence = either_matcher (shell_fence space_line ticks) bash_tag"

definition action_block :: matcher where
  "action_block = either_matcher bash_fence bash_tag"

text \<open>How many blocks \<open>action_blocks\<close> lists; only their number is used here.\<close>

definition action_count :: "string \<Rightarrow> nat" where
  "action_count s = length (finditer action_block s)"

definition unusable_turn :: "string \<Rightarrow> bool \<Rightarrow> string" where
  "unusable_turn s truncated =
     (if truncated \<or> is_truncated s then ''response exceeded the model response token limit''
      else if has_unclosed_think_block s then ''response contains an unclosed think block''
      else if strip s = [] then ''empty response''
      else if search_from action_fence 0 s = None then ''no bash command found in the response''
      else if 1 < action_count s then ''found '' @ show_nat (action_count s) @
        '' bash commands in the response, expected exactly one''
      else [])"

definition on_lines :: "string list \<Rightarrow> string" where
  "on_lines ls = concat (map (\<lambda>l. l @ [CHR 0x0A]) ls)"

definition TURN_LIMIT_FEEDBACK :: string where
  "TURN_LIMIT_FEEDBACK = ''Your previous response reached the output token limit before you produced a complete '' @
     ''action, so it was cut off. Respond more concisely and provide exactly one action in the '' @
     ''required format. If you need to think more, do so briefly.''"

definition TURN_FORMAT_FEEDBACK :: "string \<Rightarrow> string" where
  "TURN_FORMAT_FEEDBACK reason = on_lines [''Format error:'', '''', ''<error>'', reason, ''</error>'', '''',
     ''Please always provide EXACTLY ONE action in a '' @ ticks @ ''bash code block, as shown in <example>.'', '''',
     ''<example>'', ''THOUGHT: Here are some thoughts about why you want to perform the action.'', '''',
     ticks @ ''bash'', ''ls -la'', ticks, ''</example>'', ''''] @
     ''If you have completed your assignment, consult the first message about how to submit.''"

definition retry_feedback :: "string \<Rightarrow> string" where
  "retry_feedback reason =
     (if str_contains ''token limit'' reason then TURN_LIMIT_FEEDBACK else TURN_FORMAT_FEEDBACK reason)"

definition abandonment_notice :: "string \<Rightarrow> string" where
  "abandonment_notice reason = ABANDONMENT_SENTINEL @ '': turn unusable after '' @
     show_nat MAX_CONSECUTIVE_BAD_TURNS @ '' attempts ('' @ reason @
     ''); the benchmark abandons the instance here.''"

definition is_abandoned :: "string \<Rightarrow> bool" where
  "is_abandoned s \<longleftrightarrow> str_contains ABANDONMENT_SENTINEL s"

lemma contains_append: "str_contains p (p @ s)"
proof (cases "p @ s")
  case (Cons c cs)
  then show ?thesis using starts_with_append [of p s] by simp
qed simp

lemma notice_abandoned [simp]: "is_abandoned (abandonment_notice reason)"
  by (simp add: is_abandoned_def abandonment_notice_def contains_append)

lemma notice_truncated [simp]: "is_truncated (truncation_notice limit)"
  by (simp add: is_truncated_def truncation_notice_def contains_append)

lemma unusable_turn_Nil: "unusable_turn s truncated = [] \<longleftrightarrow>
    \<not> truncated \<and> \<not> is_truncated s \<and> \<not> has_unclosed_think_block s \<and> strip s \<noteq> [] \<and>
    search_from action_fence 0 s \<noteq> None \<and> action_count s \<le> 1"
  by (simp add: unusable_turn_def not_less)

section \<open>Formats of observations\<close>

datatype obs_format = RETURNCODE | SWE_AGENT | OPENHANDS

definition classify :: "string \<Rightarrow> obs_format" where
  "classify s = (let t = dropWhile is_space s in
     if starts_with ''<returncode>'' t then RETURNCODE
     else if starts_with ''OBSERVATION:'' t then SWE_AGENT else OPENHANDS)"

record message =
  m_role :: string
  m_content :: string

fun first_observation :: "bool \<Rightarrow> message list \<Rightarrow> string option" where
  "first_observation seen [] = None"
| "first_observation seen (m # ms) =
     (if lower (m_role m) = ''assistant'' then first_observation True ms
      else if lower (m_role m) \<in> {''user'', ''tool''} \<and> seen \<and> strip (m_content m) \<noteq> []
      then Some (m_content m) else first_observation seen ms)"

definition detect_format :: "string \<Rightarrow> message list \<Rightarrow> obs_format" where
  "detect_format sample_id ms = (case first_observation False ms of Some o' \<Rightarrow> classify o'
     | None \<Rightarrow> if str_contains ''mini-coder'' (lower sample_id) then RETURNCODE else OPENHANDS)"

definition wrap_plain :: "string \<Rightarrow> obs_format \<Rightarrow> nat \<Rightarrow> string" where
  "wrap_plain body fmt code = (case fmt of
     RETURNCODE \<Rightarrow> ''<returncode>'' @ show_nat code @ ''</returncode>'' @ [CHR 0x0A] @ ''<output>'' @ [CHR 0x0A] @
       (if body = [] then [] else body @ [CHR 0x0A]) @ ''</output>''
   | SWE_AGENT \<Rightarrow> if body = [] then ''OBSERVATION:'' else ''OBSERVATION:'' @ [CHR 0x0A] @ body
   | OPENHANDS \<Rightarrow> body @ [CHR 0x0A] @ ''[The command completed with exit code '' @ show_nat code @ ''.]'' @
       [CHR 0x0A] @ ''[Command finished with exit code '' @ show_nat code @ '']'')"

definition MISSING_COMMAND_MESSAGE :: string where
  "MISSING_COMMAND_MESSAGE = ''No bash command found in assistant message.''"

definition missing_command_output :: "obs_format \<Rightarrow> string" where
  "missing_command_output fmt = wrap_plain MISSING_COMMAND_MESSAGE fmt 2"

section \<open>Submissions\<close>

text \<open>
  The three regular expressions on the shape of a submitting command that are arguments of the model:
  the marker a command names, whether the command prints a marker first, and whether a command
  creates the file of a base name.
\<close>

record submit_rules =
  find_marker :: "string \<Rightarrow> string option"
  bench_submitted :: "string \<Rightarrow> string \<Rightarrow> bool"
  creates_file :: "string \<Rightarrow> string \<Rightarrow> bool"

definition block_re :: matcher where
  "block_re = shell_fence space_line (CHR 0x0A # ticks)"

definition mswea_re :: matcher where
  "mswea_re s = (case literal ''<mswea_bash_command>'' s of None \<Rightarrow> None
     | Some r \<Rightarrow> lazily (literal ''</mswea_bash_command>'') r)"

definition extract_commands :: "string \<Rightarrow> string list" where
  "extract_commands s = map strip (finditer block_re s @ finditer mswea_re s)"

definition issued_commands :: "message list \<Rightarrow> string list" where
  "issued_commands ms = concat (map (\<lambda>m. extract_commands (m_content m))
     (filter (\<lambda>m. m_role m = ''assistant'') ms))"

text \<open>\<open>command.split("&&")\<close>, and \<open>" && ".join\<close> of the rest searched for \<open>||\<close>, \<open>;\<close> or a newline.\<close>

function split_and :: "string \<Rightarrow> string list" where
  "split_and s = (case lazily (literal ''&&'') s of None \<Rightarrow> [s]
     | Some (g, r) \<Rightarrow> if length r < length s then g # split_and r else [s])"
  by pat_completeness auto
termination by (relation "measure length") auto

declare split_and.simps [simp del]

definition chained :: "string list \<Rightarrow> bool" where
  "chained segments \<longleftrightarrow> (\<exists>x \<in> set segments.
     str_contains ''||'' x \<or> str_contains '';'' x \<or> CHR 0x0A \<in> set x)"

fun blank_words :: "string \<Rightarrow> string \<Rightarrow> string list" where
  "blank_words w [] = (if w = [] then [] else [rev w])"
| "blank_words w (c # s) = (if is_space c then (if w = [] then [] else [rev w]) @ blank_words [] s
     else blank_words (c # w) s)"

definition is_patchlike :: "string \<Rightarrow> bool" where
  "is_patchlike path = (let base = after_last (CHR ''/'') path in
     str_contains ''patch'' base \<or> starts_with (rev ''.diff'') (rev base))"

text \<open>The patch a submission cats and what ran before its marker.\<close>

definition patch_wanted :: "submit_rules \<Rightarrow> string \<Rightarrow> (string \<times> string list) option" where
  "patch_wanted rules command = (case find_marker rules command of None \<Rightarrow> None
     | Some marker \<Rightarrow> if \<not> bench_submitted rules command marker then None else
       (let segments = map strip (split_and command);
          head = takeWhile (\<lambda>s. \<not> str_contains marker s) segments; rest = drop (Suc (length head)) segments
        in if rest = [] \<or> chained rest then None
           else case blank_words [] (hd rest) of
             [w, path] \<Rightarrow> if w = ''cat'' \<and> is_patchlike path then Some (path, head) else None
           | _ \<Rightarrow> None))"

definition missing_patch :: "submit_rules \<Rightarrow> string \<Rightarrow> string list \<Rightarrow> bool" where
  "missing_patch rules command earlier = (case patch_wanted rules command of None \<Rightarrow> False
     | Some (path, head) \<Rightarrow> \<not> list_ex (creates_file rules (after_last (CHR ''/'') path)) (earlier @ head))"

lemma missing_patch_more:
  "missing_patch rules command later \<Longrightarrow> set earlier \<subseteq> set later \<Longrightarrow> missing_patch rules command earlier"
  by (auto simp: missing_patch_def list_ex_iff split: option.splits)

end
