(* ===== verification/Trajectories.thy ===== *)
theory Trajectories
  imports TurnText "HOL-Library.Sublist"
begin

text \<open>
  How the evaluation host lets a model work on a sample, turn after turn, and what of it the judges
  are given: \<open>generation.py\<close>, \<open>_generate_retrying_bad_turns\<close>, \<open>_simulate_observations\<close>,
  \<open>_next_turn_samples\<close>, \<open>_merge_trajectory_results\<close> and the walk of one trajectory in
  src/src/albedo_eval_service/remote/worker.py. The model's server, the simulator of observations and
  the chat template are functions of what they are given.
\<close>

section \<open>Samples, results, turns\<close>

record eval_sample =
  es_id :: string
  es_prompt :: string
  es_target :: "string option"
  es_messages :: "message list option"
  es_marker :: string
  es_command :: string
  es_mode :: string
  es_shared :: nat

record turn = message +
  t_target :: bool
  t_truncated :: bool
  t_abandoned :: bool
  t_observed :: bool
  t_feedback :: bool

record gen_result =
  g_id :: string
  g_text :: string
  g_error :: "string option"
  g_turns :: "turn list option"
  g_truncated :: bool
  g_feedbacks :: "string list"

record obs_result =
  o_id :: string
  o_text :: string
  o_error :: "string option"

datatype side = Previous_king | Challenger

text \<open>The truth value of a nullable text.\<close>

definition given_text :: "string option \<Rightarrow> bool" where
  "given_text e \<longleftrightarrow> (case e of None \<Rightarrow> False | Some s \<Rightarrow> s \<noteq> [])"

lemma given_text_simps [simp]: "\<not> given_text None" "given_text (Some s) \<longleftrightarrow> s \<noteq> []"
  by (simp_all add: given_text_def)

definition new_result :: "string \<Rightarrow> string \<Rightarrow> string option \<Rightarrow> gen_result" where
  "new_result i s e = \<lparr>g_id = i, g_text = s, g_error = e, g_turns = None, g_truncated = False, g_feedbacks = []\<rparr>"

definition plain_turn :: "string \<Rightarrow> string \<Rightarrow> turn" where
  "plain_turn role s = \<lparr>m_role = role, m_content = s, t_target = False, t_truncated = False,
     t_abandoned = False, t_observed = False, t_feedback = False\<rparr>"

definition said :: "turn \<Rightarrow> message" where
  "said t = \<lparr>m_role = m_role t, m_content = m_content t\<rparr>"

abbreviation user_says :: "string \<Rightarrow> message" where
  "user_says s \<equiv> \<lparr>m_role = ''user'', m_content = s\<rparr>"

abbreviation assistant_says :: "string \<Rightarrow> message" where
  "assistant_says s \<equiv> \<lparr>m_role = ''assistant'', m_content = s\<rparr>"

section \<open>One request to the model server\<close>

datatype post_reply =
    Transport_lost string
  | Refused string
  | Completed "string option" string nat

definition CONTEXT_SAFETY_MARGIN_TOKENS :: int where
  "CONTEXT_SAFETY_MARGIN_TOKENS = 64"

text \<open>A lost transport is tried once more; whatever fails then is the error of the result.\<close>

definition read_reply :: "nat \<Rightarrow> eval_sample \<Rightarrow> post_reply \<Rightarrow> gen_result" where
  "read_reply max_new_tokens s reply = (case reply of
     Transport_lost e \<Rightarrow> new_result (es_id s) [] (Some e)
   | Refused e \<Rightarrow> new_result (es_id s) [] (Some e)
   | Completed answer reason tokens \<Rightarrow> (new_result (es_id s) (case answer of None \<Rightarrow> [] | Some t \<Rightarrow> t) None)
       \<lparr>g_truncated := reason = ''length'' \<and> max_new_tokens \<le> tokens\<rparr>)"

definition complete_sample ::
  "nat \<Rightarrow> nat \<Rightarrow> (string \<Rightarrow> nat) \<Rightarrow> (string \<Rightarrow> nat \<Rightarrow> post_reply) \<Rightarrow> eval_sample \<Rightarrow> gen_result" where
  "complete_sample max_model_len max_new_tokens tokens_of post s =
     (if max_model_len \<noteq> 0 \<and> int max_model_len - CONTEXT_SAFETY_MARGIN_TOKENS \<le> int (tokens_of (es_prompt s))
      then (new_result (es_id s) [] None)\<lparr>g_truncated := True\<rparr>
      else read_reply max_new_tokens s (case post (es_prompt s) 0 of
        Transport_lost _ \<Rightarrow> post (es_prompt s) 1 | reply \<Rightarrow> reply))"

text \<open>What the walk asks of a generator: one result per sample, with its id.\<close>

definition keeps_id :: "(eval_sample \<Rightarrow> gen_result) \<Rightarrow> bool" where
  "keeps_id gen \<longleftrightarrow> (\<forall>s. g_id (gen s) = es_id s)"

lemma complete_keeps_id: "keeps_id (complete_sample len new toks post)"
  by (simp add: keeps_id_def complete_sample_def read_reply_def new_result_def split: post_reply.splits)

section \<open>Asking again\<close>

record host = submit_rules +
  chat_prompt :: "message list \<Rightarrow> string"
  token_limit :: nat

definition base_messages :: "eval_sample \<Rightarrow> message list" where
  "base_messages s = (case es_messages s of None \<Rightarrow> [user_says (es_prompt s)]
     | Some ms \<Rightarrow> if ms = [] then [user_says (es_prompt s)] else ms)"

definition with_messages :: "host \<Rightarrow> eval_sample \<Rightarrow> message list \<Rightarrow> eval_sample" where
  "with_messages h s ms = s\<lparr>es_prompt := chat_prompt h ms, es_messages := Some ms\<rparr>"

definition with_retry_feedback :: "host \<Rightarrow> eval_sample \<Rightarrow> string list \<Rightarrow> eval_sample" where
  "with_retry_feedback h s fed = with_messages h s (base_messages s @ map user_says fed)"

definition sample_by_id :: "eval_sample list \<Rightarrow> string \<Rightarrow> eval_sample option" where
  "sample_by_id ss i = map_of (rev (map (\<lambda>s. (es_id s, s)) ss)) i"

definition result_by_id :: "gen_result list \<Rightarrow> string \<Rightarrow> gen_result option" where
  "result_by_id rs i = map_of (rev (map (\<lambda>r. (g_id r, r)) rs)) i"

type_synonym fed_back = "(string \<times> string list) list"

definition fed_to :: "fed_back \<Rightarrow> string \<Rightarrow> string list" where
  "fed_to d i = (case map_of d i of None \<Rightarrow> [] | Some fs \<Rightarrow> fs)"

definition to_redo :: "eval_sample list \<Rightarrow> gen_result list \<Rightarrow> (eval_sample \<times> string) list" where
  "to_redo samples results = List.map_filter (\<lambda>r. let reason = unusable_turn (g_text r) (g_truncated r) in
     if \<not> given_text (g_error r) \<and> reason \<noteq> [] then map_option (\<lambda>s. (s, reason)) (sample_by_id samples (g_id r))
     else None) results"

definition redo_one :: "host \<Rightarrow> eval_sample \<times> string \<Rightarrow> fed_back \<times> eval_sample list \<Rightarrow> fed_back \<times> eval_sample list" where
  "redo_one h x st = (case (x, st) of ((s, reason), (d, again)) \<Rightarrow>
     let fed = fed_to d (es_id s) @ [retry_feedback reason]
     in (dict_put (es_id s) fed d, again @ [with_retry_feedback h s fed]))"

fun retry_rounds :: "nat \<Rightarrow> host \<Rightarrow> (eval_sample \<Rightarrow> gen_result) \<Rightarrow> eval_sample list \<Rightarrow> gen_result list \<times> fed_back \<Rightarrow>
    gen_result list \<times> fed_back" where
  "retry_rounds 0 h gen samples st = st"
| "retry_rounds (Suc n) h gen samples (results, d) =
     (let redo = to_redo samples results in if redo = [] then (results, d) else
      let (d', again) = fold (redo_one h) redo (d, []); fresh = map gen again
      in retry_rounds n h gen samples (map (\<lambda>r. case result_by_id fresh (g_id r) of None \<Rightarrow> r | Some f \<Rightarrow> f) results, d'))"

definition settle_turn :: "eval_sample list \<Rightarrow> fed_back \<Rightarrow> gen_result \<Rightarrow> gen_result" where
  "settle_turn samples d r =
     (let r' = (if fed_to d (g_id r) = [] then r else r\<lparr>g_feedbacks := fed_to d (g_id r)\<rparr>);
        reason = unusable_turn (g_text r') False
      in if \<not> given_text (g_error r') \<and> \<not> g_truncated r' \<and> sample_by_id samples (g_id r') \<noteq> None \<and> reason \<noteq> []
         then r'\<lparr>g_text := abandonment_notice reason\<rparr> else r')"

definition generate_retrying :: "host \<Rightarrow> (eval_sample \<Rightarrow> gen_result) \<Rightarrow> eval_sample list \<Rightarrow> gen_result list" where
  "generate_retrying h gen samples =
     (case retry_rounds (MAX_CONSECUTIVE_BAD_TURNS - 1) h gen samples (map gen samples, []) of
        (results, d) \<Rightarrow> map (settle_turn samples d) results)"

section \<open>Observations\<close>

definition COMPLETE_MARKER :: string where
  "COMPLETE_MARKER = ''COMPLETE_TASK_AND_SUBMIT_FINAL_OUTPUT''"

definition marker_of :: "eval_sample \<Rightarrow> string" where
  "marker_of s = (if es_marker s = [] then COMPLETE_MARKER else es_marker s)"

definition submitted_after :: "host \<Rightarrow> eval_sample \<Rightarrow> string \<Rightarrow> message list \<Rightarrow> bool" where
  "submitted_after h s output history = (let command = first_bash_block output in
     bench_submitted h command (marker_of s) \<and>
     \<not> missing_patch (submit_rules.truncate h) command (issued_commands history))"

definition assistant_submitted :: "host \<Rightarrow> eval_sample \<Rightarrow> string \<Rightarrow> bool" where
  "assistant_submitted h s output = submitted_after h s output (base_messages s)"

definition messages_of :: "eval_sample \<Rightarrow> message list" where
  "messages_of s = (case es_messages s of None \<Rightarrow> [] | Some ms \<Rightarrow> ms)"

definition completion_observation :: "eval_sample \<Rightarrow> string" where
  "completion_observation s = wrap_plain (marker_of s) (detect_format (es_id s) (messages_of s)) 0"

definition missing_command_observation :: "eval_sample \<Rightarrow> string" where
  "missing_command_observation s = missing_command_output (detect_format (es_id s) (messages_of s))"

definition observed_text :: "string \<Rightarrow> string \<Rightarrow> obs_result" where
  "observed_text i s = \<lparr>o_id = i, o_text = s, o_error = None\<rparr>"

definition observed_error :: "string \<Rightarrow> string \<Rightarrow> obs_result" where
  "observed_error i e = \<lparr>o_id = i, o_text = [], o_error = Some e\<rparr>"

type_synonym observations = "((side \<times> string) \<times> obs_result) list"
type_synonym simulator = "eval_sample \<Rightarrow> string \<Rightarrow> string + string"

text \<open>What is known without the simulator; None for a command it has to run.\<close>

definition quick_observation :: "host \<Rightarrow> eval_sample option \<Rightarrow> gen_result \<Rightarrow> obs_result option" where
  "quick_observation h found r = (case found of
     None \<Rightarrow> Some (observed_error (g_id r) ''sample_missing_for_simulation'')
   | Some s \<Rightarrow>
       if given_text (g_error r) then Some \<lparr>o_id = g_id r, o_text = [], o_error = g_error r\<rparr>
       else if g_truncated r then Some (observed_text (g_id r) [])
       else if assistant_submitted h s (g_text r) then Some (observed_text (g_id r) (completion_observation s))
       else if first_bash_block (g_text r) = [] then Some (observed_text (g_id r) (missing_command_observation s))
       else None)"

definition simulate_observations :: "host \<Rightarrow> simulator \<Rightarrow>
    (side \<times> eval_sample list \<times> gen_result list) list \<Rightarrow> observations" where
  "simulate_observations h sim sides =
     (let all = concat (map (\<lambda>(side, samples, results). map (\<lambda>r. (side, sample_by_id samples (g_id r), r)) results) sides);
        quick = List.map_filter (\<lambda>(side, found, r). map_option (Pair (side, g_id r)) (quick_observation h found r)) all;
        simulated = List.map_filter (\<lambda>(side, found, r). case found of
            Some s \<Rightarrow> if quick_observation h found r = None then Some ((side, g_id r),
              case sim s (g_text r) of Inr answer \<Rightarrow> observed_text (g_id r) answer | Inl e \<Rightarrow> observed_error (g_id r) e)
              else None
          | None \<Rightarrow> None) all
      in foldl (\<lambda>d (k, ob). dict_put k ob d) [] (quick @ simulated))"

section \<open>The walk of a trajectory\<close>

definition ends_trajectory :: "host \<Rightarrow> eval_sample \<Rightarrow> gen_result \<Rightarrow> bool" where
  "ends_trajectory h s r \<longleftrightarrow> g_truncated r \<or> is_abandoned (g_text r) \<or> assistant_submitted h s (g_text r)"

definition next_messages :: "eval_sample \<Rightarrow> gen_result \<Rightarrow> obs_result \<Rightarrow> message list" where
  "next_messages s r ob = base_messages s @ map user_says (g_feedbacks r) @
     [assistant_says (g_text r), user_says (o_text ob)]"

definition next_sample :: "host \<Rightarrow> gen_result list \<Rightarrow> observations \<Rightarrow> side \<Rightarrow> eval_sample \<Rightarrow> eval_sample option" where
  "next_sample h results obs side s = (case (result_by_id results (es_id s), map_of obs (side, es_id s)) of
     (Some r, Some ob) \<Rightarrow>
       if given_text (g_error r) \<or> given_text (o_error ob) \<or> ends_trajectory h s r then None
       else Some (with_messages h s (next_messages s r ob))
   | _ \<Rightarrow> None)"

definition next_turn_samples :: "host \<Rightarrow> eval_sample list \<Rightarrow> gen_result list \<Rightarrow> observations \<Rightarrow> side \<Rightarrow> eval_sample list" where
  "next_turn_samples h samples results obs side = List.map_filter (next_sample h results obs side) samples"

text \<open>What the walk of one sample adds to the tables, a row for each turn: the result, and what was observed.\<close>

type_synonym trajectory = "(gen_result \<times> observations) list"

fun walk :: "nat \<Rightarrow> host \<Rightarrow> (eval_sample \<Rightarrow> gen_result) \<Rightarrow> simulator \<Rightarrow> side \<Rightarrow> eval_sample \<Rightarrow> trajectory" where
  "walk 0 h gen sim side s = []"
| "walk (Suc n) h gen sim side s =
     (let r = hd (generate_retrying h gen [s]) in
      if n = 0 then [(r, [])] else
      let obs = simulate_observations h sim [(side, [s], [r])]
      in (r, obs) # (case next_turn_samples h [s] [r] obs side of [] \<Rightarrow> [] | s' # _ \<Rightarrow> walk n h gen sim side s'))"

section \<open>What the judges are given\<close>

text \<open>The tables all trajectories of a side fill: row \<open>t\<close> has the results of turn \<open>t\<close>.\<close>

definition result_rows :: "nat \<Rightarrow> trajectory list \<Rightarrow> gen_result list list" where
  "result_rows turns ts = map (\<lambda>t. List.map_filter (\<lambda>tr. if t < length tr then Some (fst (tr ! t)) else None) ts) [0..<turns]"

definition observation_rows :: "nat \<Rightarrow> trajectory list \<Rightarrow> observations list" where
  "observation_rows turns ts = map (\<lambda>t. concat (map (\<lambda>tr. if t < length tr then snd (tr ! t) else []) ts)) [0..<turns]"

definition feedback_turn :: "string \<Rightarrow> turn" where
  "feedback_turn s = (plain_turn ''user'' s)\<lparr>t_feedback := True\<rparr>"

definition observation_turn :: "string \<Rightarrow> turn" where
  "observation_turn s = (plain_turn ''user'' s)\<lparr>t_observed := True\<rparr>"

definition answer_turn :: "string \<Rightarrow> turn" where
  "answer_turn s = (plain_turn ''assistant'' s)\<lparr>t_target := True\<rparr>"

fun merge_turns :: "host \<Rightarrow> side \<Rightarrow> eval_sample \<Rightarrow> nat \<Rightarrow> nat \<Rightarrow> gen_result option list \<Rightarrow> observations list \<Rightarrow>
    turn list \<Rightarrow> turn list \<times> string option \<times> bool" where
  "merge_turns h side s horizon i [] obs turns = (turns, None, False)"
| "merge_turns h side s horizon i (found # rest) obs turns = (case found of
     None \<Rightarrow> (turns, Some (''missing_generation_turn_'' @ show_nat (i + 1)), False)
   | Some r \<Rightarrow>
       if given_text (g_error r) then (turns, g_error r, False) else
       let fed = turns @ map feedback_turn (g_feedbacks r) in
       if g_truncated r then (fed @ [(answer_turn (truncation_notice (token_limit h)))\<lparr>t_truncated := True\<rparr>], None, True)
       else if is_abandoned (g_text r) then (fed @ [(answer_turn (g_text r))\<lparr>t_abandoned := True\<rparr>], None, False)
       else let answered = fed @ [answer_turn (g_text r)] in
       if horizon \<le> i + 1 then (answered, None, False)
       else if length obs \<le> i then merge_turns h side s horizon (i + 1) rest obs answered
       else case map_of (obs ! i) (side, es_id s) of
         None \<Rightarrow> (answered, Some (''missing_observation_turn_'' @ show_nat (i + 1)), False)
       | Some ob \<Rightarrow>
           if given_text (o_error ob) then (answered, o_error ob, False) else
           let shown = answered @ [observation_turn (o_text ob)] in
           if submitted_after h s (g_text r) (map said shown) then (shown, None, False)
           else merge_turns h side s horizon (i + 1) rest obs shown)"

definition context_turns :: "eval_sample \<Rightarrow> turn list" where
  "context_turns s = map (\<lambda>m. plain_turn (m_role m) (m_content m)) (base_messages s)"

definition rstrip :: "string \<Rightarrow> string" where
  "rstrip s = rev (dropWhile is_space (rev s))"

definition target_turn :: "turn \<Rightarrow> bool" where
  "target_turn t \<longleftrightarrow> m_role t = ''assistant'' \<and> t_target t"

definition turn_label :: "nat \<Rightarrow> turn \<Rightarrow> string" where
  "turn_label n t =
     (if target_turn t then ''CANDIDATE OUTPUT '' @ show_nat n
      else if m_role t = ''user'' \<and> t_observed t then ''ENVIRONMENT OBSERVATION (context only, do not score)''
      else if m_role t = [] then ''CONTEXT TURN (do not score)''
      else ''CONTEXT '' @ upper (m_role t) @ '' (do not score)'')"

fun turn_parts :: "nat \<Rightarrow> turn list \<Rightarrow> string list" where
  "turn_parts n [] = []"
| "turn_parts n (t # ts) = (let k = (if target_turn t then Suc n else n) in
     ([CHR 0x0A] @ turn_label k t @ '':'' @ [CHR 0x0A] @ ''------'' @ [CHR 0x0A] @ rstrip (m_content t) @ [CHR 0x0A] @ ''------'')
       # turn_parts k ts)"

fun line_joined :: "string list \<Rightarrow> string" where
  "line_joined [] = []"
| "line_joined [x] = x"
| "line_joined (x # xs) = x @ [CHR 0x0A] @ line_joined xs"

definition format_scored_trajectory :: "turn list \<Rightarrow> string" where
  "format_scored_trajectory turns = (let targets = length (filter target_turn turns);
     label = (if targets = 1 then ''CANDIDATE OUTPUT''
       else ''CANDIDATE OUTPUT 1 through CANDIDATE OUTPUT '' @ show_nat targets)
     in strip (line_joined ([''FULL CANDIDATE TRAJECTORY'',
       ''Score ONLY '' @ label @ ''. The ENVIRONMENT OBSERVATION is context only.''] @ turn_parts 0 turns)))"

definition scored_output :: "turn list \<Rightarrow> string" where
  "scored_output turns = format_scored_trajectory (filter (\<lambda>t. \<not> t_feedback t) turns)"

definition merge_sample :: "host \<Rightarrow> side \<Rightarrow> nat \<Rightarrow> gen_result list list \<Rightarrow> observations list \<Rightarrow> eval_sample \<Rightarrow> gen_result" where
  "merge_sample h side horizon results obs s =
     (case merge_turns h side s horizon 0 (map (\<lambda>rs. result_by_id rs (es_id s)) results) obs (context_turns s) of
        (turns, error, truncated) \<Rightarrow>
          if given_text error then new_result (es_id s) [] error
          else \<lparr>g_id = es_id s, g_text = scored_output turns, g_error = None, g_turns = Some turns,
            g_truncated = truncated, g_feedbacks = []\<rparr>)"

definition merge_trajectory_results :: "host \<Rightarrow> side \<Rightarrow> (string \<times> nat) list \<Rightarrow> gen_result list list \<Rightarrow>
    observations list \<Rightarrow> eval_sample list \<Rightarrow> gen_result list" where
  "merge_trajectory_results h side horizons results obs samples = map (\<lambda>s. merge_sample h side
     (case map_of horizons (es_id s) of None \<Rightarrow> length results | Some n \<Rightarrow> n) results obs s) samples"

end
