(* ===== verification/JudgedTurns.thy ===== *)
theory JudgedTurns
  imports Trajectories
begin

text \<open>
  What the judges read of a trajectory (theory Trajectories) is what the model was shown and said: the
  merged turns are set against the messages of the last request. And what one turn of a walk is,
  however often the model was asked.
\<close>

section \<open>One turn\<close>

text \<open>The attempts at one turn, written for one sample.\<close>

fun attempts :: "nat \<Rightarrow> host \<Rightarrow> (eval_sample \<Rightarrow> gen_result) \<Rightarrow> eval_sample \<Rightarrow> gen_result \<Rightarrow> string list \<Rightarrow>
    gen_result \<times> string list" where
  "attempts 0 h gen s r fed = (r, fed)"
| "attempts (Suc n) h gen s r fed = (let reason = unusable_turn (g_text r) (g_truncated r) in
     if given_text (g_error r) \<or> reason = [] then (r, fed) else
     let fed' = fed @ [retry_feedback reason] in attempts n h gen s (gen (with_retry_feedback h s fed')) fed')"

lemma with_messages_simps [simp]:
  "es_id (with_messages h s ms) = es_id s" "es_marker (with_messages h s ms) = es_marker s"
  "es_messages (with_messages h s ms) = Some ms" "es_id (with_retry_feedback h s fed) = es_id s"
  by (simp_all add: with_messages_def with_retry_feedback_def)

lemma by_id_single [simp]:
  "sample_by_id [s] i = (if i = es_id s then Some s else None)"
  "result_by_id [r] i = (if i = g_id r then Some r else None)"
  by (simp_all add: sample_by_id_def result_by_id_def)

lemma fed_to_put [simp]: "fed_to (dict_put k v d) i = (if i = k then v else fed_to d i)"
  by (simp add: fed_to_def map_of_dict_put)

lemma keeps_idD [simp]: "keeps_id gen \<Longrightarrow> g_id (gen s) = es_id s"
  by (simp add: keeps_id_def)

lemma to_redo_single: "to_redo [s] [r] =
    (if given_text (g_error r) \<or> unusable_turn (g_text r) (g_truncated r) = [] \<or> g_id r \<noteq> es_id s then []
     else [(s, unusable_turn (g_text r) (g_truncated r))])"
  by (simp add: to_redo_def List.map_filter_def Let_def)

lemma retry_rounds_single:
  assumes "keeps_id gen" "g_id r = es_id s"
  shows "\<exists>d'. retry_rounds n h gen [s] ([r], d) = ([fst (attempts n h gen s r (fed_to d (es_id s)))], d') \<and>
    fed_to d' (es_id s) = snd (attempts n h gen s r (fed_to d (es_id s)))"
  using assms(2)
proof (induction n arbitrary: r d)
  case (Suc n)
  let ?reason = "unusable_turn (g_text r) (g_truncated r)"
  let ?fed = "fed_to d (es_id s) @ [retry_feedback ?reason]"
  show ?case
  proof (cases "given_text (g_error r) \<or> ?reason = []")
    case False
    let ?r = "gen (with_retry_feedback h s ?fed)"
    have "retry_rounds (Suc n) h gen [s] ([r], d) = retry_rounds n h gen [s] ([?r], dict_put (es_id s) ?fed d)"
      using False Suc.prems assms(1) by (simp add: to_redo_single redo_one_def Let_def)
    moreover have "attempts (Suc n) h gen s r (fed_to d (es_id s)) = attempts n h gen s ?r ?fed"
      using False by (simp add: Let_def)
    ultimately show ?thesis
      using Suc.IH [of ?r "dict_put (es_id s) ?fed d"] assms(1) by simp
  qed (use Suc.prems in \<open>auto simp: to_redo_single Let_def\<close>)
qed auto

definition one_turn :: "host \<Rightarrow> (eval_sample \<Rightarrow> gen_result) \<Rightarrow> eval_sample \<Rightarrow> gen_result" where
  "one_turn h gen s = hd (generate_retrying h gen [s])"

lemma attempts_id: "keeps_id gen \<Longrightarrow> g_id r = es_id s \<Longrightarrow> g_id (fst (attempts n h gen s r fed)) = es_id s"
  by (induction n arbitrary: r fed) (simp_all add: Let_def)

lemma attempts_fed: "length (snd (attempts n h gen s r fed)) \<le> length fed + n"
proof (induction n arbitrary: r fed)
  case (Suc n)
  show ?case
    using Suc [of "gen (with_retry_feedback h s (fed @ [retry_feedback (unusable_turn (g_text r) (g_truncated r))]))"
      "fed @ [retry_feedback (unusable_turn (g_text r) (g_truncated r))]"]
    by (simp add: Let_def)
qed simp

lemma one_turn_settles:
  assumes "keeps_id gen"
  obtains d where "one_turn h gen s = settle_turn [s] d (fst (attempts 2 h gen s (gen s) []))"
    "fed_to d (es_id s) = snd (attempts 2 h gen s (gen s) [])"
proof -
  obtain d where d: "retry_rounds 2 h gen [s] ([gen s], []) = ([fst (attempts 2 h gen s (gen s) [])], d)"
    "fed_to d (es_id s) = snd (attempts 2 h gen s (gen s) [])"
    using retry_rounds_single [OF assms, of "gen s" s 2 h "[]"] assms by (auto simp: fed_to_def)
  have "one_turn h gen s = settle_turn [s] d (fst (attempts 2 h gen s (gen s) []))"
    by (simp add: one_turn_def generate_retrying_def MAX_CONSECUTIVE_BAD_TURNS_def d(1))
  with d(2) show ?thesis by (rule that [rotated])
qed

lemma settle_turn_simps [simp]:
  "g_id (settle_turn ss d r) = g_id r" "g_error (settle_turn ss d r) = g_error r"
  "g_truncated (settle_turn ss d r) = g_truncated r"
  by (simp_all add: settle_turn_def Let_def)

lemma one_turn_id [simp]:
  assumes "keeps_id gen"
  shows "g_id (one_turn h gen s) = es_id s"
  by (rule one_turn_settles [OF assms, of h s]) (simp add: attempts_id assms)

lemma generate_retrying_single:
  assumes "keeps_id gen"
  shows "generate_retrying h gen [s] = [one_turn h gen s]"
proof -
  obtain d where d: "retry_rounds 2 h gen [s] ([gen s], []) = ([fst (attempts 2 h gen s (gen s) [])], d)"
    using retry_rounds_single [OF assms, of "gen s" s 2 h "[]"] assms by (auto simp: fed_to_def)
  show ?thesis by (simp add: one_turn_def generate_retrying_def MAX_CONSECUTIVE_BAD_TURNS_def d)
qed

text \<open>
  The feedback on a turn is that of at most two bad attempts, and the turn is an error, cut off at the
  token limit, marked as abandoned, or usable.
\<close>

lemma one_turn_feedbacks:
  assumes "keeps_id gen" "\<And>s. g_feedbacks (gen s) = []"
  shows "length (g_feedbacks (one_turn h gen s)) \<le> 2"
proof -
  have none: "g_feedbacks r = [] \<Longrightarrow> g_feedbacks (fst (attempts n h gen s r fed)) = []" for n r fed
    by (induction n arbitrary: r fed) (simp_all add: assms Let_def)
  show ?thesis
    by (rule one_turn_settles [OF assms(1), of h s])
      (use attempts_fed [of 2 h gen s "gen s" "[]"] none [OF assms(2) [of s]] assms(1) in \<open>simp add: settle_turn_def Let_def attempts_id\<close>)
qed

lemma one_turn_usable:
  fixes h gen s
  defines "r \<equiv> one_turn h gen s"
  assumes "keeps_id gen"
  shows "given_text (g_error r) \<or> g_truncated r \<or> is_abandoned (g_text r) \<or> unusable_turn (g_text r) False = []"
proof -
  obtain d where "r = settle_turn [s] d (fst (attempts 2 h gen s (gen s) []))"
    unfolding r_def by (rule one_turn_settles [OF assms(2), of h s])
  moreover have "g_id (fst (attempts 2 h gen s (gen s) [])) = es_id s" by (simp add: attempts_id assms(2))
  ultimately show ?thesis by (simp add: settle_turn_def Let_def)
qed

section \<open>The last request\<close>

text \<open>The sample of the last request of a walk, its result, and what was observed after it.\<close>

fun last_turn :: "nat \<Rightarrow> host \<Rightarrow> (eval_sample \<Rightarrow> gen_result) \<Rightarrow> simulator \<Rightarrow> side \<Rightarrow> eval_sample \<Rightarrow>
    eval_sample \<times> gen_result \<times> observations" where
  "last_turn 0 h gen sim side s = (s, one_turn h gen s, [])"
| "last_turn (Suc n) h gen sim side s =
     (let r = one_turn h gen s; obs = simulate_observations h sim [(side, [s], [r])] in
      if n = 0 then (s, r, [])
      else case next_turn_samples h [s] [r] obs side of
        [] \<Rightarrow> (s, r, obs) | s' # _ \<Rightarrow> last_turn n h gen sim side s')"

text \<open>Its messages, the feedback on its bad attempts, the answer, and the observation it got.\<close>

definition conversation :: "host \<Rightarrow> side \<Rightarrow> eval_sample \<times> gen_result \<times> observations \<Rightarrow> message list" where
  "conversation h side x = (case x of (s, r, obs) \<Rightarrow>
     base_messages s @ map user_says (g_feedbacks r) @
     [assistant_says (if g_truncated r then truncation_notice (token_limit h) else g_text r)] @
     (if g_truncated r \<or> is_abandoned (g_text r) then [] else
      case map_of obs (side, es_id s) of None \<Rightarrow> [] | Some ob \<Rightarrow> [user_says (o_text ob)]))"

definition turn_failed :: "side \<Rightarrow> eval_sample \<times> gen_result \<times> observations \<Rightarrow> bool" where
  "turn_failed side x \<longleftrightarrow> (case x of (s, r, obs) \<Rightarrow> given_text (g_error r) \<or>
     (\<not> g_truncated r \<and> \<not> is_abandoned (g_text r) \<and>
      (case map_of obs (side, es_id s) of None \<Rightarrow> False | Some ob \<Rightarrow> given_text (o_error ob))))"

lemma simulate_single:
  assumes "g_id r = es_id s"
  shows "\<exists>ob. simulate_observations h sim [(side, [s], [r])] = [((side, es_id s), ob)]"
  using assms by (auto simp: simulate_observations_def List.map_filter_def Let_def quick_observation_def
    split: sum.splits option.splits)

lemma next_turn_single:
  assumes "g_id r = es_id s" "simulate_observations h sim [(side, [s], [r])] = [((side, es_id s), ob)]"
  shows "next_turn_samples h [s] [r] (simulate_observations h sim [(side, [s], [r])]) side =
    (if given_text (g_error r) \<or> given_text (o_error ob) \<or> ends_trajectory h s r then []
     else [with_messages h s (next_messages s r ob)])"
  using assms(1) by (simp add: assms(2) next_turn_samples_def next_sample_def List.map_filter_def)

lemma base_with_messages [simp]: "ms \<noteq> [] \<Longrightarrow> base_messages (with_messages h s ms) = ms"
  by (simp add: base_messages_def)

lemma submitted_more:
  assumes "submitted_after h s output history" "es_marker s' = es_marker s"
  shows "submitted_after h s' output (history @ later)"
  using assms missing_patch_more [of "submit_rules.truncate h" "first_bash_block output"
      "issued_commands (history @ later)" "issued_commands history"]
  by (auto simp: submitted_after_def Let_def marker_of_def issued_commands_def)

section \<open>Merging a walk\<close>

lemma said_simps [simp]:
  "map said (map feedback_turn fs) = map user_says fs" "said (observation_turn x) = user_says x"
  "said (answer_turn x) = assistant_says x" "said ((answer_turn x)\<lparr>t_truncated := b\<rparr>) = assistant_says x"
  "said ((answer_turn x)\<lparr>t_abandoned := b\<rparr>) = assistant_says x" "said (plain_turn role x) = \<lparr>m_role = role, m_content = x\<rparr>"
  by (simp_all add: said_def feedback_turn_def observation_turn_def answer_turn_def plain_turn_def)

lemma said_feedbacks [simp]: "map (said \<circ> feedback_turn) fs = map user_says fs"
  using said_simps(1) [of fs] by simp

text \<open>A walk is its first turn and the walk from the sample that follows.\<close>

lemma walk_Suc:
  assumes "keeps_id gen"
  shows "walk (Suc n) h gen sim side s = (let r = one_turn h gen s in
      if n = 0 then [(r, [])] else
      let obs = simulate_observations h sim [(side, [s], [r])]
      in (r, obs) # (case next_turn_samples h [s] [r] obs side of [] \<Rightarrow> [] | s' # _ \<Rightarrow> walk n h gen sim side s'))"
  by (simp add: Let_def one_turn_def)

declare walk.simps(2) [simp del]

lemma walk_nonempty: "0 < n \<Longrightarrow> walk n h gen sim side s \<noteq> []"
  by (cases n) (simp_all add: walk.simps(2) Let_def)

text \<open>The rows as the merge of one sample reads them, from turn \<open>i\<close> on.\<close>

definition reads :: "trajectory \<Rightarrow> side \<Rightarrow> string \<Rightarrow> nat \<Rightarrow> gen_result option list \<Rightarrow> observations list \<Rightarrow> bool" where
  "reads tr side key i found obs \<longleftrightarrow> length obs = i + length found \<and> length tr \<le> length found \<and>
     (\<forall>t < length found. found ! t = (if t < length tr then Some (fst (tr ! t)) else None) \<and>
        map_of (obs ! (i + t)) (side, key) = (if t < length tr then map_of (snd (tr ! t)) (side, key) else None))"

lemma reads_Cons:
  assumes "reads ((r, ob) # tr) side key i found obs"
  obtains rest where "found = Some r # rest" "reads tr side key (Suc i) rest obs"
    "map_of (obs ! i) (side, key) = map_of ob (side, key)" "i < length obs"
proof -
  obtain x rest where f: "found = x # rest" using assms by (cases found) (auto simp: reads_def)
  have x: "x = Some r" "map_of (obs ! i) (side, key) = map_of ob (side, key)"
    using assms [unfolded reads_def f] by (auto dest: spec [of _ 0])
  have "reads tr side key (Suc i) rest obs"
    unfolding reads_def
  proof (intro conjI allI impI)
    fix t assume "t < length rest"
    then show "rest ! t = (if t < length tr then Some (fst (tr ! t)) else None)"
      "map_of (obs ! (Suc i + t)) (side, key) = (if t < length tr then map_of (snd (tr ! t)) (side, key) else None)"
      using assms [unfolded reads_def f] by (auto dest: spec [of _ "Suc t"])
  qed (use assms in \<open>auto simp: reads_def f\<close>)
  with f x assms show ?thesis by (intro that) (auto simp: reads_def)
qed

text \<open>No turn before the last prints the marker.\<close>

definition no_early_marker :: "host \<Rightarrow> eval_sample \<Rightarrow> trajectory \<Rightarrow> bool" where
  "no_early_marker h s tr \<longleftrightarrow>
     (\<forall>x \<in> set (butlast tr). \<not> bench_submitted h (first_bash_block (g_text (fst x))) (marker_of s))"

lemma conversation_grows:
  assumes "keeps_id gen"
  shows "prefix (base_messages s) (conversation h side (last_turn n h gen sim side s))"
proof (induction n arbitrary: s)
  case (Suc n)
  let ?r = "one_turn h gen s"
  obtain ob where ob: "simulate_observations h sim [(side, [s], [?r])] = [((side, es_id s), ob)]"
    using simulate_single [of ?r s h sim side] assms by auto
  note step = next_turn_single [of ?r s, OF one_turn_id [OF assms] ob, unfolded ob]
  have "prefix (base_messages s) (next_messages s ?r ob)" by (simp add: next_messages_def)
  also have "prefix (next_messages s ?r ob) (conversation h side (last_turn n h gen sim side (with_messages h s (next_messages s ?r ob))))"
    using Suc.IH [of "with_messages h s (next_messages s ?r ob)"] by (simp add: next_messages_def)
  finally show ?case by (simp add: Let_def ob step) (simp add: conversation_def)
qed (simp add: conversation_def)

lemma merge_walk:
  assumes gen: "keeps_id gen"
  shows "0 < n \<Longrightarrow> reads (walk n h gen sim side s) side (es_id s0) i found obs \<Longrightarrow> es_id s = es_id s0 \<Longrightarrow>
    es_marker s = es_marker s0 \<Longrightarrow> map said turns = base_messages s \<Longrightarrow>
    merge_turns h side s0 (i + n) i found obs turns = (turns', err, trunc) \<Longrightarrow>
    (given_text err \<longrightarrow> turn_failed side (last_turn n h gen sim side s)) \<and>
    (\<not> given_text err \<longrightarrow> prefix (map said turns') (conversation h side (last_turn n h gen sim side s))) \<and>
    (no_early_marker h s0 (walk n h gen sim side s) \<longrightarrow> given_text err = turn_failed side (last_turn n h gen sim side s) \<and>
      (\<not> given_text err \<longrightarrow> map said turns' = conversation h side (last_turn n h gen sim side s)))"
proof (induction n arbitrary: s i found turns)
  case (Suc n)
  let ?r = "one_turn h gen s"
  have rid: "g_id ?r = es_id s" by (rule one_turn_id [OF gen])
  obtain ob where ob: "simulate_observations h sim [(side, [s], [?r])] = [((side, es_id s), ob)]"
    using simulate_single [of ?r s h sim side] rid by auto
  note step = next_turn_single [of ?r s, OF rid ob, unfolded ob]
  let ?x = "last_turn (Suc n) h gen sim side s"
  note walk = walk_Suc [OF gen, of n h sim side s, unfolded Let_def ob step]
  show ?case
  proof (cases "n = 0")
    case True
    have one: "walk (Suc n) h gen sim side s = [(?r, [])]" by (simp add: True walk_Suc [OF gen] Let_def)
    from Suc.prems(2) [unfolded one] obtain rest where found: "found = Some ?r # rest" by (rule reads_Cons)
    show ?thesis using Suc.prems(5,6)
      by (auto simp: True found conversation_def turn_failed_def Let_def split: if_splits)
  next
    case False
    define s' where "s' = with_messages h s (next_messages s ?r ob)"
    define go where "go \<longleftrightarrow> \<not> (given_text (g_error ?r) \<or> given_text (o_error ob) \<or> ends_trajectory h s ?r)"
    have walk': "walk (Suc n) h gen sim side s = (?r, [((side, es_id s), ob)]) # (if go then walk n h gen sim side s' else [])"
      using False by (simp add: walk go_def s'_def)
    have last': "?x = (if go then last_turn n h gen sim side s' else (s, ?r, [((side, es_id s), ob)]))"
      using False by (simp add: Let_def ob step go_def s'_def)
    from Suc.prems(2) [unfolded walk'] obtain rest where found: "found = Some ?r # rest"
      and rest: "reads (if go then walk n h gen sim side s' else []) side (es_id s0) (Suc i) rest obs"
      and seen: "map_of (obs ! i) (side, es_id s0) = Some ob" and len: "i < length obs"
      using Suc.prems(3) by (auto elim: reads_Cons)
    define shown where "shown = turns @ map feedback_turn (g_feedbacks ?r) @ [answer_turn (g_text ?r), observation_turn (o_text ob)]"
    have said: "map said shown = base_messages s @ map user_says (g_feedbacks ?r) @ [assistant_says (g_text ?r), user_says (o_text ob)]"
      by (simp add: shown_def Suc.prems(5))
    have go_on: "?thesis" if "go" "\<not> submitted_after h s0 (g_text ?r) (map said shown)"
    proof -
      have m: "merge_turns h side s0 (Suc i + n) (Suc i) rest obs shown = (turns', err, trunc)"
        using Suc.prems(6) that False len seen
        by (simp add: found go_def ends_trajectory_def shown_def Let_def split: if_splits)
      have base: "map said shown = base_messages s'" using said by (simp add: s'_def next_messages_def)
      have early: "no_early_marker h s0 (walk (Suc n) h gen sim side s) \<Longrightarrow> no_early_marker h s0 (walk n h gen sim side s')"
        using that(1) False by (simp add: walk' no_early_marker_def walk_nonempty)
      show ?thesis
        using Suc.IH [OF _ _ _ _ base m] False rest that(1) Suc.prems(3,4) early by (simp add: last' s'_def del: last_turn.simps)
    qed
    have stop_early: "?thesis" if "go" "submitted_after h s0 (g_text ?r) (map said shown)"
    proof -
      have m: "turns' = shown" "err = None"
        using Suc.prems(6) that False len seen
        by (simp_all add: found go_def ends_trajectory_def shown_def Let_def split: if_splits)
      have "map said shown = base_messages s'" using said by (simp add: s'_def next_messages_def)
      then have "prefix (map said turns') (conversation h side ?x)"
        using conversation_grows [OF gen, of s' h side n sim] that(1) by (simp add: m last' del: last_turn.simps)
      moreover have "\<not> no_early_marker h s0 (walk (Suc n) h gen sim side s)"
        using that False by (simp add: walk' no_early_marker_def walk_nonempty submitted_after_def Let_def)
      ultimately show ?thesis by (simp add: m del: last_turn.simps)
    qed
    have stop: "?thesis" if ended: "\<not> go"
    proof -
      have sub: "submitted_after h s0 (g_text ?r) (map said shown)" if "assistant_submitted h s (g_text ?r)"
        using submitted_more [of h s "g_text ?r" "base_messages s" s0] that Suc.prems(4)
        by (simp add: assistant_submitted_def said)
      have x: "?x = (s, ?r, [((side, es_id s), ob)])" using that by (simp only: last' if_False)
      note parts = x turn_failed_def conversation_def found shown_def [symmetric] Let_def
      consider "given_text (g_error ?r)" | "\<not> given_text (g_error ?r)" "g_truncated ?r"
        | "\<not> given_text (g_error ?r)" "\<not> g_truncated ?r" "is_abandoned (g_text ?r)"
        | "\<not> given_text (g_error ?r)" "\<not> g_truncated ?r" "\<not> is_abandoned (g_text ?r)" "given_text (o_error ob)"
        | "\<not> given_text (g_error ?r)" "\<not> g_truncated ?r" "\<not> is_abandoned (g_text ?r)" "\<not> given_text (o_error ob)"
          "assistant_submitted h s (g_text ?r)"
        using ended by (auto simp: go_def ends_trajectory_def)
      then show ?thesis
      proof cases
        case 5
        then have "turns' = shown" "err = None"
          using Suc.prems(6) False len seen sub by (simp_all add: found shown_def Let_def)
        with 5 show ?thesis by (simp add: x turn_failed_def conversation_def said del: last_turn.simps)
      qed (use Suc.prems(5,6) False len seen in \<open>auto simp: parts simp del: last_turn.simps\<close>)
    qed
    from go_on stop_early stop show ?thesis by blast
  qed
qed simp

section \<open>The tables of a side\<close>

text \<open>A trajectory of another sample leaves no row under this one's id.\<close>

definition apart :: "side \<Rightarrow> string \<Rightarrow> trajectory \<Rightarrow> bool" where
  "apart side key tr \<longleftrightarrow> (\<forall>x \<in> set tr. g_id (fst x) \<noteq> key \<and> (side, key) \<notin> fst ` set (snd x))"

definition own_rows :: "side \<Rightarrow> string \<Rightarrow> trajectory \<Rightarrow> bool" where
  "own_rows side key tr \<longleftrightarrow> (\<forall>x \<in> set tr. g_id (fst x) = key)"

lemma walk_own:
  assumes "keeps_id gen"
  shows "own_rows side (es_id s) (walk n h gen sim side s) \<and> length (walk n h gen sim side s) \<le> n \<and>
    (\<forall>x \<in> set (walk n h gen sim side s). fst ` set (snd x) \<subseteq> {(side, es_id s)})"
proof (induction n arbitrary: s)
  case (Suc n)
  let ?r = "one_turn h gen s"
  obtain ob where ob: "simulate_observations h sim [(side, [s], [?r])] = [((side, es_id s), ob)]"
    using simulate_single [of ?r s h sim side] assms by auto
  note step = next_turn_single [of ?r s, OF one_turn_id [OF assms] ob, unfolded ob]
  define tail where "tail = (if n = 0 \<or> given_text (g_error ?r) \<or> given_text (o_error ob) \<or> ends_trajectory h s ?r then []
      else walk n h gen sim side (with_messages h s (next_messages s ?r ob)))"
  have walk: "walk (Suc n) h gen sim side s = (?r, if n = 0 then [] else [((side, es_id s), ob)]) # tail"
    by (simp add: walk_Suc [OF assms] Let_def ob step tail_def)
  have "own_rows side (es_id s) tail" "length tail \<le> n" "\<forall>x \<in> set tail. fst ` set (snd x) \<subseteq> {(side, es_id s)}"
    using Suc.IH [of "with_messages h s (next_messages s ?r ob)"] by (simp_all add: tail_def own_rows_def)
  then show ?case using assms by (simp add: walk own_rows_def)
qed (simp add: own_rows_def)

lemma walk_apart:
  assumes "keeps_id gen" "es_id s \<noteq> key"
  shows "apart side key (walk n h gen sim side s)"
  using walk_own [OF assms(1), of side s n h sim] assms(2) by (fastforce simp: apart_def own_rows_def)

lemma map_filter_append: "List.map_filter f (xs @ ys) = List.map_filter f xs @ List.map_filter f ys"
  by (simp add: List.map_filter_def)

lemma result_by_id_append:
  "result_by_id (xs @ ys) i = (case result_by_id ys i of None \<Rightarrow> result_by_id xs i | Some r \<Rightarrow> Some r)"
  unfolding result_by_id_def by (simp add: map_add_def)

lemma result_by_id_Nil [simp]: "result_by_id [] i = None"
  by (simp add: result_by_id_def)

lemma result_by_id_Cons:
  "result_by_id (r # rs) i = (case result_by_id rs i of None \<Rightarrow> if i = g_id r then Some r else None | Some x \<Rightarrow> Some x)"
  using result_by_id_append [of "[r]" rs i] by (simp split: option.split)

lemma result_by_id_None: "\<forall>r \<in> set rs. g_id r \<noteq> i \<Longrightarrow> result_by_id rs i = None"
  by (auto simp: result_by_id_def map_of_eq_None_iff)

lemma apart_results:
  assumes "\<forall>tr \<in> set ts. apart side key tr"
  shows "result_by_id (List.map_filter (\<lambda>tr. if t < length tr then Some (fst (tr ! t)) else None) ts) key = None"
  using assms by (intro result_by_id_None) (fastforce simp: apart_def in_map_filter split: if_splits)

lemma apart_observations:
  assumes "\<forall>tr \<in> set ts. apart side key tr"
  shows "map_of (concat (map (\<lambda>tr. if t < length tr then snd (tr ! t) else []) ts)) (side, key) = None"
  using assms by (force simp: apart_def map_of_eq_None_iff split: if_splits)

lemma reads_rows:
  assumes "own_rows side key tr" "length tr \<le> turns" "\<forall>x \<in> set us \<union> set vs. apart side key x"
  shows "reads tr side key 0 (map (\<lambda>rs. result_by_id rs key) (result_rows turns (us @ tr # vs)))
    (observation_rows turns (us @ tr # vs))"
proof -
  have none: "result_by_id (List.map_filter (\<lambda>tr. if t < length tr then Some (fst (tr ! t)) else None) us) key = None"
    "result_by_id (List.map_filter (\<lambda>tr. if t < length tr then Some (fst (tr ! t)) else None) vs) key = None" for t
    using assms(3) by (auto intro: apart_results [of _ side])
  have res: "result_by_id (List.map_filter (\<lambda>tr. if t < length tr then Some (fst (tr ! t)) else None) (us @ tr # vs)) key =
      (if t < length tr then Some (fst (tr ! t)) else None)" for t
    using assms(1) by (simp add: map_filter_append List.map_filter_simps none own_rows_def result_by_id_append
      result_by_id_Cons)
  have obs: "map_of (concat (map (\<lambda>tr. if t < length tr then snd (tr ! t) else []) (us @ tr # vs))) (side, key) =
      (if t < length tr then map_of (snd (tr ! t)) (side, key) else None)" for t
    using assms(3) by (simp add: map_add_def apart_observations split: option.split)
  have row: "result_rows turns rows ! t = List.map_filter (\<lambda>tr. if t < length tr then Some (fst (tr ! t)) else None) rows"
    "observation_rows turns rows ! (0 + t) = concat (map (\<lambda>tr. if t < length tr then snd (tr ! t) else []) rows)"
    if "t < turns" for t rows using that by (simp_all add: result_rows_def observation_rows_def cong: if_cong)
  have len: "length (result_rows turns rows) = turns" "length (observation_rows turns rows) = turns" for rows
    by (simp_all add: result_rows_def observation_rows_def)
  show ?thesis
    unfolding reads_def length_map len
  proof (intro conjI allI impI)
    fix t assume t: "t < turns"
    show "map (\<lambda>rs. result_by_id rs key) (result_rows turns (us @ tr # vs)) ! t =
        (if t < length tr then Some (fst (tr ! t)) else None)"
      by (subst nth_map) (simp_all only: len t row res)
    show "map_of (observation_rows turns (us @ tr # vs) ! (0 + t)) (side, key) =
        (if t < length tr then map_of (snd (tr ! t)) (side, key) else None)"
      by (simp only: t row obs)
  qed (use assms(2) in simp_all)
qed

text \<open>
  C27. The judges read what the model was shown and said. Whatever the other trajectories of the side
  have left in the tables, the merged result of a sample fails only when its last turn failed; when it
  does not, its turns are the messages of the last request, the feedback on bad attempts, the answer
  (the notice, when it was cut off) and what was observed after it, or stop earlier; and when no turn
  before the last prints the submission marker they are all of that, and the result fails exactly when
  the last turn did.
\<close>

theorem judges_read_the_conversation:
  fixes h gen sim side s n us vs turns
  defines "rows \<equiv> us @ walk n h gen sim side s # vs"
    and "final \<equiv> last_turn n h gen sim side s"
  defines "merged \<equiv> merge_sample h side n (result_rows turns rows) (observation_rows turns rows) s"
  assumes "keeps_id gen" "0 < n" "n \<le> turns" "\<forall>tr \<in> set us \<union> set vs. apart side (es_id s) tr"
  shows "(given_text (g_error merged) \<longrightarrow> turn_failed side final) \<and>
    (\<not> given_text (g_error merged) \<longrightarrow> (\<exists>ts. g_turns merged = Some ts \<and> g_text merged = scored_output ts \<and>
       prefix (map said ts) (conversation h side final))) \<and>
    (no_early_marker h s (walk n h gen sim side s) \<longrightarrow> given_text (g_error merged) = turn_failed side final \<and>
       (\<not> turn_failed side final \<longrightarrow> map_option (map said) (g_turns merged) = Some (conversation h side final)))"
proof -
  obtain ts err trunc where m: "merge_turns h side s n 0 (map (\<lambda>rs. result_by_id rs (es_id s)) (result_rows turns rows))
      (observation_rows turns rows) (context_turns s) = (ts, err, trunc)"
    using prod_cases3 by blast
  have "length (walk n h gen sim side s) \<le> turns" using walk_own [OF assms(4), of side s n h sim] assms(6) by linarith
  then have "reads (walk n h gen sim side s) side (es_id s) 0 (map (\<lambda>rs. result_by_id rs (es_id s)) (result_rows turns rows))
      (observation_rows turns rows)"
    unfolding rows_def using walk_own [OF assms(4), of side s n h sim] assms(7) by (intro reads_rows) auto
  moreover have "map said (context_turns s) = base_messages s" by (simp add: context_turns_def comp_def map_idI)
  ultimately show ?thesis
    using merge_walk [OF assms(4,5), of h sim side s s 0 _ _ "context_turns s" ts err trunc] m
    by (auto simp: merged_def merge_sample_def final_def new_result_def)
qed

end
