(* ===== verification/PairStream.thy ===== *)
theory PairStream
  imports JudgedTurns "HOL-Library.Multiset"
begin

text \<open>
  The threads of one evaluation on the GPU host (\<open>_generate_trajectories\<close> and the \<open>on_pair\<close> and
  \<open>flush\<close> of \<open>_execute\<close> in src/src/albedo_eval_service/remote/worker.py): each trajectory walks on a
  thread of its own and fills the tables its side shares, the thread that ends a sample's second
  trajectory hands the pair over, and full batches go to the judges while the others still walk. The
  interleavings are a step relation. Before it, the horizons and the rollouts.
\<close>

section \<open>Horizons and rollouts\<close>

definition HORIZON_STRATA :: "nat list" where
  "HORIZON_STRATA = [12, 16]"

text \<open>Whether an assistant turn edited a file is an argument.\<close>

definition sample_phase :: "(string \<Rightarrow> bool) \<Rightarrow> message list \<Rightarrow> string" where
  "sample_phase edited ms = (let turns = map m_content (filter (\<lambda>m. m_role m = ''assistant'') ms) in
     if list_ex edited turns then ''at_edit'' else if length turns \<le> 2 then ''cold'' else ''pre_edit'')"

definition add_to_phase :: "(string \<Rightarrow> bool) \<Rightarrow> eval_sample \<Rightarrow> (string \<times> string list) list \<Rightarrow> (string \<times> string list) list" where
  "add_to_phase edited s d = (let phase = sample_phase edited (messages_of s) in
     dict_put phase ((case map_of d phase of None \<Rightarrow> [] | Some ids \<Rightarrow> ids) @ [es_id s]) d)"

definition phase_horizons :: "string list \<Rightarrow> (string \<times> nat) list" where
  "phase_horizons ids = map (\<lambda>(i, key). (key, HORIZON_STRATA ! (i mod length HORIZON_STRATA)))
     (zip [0..<length ids] (sort ids))"

definition assign_horizons :: "(string \<Rightarrow> bool) \<Rightarrow> eval_sample list \<Rightarrow> (string \<times> nat) list" where
  "assign_horizons edited samples =
     dict_of (concat (map (\<lambda>(phase, ids). phase_horizons ids) (fold (add_to_phase edited) samples [])))"

text \<open>\<open>sample_id.split("#r", 1)[0]\<close>.\<close>

fun before_rollout :: "string \<Rightarrow> string" where
  "before_rollout [] = []"
| "before_rollout (c # s) = (if starts_with ''#r'' (c # s) then [] else c # before_rollout s)"

definition dataset_sample_id :: "string \<Rightarrow> string" where
  "dataset_sample_id key = before_rollout key"

definition rollout_id :: "string \<Rightarrow> nat \<Rightarrow> string" where
  "rollout_id key i = key @ ''#r'' @ show_nat i"

definition rollouts :: "eval_sample list \<Rightarrow> nat \<Rightarrow> eval_sample list" where
  "rollouts samples n = (if n \<le> 1 then samples
     else concat (map (\<lambda>i. map (\<lambda>s. s\<lparr>es_id := rollout_id (es_id s) i\<rparr>) samples) [1..<Suc n]))"

definition rollout_horizons :: "(string \<Rightarrow> bool) \<Rightarrow> eval_sample list \<Rightarrow> (string \<times> nat) list" where
  "rollout_horizons edited samples =
     (let rows = dict_of (map (\<lambda>s. (dataset_sample_id (es_id s), s)) samples);
        horizons = assign_horizons edited (map (\<lambda>(row, s). s\<lparr>es_id := row\<rparr>) rows)
      in dict_of (map (\<lambda>s. (es_id s, the (map_of horizons (dataset_sample_id (es_id s))))) samples))"

section \<open>The threads\<close>

type_synonym judged_pair = "eval_sample \<times> gen_result \<times> gen_result"

record job =
  j_host :: host
  j_gen :: "side \<Rightarrow> eval_sample \<Rightarrow> gen_result"
  j_sim :: simulator
  j_samples :: "eval_sample list"
  j_horizons :: "(string \<times> nat) list"
  j_turns :: nat
  j_batch :: nat

record stream =
  st_progress :: "side \<times> string \<Rightarrow> nat"
  st_finished :: "string \<Rightarrow> side list"
  st_owed :: "eval_sample list"
  st_pending :: "judged_pair list"
  st_batches :: "judged_pair list list"

definition horizon_of :: "job \<Rightarrow> eval_sample \<Rightarrow> nat" where
  "horizon_of j s = (case map_of (j_horizons j) (es_id s) of None \<Rightarrow> 0 | Some n \<Rightarrow> n)"

definition turn_count :: "(string \<times> nat) list \<Rightarrow> nat \<Rightarrow> nat" where
  "turn_count horizons assistant_turns =
     (if horizons = [] then max 1 assistant_turns else Max (set (map snd horizons)))"

definition trajectory_of :: "job \<Rightarrow> side \<Rightarrow> eval_sample \<Rightarrow> trajectory" where
  "trajectory_of j side s = walk (horizon_of j s) (j_host j) (j_gen j side) (j_sim j) side s"

text \<open>
  A turn adds its result to the tables first and its observation later: after \<open>k\<close> such steps a
  trajectory has left \<open>k div 2\<close> turns, and a result without its observation when \<open>k\<close> is odd.
\<close>

definition so_far :: "nat \<Rightarrow> trajectory \<Rightarrow> trajectory" where
  "so_far k tr = take (k div 2) tr @
     (if odd k \<and> k div 2 < length tr then [(fst (tr ! (k div 2)), [])] else [])"

definition rows_now :: "job \<Rightarrow> stream \<Rightarrow> side \<Rightarrow> trajectory list" where
  "rows_now j st side = map (\<lambda>s. so_far (st_progress st (side, es_id s)) (trajectory_of j side s)) (j_samples j)"

definition merged_now :: "job \<Rightarrow> stream \<Rightarrow> side \<Rightarrow> eval_sample \<Rightarrow> gen_result" where
  "merged_now j st side s = hd (merge_trajectory_results (j_host j) side (j_horizons j)
     (result_rows (j_turns j) (rows_now j st side)) (observation_rows (j_turns j) (rows_now j st side)) [s])"

definition flush :: "stream \<Rightarrow> stream" where
  "flush st = (if st_pending st = [] then st
     else st\<lparr>st_batches := st_batches st @ [st_pending st], st_pending := []\<rparr>)"

definition on_pair :: "job \<Rightarrow> judged_pair \<Rightarrow> stream \<Rightarrow> stream" where
  "on_pair j p st = (let st' = st\<lparr>st_pending := st_pending st @ [p]\<rparr>
     in if j_batch j \<le> length (st_pending st') then flush st' else st')"

definition ends_side :: "side \<Rightarrow> eval_sample \<Rightarrow> stream \<Rightarrow> stream" where
  "ends_side side s st = (let sides = List.insert side (st_finished st (es_id s))
     in st\<lparr>st_finished := (st_finished st)(es_id s := sides),
           st_owed := (if length sides = 2 then st_owed st @ [s] else st_owed st)\<rparr>)"

inductive stream_step :: "job \<Rightarrow> stream \<Rightarrow> stream \<Rightarrow> bool" for j where
  walks: "s \<in> set (j_samples j) \<Longrightarrow> st_progress st (side, es_id s) < 2 * length (trajectory_of j side s) \<Longrightarrow>
    stream_step j st (st\<lparr>st_progress := (st_progress st)((side, es_id s) := Suc (st_progress st (side, es_id s)))\<rparr>)"
| ends: "s \<in> set (j_samples j) \<Longrightarrow> st_progress st (side, es_id s) = 2 * length (trajectory_of j side s) \<Longrightarrow>
    side \<notin> set (st_finished st (es_id s)) \<Longrightarrow> stream_step j st (ends_side side s st)"
| hands: "s \<in> set (st_owed st) \<Longrightarrow> stream_step j st
    (on_pair j (s, merged_now j st Previous_king s, merged_now j st Challenger s) (st\<lparr>st_owed := remove1 s (st_owed st)\<rparr>))"

definition first_stream :: stream where
  "first_stream = \<lparr>st_progress = (\<lambda>_. 0), st_finished = (\<lambda>_. []), st_owed = [], st_pending = [], st_batches = []\<rparr>"

inductive stream_runs :: "job \<Rightarrow> nat \<Rightarrow> stream \<Rightarrow> bool" for j where
  begins: "stream_runs j 0 first_stream"
| moves: "stream_runs j n st \<Longrightarrow> stream_step j st st' \<Longrightarrow> stream_runs j (Suc n) st'"

text \<open>The results the walk of all samples leaves at the end.\<close>

definition final_results :: "job \<Rightarrow> side \<Rightarrow> gen_result list" where
  "final_results j side = (let rows = map (trajectory_of j side) (j_samples j) in
     merge_trajectory_results (j_host j) side (j_horizons j) (result_rows (j_turns j) rows)
       (observation_rows (j_turns j) rows) (j_samples j))"

text \<open>A job as \<open>_execute\<close> makes it.\<close>

definition job_for :: "host \<Rightarrow> (side \<Rightarrow> eval_sample \<Rightarrow> gen_result) \<Rightarrow> simulator \<Rightarrow> (string \<Rightarrow> bool) \<Rightarrow>
    eval_sample list \<Rightarrow> nat \<Rightarrow> int \<Rightarrow> nat \<Rightarrow> job" where
  "job_for h gen sim edited samples rolls scoring_batch_size assistant_turns =
     (let all = rollouts samples rolls; horizons = rollout_horizons edited all in
      \<lparr>j_host = h, j_gen = gen, j_sim = sim, j_samples = all, j_horizons = horizons,
       j_turns = turn_count horizons assistant_turns, j_batch = nat (max 1 scoring_batch_size)\<rparr>)"

end
