(* ===== verification/PairsJudged.thy ===== *)
theory PairsJudged
  imports PairStream
begin

text \<open>
  Whatever the threads of an evaluation do (theory PairStream), each pair of a sample reaches the
  judges once, in batches of the size asked for, with the results the artifacts keep.
\<close>

section \<open>What a finished trajectory merges to\<close>

lemma merge_turns_local:
  assumes "length obs' = length obs"
    "\<forall>t < length found. map_of (obs' ! (i + t)) (side, es_id s) = map_of (obs ! (i + t)) (side, es_id s)"
  shows "merge_turns h side s n i found obs' turns = merge_turns h side s n i found obs turns"
  using assms(2)
proof (induction found arbitrary: i turns)
  case (Cons r rest)
  have "\<forall>t < length rest. map_of (obs' ! (i + 1 + t)) (side, es_id s) = map_of (obs ! (i + 1 + t)) (side, es_id s)"
    using Cons.prems by (auto dest: spec [of _ "Suc _"])
  note tail = Cons.IH [OF this]
  have "map_of (obs' ! i) (side, es_id s) = map_of (obs ! i) (side, es_id s)"
    using Cons.prems by (auto dest: spec [of _ 0])
  then show ?case
    by (simp only: merge_turns.simps tail assms(1))
qed simp

lemma merge_sample_local:
  assumes "reads tr side (es_id s) 0 (map (\<lambda>rs. result_by_id rs (es_id s)) results) obs"
    "reads tr side (es_id s) 0 (map (\<lambda>rs. result_by_id rs (es_id s)) results') obs'"
    "length results' = length results"
  shows "merge_sample h side n results' obs' s = merge_sample h side n results obs s"
proof -
  have "map (\<lambda>rs. result_by_id rs (es_id s)) results' = map (\<lambda>rs. result_by_id rs (es_id s)) results"
    using assms by (intro nth_equalityI) (auto simp: reads_def)
  moreover have "merge_turns h side s n 0 (map (\<lambda>rs. result_by_id rs (es_id s)) results) obs' ts =
      merge_turns h side s n 0 (map (\<lambda>rs. result_by_id rs (es_id s)) results) obs ts" for ts
    by (rule merge_turns_local) (use assms in \<open>auto simp: reads_def\<close>)
  ultimately show ?thesis by (simp add: merge_sample_def)
qed

definition job_ok :: "job \<Rightarrow> bool" where
  "job_ok j \<longleftrightarrow> (\<forall>side. keeps_id (j_gen j side)) \<and> distinct (map es_id (j_samples j)) \<and> 0 < j_batch j \<and>
     (\<forall>s \<in> set (j_samples j). \<exists>n. map_of (j_horizons j) (es_id s) = Some n \<and> n \<le> j_turns j)"

definition final_of :: "job \<Rightarrow> side \<Rightarrow> eval_sample \<Rightarrow> gen_result" where
  "final_of j side s = (let rows = map (trajectory_of j side) (j_samples j) in
     merge_sample (j_host j) side (horizon_of j s) (result_rows (j_turns j) rows) (observation_rows (j_turns j) rows) s)"

lemma horizon_some:
  assumes "job_ok j" "s \<in> set (j_samples j)"
  shows "(case map_of (j_horizons j) (es_id s) of None \<Rightarrow> d | Some n \<Rightarrow> n) = horizon_of j s" "horizon_of j s \<le> j_turns j"
  using assms by (auto simp: job_ok_def horizon_of_def)

lemma final_results_map: "job_ok j \<Longrightarrow> final_results j side = map (final_of j side) (j_samples j)"
  by (simp add: final_results_def merge_trajectory_results_def final_of_def Let_def horizon_some)

lemma so_far_all [simp]: "so_far (2 * length tr) tr = tr"
  by (simp add: so_far_def)

lemma so_far_apart: "apart side key tr \<Longrightarrow> apart side key (so_far k tr)"
  by (auto simp: apart_def so_far_def dest: in_set_takeD)

lemma other_ids:
  assumes "distinct (map es_id (us @ s # vs))" "x \<in> set us \<union> set vs"
  shows "es_id x \<noteq> es_id s"
proof -
  have "es_id x \<in> es_id ` set us \<union> es_id ` set vs" using assms(2) by blast
  moreover have "es_id s \<notin> es_id ` set us \<union> es_id ` set vs" using assms(1) by simp
  ultimately show ?thesis by metis
qed

lemma samples_apart:
  assumes "job_ok j" "j_samples j = us @ s # vs" "x \<in> set us \<union> set vs"
  shows "apart side (es_id s) (trajectory_of j side x)"
proof -
  have "es_id x \<noteq> es_id s" using assms by (intro other_ids) (simp_all add: job_ok_def)
  then show ?thesis using assms(1) by (auto simp: trajectory_of_def job_ok_def intro!: walk_apart)
qed

lemma trajectory_rows:
  assumes "job_ok j" "s \<in> set (j_samples j)"
  shows "own_rows side (es_id s) (trajectory_of j side s)" "length (trajectory_of j side s) \<le> j_turns j"
proof -
  have "keeps_id (j_gen j side)" using assms(1) by (simp add: job_ok_def)
  from walk_own [OF this, of side s "horizon_of j s" "j_host j" "j_sim j"] horizon_some(2) [OF assms]
  show "own_rows side (es_id s) (trajectory_of j side s)" "length (trajectory_of j side s) \<le> j_turns j"
    unfolding trajectory_of_def by (blast, blast intro: order_trans)
qed

text \<open>The tables hold a finished trajectory whole, wherever the others are.\<close>

lemma merged_now_final:
  assumes "job_ok j" "s \<in> set (j_samples j)" "st_progress st (side, es_id s) = 2 * length (trajectory_of j side s)"
  shows "merged_now j st side s = final_of j side s"
proof -
  obtain us vs where parts: "j_samples j = us @ s # vs" using split_list [OF assms(2)] by blast
  have reads: "reads (trajectory_of j side s) side (es_id s) 0
      (map (\<lambda>rs. result_by_id rs (es_id s)) (result_rows (j_turns j) (map f us @ trajectory_of j side s # map f vs)))
      (observation_rows (j_turns j) (map f us @ trajectory_of j side s # map f vs))"
    if "\<And>x. x \<in> set us \<union> set vs \<Longrightarrow> apart side (es_id s) (f x)" for f
    by (rule reads_rows) (use trajectory_rows [OF assms(1,2)] that in auto)
  have now: "rows_now j st side = map (\<lambda>x. so_far (st_progress st (side, es_id x)) (trajectory_of j side x)) us @
      trajectory_of j side s # map (\<lambda>x. so_far (st_progress st (side, es_id x)) (trajectory_of j side x)) vs"
    using assms(3) by (simp add: rows_now_def parts)
  have all: "map (trajectory_of j side) (j_samples j) = map (trajectory_of j side) us @ trajectory_of j side s #
      map (trajectory_of j side) vs" by (simp add: parts)
  have len: "length (result_rows turns rows) = turns" for turns rows by (simp add: result_rows_def)
  have "merge_sample h side n (result_rows (j_turns j) (rows_now j st side)) (observation_rows (j_turns j) (rows_now j st side)) s =
      merge_sample h side n (result_rows (j_turns j) (map (trajectory_of j side) (j_samples j)))
        (observation_rows (j_turns j) (map (trajectory_of j side) (j_samples j))) s" for h n
    unfolding now all
    by (rule merge_sample_local [OF reads reads]) (auto simp: len intro: samples_apart [OF assms(1) parts] so_far_apart)
  then show ?thesis
    by (simp add: merged_now_def merge_trajectory_results_def final_of_def Let_def horizon_some [OF assms(1,2)])
qed

section \<open>The invariant of the threads\<close>

definition final_pair :: "job \<Rightarrow> eval_sample \<Rightarrow> judged_pair" where
  "final_pair j s = (s, final_of j Previous_king s, final_of j Challenger s)"

definition handed :: "stream \<Rightarrow> judged_pair list" where
  "handed st = concat (st_batches st) @ st_pending st"

definition both_ended :: "stream \<Rightarrow> eval_sample \<Rightarrow> bool" where
  "both_ended st s \<longleftrightarrow> length (st_finished st (es_id s)) = 2"

definition done_at :: "stream \<Rightarrow> eval_sample \<Rightarrow> nat" where
  "done_at st s = st_progress st (Previous_king, es_id s) + st_progress st (Challenger, es_id s) +
     length (st_finished st (es_id s))"

definition stream_inv :: "job \<Rightarrow> nat \<Rightarrow> stream \<Rightarrow> bool" where
  "stream_inv j n st \<longleftrightarrow>
     (\<forall>s \<in> set (j_samples j). \<forall>side. st_progress st (side, es_id s) \<le> 2 * length (trajectory_of j side s)) \<and>
     (\<forall>key. distinct (st_finished st key)) \<and>
     (\<forall>s \<in> set (j_samples j). \<forall>side \<in> set (st_finished st (es_id s)).
        st_progress st (side, es_id s) = 2 * length (trajectory_of j side s)) \<and>
     mset (map fst (handed st)) + mset (st_owed st) = mset (filter (both_ended st) (j_samples j)) \<and>
     (\<forall>p \<in> set (handed st). p = final_pair j (fst p)) \<and>
     length (st_pending st) < j_batch j \<and> (\<forall>b \<in> set (st_batches st). length b = j_batch j) \<and>
     n = sum_list (map (done_at st) (j_samples j)) + length (handed st)"

lemma side_two: "distinct (xs :: side list) \<Longrightarrow> length xs \<le> 2 \<and> (length xs = 2 \<longleftrightarrow> set xs = {Previous_king, Challenger})"
proof -
  have sub: "set xs \<subseteq> {Previous_king, Challenger}"
  proof
    fix x show "x \<in> {Previous_king, Challenger}" by (cases x) simp_all
  qed
  assume "distinct xs"
  then have len: "length xs = card (set xs)" by (simp add: distinct_card)
  have "card (set xs) \<le> card {Previous_king, Challenger}" by (rule card_mono [OF _ sub]) simp
  moreover have "card (set xs) = card {Previous_king, Challenger} \<Longrightarrow> set xs = {Previous_king, Challenger}"
    by (rule card_subset_eq [OF _ sub]) simp
  moreover have "card {Previous_king, Challenger} = 2" by simp
  ultimately show ?thesis unfolding len by metis
qed

lemma side_full: "distinct (xs :: side list) \<Longrightarrow> length xs = 2 \<Longrightarrow> side \<in> set xs"
  using side_two [of xs] by (cases side) auto

lemma sum_step:
  assumes "distinct (map es_id ss)" "s \<in> set ss" "f' s = Suc (f s)" "\<And>x. es_id x \<noteq> es_id s \<Longrightarrow> f' x = f x"
  shows "sum_list (map f' ss) = Suc (sum_list (map f ss))"
proof -
  obtain us vs where ss: "ss = us @ s # vs" using split_list [OF assms(2)] by blast
  have "\<forall>x \<in> set us \<union> set vs. f' x = f x" using assms(4) other_ids [OF assms(1) [unfolded ss]] by blast
  then have "map f' us = map f us" "map f' vs = map f vs" by auto
  then have "sum_list (map f' us) = sum_list (map f us)" "sum_list (map f' vs) = sum_list (map f vs)" by (simp_all only:)
  then show ?thesis using assms(3) unfolding ss map_append list.map sum_list_append sum_list.Cons by linarith
qed

lemma filter_step:
  assumes "distinct (map es_id ss)" "s \<in> set ss" "\<not> p s" "p' s" "\<And>x. es_id x \<noteq> es_id s \<Longrightarrow> p' x = p x"
  shows "mset (filter p' ss) = add_mset s (mset (filter p ss))"
proof -
  obtain us vs where ss: "ss = us @ s # vs" using split_list [OF assms(2)] by blast
  have "\<forall>x \<in> set us \<union> set vs. p' x = p x" using assms(5) other_ids [OF assms(1) [unfolded ss]] by blast
  then have "filter p' us = filter p us" "filter p' vs = filter p vs" by (auto intro: filter_cong)
  then show ?thesis using assms(3,4) by (simp add: ss)
qed

lemma inv_walks:
  assumes ok: "job_ok j" and inv: "stream_inv j n st" and s: "s \<in> set (j_samples j)"
    "st_progress st (side, es_id s) < 2 * length (trajectory_of j side s)"
  shows "stream_inv j (Suc n) (st\<lparr>st_progress := (st_progress st)((side, es_id s) := Suc (st_progress st (side, es_id s)))\<rparr>)"
proof -
  let ?st = "st\<lparr>st_progress := (st_progress st)((side, es_id s) := Suc (st_progress st (side, es_id s)))\<rparr>"
  have ids: "distinct (map es_id (j_samples j))" using ok by (simp add: job_ok_def)
  have same: "x = s" if "x \<in> set (j_samples j)" "es_id x = es_id s" for x
    using inj_onD [OF conjunct2 [OF ids [unfolded distinct_map]] that(2,1) s(1)] .
  have "done_at ?st s = Suc (done_at st s)" by (cases side) (simp_all add: done_at_def)
  then have sum: "sum_list (map (done_at ?st) (j_samples j)) = Suc (sum_list (map (done_at st) (j_samples j)))"
    using sum_step [OF ids s(1), of "done_at ?st" "done_at st"] by (simp add: done_at_def)
  have kept: "both_ended ?st = both_ended st" "handed ?st = handed st" "st_finished ?st = st_finished st"
    "st_owed ?st = st_owed st" "st_pending ?st = st_pending st" "st_batches ?st = st_batches st"
    by (simp_all add: both_ended_def handed_def fun_eq_iff)
  note inv = inv [unfolded stream_inv_def]
  have running: "side \<notin> set (st_finished st (es_id s))" using inv s by fastforce
  show ?thesis
    unfolding stream_inv_def kept sum
  proof (intro conjI)
    show "\<forall>x \<in> set (j_samples j). \<forall>sd. st_progress ?st (sd, es_id x) \<le> 2 * length (trajectory_of j sd x)"
    proof (intro ballI allI)
      fix x sd assume x: "x \<in> set (j_samples j)"
      show "st_progress ?st (sd, es_id x) \<le> 2 * length (trajectory_of j sd x)"
        using inv x s same [OF x] by (cases "(sd, es_id x) = (side, es_id s)") auto
    qed
    show "\<forall>x \<in> set (j_samples j). \<forall>sd \<in> set (st_finished st (es_id x)).
        st_progress ?st (sd, es_id x) = 2 * length (trajectory_of j sd x)"
    proof (intro ballI)
      fix x sd assume x: "x \<in> set (j_samples j)" "sd \<in> set (st_finished st (es_id x))"
      then have "(sd, es_id x) \<noteq> (side, es_id s)" using running by auto
      then show "st_progress ?st (sd, es_id x) = 2 * length (trajectory_of j sd x)" using inv x by auto
    qed
  qed (use inv in simp_all)
qed

lemma inv_ends:
  assumes ok: "job_ok j" and inv: "stream_inv j n st" and s: "s \<in> set (j_samples j)"
    "st_progress st (side, es_id s) = 2 * length (trajectory_of j side s)" "side \<notin> set (st_finished st (es_id s))"
  shows "stream_inv j (Suc n) (ends_side side s st)"
proof -
  let ?st = "ends_side side s st" and ?old = "st_finished st (es_id s)"
  have ids: "distinct (map es_id (j_samples j))" using ok by (simp add: job_ok_def)
  have same: "x = s" if "x \<in> set (j_samples j)" "es_id x = es_id s" for x
    using inj_onD [OF conjunct2 [OF ids [unfolded distinct_map]] that(2,1) s(1)] .
  have new: "st_finished ?st = (st_finished st)(es_id s := side # ?old)" "st_progress ?st = st_progress st"
    "st_pending ?st = st_pending st" "st_batches ?st = st_batches st" "handed ?st = handed st"
    "st_owed ?st = (if length ?old = 1 then st_owed st @ [s] else st_owed st)"
    using s(3) by (simp_all add: ends_side_def Let_def handed_def List.insert_def)
  have dist: "distinct ?old" using inv by (simp add: stream_inv_def)
  have short: "length ?old \<noteq> 2" using side_full [OF dist] s(3) by blast
  have sum: "sum_list (map (done_at ?st) (j_samples j)) = Suc (sum_list (map (done_at st) (j_samples j)))"
    using sum_step [OF ids s(1), of "done_at ?st" "done_at st"] by (simp add: done_at_def new)
  have ended: "mset (filter (both_ended ?st) (j_samples j)) = (if length ?old = 1
      then add_mset s (mset (filter (both_ended st) (j_samples j))) else mset (filter (both_ended st) (j_samples j)))"
  proof (cases "length ?old = 1")
    case True
    then show ?thesis
      using filter_step [OF ids s(1), of "both_ended st" "both_ended ?st"] by (simp add: both_ended_def new)
  next
    case False
    have "both_ended ?st = both_ended st" using False short by (simp add: both_ended_def new fun_eq_iff)
    with False show ?thesis by simp
  qed
  note inv = inv [unfolded stream_inv_def]
  show ?thesis
    unfolding stream_inv_def new(2-6) sum ended
  proof (intro conjI)
    show "\<forall>key. distinct (st_finished ?st key)" using inv dist s(3) by (simp add: new(1))
    show "\<forall>x \<in> set (j_samples j). \<forall>sd \<in> set (st_finished ?st (es_id x)).
        st_progress st (sd, es_id x) = 2 * length (trajectory_of j sd x)"
      using inv s(2) same by (auto simp: new(1))
    show "mset (map fst (handed st)) + mset (if length ?old = 1 then st_owed st @ [s] else st_owed st) =
        (if length ?old = 1 then add_mset s (mset (filter (both_ended st) (j_samples j)))
         else mset (filter (both_ended st) (j_samples j)))"
      using inv by simp
  qed (use inv in simp_all)
qed

lemma inv_hands:
  assumes ok: "job_ok j" and inv: "stream_inv j n st" and s: "s \<in> set (st_owed st)"
  shows "stream_inv j (Suc n)
    (on_pair j (s, merged_now j st Previous_king s, merged_now j st Challenger s) (st\<lparr>st_owed := remove1 s (st_owed st)\<rparr>))"
proof -
  note inv' = inv [unfolded stream_inv_def]
  have "s \<in># mset (map fst (handed st)) + mset (st_owed st)" using s by simp
  then have "s \<in># mset (filter (both_ended st) (j_samples j))" using inv' by (simp only: simp_thms)
  then have mem: "s \<in> set (j_samples j)" and both: "length (st_finished st (es_id s)) = 2" by (auto simp: both_ended_def)
  have "side \<in> set (st_finished st (es_id s))" for side using side_full both inv' by blast
  then have "merged_now j st side s = final_of j side s" for side
    using merged_now_final [OF ok mem] inv' mem by blast
  then have pair: "(s, merged_now j st Previous_king s, merged_now j st Challenger s) = final_pair j s"
    by (simp add: final_pair_def)
  let ?st = "on_pair j (final_pair j s) (st\<lparr>st_owed := remove1 s (st_owed st)\<rparr>)"
  have handed: "handed ?st = handed st @ [final_pair j s]"
    by (simp add: on_pair_def flush_def handed_def Let_def)
  have kept: "st_finished ?st = st_finished st" "st_progress ?st = st_progress st" "st_owed ?st = remove1 s (st_owed st)"
    by (simp_all add: on_pair_def flush_def Let_def)
  have same: "both_ended ?st = both_ended st" "done_at ?st = done_at st"
    by (simp_all add: both_ended_def done_at_def kept fun_eq_iff)
  have owed: "mset (st_owed st) = add_mset s (mset (remove1 s (st_owed st)))" using s by simp
  have "length (st_pending st) < j_batch j" "\<forall>b \<in> set (st_batches st). length b = j_batch j" using inv' by blast+
  then have size: "length (st_pending ?st) < j_batch j" "\<forall>b \<in> set (st_batches ?st). length b = j_batch j"
    using ok by (auto simp: on_pair_def flush_def Let_def job_ok_def)
  have balance: "mset (map fst (handed st)) + mset (st_owed st) = mset (filter (both_ended st) (j_samples j))"
    and steps: "n = sum_list (map (done_at st) (j_samples j)) + length (handed st)"
    and finals: "\<forall>p \<in> set (handed st). p = final_pair j (fst p)"
    using inv' by blast+
  show ?thesis
    unfolding pair stream_inv_def handed kept same
  proof (intro conjI)
    show "mset (map fst (handed st @ [final_pair j s])) + mset (remove1 s (st_owed st)) =
        mset (filter (both_ended st) (j_samples j))"
      unfolding balance [symmetric] owed by (simp add: final_pair_def)
    show "\<forall>p \<in> set (handed st @ [final_pair j s]). p = final_pair j (fst p)"
    proof
      fix p assume "p \<in> set (handed st @ [final_pair j s])"
      then have "p \<in> set (handed st) \<or> p = final_pair j s" by auto
      moreover have "final_pair j s = final_pair j (fst (final_pair j s))" by (simp add: final_pair_def)
      ultimately show "p = final_pair j (fst p)" using finals by metis
    qed
    show "Suc n = sum_list (map (done_at st) (j_samples j)) + length (handed st @ [final_pair j s])"
      using steps by simp
  qed (use inv' size in blast)+
qed

lemma inv_runs:
  assumes "job_ok j"
  shows "stream_runs j n st \<Longrightarrow> stream_inv j n st"
proof (induction n st rule: stream_runs.induct)
  case begins
  have "filter (both_ended first_stream) ss = []" for ss by (simp add: both_ended_def first_stream_def)
  moreover have "sum_list (map (done_at first_stream) ss) = 0" for ss
    by (induction ss) (simp_all add: done_at_def first_stream_def)
  ultimately show ?case using assms by (simp add: stream_inv_def handed_def job_ok_def) (simp add: first_stream_def)
next
  case (moves n st st')
  from moves(2) show ?case
    by cases (use assms moves(3) in \<open>auto intro: inv_walks inv_ends inv_hands\<close>)
qed

section \<open>Every pair once\<close>

text \<open>The number of steps all threads have together.\<close>

definition all_steps :: "job \<Rightarrow> nat" where
  "all_steps j = sum_list (map (\<lambda>s. 2 * length (trajectory_of j Previous_king s) +
     2 * length (trajectory_of j Challenger s) + 3) (j_samples j))"

lemma runs_bounded:
  assumes "job_ok j" "stream_runs j n st"
  shows "n \<le> all_steps j"
proof -
  note inv = inv_runs [OF assms, unfolded stream_inv_def]
  have "size (mset (map fst (handed st)) + mset (st_owed st)) = size (mset (filter (both_ended st) (j_samples j)))"
    using inv by (simp only: simp_thms)
  then have "length (handed st) + length (st_owed st) = length (filter (both_ended st) (j_samples j))"
    by (simp del: mset_filter)
  then have "length (handed st) \<le> length (j_samples j)"
    using length_filter_le [of "both_ended st" "j_samples j"] by linarith
  also have "\<dots> = sum_list (map (\<lambda>s. 1) (j_samples j))" by (simp add: sum_list_triv)
  finally have "length (handed st) \<le> sum_list (map (\<lambda>s. 1) (j_samples j))" .
  moreover have "sum_list (map (done_at st) (j_samples j)) \<le> sum_list (map (\<lambda>s. 2 * length (trajectory_of j Previous_king s) +
      2 * length (trajectory_of j Challenger s) + 2) (j_samples j))"
  proof (rule sum_list_mono)
    fix s assume "s \<in> set (j_samples j)"
    moreover have "length (st_finished st (es_id s)) \<le> 2" using side_two inv by blast
    ultimately show "done_at st s \<le> 2 * length (trajectory_of j Previous_king s) + 2 * length (trajectory_of j Challenger s) + 2"
      unfolding done_at_def using inv by (intro add_mono) blast+
  qed
  moreover have "all_steps j = sum_list (map (\<lambda>s. 2 * length (trajectory_of j Previous_king s) +
      2 * length (trajectory_of j Challenger s) + 2) (j_samples j)) + sum_list (map (\<lambda>s. 1) (j_samples j))"
    unfolding all_steps_def sum_list_addf [symmetric] by (intro arg_cong [where f = sum_list] map_cong) simp_all
  ultimately show ?thesis using inv by linarith
qed

lemma stuck_is_over:
  assumes "job_ok j" "stream_runs j n st" "\<nexists>st'. stream_step j st st'"
  shows "st_owed st = []" "s \<in> set (j_samples j) \<Longrightarrow> both_ended st s"
proof -
  note inv = inv_runs [OF assms(1,2), unfolded stream_inv_def]
  show "st_owed st = []" using assms(3) hands [of _ st j] by (cases "st_owed st") auto
  assume s: "s \<in> set (j_samples j)"
  have full: "st_progress st (side, es_id s) = 2 * length (trajectory_of j side s)" for side
    using inv s walks [OF s, of st side] assms(3) by (meson le_neq_implies_less)
  have "side \<in> set (st_finished st (es_id s))" for side using ends [OF s full] assms(3) by blast
  then have "set (st_finished st (es_id s)) = {Previous_king, Challenger}" using side.exhaust by blast
  then show "both_ended st s" using side_two [of "st_finished st (es_id s)"] inv by (simp add: both_ended_def)
qed

lemma zip_triple: "zip xs (zip (map f xs) (map g xs)) = map (\<lambda>x. (x, f x, g x)) xs"
  by (induction xs) simp_all

lemma pairs_once:
  assumes "job_ok j" "stream_runs j n st" "\<nexists>st'. stream_step j st st'"
  shows "mset (concat (st_batches (flush st))) =
      mset (zip (j_samples j) (zip (final_results j Previous_king) (final_results j Challenger)))"
    "\<forall>b \<in> set (st_batches (flush st)). b \<noteq> [] \<and> length b \<le> j_batch j"
proof -
  note inv = inv_runs [OF assms(1,2), unfolded stream_inv_def]
  have finals: "\<forall>p \<in> set (handed st). p = final_pair j (fst p)"
    and balance: "mset (map fst (handed st)) + mset (st_owed st) = mset (filter (both_ended st) (j_samples j))"
    using inv by blast+
  have "filter (both_ended st) (j_samples j) = j_samples j"
    using stuck_is_over(2) [OF assms] by (simp add: filter_id_conv)
  then have once: "mset (map fst (handed st)) = mset (j_samples j)"
    using balance stuck_is_over(1) [OF assms] by simp
  have "map (\<lambda>p. final_pair j (fst p)) (handed st) = handed st" using finals by (intro map_idI) metis
  then have "handed st = map (final_pair j) (map fst (handed st))" by (simp add: comp_def)
  then have "mset (handed st) = image_mset (final_pair j) (mset (map fst (handed st)))" by (metis mset_map)
  also have "\<dots> = mset (map (final_pair j) (j_samples j))" by (subst once) simp
  also have "map (final_pair j) (j_samples j) =
      zip (j_samples j) (zip (final_results j Previous_king) (final_results j Challenger))"
    unfolding final_results_map [OF assms(1)] by (simp add: zip_triple final_pair_def)
  also have "handed st = concat (st_batches (flush st))" by (simp add: handed_def flush_def)
  finally show "mset (concat (st_batches (flush st))) =
      mset (zip (j_samples j) (zip (final_results j Previous_king) (final_results j Challenger)))" .
  show "\<forall>b \<in> set (st_batches (flush st)). b \<noteq> [] \<and> length b \<le> j_batch j"
    using inv assms(1) by (auto simp: flush_def job_ok_def)
qed

section \<open>The jobs of an evaluation\<close>

lemma rollout_id_inj: "rollout_id key i = rollout_id key' i' \<longleftrightarrow> key = key' \<and> i = i'"
proof
  have digits: "takeWhile is_digit (rev (rollout_id k m)) = rev (show_nat m)" for k m
  proof -
    have "\<not> is_digit (CHR ''r'')" by (simp add: is_digit_def)
    moreover have "\<forall>c \<in> set (rev (show_nat m)). is_digit c" using show_nat_digits by simp
    ultimately show ?thesis
      using takeWhile_append2 [of "rev (show_nat m)" is_digit "''r#'' @ rev k"] by (simp add: rollout_id_def)
  qed
  assume eq: "rollout_id key i = rollout_id key' i'"
  then have "rev (show_nat i) = rev (show_nat i')" using digits by metis
  then have "i = i'" by (simp add: show_nat_inj)
  with eq show "key = key' \<and> i = i'" by (simp add: rollout_id_def)
qed simp

lemma rollouts_distinct:
  assumes "distinct (map es_id samples)"
  shows "distinct (map es_id (rollouts samples n))"
proof -
  have "distinct (concat (map (\<lambda>i. map (\<lambda>s. rollout_id (es_id s) i) samples) ms))" if "distinct ms" for ms
    using that
  proof (induction ms)
    case (Cons m ms)
    have "distinct (map (\<lambda>s. rollout_id (es_id s) m) samples)"
      using assms by (simp add: distinct_map inj_on_def rollout_id_inj)
    with Cons show ?case by (auto simp: rollout_id_inj)
  qed simp
  then show ?thesis using assms by (simp add: rollouts_def map_concat comp_def del: upt_Suc)
qed

lemma horizons_cover:
  assumes "s \<in> set samples"
  shows "\<exists>n. map_of (rollout_horizons edited samples) (es_id s) = Some n \<and> n \<le> turn_count (rollout_horizons edited samples) k"
proof -
  have "es_id s \<in> fst ` set (rollout_horizons edited samples)"
    using assms by (simp add: rollout_horizons_def Let_def keys_dict_of image_image)
  then obtain n where n: "map_of (rollout_horizons edited samples) (es_id s) = Some n"
    by (metis map_of_eq_None_iff not_None_eq)
  then have "n \<in> set (map snd (rollout_horizons edited samples))" by (force dest: map_of_SomeD)
  then have "n \<le> turn_count (rollout_horizons edited samples) k" by (auto simp: turn_count_def intro: Max_ge)
  with n show ?thesis by blast
qed

lemma job_for_ok:
  assumes "\<And>side. keeps_id (gen side)" "distinct (map es_id samples)"
  shows "job_ok (job_for h gen sim edited samples rolls asked turns)"
  using assms rollouts_distinct horizons_cover by (simp add: job_ok_def job_for_def Let_def)

text \<open>The threads always get to where none can move.\<close>

lemma runs_end:
  assumes "job_ok j"
  shows "\<exists>n st. stream_runs j n st \<and> (\<nexists>st'. stream_step j st st')"
proof (rule ccontr)
  assume never: "\<nexists>n st. stream_runs j n st \<and> (\<nexists>st'. stream_step j st st')"
  have "\<exists>st. stream_runs j n st" for n
  proof (induction n)
    case (Suc n)
    then obtain st where "stream_runs j n st" by blast
    with never obtain st' where "stream_step j st st'" by blast
    with \<open>stream_runs j n st\<close> show ?case by (blast intro: moves)
  qed (blast intro: begins)
  then show False using runs_bounded [OF assms, of "Suc (all_steps j)"] by (meson Suc_n_not_le_n)
qed

text \<open>
  C24. Every pair is judged once, with the results the artifacts keep. Whatever the models, the
  simulator and the interleaving of the threads, an evaluation of distinct samples makes at most so
  many steps, and when no thread can move any more each sample's pair, in all its rollouts, is in one
  batch, once, with the merged results of the whole tables though it was handed over while others
  still walked; and no batch is empty or larger than was asked for.
\<close>

theorem pairs_judged_once:
  fixes h gen sim edited samples rolls asked turns
  defines "j \<equiv> job_for h gen sim edited samples rolls asked turns"
  assumes "\<And>side. keeps_id (gen side)" "distinct (map es_id samples)" "stream_runs j n st"
  shows "n \<le> all_steps j \<and> ((\<nexists>st'. stream_step j st st') \<longrightarrow>
    mset (concat (st_batches (flush st))) =
      mset (zip (rollouts samples rolls) (zip (final_results j Previous_king) (final_results j Challenger))) \<and>
    (\<forall>b \<in> set (st_batches (flush st)). b \<noteq> [] \<and> int (length b) \<le> max 1 asked))"
proof -
  have ok: "job_ok j" unfolding j_def by (rule job_for_ok) (rule assms)+
  have "j_samples j = rollouts samples rolls" "int (j_batch j) = max 1 asked" by (simp_all add: j_def job_for_def Let_def)
  then show ?thesis using runs_bounded [OF ok assms(4)] pairs_once [OF ok assms(4)] by (metis of_nat_mono)
qed

end
