(* ===== verification/RemoteVerdict.thy ===== *)
theory RemoteVerdict
  imports Trajectories Scoring
begin

text \<open>
  What the evaluation host makes of the merged results and the judges' batches
  (src/src/albedo_eval_service/remote/worker.py): the GPU groups of a request, whether enough pairs are
  valid, whose fault it is when they are not, the order of the records, the batches it reports and the
  verdict. A judge's batch either comes back with its records or has raised.
\<close>

section \<open>GPU groups and batches\<close>

record gpu_request =
  gr_min :: int
  gr_preferred :: int
  gr_king_count :: int
  gr_challenger_count :: int
  gr_tensor_parallel :: int

record gpu_topology =
  gt_accelerator :: string
  gt_king :: "string list"
  gt_challenger :: "string list"
  gt_tensor_parallel :: int

definition parse_gpu_ids :: "string \<Rightarrow> string + string list" where
  "parse_gpu_ids raw = (let ids = filter (\<lambda>x. x \<noteq> []) (map strip (split_on (CHR '','') raw)) in
     if distinct ids then Inr ids else Inl ''GPU group contains duplicate IDs'')"

definition topology :: "string \<Rightarrow> string \<Rightarrow> string \<Rightarrow> gpu_request \<Rightarrow> string + gpu_topology" where
  "topology accelerator king_setting challenger_setting req =
     and_then (parse_gpu_ids king_setting) (\<lambda>king.
     and_then (parse_gpu_ids challenger_setting) (\<lambda>challenger.
     and_then (ensure (gr_min req = 8 \<and> gr_preferred req = 8) ''remote eval target requires an 8-GPU request'') (\<lambda>_.
     and_then (ensure (gr_tensor_parallel req = 4) ''remote eval requires tensor_parallel_size_per_model=4'') (\<lambda>_.
     and_then (ensure (int (length king) = gr_king_count req) ''previous king GPU group does not match request'') (\<lambda>_.
     and_then (ensure (int (length challenger) = gr_challenger_count req) ''challenger GPU group does not match request'') (\<lambda>_.
     and_then (ensure (length king = 4 \<and> length challenger = 4) ''remote eval requires fixed 4 GPU groups for both models'') (\<lambda>_.
     and_then (ensure (set king \<inter> set challenger = {}) ''GPU groups overlap'') (\<lambda>_.
     Inr \<lparr>gt_accelerator = accelerator, gt_king = king, gt_challenger = challenger,
       gt_tensor_parallel = gr_tensor_parallel req\<rparr>))))))))"

function in_chunks :: "nat \<Rightarrow> 'a list \<Rightarrow> 'a list list" where
  "in_chunks n xs = (if n = 0 \<or> xs = [] then [] else take n xs # in_chunks n (drop n xs))"
  by pat_completeness auto
termination by (relation "measure (\<lambda>(n, xs). length xs)") auto

declare in_chunks.simps [simp del]

definition chunks :: "'a list \<Rightarrow> int \<Rightarrow> string + 'a list list" where
  "chunks items asked = (if asked \<le> 0 then Inl ''batch size must be positive'' else Inr (in_chunks (nat asked) items))"

record generation_batch =
  gb_ids :: "string list"
  gb_king_errors :: nat
  gb_chal_errors :: nat
  gb_generated :: nat

definition errors_among :: "gen_result list \<Rightarrow> string list \<Rightarrow> nat" where
  "errors_among results ids = length (filter (\<lambda>i. case result_by_id results i of
     None \<Rightarrow> False | Some r \<Rightarrow> given_text (g_error r)) ids)"

definition emit_generation_batches :: "eval_sample list \<Rightarrow> int \<Rightarrow> gen_result list \<Rightarrow> gen_result list \<Rightarrow>
    string + generation_batch list" where
  "emit_generation_batches samples asked kings challengers =
     and_then (chunks samples asked) (\<lambda>batches. Inr (map (\<lambda>(k, batch). let ids = map es_id batch in
       \<lparr>gb_ids = ids, gb_king_errors = errors_among kings ids, gb_chal_errors = errors_among challengers ids,
        gb_generated = min (Suc k * nat asked) (length samples)\<rparr>) (zip [0..<length batches] batches)))"

section \<open>Whose fault it is\<close>

definition INFRA_ERROR_MARKERS :: "string list" where
  "INFRA_ERROR_MARKERS = [''ScoreBridgeUnavailable'', ''ObservationSimulationUnavailable'', ''missing_observation'']"

definition miner_error :: "string option \<Rightarrow> bool" where
  "miner_error e \<longleftrightarrow> (case e of None \<Rightarrow> False
     | Some t \<Rightarrow> t \<noteq> [] \<and> \<not> list_ex (\<lambda>m. str_contains m t) INFRA_ERROR_MARKERS)"

definition miner_failed :: "gen_result list \<Rightarrow> gen_result list \<Rightarrow> eval_sample \<Rightarrow> bool" where
  "miner_failed kings challengers s \<longleftrightarrow>
     (case (result_by_id challengers (es_id s), result_by_id kings (es_id s)) of
        (Some c, Some k) \<Rightarrow> miner_error (g_error c) \<and> \<not> given_text (g_error k) | _ \<Rightarrow> False)"

definition miner_failed_pair_count :: "eval_sample list \<Rightarrow> gen_result list \<Rightarrow> gen_result list \<Rightarrow> nat" where
  "miner_failed_pair_count samples kings challengers = length (filter (miner_failed kings challengers) samples)"

definition valid_pair :: "gen_result list \<Rightarrow> gen_result list \<Rightarrow> eval_sample \<Rightarrow> bool" where
  "valid_pair kings challengers s \<longleftrightarrow>
     (case (result_by_id kings (es_id s), result_by_id challengers (es_id s)) of
        (Some k, Some c) \<Rightarrow> \<not> given_text (g_error k) \<and> \<not> given_text (g_error c) | _ \<Rightarrow> False)"

definition valid_generated_pair_count :: "eval_sample list \<Rightarrow> gen_result list \<Rightarrow> gen_result list \<Rightarrow> nat" where
  "valid_generated_pair_count samples kings challengers = length (filter (valid_pair kings challengers) samples)"

definition failed_summary :: "nat \<Rightarrow> nat \<Rightarrow> nat \<Rightarrow> string \<times> string \<times> string \<Rightarrow> bool \<Rightarrow> summary" where
  "failed_summary v t errors fault retryable =
     \<lparr>su_state = ''failed'', su_challenger = None, su_king = None, su_won = None, su_margin = None, su_valid = v,
      su_total = t, su_judge_errors = errors, su_by_judge = [], su_mode = None, su_fault = Some fault,
      su_retryable = Some retryable\<rparr>"

definition ours :: "nat \<Rightarrow> nat \<Rightarrow> rat \<Rightarrow> bool" where
  "ours miner_failures t q \<longleftrightarrow> t = 0 \<or> fdiv (of_nat miner_failures) (of_nat t) \<le> fsub 1 q"

definition too_few_summary :: "nat \<Rightarrow> nat \<Rightarrow> nat \<Rightarrow> rat \<Rightarrow> summary" where
  "too_few_summary v t m q = failed_summary v t 0
     (if ours m t q then ''REMOTE_EVAL_FAULT'' else ''MINER_FAULT'', ''insufficient_valid_samples'',
      ''Only '' @ show_nat v @ ''/'' @ show_nat t @ '' sample pairs had both king and challenger output (< '' @
        show_percent q @ ''); '' @ show_nat m @ '' failed on the challenger alone'')
     (ours m t q)"

type_synonym sample_scores = "(string \<times> sample_record) list"

text \<open>\<open>batch.result()\<close> of each batch, up to the first that raised.\<close>

fun all_results :: "(string + sample_scores) list \<Rightarrow> string + sample_scores" where
  "all_results [] = Inr []"
| "all_results (b # bs) = and_then b (\<lambda>r. and_then (all_results bs) (\<lambda>rs. Inr (r @ rs)))"

definition sample_order :: "eval_sample list \<Rightarrow> string \<Rightarrow> nat" where
  "sample_order samples i = (case map_of (rev (zip (map es_id samples) [0..<length samples])) i of
     None \<Rightarrow> length samples | Some k \<Rightarrow> k)"

definition score_pairs :: "eval_sample list \<Rightarrow> gen_result list \<Rightarrow> gen_result list \<Rightarrow> (string + sample_scores) list \<Rightarrow>
    rat \<Rightarrow> nat \<Rightarrow> sample_scores \<times> summary" where
  "score_pairs samples kings challengers batches q judge_count =
     (let v = valid_generated_pair_count samples kings challengers; t = length samples in
      if t = 0 \<or> fdiv (of_nat v) (of_nat t) < q
      then ([], too_few_summary v t (miner_failed_pair_count samples kings challengers) q)
      else case all_results batches of
        Inl e \<Rightarrow> ([], failed_summary 0 v (v * judge_count)
          (''PROVIDER_FAULT'', ''judge_provider_exhausted'', ''Judge scoring failed: '' @ e) True)
      | Inr scored \<Rightarrow> (let records = sort_key (\<lambda>r. sample_order samples (fst r)) scored in
          (records, aggregate_scores (map snd records) q (Some t))))"

section \<open>The verdict\<close>

record host_verdict =
  hv_state :: string
  hv_won :: "bool option"
  hv_challenger :: "rat option"
  hv_king :: "rat option"
  hv_valid :: nat
  hv_total :: nat
  hv_scored :: nat
  hv_king_errors :: nat
  hv_chal_errors :: nat
  hv_judge_errors :: nat
  hv_margin :: rat
  hv_by_judge :: "(string \<times> rat) list"
  hv_mode :: "string option"
  hv_fault :: "(string \<times> string \<times> string) option"
  hv_retryable :: "bool option"

definition failures :: "gen_result list \<Rightarrow> nat" where
  "failures results = length (filter (\<lambda>r. given_text (g_error r)) results)"

text \<open>\<open>scored_sample_count or valid_turns\<close>: where the summary counts no scored sample it is its valid turns.\<close>

definition build_verdict :: "eval_sample list \<Rightarrow> gen_result list \<Rightarrow> gen_result list \<Rightarrow> summary \<Rightarrow> host_verdict" where
  "build_verdict samples kings challengers su =
     (let state = (if su_state su = [] then ''failed'' else su_state su); good = (state = ''succeeded'') in
      \<lparr>hv_state = state,
       hv_won = (case (su_challenger su, su_king su) of
          (Some c, Some k) \<Rightarrow> if good then Some (challenger_beats_king c k) else su_won su | _ \<Rightarrow> su_won su),
       hv_challenger = su_challenger su, hv_king = su_king su, hv_valid = su_valid su,
       hv_total = length samples, hv_scored = su_valid su,
       hv_king_errors = failures kings, hv_chal_errors = failures challengers, hv_judge_errors = su_judge_errors su,
       hv_margin = (case su_margin su of None \<Rightarrow> CHALLENGER_WIN_MARGIN | Some m \<Rightarrow> m),
       hv_by_judge = su_by_judge su, hv_mode = su_mode su,
       hv_fault = (if good then None else su_fault su), hv_retryable = (if good then None else su_retryable su)\<rparr>)"

definition remote_verdict :: "eval_sample list \<Rightarrow> gen_result list \<Rightarrow> gen_result list \<Rightarrow> (string + sample_scores) list \<Rightarrow>
    rat \<Rightarrow> nat \<Rightarrow> host_verdict" where
  "remote_verdict samples kings challengers batches q judge_count =
     build_verdict samples kings challengers (snd (score_pairs samples kings challengers batches q judge_count))"

definition remote_log_summary :: "string \<Rightarrow> string \<Rightarrow> nat \<Rightarrow> host_verdict \<Rightarrow> string" where
  "remote_log_summary remote_run_id eval_run_id event_count v = on_lines
     ([''remote_run_id='' @ remote_run_id, ''eval_run_id='' @ eval_run_id, ''state='' @ hv_state v,
       ''events='' @ show_nat event_count, ''king_vllm_errors='' @ show_nat (hv_king_errors v),
       ''chal_vllm_errors='' @ show_nat (hv_chal_errors v), ''judge_errors='' @ show_nat (hv_judge_errors v)] @
      (case hv_fault v of None \<Rightarrow> []
       | Some (cls, code, msg) \<Rightarrow> [''fault_code='' @ code, ''fault_message='' @ msg]))"

section \<open>Groups and chunks\<close>

lemma topology_groups:
  assumes "topology accelerator ks cs req = Inr t"
  shows "length (gt_king t) = 4 \<and> length (gt_challenger t) = 4 \<and> distinct (gt_king t @ gt_challenger t)"
proof -
  obtain king challenger where ids: "parse_gpu_ids ks = Inr king" "parse_gpu_ids cs = Inr challenger"
    and t: "length king = 4" "length challenger = 4" "set king \<inter> set challenger = {}" "gt_king t = king"
      "gt_challenger t = challenger"
    using assms by (auto simp: topology_def)
  have "distinct king" "distinct challenger" using ids by (auto simp: parse_gpu_ids_def Let_def split: if_splits)
  with t show ?thesis by simp
qed

lemma concat_in_chunks: "0 < n \<Longrightarrow> concat (in_chunks n xs) = xs"
  by (induction n xs rule: in_chunks.induct) (simp add: in_chunks.simps [of n xs for n xs])

lemma chunk_sizes: "c \<in> set (in_chunks n xs) \<Longrightarrow> c \<noteq> [] \<and> length c \<le> n"
proof (induction n xs rule: in_chunks.induct)
  case (1 n xs)
  from "1.prems" show ?case
    by (subst (asm) in_chunks.simps) (use "1.IH" in \<open>auto split: if_splits\<close>)
qed

section \<open>The fifth\<close>

text \<open>\<open>1 - 0.8\<close> in floats is a little less than the float of a fifth.\<close>

lemma fl_four_fifths: "fl (8 / 10) = 7205759403792794 / 2 ^ 53"
proof -
  have "fl (8 / 10) = of_int 7205759403792794 / 2 ^ 53" by (rule fl_nearest) simp_all
  then show ?thesis by (simp only: of_int_numeral)
qed

lemma slack: "fsub 1 MIN_VALID_FRACTION = 1801439850948198 / 2 ^ 53"
proof -
  have "fsub 1 MIN_VALID_FRACTION = fl (1801439850948198 / 2 ^ 53)"
    unfolding fsub_def MIN_VALID_FRACTION_def fl_four_fifths by simp
  also have "\<dots> = 1801439850948198 / 2 ^ 53"
    by (rule fl_exact [of _ 1801439850948198 "- 53"]) (simp_all add: power_int_def field_simps)
  finally show ?thesis .
qed

lemma fl_fifth: "fl (1 / 5) = 7205759403792794 / 2 ^ 55"
proof -
  have "fl (1 / 5) = of_int 7205759403792794 / 2 ^ 55" by (rule fl_nearest) simp_all
  then show ?thesis by (simp only: of_int_numeral)
qed

lemma ours_below_fifth:
  assumes "0 < t" "t < 2 ^ 50"
  shows "ours m t MIN_VALID_FRACTION \<longleftrightarrow> 5 * m < t"
proof (cases "5 * m < t")
  case True
  let ?x = "of_nat m / of_nat t :: rat"
  have t: "(0 :: rat) < of_nat t" "(of_nat t :: rat) < 2 ^ 50"
    using assms of_nat_less_iff [of t "2 ^ 50", where 'a = rat] by simp_all
  have "5 * of_nat m + 1 \<le> (of_nat t :: rat)"
    using True by (metis Suc_leI of_nat_le_iff of_nat_mult of_nat_numeral of_nat_Suc add.commute)
  then have gap: "?x + 1 / (5 * of_nat t) \<le> 1 / 5" using t by (simp add: field_simps)
  have big: "1 / (5 * 2 ^ 50) \<le> 1 / (5 * of_nat t :: rat)" using t by (simp add: field_simps)
  have "\<bar>?x\<bar> \<le> 1 / 5"
  proof -
    have "0 \<le> ?x" "0 \<le> 1 / (5 * of_nat t :: rat)" by simp_all
    then show ?thesis using gap by linarith
  qed
  then have "fl ?x \<le> ?x + 1 / 5 / 2 ^ 53" by (rule fl_near)
  moreover have "1 / 5 - 1 / (5 * 2 ^ 50) + 1 / 5 / 2 ^ 53 \<le> (1801439850948198 / 2 ^ 53 :: rat)" by simp
  ultimately have "fl ?x \<le> 1801439850948198 / 2 ^ 53" using gap big by linarith
  then show ?thesis using True by (simp add: ours_def fdiv_def slack)
next
  case False
  then have "of_nat t \<le> (5 * of_nat m :: rat)" by (metis not_less of_nat_le_iff of_nat_mult of_nat_numeral)
  then have "1 / 5 \<le> (of_nat m / of_nat t :: rat)" using assms(1) by (simp add: field_simps)
  from fl_mono [OF this] have "\<not> fl (of_nat m / of_nat t :: rat) \<le> 1801439850948198 / 2 ^ 53"
    by (simp add: fl_fifth)
  then show ?thesis using False assms(1) by (simp add: ours_def fdiv_def slack)
qed

text \<open>
  C25. A fifth of the pairs lost by the challenger alone is the miner's fault. When too few pairs are
  valid, a run of fewer than 2^50 pairs is retried as the host's fault exactly when the challenger
  alone lost less than a fifth of them; from a fifth on it is a final fault of the miner. At a fifth
  the pairs it left would have been enough, had the host itself not lost any: the float of the
  tolerance is below that of a fifth.
\<close>

theorem blame_at_the_fifth:
  fixes samples kings challengers batches judge_count
  defines "t \<equiv> length samples" and "v \<equiv> valid_generated_pair_count samples kings challengers"
    and "m \<equiv> miner_failed_pair_count samples kings challengers"
    and "w \<equiv> remote_verdict samples kings challengers batches MIN_VALID_FRACTION judge_count"
  assumes "0 < t" "t < 2 ^ 50" "5 * v < 4 * t"
  shows "hv_state w = ''failed'' \<and> hv_retryable w = Some (5 * m < t) \<and>
    (\<exists>msg. hv_fault w = Some (if 5 * m < t then ''REMOTE_EVAL_FAULT'' else ''MINER_FAULT'', ''insufficient_valid_samples'', msg)) \<and>
    (t = 5 * m \<longrightarrow> quorum (t - m) t \<and> hv_retryable w = Some False)"
proof -
  have "fdiv (of_nat v) (of_nat t) < MIN_VALID_FRACTION" using fraction_below [OF assms(5,6)] assms(7) by simp
  then have "snd (score_pairs samples kings challengers batches MIN_VALID_FRACTION judge_count) = too_few_summary v t m MIN_VALID_FRACTION"
    by (simp add: score_pairs_def Let_def v_def t_def m_def)
  then show ?thesis
    using ours_below_fifth [OF assms(5,6), of m] assms(5)
    by (auto simp: w_def remote_verdict_def build_verdict_def too_few_summary_def failed_summary_def quorum_def Let_def)
qed

text \<open>A decided run: enough pairs were valid, every batch came back, and the scores decide.\<close>

lemma decided_run:
  assumes "length samples < 2 ^ 50"
    "hv_state (remote_verdict samples kings challengers batches MIN_VALID_FRACTION judge_count) = ''succeeded''"
  shows "\<exists>scored. all_results batches = Inr scored \<and>
    quorum (valid_generated_pair_count samples kings challengers) (length samples) \<and>
    hv_won (remote_verdict samples kings challengers batches MIN_VALID_FRACTION judge_count) \<noteq> None \<and>
    quorum (length (filter (\<lambda>r. sr_scored (snd r)) scored)) (length samples)"
proof -
  let ?v = "valid_generated_pair_count samples kings challengers" and ?t = "length samples"
  have state: "hv_state (build_verdict samples kings challengers su) = ''succeeded'' \<longleftrightarrow> su_state su = ''succeeded''" for su
    by (simp add: build_verdict_def Let_def)
  have enough: "\<not> (?t = 0 \<or> fdiv (of_nat ?v) (of_nat ?t) < MIN_VALID_FRACTION)"
    using assms(2) by (auto simp: remote_verdict_def state score_pairs_def Let_def too_few_summary_def failed_summary_def)
  then have q: "quorum ?v ?t" using fraction_below [of ?t ?v] assms(1) by (simp add: quorum_def)
  obtain scored where scored: "all_results batches = Inr scored"
    using assms(2) enough by (auto simp: remote_verdict_def state score_pairs_def Let_def failed_summary_def split: sum.splits)
  define records where "records = map snd (sort_key (\<lambda>r. sample_order samples (fst r)) scored)"
  have su: "snd (score_pairs samples kings challengers batches MIN_VALID_FRACTION judge_count) =
      aggregate_scores records MIN_VALID_FRACTION (Some ?t)"
    using enough scored by (simp add: score_pairs_def Let_def records_def)
  then have good: "su_state (aggregate_scores records MIN_VALID_FRACTION (Some ?t)) = ''succeeded''"
    using assms(2) by (simp add: remote_verdict_def state)
  then have "\<not> fdiv (of_nat (length (filter sr_scored records))) (of_nat ?t) < MIN_VALID_FRACTION"
    using enough by (auto simp: aggregate_scores_def Let_def split: if_splits)
  then have "quorum (length (filter sr_scored records)) ?t"
    using fraction_below [of ?t] enough assms(1) by (simp add: quorum_def)
  moreover have "length (filter sr_scored records) = length (filter (\<lambda>r. sr_scored (snd r)) scored)"
  proof -
    have "length (filter (sr_scored \<circ> snd) (sort_key (\<lambda>r. sample_order samples (fst r)) scored)) =
        length (filter (sr_scored \<circ> snd) scored)"
      by (metis filter_sort length_sort)
    then show ?thesis by (simp add: records_def filter_map comp_def)
  qed
  moreover have "hv_won (remote_verdict samples kings challengers batches MIN_VALID_FRACTION judge_count) \<noteq> None"
    using good by (auto simp: remote_verdict_def su build_verdict_def aggregate_scores_def Let_def split: if_splits)
  ultimately show ?thesis using scored q by auto
qed

end
