(* ===== verification/RemoteRuns.thy ===== *)
theory RemoteRuns
  imports Prelude
begin

text \<open>
  The runs a GPU host has been given (src/src/albedo_eval_service/remote/state.py and the handlers of
  remote/api.py that change state). A run is one object that the store, the handlers and the worker's
  task share: the store is a dict from the id of the evaluation to it, and what a worker does to its
  run is done to the entry. Times are whole seconds, the state of a run is the text the code gives it.
\<close>

section \<open>Runs\<close>

record remote_request =
  rq_eval_run_id :: nat
  rq_judge_count :: int
  rq_allowed_scores :: "rat list"
  rq_sample_count :: int
  rq_accelerator :: string
  rq_tensor_parallel :: int

record remote_run =
  rr_request :: remote_request
  rr_state :: string
  rr_events :: "json list"
  rr_created_at :: int
  rr_updated_at :: int
  rr_worker_started :: bool

definition set_state :: "int \<Rightarrow> string \<Rightarrow> remote_run \<Rightarrow> remote_run" where
  "set_state now st r = r\<lparr>rr_state := st, rr_updated_at := now\<rparr>"

definition append_event :: "int \<Rightarrow> json \<Rightarrow> remote_run \<Rightarrow> remote_run" where
  "append_event now e r = r\<lparr>rr_events := rr_events r @ [e], rr_updated_at := now\<rparr>"

definition fail_run :: "int \<Rightarrow> string \<Rightarrow> string \<Rightarrow> remote_run \<Rightarrow> remote_run" where
  "fail_run now code msg r = set_state now ''failed'' (append_event now (JObj
     [(''type'', JStr ''verdict''), (''eval_run_id'', JId (rq_eval_run_id (rr_request r))), (''state'', JStr ''failed''),
      (''fault_class'', JStr ''REMOTE_EVAL_FAULT''), (''fault_code'', JStr code), (''fault_message'', JStr msg),
      (''retryable'', JBool True), (''artifacts'', JObj [])]) r)"

definition is_verdict :: "json \<Rightarrow> bool" where
  "is_verdict e \<longleftrightarrow> jget ''type'' e = JStr ''verdict''"

definition final_verdict :: "remote_run \<Rightarrow> json option" where
  "final_verdict r = find is_verdict (rev (rr_events r))"

text \<open>\<open>isoformat\<close> of the two times is an argument.\<close>

definition as_status :: "(int \<Rightarrow> string) \<Rightarrow> remote_run \<Rightarrow> json" where
  "as_status isoformat r = (case final_verdict r of
     Some v \<Rightarrow> if truthy v then v else JNull
   | None \<Rightarrow> JObj [(''remote_run_id'', JId (rq_eval_run_id (rr_request r))),
       (''eval_run_id'', JId (rq_eval_run_id (rr_request r))), (''state'', JStr (rr_state r)),
       (''created_at'', JStr (isoformat (rr_created_at r))), (''updated_at'', JStr (isoformat (rr_updated_at r)))])"

definition smoke_events :: "remote_request \<Rightarrow> bool \<Rightarrow> rat \<Rightarrow> rat \<Rightarrow> json list" where
  "smoke_events rq won score_challenger score_king =
     [JObj [(''type'', JStr ''generation_started''), (''eval_run_id'', JId (rq_eval_run_id rq)),
        (''message'', JStr ''Smoke generation event emitted by control-plane test mode'')],
      JObj [(''type'', JStr ''scoring_started''), (''eval_run_id'', JId (rq_eval_run_id rq)),
        (''message'', JStr ''Smoke scoring event emitted by control-plane test mode'')],
      JObj [(''type'', JStr ''verdict''), (''eval_run_id'', JId (rq_eval_run_id rq)), (''state'', JStr ''succeeded''),
        (''challenger_won'', JBool won), (''score_challenger'', JNum score_challenger), (''score_king'', JNum score_king),
        (''judge_count'', JInt (rq_judge_count rq)), (''allowed_scores'', JList (map JNum (rq_allowed_scores rq))),
        (''valid_turns'', JInt (rq_sample_count rq)), (''total_turns'', JInt (rq_sample_count rq)),
        (''king_vllm_errors'', JInt 0), (''chal_vllm_errors'', JInt 0), (''judge_errors'', JInt 0),
        (''gpu_topology'', JObj [(''accelerator'', JStr (rq_accelerator rq)),
           (''previous_king'', JList (map JStr [''0'', ''1'', ''2'', ''3''])),
           (''challenger'', JList (map JStr [''4'', ''5'', ''6'', ''7''])),
           (''tensor_parallel_size_per_model'', JInt (rq_tensor_parallel rq))]),
        (''artifacts'', JObj [])]]"

section \<open>The store\<close>

type_synonym runs = "(nat \<times> remote_run) list"

definition new_run :: "int \<Rightarrow> remote_request \<Rightarrow> remote_run" where
  "new_run now rq = \<lparr>rr_request = rq, rr_state = ''accepted'', rr_events = [], rr_created_at = now,
     rr_updated_at = now, rr_worker_started = False\<rparr>"

definition started_event :: "remote_request \<Rightarrow> json" where
  "started_event rq = JObj [(''type'', JStr ''eval_started''), (''remote_run_id'', JId (rq_eval_run_id rq)),
     (''eval_run_id'', JId (rq_eval_run_id rq)), (''message'', JStr ''Remote eval run accepted'')]"

text \<open>With \<open>auto_verdict\<close> the smoke scores; \<open>1 - 0.58\<close> and \<open>1 - 0.42\<close> are given with them.\<close>

definition start_run :: "int \<Rightarrow> remote_request \<Rightarrow> (bool \<times> rat \<times> rat) option \<Rightarrow> runs \<Rightarrow> remote_run \<times> runs" where
  "start_run now rq auto_verdict d = (case map_of d (rq_eval_run_id rq) of
     Some r \<Rightarrow> (r, d)
   | None \<Rightarrow>
       let r = append_event now (started_event rq) (new_run now rq);
         r' = (case auto_verdict of None \<Rightarrow> r | Some (won, c, k) \<Rightarrow>
           set_state now ''succeeded'' (fold (append_event now) (smoke_events rq won c k) r))
       in (r', dict_put (rq_eval_run_id rq) r' d))"

definition run_over :: "remote_run \<Rightarrow> bool" where
  "run_over r \<longleftrightarrow> rr_state r \<in> {''succeeded'', ''failed''}"

definition mark_worker_started :: "int \<Rightarrow> nat \<Rightarrow> runs \<Rightarrow> remote_run option \<times> runs" where
  "mark_worker_started now i d = (case map_of d i of
     None \<Rightarrow> (None, d)
   | Some r \<Rightarrow> if rr_worker_started r \<or> run_over r then (None, d)
       else let r' = set_state now ''queued'' (r\<lparr>rr_worker_started := True\<rparr>) in (Some r', dict_put i r' d))"

definition list_active :: "runs \<Rightarrow> remote_run list" where
  "list_active d = filter (\<lambda>r. \<not> run_over r) (map snd d)"

section \<open>The handlers\<close>

text \<open>\<open>gh_tasks\<close> are the runs a background task was queued for, in order.\<close>

record gpu_host =
  gh_runs :: runs
  gh_tasks :: "nat list"
  gh_inflight :: "string list"
  gh_failed_at :: "(string \<times> rat) list"
  gh_prefetches :: "string list"

datatype http_error = Not_ready | Not_found | Empty_uri

definition start_eval_run :: "bool \<Rightarrow> (bool \<times> rat \<times> rat) option \<Rightarrow> int \<Rightarrow> remote_request \<Rightarrow> gpu_host \<Rightarrow>
    (http_error + nat \<times> string) \<times> gpu_host" where
  "start_eval_run ready auto_verdict now rq g =
     (if \<not> ready then (Inl Not_ready, g) else
      let i = rq_eval_run_id rq; (r, d) = start_run now rq auto_verdict (gh_runs g) in
      if auto_verdict \<noteq> None then (Inr (i, rr_state r), g\<lparr>gh_runs := d\<rparr>)
      else case mark_worker_started now i d of
        (None, d') \<Rightarrow> (Inr (i, rr_state r), g\<lparr>gh_runs := d'\<rparr>)
      | (Some q, d') \<Rightarrow> (Inr (i, rr_state q), g\<lparr>gh_runs := d', gh_tasks := gh_tasks g @ [i]\<rparr>))"

definition update_run :: "nat \<Rightarrow> (remote_run \<Rightarrow> remote_run) \<Rightarrow> gpu_host \<Rightarrow> gpu_host" where
  "update_run i f g = (case map_of (gh_runs g) i of None \<Rightarrow> g
     | Some r \<Rightarrow> g\<lparr>gh_runs := dict_put i (f r) (gh_runs g)\<rparr>)"

definition cancel_eval_run :: "int \<Rightarrow> nat \<Rightarrow> gpu_host \<Rightarrow> (http_error + nat \<times> string) \<times> gpu_host" where
  "cancel_eval_run now i g = (case map_of (gh_runs g) i of
     None \<Rightarrow> (Inl Not_found, g)
   | Some r \<Rightarrow> (Inr (i, ''failed''),
       update_run i (fail_run now ''remote_run_cancelled'' ''Remote run cancelled by backend'') g))"

definition get_eval_run :: "(int \<Rightarrow> string) \<Rightarrow> nat \<Rightarrow> gpu_host \<Rightarrow> http_error + json" where
  "get_eval_run isoformat i g = (case map_of (gh_runs g) i of None \<Rightarrow> Inl Not_found | Some r \<Rightarrow> Inr (as_status isoformat r))"

definition get_eval_run_events :: "nat \<Rightarrow> gpu_host \<Rightarrow> http_error + json list" where
  "get_eval_run_events i g = (case map_of (gh_runs g) i of None \<Rightarrow> Inl Not_found | Some r \<Rightarrow> Inr (rr_events r))"

definition PREFETCH_FAILURE_COOLDOWN_S :: rat where
  "PREFETCH_FAILURE_COOLDOWN_S = 900"

definition prefetch_model :: "rat \<Rightarrow> string \<Rightarrow> gpu_host \<Rightarrow> (http_error + string \<times> string) \<times> gpu_host" where
  "prefetch_model monotonic given_uri g = (let uri = strip given_uri in
     if uri = [] then (Inl Empty_uri, g)
     else if uri \<in> set (gh_inflight g) then (Inr (uri, ''in_progress''), g)
     else if (case map_of (gh_failed_at g) uri of None \<Rightarrow> False
        | Some failed \<Rightarrow> monotonic - failed < PREFETCH_FAILURE_COOLDOWN_S) then (Inr (uri, ''failure_cooldown''), g)
     else (Inr (uri, ''started''),
       g\<lparr>gh_inflight := gh_inflight g @ [uri], gh_prefetches := gh_prefetches g @ [uri]\<rparr>))"

text \<open>The end of a prefetch that was started, resolved or not.\<close>

definition prefetch_ends :: "rat \<Rightarrow> string \<Rightarrow> bool \<Rightarrow> gpu_host \<Rightarrow> gpu_host" where
  "prefetch_ends monotonic uri resolved g =
     g\<lparr>gh_failed_at := (if resolved then filter (\<lambda>(k, _). k \<noteq> uri) (gh_failed_at g)
         else dict_put uri monotonic (gh_failed_at g)),
       gh_inflight := filter (\<lambda>k. k \<noteq> uri) (gh_inflight g)\<rparr>"

section \<open>What happens on a host\<close>

text \<open>
  Requests, and what the worker of a run does to it: an event, a state, the final verdict with its
  state (\<open>_execute\<close>), or the failure \<open>execute\<close> records when it raised.
\<close>

datatype host_event =
    Starts bool "(bool \<times> rat \<times> rat) option" int remote_request
  | Cancels int nat
  | Emits int nat json
  | Enters int nat string
  | Reports int nat json
  | Raises int nat string
  | Prefetches rat string
  | Fetched rat string bool

definition report_verdict :: "int \<Rightarrow> json \<Rightarrow> remote_run \<Rightarrow> remote_run" where
  "report_verdict now v r = set_state now (py_str (jget ''state'' v)) (append_event now v r)"

fun host_step :: "gpu_host \<Rightarrow> host_event \<Rightarrow> gpu_host" where
  "host_step g (Starts ready auto_verdict now rq) = snd (start_eval_run ready auto_verdict now rq g)"
| "host_step g (Cancels now i) = snd (cancel_eval_run now i g)"
| "host_step g (Emits now i e) = (if i \<in> set (gh_tasks g) then update_run i (append_event now e) g else g)"
| "host_step g (Enters now i st) = (if i \<in> set (gh_tasks g) then update_run i (set_state now st) g else g)"
| "host_step g (Reports now i v) = (if i \<in> set (gh_tasks g) then update_run i (report_verdict now v) g else g)"
| "host_step g (Raises now i msg) = (if i \<in> set (gh_tasks g)
     then update_run i (fail_run now ''remote_worker_failed'' msg) g else g)"
| "host_step g (Prefetches now uri) = snd (prefetch_model now uri g)"
| "host_step g (Fetched now uri resolved) = (if uri \<in> set (gh_inflight g) then prefetch_ends now uri resolved g else g)"

definition new_host :: gpu_host where
  "new_host = \<lparr>gh_runs = [], gh_tasks = [], gh_inflight = [], gh_failed_at = [], gh_prefetches = []\<rparr>"

definition host_after :: "host_event list \<Rightarrow> gpu_host" where
  "host_after es = foldl host_step new_host es"

section \<open>One worker per run\<close>

definition worker_on :: "runs \<Rightarrow> nat \<Rightarrow> bool" where
  "worker_on d i \<longleftrightarrow> (case map_of d i of None \<Rightarrow> False | Some r \<Rightarrow> rr_worker_started r)"

lemma worker_on_put [simp]: "worker_on (dict_put k r d) i \<longleftrightarrow> (if i = k then rr_worker_started r else worker_on d i)"
  by (simp add: worker_on_def map_of_dict_put)

definition host_inv :: "gpu_host \<Rightarrow> bool" where
  "host_inv g \<longleftrightarrow> distinct (map fst (gh_runs g)) \<and> distinct (gh_tasks g) \<and>
     (\<forall>i \<in> set (gh_tasks g). worker_on (gh_runs g) i) \<and> distinct (gh_inflight g)"

lemma run_flags [simp]:
  "rr_worker_started (set_state now st r) = rr_worker_started r"
  "rr_worker_started (append_event now e r) = rr_worker_started r"
  "rr_worker_started (fail_run now code msg r) = rr_worker_started r"
  "rr_worker_started (report_verdict now v r) = rr_worker_started r"
  by (simp_all add: set_state_def append_event_def fail_run_def report_verdict_def)

lemma update_run_inv:
  assumes "host_inv g" "\<And>r. rr_worker_started (f r) = rr_worker_started r"
  shows "host_inv (update_run i f g)"
proof (cases "map_of (gh_runs g) i")
  case (Some r)
  have "worker_on (dict_put i (f r) (gh_runs g)) k = worker_on (gh_runs g) k" for k
    using Some by (simp add: assms(2)) (simp add: worker_on_def)
  then show ?thesis using assms(1) Some by (simp add: host_inv_def update_run_def distinct_dict_put)
qed (use assms(1) in \<open>simp add: update_run_def\<close>)

lemma start_run_cases:
  assumes "start_run now rq auto_verdict d = (r, d')"
  shows "map_of d' (rq_eval_run_id rq) = Some r" "\<And>i. i \<noteq> rq_eval_run_id rq \<Longrightarrow> map_of d' i = map_of d i"
    "map_of d (rq_eval_run_id rq) \<noteq> None \<Longrightarrow> d' = d" "distinct (map fst d) \<Longrightarrow> distinct (map fst d')"
  using assms by (auto simp: start_run_def Let_def map_of_dict_put distinct_dict_put split: option.splits)

lemma start_inv:
  assumes "host_inv g"
  shows "host_inv (snd (start_eval_run ready auto_verdict now rq g))"
proof -
  obtain r d where d: "start_run now rq auto_verdict (gh_runs g) = (r, d)" by fastforce
  note new = start_run_cases [OF d]
  have old: "worker_on d i" if "worker_on (gh_runs g) i" for i
    using that new(2,3) by (cases "i = rq_eval_run_id rq") (auto simp: worker_on_def split: option.splits)
  have inv: "distinct (map fst d)" "distinct (gh_tasks g)" "\<forall>i \<in> set (gh_tasks g). worker_on d i" "distinct (gh_inflight g)"
    using assms old new(4) by (auto simp: host_inv_def)
  show ?thesis
  proof (cases "auto_verdict = None \<and> ready \<and> \<not> rr_worker_started r \<and> \<not> run_over r")
    case True
    then have "rq_eval_run_id rq \<notin> set (gh_tasks g)" using inv(3) new(1) by (auto simp: worker_on_def)
    with True inv new(1) d show ?thesis
      by (simp add: start_eval_run_def mark_worker_started_def host_inv_def Let_def distinct_dict_put del: map_of_eq_Some_iff)
  next
    case False
    with inv new(1) assms show ?thesis
      by (auto simp: start_eval_run_def d mark_worker_started_def host_inv_def Let_def simp del: map_of_eq_Some_iff split: option.splits)
  qed
qed

lemma host_step_inv: "host_inv g \<Longrightarrow> host_inv (host_step g e)"
proof (cases e)
  case (Prefetches now uri)
  moreover assume "host_inv g"
  ultimately show ?thesis by (auto simp: prefetch_model_def host_inv_def Let_def split: option.splits)
next
  case (Fetched now uri resolved)
  moreover assume "host_inv g"
  ultimately show ?thesis by (simp add: prefetch_ends_def host_inv_def)
qed (auto simp: start_inv update_run_inv cancel_eval_run_def split: option.splits)

lemma host_after_inv: "host_inv (host_after es)"
proof -
  have "host_inv g \<Longrightarrow> host_inv (foldl host_step g es)" for g
    by (induction es arbitrary: g) (simp_all add: host_step_inv)
  moreover have "host_inv new_host" by (simp add: new_host_def host_inv_def)
  ultimately show ?thesis by (simp add: host_after_def)
qed

text \<open>Whatever is asked of a host, no run is given to two workers, and no model is fetched twice at a time.\<close>

lemma run_worked_once: "distinct (gh_tasks (host_after es)) \<and> distinct (gh_inflight (host_after es))"
  using host_after_inv [of es] by (simp add: host_inv_def)

text \<open>
  C26. A cancelled run goes on. The cancellation of a run whose task was queued is answered with the
  state failed, but the worker is not told: when it reports its verdict later, that verdict is what the
  host gives for the run, with its state. And a cancellation after the verdict makes a decided run a
  retryable failure.
\<close>

theorem cancelled_run_goes_on:
  fixes es i v t0 t1
  assumes "i \<in> set (gh_tasks (host_after es))" "is_verdict v"
  defines "reported \<equiv> host_after (es @ [Cancels t0 i, Reports t1 i v])"
    and "late \<equiv> host_after (es @ [Reports t0 i v, Cancels t1 i])"
  shows "fst (cancel_eval_run t0 i (host_after es)) = Inr (i, ''failed'') \<and>
    get_eval_run isoformat i reported = Inr v \<and>
    (\<exists>r. map_of (gh_runs reported) i = Some r \<and> rr_state r = py_str (jget ''state'' v)) \<and>
    (\<exists>w. get_eval_run isoformat i late = Inr w \<and> jget ''state'' w = JStr ''failed'' \<and> jget ''retryable'' w = JBool True)"
proof -
  obtain r where r: "map_of (gh_runs (host_after es)) i = Some r"
    using host_after_inv [of es] assms(1) by (auto simp: host_inv_def worker_on_def split: option.splits)
  have "truthy v" using assms(2) by (cases v) (auto simp: is_verdict_def)
  then show ?thesis
    using assms(1,2) r
    by (auto simp: reported_def late_def host_after_def cancel_eval_run_def update_run_def map_of_dict_put get_eval_run_def
        as_status_def final_verdict_def report_verdict_def fail_run_def set_state_def append_event_def is_verdict_def)
qed

end
