(* ===== verification/RemoteWitnesses.thy ===== *)
theory RemoteWitnesses
  imports PairsJudged RemoteVerdict RemoteRuns
begin

text \<open>
  A sample, a model that lists the directory and then submits, and the properties of the GPU host
  applied to them.
\<close>

section \<open>A model at work\<close>

definition listing :: string where
  "listing = ticks @ ''bash'' @ [CHR 0x0A] @ ''ls'' @ [CHR 0x0A] @ ticks"

definition task :: eval_sample where
  "task = \<lparr>es_id = ''s1'', es_prompt = ''Fix it'', es_target = None, es_messages = Some [user_says ''Fix it''],
     es_marker = [], es_command = [], es_mode = [], es_shared = 1\<rparr>"

definition quiet_host :: host where
  "quiet_host = \<lparr>find_marker = (\<lambda>_. None), bench_submitted = (\<lambda>_ _. False), creates_file = (\<lambda>_ _. False),
     chat_prompt = (\<lambda>ms. concat (map m_content ms)), token_limit = 100\<rparr>"

definition lister :: "eval_sample \<Rightarrow> gen_result" where
  "lister s = new_result (es_id s) listing None"

definition small_tree :: simulator where
  "small_tree s command = Inr ''a.py''"

lemma listing_usable: "unusable_turn listing False = []"
  by code_simp

lemma listing_block: "first_bash_block listing = ''ls''"
  by code_simp

lemma listing_going: "\<not> is_abandoned listing"
  by code_simp

lemma lister_ids: "keeps_id lister"
  by (simp add: keeps_id_def lister_def new_result_def)

lemma lister_turn: "one_turn quiet_host lister s = lister s"
proof -
  have "attempts 2 quiet_host lister s (lister s) [] = (lister s, [])"
    by (simp add: numeral_2_eq_2 lister_def new_result_def listing_usable Let_def)
  then show ?thesis
    using one_turn_settles [OF lister_ids, of quiet_host s]
    by (auto simp: settle_turn_def lister_def new_result_def listing_usable Let_def)
qed

lemma lister_observed: "simulate_observations quiet_host small_tree [(side, [s], [lister s])] =
    [((side, es_id s), observed_text (es_id s) ''a.py'')]"
  by (simp add: simulate_observations_def List.map_filter_def Let_def quick_observation_def lister_def new_result_def
      assistant_submitted_def submitted_after_def listing_block quiet_host_def small_tree_def)

theorem judges_read_the_conversation_witness:
  "map_option (map said) (g_turns (merge_sample quiet_host Challenger 2
      (result_rows 2 [walk 2 quiet_host lister small_tree Challenger task])
      (observation_rows 2 [walk 2 quiet_host lister small_tree Challenger task]) task)) =
    Some [user_says ''Fix it'', assistant_says listing, user_says ''a.py'', assistant_says listing]"
proof -
  let ?s = "with_messages quiet_host task [user_says ''Fix it'', assistant_says listing, user_says ''a.py'']"
  have "next_messages task (lister task) (observed_text (es_id task) ''a.py'') =
      [user_says ''Fix it'', assistant_says listing, user_says ''a.py'']"
    by (simp add: next_messages_def base_messages_def task_def lister_def new_result_def observed_text_def)
  then have "next_turn_samples quiet_host [task] [lister task] (simulate_observations quiet_host small_tree
      [(Challenger, [task], [lister task])]) Challenger = [?s]"
    using next_turn_single [of "lister task" task quiet_host small_tree Challenger, OF _ lister_observed]
    by (simp add: lister_def new_result_def observed_text_def ends_trajectory_def listing_going
        assistant_submitted_def submitted_after_def quiet_host_def)
  then have final: "last_turn 2 quiet_host lister small_tree Challenger task = (?s, lister ?s, [])"
    by (simp add: numeral_2_eq_2 lister_turn Let_def)
  have "no_early_marker quiet_host task (walk 2 quiet_host lister small_tree Challenger task)"
    by (simp add: no_early_marker_def quiet_host_def)
  moreover have "\<not> turn_failed Challenger (?s, lister ?s, [])"
    by (simp add: turn_failed_def lister_def new_result_def)
  moreover have "conversation quiet_host Challenger (?s, lister ?s, []) =
      [user_says ''Fix it'', assistant_says listing, user_says ''a.py'', assistant_says listing]"
    by (simp add: conversation_def lister_def new_result_def)
  ultimately show ?thesis
    using judges_read_the_conversation [OF lister_ids, of 2 2 "[]" "[]" Challenger task quiet_host small_tree]
    by (simp add: final)
qed

section \<open>A patch made in a comment\<close>

definition patch_host :: host where
  "patch_host = quiet_host\<lparr>find_marker := (\<lambda>c. if str_contains COMPLETE_MARKER c then Some COMPLETE_MARKER else None),
     bench_submitted := (\<lambda>c m. starts_with (''echo '' @ m) c), creates_file := (\<lambda>base c. str_contains (''git diff > '' @ base) c)\<rparr>"

definition commented_patch :: string where
  "commented_patch = ticks @ ''bash'' @ [CHR 0x0A] @ ''# after git diff > patch.txt'' @ [CHR 0x0A] @ ''echo '' @
     COMPLETE_MARKER @ '' && cat patch.txt'' @ [CHR 0x0A] @ ticks"

text \<open>The walk takes the turn for a submission of a patch nobody made, the merge for a submission.\<close>

lemma comment_read_twice:
  "\<not> assistant_submitted patch_host task commented_patch"
  "submitted_after patch_host task commented_patch [user_says ''Fix it'', assistant_says commented_patch]"
  by code_simp+

section \<open>Two rollouts, two models\<close>

definition two_rollouts :: job where
  "two_rollouts = job_for quiet_host (\<lambda>_. lister) small_tree (\<lambda>_. False) [task] 2 1 12"

theorem pairs_judged_once_witness:
  "\<exists>n st. stream_runs two_rollouts n st \<and> (\<nexists>st'. stream_step two_rollouts st st') \<and>
    (\<forall>b \<in> set (st_batches (flush st)). length b = 1) \<and>
    image_mset (\<lambda>p. es_id (fst p)) (mset (concat (st_batches (flush st)))) = {#''s1#r1'', ''s1#r2''#}"
proof -
  have one: "distinct (map es_id [task])" by simp
  have "job_ok two_rollouts" unfolding two_rollouts_def by (rule job_for_ok) (simp_all add: lister_ids)
  then obtain n st where run: "stream_runs two_rollouts n st" "\<nexists>st'. stream_step two_rollouts st st'"
    using runs_end by blast
  note once = pairs_judged_once [of "\<lambda>_. lister", OF lister_ids one, of quiet_host small_tree "\<lambda>_. False" 2 1 12,
    folded two_rollouts_def, OF run(1)]
  have ids: "map es_id (rollouts [task] 2) = [''s1#r1'', ''s1#r2'']"
    by code_simp
  have len: "length (final_results two_rollouts side) = length (rollouts [task] 2)" for side
    by (simp add: final_results_def merge_trajectory_results_def Let_def two_rollouts_def job_for_def)
  have "image_mset (\<lambda>p. es_id (fst p)) (mset (concat (st_batches (flush st)))) =
      mset (map (\<lambda>p. es_id (fst p)) (zip (rollouts [task] 2)
        (zip (final_results two_rollouts Previous_king) (final_results two_rollouts Challenger))))"
    using once run(2) by (metis mset_map)
  also have "map (\<lambda>p. es_id (fst p)) (zip (rollouts [task] 2)
      (zip (final_results two_rollouts Previous_king) (final_results two_rollouts Challenger))) =
      map es_id (map fst (zip (rollouts [task] 2)
      (zip (final_results two_rollouts Previous_king) (final_results two_rollouts Challenger))))" by (simp add: comp_def)
  also have "\<dots> = [''s1#r1'', ''s1#r2'']" using ids by (simp add: len)
  finally have "image_mset (\<lambda>p. es_id (fst p)) (mset (concat (st_batches (flush st)))) = {#''s1#r1'', ''s1#r2''#}"
    by simp
  moreover have "length b = 1" if "b \<in> set (st_batches (flush st))" for b
    using once run(2) that by (cases b) fastforce+
  ultimately show ?thesis using run by blast
qed

section \<open>A fifth lost, and a run cancelled\<close>

definition numbered :: "nat \<Rightarrow> eval_sample" where
  "numbered k = task\<lparr>es_id := show_nat k\<rparr>"

definition five :: "eval_sample list" where
  "five = map numbered [1, 2, 3, 4, 5]"

text \<open>The king lost the first sample, the challenger the last.\<close>

definition kings_of_five :: "gen_result list" where
  "kings_of_five = map (\<lambda>s. new_result (es_id s) ''done'' (if es_id s = ''1'' then Some ''ReadTimeout'' else None)) five"

definition challengers_of_five :: "gen_result list" where
  "challengers_of_five = map (\<lambda>s. new_result (es_id s) ''done'' (if es_id s = ''5'' then Some ''ReadTimeout'' else None)) five"

lemma five_counts:
  "valid_generated_pair_count five kings_of_five challengers_of_five = 3"
  "miner_failed_pair_count five kings_of_five challengers_of_five = 1"
  by code_simp+

theorem blame_at_the_fifth_witness:
  "\<exists>msg. hv_fault (remote_verdict five kings_of_five challengers_of_five [] MIN_VALID_FRACTION 3) =
      Some (''MINER_FAULT'', ''insufficient_valid_samples'', msg) \<and>
    hv_retryable (remote_verdict five kings_of_five challengers_of_five [] MIN_VALID_FRACTION 3) = Some False"
proof -
  have len: "length five = 5" by (simp add: five_def)
  show ?thesis
    using blame_at_the_fifth [of five kings_of_five challengers_of_five "[]" 3] by (simp add: five_counts len)
qed

definition small_request :: remote_request where
  "small_request = \<lparr>rq_eval_run_id = 7, rq_judge_count = 3, rq_allowed_scores = [0, 1], rq_sample_count = 8,
     rq_accelerator = ''B200'', rq_tensor_parallel = 4\<rparr>"

definition won_verdict :: json where
  "won_verdict = JObj [(''type'', JStr ''verdict''), (''state'', JStr ''succeeded''), (''challenger_won'', JBool True)]"

theorem cancelled_run_goes_on_witness:
  "get_eval_run (\<lambda>_. []) 7 (host_after [Starts True None 1 small_request, Cancels 2 7, Reports 3 7 won_verdict]) =
    Inr won_verdict"
proof -
  have "7 \<in> set (gh_tasks (host_after [Starts True None 1 small_request]))"
    by (simp add: host_after_def new_host_def start_eval_run_def start_run_def mark_worker_started_def small_request_def
        new_run_def append_event_def run_over_def Let_def map_of_dict_put)
  then show ?thesis
    using cancelled_run_goes_on [of 7 "[Starts True None 1 small_request]" won_verdict 2 "\<lambda>_. []" 3]
    by (simp add: is_verdict_def won_verdict_def)
qed

end
