(* ===== verification/Spec2Isabelle.thy ===== *)
theory Spec2Isabelle
  imports Witnesses StoreWitnesses ScoreWitnesses OverlayWitnesses ModelWitnesses RemoteWitnesses
begin

text \<open>
  Albedo runs a subnet in which miners submit language models. A submission is read off the chain,
  validated, pre-evaluated for stability, evaluated twice against the reigning kings by judges over
  sampled tasks, and, when it wins, crowned; a reign of at most five kings gets the chain's weights.
  The services share one PostgreSQL database and talk to each other through it: each takes its work
  from a queue of submissions in a state of its own and leaves them in the state the next one reads.
  Miners with private models upload them through a store of their own. Tasks are answered inside a
  simulated checkout, which follows shell commands over an overlay of files.

  What is here, from the bottom up, with the code each theory follows (paths under src/src/).

  \<^item> Prelude: JSON values and Python dicts, the text of numbers, string methods, tables as lists
    of rows with UPDATE, LIMIT and unique indexes, transactions as functions from a state to an
    exception or a value with the new state (an exception rolls everything back), exceptions of pure
    code as sums. The locale state_preorder gives what a statement leaves alone.
  \<^item> Schema (src/schema.sql): one record per row, one field per table, constraints as executable
    predicates, statements that raise when one fails. Enumerated columns are datatypes, times are
    whole seconds, ids are numbers drawn from a counter of the state.
  \<^item> Ledger: the invariant all queues share (at most one open attempt of a submission, in the stage
    its state names) and the locale stage_queue: claims over a queue keep it. It is interpreted for
    the validation, pre-evaluation, evaluation and reign queues.
  \<^item> Validation (model_validation/db.py, validate_worker.py), PreEval (sanity_service/db.py),
    EvalControl (albedo_eval_service/control), Reign (set_reign_worker/service.py), Weights
    (weight_setter/service.py), ChainIntake (chain_reader/db.py, chain_guard): the stores and workers
    of the stages, each operation with its guards, early returns and error outcomes.
  \<^item> ModelChecks (model_validation/validate, storage/preflight.py), Dedup (model_validation/dedup),
    ModelGate (process_model of validate_worker.py, the enforcement of gate.py, storage/download.py):
    what validation looks at in one model, from its file list to the bank of fingerprints in
    OpenSearch, the verdict and what the miner is told. ValidationLoop: the worker's loop around it.
  \<^item> Contracts, UploadStore, PrivateStore (private_store): keys, signals and manifests; the object
    store and token service as a state whose calls may be lost or refused, before or after taking
    effect; the access controller with every step of a registration, as a transition system store_step
    over arbitrary sequences of replies. The locale world_preorder gives what an action leaves alone.
  \<^item> Floats (Python's floats as rationals rounded to 53 bits), Sampling (shared/sampling.py),
    Scoring (judge_core.py, shared/verdict_levels.py), Alignment (vector_merge.py and the questions'
    normal form), Milestones (prompt_milestones.py, prompt_ladder.py): which samples are drawn, how
    answers become scores and a verdict, how readings of a task are aligned and merged, what of a
    model's milestones and questions is kept.
  \<^item> ShellParser (repo_context_service/shell.py): the parser of shell commands, whole.
  \<^item> Overlay, FileCommands, Schedule (repo_context_service/overlay.py and the paths and braces of
    command_search.py): the overlay of files, the commands that change files, the predictions of their
    success, and which stages of a list ran given how it ended. OverlaySound sets the overlay against
    the machine's real tree of files; its locale simulation lifts one matched step to a whole run.
    ShellRuns is no code of the repository: a semantics of shell lists (&&, ||, ;, cd, set -e, exit)
    written down on its own, as relations over grouped lists, which Schedule is measured against.
  \<^item> Globs: fnmatch, for the file commands and for the files a model may hold.
  \<^item> TurnText (shared/observation_format.py, shared/submit_protocol.py, shared/patch_lint.py), Trajectories
    and PairStream (albedo_eval_service/remote/worker.py, generation.py): what is read in the text of a
    turn, how a model works on a sample and what of it the judges get, and the threads that walk all
    samples and hand each finished pair to the judges, as the step relation stream_step over their
    interleavings. JudgedTurns sets the merged turns against the messages of the last request,
    PairsJudged follows the pairs through every interleaving.
  \<^item> RemoteVerdict (worker.py), RemoteRuns (remote/state.py, remote/api.py): what the GPU host makes of the
    results and the judges' batches, and the runs it has been given.
  \<^item> Witnesses, StoreWitnesses, ScoreWitnesses, OverlayWitnesses, ModelWitnesses, RemoteWitnesses: concrete databases,
    stores, readings, sessions and models, and each property with hypotheses applied to one.

  What the lemmas show. The queues: a claim takes the first row in the queue's order that may be
  claimed, gives it the only open attempt, and never fails on a database in order; outcomes, retries
  and sweeps move the submission as the stage's table says, within the retry cap; late completions
  change nothing; a crown needs two wins of which the second is against the reigning lead, and a
  promotion leaves one active reign, of distinct slots whose shares add up to 10000. The validation
  queue drains within the attempts its submissions have left; a model that passes holds what the checks
  ask for, a copy is kept out of the bank and blocks its hotkey. Weights: a payload
  pays each uid the double nearest to what its members are due, and its float sum is within 3e-12 of
  one. The private store: along every run a frozen or finished registration has no live token, and the
  reaper spares the current attempt's objects of an upload still needed; a verified upload is what its
  manifest says. A range read over the chunks of a file is those bytes of it, or an error. Scores: quotas of samples are kept whatever the generator draws,
  verdicts follow from a quorum and from decimal arithmetic on the means, the exact tie apart;
  alignments are partitions; what is kept of a milestone is quoted from the run. The simulated
  checkout: the shell parser always ends, in a parse, a refusal or the ValueError of int, and reads quoted
  words back; the schedule inferred of a list holds of the run the semantics of ShellRuns gives it; what
  the overlay claims of a path is so on the machine after any run, and what it predicts of a command
  holds for each operand by itself.
  The GPU host: the judges read what the model was shown and said, each pair once, whatever the threads do.
  Where the code goes wrong, a property states how: an event that arrives late and blocks all claims,
  a refresh that reopens a coronation, a window closed over a ready upload, digests that NUL bytes make
  ambiguous, command lines whose operands are read once, a removal that is predicted and refused, a model that is
  validated twice and taken for a copy of itself, a miner blamed for the host's failure, a cancelled run that
  goes on.

  Conventions. A text is the list of its bytes in UTF-8, in ShellParser of its characters, which are
  Latin-1, in Alignment of ASCII characters; slices and lengths are those of the texts the code meets
  there. Python reads at most 4300 digits of an integer: int_of_text raises beyond that, the numbers of
  a brace sequence and of a key's attempt are taken to be shorter. A clock, a random
  generator, a hash, a remote service, Unicode folding and whatever a service is given by another
  process are arguments, with what is relied on as a named hypothesis. Loops are recursions on their
  list, with a measure where they are not structural; the shell parser's main loop is an unbounded
  recursion that is proved to return. expand_braces has as fuel the number of opening braces of its
  word, one of which each turn uses up. The numbers the code bounds (retries, members of a reign,
  samples per repository, words of a brace list, open stages) are the constants of the code.

  Not modelled. The chain reader's access to the chain and the transaction of weights on it, the
  judges and their prompts (judge_api.py, judge_llm_client.py, the prompts of evaluator), the processes
  of the GPU hosts (the servers, datasets and artifacts of remote, and sanity_remote) and the model store
  drive remote services, processes and files; what they return enters as arguments. The generators
  PairStream is given are total: a failed generation is a result it gives, a thread that dies of an
  exception of its own is outside of the model. The sanity
  heuristics (sanity_service/checks.py, head_check.py, tail_check.py), the grounding of observations in
  observation_format.py and the answers of the simulated checkout (core.py, git_sim, sed.py,
  script_writes.py and the searches of command_search.py) are regular expressions and numeric
  thresholds over free text, with no contract to prove beyond themselves. Of deduplication the
  fingerprint (torch on a GPU) and the arithmetic of its signals (numpy) are arguments.
  Configuration, scripts, the miner's command line and the chat front end hold no state of the
  subnet. Of the database, foreign keys and secondary indexes are left out, and each transaction
  is taken to run alone: the row locks the statements take (FOR UPDATE SKIP LOCKED) are what makes
  it so.
\<close>

end
